(* ===== verification/Prelude.thy ===== *)
theory Prelude
  imports Main "HOL-Library.Word" "HOL-Library.Signed_Division" "HOL-Library.Monad_Syntax"
begin

text \<open>
  Vocabulary shared by the component theories of the FormationFlight core (lib/ff_core):
  the machine integer types of the C++ sources, C strings, reads of byte buffers, and the
  list, word and search lemmas that several components use.

  Conventions of the model. A C++ integer of \<open>n\<close> bits is an \<open>n word\<close>; signed
  types use the same words and are read with \<open>sint\<close>, so a C++ cast between the signed
  and the unsigned type of one width is the identity, exactly as on a two's complement
  machine. \<open>size_t\<close> values and array indices are \<open>nat\<close>. A buffer of \<open>len\<close> valid bytes
  is a list of that length; an access the C++ code would make outside the buffer is
  \<open>None\<close> of an \<open>option\<close>, never an unspecified value.
\<close>

unbundle bit_operations_syntax

section \<open>Machine integers\<close>

type_synonym u8 = "8 word"
type_synonym u16 = "16 word"
type_synonym u32 = "32 word"
type_synonym u64 = "64 word"
type_synonym i8 = "8 word"
type_synonym i16 = "16 word"
type_synonym i32 = "32 word"

type_synonym byte_list = "u8 list"

named_theorems wire_simps \<open>round trips of the byte readers and writers\<close>
named_theorems inv_intros \<open>each operation keeps its component's invariant\<close>
named_theorems frame_simps \<open>the fields an operation leaves alone\<close>

lemma u8_mask: "(255 :: 'a::len word) = mask 8"
  by (simp add: mask_eq_exp_minus_1)

lemma u8_and_255 [simp]: "(b :: u8) AND 255 = b"
  by (rule bit_word_eqI) (simp add: u8_mask bit_simps)

lemma unat_u8_lt [simp]: "unat (b :: u8) < 256"
  using unsigned_less [where 'a = nat, of b] by simp

lemma unat_u16_lt [simp]: "unat (b :: u16) < 65536"
  using unsigned_less [where 'a = nat, of b] by simp

lemma unat_u32_lt: "unat (b :: u32) < 4294967296"
  using unsigned_less [where 'a = nat, of b] by simp

lemma unat_of_nat_small:
  "n < 2 ^ LENGTH('a) \<Longrightarrow> unat (of_nat n :: 'a::len word) = n"
  by (simp add: unat_of_nat take_bit_nat_eq_self)

lemma unat_ucast_u8_u16 [simp]: "unat (ucast (b :: u8) :: u16) = unat b"
  by (simp add: unsigned_ucast_eq take_bit_nat_eq_self_iff less_trans [OF unat_u8_lt])

lemma unat_ucast_u8_u32 [simp]: "unat (ucast (b :: u8) :: u32) = unat b"
  by (simp add: unsigned_ucast_eq take_bit_nat_eq_self_iff less_trans [OF unat_u8_lt])

lemma unat_ucast_u16_u32 [simp]: "unat (ucast (b :: u16) :: u32) = unat b"
  by (simp add: unsigned_ucast_eq take_bit_nat_eq_self_iff less_trans [OF unat_u16_lt])

text \<open>Signed readings, by the unsigned ones.\<close>

lemma sint_by_unat:
  "sint (w :: 'a::len word) =
     (if unat w < 2 ^ (LENGTH('a) - 1) then int (unat w) else int (unat w) - 2 ^ LENGTH('a))"
proof -
  obtain n where n: "LENGTH('a) = Suc n" by (metis len_gt_0 gr0_implies_Suc)
  have u: "uint w < 2 * 2 ^ n" "0 \<le> uint w" using uint_lt2p [of w] n by simp_all
  have "sint w = take_bit (Suc n) (uint w + 2 ^ n) - 2 ^ n"
    using n by (simp add: sint_uint signed_take_bit_eq_take_bit_shift)
  also have "\<dots> = (uint w + 2 ^ n) mod (2 * 2 ^ n) - 2 ^ n"
    by (simp add: take_bit_eq_mod)
  also have "(uint w + 2 ^ n) mod (2 * 2 ^ n) =
      (if uint w < 2 ^ n then uint w + 2 ^ n else uint w - 2 ^ n)"
  proof (cases "uint w < 2 ^ n")
    case False
    have "(uint w + 2 ^ n) mod (2 * 2 ^ n) = (uint w - 2 ^ n + 1 * (2 * 2 ^ n)) mod (2 * 2 ^ n)"
      by (rule arg_cong [where f = "\<lambda>x. x mod _"]) simp
    also have "\<dots> = (uint w - 2 ^ n) mod (2 * 2 ^ n)" by (rule mod_mult_self1)
    also have "\<dots> = uint w - 2 ^ n" using u False by (intro mod_pos_pos_trivial) auto
    finally show ?thesis using False by simp
  qed (use u in \<open>simp add: mod_pos_pos_trivial\<close>)
  finally have "sint w = (if uint w < 2 ^ n then uint w else uint w - 2 * 2 ^ n)"
    by (simp split: if_splits)
  moreover have "uint w = int (unat w)" by simp
  moreover have "(int (unat w) < 2 ^ n) = (unat w < 2 ^ n)"
    by (metis of_nat_less_iff of_nat_numeral of_nat_power)
  ultimately show ?thesis using n by (simp only: diff_Suc_1 power_Suc if_distrib)
qed

lemmas sint_u8 = sint_by_unat [where 'a = 8, simplified]
lemmas sint_u16 = sint_by_unat [where 'a = 16, simplified]
lemmas sint_u32 = sint_by_unat [where 'a = 32, simplified]

lemma sint_nonneg_iff: "0 \<le> sint (w :: u32) \<longleftrightarrow> unat w < 2147483648"
  using uint_lt2p [of w] by (simp add: sint_u32)

lemma unat_uminus_u32: "unat (- w :: u32) = (if w = 0 then 0 else 4294967296 - unat w)"
  using unat_sub_if' [of 0 w] by (simp add: unat_eq_0)

lemma sint_neg_iff: "sint (w :: u32) < 0 \<longleftrightarrow> 2147483648 \<le> unat w"
  using sint_nonneg_iff [of w] by linarith

text \<open>A C++ remainder, brought into the range of a mathematical one.\<close>

lemma smod_mod: "0 < m \<Longrightarrow> (if (d :: int) smod m < 0 then d smod m + m else d smod m) = d mod m"
proof -
  assume m: "0 < m"
  have eq: "d smod m = sgn d * (\<bar>d\<bar> mod m)" using m by (simp add: signed_modulo_int_def)
  show ?thesis
  proof (cases "0 \<le> d")
    case True
    then have "d smod m = d mod m" using eq by (cases "d = 0") simp_all
    then show ?thesis by (metis m not_less pos_mod_sign)
  next
    case False
    then have s: "d smod m = - ((- d) mod m)" using eq by simp
    have r: "0 \<le> (- d) mod m" "(- d) mod m < m" by (rule pos_mod_sign [OF m], rule pos_mod_bound [OF m])
    show ?thesis
    proof (cases "(- d) mod m = 0")
      case True
      then have "d mod m = 0" using zmod_zminus1_eq_if [of "- d" m] by simp
      with s True show ?thesis by simp
    next
      case F: False
      have e: "d mod m = m - (- d) mod m" using zmod_zminus1_eq_if [of "- d" m] F by simp
      have "d smod m < 0" using s r F by linarith
      then show ?thesis unfolding s e by (simp only: if_True split: if_split)
    qed
  qed
qed

text \<open>
  The millisecond clock wraps every 49 days. An age is the unsigned difference of two
  readings, so it is right whenever the true age is below \<open>2 ^ 32\<close>.
\<close>

definition age_ms :: "u32 \<Rightarrow> u32 \<Rightarrow> u32" where
  "age_ms now since = now - since"

lemma age_ms_elapsed [simp]: "age_ms (t + d) t = d"
  by (simp add: age_ms_def)

lemma age_ms_self [simp]: "age_ms t t = 0"
  by (simp add: age_ms_def)

section \<open>C strings\<close>

text \<open>The visible part of a character array: everything before the first NUL.\<close>

definition cstr :: "byte_list \<Rightarrow> byte_list" where
  "cstr a = takeWhile (\<lambda>c. c \<noteq> 0) a"

lemma cstr_no_nul [simp]: "0 \<notin> set (cstr a)"
  unfolding cstr_def by (metis (full_types) set_takeWhileD)

lemma cstr_append_nul: "0 \<notin> set s \<Longrightarrow> cstr (s @ 0 # t) = s"
  unfolding cstr_def by (subst takeWhile_append2) auto

section \<open>First index of a list that satisfies a predicate\<close>

text \<open>
  The linear searches of the sources: \<open>for (i = 0; i < n; i++) if (p(a[i])) return i;\<close>.
\<close>

fun first_idx :: "('a \<Rightarrow> bool) \<Rightarrow> 'a list \<Rightarrow> nat option" where
  "first_idx p [] = None"
| "first_idx p (x # xs) = (if p x then Some 0 else map_option Suc (first_idx p xs))"

lemma first_idx_None [simp]: "first_idx p xs = None \<longleftrightarrow> (\<forall>x \<in> set xs. \<not> p x)"
  by (induction xs) auto

lemma first_idx_SomeD:
  "first_idx p xs = Some i \<Longrightarrow> i < length xs \<and> p (xs ! i) \<and> (\<forall>j < i. \<not> p (xs ! j))"
proof (induction xs arbitrary: i)
  case (Cons x xs)
  show ?case
  proof (cases "p x")
    case False
    with Cons.prems obtain k where "first_idx p xs = Some k" "i = Suc k" by auto
    with Cons.IH [of k] False show ?thesis by (auto simp: nth_Cons split: nat.splits)
  qed (use Cons.prems in auto)
qed simp

lemma first_idx_lt: "first_idx p xs = Some i \<Longrightarrow> i < length xs"
  by (drule first_idx_SomeD) simp

lemma first_idx_holds: "first_idx p xs = Some i \<Longrightarrow> p (xs ! i)"
  by (drule first_idx_SomeD) simp

lemma first_idx_exists: "i < length xs \<Longrightarrow> p (xs ! i) \<Longrightarrow> \<exists>j. first_idx p xs = Some j"
  by (cases "first_idx p xs") auto

lemma first_idx_unique:
  assumes "i < length xs" "p (xs ! i)" "\<And>j. j < length xs \<Longrightarrow> p (xs ! j) \<Longrightarrow> j = i"
  shows "first_idx p xs = Some i"
proof -
  obtain j where j: "first_idx p xs = Some j"
    using assms(1,2) first_idx_exists by blast
  with assms(3) [of j] show ?thesis by (auto dest: first_idx_SomeD)
qed

section \<open>Lists\<close>

lemma mod_wrap: "(a :: nat) < 2 * c \<Longrightarrow> a mod c = (if a < c then a else a - c)"
  by (metis add.commute le_add_diff_inverse2 less_diff_conv2 mod_add_self2 mod_less mult_2 not_less)

lemma nth_update_cases:
  "i < length xs \<Longrightarrow> (xs[i := x]) ! j = (if j = i then x else xs ! j)"
  by (simp add: nth_list_update)

lemma map_over_nth: "map (\<lambda>j. f (xs ! j)) [0..<length xs] = map f xs"
  by (rule nth_equalityI) auto

lemma filter_over_nth:
  "map (\<lambda>j. g (xs ! j)) (filter (\<lambda>j. p (xs ! j)) [0..<length xs]) = map g (filter p xs)"
proof -
  have "filter p xs = filter p (map ((!) xs) [0..<length xs])" by (simp add: map_nth)
  also have "\<dots> = map ((!) xs) (filter (\<lambda>j. p (xs ! j)) [0..<length xs])"
    by (simp add: filter_map comp_def)
  finally show ?thesis by simp
qed

lemma list_update_in_set: "i < length xs \<Longrightarrow> x \<in> set (xs[i := x])"
  by (simp add: set_update_memI)

lemma count_filter_nth:
  "length (filter p xs) = card {i. i < length xs \<and> p (xs ! i)}"
  by (simp add: length_filter_conv_card)

lemma take_drop_split: "i + n \<le> length xs \<Longrightarrow> take i xs @ take n (drop i xs) @ drop (i + n) xs = xs"
  by (metis append_take_drop_id drop_drop add.commute)

lemma filter_update_length:
  assumes "i < length xs" "\<not> p (xs ! i)" "p y"
  shows "length (filter p (xs[i := y])) = Suc (length (filter p xs))"
  using assms
proof (induction xs arbitrary: i)
  case (Cons x xs)
  then show ?case by (cases i) auto
qed simp

text \<open>A list whose length is a numeral, as explicit cells.\<close>

lemma length_numeral_Cons:
  "length xs = numeral n \<longleftrightarrow> (\<exists>x ys. xs = x # ys \<and> length ys = pred_numeral n)"
  by (cases xs) (auto simp: numeral_eq_Suc)

end
