(* ===== verification/Wire_Format.thy ===== *)
theory Wire_Format
  imports Prelude
begin

text \<open>
  lib/ff_core/wire_format.h: explicit little-endian serialisation. A writer
  advances a cursor past the bytes it writes, so here it appends to the bytes written so
  far; a reader advances past the bytes it consumes, so here it returns the value and the
  rest of the buffer, or \<open>None\<close> where the C++ cursor would run past the end.
\<close>

section \<open>Writers\<close>

definition put_u8 :: "byte_list \<Rightarrow> u8 \<Rightarrow> byte_list" where
  "put_u8 p v = p @ [v]"

definition put_u16 :: "byte_list \<Rightarrow> u16 \<Rightarrow> byte_list" where
  "put_u16 p v = p @ [ucast (v AND 0xFF), ucast (drop_bit 8 v AND 0xFF)]"

definition put_u32 :: "byte_list \<Rightarrow> u32 \<Rightarrow> byte_list" where
  "put_u32 p v = p @ map (\<lambda>i. ucast (drop_bit (8 * i) v AND 0xFF)) [0..<4]"

definition put_i16 :: "byte_list \<Rightarrow> i16 \<Rightarrow> byte_list" where
  "put_i16 p v = put_u16 p v"

definition put_i32 :: "byte_list \<Rightarrow> i32 \<Rightarrow> byte_list" where
  "put_i32 p v = put_u32 p v"

section \<open>Readers\<close>

definition get_u8 :: "byte_list \<Rightarrow> (u8 \<times> byte_list) option" where
  "get_u8 p = (case p of [] \<Rightarrow> None | b # q \<Rightarrow> Some (b, q))"

definition get_u16 :: "byte_list \<Rightarrow> (u16 \<times> byte_list) option" where
  "get_u16 p =
     (case p of
        b0 # b1 # q \<Rightarrow> Some (ucast b0 OR push_bit 8 (ucast b1), q)
      | _ \<Rightarrow> None)"

fun get_u32_from :: "nat \<Rightarrow> u32 \<Rightarrow> byte_list \<Rightarrow> (u32 \<times> byte_list) option" where
  "get_u32_from i v [] = (if i < 4 then None else Some (v, []))"
| "get_u32_from i v (b # q) =
     (if i < 4 then get_u32_from (Suc i) (v OR push_bit (8 * i) (ucast b)) q
      else Some (v, b # q))"

definition get_u32 :: "byte_list \<Rightarrow> (u32 \<times> byte_list) option" where
  "get_u32 p = get_u32_from 0 0 p"

definition get_i16 :: "byte_list \<Rightarrow> (i16 \<times> byte_list) option" where
  "get_i16 p = get_u16 p"

definition get_i32 :: "byte_list \<Rightarrow> (i32 \<times> byte_list) option" where
  "get_i32 p = get_u32 p"

section \<open>Lemmas\<close>

lemmas put_defs = put_u8_def put_u16_def put_u32_def put_i16_def put_i32_def

lemma length_put [simp]:
  "length (put_u8 p a) = length p + 1"
  "length (put_u16 p b) = length p + 2"
  "length (put_u32 p c) = length p + 4"
  "length (put_i16 p b) = length p + 2"
  "length (put_i32 p c) = length p + 4"
  by (simp_all add: put_defs)

text \<open>Writing at a cursor is writing from scratch, appended.\<close>

lemma put_cursor:
  "put_u8 p a = p @ put_u8 [] a"
  "put_u16 p b = p @ put_u16 [] b"
  "put_u32 p c = p @ put_u32 [] c"
  "put_i16 p b = p @ put_i16 [] b"
  "put_i32 p c = p @ put_i32 [] c"
  by (simp_all add: put_defs)

lemma get_u32_Cons4:
  "get_u32 (b0 # b1 # b2 # b3 # q) =
     Some (ucast b0 OR push_bit 8 (ucast b1) OR push_bit 16 (ucast b2) OR push_bit 24 (ucast b3), q)"
  by (cases q) (simp_all add: get_u32_def ac_simps)

lemma get_u32_short [simp]: "get_u32 p = None \<longleftrightarrow> length p < 4"
proof -
  consider "p = []" | a where "p = [a]" | a b where "p = [a, b]" | a b c where "p = [a, b, c]"
    | a b c d q where "p = a # b # c # d # q"
    by (metis list.exhaust)
  then show ?thesis by cases (simp_all add: get_u32_Cons4, simp_all add: get_u32_def)
qed

lemma get_u8_short [simp]: "get_u8 p = None \<longleftrightarrow> p = []"
  by (auto simp: get_u8_def split: list.splits)

lemma get_u16_short [simp]: "get_u16 p = None \<longleftrightarrow> length p < 2"
  by (auto simp: get_u16_def split: list.splits)

lemma get_u8_Cons [wire_simps]: "get_u8 (b # q) = Some (b, q)"
  by (simp add: get_u8_def)

lemma get_u16_Cons2 [wire_simps]:
  "get_u16 (b0 # b1 # q) = Some (ucast b0 OR push_bit 8 (ucast b1), q)"
  by (simp add: get_u16_def)

lemmas [wire_simps] = get_u32_Cons4

text \<open>The little-endian value of bytes cut out of a word is the word.\<close>

lemma u16_of_bytes:
  "ucast (ucast (v AND 0xFF) :: u8) OR push_bit 8 (ucast (ucast (drop_bit 8 v AND 0xFF) :: u8)) =
     (v :: u16)" (is "?l = v")
proof (rule bit_word_eqI)
  fix n assume "n < LENGTH(16)"
  then consider "n < 8" | "8 \<le> n" "n < 16" by force
  then show "bit ?l n = bit v n"
    by cases (auto simp: bit_simps u8_mask)
qed

lemma u32_of_bytes:
  "ucast (ucast (v AND 0xFF) :: u8) OR push_bit 8 (ucast (ucast (drop_bit 8 v AND 0xFF) :: u8)) OR
   push_bit 16 (ucast (ucast (drop_bit 16 v AND 0xFF) :: u8)) OR
   push_bit 24 (ucast (ucast (drop_bit 24 v AND 0xFF) :: u8)) = (v :: u32)" (is "?l = v")
proof (rule bit_word_eqI)
  fix n assume "n < LENGTH(32)"
  then consider "n < 8" | "8 \<le> n" "n < 16" | "16 \<le> n" "n < 24" | "24 \<le> n" "n < 32" by force
  then show "bit ?l n = bit v n"
    by cases (auto simp: bit_simps u8_mask)
qed

lemma put_u32_cells:
  "put_u32 [] v = [ucast (v AND 0xFF), ucast (drop_bit 8 v AND 0xFF),
     ucast (drop_bit 16 v AND 0xFF), ucast (drop_bit 24 v AND 0xFF)]"
  by (simp add: put_u32_def upt_rec)

text \<open>Round trips: what a writer wrote, the reader reads, leaving what follows.\<close>

lemma get_put_u8 [wire_simps]: "get_u8 (put_u8 [] v @ q) = Some (v, q)"
  by (simp add: get_u8_def put_u8_def)

lemma get_put_u16 [wire_simps]: "get_u16 (put_u16 [] v @ q) = Some (v, q)"
  by (simp add: get_u16_def put_u16_def u16_of_bytes)

lemma get_put_u32 [wire_simps]: "get_u32 (put_u32 [] v @ q) = Some (v, q)"
  by (simp add: put_u32_cells get_u32_Cons4 u32_of_bytes)

lemma get_put_i16 [wire_simps]: "get_i16 (put_i16 [] v @ q) = Some (v, q)"
  by (simp add: get_i16_def put_i16_def get_put_u16)

lemma get_put_i32 [wire_simps]: "get_i32 (put_i32 [] v @ q) = Some (v, q)"
  by (simp add: get_i32_def put_i32_def get_put_u32)

text \<open>The other direction: writing back what was read gives the bytes read.\<close>

lemma put_get_u16: "put_u16 [] (ucast b0 OR push_bit 8 (ucast b1)) = [b0, b1]"
proof -
  have "ucast ((ucast b0 OR push_bit 8 (ucast b1)) AND (0xFF :: u16)) = b0"
    by (rule bit_word_eqI) (auto simp: bit_simps u8_mask)
  moreover have "ucast (drop_bit 8 (ucast b0 OR push_bit 8 (ucast b1)) AND (0xFF :: u16)) = b1"
    by (rule bit_word_eqI) (auto simp: bit_simps u8_mask dest: bit_imp_le_length)
  ultimately show ?thesis by (simp add: put_u16_def)
qed

lemma put_get_u32:
  "put_u32 [] (ucast b0 OR push_bit 8 (ucast b1) OR push_bit 16 (ucast b2) OR push_bit 24 (ucast b3))
     = [b0, b1, b2, b3]" (is "put_u32 [] ?v = _")
proof -
  have "ucast (?v AND (0xFF :: u32)) = b0"
    by (rule bit_word_eqI) (auto simp: bit_simps u8_mask)
  moreover have "ucast (drop_bit 8 ?v AND (0xFF :: u32)) = b1"
    by (rule bit_word_eqI) (auto simp: bit_simps u8_mask dest: bit_imp_le_length)
  moreover have "ucast (drop_bit 16 ?v AND (0xFF :: u32)) = b2"
    by (rule bit_word_eqI) (auto simp: bit_simps u8_mask dest: bit_imp_le_length)
  moreover have "ucast (drop_bit 24 ?v AND (0xFF :: u32)) = b3"
    by (rule bit_word_eqI) (auto simp: bit_simps u8_mask dest: bit_imp_le_length)
  ultimately show ?thesis by (simp add: put_u32_cells)
qed

text \<open>Every reader that succeeds consumes exactly its width.\<close>

lemma get_u8_SomeD: "get_u8 p = Some (v, q) \<Longrightarrow> p = put_u8 [] v @ q"
  by (auto simp: get_u8_def put_u8_def split: list.splits)

lemma get_u16_SomeD: "get_u16 p = Some (v, q) \<Longrightarrow> p = put_u16 [] v @ q"
  by (auto simp: get_u16_def put_get_u16 split: list.splits)

lemma get_u32_SomeD:
  assumes "get_u32 p = Some (v, q)"
  shows "p = put_u32 [] v @ q"
proof -
  from assms have "\<not> length p < 4" by (metis get_u32_short option.distinct(1))
  then obtain a b c d r where p: "p = a # b # c # d # r"
    by (cases p rule: list.exhaust) (auto simp: numeral_eq_Suc Suc_le_length_iff not_less)
  with assms show ?thesis by (auto simp: get_u32_Cons4 put_get_u32)
qed

lemma get_i16_SomeD: "get_i16 p = Some (v, q) \<Longrightarrow> p = put_i16 [] v @ q"
  by (simp add: get_i16_def put_i16_def get_u16_SomeD)

lemma get_i32_SomeD: "get_i32 p = Some (v, q) \<Longrightarrow> p = put_i32 [] v @ q"
  by (simp add: get_i32_def put_i32_def get_u32_SomeD)

text \<open>A reader succeeds whenever enough bytes are left, and leaves the rest.\<close>

lemma get_u8_SomeI: "1 \<le> length p \<Longrightarrow> \<exists>v. get_u8 p = Some (v, drop 1 p)"
  by (cases p) (auto simp: get_u8_def)

lemma get_u16_SomeI:
  assumes "2 \<le> length p"
  shows "\<exists>v. get_u16 p = Some (v, drop 2 p)"
proof -
  obtain v q where g: "get_u16 p = Some (v, q)"
    using assms by (cases "get_u16 p") auto
  from get_u16_SomeD [OF g] have "drop 2 p = q" by (simp add: put_u16_def)
  with g show ?thesis by blast
qed

lemma get_u32_SomeI:
  assumes "4 \<le> length p"
  shows "\<exists>v. get_u32 p = Some (v, drop 4 p)"
proof -
  obtain v q where g: "get_u32 p = Some (v, q)"
    using assms by (cases "get_u32 p") auto
  from get_u32_SomeD [OF g] have "drop 4 p = q" by (simp add: put_u32_cells)
  with g show ?thesis by blast
qed

lemma get_i16_SomeI: "2 \<le> length p \<Longrightarrow> \<exists>v. get_i16 p = Some (v, drop 2 p)"
  by (simp add: get_i16_def get_u16_SomeI)

lemma get_i32_SomeI: "4 \<le> length p \<Longrightarrow> \<exists>v. get_i32 p = Some (v, drop 4 p)"
  by (simp add: get_i32_def get_u32_SomeI)

text \<open>The same at an offset of the buffer, the way the decoders walk it.\<close>

lemma get_at:
  "i + 1 \<le> length p \<Longrightarrow> \<exists>v. get_u8 (drop i p) = Some (v, drop (i + 1) p)"
  "i + 2 \<le> length p \<Longrightarrow> \<exists>v. get_u16 (drop i p) = Some (v, drop (i + 2) p)"
  "i + 2 \<le> length p \<Longrightarrow> \<exists>v. get_i16 (drop i p) = Some (v, drop (i + 2) p)"
  "i + 4 \<le> length p \<Longrightarrow> \<exists>v. get_u32 (drop i p) = Some (v, drop (i + 4) p)"
  "i + 4 \<le> length p \<Longrightarrow> \<exists>v. get_i32 (drop i p) = Some (v, drop (i + 4) p)"
  using get_u8_SomeI [of "drop i p"] get_u16_SomeI [of "drop i p"] get_i16_SomeI [of "drop i p"]
    get_u32_SomeI [of "drop i p"] get_i32_SomeI [of "drop i p"]
  by (simp_all add: le_diff_conv2 add.commute)

lemma get_i16_short [simp]: "get_i16 p = None \<longleftrightarrow> length p < 2"
  by (simp add: get_i16_def)

lemma get_i32_short [simp]: "get_i32 p = None \<longleftrightarrow> length p < 4"
  by (simp add: get_i32_def)

end
