(* ===== verification/Protocol.thy ===== *)
theory Protocol
  imports Wire_Format
begin

text \<open>
  lib/ff_core/protocol.h and protocol.cpp: the plaintext packets of the over-the-air
  protocol. An encoder returns the bytes it wrote, the empty list where the C++ returns 0.
  A decoder returns \<open>Inl\<close> of the \<open>DecodeResult\<close> that is not \<open>Ok\<close>, or \<open>Inr\<close>
  of the packet; the outer \<open>option\<close> is \<open>None\<close> only if the C++ would read past the
  buffer, which the lemmas below exclude for every input.

  A character array is the list of its initialised bytes. \<open>boundedLen\<close> reads it up to
  the first NUL or the bound, so the arrays given to the encoder hold a NUL or 15 bytes.
\<close>

section \<open>Packets\<close>

definition kProtocolVersion :: u8 where [simp]: "kProtocolVersion = 2"
definition kHeaderSize :: nat where [simp]: "kHeaderSize = 6"
definition kPositionPayloadSize :: nat where [simp]: "kPositionPayloadSize = 15"
definition kPositionPacketSize :: nat where
  [simp]: "kPositionPacketSize = kHeaderSize + kPositionPayloadSize"
definition kMaxNameLen :: nat where [simp]: "kMaxNameLen = 15"
definition kAnnounceMaxSize :: nat where
  [simp]: "kAnnounceMaxSize = kHeaderSize + 1 + kMaxNameLen + 4"
definition kFrameCryptoOverhead :: nat where [simp]: "kFrameCryptoOverhead = 10"
definition kPositionFrameSize :: nat where
  [simp]: "kPositionFrameSize = kPositionPacketSize + kFrameCryptoOverhead"
definition kAnnounceFrameSize :: nat where
  [simp]: "kAnnounceFrameSize = kAnnounceMaxSize + kFrameCryptoOverhead"

definition POSITION_FLAG_ARMED :: u8 where "POSITION_FLAG_ARMED = 1"
definition POSITION_FLAG_HAS_FIX :: u8 where "POSITION_FLAG_HAS_FIX = 2"

datatype packet_type = Position | Announce

fun packet_type_byte :: "packet_type \<Rightarrow> u8" where
  "packet_type_byte Position = 1"
| "packet_type_byte Announce = 2"

record header =
  h_version :: u8
  h_type :: packet_type
  h_uid :: u32

record position_packet =
  pp_uid :: u32
  pp_lat :: i32
  pp_lon :: i32
  pp_alt_m :: i16
  pp_speed_cms :: u16
  pp_course_ddeg :: u16
  pp_flags :: u8

record announce_packet =
  an_uid :: u32
  an_name :: byte_list
  an_capabilities :: u32

datatype decode_error = TooShort | BadVersion | BadType | LengthMismatch

section \<open>Encoders\<close>

definition writeHeader :: "byte_list \<Rightarrow> packet_type \<Rightarrow> u32 \<Rightarrow> byte_list" where
  "writeHeader p ty uid = put_u32 (put_u8 (put_u8 p kProtocolVersion) (packet_type_byte ty)) uid"

fun boundedLen :: "byte_list \<Rightarrow> nat \<Rightarrow> nat" where
  "boundedLen (c # s) (Suc m) = (if c \<noteq> 0 then Suc (boundedLen s m) else 0)"
| "boundedLen _ _ = 0"

definition encodePosition :: "position_packet \<Rightarrow> nat \<Rightarrow> byte_list" where
  "encodePosition p buf_len =
     (if buf_len < kPositionPacketSize then []
      else
        let c = writeHeader [] Position (pp_uid p);
            c = put_i32 c (pp_lat p);
            c = put_i32 c (pp_lon p);
            c = put_i16 c (pp_alt_m p);
            c = put_u16 c (pp_speed_cms p);
            c = put_u16 c (pp_course_ddeg p)
        in put_u8 c (pp_flags p))"

definition encodeAnnounce :: "announce_packet \<Rightarrow> nat \<Rightarrow> byte_list" where
  "encodeAnnounce a buf_len =
     (let name_len = boundedLen (an_name a) kMaxNameLen;
          total = kHeaderSize + 1 + name_len + 4
      in if buf_len < total then []
         else
           let c = writeHeader [] Announce (an_uid a);
               c = put_u8 c (of_nat name_len);
               c = foldl put_u8 c (take name_len (an_name a))
           in put_u32 c (an_capabilities a))"

section \<open>Decoders\<close>

definition peekHeader :: "byte_list \<Rightarrow> (decode_error + header) option" where
  "peekHeader buf =
     (if length buf < kHeaderSize then Some (Inl TooShort)
      else do {
        (version, c) \<leftarrow> get_u8 buf;
        (ty, c) \<leftarrow> get_u8 c;
        (uid, c) \<leftarrow> get_u32 c;
        Some (if version \<noteq> kProtocolVersion then Inl BadVersion
              else if ty \<noteq> packet_type_byte Position \<and> ty \<noteq> packet_type_byte Announce
              then Inl BadType
              else Inr \<lparr>h_version = version,
                        h_type = (if ty = packet_type_byte Position then Position else Announce),
                        h_uid = uid\<rparr>)
      })"

definition decodePosition :: "byte_list \<Rightarrow> (decode_error + position_packet) option" where
  "decodePosition buf = do {
     r \<leftarrow> peekHeader buf;
     case r of
       Inl e \<Rightarrow> Some (Inl e)
     | Inr hdr \<Rightarrow>
         if h_type hdr \<noteq> Position then Some (Inl BadType)
         else if length buf < kPositionPacketSize then Some (Inl TooShort)
         else do {
           (lat, c) \<leftarrow> get_i32 (drop kHeaderSize buf);
           (lon, c) \<leftarrow> get_i32 c;
           (alt_m, c) \<leftarrow> get_i16 c;
           (speed, c) \<leftarrow> get_u16 c;
           (course, c) \<leftarrow> get_u16 c;
           (flags, c) \<leftarrow> get_u8 c;
           Some (Inr \<lparr>pp_uid = h_uid hdr, pp_lat = lat, pp_lon = lon, pp_alt_m = alt_m,
             pp_speed_cms = speed, pp_course_ddeg = course, pp_flags = flags\<rparr>)
         }
   }"

fun get_bytes :: "nat \<Rightarrow> byte_list \<Rightarrow> (byte_list \<times> byte_list) option" where
  "get_bytes 0 p = Some ([], p)"
| "get_bytes (Suc n) p = do {
     (b, p) \<leftarrow> get_u8 p;
     (bs, p) \<leftarrow> get_bytes n p;
     Some (b # bs, p)
   }"

definition decodeAnnounce :: "byte_list \<Rightarrow> (decode_error + announce_packet) option" where
  "decodeAnnounce buf = do {
     r \<leftarrow> peekHeader buf;
     case r of
       Inl e \<Rightarrow> Some (Inl e)
     | Inr hdr \<Rightarrow>
         if h_type hdr \<noteq> Announce then Some (Inl BadType)
         else if length buf < kHeaderSize + 1 then Some (Inl TooShort)
         else do {
           (name_len, c) \<leftarrow> get_u8 (drop kHeaderSize buf);
           if unat name_len > kMaxNameLen then Some (Inl LengthMismatch)
           else if length buf < kHeaderSize + 1 + unat name_len + 4 then Some (Inl TooShort)
           else do {
             (name, c) \<leftarrow> get_bytes (unat name_len) c;
             (caps, c) \<leftarrow> get_u32 c;
             Some (Inr \<lparr>an_uid = h_uid hdr, an_name = name @ [0], an_capabilities = caps\<rparr>)
           }
         }
   }"

section \<open>Lemmas\<close>

lemma boundedLen_eq: "boundedLen s m = length (cstr (take m s))"
  by (induction s m rule: boundedLen.induct) (auto simp: cstr_def)

lemma boundedLen_le: "boundedLen s m \<le> m"
  by (induction s m rule: boundedLen.induct) auto

lemma boundedLen_le_length: "boundedLen s m \<le> length s"
  by (induction s m rule: boundedLen.induct) auto

lemma take_boundedLen: "take (boundedLen s m) s = cstr (take m s)"
  by (induction s m rule: boundedLen.induct) (auto simp: cstr_def)

lemma foldl_put_u8: "foldl put_u8 c bs = c @ bs"
  by (induction bs arbitrary: c) (auto simp: put_u8_def)

lemma get_bytes_append [wire_simps]: "get_bytes (length bs) (bs @ q) = Some (bs, q)"
  by (induction bs) (auto simp: get_u8_Cons)

lemma get_bytes_SomeI: "n \<le> length p \<Longrightarrow> get_bytes n p = Some (take n p, drop n p)"
  by (metis append_take_drop_id get_bytes_append length_take min.absorb2)

lemma writeHeader_eq:
  "writeHeader p ty uid = p @ [2, packet_type_byte ty] @ put_u32 [] uid"
  by (simp add: writeHeader_def put_u8_def put_u32_def)

lemma encodePosition_eq:
  assumes "kPositionPacketSize \<le> n"
  shows "encodePosition p n =
    [2, 1] @ put_u32 [] (pp_uid p) @ put_i32 [] (pp_lat p) @ put_i32 [] (pp_lon p) @
    put_i16 [] (pp_alt_m p) @ put_u16 [] (pp_speed_cms p) @ put_u16 [] (pp_course_ddeg p) @
    put_u8 [] (pp_flags p)"
  using assms by (simp add: encodePosition_def writeHeader_eq put_defs Let_def)

lemma length_encodePosition:
  "length (encodePosition p n) = (if n < kPositionPacketSize then 0 else kPositionPacketSize)"
  by (simp add: encodePosition_def writeHeader_eq Let_def)

lemma encodeAnnounce_eq:
  assumes "kHeaderSize + 1 + boundedLen (an_name a) kMaxNameLen + 4 \<le> n"
  shows "encodeAnnounce a n =
    [2, 2] @ put_u32 [] (an_uid a) @ [of_nat (length (cstr (take 15 (an_name a))))] @
    cstr (take 15 (an_name a)) @ put_u32 [] (an_capabilities a)"
  using assms
  using take_boundedLen [of "an_name a" 15]
  by (simp add: encodeAnnounce_def writeHeader_eq foldl_put_u8 put_defs Let_def boundedLen_eq)

lemma length_encodeAnnounce: "length (encodeAnnounce a n) \<le> min n kAnnounceMaxSize"
  using boundedLen_le [of "an_name a" 15]
  by (simp add: encodeAnnounce_def writeHeader_eq foldl_put_u8 Let_def
      min.absorb2 boundedLen_le_length)

lemma peekHeader_total: "\<exists>r. peekHeader buf = Some r"
proof (cases "length buf < 6")
  case False
  then obtain v t c where c: "buf = v # t # c" "4 \<le> length c"
    by (cases buf; cases "tl buf") auto
  then obtain x where "get_u32 c = Some x"
    by (metis get_u32_short not_less option.exhaust)
  with c show ?thesis by (cases x) (simp add: peekHeader_def get_u8_Cons)
qed (simp add: peekHeader_def)

lemma peekHeader_encoded [wire_simps]:
  "peekHeader ([2, packet_type_byte ty] @ put_u32 [] uid @ q) =
     Some (Inr \<lparr>h_version = 2, h_type = ty, h_uid = uid\<rparr>)"
  by (cases ty) (simp_all add: peekHeader_def get_u8_Cons get_put_u32)

lemma drop_header [simp]:
  "drop 6 (v # t # put_u32 [] uid @ q) = q"
  by (simp add: numeral_eq_Suc put_u32_cells)

text \<open>The header of an accepted packet is the header an encoder writes.\<close>

lemma peekHeader_InrD:
  assumes "peekHeader buf = Some (Inr h)"
  shows "buf = [2, packet_type_byte (h_type h)] @ put_u32 [] (h_uid h) @ drop 6 buf"
    and "h_version h = 2"
proof -
  from assms have len: "6 \<le> length buf"
    by (auto simp: peekHeader_def split: if_splits)
  then obtain v t c where buf: "buf = v # t # c" and lc: "4 \<le> length c"
    by (cases buf; cases "tl buf") auto
  then obtain u q where u: "get_u32 c = Some (u, q)"
    by (metis get_u32_short not_less option.exhaust surj_pair)
  note c = get_u32_SomeD [OF u]
  from assms buf u have
    h: "v = 2" "t = packet_type_byte (h_type h)" "h_uid h = u" "h_version h = 2"
    by (auto simp: peekHeader_def get_u8_Cons split: if_splits)
  have "drop 6 buf = q"
    by (simp add: buf c put_u32_cells)
  with h buf c show "buf = [2, packet_type_byte (h_type h)] @ put_u32 [] (h_uid h) @ drop 6 buf"
    and "h_version h = 2" by simp_all
qed

lemma decodePosition_total: "\<exists>r. decodePosition buf = Some r"
proof -
  obtain r where r: "peekHeader buf = Some r" using peekHeader_total by blast
  show ?thesis
  proof (cases "length buf < 21 \<or> (\<exists>e. r = Inl e)")
    case True
    with r show ?thesis by (auto simp: decodePosition_def split: sum.splits)
  next
    case False
    then have len: "21 \<le> length buf" by simp
    obtain v1 v2 v3 v4 v5 v6 where
      "get_i32 (drop 6 buf) = Some (v1, drop 10 buf)"
      "get_i32 (drop 10 buf) = Some (v2, drop 14 buf)"
      "get_i16 (drop 14 buf) = Some (v3, drop 16 buf)"
      "get_u16 (drop 16 buf) = Some (v4, drop 18 buf)"
      "get_u16 (drop 18 buf) = Some (v5, drop 20 buf)"
      "get_u8 (drop 20 buf) = Some (v6, drop 21 buf)"
      using len get_at(5) [of 6 buf] get_at(5) [of 10 buf] get_at(3) [of 14 buf]
        get_at(2) [of 16 buf] get_at(2) [of 18 buf] get_at(1) [of 20 buf]
      by auto
    with r show ?thesis by (auto simp: decodePosition_def split: sum.splits)
  qed
qed

lemma decodeAnnounce_total: "\<exists>r. decodeAnnounce buf = Some r"
proof -
  obtain r where r: "peekHeader buf = Some r" using peekHeader_total by blast
  show ?thesis
  proof (cases "length buf < 7 \<or> (\<exists>e. r = Inl e)")
    case True
    with r show ?thesis by (auto simp: decodeAnnounce_def split: sum.splits)
  next
    case False
    then obtain n c where n: "get_u8 (drop 6 buf) = Some (n, c)" and "c = drop 7 buf"
      using get_at(1) [of 6 buf] by auto
    then have c: "length c = length buf - 7" by simp
    show ?thesis
    proof (cases "length buf < 11 + unat n")
      case True
      with r n show ?thesis by (auto simp: decodeAnnounce_def split: sum.splits)
    next
      case False
      with c have g: "get_bytes (unat n) c = Some (take (unat n) c, drop (unat n) c)"
        "4 \<le> length (drop (unat n) c)"
        by (auto intro!: get_bytes_SomeI)
      then obtain x q where "get_u32 (drop (unat n) c) = Some (x, q)"
        by (cases "get_u32 (drop (unat n) c)") auto
      with r n g(1) show ?thesis by (auto simp: decodeAnnounce_def split: sum.splits)
    qed
  qed
qed


lemma peekHeader_cases:
  "peekHeader buf = Some (if length buf < 6 then Inl TooShort
     else if buf ! 0 \<noteq> 2 then Inl BadVersion
     else if buf ! 1 \<noteq> 1 \<and> buf ! 1 \<noteq> 2 then Inl BadType
     else Inr \<lparr>h_version = 2, h_type = (if buf ! 1 = 1 then Position else Announce),
            h_uid = fst (the (get_u32 (drop 2 buf)))\<rparr>)"
proof (cases "length buf < 6")
  case False
  then obtain v t c where buf: "buf = v # t # c" and lc: "4 \<le> length c"
    by (cases buf; cases "tl buf") auto
  then obtain u q where "get_u32 c = Some (u, q)"
    by (metis get_u32_short not_less option.exhaust surj_pair)
  with False buf show ?thesis by (simp add: peekHeader_def get_u8_Cons)
qed (simp add: peekHeader_def)

lemma decodePosition_ok_iff:
  "(\<exists>p. decodePosition buf = Some (Inr p)) \<longleftrightarrow> 21 \<le> length buf \<and> buf ! 0 = 2 \<and> buf ! 1 = 1"
proof -
  obtain r where r: "decodePosition buf = Some r" using decodePosition_total by blast
  show ?thesis
  proof (cases "21 \<le> length buf \<and> buf ! 0 = 2 \<and> buf ! 1 = 1")
    case True
    with r show ?thesis
      by (auto simp: decodePosition_def peekHeader_cases split: if_splits Option.bind_splits)
  next
    case False
    then show ?thesis
      by (auto simp: decodePosition_def peekHeader_cases split: if_splits)
  qed
qed

lemma decodePosition_canonical:
  assumes "decodePosition buf = Some (Inr p)"
  shows "buf = encodePosition p kPositionPacketSize @ drop 21 buf"
proof -
  from assms obtain h where h: "peekHeader buf = Some (Inr h)" "h_type h = Position"
    and len: "21 \<le> length buf"
    by (auto simp: decodePosition_def split: Option.bind_splits sum.splits if_splits)
  with assms obtain v1 c1 v2 c2 v3 c3 v4 c4 v5 c5 v6 c6 where
    g: "get_i32 (drop 6 buf) = Some (v1, c1)" "get_i32 c1 = Some (v2, c2)"
      "get_i16 c2 = Some (v3, c3)" "get_u16 c3 = Some (v4, c4)" "get_u16 c4 = Some (v5, c5)"
      "get_u8 c5 = Some (v6, c6)"
    and p: "p = \<lparr>pp_uid = h_uid h, pp_lat = v1, pp_lon = v2, pp_alt_m = v3,
             pp_speed_cms = v4, pp_course_ddeg = v5, pp_flags = v6\<rparr>"
    by (auto simp: decodePosition_def split: Option.bind_splits)
  note c = get_i32_SomeD [OF g(1)] get_i32_SomeD [OF g(2)] get_i16_SomeD [OF g(3)]
    get_u16_SomeD [OF g(4)] get_u16_SomeD [OF g(5)] get_u8_SomeD [OF g(6)]
  have buf: "buf = encodePosition p 21 @ c6"
    using peekHeader_InrD(1) [OF h(1)] h(2) c p by (simp add: encodePosition_eq)
  then have "drop 21 buf = c6"
    by (simp add: length_encodePosition)
  with buf show ?thesis by simp
qed

lemma decodePosition_encoded [wire_simps]:
  "21 \<le> n \<Longrightarrow> decodePosition (encodePosition p n @ rest) = Some (Inr p)"
  using peekHeader_encoded [of Position]
  by (simp add: decodePosition_def encodePosition_eq get_put_i32 get_put_i16 get_put_u16 get_put_u8)

lemma encodePosition_21: "21 \<le> n \<Longrightarrow> encodePosition p n = encodePosition p kPositionPacketSize"
  by (simp add: encodePosition_eq)

section \<open>Properties\<close>

text \<open>C39: A buffer decodes to a position packet exactly when it starts with that
  packet's encoding: the decoder inverts the encoder for every field value, ignores
  trailing bytes, and accepts nothing an encoder could not have written.\<close>

theorem decodePosition_iff_encoding:
  "decodePosition buf = Some (Inr p) \<longleftrightarrow> (\<exists>rest. buf = encodePosition p kPositionPacketSize @ rest)"
proof
  assume "decodePosition buf = Some (Inr p)"
  then show "\<exists>rest. buf = encodePosition p kPositionPacketSize @ rest"
    by (blast dest: decodePosition_canonical)
next
  assume "\<exists>rest. buf = encodePosition p kPositionPacketSize @ rest"
  then show "decodePosition buf = Some (Inr p)"
    by (auto simp: decodePosition_encoded)
qed

text \<open>Every buffer, of any length and content, is decoded without a read past its
  end, and the error reported is exactly the one its length, version byte and type byte
  call for.\<close>

theorem decodePosition_error_cases:
  "decodePosition buf = Some (Inl e) \<longleftrightarrow>
     (e = TooShort \<and> (length buf < 6 \<or> (buf ! 0 = 2 \<and> buf ! 1 = 1 \<and> length buf < 21))) \<or>
     (e = BadVersion \<and> 6 \<le> length buf \<and> buf ! 0 \<noteq> 2) \<or>
     (e = BadType \<and> 6 \<le> length buf \<and> buf ! 0 = 2 \<and> buf ! 1 \<noteq> 1)"
  (is "_ \<longleftrightarrow> ?R")
proof (cases "21 \<le> length buf \<and> buf ! 0 = 2 \<and> buf ! 1 = 1")
  case True
  then obtain p where "decodePosition buf = Some (Inr p)" using decodePosition_ok_iff by blast
  with True show ?thesis by auto
next
  case False
  then show ?thesis
    by (auto simp: decodePosition_def peekHeader_cases split: if_splits)
qed

text \<open>An announce decodes to what was encoded, with the name cut at its first NUL
  and at 15 bytes; the frame fits every buffer the encoder accepts.\<close>

theorem decodeAnnounce_encodeAnnounce:
  assumes "kAnnounceMaxSize \<le> n"
  shows "length (encodeAnnounce a n) \<le> n \<and>
    decodeAnnounce (encodeAnnounce a n @ rest) =
      Some (Inr (a\<lparr>an_name := cstr (take kMaxNameLen (an_name a)) @ [0]\<rparr>))"
proof -
  let ?nm = "cstr (take 15 (an_name a))"
  have len: "length ?nm \<le> 15"
    using boundedLen_le [of "an_name a" 15] by (simp add: boundedLen_eq)
  then have "unat (of_nat (length ?nm) :: u8) = length ?nm"
    by (simp add: unat_of_nat_small)
  with len assms peekHeader_encoded [of Announce] show ?thesis
    using length_encodeAnnounce [of a n]
    by (simp add: decodeAnnounce_def encodeAnnounce_eq boundedLen_eq get_u8_Cons get_bytes_append
        get_put_u32)
qed

theorem decodeAnnounce_encodeAnnounce_witness:
  "kAnnounceMaxSize \<le> 64 \<and>
   (let a = \<lparr>an_uid = 7, an_name = [70, 70, 0, 9], an_capabilities = 3\<rparr>
    in length (encodeAnnounce a 64) \<le> 64 \<and>
       decodeAnnounce (encodeAnnounce a 64 @ []) = Some (Inr (a\<lparr>an_name := [70, 70, 0]\<rparr>)))"
proof -
  have h: "kAnnounceMaxSize \<le> 64" by simp
  have "cstr (take kMaxNameLen [70, 70, 0, 9]) @ [0] = [70, 70, (0 :: u8)]"
    by (simp add: cstr_def)
  with h decodeAnnounce_encodeAnnounce
    [OF h, of "\<lparr>an_uid = 7, an_name = [70, 70, 0, 9], an_capabilities = 3\<rparr>" "[]"]
  show ?thesis by (simp add: Let_def)
qed

end
