(* ===== verification/Uid_Slots.thy ===== *)
theory Uid_Slots
  imports Prelude
begin

text \<open>
  The UID-keyed slot arrays of the core. The peer table (peer_table.cpp) and the replay
  table of the frame cipher (crypto.cpp) are both fixed arrays of slots that are searched
  linearly for a used slot with a given UID, and in which a new UID claims a free slot or
  a victim. The locale \<open>uid_slots\<close> states what such a slot type provides and proves,
  once, what the search returns after a slot is overwritten.
\<close>

definition slot_find :: "('a \<Rightarrow> u32) \<Rightarrow> ('a \<Rightarrow> bool) \<Rightarrow> u32 \<Rightarrow> 'a list \<Rightarrow> nat option" where
  "slot_find uid_of used u xs = first_idx (\<lambda>s. used s \<and> uid_of s = u) xs"

definition slots_distinct :: "('a \<Rightarrow> u32) \<Rightarrow> ('a \<Rightarrow> bool) \<Rightarrow> 'a list \<Rightarrow> bool" where
  "slots_distinct uid_of used xs \<longleftrightarrow>
     (\<forall>i < length xs. \<forall>j < length xs. used (xs ! i) \<and> used (xs ! j) \<and>
        uid_of (xs ! i) = uid_of (xs ! j) \<longrightarrow> i = j)"

text \<open>A slot may be overwritten with UID \<open>u\<close>: it holds \<open>u\<close> already, or nobody does.\<close>

definition slot_claimable :: "('a \<Rightarrow> u32) \<Rightarrow> ('a \<Rightarrow> bool) \<Rightarrow> u32 \<Rightarrow> nat \<Rightarrow> 'a list \<Rightarrow> bool" where
  "slot_claimable uid_of used u i xs \<longleftrightarrow>
     i < length xs \<and> (slot_find uid_of used u xs = Some i \<or> slot_find uid_of used u xs = None)"

locale uid_slots =
  fixes uid_of :: "'a \<Rightarrow> u32"
    and used :: "'a \<Rightarrow> bool"
    and fresh :: "u32 \<Rightarrow> 'a"
    and blank :: 'a
  assumes uid_fresh: "uid_of (fresh u) = u"
    and used_fresh: "used (fresh u)"
    and blank_free: "\<not> used blank"
begin

lemma find_None_iff:
  "slot_find uid_of used u xs = None \<longleftrightarrow> (\<forall>s \<in> set xs. used s \<longrightarrow> uid_of s \<noteq> u)"
  by (auto simp: slot_find_def)

lemma find_SomeD:
  "slot_find uid_of used u xs = Some i \<Longrightarrow> i < length xs \<and> used (xs ! i) \<and> uid_of (xs ! i) = u"
  by (auto simp: slot_find_def dest: first_idx_SomeD)

lemma find_some_slot:
  assumes "slots_distinct uid_of used xs" "i < length xs" "used (xs ! i)"
  shows "slot_find uid_of used (uid_of (xs ! i)) xs = Some i"
  unfolding slot_find_def
  by (rule first_idx_unique) (use assms in \<open>auto simp: slots_distinct_def\<close>)

lemma distinct_blank: "slots_distinct uid_of used (replicate n blank)"
  by (simp add: slots_distinct_def blank_free)

lemma not_elsewhere:
  assumes "slots_distinct uid_of used xs" "slot_claimable uid_of used u i xs"
    and "j < length xs" "j \<noteq> i" "used (xs ! j)"
  shows "uid_of (xs ! j) \<noteq> u"
proof
  assume "uid_of (xs ! j) = u"
  with assms(1,3,5) have "slot_find uid_of used u xs = Some j"
    using find_some_slot by blast
  with assms(2,4) show False by (auto simp: slot_claimable_def)
qed

lemma distinct_update:
  assumes "slots_distinct uid_of used xs" "slot_claimable uid_of used (uid_of s) i xs"
  shows "slots_distinct uid_of used (xs[i := s])"
  unfolding slots_distinct_def
proof (intro allI impI)
  fix a b
  assume ab: "a < length (xs[i := s])" "b < length (xs[i := s])"
    and eq: "used (xs[i := s] ! a) \<and> used (xs[i := s] ! b) \<and>
      uid_of (xs[i := s] ! a) = uid_of (xs[i := s] ! b)"
  consider "a = i" "b = i" | "a = i" "b \<noteq> i" | "a \<noteq> i" "b = i" | "a \<noteq> i" "b \<noteq> i" by blast
  then show "a = b"
  proof cases
    case 2
    then show ?thesis using not_elsewhere [OF assms, of b] ab eq by auto
  next
    case 3
    then show ?thesis using not_elsewhere [OF assms, of a] ab eq by auto
  next
    case 4
    then show ?thesis using assms(1) ab eq by (auto simp: slots_distinct_def)
  qed auto
qed

lemma find_update_same:
  assumes "slots_distinct uid_of used xs" "slot_claimable uid_of used (uid_of s) i xs" "used s"
  shows "slot_find uid_of used (uid_of s) (xs[i := s]) = Some i"
  using find_some_slot [OF distinct_update [OF assms(1,2)], of i] assms(2,3)
  by (simp add: slot_claimable_def)

text \<open>Every other UID keeps its slot, unless that is the slot that was overwritten.\<close>

lemma find_update_other:
  assumes "slots_distinct uid_of used xs" "slot_claimable uid_of used (uid_of s) i xs"
    and "u \<noteq> uid_of s"
  shows "slot_find uid_of used u (xs[i := s]) =
    (if slot_find uid_of used u xs = Some i then None else slot_find uid_of used u xs)"
proof (cases "slot_find uid_of used u xs")
  case None
  then have "slot_find uid_of used u (xs[i := s]) = None"
    using assms(3) by (auto simp: find_None_iff dest!: set_update_subset_insert [THEN subsetD])
  with None show ?thesis by simp
next
  case (Some j)
  note j = find_SomeD [OF Some]
  show ?thesis
  proof (cases "j = i")
    case True
    have "slot_find uid_of used u (xs[i := s]) = None"
      unfolding find_None_iff
    proof (intro ballI impI)
      fix x assume "x \<in> set (xs[i := s])" "used x"
      then obtain k where k: "k < length xs" "x = xs[i := s] ! k"
        by (auto simp: in_set_conv_nth)
      show "uid_of x \<noteq> u"
      proof (cases "k = i")
        case False
        with k \<open>used x\<close> j True assms(1) show ?thesis by (auto simp: slots_distinct_def)
      qed (use k assms(3) in auto)
    qed
    with Some True show ?thesis by simp
  next
    case False
    with j have "slot_find uid_of used (uid_of (xs[i := s] ! j)) (xs[i := s]) = Some j"
      by (intro find_some_slot distinct_update assms) auto
    with False Some j show ?thesis by simp
  qed
qed

end

end
