(* ===== verification/Peer_Table.thy ===== *)
theory Peer_Table
  imports Protocol Uid_Slots
begin

text \<open>
  lib/ff_core/peer_table.h and peer_table.cpp: the UID-keyed table of the peers this node
  has heard. A \<open>Peer*\<close> result is the index of the slot; a null pointer is \<open>None\<close>.
\<close>

section \<open>State\<close>

definition kMaxPeers :: nat where [simp]: "kMaxPeers = 16"
definition kMaxRadios :: nat where [simp]: "kMaxRadios = 4"

record peer =
  pe_uid :: u32
  pe_valid :: bool
  pe_lat :: i32
  pe_lon :: i32
  pe_alt_m :: i16
  pe_speed_cms :: u16
  pe_course_ddeg :: u16
  pe_flags :: u8
  pe_name :: byte_list
  pe_capabilities :: u32
  pe_last_update_ms :: u32
  pe_last_position_ms :: u32
  pe_rssi :: i16
  pe_packets_received :: u32
  pe_last_seen_on :: "u32 list"
  pe_radios_seen :: u8

definition blank_peer :: peer where
  "blank_peer = \<lparr>pe_uid = 0, pe_valid = False, pe_lat = 0, pe_lon = 0, pe_alt_m = 0,
     pe_speed_cms = 0, pe_course_ddeg = 0, pe_flags = 0, pe_name = replicate (kMaxNameLen + 1) 0,
     pe_capabilities = 0, pe_last_update_ms = 0, pe_last_position_ms = 0, pe_rssi = 0,
     pe_packets_received = 0, pe_last_seen_on = replicate kMaxRadios 0, pe_radios_seen = 0\<rparr>"

record peer_table =
  pt_peers :: "peer list"
  pt_timeout_ms :: u32

definition PeerTable :: "u32 \<Rightarrow> peer_table" where
  "PeerTable timeout_ms = \<lparr>pt_peers = replicate kMaxPeers blank_peer, pt_timeout_ms = timeout_ms\<rparr>"

section \<open>Operations\<close>

definition findMutable :: "peer_table \<Rightarrow> u32 \<Rightarrow> nat option" where
  "findMutable t uid = first_idx (\<lambda>p. pe_valid p \<and> pe_uid p = uid) (pt_peers t)"

definition pt_find :: "peer_table \<Rightarrow> u32 \<Rightarrow> peer option" where
  "pt_find t uid =
     map_option ((!) (pt_peers t)) (first_idx (\<lambda>p. pe_valid p \<and> pe_uid p = uid) (pt_peers t))"

fun allocSlot_scan :: "peer list \<Rightarrow> nat list \<Rightarrow> nat \<Rightarrow> nat" where
  "allocSlot_scan ps [] oldest = oldest"
| "allocSlot_scan ps (i # is) oldest =
     (if \<not> pe_valid (ps ! i) then i
      else allocSlot_scan ps is
        (if pe_last_update_ms (ps ! i) < pe_last_update_ms (ps ! oldest) then i else oldest))"

definition allocSlot :: "peer_table \<Rightarrow> nat" where
  "allocSlot t = allocSlot_scan (pt_peers t) [0..<kMaxPeers] 0"

definition markHeardOn :: "peer \<Rightarrow> nat \<Rightarrow> u32 \<Rightarrow> peer" where
  "markHeardOn p radio_index now_ms =
     (if radio_index < kMaxRadios
      then p\<lparr>pe_last_seen_on := (pe_last_seen_on p)[radio_index := now_ms],
             pe_radios_seen := pe_radios_seen p OR push_bit radio_index 1\<rparr>
      else p)"

definition fresh_peer :: "u32 \<Rightarrow> peer" where
  "fresh_peer uid = blank_peer\<lparr>pe_uid := uid, pe_valid := True\<rparr>"

text \<open>
  The first lines of both update functions: the slot of a known UID as it is, otherwise a
  free or evicted slot, reset for its new occupant.
\<close>

definition peer_slot :: "peer_table \<Rightarrow> u32 \<Rightarrow> nat \<times> peer" where
  "peer_slot t uid =
     (case findMutable t uid of
        Some i \<Rightarrow> (i, pt_peers t ! i)
      | None \<Rightarrow> (allocSlot t, fresh_peer uid))"

definition apply_position :: "peer \<Rightarrow> position_packet \<Rightarrow> u32 \<Rightarrow> i16 \<Rightarrow> nat \<Rightarrow> peer" where
  "apply_position peer p now_ms rssi radio_index =
     (let peer = peer\<lparr>pe_lat := pp_lat p, pe_lon := pp_lon p, pe_alt_m := pp_alt_m p,
                   pe_speed_cms := pp_speed_cms p, pe_course_ddeg := pp_course_ddeg p,
                   pe_flags := pp_flags p, pe_last_update_ms := now_ms,
                   pe_last_position_ms := now_ms\<rparr>;
          peer = (if rssi \<noteq> 0 then peer\<lparr>pe_rssi := rssi\<rparr> else peer);
          peer = markHeardOn peer radio_index now_ms
      in peer\<lparr>pe_packets_received := pe_packets_received peer + 1\<rparr>)"

definition updatePosition ::
  "peer_table \<Rightarrow> position_packet \<Rightarrow> u32 \<Rightarrow> i16 \<Rightarrow> nat \<Rightarrow> peer_table \<times> nat" where
  "updatePosition t p now_ms rssi radio_index =
     (let (i, peer) = peer_slot t (pp_uid p)
      in (t\<lparr>pt_peers := (pt_peers t)[i := apply_position peer p now_ms rssi radio_index]\<rparr>, i))"

text \<open>The name loop: copy up to the first NUL or 15 bytes, then terminate.\<close>

fun copy_name :: "byte_list \<Rightarrow> byte_list \<Rightarrow> nat \<Rightarrow> nat \<Rightarrow> byte_list" where
  "copy_name dst (c # src) i (Suc m) =
     (if c \<noteq> 0 then copy_name (dst[i := c]) src (Suc i) m else dst[i := 0])"
| "copy_name dst _ i _ = dst[i := 0]"

definition apply_announce :: "peer \<Rightarrow> announce_packet \<Rightarrow> u32 \<Rightarrow> nat \<Rightarrow> peer" where
  "apply_announce peer a now_ms radio_index =
     (let peer = peer\<lparr>pe_name := copy_name (pe_name peer) (an_name a) 0 kMaxNameLen,
                   pe_capabilities := an_capabilities a, pe_last_update_ms := now_ms\<rparr>;
          peer = markHeardOn peer radio_index now_ms
      in peer\<lparr>pe_packets_received := pe_packets_received peer + 1\<rparr>)"

definition updateAnnounce ::
  "peer_table \<Rightarrow> announce_packet \<Rightarrow> u32 \<Rightarrow> nat \<Rightarrow> peer_table \<times> nat" where
  "updateAnnounce t a now_ms radio_index =
     (let (i, peer) = peer_slot t (an_uid a)
      in (t\<lparr>pt_peers := (pt_peers t)[i := apply_announce peer a now_ms radio_index]\<rparr>, i))"

definition pt_expire :: "peer_table \<Rightarrow> u32 \<Rightarrow> peer_table" where
  "pt_expire t now_ms =
     t\<lparr>pt_peers := map (\<lambda>p. if pe_valid p \<and> age_ms now_ms (pe_last_update_ms p) > pt_timeout_ms t
                            then p\<lparr>pe_valid := False\<rparr> else p) (pt_peers t)\<rparr>"

definition countActive :: "peer_table \<Rightarrow> u32 \<Rightarrow> nat" where
  "countActive t now_ms =
     length (filter (\<lambda>p. pe_valid p \<and> age_ms now_ms (pe_last_update_ms p) \<le> pt_timeout_ms t)
       (pt_peers t))"

definition countActiveOn :: "peer_table \<Rightarrow> nat \<Rightarrow> u32 \<Rightarrow> nat" where
  "countActiveOn t radio_index now_ms =
     (if radio_index \<ge> kMaxRadios then 0
      else length (filter (\<lambda>p. pe_valid p \<and> pe_radios_seen p AND push_bit radio_index 1 \<noteq> 0 \<and>
             age_ms now_ms (pe_last_seen_on p ! radio_index) \<le> pt_timeout_ms t) (pt_peers t)))"

definition pt_at :: "peer_table \<Rightarrow> nat \<Rightarrow> peer option" where
  "pt_at t index =
     (if index \<ge> kMaxPeers \<or> \<not> pe_valid (pt_peers t ! index) then None
      else Some (pt_peers t ! index))"

section \<open>Invariant\<close>

definition peer_ok :: "peer \<Rightarrow> bool" where
  "peer_ok p \<longleftrightarrow> length (pe_name p) = kMaxNameLen + 1 \<and> length (pe_last_seen_on p) = kMaxRadios"

definition pt_inv :: "peer_table \<Rightarrow> bool" where
  "pt_inv t \<longleftrightarrow> length (pt_peers t) = kMaxPeers \<and> (\<forall>p \<in> set (pt_peers t). peer_ok p) \<and>
     slots_distinct pe_uid pe_valid (pt_peers t)"

definition pt_full :: "peer_table \<Rightarrow> bool" where
  "pt_full t \<longleftrightarrow> (\<forall>p \<in> set (pt_peers t). pe_valid p)"

section \<open>Lemmas\<close>

interpretation peers: uid_slots pe_uid pe_valid fresh_peer blank_peer
  by unfold_locales (simp_all add: fresh_peer_def blank_peer_def)

lemma findMutable_slot: "findMutable t uid = slot_find pe_uid pe_valid uid (pt_peers t)"
  by (simp add: findMutable_def slot_find_def)

lemma pt_find_slot:
  "pt_find t uid = map_option ((!) (pt_peers t)) (slot_find pe_uid pe_valid uid (pt_peers t))"
  by (simp add: pt_find_def slot_find_def)

lemma allocSlot_scan_bound:
  "set is \<subseteq> {..<n} \<Longrightarrow> oldest < n \<Longrightarrow> allocSlot_scan ps is oldest < n"
  by (induction ps "is" oldest rule: allocSlot_scan.induct) auto

lemma allocSlot_lt: "allocSlot t < kMaxPeers"
  unfolding allocSlot_def by (rule allocSlot_scan_bound) auto

lemma allocSlot_scan_free:
  assumes "\<exists>i \<in> set is. \<not> pe_valid (ps ! i)"
  shows "\<not> pe_valid (ps ! allocSlot_scan ps is oldest)"
  using assms by (induction ps "is" oldest rule: allocSlot_scan.induct) auto

lemma allocSlot_scan_oldest:
  assumes "\<forall>i \<in> set is. pe_valid (ps ! i)"
  shows "pe_last_update_ms (ps ! allocSlot_scan ps is o0) \<le> pe_last_update_ms (ps ! o0) \<and>
    (\<forall>i \<in> set is. pe_last_update_ms (ps ! allocSlot_scan ps is o0) \<le> pe_last_update_ms (ps ! i))"
  using assms
proof (induction ps "is" o0 rule: allocSlot_scan.induct)
  case (2 ps i "is" o0)
  then have IH: "pe_last_update_ms (ps ! allocSlot_scan ps is (if pe_last_update_ms (ps ! i) < pe_last_update_ms (ps ! o0) then i else o0))
      \<le> pe_last_update_ms (ps ! (if pe_last_update_ms (ps ! i) < pe_last_update_ms (ps ! o0) then i else o0))"
    "\<forall>k \<in> set is. pe_last_update_ms (ps ! allocSlot_scan ps is (if pe_last_update_ms (ps ! i) < pe_last_update_ms (ps ! o0) then i else o0))
      \<le> pe_last_update_ms (ps ! k)"
    by auto
  with "2.prems" show ?case by (auto split: if_splits)
qed auto

text \<open>A free slot if there is one, otherwise a slot with the smallest update stamp.\<close>

lemma allocSlot_spec:
  assumes "length (pt_peers t) = kMaxPeers"
  shows "if pt_full t
    then \<forall>p \<in> set (pt_peers t). pe_last_update_ms (pt_peers t ! allocSlot t) \<le> pe_last_update_ms p
    else \<not> pe_valid (pt_peers t ! allocSlot t)"
proof (cases "pt_full t")
  case True
  with assms have "\<forall>i \<in> set [0..<kMaxPeers]. pe_valid (pt_peers t ! i)"
    by (auto simp: pt_full_def)
  from allocSlot_scan_oldest [OF this, of 0] True assms show ?thesis
    by (auto simp: allocSlot_def in_set_conv_nth)
next
  case False
  with assms have "\<exists>i \<in> set [0..<kMaxPeers]. \<not> pe_valid (pt_peers t ! i)"
    by (auto simp: pt_full_def in_set_conv_nth Bex_def)
  from allocSlot_scan_free [OF this, of 0] False show ?thesis
    by (simp add: allocSlot_def)
qed

lemma fresh_peer_ok: "peer_ok (fresh_peer u)"
  by (simp add: peer_ok_def fresh_peer_def blank_peer_def)

lemma markHeardOn_simps [simp]:
  "pe_uid (markHeardOn p r n) = pe_uid p" "pe_valid (markHeardOn p r n) = pe_valid p"
  "pe_lat (markHeardOn p r n) = pe_lat p" "pe_lon (markHeardOn p r n) = pe_lon p"
  "pe_alt_m (markHeardOn p r n) = pe_alt_m p" "pe_speed_cms (markHeardOn p r n) = pe_speed_cms p"
  "pe_course_ddeg (markHeardOn p r n) = pe_course_ddeg p"
  "pe_flags (markHeardOn p r n) = pe_flags p" "pe_name (markHeardOn p r n) = pe_name p"
  "pe_capabilities (markHeardOn p r n) = pe_capabilities p"
  "pe_last_update_ms (markHeardOn p r n) = pe_last_update_ms p"
  "pe_last_position_ms (markHeardOn p r n) = pe_last_position_ms p"
  "pe_rssi (markHeardOn p r n) = pe_rssi p"
  "pe_packets_received (markHeardOn p r n) = pe_packets_received p"
  by (simp_all add: markHeardOn_def)

lemma peer_ok_markHeardOn [simp]: "peer_ok (markHeardOn p r n) = peer_ok p"
  by (auto simp: peer_ok_def markHeardOn_def)

lemma length_copy_name [simp]: "length (copy_name dst src i m) = length dst"
  by (induction dst src i m rule: copy_name.induct) auto

lemma take_copy_name:
  "i + m < length dst \<Longrightarrow>
     take (Suc (i + length (cstr (take m src)))) (copy_name dst src i m) =
     take i dst @ cstr (take m src) @ [0]"
proof (induction dst src i m rule: copy_name.induct)
  case (1 dst c src i m)
  show ?case
  proof (cases "c = 0")
    case True
    with "1.prems" show ?thesis by (simp add: cstr_def take_Suc_conv_app_nth)
  next
    case False
    with "1.prems" have
      "take (Suc (Suc i + length (cstr (take m src)))) (copy_name (dst[i := c]) src (Suc i) m) =
       take (Suc i) (dst[i := c]) @ cstr (take m src) @ [0]"
      by (intro "1.IH") auto
    with False "1.prems" show ?thesis by (simp add: cstr_def take_Suc_conv_app_nth)
  qed
qed (auto simp: cstr_def take_Suc_conv_app_nth)

text \<open>The stored name reads back as the announced one, cut at 15 bytes.\<close>

lemma cstr_copy_name:
  assumes "length dst = 16"
  shows "cstr (copy_name dst src 0 15) = cstr (take 15 src)"
proof -
  let ?n = "length (cstr (take 15 src))"
  have "copy_name dst src 0 15 =
      cstr (take 15 src) @ 0 # drop (Suc ?n) (copy_name dst src 0 15)"
    using take_copy_name [of 0 15 dst src] assms
      append_take_drop_id [of "Suc ?n" "copy_name dst src 0 15"] by simp
  then show ?thesis by (metis cstr_append_nul cstr_no_nul)
qed

lemma peer_slot_claimable:
  assumes "pt_inv t" "peer_slot t u = (i, p)"
  shows "slot_claimable pe_uid pe_valid u i (pt_peers t)"
    and "pe_uid p = u" and "pe_valid p" and "peer_ok p"
  using assms peers.find_SomeD [of u "pt_peers t"] allocSlot_lt [of t]
  by (auto simp: peer_slot_def findMutable_slot slot_claimable_def pt_inv_def fresh_peer_ok
      peers.uid_fresh peers.used_fresh split: option.splits)

text \<open>Storing a peer under its own UID in its slot keeps the table well formed.\<close>

lemma pt_inv_store:
  assumes "pt_inv t" "slot_claimable pe_uid pe_valid (pe_uid p) i (pt_peers t)" "peer_ok p"
  shows "pt_inv (t\<lparr>pt_peers := (pt_peers t)[i := p]\<rparr>)"
  using assms peers.distinct_update [of "pt_peers t" p i]
  by (auto simp: pt_inv_def dest!: set_update_subset_insert [THEN subsetD])

lemma pt_find_store:
  assumes "pt_inv t" "slot_claimable pe_uid pe_valid (pe_uid p) i (pt_peers t)" "pe_valid p"
  shows "pt_find (t\<lparr>pt_peers := (pt_peers t)[i := p]\<rparr>) (pe_uid p) = Some p"
  using assms peers.find_update_same [of "pt_peers t" p i]
  by (auto simp: pt_find_slot pt_inv_def slot_claimable_def)

lemma pt_find_store_other:
  assumes "pt_inv t" "slot_claimable pe_uid pe_valid (pe_uid p) i (pt_peers t)" "u \<noteq> pe_uid p"
  shows "pt_find (t\<lparr>pt_peers := (pt_peers t)[i := p]\<rparr>) u =
    (if findMutable t u = Some i then None else pt_find t u)"
  using assms peers.find_update_other [of "pt_peers t" p i u]
  by (cases "slot_find pe_uid pe_valid u (pt_peers t)")
    (auto simp: pt_find_slot findMutable_slot pt_inv_def nth_list_update)

lemma PeerTable_inv [inv_intros]: "pt_inv (PeerTable timeout)"
  using peers.distinct_blank [of 16]
  by (auto simp: pt_inv_def PeerTable_def peer_ok_def blank_peer_def)


text \<open>Both updates store one peer, under its UID, in the slot \<open>peer_slot\<close> picks.\<close>

lemma stored_in_table:
  assumes inv: "pt_inv t" and slot: "peer_slot t u = (i, p)"
    and q: "pe_uid q = u" "pe_valid q" "peer_ok q"
    and t': "t' = t\<lparr>pt_peers := (pt_peers t)[i := q]\<rparr>"
  shows "pt_inv t'" "pt_find t' u = Some q"
    and "v \<noteq> u \<Longrightarrow> pt_find t' v = pt_find t v \<or>
      (pt_find t u = None \<and> pt_full t \<and> pt_find t' v = None \<and>
        (\<exists>w. pt_find t v = Some w \<and>
          (\<forall>x \<in> set (pt_peers t). pe_last_update_ms w \<le> pe_last_update_ms x)))"
proof -
  note claim = peer_slot_claimable [OF inv slot]
  show "pt_inv t'" unfolding t'
    by (rule pt_inv_store) (use inv claim q in auto)
  show "pt_find t' u = Some q" unfolding t' q(1) [symmetric]
    by (rule pt_find_store) (use inv claim q in auto)
  assume v: "v \<noteq> u"
  have other: "pt_find t' v = (if findMutable t v = Some i then None else pt_find t v)"
    unfolding t' by (rule pt_find_store_other) (use inv claim q v in auto)
  show "pt_find t' v = pt_find t v \<or>
      (pt_find t u = None \<and> pt_full t \<and> pt_find t' v = None \<and>
        (\<exists>w. pt_find t v = Some w \<and>
          (\<forall>x \<in> set (pt_peers t). pe_last_update_ms w \<le> pe_last_update_ms x)))"
  proof (cases "findMutable t v = Some i")
    case True
    then have vi: "i < length (pt_peers t)" "pe_valid (pt_peers t ! i)" "pe_uid (pt_peers t ! i) = v"
      by (auto simp: findMutable_slot dest: peers.find_SomeD)
    have none: "findMutable t u = None"
    proof (cases "findMutable t u")
      case (Some j)
      with slot have "j = i" by (simp add: peer_slot_def)
      with Some vi v show ?thesis by (auto simp: findMutable_slot dest: peers.find_SomeD)
    qed simp
    with slot have "i = allocSlot t" by (simp add: peer_slot_def)
    with vi allocSlot_spec [of t] inv have "pt_full t"
      "\<forall>x \<in> set (pt_peers t). pe_last_update_ms (pt_peers t ! i) \<le> pe_last_update_ms x"
      by (auto simp: pt_inv_def split: if_splits)
    with True none other show ?thesis by (auto simp: pt_find_slot findMutable_slot)
  qed (use other in simp)
qed

lemma pt_find_empty [simp]: "pt_find (PeerTable m) u = None"
  by (simp add: pt_find_def PeerTable_def blank_peer_def)

lemma pt_find_None: "pt_find t u = None \<longleftrightarrow> findMutable t u = None"
  by (simp add: pt_find_slot findMutable_slot)

lemma peer_slot_found:
  "peer_slot t u = (i, p) \<Longrightarrow> p = (case pt_find t u of None \<Rightarrow> fresh_peer u | Some q \<Rightarrow> q)"
  by (auto simp: peer_slot_def pt_find_slot findMutable_slot split: option.splits)

lemma apply_ok:
  assumes "pe_uid old = u" "pe_valid old" "peer_ok old"
  shows "pe_uid (apply_position old p now_ms rssi r) = u"
    "pe_valid (apply_position old p now_ms rssi r)"
    "peer_ok (apply_position old p now_ms rssi r)"
    "pe_uid (apply_announce old a now_ms r) = u" "pe_valid (apply_announce old a now_ms r)"
    "peer_ok (apply_announce old a now_ms r)"
  using assms
  by (auto simp: apply_position_def apply_announce_def Let_def peer_ok_def markHeardOn_def)

text \<open>What the two updates do, in terms of the peer found before them.\<close>

abbreviation known_peer :: "peer_table \<Rightarrow> u32 \<Rightarrow> peer" where
  "known_peer t u \<equiv> (case pt_find t u of None \<Rightarrow> fresh_peer u | Some q \<Rightarrow> q)"

lemma updatePosition_stored:
  fixes t p now_ms rssi r
  defines "t' \<equiv> fst (updatePosition t p now_ms rssi r)"
  assumes inv: "pt_inv t"
  shows "pt_inv t'"
    and "pt_find t' (pp_uid p) = Some (apply_position (known_peer t (pp_uid p)) p now_ms rssi r)"
    and "v \<noteq> pp_uid p \<Longrightarrow> pt_find t' v = pt_find t v \<or>
      (pt_find t (pp_uid p) = None \<and> pt_full t \<and> pt_find t' v = None \<and>
        (\<exists>w. pt_find t v = Some w \<and>
          (\<forall>x \<in> set (pt_peers t). pe_last_update_ms w \<le> pe_last_update_ms x)))"
proof -
  obtain k old where slot: "peer_slot t (pp_uid p) = (k, old)" by fastforce
  note claim = peer_slot_claimable [OF inv slot]
  have t': "t' = t\<lparr>pt_peers := (pt_peers t)[k := apply_position old p now_ms rssi r]\<rparr>"
    by (simp add: t'_def updatePosition_def slot)
  note stored = stored_in_table [OF inv slot apply_ok(1-3) [OF claim(2-4)] t']
  show "pt_inv t'"
    and "pt_find t' (pp_uid p) = Some (apply_position (known_peer t (pp_uid p)) p now_ms rssi r)"
    using stored(1,2) peer_slot_found [OF slot] by simp_all
  show "v \<noteq> pp_uid p \<Longrightarrow> pt_find t' v = pt_find t v \<or>
      (pt_find t (pp_uid p) = None \<and> pt_full t \<and> pt_find t' v = None \<and>
        (\<exists>w. pt_find t v = Some w \<and>
          (\<forall>x \<in> set (pt_peers t). pe_last_update_ms w \<le> pe_last_update_ms x)))"
    by (rule stored(3))
qed

lemma updateAnnounce_stored:
  fixes t a now_ms r
  defines "t' \<equiv> fst (updateAnnounce t a now_ms r)"
  assumes inv: "pt_inv t"
  shows "pt_inv t'"
    and "pt_find t' (an_uid a) = Some (apply_announce (known_peer t (an_uid a)) a now_ms r)"
    and "v \<noteq> an_uid a \<Longrightarrow> pt_find t' v = pt_find t v \<or> pt_find t' v = None"
proof -
  obtain k old where slot: "peer_slot t (an_uid a) = (k, old)" by fastforce
  note claim = peer_slot_claimable [OF inv slot]
  have t': "t' = t\<lparr>pt_peers := (pt_peers t)[k := apply_announce old a now_ms r]\<rparr>"
    by (simp add: t'_def updateAnnounce_def slot)
  note stored = stored_in_table [OF inv slot apply_ok(4-6) [OF claim(2-4)] t']
  show "pt_inv t'"
    and "pt_find t' (an_uid a) = Some (apply_announce (known_peer t (an_uid a)) a now_ms r)"
    using stored(1,2) peer_slot_found [OF slot] by simp_all
  show "v \<noteq> an_uid a \<Longrightarrow> pt_find t' v = pt_find t v \<or> pt_find t' v = None"
    using stored(3) [of v] by auto
qed

lemmas [inv_intros] = updatePosition_stored(1) updateAnnounce_stored(1)

lemma known_peer_ok:
  assumes "pt_inv t"
  shows "peer_ok (known_peer t u)"
proof -
  obtain k old where slot: "peer_slot t u = (k, old)" by fastforce
  from peer_slot_claimable(4) [OF assms slot] peer_slot_found [OF slot] show ?thesis by simp
qed

lemma pt_expire_lookup:
  assumes "pt_inv t"
  shows "pt_inv (pt_expire t now_ms) \<and>
    pt_find (pt_expire t now_ms) u =
      (case pt_find t u of
         None \<Rightarrow> None
       | Some p \<Rightarrow> if age_ms now_ms (pe_last_update_ms p) > pt_timeout_ms t then None else Some p)"
proof -
  define e where "e = (\<lambda>p :: peer. if pe_valid p \<and> age_ms now_ms (pe_last_update_ms p) > pt_timeout_ms t
                        then p\<lparr>pe_valid := False\<rparr> else p)"
  have e: "pt_peers (pt_expire t now_ms) = map e (pt_peers t)"
    by (simp add: pt_expire_def e_def)
  have e_simps [simp]: "pe_uid (e p) = pe_uid p" "peer_ok (e p) = peer_ok p" for p
    by (simp_all add: e_def peer_ok_def)
  have e_valid: "pe_valid (e p) \<longleftrightarrow>
      pe_valid p \<and> \<not> age_ms now_ms (pe_last_update_ms p) > pt_timeout_ms t" for p
    by (auto simp: e_def)
  have inv: "pt_inv (pt_expire t now_ms)"
    using assms by (auto simp: pt_inv_def e slots_distinct_def e_valid)
  moreover have "pt_find (pt_expire t now_ms) u = (case pt_find t u of None \<Rightarrow> None
      | Some p \<Rightarrow> if age_ms now_ms (pe_last_update_ms p) > pt_timeout_ms t then None else Some p)"
  proof (cases "slot_find pe_uid pe_valid u (pt_peers t)")
    case None
    then have "slot_find pe_uid pe_valid u (map e (pt_peers t)) = None"
      by (auto simp: peers.find_None_iff e_valid)
    with None show ?thesis by (simp add: pt_find_slot e)
  next
    case (Some i)
    note i = peers.find_SomeD [OF Some]
    show ?thesis
    proof (cases "age_ms now_ms (pe_last_update_ms (pt_peers t ! i)) > pt_timeout_ms t")
      case True
      have "slot_find pe_uid pe_valid u (map e (pt_peers t)) = None"
        using assms i True
        by (auto simp: peers.find_None_iff e_valid in_set_conv_nth pt_inv_def slots_distinct_def)
          metis
      with Some True show ?thesis by (simp add: pt_find_slot e)
    next
      case False
      with i have "slot_find pe_uid pe_valid u (map e (pt_peers t)) = Some i"
        using peers.find_some_slot [of "map e (pt_peers t)" i] inv
        by (simp add: pt_inv_def e e_valid)
      with Some False i show ?thesis by (simp add: pt_find_slot e) (simp add: e_def)
    qed
  qed
  ultimately show ?thesis by blast
qed

section \<open>Properties\<close>

text \<open>After a position packet the table is well formed and the sender is found under
  its UID with exactly the packet's position, the new time stamps, one more packet counted,
  and its name and capabilities as they were (blank on first contact).\<close>

theorem updatePosition_sender:
  assumes "pt_inv t" "updatePosition t p now_ms rssi r = (t', i)"
  shows "pt_inv t' \<and> (\<exists>q. pt_find t' (pp_uid p) = Some q \<and>
     (pe_lat q, pe_lon q, pe_alt_m q, pe_speed_cms q, pe_course_ddeg q, pe_flags q) =
       (pp_lat p, pp_lon p, pp_alt_m p, pp_speed_cms p, pp_course_ddeg p, pp_flags p) \<and>
     pe_last_update_ms q = now_ms \<and> pe_last_position_ms q = now_ms \<and>
     (r < kMaxRadios \<longrightarrow> pe_last_seen_on q ! r = now_ms \<and> bit (pe_radios_seen q) r) \<and>
     (let old = known_peer t (pp_uid p)
      in pe_packets_received q = pe_packets_received old + 1 \<and> pe_name q = pe_name old \<and>
         pe_capabilities q = pe_capabilities old \<and>
         pe_rssi q = (if rssi = 0 then pe_rssi old else rssi)))"
proof -
  have t': "t' = fst (updatePosition t p now_ms rssi r)" using assms(2) by simp
  let ?old = "known_peer t (pp_uid p)" and ?q = "apply_position (known_peer t (pp_uid p)) p now_ms rssi r"
  have "r < 4 \<Longrightarrow> pe_last_seen_on ?q ! r = now_ms \<and> bit (pe_radios_seen ?q) r"
    using known_peer_ok [OF assms(1), of "pp_uid p"]
    by (simp add: apply_position_def Let_def markHeardOn_def peer_ok_def bit_simps)
  then show ?thesis
    unfolding t' using updatePosition_stored(1,2) [OF assms(1), of p now_ms rssi r]
    by (simp add: Let_def) (simp add: apply_position_def Let_def)
qed

theorem updatePosition_sender_witness:
  "\<exists>t' i q. updatePosition (PeerTable 6000)
     \<lparr>pp_uid = 7, pp_lat = 451, pp_lon = 90, pp_alt_m = 120, pp_speed_cms = 900,
      pp_course_ddeg = 1800, pp_flags = 3\<rparr> 1000 5 1 = (t', i) \<and>
     pt_find t' 7 = Some q \<and> pe_lat q = 451 \<and> pe_packets_received q = 1"
proof -
  define p where "p = \<lparr>pp_uid = 7, pp_lat = 451, pp_lon = 90, pp_alt_m = 120, pp_speed_cms = 900,
      pp_course_ddeg = 1800, pp_flags = 3\<rparr>"
  obtain t' i where u: "updatePosition (PeerTable 6000) p 1000 5 1 = (t', i)" by fastforce
  with updatePosition_sender [OF PeerTable_inv u] u show ?thesis
    by (auto simp: p_def fresh_peer_def blank_peer_def)
qed

text \<open>A position packet leaves every other peer alone, with one exception: when the
  sender is new and all 16 slots are taken, one peer is dropped, and no tracked peer has a
  smaller update stamp than the dropped one.\<close>

theorem updatePosition_others:
  assumes "pt_inv t" "updatePosition t p now_ms rssi r = (t', i)" "v \<noteq> pp_uid p"
  shows "pt_find t' v = pt_find t v \<or>
    (pt_find t (pp_uid p) = None \<and> pt_full t \<and> pt_find t' v = None \<and>
      (\<exists>w. pt_find t v = Some w \<and>
        (\<forall>x \<in> set (pt_peers t). pe_last_update_ms w \<le> pe_last_update_ms x)))"
  using updatePosition_stored(3) [OF assms(1,3), of now_ms rssi r] assms(2) by simp

theorem updatePosition_others_witness:
  "let p = \<lparr>pp_uid = 7, pp_lat = 0, pp_lon = 0, pp_alt_m = 0, pp_speed_cms = 0,
            pp_course_ddeg = 0, pp_flags = 0\<rparr>;
       t = fst (updatePosition (PeerTable 6000) p 10 0 0)
   in pt_find (fst (updatePosition t (p\<lparr>pp_uid := 8\<rparr>) 20 0 0)) 7 = pt_find t 7"
proof -
  define p where "p = \<lparr>pp_uid = 7, pp_lat = 0, pp_lon = 0, pp_alt_m = 0, pp_speed_cms = 0,
            pp_course_ddeg = 0, pp_flags = 0\<rparr>"
  define t where "t = fst (updatePosition (PeerTable 6000) p 10 0 0)"
  have t: "pt_inv t" unfolding t_def by (intro updatePosition_stored(1) PeerTable_inv)
  have "\<not> pt_full t"
    by (simp add: t_def pt_full_def updatePosition_def peer_slot_def findMutable_def allocSlot_def
        PeerTable_def blank_peer_def p_def upt_rec numeral_eq_Suc)
  moreover obtain t' i where u: "updatePosition t (p\<lparr>pp_uid := 8\<rparr>) 20 0 0 = (t', i)" by fastforce
  ultimately have "pt_find t' 7 = pt_find t 7"
    using updatePosition_others [OF t u, of 7] by (simp add: p_def)
  with u show ?thesis by (simp add: Let_def t_def p_def)
qed

text \<open>After an announce the table is well formed and the sender is found with the
  announced name (cut at its first NUL and at 15 bytes) and capabilities; its position
  fields and its last position time are those it had, so an announce alone never makes a
  peer look freshly positioned.\<close>

theorem updateAnnounce_sender:
  assumes "pt_inv t" "updateAnnounce t a now_ms r = (t', i)"
  shows "pt_inv t' \<and> (\<exists>q. pt_find t' (an_uid a) = Some q \<and>
     cstr (pe_name q) = cstr (take kMaxNameLen (an_name a)) \<and>
     pe_capabilities q = an_capabilities a \<and> pe_last_update_ms q = now_ms \<and>
     (let old = known_peer t (an_uid a)
      in pe_packets_received q = pe_packets_received old + 1 \<and>
         (pe_lat q, pe_lon q, pe_alt_m q, pe_flags q) =
           (pe_lat old, pe_lon old, pe_alt_m old, pe_flags old) \<and>
         pe_last_position_ms q = pe_last_position_ms old))"
proof -
  have t': "t' = fst (updateAnnounce t a now_ms r)" using assms(2) by simp
  have "cstr (copy_name (pe_name (known_peer t (an_uid a))) (an_name a) 0 15) =
      cstr (take 15 (an_name a))"
    using known_peer_ok [OF assms(1), of "an_uid a"]
    by (intro cstr_copy_name) (simp add: peer_ok_def)
  then show ?thesis
    unfolding t' using updateAnnounce_stored(1,2) [OF assms(1), of a now_ms r]
    by (simp add: Let_def) (simp add: apply_announce_def Let_def)
qed

theorem updateAnnounce_sender_witness:
  "\<exists>t' i q. updateAnnounce (PeerTable 6000)
     \<lparr>an_uid = 7, an_name = [70, 70, 0], an_capabilities = 1\<rparr> 1000 0 = (t', i) \<and>
     pt_find t' 7 = Some q \<and> cstr (pe_name q) = [70, 70] \<and> pe_last_position_ms q = 0"
proof -
  obtain t' i where u: "updateAnnounce (PeerTable 6000)
     \<lparr>an_uid = 7, an_name = [70, 70, 0], an_capabilities = 1\<rparr> 1000 0 = (t', i)" by fastforce
  with updateAnnounce_sender [OF PeerTable_inv u] u show ?thesis
    by (auto simp: fresh_peer_def blank_peer_def cstr_def)
qed

text \<open>Expiry removes exactly the peers not heard within the timeout and keeps every
  other peer as it is.\<close>

theorem pt_expire_find:
  assumes "pt_inv t"
  shows "pt_inv (pt_expire t now_ms) \<and>
    pt_find (pt_expire t now_ms) u =
      (case pt_find t u of
         None \<Rightarrow> None
       | Some p \<Rightarrow> if age_ms now_ms (pe_last_update_ms p) > pt_timeout_ms t then None else Some p)"
  using assms by (rule pt_expire_lookup)

theorem pt_expire_find_witness:
  "pt_inv (PeerTable 6000) \<and> pt_inv (pt_expire (PeerTable 6000) 9000) \<and>
   pt_find (pt_expire (PeerTable 6000) 9000) 7 = None"
  using pt_expire_find [OF PeerTable_inv, of 6000 9000 7] PeerTable_inv
  by simp

text \<open>The active peer count that drives the beacon rate counts aircraft, not slots:
  it is the number of UIDs found in the table and heard within the timeout.\<close>

theorem countActive_counts_uids:
  assumes "pt_inv t"
  shows "countActive t now_ms = card {u. \<exists>p. pt_find t u = Some p \<and>
    age_ms now_ms (pe_last_update_ms p) \<le> pt_timeout_ms t}"
proof -
  let ?ps = "pt_peers t"
  let ?live = "\<lambda>p. age_ms now_ms (pe_last_update_ms p) \<le> pt_timeout_ms t"
  let ?I = "{i. i < length ?ps \<and> pe_valid (?ps ! i) \<and> ?live (?ps ! i)}"
  have "bij_betw (\<lambda>i. pe_uid (?ps ! i)) ?I {u. \<exists>p. pt_find t u = Some p \<and> ?live p}"
  proof (rule bij_betwI')
    fix i j assume "i \<in> ?I" "j \<in> ?I"
    with assms show "(pe_uid (?ps ! i) = pe_uid (?ps ! j)) = (i = j)"
      by (auto simp: pt_inv_def slots_distinct_def)
  next
    fix i assume "i \<in> ?I"
    with assms peers.find_some_slot [of ?ps i]
    show "pe_uid (?ps ! i) \<in> {u. \<exists>p. pt_find t u = Some p \<and> ?live p}"
      by (auto simp: pt_inv_def pt_find_slot)
  next
    fix u assume "u \<in> {u. \<exists>p. pt_find t u = Some p \<and> ?live p}"
    then obtain i where "slot_find pe_uid pe_valid u ?ps = Some i" "?live (?ps ! i)"
      by (auto simp: pt_find_slot)
    then show "\<exists>i \<in> ?I. u = pe_uid (?ps ! i)"
      by (intro bexI [of _ i]) (auto dest: peers.find_SomeD)
  qed
  then show ?thesis
    by (simp add: countActive_def count_filter_nth bij_betw_same_card)
qed


theorem countActive_counts_uids_witness:
  "countActive (PeerTable 6000) 5 = card {u. \<exists>p. pt_find (PeerTable 6000) u = Some p \<and>
     age_ms 5 (pe_last_update_ms p) \<le> pt_timeout_ms (PeerTable 6000)}"
  by (rule countActive_counts_uids [OF PeerTable_inv])

text \<open>The eviction order compares raw time stamps, so it is wrong across the wrap of
  the millisecond clock: with 15 peers last heard just before the wrap and one heard 5 ms
  after it, a new sender evicts the one heard most recently, not least recently.\<close>

theorem allocSlot_evicts_newest_across_wrap:
  "let old = (\<lambda>u. (fresh_peer u)\<lparr>pe_last_update_ms := 0xFFFFF000\<rparr>);
       newest = (fresh_peer 99)\<lparr>pe_last_update_ms := 5\<rparr>;
       t = (PeerTable 6000)\<lparr>pt_peers := map old [1, 2, 3, 4, 5, 6, 7] @ [newest] @
                               map old [8, 9, 10, 11, 12, 13, 14, 15]\<rparr>
   in pt_full t \<and> pt_peers t ! allocSlot t = newest \<and>
      list_all (\<lambda>p. age_ms 6 (pe_last_update_ms newest) \<le> age_ms 6 (pe_last_update_ms p)) (pt_peers t)"
  by code_simp

end
