(* ===== verification/Rolling_Log.thy ===== *)
theory Rolling_Log
  imports Prelude
begin

text \<open>
  The overwrite-oldest ring that frame_log.h and log.h/log.cpp both implement: an array of
  \<open>cap\<close> entries, the index of the next cell to write and the number of live entries. The
  locale \<open>rolling_log\<close> states what one append does to those fields and how an entry is
  read back; from that it proves that reading gives the most recent entries, newest first.
\<close>

text \<open>The live entries as a reader sees them: index 0 is the most recent.\<close>

definition recent_of :: "('s \<Rightarrow> nat \<Rightarrow> 'e) \<Rightarrow> ('s \<Rightarrow> nat) \<Rightarrow> 's \<Rightarrow> 'e list" where
  "recent_of read count s = map (read s) [0..<count s]"

lemma ring_next_prev:
  assumes "(h :: nat) < cap" "i < cap"
  shows "((h + 1) mod cap + cap - 1 - i) mod cap = (h + cap - i) mod cap"
proof (cases "h + 1 = cap")
  case True
  with assms have "(h + cap - i) = (cap - 1 - i) + cap" by simp
  then have "(h + cap - i) mod cap = (cap - 1 - i) mod cap" by simp
  with True show ?thesis by simp
next
  case False
  with assms show ?thesis by simp
qed

locale rolling_log =
  fixes cap :: nat
    and entries :: "'s \<Rightarrow> 'e list"
    and head count :: "'s \<Rightarrow> nat"
    and append :: "'s \<Rightarrow> 'e \<Rightarrow> 's"
    and read :: "'s \<Rightarrow> nat \<Rightarrow> 'e"
    and inv :: "'s \<Rightarrow> bool"
  assumes cap_pos: "0 < cap"
    and inv_bounds: "inv s \<Longrightarrow> length (entries s) = cap \<and> head s < cap \<and> count s \<le> cap"
    and append_inv: "inv s \<Longrightarrow> inv (append s e)"
    and append_entries: "entries (append s e) = (entries s)[head s := e]"
    and append_head: "head (append s e) = (head s + 1) mod cap"
    and append_count: "count (append s e) = (if count s < cap then count s + 1 else count s)"
    and read_entry: "read s i = entries s ! ((head s + cap - 1 - i mod cap) mod cap)"
begin

lemma read_append_0: "inv s \<Longrightarrow> read (append s e) 0 = e"
  using inv_bounds [of s] cap_pos ring_next_prev [of "head s" cap 0]
  by (simp add: read_entry append_head append_entries)

lemma read_append_Suc:
  assumes "inv s" "Suc i < cap"
  shows "read (append s e) (Suc i) = read s i"
proof -
  note b = inv_bounds [OF assms(1)]
  have idx: "((head s + 1) mod cap + cap - 1 - Suc i) mod cap = (head s + cap - 1 - i) mod cap"
    using ring_next_prev [of "head s" cap "Suc i"] b assms(2) by simp
  have "(head s + cap - 1 - i) mod cap \<noteq> head s"
  proof (cases "head s < Suc i")
    case True
    with assms(2) b show ?thesis by simp
  next
    case False
    then have "head s + cap - 1 - i = (head s - 1 - i) + cap" using assms(2) by simp
    then have "(head s + cap - 1 - i) mod cap = head s - 1 - i"
      using b by (metis diff_diff_left less_imp_diff_less mod_add_self2 mod_less)
    with False show ?thesis by simp
  qed
  with idx b assms(2) show ?thesis
    by (simp add: read_entry append_head append_entries)
qed

lemma recent_append:
  assumes "inv s"
  shows "recent_of read count (append s e) = take cap (e # recent_of read count s)"
proof (rule nth_equalityI)
  show "length (recent_of read count (append s e)) = length (take cap (e # recent_of read count s))"
    using inv_bounds [OF assms] cap_pos by (auto simp: recent_of_def append_count)
next
  fix i assume "i < length (recent_of read count (append s e))"
  then have i: "i < count (append s e)" "i < cap" "i \<le> count s"
    using inv_bounds [OF assms] by (auto simp: recent_of_def append_count split: if_splits)
  then show "recent_of read count (append s e) ! i = take cap (e # recent_of read count s) ! i"
    using assms by (cases i) (simp_all add: recent_of_def read_append_0 read_append_Suc)
qed

lemma recent_history:
  assumes "inv s"
  shows "inv (foldl append s es) \<and>
    recent_of read count (foldl append s es) = take cap (rev es @ recent_of read count s)"
  using assms
proof (induction es arbitrary: s)
  case Nil
  then show ?case using inv_bounds [of s] by (simp add: recent_of_def)
next
  case (Cons e es)
  note IH = Cons.IH [OF append_inv [OF Cons.prems, of e]]
  have "take cap (rev es @ take cap (e # recent_of read count s)) =
      take cap (rev es @ e # recent_of read count s)"
    by (simp only: take_append take_take min.absorb1 diff_le_self)
  with IH show ?case by (simp add: recent_append [OF Cons.prems])
qed

end

end
