(* ===== verification/Frame_Log.thy ===== *)
theory Frame_Log
  imports Rolling_Log
begin

text \<open>
  lib/ff_core/frame_log.h: the rolling log of the frames this node sent and received, the
  newest 32 of them.
\<close>

section \<open>State and operations\<close>

definition kFrameLogCapacity :: nat where [simp]: "kFrameLogCapacity = 32"

datatype frame_result = Tx | RxOk | Self | CryptoFail | ReplayFail | DecodeFail | Oversize

record frame_log_entry =
  fe_ms :: u32
  fe_uid :: u32
  fe_len :: u16
  fe_rssi :: i16
  fe_radio :: u8
  fe_type :: u8
  fe_result :: frame_result

definition blank_entry :: frame_log_entry where
  "blank_entry = \<lparr>fe_ms = 0, fe_uid = 0, fe_len = 0, fe_rssi = 0, fe_radio = 0, fe_type = 0,
     fe_result = RxOk\<rparr>"

record frame_log =
  fl_entries :: "frame_log_entry list"
  fl_head :: nat
  fl_count :: nat
  fl_total :: u32

definition FrameLog :: frame_log where
  "FrameLog = \<lparr>fl_entries = replicate kFrameLogCapacity blank_entry, fl_head = 0, fl_count = 0,
     fl_total = 0\<rparr>"

definition fl_add :: "frame_log \<Rightarrow> frame_log_entry \<Rightarrow> frame_log" where
  "fl_add l e =
     l\<lparr>fl_entries := (fl_entries l)[fl_head l := e],
       fl_head := (fl_head l + 1) mod kFrameLogCapacity,
       fl_count := (if fl_count l < kFrameLogCapacity then fl_count l + 1 else fl_count l),
       fl_total := fl_total l + 1\<rparr>"

definition fl_at :: "frame_log \<Rightarrow> nat \<Rightarrow> frame_log_entry" where
  "fl_at l i =
     fl_entries l ! ((fl_head l + kFrameLogCapacity - 1 - i mod kFrameLogCapacity)
                       mod kFrameLogCapacity)"

definition fl_clear :: "frame_log \<Rightarrow> frame_log" where
  "fl_clear l = l\<lparr>fl_head := 0, fl_count := 0\<rparr>"

section \<open>Lemmas\<close>

definition fl_inv :: "frame_log \<Rightarrow> bool" where
  "fl_inv l \<longleftrightarrow> length (fl_entries l) = kFrameLogCapacity \<and> fl_head l < kFrameLogCapacity \<and>
     fl_count l \<le> kFrameLogCapacity"

abbreviation fl_recent :: "frame_log \<Rightarrow> frame_log_entry list" where
  "fl_recent \<equiv> recent_of fl_at fl_count"

interpretation frames: rolling_log kFrameLogCapacity fl_entries fl_head fl_count fl_add fl_at fl_inv
  by unfold_locales (auto simp: fl_inv_def fl_add_def fl_at_def)

lemma FrameLog_inv [inv_intros]: "fl_inv FrameLog"
  by (simp add: fl_inv_def FrameLog_def)

lemmas [inv_intros] = frames.append_inv

lemma fl_add_total [simp]: "fl_total (fl_add l e) = fl_total l + 1"
  by (simp add: fl_add_def)

lemma fl_total_history: "fl_total (foldl fl_add l es) = fl_total l + of_nat (length es)"
  by (induction es arbitrary: l) simp_all

section \<open>Properties\<close>

text \<open>Whatever is logged, reading the log from index 0 gives the newest frames first,
  the last 32 of them and no others, and the total counts every frame ever logged, those
  overwritten included.\<close>

theorem frame_log_history:
  "fl_recent (foldl fl_add FrameLog es) = take kFrameLogCapacity (rev es) \<and>
   fl_total (foldl fl_add FrameLog es) = of_nat (length es)"
  using frames.recent_history [OF FrameLog_inv, of es] fl_total_history [of FrameLog es]
  by (simp add: recent_of_def FrameLog_def)

end
