(* ===== verification/Log_Ring.thy ===== *)
theory Log_Ring
  imports Rolling_Log
begin

text \<open>
  lib/ff_core/log.h and log.cpp: the in-memory diagnostic log, the newest 48 lines. The
  text argument of \<open>lr_add\<close> is what \<open>vsnprintf\<close> would produce without a limit; the
  clock argument is what the installed clock function returns during the call. An echo to
  the installed sink is the second component of the result.
\<close>

section \<open>State and operations\<close>

definition kLogCapacity :: nat where [simp]: "kLogCapacity = 48"
definition kLogTextLen :: nat where [simp]: "kLogTextLen = 72"

datatype log_level = LDebug | LInfo | LWarn | LError

fun log_level_num :: "log_level \<Rightarrow> nat" where
  "log_level_num LDebug = 0"
| "log_level_num LInfo = 1"
| "log_level_num LWarn = 2"
| "log_level_num LError = 3"

instantiation log_level :: linorder
begin

definition less_eq_log_level :: "log_level \<Rightarrow> log_level \<Rightarrow> bool" where
  "less_eq_log_level a b \<longleftrightarrow> log_level_num a \<le> log_level_num b"

definition less_log_level :: "log_level \<Rightarrow> log_level \<Rightarrow> bool" where
  "less_log_level a b \<longleftrightarrow> log_level_num a < log_level_num b"

instance
proof
  fix x y z :: log_level
  show "x < y \<longleftrightarrow> x \<le> y \<and> \<not> y \<le> x"
    by (auto simp: less_eq_log_level_def less_log_level_def)
  show "x \<le> x" by (simp add: less_eq_log_level_def)
  show "x \<le> y \<Longrightarrow> y \<le> z \<Longrightarrow> x \<le> z" by (simp add: less_eq_log_level_def)
  show "x \<le> y \<Longrightarrow> y \<le> x \<Longrightarrow> x = y"
    by (cases x; cases y) (simp_all add: less_eq_log_level_def)
  show "x \<le> y \<or> y \<le> x" by (auto simp: less_eq_log_level_def)
qed

end

fun logLevelName :: "log_level \<Rightarrow> string" where
  "logLevelName LDebug = ''debug''"
| "logLevelName LInfo = ''info''"
| "logLevelName LWarn = ''warn''"
| "logLevelName LError = ''error''"

record log_entry =
  le_ms :: u32
  le_level :: log_level
  le_text :: byte_list

record log_ring =
  lr_entries :: "log_entry list"
  lr_head :: nat
  lr_count :: nat
  lr_total :: u32
  lr_warnings :: u32
  lr_errors :: u32
  lr_min_level :: log_level
  lr_has_clock :: bool
  lr_has_sink :: bool

definition LogRing :: log_ring where
  "LogRing = \<lparr>lr_entries = replicate kLogCapacity \<lparr>le_ms = 0, le_level = LInfo, le_text = []\<rparr>,
     lr_head = 0, lr_count = 0, lr_total = 0, lr_warnings = 0, lr_errors = 0,
     lr_min_level = LInfo, lr_has_clock = False, lr_has_sink = False\<rparr>"

text \<open>The entry \<open>vadd\<close> stores: \<open>vsnprintf\<close> cuts the text to the array, less its NUL.\<close>

definition lr_entry :: "log_ring \<Rightarrow> u32 \<Rightarrow> log_level \<Rightarrow> byte_list \<Rightarrow> log_entry" where
  "lr_entry l clock level msg =
     \<lparr>le_ms = (if lr_has_clock l then clock else 0), le_level = level, le_text = take kLogTextLen msg\<rparr>"

definition lr_store :: "log_ring \<Rightarrow> log_entry \<Rightarrow> log_ring" where
  "lr_store l e =
     l\<lparr>lr_entries := (lr_entries l)[lr_head l := e],
       lr_head := (lr_head l + 1) mod kLogCapacity,
       lr_count := (if lr_count l < kLogCapacity then lr_count l + 1 else lr_count l),
       lr_total := lr_total l + 1,
       lr_warnings := (if le_level e = LWarn then lr_warnings l + 1 else lr_warnings l),
       lr_errors := (if le_level e = LError then lr_errors l + 1 else lr_errors l)\<rparr>"

definition lr_add :: "log_ring \<Rightarrow> u32 \<Rightarrow> log_level \<Rightarrow> byte_list \<Rightarrow> log_ring \<times> log_entry option" where
  "lr_add l clock level msg =
     (if level < lr_min_level l then (l, None)
      else let e = lr_entry l clock level msg
           in (lr_store l e, if lr_has_sink l then Some e else None))"

definition lr_at :: "log_ring \<Rightarrow> nat \<Rightarrow> log_entry" where
  "lr_at l i =
     lr_entries l ! ((lr_head l + kLogCapacity - 1 - i mod kLogCapacity) mod kLogCapacity)"

definition lr_clear :: "log_ring \<Rightarrow> log_ring" where
  "lr_clear l = l\<lparr>lr_head := 0, lr_count := 0\<rparr>"

text \<open>A run of log calls, each with its clock reading, level and text.\<close>

definition lr_run :: "log_ring \<Rightarrow> (u32 \<times> log_level \<times> byte_list) list \<Rightarrow> log_ring" where
  "lr_run = foldl (\<lambda>l (clock, level, msg). fst (lr_add l clock level msg))"

section \<open>Lemmas\<close>

definition lr_inv :: "log_ring \<Rightarrow> bool" where
  "lr_inv l \<longleftrightarrow> length (lr_entries l) = kLogCapacity \<and> lr_head l < kLogCapacity \<and>
     lr_count l \<le> kLogCapacity"

abbreviation lr_recent :: "log_ring \<Rightarrow> log_entry list" where
  "lr_recent \<equiv> recent_of lr_at lr_count"

interpretation logs: rolling_log kLogCapacity lr_entries lr_head lr_count lr_store lr_at lr_inv
  by unfold_locales (auto simp: lr_inv_def lr_store_def lr_at_def)

lemma LogRing_inv [inv_intros]: "lr_inv LogRing"
  by (simp add: lr_inv_def LogRing_def)

lemma lr_store_frame [frame_simps]:
  "lr_min_level (lr_store l e) = lr_min_level l" "lr_has_clock (lr_store l e) = lr_has_clock l"
  "lr_has_sink (lr_store l e) = lr_has_sink l"
  by (simp_all add: lr_store_def)

text \<open>The calls a ring accepts, as the entries it stores.\<close>

definition lr_accepted :: "log_ring \<Rightarrow> (u32 \<times> log_level \<times> byte_list) list \<Rightarrow> log_entry list" where
  "lr_accepted l calls =
     map (\<lambda>(clock, level, msg). lr_entry l clock level msg)
       (filter (\<lambda>(clock, level, msg). lr_min_level l \<le> level) calls)"

lemma lr_run_accepted: "lr_run l calls = foldl lr_store l (lr_accepted l calls)"
proof (induction calls arbitrary: l)
  case Nil
  then show ?case by (simp add: lr_run_def lr_accepted_def)
next
  case (Cons c calls)
  obtain clock level msg where c: "c = (clock, level, msg)" by (cases c)
  show ?case
  proof (cases "level < lr_min_level l")
    case True
    then show ?thesis using Cons.IH [of l]
      by (simp add: c lr_run_def lr_accepted_def lr_add_def)
  next
    case False
    let ?l = "lr_store l (lr_entry l clock level msg)"
    have "lr_accepted ?l calls = lr_accepted l calls"
      by (simp add: lr_accepted_def lr_entry_def frame_simps)
    with False show ?thesis using Cons.IH [of ?l]
      by (simp add: c lr_run_def lr_accepted_def lr_add_def Let_def)
  qed
qed

lemma lr_counters_history:
  "lr_total (foldl lr_store l es) = lr_total l + of_nat (length es) \<and>
   lr_warnings (foldl lr_store l es) =
     lr_warnings l + of_nat (length (filter (\<lambda>e. le_level e = LWarn) es)) \<and>
   lr_errors (foldl lr_store l es) =
     lr_errors l + of_nat (length (filter (\<lambda>e. le_level e = LError) es))"
  by (induction es arbitrary: l) (auto simp: lr_store_def)

section \<open>Properties\<close>

text \<open>The diagnostic log holds exactly the newest 48 of the accepted lines, newest
  first; lines below the minimum level leave no trace; and the total, warning and error
  counters count every accepted line since boot.\<close>

theorem log_ring_history:
  "lr_recent (lr_run LogRing calls) = take kLogCapacity (rev (lr_accepted LogRing calls)) \<and>
   lr_total (lr_run LogRing calls) = of_nat (length (lr_accepted LogRing calls)) \<and>
   lr_warnings (lr_run LogRing calls) =
     of_nat (length (filter (\<lambda>e. le_level e = LWarn) (lr_accepted LogRing calls))) \<and>
   lr_errors (lr_run LogRing calls) =
     of_nat (length (filter (\<lambda>e. le_level e = LError) (lr_accepted LogRing calls)))"
  using logs.recent_history [OF LogRing_inv, of "lr_accepted LogRing calls"]
    lr_counters_history [of LogRing "lr_accepted LogRing calls"]
  by (simp add: lr_run_accepted) (simp add: recent_of_def LogRing_def)

end
