(* ===== verification/Bounded_Fifo.thy ===== *)
theory Bounded_Fifo
  imports Prelude
begin

text \<open>
  The contract of the two frame buffers of the core: the receive ring between a radio's
  interrupt and the main loop (ring_buffer.h) and the slot that holds one deferred
  transmission (tx_slot.h). Both are bounded first-in first-out buffers that refuse an
  item rather than overwrite one. The locale states the contract; its lemmas say what any
  sequence of operations delivers.
\<close>

datatype 'a fifo_op = Push 'a | Pop

text \<open>A run over a buffer: the items accepted and the items delivered, in order.\<close>

fun fifo_run ::
  "('s \<Rightarrow> 'a \<Rightarrow> 's \<times> bool) \<Rightarrow> ('s \<Rightarrow> 's \<times> 'a option) \<Rightarrow> 's \<Rightarrow> 'a fifo_op list \<Rightarrow>
     's \<times> 'a list \<times> 'a list" where
  "fifo_run push pop s [] = (s, [], [])"
| "fifo_run push pop s (Push x # ops) =
     (case push s x of (s', ok) \<Rightarrow>
        (case fifo_run push pop s' ops of (s'', acc, del) \<Rightarrow>
           (s'', if ok then x # acc else acc, del)))"
| "fifo_run push pop s (Pop # ops) =
     (case pop s of (s', out) \<Rightarrow>
        (case fifo_run push pop s' ops of (s'', acc, del) \<Rightarrow>
           (s'', acc, case out of None \<Rightarrow> del | Some x \<Rightarrow> x # del)))"

locale bounded_fifo =
  fixes inv :: "'s \<Rightarrow> bool"
    and contents :: "'s \<Rightarrow> 'a list"
    and room :: "'s \<Rightarrow> nat"
    and fits :: "'a \<Rightarrow> bool"
    and push :: "'s \<Rightarrow> 'a \<Rightarrow> 's \<times> bool"
    and pop :: "'s \<Rightarrow> 's \<times> 'a option"
  assumes contents_bound: "inv s \<Longrightarrow> length (contents s) \<le> room s"
    and push_inv: "inv s \<Longrightarrow> inv (fst (push s x)) \<and> room (fst (push s x)) = room s"
    and push_accepts: "inv s \<Longrightarrow> snd (push s x) \<longleftrightarrow> fits x \<and> length (contents s) < room s"
    and push_contents: "inv s \<Longrightarrow>
      contents (fst (push s x)) = (if snd (push s x) then contents s @ [x] else contents s)"
    and pop_inv: "inv s \<Longrightarrow> inv (fst (pop s)) \<and> room (fst (pop s)) = room s"
    and pop_contents: "inv s \<Longrightarrow>
      (case contents s of
         [] \<Rightarrow> snd (pop s) = None \<and> contents (fst (pop s)) = []
       | x # xs \<Rightarrow> snd (pop s) = Some x \<and> contents (fst (pop s)) = xs)"
begin

text \<open>Nothing accepted is lost, duplicated or reordered.\<close>

lemma fifo_order:
  assumes "inv s" "fifo_run push pop s ops = (s', acc, del)"
  shows "inv s' \<and> room s' = room s \<and> contents s @ acc = del @ contents s'"
  using assms
proof (induction ops arbitrary: s acc del)
  case Nil
  then show ?case by auto
next
  case (Cons op ops)
  show ?case
  proof (cases op)
    case (Push x)
    obtain s1 ok where p: "push s x = (s1, ok)" by fastforce
    obtain s2 acc' del' where r: "fifo_run push pop s1 ops = (s2, acc', del')"
      by (metis prod_cases3)
    from Cons.prems(2) p r Push
    have eq: "s' = s2" "acc = (if ok then x # acc' else acc')" "del = del'" by auto
    show ?thesis
      using Cons.IH [of s1 acc' del'] push_inv [OF Cons.prems(1), of x]
        push_contents [OF Cons.prems(1), of x] p r eq
      by (auto split: if_splits)
  next
    case Pop
    obtain s1 out where p: "pop s = (s1, out)" by fastforce
    obtain s2 acc' del' where r: "fifo_run push pop s1 ops = (s2, acc', del')"
      by (metis prod_cases3)
    from Cons.prems(2) p r Pop
    have eq: "s' = s2" "acc = acc'" "del = (case out of None \<Rightarrow> del' | Some x \<Rightarrow> x # del')" by auto
    show ?thesis
      using Cons.IH [of s1 acc' del'] pop_inv [OF Cons.prems(1)] pop_contents [OF Cons.prems(1)]
        p r eq
      by (auto split: list.splits)
  qed
qed

text \<open>An item is refused only when it does not fit or the buffer is full.\<close>

lemma refusal: "inv s \<Longrightarrow> \<not> snd (push s x) \<longleftrightarrow> \<not> fits x \<or> length (contents s) = room s"
  using push_accepts [of s x] contents_bound [of s] by auto

end

end
