(* ===== verification/Tx_Slot.thy ===== *)
theory Tx_Slot
  imports Bounded_Fifo
begin

text \<open>
  lib/ff_core/tx_slot.h: the one frame a radio driver holds back while the previous one is
  on the air. \<open>push\<close> is given the frame's bytes, or \<open>None\<close> for a null pointer. The driver
  (hal/RadioLoRa.cpp, \<open>sendPending\<close>) reads \<open>data\<close> and \<open>size\<close> of a non-empty slot and
  clears it; \<open>ts_take\<close> is that sequence.
\<close>

definition ts_kCapacity :: nat where [simp]: "ts_kCapacity = 64"

record tx_slot =
  ts_buf :: byte_list
  ts_len :: nat
  ts_full :: bool
  ts_deferred :: u32

definition TxSlot :: tx_slot where
  "TxSlot = \<lparr>ts_buf = replicate ts_kCapacity 0, ts_len = 0, ts_full = False, ts_deferred = 0\<rparr>"

definition ts_push_ptr :: "tx_slot \<Rightarrow> byte_list option \<Rightarrow> tx_slot \<times> bool" where
  "ts_push_ptr s d =
     (case d of
        None \<Rightarrow> (s, False)
      | Some bytes \<Rightarrow>
          if ts_full s \<or> length bytes = 0 \<or> length bytes > ts_kCapacity then (s, False)
          else (s\<lparr>ts_buf := bytes @ drop (length bytes) (ts_buf s), ts_len := length bytes,
                  ts_full := True, ts_deferred := ts_deferred s + 1\<rparr>, True))"

definition ts_push :: "tx_slot \<Rightarrow> byte_list \<Rightarrow> tx_slot \<times> bool" where
  "ts_push s bytes = ts_push_ptr s (Some bytes)"

definition ts_empty :: "tx_slot \<Rightarrow> bool" where
  "ts_empty s \<longleftrightarrow> \<not> ts_full s"

text \<open>The bytes a caller reads through \<open>data()\<close> and \<open>size()\<close>.\<close>

definition ts_data :: "tx_slot \<Rightarrow> byte_list" where
  "ts_data s = take (ts_len s) (ts_buf s)"

definition ts_clear :: "tx_slot \<Rightarrow> tx_slot" where
  "ts_clear s = s\<lparr>ts_full := False, ts_len := 0\<rparr>"

definition ts_take :: "tx_slot \<Rightarrow> tx_slot \<times> byte_list option" where
  "ts_take s = (if ts_empty s then (s, None) else (ts_clear s, Some (ts_data s)))"

section \<open>Lemmas\<close>

definition ts_inv :: "tx_slot \<Rightarrow> bool" where
  "ts_inv s \<longleftrightarrow> length (ts_buf s) = ts_kCapacity \<and> ts_len s \<le> ts_kCapacity \<and>
     (ts_full s \<longleftrightarrow> ts_len s \<noteq> 0)"

definition ts_contents :: "tx_slot \<Rightarrow> byte_list list" where
  "ts_contents s = (if ts_full s then [ts_data s] else [])"

definition ts_fits :: "byte_list \<Rightarrow> bool" where
  "ts_fits bytes \<longleftrightarrow> 0 < length bytes \<and> length bytes \<le> ts_kCapacity"

lemma TxSlot_inv [inv_intros]: "ts_inv TxSlot"
  by (simp add: ts_inv_def TxSlot_def)

lemmas ts_defs = ts_push_def ts_push_ptr_def ts_empty_def ts_data_def ts_clear_def ts_take_def
  ts_inv_def ts_contents_def ts_fits_def

interpretation slot: bounded_fifo ts_inv ts_contents "\<lambda>_. 1" ts_fits ts_push ts_take
  by unfold_locales (auto simp: ts_defs)

section \<open>Properties\<close>

text \<open>The transmit slot never overwrites a held frame, never reorders and never alters
  one: over any sequence of pushes and takes on a new slot, the frames taken followed by
  the frame still held are exactly the frames accepted, in order.\<close>

theorem tx_slot_in_order:
  "(case fifo_run ts_push ts_take TxSlot ops of
      (s, accepted, taken) \<Rightarrow> accepted = taken @ ts_contents s \<and> length (ts_contents s) \<le> 1)"
proof -
  obtain s acc del where r: "fifo_run ts_push ts_take TxSlot ops = (s, acc, del)"
    by (metis prod_cases3)
  from slot.fifo_order [OF TxSlot_inv r] have "acc = del @ ts_contents s"
    by (simp add: ts_contents_def TxSlot_def)
  then show ?thesis by (simp add: r ts_contents_def)
qed

end
