(* ===== verification/Spsc_Ring.thy ===== *)
theory Spsc_Ring
  imports Bounded_Fifo
begin

text \<open>
  lib/ff_core/ring_buffer.h: the single-producer single-consumer ring that carries received
  frames from an interrupt or callback to the main loop. The first part models \<open>push\<close>,
  \<open>pop\<close> and the queries as whole operations. The second splits them at their memory
  accesses and lets producer and consumer steps interleave in any order.

  The capacity is the length of the buffer. Indices are read and stored atomically
  (release/acquire in the source), which the model takes as sequentially consistent steps.
\<close>

section \<open>State and operations\<close>

record 'a spsc_ring =
  rb_buf :: "'a list"
  rb_head :: nat
  rb_tail :: nat
  rb_dropped :: u32

definition rb_capacity :: "'a spsc_ring \<Rightarrow> nat" where
  "rb_capacity r = length (rb_buf r)"

definition rb_next :: "'a spsc_ring \<Rightarrow> nat \<Rightarrow> nat" where
  "rb_next r i = (i + 1) mod rb_capacity r"

definition SpscRing :: "nat \<Rightarrow> 'a \<Rightarrow> 'a spsc_ring" where
  "SpscRing capacity x0 = \<lparr>rb_buf = replicate capacity x0, rb_head = 0, rb_tail = 0, rb_dropped = 0\<rparr>"

definition rb_push :: "'a spsc_ring \<Rightarrow> 'a \<Rightarrow> 'a spsc_ring \<times> bool" where
  "rb_push r x =
     (let head = rb_head r; next_head = rb_next r head
      in if next_head = rb_tail r then (r\<lparr>rb_dropped := rb_dropped r + 1\<rparr>, False)
         else (r\<lparr>rb_buf := (rb_buf r)[head := x], rb_head := next_head\<rparr>, True))"

definition rb_pop :: "'a spsc_ring \<Rightarrow> 'a spsc_ring \<times> 'a option" where
  "rb_pop r =
     (let tail = rb_tail r
      in if tail = rb_head r then (r, None)
         else (r\<lparr>rb_tail := rb_next r tail\<rparr>, Some (rb_buf r ! tail)))"

definition rb_empty :: "'a spsc_ring \<Rightarrow> bool" where
  "rb_empty r \<longleftrightarrow> rb_head r = rb_tail r"

definition rb_full :: "'a spsc_ring \<Rightarrow> bool" where
  "rb_full r \<longleftrightarrow> rb_next r (rb_head r) = rb_tail r"

definition rb_size :: "'a spsc_ring \<Rightarrow> nat" where
  "rb_size r = (rb_head r + rb_capacity r - rb_tail r) mod rb_capacity r"

section \<open>Lemmas\<close>

definition rb_inv :: "'a spsc_ring \<Rightarrow> bool" where
  "rb_inv r \<longleftrightarrow> 2 \<le> rb_capacity r \<and> rb_head r < rb_capacity r \<and> rb_tail r < rb_capacity r"

definition rb_contents :: "'a spsc_ring \<Rightarrow> 'a list" where
  "rb_contents r = map (\<lambda>k. rb_buf r ! ((rb_tail r + k) mod rb_capacity r)) [0..<rb_size r]"

definition rb_room :: "'a spsc_ring \<Rightarrow> nat" where
  "rb_room r = rb_capacity r - 1"

lemma rb_capacity_upd [simp]:
  "rb_capacity (r\<lparr>rb_head := h\<rparr>) = rb_capacity r" "rb_capacity (r\<lparr>rb_tail := h\<rparr>) = rb_capacity r"
  "rb_capacity (r\<lparr>rb_buf := (rb_buf r)[i := x]\<rparr>) = rb_capacity r"
  "rb_capacity (r\<lparr>rb_dropped := d\<rparr>) = rb_capacity r"
  by (simp_all add: rb_capacity_def)

lemma rb_size_upd [simp]:
  "rb_size (r\<lparr>rb_buf := (rb_buf r)[i := x]\<rparr>) = rb_size r" "rb_size (r\<lparr>rb_dropped := d\<rparr>) = rb_size r"
  by (simp_all add: rb_size_def)

lemma rb_size_cases:
  "rb_inv r \<Longrightarrow> rb_size r = (if rb_tail r \<le> rb_head r then rb_head r - rb_tail r
                            else rb_head r + rb_capacity r - rb_tail r)"
  by (auto simp: rb_size_def rb_inv_def mod_if)

lemma rb_next_cases:
  "rb_inv r \<Longrightarrow> i < rb_capacity r \<Longrightarrow> rb_next r i = (if i + 1 = rb_capacity r then 0 else i + 1)"
  by (simp add: rb_next_def)

lemma rb_size_bound: "rb_inv r \<Longrightarrow> rb_size r \<le> rb_room r"
  by (auto simp: rb_size_cases rb_room_def) (auto simp: rb_inv_def)

lemma length_rb_contents [simp]: "length (rb_contents r) = rb_size r"
  by (simp add: rb_contents_def)

lemma rb_full_iff: "rb_inv r \<Longrightarrow> rb_full r \<longleftrightarrow> rb_size r = rb_room r"
  by (auto simp: rb_full_def rb_size_cases rb_next_cases rb_room_def rb_inv_def)

lemma rb_empty_iff: "rb_inv r \<Longrightarrow> rb_empty r \<longleftrightarrow> rb_size r = 0"
  by (auto simp: rb_empty_def rb_size_cases rb_inv_def)

text \<open>The cell the producer writes is not one of the live cells.\<close>

lemma rb_live_cell:
  assumes "rb_inv r" "k < rb_size r"
  shows "(rb_tail r + k) mod rb_capacity r \<noteq> rb_head r" "(rb_tail r + k) mod rb_capacity r < rb_capacity r"
proof -
  from assms have "rb_tail r + k < 2 * rb_capacity r"
    using rb_size_bound [OF assms(1)] by (auto simp: rb_inv_def rb_room_def)
  from mod_wrap [OF this] assms
  show "(rb_tail r + k) mod rb_capacity r \<noteq> rb_head r"
    by (auto simp: rb_size_cases split: if_splits)
  show "(rb_tail r + k) mod rb_capacity r < rb_capacity r"
    using assms(1) by (simp add: rb_inv_def)
qed

lemma rb_next_lt: "rb_inv r \<Longrightarrow> rb_next r i < rb_capacity r"
  by (simp add: rb_next_def rb_inv_def)

lemma rb_inv_moves [inv_intros]:
  assumes "rb_inv r"
  shows "rb_inv (r\<lparr>rb_head := rb_next r i\<rparr>)" "rb_inv (r\<lparr>rb_tail := rb_next r i\<rparr>)"
    "rb_inv (r\<lparr>rb_buf := (rb_buf r)[j := x]\<rparr>)" "rb_inv (r\<lparr>rb_dropped := d\<rparr>)"
  using assms rb_next_lt [OF assms, of i] by (auto simp: rb_inv_def rb_capacity_def)

lemma rb_contents_write:
  assumes "rb_inv r"
  shows "rb_contents (r\<lparr>rb_buf := (rb_buf r)[rb_head r := x]\<rparr>) = rb_contents r"
proof -
  have "(rb_buf r)[rb_head r := x] ! ((rb_tail r + k) mod rb_capacity r) =
      rb_buf r ! ((rb_tail r + k) mod rb_capacity r)" if "k < rb_size r" for k
    using rb_live_cell(1) [OF assms that] by (simp add: nth_list_update_neq)
  then show ?thesis by (simp add: rb_contents_def)
qed

lemma rb_contents_publish:
  assumes "rb_inv r" "\<not> rb_full r"
  shows "rb_contents (r\<lparr>rb_head := rb_next r (rb_head r)\<rparr>) = rb_contents r @ [rb_buf r ! rb_head r]"
proof -
  let ?r = "r\<lparr>rb_head := rb_next r (rb_head r)\<rparr>"
  have inv: "rb_inv ?r" using assms(1) by (rule rb_inv_moves)
  have cap: "rb_capacity ?r = rb_capacity r" by (simp add: rb_capacity_def)
  have size: "rb_size ?r = Suc (rb_size r)"
    using assms rb_size_cases [OF inv] rb_size_cases [OF assms(1)] rb_next_cases [OF assms(1), of "rb_head r"]
    by (auto simp: cap rb_full_def rb_inv_def split: if_splits)
  have "(rb_tail r + rb_size r) mod rb_capacity r = rb_head r"
    using assms(1) rb_size_cases [OF assms(1)] by (auto simp: rb_inv_def mod_if)
  then show ?thesis by (simp add: rb_contents_def size cap)
qed

lemma rb_contents_nonempty:
  assumes "rb_inv r" "\<not> rb_empty r"
  shows "rb_contents r = rb_buf r ! rb_tail r # rb_contents (r\<lparr>rb_tail := rb_next r (rb_tail r)\<rparr>)"
proof -
  let ?r = "r\<lparr>rb_tail := rb_next r (rb_tail r)\<rparr>"
  have inv: "rb_inv ?r" using assms(1) by (rule rb_inv_moves)
  have cap: "rb_capacity ?r = rb_capacity r" by (simp add: rb_capacity_def)
  have size: "rb_size r = Suc (rb_size ?r)"
    using assms rb_size_cases [OF inv] rb_size_cases [OF assms(1)] rb_next_cases [OF assms(1), of "rb_tail r"]
    by (auto simp: cap rb_empty_def rb_inv_def split: if_splits)
  have shift: "(rb_next r (rb_tail r) + k) mod rb_capacity r = (rb_tail r + Suc k) mod rb_capacity r" for k
    by (simp add: rb_next_def mod_add_left_eq)
  have "rb_tail r mod rb_capacity r = rb_tail r"
    using assms(1) by (simp add: rb_inv_def)
  then show ?thesis
    by (simp add: rb_contents_def size cap shift upt_conv_Cons map_Suc_upt [symmetric] del: upt_Suc)
qed

lemma rb_room_upd [simp]:
  "rb_room (r\<lparr>rb_head := h\<rparr>) = rb_room r" "rb_room (r\<lparr>rb_tail := h\<rparr>) = rb_room r"
  "rb_room (r\<lparr>rb_buf := (rb_buf r)[i := x]\<rparr>) = rb_room r"
  "rb_room (r\<lparr>rb_dropped := d\<rparr>) = rb_room r"
  by (simp_all add: rb_room_def)

lemma rb_contents_dropped [simp]: "rb_contents (r\<lparr>rb_dropped := d\<rparr>) = rb_contents r"
  by (simp add: rb_contents_def)

text \<open>The two writes of a successful push: the cell, then the head.\<close>

lemma rb_contents_push:
  assumes "rb_inv r" "\<not> rb_full r"
  shows "rb_contents (r\<lparr>rb_buf := (rb_buf r)[rb_head r := x], rb_head := rb_next r (rb_head r)\<rparr>) =
    rb_contents r @ [x]"
proof -
  let ?w = "r\<lparr>rb_buf := (rb_buf r)[rb_head r := x]\<rparr>"
  have w: "rb_inv ?w" "\<not> rb_full ?w" "rb_next ?w i = rb_next r i" "rb_buf ?w ! rb_head ?w = x" for i
    using assms rb_inv_moves(3) [OF assms(1)]
    by (auto simp: rb_full_def rb_next_def rb_inv_def) (simp add: rb_capacity_def)
  from rb_contents_publish [OF w(1,2)] w(3,4) show ?thesis
    by (simp add: rb_contents_write [OF assms(1)])
qed

lemma rb_push_cases:
  "rb_push r x =
     (if rb_full r then (r\<lparr>rb_dropped := rb_dropped r + 1\<rparr>, False)
      else (r\<lparr>rb_buf := (rb_buf r)[rb_head r := x], rb_head := rb_next r (rb_head r)\<rparr>, True))"
  by (simp add: rb_push_def rb_full_def Let_def)

lemma rb_pop_cases:
  "rb_pop r =
     (if rb_empty r then (r, None)
      else (r\<lparr>rb_tail := rb_next r (rb_tail r)\<rparr>, Some (rb_buf r ! rb_tail r)))"
  by (auto simp: rb_pop_def rb_empty_def Let_def)

lemma rb_push_inv [inv_intros]: "rb_inv r \<Longrightarrow> rb_inv (fst (rb_push r x))"
  using rb_inv_moves(1) [OF rb_inv_moves(3) [of r "rb_head r" x], of "rb_head r"]
  by (auto simp: rb_push_cases rb_inv_moves rb_next_def)

lemma rb_pop_inv [inv_intros]: "rb_inv r \<Longrightarrow> rb_inv (fst (rb_pop r))"
  by (auto simp: rb_pop_cases rb_inv_moves)

interpretation ring: bounded_fifo rb_inv rb_contents rb_room "\<lambda>_. True" rb_push rb_pop
proof unfold_locales
  fix r :: "'a spsc_ring" and x :: 'a
  assume inv: "rb_inv r"
  show "length (rb_contents r) \<le> rb_room r" using rb_size_bound [OF inv] by simp
  show "rb_inv (fst (rb_push r x)) \<and> rb_room (fst (rb_push r x)) = rb_room r"
    using rb_push_inv [OF inv, of x] by (simp add: rb_push_cases)
  show "snd (rb_push r x) \<longleftrightarrow> True \<and> length (rb_contents r) < rb_room r"
    using rb_full_iff [OF inv] rb_size_bound [OF inv] by (auto simp: rb_push_cases)
  show "rb_contents (fst (rb_push r x)) =
      (if snd (rb_push r x) then rb_contents r @ [x] else rb_contents r)"
    using rb_contents_push [OF inv, of x] by (simp add: rb_push_cases)
  show "rb_inv (fst (rb_pop r)) \<and> rb_room (fst (rb_pop r)) = rb_room r"
    using rb_pop_inv [OF inv] by (simp add: rb_pop_cases)
  show "case rb_contents r of
      [] \<Rightarrow> snd (rb_pop r) = None \<and> rb_contents (fst (rb_pop r)) = []
    | x # xs \<Rightarrow> snd (rb_pop r) = Some x \<and> rb_contents (fst (rb_pop r)) = xs"
  proof (cases "rb_empty r")
    case True
    with rb_empty_iff [OF inv] have "rb_contents r = []"
      by (metis length_0_conv length_rb_contents)
    with True show ?thesis by (simp add: rb_pop_cases)
  next
    case False
    with rb_contents_nonempty [OF inv False] show ?thesis by (simp add: rb_pop_cases)
  qed
qed

section \<open>Interleaved producer and consumer\<close>

text \<open>
  Program counters inside \<open>push\<close> and \<open>pop\<close>, after the index loads and the full or
  empty test, and after the access to the cell. The producer's carry the item \<open>push\<close> was called
  with. The ghost lists record the items of the calls that were accepted (at the store to the
  head) and what \<open>pop\<close> returns (at the store to the tail).
\<close>

datatype 'a producer = PIdle | PWrite 'a nat | PPublish 'a nat

datatype 'a consumer = CIdle | CRead nat | CPublish nat 'a

record 'a spsc_sys =
  sy_ring :: "'a spsc_ring"
  sy_prod :: "'a producer"
  sy_cons :: "'a consumer"
  sy_pushed :: "'a list"
  sy_popped :: "'a list"

definition spsc_init :: "nat \<Rightarrow> 'a \<Rightarrow> 'a spsc_sys" where
  "spsc_init capacity x0 =
     \<lparr>sy_ring = SpscRing capacity x0, sy_prod = PIdle, sy_cons = CIdle, sy_pushed = [], sy_popped = []\<rparr>"

inductive spsc_step :: "'a spsc_sys \<Rightarrow> 'a spsc_sys \<Rightarrow> bool" where
  push_full:
    "sy_prod s = PIdle \<Longrightarrow> rb_next (sy_ring s) (rb_head (sy_ring s)) = rb_tail (sy_ring s) \<Longrightarrow>
     spsc_step s (s\<lparr>sy_ring := (sy_ring s)\<lparr>rb_dropped := rb_dropped (sy_ring s) + 1\<rparr>\<rparr>)"
| push_load:
    "sy_prod s = PIdle \<Longrightarrow> rb_next (sy_ring s) (rb_head (sy_ring s)) \<noteq> rb_tail (sy_ring s) \<Longrightarrow>
     spsc_step s (s\<lparr>sy_prod := PWrite x (rb_head (sy_ring s))\<rparr>)"
| push_write:
    "sy_prod s = PWrite x h \<Longrightarrow>
     spsc_step s (s\<lparr>sy_ring := (sy_ring s)\<lparr>rb_buf := (rb_buf (sy_ring s))[h := x]\<rparr>,
                    sy_prod := PPublish x h\<rparr>)"
| push_publish:
    "sy_prod s = PPublish x h \<Longrightarrow>
     spsc_step s (s\<lparr>sy_ring := (sy_ring s)\<lparr>rb_head := rb_next (sy_ring s) h\<rparr>,
                    sy_prod := PIdle,
                    sy_pushed := sy_pushed s @ [x]\<rparr>)"
| pop_load:
    "sy_cons s = CIdle \<Longrightarrow> rb_tail (sy_ring s) \<noteq> rb_head (sy_ring s) \<Longrightarrow>
     spsc_step s (s\<lparr>sy_cons := CRead (rb_tail (sy_ring s))\<rparr>)"
| pop_read:
    "sy_cons s = CRead t \<Longrightarrow>
     spsc_step s (s\<lparr>sy_cons := CPublish t (rb_buf (sy_ring s) ! t)\<rparr>)"
| pop_publish:
    "sy_cons s = CPublish t v \<Longrightarrow>
     spsc_step s (s\<lparr>sy_ring := (sy_ring s)\<lparr>rb_tail := rb_next (sy_ring s) t\<rparr>,
                    sy_cons := CIdle, sy_popped := sy_popped s @ [v]\<rparr>)"

inductive spsc_reachable :: "nat \<Rightarrow> 'a \<Rightarrow> 'a spsc_sys \<Rightarrow> bool" for capacity x0 where
  init: "spsc_reachable capacity x0 (spsc_init capacity x0)"
| step: "spsc_reachable capacity x0 s \<Longrightarrow> spsc_step s t \<Longrightarrow> spsc_reachable capacity x0 t"

definition spsc_inv :: "'a spsc_sys \<Rightarrow> bool" where
  "spsc_inv s \<longleftrightarrow>
     rb_inv (sy_ring s) \<and> sy_pushed s = sy_popped s @ rb_contents (sy_ring s) \<and>
     (case sy_prod s of
        PIdle \<Rightarrow> True
      | PWrite x h \<Rightarrow> h = rb_head (sy_ring s) \<and> \<not> rb_full (sy_ring s)
      | PPublish x h \<Rightarrow> h = rb_head (sy_ring s) \<and> \<not> rb_full (sy_ring s) \<and> rb_buf (sy_ring s) ! h = x) \<and>
     (case sy_cons s of
        CIdle \<Rightarrow> True
      | CRead t \<Rightarrow> t = rb_tail (sy_ring s) \<and> \<not> rb_empty (sy_ring s)
      | CPublish t v \<Rightarrow> t = rb_tail (sy_ring s) \<and> \<not> rb_empty (sy_ring s) \<and>
          v = rb_buf (sy_ring s) ! t)"


inductive_simps spsc_step_iff: "spsc_step s t"

lemma rb_size_pop: "rb_inv r \<Longrightarrow> \<not> rb_empty r \<Longrightarrow>
    Suc (rb_size (r\<lparr>rb_tail := rb_next r (rb_tail r)\<rparr>)) = rb_size r"
  by (metis length_Cons length_rb_contents rb_contents_nonempty)

lemma rb_size_publish: "rb_inv r \<Longrightarrow> \<not> rb_full r \<Longrightarrow>
    rb_size (r\<lparr>rb_head := rb_next r (rb_head r)\<rparr>) = Suc (rb_size r)"
  by (metis length_append_singleton length_rb_contents rb_contents_publish)

lemma rb_pop_not_full:
  assumes "rb_inv r" "\<not> rb_empty r"
  shows "\<not> rb_full (r\<lparr>rb_tail := rb_next r (rb_tail r)\<rparr>)"
  using assms rb_size_pop [OF assms] rb_size_bound [OF assms(1)]
  by (simp add: rb_full_iff rb_inv_moves)

lemma rb_publish_not_empty:
  assumes "rb_inv r" "\<not> rb_full r"
  shows "\<not> rb_empty (r\<lparr>rb_head := rb_next r (rb_head r)\<rparr>)"
  using rb_size_publish [OF assms] assms(1) by (simp add: rb_empty_iff rb_inv_moves)

lemma rb_status_write [simp]:
  "rb_full (r\<lparr>rb_buf := (rb_buf r)[i := x]\<rparr>) = rb_full r"
  "rb_empty (r\<lparr>rb_buf := (rb_buf r)[i := x]\<rparr>) = rb_empty r"
  "rb_full (r\<lparr>rb_dropped := d\<rparr>) = rb_full r" "rb_empty (r\<lparr>rb_dropped := d\<rparr>) = rb_empty r"
  by (simp_all add: rb_full_def rb_empty_def rb_next_def)

lemma spsc_init_inv: "2 \<le> capacity \<Longrightarrow> spsc_inv (spsc_init capacity x0)"
  by (simp add: spsc_inv_def spsc_init_def SpscRing_def rb_inv_def rb_contents_def rb_size_def
      rb_capacity_def)

lemma spsc_step_inv:
  assumes "spsc_step s t" "spsc_inv s"
  shows "spsc_inv t"
  using assms
proof (cases rule: spsc_step.cases)
  case push_full
  with assms(2) show ?thesis
    by (auto simp: spsc_inv_def rb_inv_moves split: producer.splits consumer.splits)
next
  case (push_load x)
  with assms(2) show ?thesis by (auto simp: spsc_inv_def rb_full_def split: consumer.splits)
next
  case (push_write x h)
  then have h: "h = rb_head (sy_ring s)" and inv: "rb_inv (sy_ring s)"
    using assms(2) by (auto simp: spsc_inv_def)
  have "rb_empty (sy_ring s) \<or> rb_head (sy_ring s) \<noteq> rb_tail (sy_ring s)"
    by (simp add: rb_empty_def)
  moreover have "rb_head (sy_ring s) < length (rb_buf (sy_ring s))"
    using inv by (simp add: rb_inv_def rb_capacity_def)
  ultimately show ?thesis using push_write assms(2) h
    by (auto simp: spsc_inv_def rb_inv_moves rb_contents_write [OF inv] nth_list_update_neq
        split: consumer.splits)
next
  case (push_publish x h)
  then have h: "h = rb_head (sy_ring s)" and inv: "rb_inv (sy_ring s)"
    and nf: "\<not> rb_full (sy_ring s)" and x: "rb_buf (sy_ring s) ! h = x"
    using assms(2) by (auto simp: spsc_inv_def)
  show ?thesis
    using push_publish assms(2) h x rb_contents_publish [OF inv nf] rb_publish_not_empty [OF inv nf]
    by (auto simp: spsc_inv_def rb_inv_moves split: consumer.splits)
next
  case pop_load
  with assms(2) show ?thesis by (auto simp: spsc_inv_def rb_empty_def split: producer.splits)
next
  case (pop_read t)
  with assms(2) show ?thesis by (auto simp: spsc_inv_def split: producer.splits)
next
  case (pop_publish t v)
  then have t: "t = rb_tail (sy_ring s)" "v = rb_buf (sy_ring s) ! t" and inv: "rb_inv (sy_ring s)"
    and ne: "\<not> rb_empty (sy_ring s)"
    using assms(2) by (auto simp: spsc_inv_def)
  show ?thesis
    using pop_publish assms(2) t rb_contents_nonempty [OF inv ne] rb_pop_not_full [OF inv ne]
    by (auto simp: spsc_inv_def rb_inv_moves split: producer.splits)
qed

lemma spsc_reachable_inv:
  assumes "spsc_reachable capacity x0 s" "2 \<le> capacity"
  shows "spsc_inv s \<and> rb_capacity (sy_ring s) = capacity"
  using assms
proof (induction rule: spsc_reachable.induct)
  case init
  then show ?case by (simp add: spsc_init_inv) (simp add: spsc_init_def SpscRing_def rb_capacity_def)
next
  case (step s t)
  then have "rb_capacity (sy_ring t) = rb_capacity (sy_ring s)"
    by (auto simp: spsc_step_iff)
  with step show ?case using spsc_step_inv by auto
qed

section \<open>Properties\<close>

text \<open>As whole operations, the receive ring is a queue of \<open>Capacity - 1\<close> frames: over any
  sequence of pushes and pops on a new ring, the frames delivered followed by the frames
  still queued are exactly the frames accepted, in order, and a push is refused only when
  \<open>Capacity - 1\<close> frames are queued.\<close>

theorem spsc_ring_in_order:
  assumes "2 \<le> capacity" "fifo_run rb_push rb_pop (SpscRing capacity x0) ops = (r, accepted, delivered)"
  shows "accepted = delivered @ rb_contents r \<and>
    (snd (rb_push r x) \<longleftrightarrow> rb_size r < capacity - 1)"
proof -
  have init: "rb_inv (SpscRing capacity x0)" "rb_contents (SpscRing capacity x0) = []"
    "rb_room (SpscRing capacity x0) = capacity - 1"
    using assms(1)
    by (simp_all add: SpscRing_def rb_inv_def rb_contents_def rb_size_def rb_capacity_def rb_room_def)
  from ring.fifo_order [OF init(1) assms(2)] init(2,3) ring.push_accepts [of r x]
  show ?thesis by auto
qed

theorem spsc_ring_in_order_witness:
  "\<exists>r. fifo_run rb_push rb_pop (SpscRing 3 0) [Push 7, Push 8, Push (9 :: nat), Pop] = (r, [7, 8], [7]) \<and>
     rb_contents r = [8]"
proof -
  have run: "fifo_run rb_push rb_pop (SpscRing 3 0) [Push 7, Push 8, Push (9 :: nat), Pop] =
      (\<lparr>rb_buf = [7, 8, 0], rb_head = 2, rb_tail = 1, rb_dropped = 1\<rparr>, [7, 8], [7])"
    by code_simp
  from spsc_ring_in_order [OF _ run] run show ?thesis by auto
qed

text \<open>C40: However the steps of the interrupt and of the main loop interleave, the frames \<open>pop\<close>
  returned are a prefix of the frames that \<open>push\<close> was called with and accepted, never more than \<open>Capacity - 1\<close> are in
  between, and the producer never writes the cell the consumer is reading.\<close>

theorem spsc_interleaving_safe:
  assumes "spsc_reachable capacity x0 s" "2 \<le> capacity"
  shows "\<exists>queued. sy_pushed s = sy_popped s @ queued \<and> length queued \<le> capacity - 1 \<and>
    (\<forall>x h t. sy_prod s = PWrite x h \<longrightarrow> sy_cons s = CRead t \<longrightarrow> h \<noteq> t)"
proof -
  note inv = spsc_reachable_inv [OF assms]
  then have "length (rb_contents (sy_ring s)) \<le> capacity - 1"
    using rb_size_bound [of "sy_ring s"] by (simp add: spsc_inv_def rb_room_def)
  moreover have "h \<noteq> t" if "sy_prod s = PWrite x h" "sy_cons s = CRead t" for x h t
    using inv that by (auto simp: spsc_inv_def rb_empty_def)
  ultimately show ?thesis using inv by (auto simp: spsc_inv_def)
qed

theorem spsc_interleaving_safe_witness:
  "\<exists>s. spsc_reachable 2 (0 :: nat) s \<and> sy_prod s = PWrite 5 0 \<and>
     (\<exists>queued. sy_pushed s = sy_popped s @ queued \<and> length queued \<le> 1)"
proof -
  let ?s = "(spsc_init 2 (0 :: nat))\<lparr>sy_prod := PWrite 5 0\<rparr>"
  have "spsc_step (spsc_init 2 (0 :: nat)) ?s"
    using spsc_step.push_load [of "spsc_init 2 (0 :: nat)" 5]
    by (simp add: spsc_init_def SpscRing_def rb_next_def rb_capacity_def)
  then have r: "spsc_reachable 2 (0 :: nat) ?s"
    by (rule spsc_reachable.step [OF spsc_reachable.init])
  from spsc_interleaving_safe [OF r] r show ?thesis by fastforce
qed

end
