(* ===== verification/Scheduler.thy ===== *)
theory Scheduler
  imports Prelude
begin

text \<open>
  lib/ff_core/scheduler.h and scheduler.cpp: sixteen timer slots driven by
  \<open>poll\<close>. A callback is a value of a task type \<open>'c\<close> (the function pointer together with
  its context), and what calling it does to the program is an argument \<open>run\<close> of
  \<open>sched_poll\<close>. A callback may call back into the scheduler, so the scheduler lives inside
  the world \<open>'w\<close> that \<open>run\<close> transforms, and \<open>get\<close> and \<open>put\<close> read and replace it there. A
  call through the null function pointer of a slot that was never scheduled has no result:
  \<open>sched_poll\<close> is then \<open>None\<close>.
\<close>

section \<open>State\<close>

definition kMaxTimers :: nat where [simp]: "kMaxTimers = 16"

type_synonym timer_handle = int

definition kInvalidTimer :: timer_handle where [simp]: "kInvalidTimer = -1"

record 'c timer =
  tm_due_ms :: u32
  tm_period_ms :: u32
  tm_task :: "'c option"
  tm_active :: bool

record 'c scheduler =
  sc_timers :: "'c timer list"
  sc_now_ms :: u32

definition Scheduler :: "'c scheduler" where
  "Scheduler =
     \<lparr>sc_timers = replicate kMaxTimers
        \<lparr>tm_due_ms = 0, tm_period_ms = 0, tm_task = None, tm_active = False\<rparr>,
      sc_now_ms = 0\<rparr>"

section \<open>Operations\<close>

definition reached :: "u32 \<Rightarrow> u32 \<Rightarrow> bool" where
  "reached now_ms due_ms \<longleftrightarrow> 0 \<le> sint (now_ms - due_ms)"

definition sched_alloc :: "'c scheduler \<Rightarrow> timer_handle" where
  "sched_alloc s =
     (case first_idx (\<lambda>t. \<not> tm_active t) (sc_timers s) of
        Some i \<Rightarrow> int i
      | None \<Rightarrow> kInvalidTimer)"

definition sched_after :: "'c scheduler \<Rightarrow> u32 \<Rightarrow> 'c \<Rightarrow> 'c scheduler \<times> timer_handle" where
  "sched_after s delay_ms task =
     (let h = sched_alloc s
      in if h = kInvalidTimer then (s, kInvalidTimer)
         else (s\<lparr>sc_timers := (sc_timers s)[nat h :=
                   \<lparr>tm_due_ms = sc_now_ms s + delay_ms, tm_period_ms = 0,
                    tm_task = Some task, tm_active = True\<rparr>]\<rparr>, h))"

definition sched_every :: "'c scheduler \<Rightarrow> u32 \<Rightarrow> 'c \<Rightarrow> 'c scheduler \<times> timer_handle" where
  "sched_every s period_ms task =
     (let h = sched_alloc s
      in if h = kInvalidTimer then (s, kInvalidTimer)
         else (s\<lparr>sc_timers := (sc_timers s)[nat h :=
                   \<lparr>tm_due_ms = sc_now_ms s + period_ms, tm_period_ms = period_ms,
                    tm_task = Some task, tm_active = True\<rparr>]\<rparr>, h))"

definition sched_cancel :: "'c scheduler \<Rightarrow> timer_handle \<Rightarrow> 'c scheduler" where
  "sched_cancel s h =
     (if h < 0 \<or> nat h \<ge> kMaxTimers then s
      else s\<lparr>sc_timers := (sc_timers s)[nat h := (sc_timers s ! nat h)\<lparr>tm_active := False\<rparr>]\<rparr>)"

definition sched_rearm :: "'c scheduler \<Rightarrow> timer_handle \<Rightarrow> u32 \<Rightarrow> 'c scheduler" where
  "sched_rearm s h delay_ms =
     (if h < 0 \<or> nat h \<ge> kMaxTimers then s
      else s\<lparr>sc_timers := (sc_timers s)[nat h := (sc_timers s ! nat h)
               \<lparr>tm_due_ms := sc_now_ms s + delay_ms, tm_period_ms := 0, tm_active := True\<rparr>]\<rparr>)"

definition sched_isActive :: "'c scheduler \<Rightarrow> timer_handle \<Rightarrow> bool" where
  "sched_isActive s h =
     (if h < 0 \<or> nat h \<ge> kMaxTimers then False else tm_active (sc_timers s ! nat h))"

definition sched_activeCount :: "'c scheduler \<Rightarrow> nat" where
  "sched_activeCount s = length (filter tm_active (sc_timers s))"

text \<open>What \<open>poll\<close> does to a due timer before it calls the timer's function.\<close>

definition advance_timer :: "u32 \<Rightarrow> 'c timer \<Rightarrow> 'c timer" where
  "advance_timer now_ms t =
     (if tm_period_ms t = 0 then t\<lparr>tm_active := False\<rparr>
      else let t = t\<lparr>tm_due_ms := tm_due_ms t + tm_period_ms t\<rparr>
           in if reached now_ms (tm_due_ms t)
              then t\<lparr>tm_due_ms := now_ms + tm_period_ms t\<rparr> else t)"

definition due_snapshot :: "'c scheduler \<Rightarrow> bool list" where
  "due_snapshot s =
     map (\<lambda>t. tm_active t \<and> reached (sc_now_ms s) (tm_due_ms t)) (sc_timers s)"

fun poll_fire ::
  "('c \<Rightarrow> 'w \<Rightarrow> 'w) \<Rightarrow> ('w \<Rightarrow> 'c scheduler) \<Rightarrow> ('c scheduler \<Rightarrow> 'w \<Rightarrow> 'w) \<Rightarrow>
   bool list \<Rightarrow> nat list \<Rightarrow> 'w \<Rightarrow> 'w option" where
  "poll_fire run get put due [] w = Some w"
| "poll_fire run get put due (i # is) w =
     (let s = get w; t = sc_timers s ! i
      in if \<not> due ! i \<or> \<not> tm_active t then poll_fire run get put due is w
         else case tm_task t of
                None \<Rightarrow> None
              | Some task \<Rightarrow>
                  poll_fire run get put due is
                    (run task
                      (put (s\<lparr>sc_timers := (sc_timers s)[i := advance_timer (sc_now_ms s) t]\<rparr>) w)))"

definition timer_delay :: "u32 \<Rightarrow> 'c timer \<Rightarrow> u32" where
  "timer_delay now_ms t =
     (if sint (tm_due_ms t - now_ms) < 0 then 0 else tm_due_ms t - now_ms)"

definition sched_next_delay :: "'c scheduler \<Rightarrow> u32" where
  "sched_next_delay s =
     fold (\<lambda>t next_delay.
            if \<not> tm_active t then next_delay
            else if timer_delay (sc_now_ms s) t < next_delay then timer_delay (sc_now_ms s) t
            else next_delay)
       (sc_timers s) 0xFFFFFFFF"

definition sched_poll ::
  "('c \<Rightarrow> 'w \<Rightarrow> 'w) \<Rightarrow> ('w \<Rightarrow> 'c scheduler) \<Rightarrow> ('c scheduler \<Rightarrow> 'w \<Rightarrow> 'w) \<Rightarrow>
   u32 \<Rightarrow> 'w \<Rightarrow> (u32 \<times> 'w) option" where
  "sched_poll run get put now_ms w =
     (let w = put ((get w)\<lparr>sc_now_ms := now_ms\<rparr>) w
      in map_option (\<lambda>w. (sched_next_delay (get w), w))
           (poll_fire run get put (due_snapshot (get w)) [0..<kMaxTimers] w))"

section \<open>Invariant\<close>

definition sched_ok :: "'c scheduler \<Rightarrow> bool" where
  "sched_ok s \<longleftrightarrow> length (sc_timers s) = kMaxTimers \<and>
     (\<forall>t \<in> set (sc_timers s). tm_active t \<longrightarrow> tm_task t \<noteq> None)"

text \<open>A handle that may be re-armed: none, or a slot that holds a function to call.\<close>

definition handle_ok :: "'c scheduler \<Rightarrow> timer_handle \<Rightarrow> bool" where
  "handle_ok s h \<longleftrightarrow>
     (0 \<le> h \<and> nat h < kMaxTimers \<longrightarrow> tm_task (sc_timers s ! nat h) \<noteq> None)"

lemma sched_ok_length: "sched_ok s \<Longrightarrow> length (sc_timers s) = 16"
  by (simp add: sched_ok_def)

lemma Scheduler_ok [inv_intros]: "sched_ok Scheduler"
  by (simp add: sched_ok_def Scheduler_def)

lemma sched_ok_update:
  "sched_ok s \<Longrightarrow> (tm_active t \<longrightarrow> tm_task t \<noteq> None) \<Longrightarrow>
     sched_ok (s\<lparr>sc_timers := (sc_timers s)[i := t]\<rparr>)"
  by (auto simp: sched_ok_def dest!: set_update_subset_insert [THEN subsetD])

lemma sched_ok_now [simp]: "sched_ok (s\<lparr>sc_now_ms := n\<rparr>) = sched_ok s"
  by (simp add: sched_ok_def)

lemma sched_alloc_cases:
  obtains (full) "sched_alloc s = -1" "\<forall>t \<in> set (sc_timers s). tm_active t"
  | (free) i where "sched_alloc s = int i" "i < length (sc_timers s)"
      "\<not> tm_active (sc_timers s ! i)"
proof (cases "first_idx (\<lambda>t. \<not> tm_active t) (sc_timers s)")
  case None
  then have "sched_alloc s = -1" "\<forall>t \<in> set (sc_timers s). tm_active t"
    by (subst sched_alloc_def, subst None, simp) (use None in simp)
  then show ?thesis by (rule full)
next
  case (Some i)
  then show ?thesis
    using free first_idx_SomeD [OF Some] by (simp add: sched_alloc_def)
qed

lemma sched_after_ok [inv_intros]: "sched_ok s \<Longrightarrow> sched_ok (fst (sched_after s d c))"
  by (simp add: sched_after_def Let_def sched_ok_update)

lemma sched_every_ok [inv_intros]: "sched_ok s \<Longrightarrow> sched_ok (fst (sched_every s d c))"
  by (simp add: sched_every_def Let_def sched_ok_update)

lemma sched_cancel_ok [inv_intros]: "sched_ok s \<Longrightarrow> sched_ok (sched_cancel s h)"
  by (simp add: sched_cancel_def sched_ok_update)

lemma sched_rearm_ok [inv_intros]:
  "sched_ok s \<Longrightarrow> handle_ok s h \<Longrightarrow> sched_ok (sched_rearm s h d)"
  by (auto simp: sched_rearm_def handle_ok_def intro!: sched_ok_update)

lemma sched_now [simp]:
  "sc_now_ms (fst (sched_after s d c)) = sc_now_ms s"
  "sc_now_ms (fst (sched_every s d c)) = sc_now_ms s"
  "sc_now_ms (sched_cancel s h) = sc_now_ms s"
  "sc_now_ms (sched_rearm s h d) = sc_now_ms s"
  by (simp_all add: sched_after_def sched_every_def sched_cancel_def sched_rearm_def Let_def)

text \<open>No operation takes the function away from a slot.\<close>

definition tasks_kept :: "'c scheduler \<Rightarrow> 'c scheduler \<Rightarrow> bool" where
  "tasks_kept s s' \<longleftrightarrow> length (sc_timers s') = length (sc_timers s) \<and>
     (\<forall>i < length (sc_timers s). tm_task (sc_timers s ! i) \<noteq> None \<longrightarrow>
        tm_task (sc_timers s' ! i) \<noteq> None)"

lemma tasks_kept_refl [simp]: "tasks_kept s s"
  by (simp add: tasks_kept_def)

lemma tasks_kept_trans: "tasks_kept a b \<Longrightarrow> tasks_kept b c \<Longrightarrow> tasks_kept a c"
  by (simp add: tasks_kept_def)

lemma tasks_kept_update:
  "(tm_task (sc_timers s ! i) \<noteq> None \<longrightarrow> tm_task t \<noteq> None) \<Longrightarrow>
     tasks_kept s (s\<lparr>sc_timers := (sc_timers s)[i := t]\<rparr>)"
  by (cases "i < length (sc_timers s)") (auto simp: tasks_kept_def nth_list_update)

lemma tasks_kept_ops [intro]:
  "tasks_kept s (fst (sched_after s d c))"
  "tasks_kept s (fst (sched_every s d c))"
  "tasks_kept s (sched_cancel s h)"
  "tasks_kept s (sched_rearm s h d)"
  by (auto simp: sched_after_def sched_every_def sched_cancel_def sched_rearm_def
      Let_def intro!: tasks_kept_update)

lemma handle_ok_kept:
  "sched_ok s \<Longrightarrow> handle_ok s h \<Longrightarrow> tasks_kept s s' \<Longrightarrow> handle_ok s' h"
  by (auto simp: handle_ok_def tasks_kept_def sched_ok_def)

text \<open>The functions a scheduler may call, and bookkeeping that changes none of them.\<close>

definition has_task :: "'c scheduler \<Rightarrow> 'c \<Rightarrow> bool" where
  "has_task s c \<longleftrightarrow> (\<exists>t \<in> set (sc_timers s). tm_task t = Some c)"

definition same_tasks :: "'c scheduler \<Rightarrow> 'c scheduler \<Rightarrow> bool" where
  "same_tasks s s' \<longleftrightarrow> map tm_task (sc_timers s') = map tm_task (sc_timers s)"

lemma same_tasks_kept: "same_tasks s s' \<Longrightarrow> tasks_kept s s'"
  unfolding same_tasks_def tasks_kept_def by (metis length_map nth_map)

lemma has_task_same: "same_tasks s s' \<Longrightarrow> has_task s' c = has_task s c"
  unfolding same_tasks_def has_task_def by (metis (no_types, lifting) image_iff list.set_map)

lemma same_tasks_update:
  "tm_task t = tm_task (sc_timers s ! i) \<Longrightarrow>
     same_tasks s (s\<lparr>sc_timers := (sc_timers s)[i := t]\<rparr>)"
  by (simp add: same_tasks_def map_update) (metis length_map list_update_beyond list_update_id not_le nth_map)

lemma same_tasks_now [simp]: "same_tasks s (s\<lparr>sc_now_ms := n\<rparr>)"
  by (simp add: same_tasks_def)

lemma has_task_update:
  "has_task (s\<lparr>sc_timers := (sc_timers s)[i := t]\<rparr>) c \<Longrightarrow> has_task s c \<or> tm_task t = Some c"
  by (auto simp: has_task_def dest!: set_update_subset_insert [THEN subsetD])

lemma has_task_ops:
  "has_task (fst (sched_after s d c)) k \<Longrightarrow> has_task s k \<or> k = c"
  "has_task (fst (sched_every s d c)) k \<Longrightarrow> has_task s k \<or> k = c"
  by (auto simp: sched_after_def sched_every_def Let_def dest: has_task_update split: if_splits)

lemma has_task_rearm:
  assumes "sched_ok s" "has_task (sched_rearm s h d) k"
  shows "has_task s k"
proof (cases "h < 0 \<or> nat h \<ge> kMaxTimers")
  case False
  then have "sc_timers s ! nat h \<in> set (sc_timers s)" using assms(1) by (simp add: sched_ok_def)
  with False assms(2) show ?thesis
    by (auto simp: sched_rearm_def has_task_def dest!: set_update_subset_insert [THEN subsetD])
qed (use assms in \<open>auto simp: sched_rearm_def\<close>)

lemma has_task_Scheduler [simp]: "\<not> has_task Scheduler c"
  by (simp add: has_task_def Scheduler_def)

lemma handle_ok_invalid [simp]: "handle_ok s (-1)"
  by (simp add: handle_ok_def)

lemma sched_after_handle [intro]: "sched_ok s \<Longrightarrow> (case sched_after s d c of (s', h) \<Rightarrow> handle_ok s' h)"
  by (cases s rule: sched_alloc_cases)
    (auto simp: sched_after_def handle_ok_def Let_def sched_ok_def)


lemma advance_timer_task [simp]: "tm_task (advance_timer n t) = tm_task t"
  by (simp add: advance_timer_def Let_def)

lemma advance_timer_active: "tm_active t \<Longrightarrow> tm_active (advance_timer n t) \<longleftrightarrow> tm_period_ms t \<noteq> 0"
  by (simp add: advance_timer_def Let_def)

section \<open>Programs driven by timers\<close>

text \<open>
  What \<open>poll\<close> asks of the program whose callbacks it runs, for an invariant \<open>inv\<close> of the
  whole world: callbacks keep the invariant and the clock, and the invariant survives the
  scheduler's own bookkeeping.
\<close>

locale timer_client =
  fixes run :: "'c \<Rightarrow> 'w \<Rightarrow> 'w"
    and get :: "'w \<Rightarrow> 'c scheduler"
    and put :: "'c scheduler \<Rightarrow> 'w \<Rightarrow> 'w"
    and inv :: "'w \<Rightarrow> bool"
  assumes get_put [simp]: "get (put s w) = s"
    and inv_sched: "inv w \<Longrightarrow> sched_ok (get w)"
    and inv_put: "inv w \<Longrightarrow> sched_ok s \<Longrightarrow> same_tasks (get w) s \<Longrightarrow> inv (put s w)"
    and inv_run: "inv w \<Longrightarrow> has_task (get w) c \<Longrightarrow> inv (run c w)"
    and now_run: "inv w \<Longrightarrow> has_task (get w) c \<Longrightarrow> sc_now_ms (get (run c w)) = sc_now_ms (get w)"
begin

lemma inv_advance:
  assumes "inv w" "i < 16"
  shows "inv (put ((get w)\<lparr>sc_timers := (sc_timers (get w))[i :=
    advance_timer n (sc_timers (get w) ! i)]\<rparr>) w)"
proof -
  note ok = inv_sched [OF assms(1)]
  have "sc_timers (get w) ! i \<in> set (sc_timers (get w))"
    using ok assms(2) by (simp add: sched_ok_def)
  with ok have "tm_active (advance_timer n (sc_timers (get w) ! i)) \<longrightarrow>
      tm_task (sc_timers (get w) ! i) \<noteq> None"
    by (auto simp: sched_ok_def advance_timer_def Let_def split: if_splits)
  with ok show ?thesis
    by (intro inv_put assms(1) sched_ok_update same_tasks_update) auto
qed

text \<open>
  Whatever the callbacks keep and the scheduler's bookkeeping keeps, a whole poll keeps; and
  a poll never calls a null function.
\<close>

lemma poll_fire_keeps:
  assumes "inv w" "set is \<subseteq> {..<16}" "P w"
    and "\<And>s w. inv w \<Longrightarrow> P w \<Longrightarrow> sc_now_ms s = sc_now_ms (get w) \<Longrightarrow> P (put s w)"
    and "\<And>c w. inv w \<Longrightarrow> P w \<Longrightarrow> has_task (get w) c \<Longrightarrow> P (run c w)"
  shows "\<exists>w'. poll_fire run get put due is w = Some w' \<and> inv w' \<and> P w' \<and>
    sc_now_ms (get w') = sc_now_ms (get w)"
  using assms(1-3)
proof (induction "is" arbitrary: w)
  case (Cons i "is")
  let ?t = "sc_timers (get w) ! i"
  let ?s = "(get w)\<lparr>sc_timers := (sc_timers (get w))[i := advance_timer (sc_now_ms (get w)) ?t]\<rparr>"
  show ?case
  proof (cases "due ! i \<and> tm_active ?t")
    case True
    have "?t \<in> set (sc_timers (get w))"
      using inv_sched [OF Cons.prems(1)] Cons.prems(2) by (simp add: sched_ok_def)
    with True inv_sched [OF Cons.prems(1)] obtain c where c: "tm_task ?t = Some c"
      by (auto simp: sched_ok_def)
    have inv: "inv (put ?s w)" using Cons.prems by (intro inv_advance) auto
    have "same_tasks (get w) ?s" by (rule same_tasks_update) simp
    moreover have "has_task (get w) c" using \<open>?t \<in> set _\<close> c by (auto simp: has_task_def)
    ultimately have has: "has_task (get (put ?s w)) c" by (simp add: has_task_same)
    have "inv (run c (put ?s w))" by (rule inv_run [OF inv has])
    moreover have "P (run c (put ?s w))"
      by (rule assms(5) [OF inv assms(4) has]) (use Cons.prems in simp_all)
    ultimately obtain w' where "poll_fire run get put due is (run c (put ?s w)) = Some w'"
      "inv w'" "P w'" "sc_now_ms (get w') = sc_now_ms (get (run c (put ?s w)))"
      using Cons.IH [of "run c (put ?s w)"] Cons.prems(2) by auto
    with True c show ?thesis by (simp add: Let_def now_run [OF inv has])
  next
    case False
    with Cons.IH [OF Cons.prems(1) _ Cons.prems(3)] Cons.prems(2) show ?thesis
      by (auto simp: Let_def)
  qed
qed simp

lemma poll_keeps:
  assumes "inv w" "P w"
    and put: "\<And>s w. inv w \<Longrightarrow> P w \<Longrightarrow> P (put s w)"
    and run: "\<And>c w. inv w \<Longrightarrow> P w \<Longrightarrow> has_task (get w) c \<Longrightarrow> P (run c w)"
  shows "\<exists>w'. sched_poll run get put now_ms w = Some (sched_next_delay (get w'), w') \<and>
    inv w' \<and> P w' \<and> sc_now_ms (get w') = now_ms"
proof -
  let ?w = "put ((get w)\<lparr>sc_now_ms := now_ms\<rparr>) w"
  have inv: "inv ?w"
    using inv_sched [OF assms(1)] by (intro inv_put assms(1)) simp_all
  have P: "P ?w" by (rule put) (rule assms(1,2))+
  have "set [0..<kMaxTimers] \<subseteq> {..<16}" by auto
  from poll_fire_keeps [where P = P, OF inv this P put run, of "due_snapshot (get ?w)"]
  obtain w' where
    "poll_fire run get put (due_snapshot (get ?w)) [0..<kMaxTimers] ?w = Some w'"
    and w': "inv w'" "P w'" "sc_now_ms (get w') = now_ms"
    by auto
  then have "sched_poll run get put now_ms w = Some (sched_next_delay (get w'), w')"
    unfolding sched_poll_def Let_def by (simp del: upt.simps)
  with w' show ?thesis by blast
qed

lemmas poll_total = poll_keeps [where P = "\<lambda>_. True", simplified]

end

section \<open>The due test and the sleep time\<close>

lemma reached_iff: "reached now_ms due_ms \<longleftrightarrow> unat (now_ms - due_ms) < 2147483648"
  by (simp add: reached_def sint_nonneg_iff)

lemma sched_next_delay_spec:
  fixes s :: "'c scheduler"
  defines "ds \<equiv> {timer_delay (sc_now_ms s) t | t. t \<in> set (sc_timers s) \<and> tm_active t}"
  shows "sched_next_delay s \<in> insert 0xFFFFFFFF ds \<and> (\<forall>d \<in> ds. sched_next_delay s \<le> d)"
proof -
  define f where "f t acc = (if \<not> tm_active t then acc
      else if timer_delay (sc_now_ms s) t < acc then timer_delay (sc_now_ms s) t else acc)"
    for t :: "'c timer" and acc
  have "fold f ts a \<le> a \<and>
      fold f ts a \<in> insert a {timer_delay (sc_now_ms s) t | t. t \<in> set ts \<and> tm_active t} \<and>
      (\<forall>t \<in> set ts. tm_active t \<longrightarrow> fold f ts a \<le> timer_delay (sc_now_ms s) t)" for ts a
  proof (induction ts arbitrary: a)
    case (Cons t ts)
    have "f t a \<le> a" and "tm_active t \<longrightarrow> f t a \<le> timer_delay (sc_now_ms s) t"
      and "f t a = a \<or> tm_active t \<and> f t a = timer_delay (sc_now_ms s) t"
      by (auto simp: f_def)
    with Cons.IH [of "f t a"] show ?case by fastforce
  qed simp
  from this [of "sc_timers s" "0xFFFFFFFF"] show ?thesis
    by (auto simp: sched_next_delay_def f_def [abs_def] ds_def)
qed

lemma timer_delay_lt: "unat (timer_delay n t) < 2147483648"
  by (simp add: timer_delay_def sint_neg_iff not_le)

lemma sched_next_delay_none:
  "sched_next_delay s = 0xFFFFFFFF \<longleftrightarrow> (\<forall>t \<in> set (sc_timers s). \<not> tm_active t)"
proof
  assume n: "sched_next_delay s = 0xFFFFFFFF"
  show "\<forall>t \<in> set (sc_timers s). \<not> tm_active t"
  proof (intro ballI notI)
    fix t assume "t \<in> set (sc_timers s)" "tm_active t"
    with sched_next_delay_spec [of s] n have "0xFFFFFFFF \<le> timer_delay (sc_now_ms s) t" by auto
    with timer_delay_lt [of "sc_now_ms s" t] show False by (simp add: word_le_nat_alt)
  qed
qed (use sched_next_delay_spec [of s] in auto)

text \<open>A timer is not reached before its delay has passed, and is reached when it has.\<close>

lemma reached_before:
  assumes "e < timer_delay now_ms t"
  shows "\<not> reached (now_ms + e) (tm_due_ms t)"
proof -
  define d where "d = tm_due_ms t - now_ms"
  from assms have d: "timer_delay now_ms t = d" "unat d < 2147483648" "e < d"
    by (auto simp: timer_delay_def d_def sint_neg_iff not_le split: if_splits)
  have eq: "now_ms + e - tm_due_ms t = - (d - e)" by (simp add: d_def)
  have "unat (d - e) = unat d - unat e"
    using d(3) by (simp add: unat_sub order_less_imp_le)
  then have "unat (now_ms + e - tm_due_ms t) = 4294967296 - (unat d - unat e)"
    unfolding eq using d(3) by (subst unat_uminus_u32) auto
  with d show ?thesis by (simp add: reached_iff)
qed

lemma reached_at:
  assumes "tm_due_ms t - now_ms \<noteq> 0x80000000"
  shows "reached (now_ms + timer_delay now_ms t) (tm_due_ms t)"
proof (cases "sint (tm_due_ms t - now_ms) < 0")
  case True
  define d where "d = tm_due_ms t - now_ms"
  have "2147483648 \<le> unat d" "d \<noteq> 2147483648"
    using True assms by (simp_all add: d_def sint_neg_iff)
  moreover from this have "unat d \<noteq> 2147483648" "d \<noteq> 0"
    by (auto simp: word_unat_eq_iff)
  ultimately have "unat (- d) < 2147483648"
    by (simp add: unat_uminus_u32)
  moreover have "now_ms - tm_due_ms t = - d" by (simp add: d_def)
  ultimately show ?thesis using True by (simp add: timer_delay_def reached_iff)
qed (simp add: timer_delay_def reached_iff)

section \<open>Callbacks that do not use the scheduler\<close>

text \<open>
  A program whose callbacks only record that they ran: what one poll calls, and in which
  order, without interference.
\<close>

definition journal_run :: "'c \<Rightarrow> 'c scheduler \<times> 'c list \<Rightarrow> 'c scheduler \<times> 'c list" where
  "journal_run c w = (fst w, snd w @ [c])"

definition journal_put :: "'c scheduler \<Rightarrow> 'c scheduler \<times> 'c list \<Rightarrow> 'c scheduler \<times> 'c list" where
  "journal_put s w = (s, snd w)"

interpretation journal: timer_client journal_run fst journal_put "\<lambda>w. sched_ok (fst w)"
  by unfold_locales (auto simp: journal_run_def journal_put_def)

definition due_now :: "u32 \<Rightarrow> 'c timer \<Rightarrow> bool" where
  "due_now now_ms t \<longleftrightarrow> tm_active t \<and> reached now_ms (tm_due_ms t)"

lemma journal_step: "journal_run c (journal_put s (s', l)) = (s, l @ [c])"
  by (simp add: journal_run_def journal_put_def)

lemma poll_fire_journal:
  assumes "sched_ok s" "distinct is" "set is \<subseteq> {..<16}"
    and "\<And>i. i \<in> set is \<Longrightarrow> due ! i = due_now (sc_now_ms s) (sc_timers s ! i)"
  shows "poll_fire journal_run fst journal_put due is (s, l) =
    Some (s\<lparr>sc_timers := map (\<lambda>j. if j \<in> set is \<and> due_now (sc_now_ms s) (sc_timers s ! j)
                then advance_timer (sc_now_ms s) (sc_timers s ! j) else sc_timers s ! j) [0..<16]\<rparr>,
          l @ map (\<lambda>j. the (tm_task (sc_timers s ! j)))
                (filter (\<lambda>j. due_now (sc_now_ms s) (sc_timers s ! j)) is))"
  using assms
proof (induction "is" arbitrary: s l)
  case Nil
  then have "map ((!) (sc_timers s)) [0..<16] = sc_timers s"
    by (metis map_nth sched_ok_length)
  then show ?case by (simp del: upt_rec_numeral)
next
  case (Cons i "is")
  let ?t = "sc_timers s ! i"
  show ?case
  proof (cases "due_now (sc_now_ms s) ?t")
    case False
    with Cons.prems have "\<not> due ! i" by simp
    moreover have "(\<lambda>j. if j \<in> set (i # is) \<and> due_now (sc_now_ms s) (sc_timers s ! j)
          then advance_timer (sc_now_ms s) (sc_timers s ! j) else sc_timers s ! j) =
        (\<lambda>j. if j \<in> set is \<and> due_now (sc_now_ms s) (sc_timers s ! j)
          then advance_timer (sc_now_ms s) (sc_timers s ! j) else sc_timers s ! j)"
      using False by auto
    ultimately show ?thesis using Cons False by (simp del: upt_rec_numeral)
  next
    case True
    let ?s = "s\<lparr>sc_timers := (sc_timers s)[i := advance_timer (sc_now_ms s) ?t]\<rparr>"
    have i: "i < length (sc_timers s)" "i \<notin> set is" "?t \<in> set (sc_timers s)"
      using Cons.prems sched_ok_length [OF Cons.prems(1)] by auto
    with True Cons.prems(1) obtain c where c: "tm_task ?t = Some c"
      by (auto simp: sched_ok_def due_now_def)
    have nth: "(sc_timers s)[i := advance_timer (sc_now_ms s) ?t] ! j =
        (if j = i then advance_timer (sc_now_ms s) ?t else sc_timers s ! j)" for j
      using i(1) by (rule nth_update_cases)
    have ok: "sched_ok ?s"
      using Cons.prems(1) c by (intro sched_ok_update) auto
    have "poll_fire journal_run fst journal_put due is (?s, l @ [c]) =
      Some (s\<lparr>sc_timers := map (\<lambda>j. if j \<in> set (i # is) \<and> due_now (sc_now_ms s) (sc_timers s ! j)
                then advance_timer (sc_now_ms s) (sc_timers s ! j) else sc_timers s ! j) [0..<16]\<rparr>,
          (l @ [c]) @ map (\<lambda>j. the (tm_task (sc_timers s ! j)))
                (filter (\<lambda>j. due_now (sc_now_ms s) (sc_timers s ! j)) is))"
    proof -
      have "map (\<lambda>j. the (tm_task (sc_timers ?s ! j)))
              (filter (\<lambda>j. due_now (sc_now_ms ?s) (sc_timers ?s ! j)) is) =
            map (\<lambda>j. the (tm_task (sc_timers s ! j)))
              (filter (\<lambda>j. due_now (sc_now_ms s) (sc_timers s ! j)) is)"
        using i(2) by (intro map_cong filter_cong refl) (auto simp: nth)
      moreover have "(\<lambda>j. if j \<in> set is \<and> due_now (sc_now_ms ?s) (sc_timers ?s ! j)
            then advance_timer (sc_now_ms ?s) (sc_timers ?s ! j) else sc_timers ?s ! j) =
          (\<lambda>j. if j \<in> set (i # is) \<and> due_now (sc_now_ms s) (sc_timers s ! j)
            then advance_timer (sc_now_ms s) (sc_timers s ! j) else sc_timers s ! j)"
        using i(2) True by (auto simp: nth)
      moreover have "\<And>j. j \<in> set is \<Longrightarrow> due ! j = due_now (sc_now_ms ?s) (sc_timers ?s ! j)"
        using i(2) Cons.prems(4) by (auto simp: nth)
      ultimately show ?thesis
        using Cons.IH [OF ok, of "l @ [c]"] Cons.prems(2,3) by (simp del: upt_rec_numeral)
    qed
    with True c Cons.prems(4) [of i] show ?thesis
      by (simp add: journal_step due_now_def del: upt_rec_numeral)
  qed
qed

lemma poll_journal:
  fixes s :: "'c scheduler" and now_ms :: u32
  assumes "sched_ok s"
  defines "s' \<equiv> s\<lparr>sc_now_ms := now_ms, sc_timers :=
    map (\<lambda>t. if due_now now_ms t then advance_timer now_ms t else t) (sc_timers s)\<rparr>"
  shows "sched_poll journal_run fst journal_put now_ms (s, l) =
    Some (sched_next_delay s', (s', l @ map (the \<circ> tm_task) (filter (due_now now_ms) (sc_timers s))))"
proof -
  let ?s = "s\<lparr>sc_now_ms := now_ms\<rparr>"
  have len: "length (sc_timers s) = 16" using assms(1) by (rule sched_ok_length)
  have snap: "due_snapshot ?s ! i = due_now now_ms (sc_timers s ! i)" if "i < 16" for i
    using that len by (simp add: due_snapshot_def due_now_def)
  have m: "map (\<lambda>j. if j \<in> set [0..<16] \<and> due_now now_ms (sc_timers s ! j)
      then advance_timer now_ms (sc_timers s ! j) else sc_timers s ! j) [0..<16] =
    map (\<lambda>t. if due_now now_ms t then advance_timer now_ms t else t) (sc_timers s)"
    (is "map ?f _ = map ?g _")
  proof -
    have "map ?f [0..<16] = map (\<lambda>j. ?g (sc_timers s ! j)) [0..<16]" by (rule map_cong) auto
    also have "\<dots> = map ?g (sc_timers s)" by (rule map_over_nth [of ?g "sc_timers s", unfolded len])
    finally show ?thesis .
  qed
  have "poll_fire journal_run fst journal_put (due_snapshot ?s) [0..<16] (?s, l) =
    Some (?s\<lparr>sc_timers := map (\<lambda>j. if j \<in> set [0..<16] \<and> due_now (sc_now_ms ?s) (sc_timers ?s ! j)
                then advance_timer (sc_now_ms ?s) (sc_timers ?s ! j) else sc_timers ?s ! j) [0..<16]\<rparr>,
          l @ map (\<lambda>j. the (tm_task (sc_timers ?s ! j)))
                (filter (\<lambda>j. due_now (sc_now_ms ?s) (sc_timers ?s ! j)) [0..<16]))"
    by (rule poll_fire_journal) (use assms(1) snap in auto)
  also have "\<dots> = Some (s', l @ map (the \<circ> tm_task) (filter (due_now now_ms) (sc_timers s)))"
    using m filter_over_nth [of "the \<circ> tm_task" "sc_timers s" "due_now now_ms"] len
    by (simp add: s'_def comp_def del: upt_rec_numeral cong: if_cong)
  finally have "poll_fire journal_run fst journal_put (due_snapshot ?s) [0..<16] (?s, l) =
    Some (s', l @ map (the \<circ> tm_task) (filter (due_now now_ms) (sc_timers s)))" .
  then show ?thesis
    by (simp add: sched_poll_def journal_put_def del: upt_rec_numeral)
qed

text \<open>The timer \<open>poll\<close> leaves behind is stopped, or due in the future.\<close>

lemma advance_timer_not_due:
  assumes "due_now now_ms t" "tm_period_ms t < 0x80000000"
  shows "\<not> due_now now_ms (advance_timer now_ms t)"
proof (cases "tm_period_ms t = 0")
  case False
  have "unat (- tm_period_ms t) = 4294967296 - unat (tm_period_ms t)"
    using False by (simp add: unat_uminus_u32)
  with assms(2) False show ?thesis
    by (auto simp: due_now_def advance_timer_def Let_def reached_iff word_less_nat_alt)
qed (simp add: due_now_def advance_timer_def)

section \<open>Properties\<close>

text \<open>A one-shot timer lands in a slot no active timer was using, every other slot is
  untouched, and it is due from exactly the millisecond its delay has passed, for every
  position of the 32-bit clock: the comparison survives the wrap of \<open>millis()\<close>, as long as
  the delay and the time past due stay below \<open>2 ^ 31\<close> ms.\<close>

theorem sched_after_due_exactly:
  assumes "sched_after s delay_ms task = (s', h)" "h \<noteq> kInvalidTimer"
    and "unat delay_ms < 2147483648" "unat e < unat delay_ms + 2147483648"
  shows "\<not> tm_active (sc_timers s ! nat h) \<and>
    (\<forall>j. j \<noteq> nat h \<longrightarrow> sc_timers s' ! j = sc_timers s ! j) \<and>
    tm_task (sc_timers s' ! nat h) = Some task \<and>
    (due_now (sc_now_ms s + e) (sc_timers s' ! nat h) \<longleftrightarrow> delay_ms \<le> e)"
proof -
  have "sched_alloc s \<noteq> -1" using assms(1,2) by (auto simp: sched_after_def Let_def)
  then obtain i where i: "sched_alloc s = int i" "i < length (sc_timers s)"
    "\<not> tm_active (sc_timers s ! i)"
    by (cases s rule: sched_alloc_cases) auto
  with assms(1) have s': "h = int i" "sc_timers s' = (sc_timers s)[i :=
      \<lparr>tm_due_ms = sc_now_ms s + delay_ms, tm_period_ms = 0, tm_task = Some task, tm_active = True\<rparr>]"
    by (auto simp: sched_after_def Let_def)
  have "unat (e - delay_ms) < 2147483648 \<longleftrightarrow> delay_ms \<le> e"
    using assms(3,4) unat_u32_lt [of e]
    by (auto simp: unat_sub_if' word_le_nat_alt)
  with i s' show ?thesis by (simp add: due_now_def reached_iff)
qed

theorem sched_after_due_exactly_witness:
  "let s = (Scheduler :: nat scheduler)\<lparr>sc_now_ms := 0xFFFFFFF0\<rparr>;
       (s', h) = sched_after s 100 7
   in h = 0 \<and> due_now (0xFFFFFFF0 + 100) (sc_timers s' ! 0) \<and>
      \<not> due_now (0xFFFFFFF0 + 99) (sc_timers s' ! 0)"
proof -
  let ?s = "(Scheduler :: nat scheduler)\<lparr>sc_now_ms := 0xFFFFFFF0\<rparr>"
  obtain s' where a: "sched_after ?s 100 7 = (s', 0)"
    by (simp add: sched_after_def sched_alloc_def Scheduler_def numeral_eq_Suc)
  show ?thesis
    using sched_after_due_exactly [OF a, of 100] sched_after_due_exactly [OF a, of 99] a by simp
qed

text \<open>One poll calls the function of every timer that is active and due when the poll
  starts, once each and in slot order, and of no other timer; afterwards a one-shot timer is
  stopped and a periodic one is due again only in the future, so a late poll does not fire
  it in a burst.\<close>

theorem poll_fires_due_timers_once:
  assumes "sched_ok s" "\<forall>t \<in> set (sc_timers s). tm_period_ms t < 0x80000000"
  shows "\<exists>r s'. sched_poll journal_run fst journal_put now_ms (s, []) =
      Some (r, (s', map (the \<circ> tm_task) (filter (due_now now_ms) (sc_timers s)))) \<and>
    list_all2 (\<lambda>t t'. if due_now now_ms t
        then \<not> due_now now_ms t' \<and> tm_active t' = (tm_period_ms t \<noteq> 0) else t' = t)
      (sc_timers s) (sc_timers s')"
proof -
  have "tm_active (advance_timer now_ms t) = (tm_period_ms t \<noteq> 0)" if "due_now now_ms t" for t :: "'a timer"
    using that advance_timer_active by (auto simp: due_now_def)
  with assms show ?thesis
    by (auto simp: poll_journal list_all2_conv_all_nth advance_timer_not_due)
qed

theorem poll_fires_due_timers_once_witness:
  "let s = fst (sched_every (fst (sched_after Scheduler 50 (7 :: nat))) 20 9)
   in sched_ok s \<and> (\<forall>t \<in> set (sc_timers s). tm_period_ms t < 0x80000000) \<and>
      map (the \<circ> tm_task) (filter (due_now 60) (sc_timers s)) = [7, 9] \<and>
      (\<exists>r s'. sched_poll journal_run fst journal_put 60 (s, []) = Some (r, (s', [7, 9])))"
proof -
  let ?s = "fst (sched_every (fst (sched_after Scheduler 50 (7 :: nat))) 20 9)"
  have h: "sched_ok ?s" "\<forall>t \<in> set (sc_timers ?s). tm_period_ms t < 0x80000000"
    and f: "map (the \<circ> tm_task) (filter (due_now 60) (sc_timers ?s)) = [7, 9]"
    by code_simp+
  from poll_fires_due_timers_once [OF h, of 60, unfolded f]
  have "\<exists>r s'. sched_poll journal_run fst journal_put 60 (?s, []) = Some (r, (s', [7, 9]))"
    by blast
  with h f show ?thesis unfolding Let_def by blast
qed

text \<open>The value \<open>poll\<close> returns is a safe and tight sleep: it is \<open>UINT32_MAX\<close> exactly when
  no timer is active; no active timer becomes due before that many milliseconds have passed;
  and some timer is due when they have, unless one is exactly half the clock's range away.\<close>

theorem poll_returns_exact_sleep:
  assumes "sched_poll run get put now_ms w = Some (r, w')" "sc_now_ms (get w') = now_ms"
  shows "(r = 0xFFFFFFFF \<longleftrightarrow> (\<forall>t \<in> set (sc_timers (get w')). \<not> tm_active t)) \<and>
    (\<forall>e < r. \<forall>t \<in> set (sc_timers (get w')). \<not> due_now (now_ms + e) t) \<and>
    (r = 0xFFFFFFFF \<or> (\<exists>t \<in> set (sc_timers (get w')).
       due_now (now_ms + r) t \<or> tm_due_ms t - now_ms = 0x80000000))"
proof -
  have r: "r = sched_next_delay (get w')"
    using assms(1) by (auto simp: sched_poll_def Let_def)
  note spec = sched_next_delay_spec [of "get w'", unfolded assms(2), folded r]
  have "\<not> due_now (now_ms + e) t" if "e < r" "t \<in> set (sc_timers (get w'))" for e t
  proof
    assume "due_now (now_ms + e) t"
    then have "tm_active t" "reached (now_ms + e) (tm_due_ms t)" by (auto simp: due_now_def)
    with that spec have "e < timer_delay now_ms t" by force
    with \<open>reached (now_ms + e) (tm_due_ms t)\<close> show False using reached_before by blast
  qed
  moreover have "r = 0xFFFFFFFF \<or> (\<exists>t \<in> set (sc_timers (get w')).
       due_now (now_ms + r) t \<or> tm_due_ms t - now_ms = 0x80000000)"
  proof (cases "r = 0xFFFFFFFF")
    case False
    with spec obtain t where "t \<in> set (sc_timers (get w'))" "tm_active t" "r = timer_delay now_ms t"
      by auto
    then show ?thesis using reached_at [of t now_ms] by (auto simp: due_now_def)
  qed simp
  ultimately show ?thesis using sched_next_delay_none [of "get w'"] r by simp
qed

theorem poll_returns_exact_sleep_witness:
  "\<exists>w'. sched_poll journal_run fst journal_put 10
        (fst (sched_after Scheduler 50 (7 :: nat)), []) = Some (40, w') \<and>
     (\<forall>e < 40. \<forall>t \<in> set (sc_timers (fst w')). \<not> due_now (10 + e) t)"
proof -
  let ?w = "(fst (sched_after Scheduler 50 (7 :: nat)), [])"
  have "map_option (\<lambda>(r, w). (r, sc_now_ms (fst w)))
      (sched_poll journal_run fst journal_put 10 ?w) = Some (40, 10)"
    by code_simp
  then obtain w' where w': "sched_poll journal_run fst journal_put 10 ?w = Some (40, w')"
    "sc_now_ms (fst w') = 10"
    by auto
  from poll_returns_exact_sleep [OF w'] w' show ?thesis by blast
qed

text \<open>
  Callbacks that do use the scheduler. Task 0 stops the timer in slot 1 and starts task 2 a
  second later; it runs at the poll at which slot 1 is due as well.
\<close>

definition restart_run :: "nat \<Rightarrow> nat scheduler \<times> nat list \<Rightarrow> nat scheduler \<times> nat list" where
  "restart_run c w =
     (let w = (if c = 0 then (fst (sched_after (sched_cancel (fst w) 1) 1000 2), snd w) else w)
      in (fst w, snd w @ [c]))"

text \<open>The snapshot of due slots does not always keep one poll from firing a timer that a
  callback has just created: when a callback cancels a timer that is due in the same poll,
  the timer it starts next takes over that slot and fires at once, a second too early, and is
  then gone.\<close>

theorem poll_fires_new_timer_in_cancelled_slot:
  "map_option (\<lambda>(r, s, l). (r, sched_activeCount s, l))
     (sched_poll restart_run fst journal_put 10
       (fst (sched_after (fst (sched_every Scheduler 10 0)) 10 1), [])) =
   Some (10, 1, [0, 2])"
  by code_simp

end
