(* ===== verification/Binary_Float.thy ===== *)
theory Binary_Float
  imports Complex_Main Prelude
begin

text \<open>
  The floating-point arithmetic of the sources. A finite \<open>float\<close> or \<open>double\<close> is the rational
  number it denotes, and every operation is the exact rational operation followed by IEEE
  754 rounding to nearest, ties to even, to the significand width of the type (24 bits for
  \<open>float\<close>, 53 for \<open>double\<close>). The exponent is unbounded: the model has no overflow to
  infinity, no subnormals and no NaN, so a division by zero, which yields one of those, is
  \<open>None\<close>. A conversion to an unsigned integer type is undefined in C++ when the truncated
  value does not fit, and is \<open>None\<close> then.
\<close>

section \<open>Rounding\<close>

type_synonym dbl = rat
type_synonym flt = rat

definition round_even :: "rat \<Rightarrow> int" where
  "round_even x =
     (let f = \<lfloor>x\<rfloor>; d = x - of_int f
      in if d < 1/2 then f else if 1/2 < d then f + 1 else if even f then f else f + 1)"

definition pow2 :: "int \<Rightarrow> rat" where
  "pow2 k = (if 0 \<le> k then 2 ^ nat k else 1 / 2 ^ nat (- k))"

lemma pow2_code [code]:
  "pow2 k = (if 0 \<le> k then of_int (2 ^ nat k) else Fract 1 (2 ^ nat (- k)))"
  by (simp add: pow2_def Fract_of_int_quotient)

function bit_width :: "int \<Rightarrow> int" where
  "bit_width n = (if n \<le> 0 then 0 else 1 + bit_width (n div 2))"
  by auto
termination by (relation "measure nat") auto

text \<open>The exponent of a positive number: \<open>2 ^ e \<le> x < 2 ^ (e + 1)\<close>.\<close>

definition exponent2 :: "rat \<Rightarrow> int" where
  "exponent2 x =
     (let (a, b) = quotient_of x; k = bit_width a - bit_width b
      in if pow2 k \<le> x then k else k - 1)"

definition round_to :: "nat \<Rightarrow> rat \<Rightarrow> rat" where
  "round_to p x =
     (if x = 0 then 0
      else let u = pow2 (exponent2 \<bar>x\<bar> - int p + 1)
           in of_int (round_even (x / u)) * u)"

abbreviation dbl_round :: "rat \<Rightarrow> dbl" where "dbl_round \<equiv> round_to 53"
abbreviation flt_round :: "rat \<Rightarrow> flt" where "flt_round \<equiv> round_to 24"

definition dadd :: "dbl \<Rightarrow> dbl \<Rightarrow> dbl" where "dadd x y = dbl_round (x + y)"
definition dsub :: "dbl \<Rightarrow> dbl \<Rightarrow> dbl" where "dsub x y = dbl_round (x - y)"
definition dmul :: "dbl \<Rightarrow> dbl \<Rightarrow> dbl" where "dmul x y = dbl_round (x * y)"
definition ddiv :: "dbl \<Rightarrow> dbl \<Rightarrow> dbl option" where
  "ddiv x y = (if y = 0 then None else Some (dbl_round (x / y)))"

definition dbl_of_u32 :: "u32 \<Rightarrow> dbl" where "dbl_of_u32 n = of_nat (unat n)"

lemma dbl_of_u32_code [code]: "dbl_of_u32 n = of_int (uint n)"
  by (simp add: dbl_of_u32_def)

definition u32_of_dbl :: "dbl \<Rightarrow> u32 option" where
  "u32_of_dbl x = (if -1 < x \<and> x < 4294967296 then Some (of_int \<lfloor>max 0 x\<rfloor>) else None)"

section \<open>Lemmas\<close>

declare of_nat_unat [simp del]

lemma round_even_of_int [simp]: "round_even (of_int n) = n"
  by (simp add: round_even_def)

lemma round_even_cases: "round_even x = \<lfloor>x\<rfloor> \<or> round_even x = \<lfloor>x\<rfloor> + 1 \<and> 1/2 \<le> x - of_int \<lfloor>x\<rfloor>"
  by (auto simp: round_even_def Let_def)

lemma round_even_error: "\<bar>of_int (round_even x) - x\<bar> \<le> 1/2"
proof -
  define d where "d = x - of_int \<lfloor>x\<rfloor>"
  have d: "0 \<le> d" "d < 1" unfolding d_def by linarith+
  have x: "x = of_int \<lfloor>x\<rfloor> + d" by (simp add: d_def)
  have "round_even x = (if d < 1/2 then \<lfloor>x\<rfloor> else if 1/2 < d then \<lfloor>x\<rfloor> + 1
      else if even \<lfloor>x\<rfloor> then \<lfloor>x\<rfloor> else \<lfloor>x\<rfloor> + 1)"
    by (simp add: round_even_def d_def Let_def)
  then consider "round_even x = \<lfloor>x\<rfloor>" "d \<le> 1/2" | "round_even x = \<lfloor>x\<rfloor> + 1" "1/2 \<le> d"
    by (cases "d < 1/2"; cases "1/2 < d") (auto split: if_splits)
  then show ?thesis
  proof cases
    case 1
    then have "of_int (round_even x) - x = - d" by (simp add: d_def)
    with 1 d show ?thesis by simp
  next
    case 2
    then have "of_int (round_even x) - x = 1 - d" by (simp add: d_def)
    with 2 d show ?thesis by simp
  qed
qed

lemma round_even_mono:
  assumes "x \<le> y"
  shows "round_even x \<le> round_even y"
proof (cases "\<lfloor>x\<rfloor> = \<lfloor>y\<rfloor>")
  case True
  with assms show ?thesis by (auto simp: round_even_def Let_def)
next
  case False
  with assms have "\<lfloor>x\<rfloor> + 1 \<le> \<lfloor>y\<rfloor>" using floor_mono [OF assms] by linarith
  with round_even_cases [of x] round_even_cases [of y] show ?thesis by linarith
qed

lemma pow2_pos [simp]: "0 < pow2 k"
  by (simp add: pow2_def)

lemma pow2_nonzero [simp]: "pow2 k \<noteq> 0"
  by (metis less_irrefl pow2_pos)

lemma pow2_add: "pow2 (a + b) = pow2 a * pow2 b"
proof -
  have p: "pow2 (int m - int n) = 2 ^ m / 2 ^ n" for m n
  proof (cases "n \<le> m")
    case True
    then have "pow2 (int m - int n) = 2 ^ (m - n)" by (simp add: pow2_def flip: of_nat_diff)
    with True show ?thesis by (simp add: power_diff)
  next
    case False
    then have "nat (- (int m - int n)) = n - m" "\<not> 0 \<le> int m - int n" by auto
    then have "pow2 (int m - int n) = 1 / 2 ^ (n - m)" by (simp add: pow2_def)
    with False show ?thesis by (simp add: power_diff)
  qed
  obtain m n where a: "a = int m - int n" by (metis int_diff_cases)
  obtain k l where b: "b = int k - int l" by (metis int_diff_cases)
  have "a + b = int (m + k) - int (n + l)" by (simp add: a b)
  then show ?thesis by (simp only: p a b) (simp add: power_add field_simps)
qed

lemma pow2_of_nat: "pow2 (int n) = 2 ^ n"
  by (simp add: pow2_def)

lemma pow2_mono: "a \<le> b \<Longrightarrow> pow2 a \<le> pow2 b"
proof -
  assume "a \<le> b"
  then obtain n where "b = a + int n" by (metis zle_iff_zadd)
  then have "pow2 b = pow2 a * 2 ^ n" by (simp add: pow2_add pow2_of_nat)
  then show ?thesis by (simp add: one_le_power)
qed

declare bit_width.simps [simp del]

lemma bit_width_bounds_both:
  "0 < c \<Longrightarrow> pow2 (bit_width c - 1) \<le> of_int c \<and> of_int c < pow2 (bit_width c)"
proof (induction c rule: bit_width.induct)
  case (1 c)
  note c = "1.prems"
  let ?h = "c div 2"
  have w: "bit_width c = bit_width ?h + 1" using c by (subst bit_width.simps) simp
  have h: "of_int (2 * ?h) \<le> (of_int c :: rat)" "of_int c \<le> (of_int (2 * ?h + 1) :: rat)"
    by (simp_all only: of_int_le_iff)
  show ?case
  proof (cases "?h = 0")
    case True
    then have "c = 1" "bit_width ?h = 0" using c by (simp_all add: bit_width.simps)
    then show ?thesis using w by (simp add: pow2_def)
  next
    case False
    then have h0: "0 < ?h" using c by simp
    have eq: "pow2 (bit_width c - 1) = pow2 (bit_width ?h - 1) * 2"
      "pow2 (bit_width c) = pow2 (bit_width ?h) * 2"
      using pow2_add [of "bit_width ?h - 1" 1] pow2_add [of "bit_width ?h" 1]
      by (simp_all add: w pow2_def [of 1])
    from "1.IH" c h0 have IH: "pow2 (bit_width ?h - 1) \<le> of_int ?h" "of_int ?h < pow2 (bit_width ?h)"
      by simp_all
    have "pow2 (bit_width c - 1) \<le> of_int c" using eq(1) IH(1) h(1) by simp
    obtain n where n: "pow2 (bit_width ?h) = of_int n"
    proof (cases "0 \<le> bit_width ?h")
      case True
      then have "pow2 (bit_width ?h) = of_int (2 ^ nat (bit_width ?h))" by (simp add: pow2_def)
      then show ?thesis by (rule that)
    next
      case False
      then have "pow2 (bit_width ?h) \<le> pow2 0" by (intro pow2_mono) simp
      with IH(2) h0 show ?thesis by (simp add: pow2_def [of 0])
    qed
    with IH(2) have "?h + 1 \<le> n" by simp
    then have "of_int (?h + 1) \<le> pow2 (bit_width ?h)" by (simp only: n of_int_le_iff)
    with eq(2) h(2) have "of_int c < pow2 (bit_width c)" by simp
    with \<open>pow2 (bit_width c - 1) \<le> of_int c\<close> show ?thesis by simp
  qed
qed

lemmas bit_width_bounds =
  conjunct1 [OF bit_width_bounds_both] conjunct2 [OF bit_width_bounds_both]

lemma exponent2_bounds:
  assumes "0 < x"
  shows "pow2 (exponent2 x) \<le> x \<and> x < pow2 (exponent2 x + 1)"
proof -
  obtain a b where q: "quotient_of x = (a, b)" by fastforce
  have b: "0 < b" using quotient_of_denom_pos [OF q] .
  have x: "x = of_int a / of_int b" using quotient_of_div [OF q] .
  have a: "0 < a" using assms x b by (simp add: zero_less_divide_iff)
  let ?k = "bit_width a - bit_width b"
  note bl = bit_width_bounds
  have "x < pow2 (?k + 1)"
  proof -
    have "of_int a < pow2 (?k + 1) * pow2 (bit_width b - 1)"
      using bl(2) [OF a] by (simp flip: pow2_add)
    also have "\<dots> \<le> pow2 (?k + 1) * of_int b"
      using bl(1) [OF b] by simp
    finally show ?thesis using b x by (simp add: divide_less_eq)
  qed
  moreover have "pow2 (?k - 1) \<le> x"
  proof -
    have "pow2 (?k - 1) * of_int b \<le> pow2 (?k - 1) * pow2 (bit_width b)"
      using bl(2) [OF b] by simp
    also have "\<dots> = pow2 (bit_width a - 1)" by (simp flip: pow2_add)
    also have "\<dots> \<le> of_int a" using bl(1) [OF a] .
    finally show ?thesis using b x by (simp add: le_divide_eq)
  qed
  ultimately show ?thesis
    by (auto simp: exponent2_def q Let_def not_le)
qed

lemma exponent2_mono:
  assumes "0 < x" "x \<le> y"
  shows "exponent2 x \<le> exponent2 y"
proof (rule ccontr)
  assume "\<not> ?thesis"
  then have "pow2 (exponent2 y + 1) \<le> pow2 (exponent2 x)" by (intro pow2_mono) simp
  with exponent2_bounds [of x] exponent2_bounds [of y] assms show False by linarith
qed

text \<open>The spacing of the numbers near \<open>x\<close>, and the significand of \<open>x\<close> in it.\<close>

definition ulp :: "nat \<Rightarrow> rat \<Rightarrow> rat" where
  "ulp p x = pow2 (exponent2 \<bar>x\<bar> - int p + 1)"

lemma ulp_pos [simp]: "0 < ulp p x" "0 \<le> ulp p x" "\<not> ulp p x < 0" "ulp p x \<noteq> 0"
proof -
  show "0 < ulp p x" by (simp add: ulp_def)
  then show "0 \<le> ulp p x" "\<not> ulp p x < 0" "ulp p x \<noteq> 0" by linarith+
qed

lemma round_to_ulp: "round_to p x = of_int (round_even (x / ulp p x)) * ulp p x"
  by (simp add: round_to_def ulp_def Let_def round_even_def)

lemma round_to_0 [simp]: "round_to p 0 = 0"
  by (simp add: round_to_def)

lemma significand_bounds:
  assumes "0 < x" "0 < p"
  shows "2 ^ (p - 1) \<le> x / ulp p x \<and> x / ulp p x < 2 ^ p"
proof -
  let ?e = "exponent2 x"
  have u: "ulp p x = pow2 (?e - int p + 1)" using assms by (simp add: ulp_def)
  have "pow2 ?e = 2 ^ (p - 1) * ulp p x" "pow2 (?e + 1) = 2 ^ p * ulp p x"
    using assms(2) by (simp_all add: u flip: pow2_of_nat pow2_add)
  with exponent2_bounds [OF assms(1)] show ?thesis
    by (simp add: le_divide_eq divide_less_eq)
qed

text \<open>A number whose significand in its spacing is an integer is exact.\<close>

lemma round_to_exact:
  assumes "x / ulp p x = of_int n"
  shows "round_to p x = x"
proof -
  have "round_to p x = of_int n * ulp p x" by (simp add: round_to_ulp assms)
  also have "\<dots> = x" by (simp flip: assms)
  finally show ?thesis .
qed

lemma round_to_dyadic:
  assumes "x = of_int m * pow2 k" "\<bar>m\<bar> < 2 ^ p" "0 < p"
  shows "round_to p x = x"
proof (cases "m = 0")
  case False
  have ax: "\<bar>x\<bar> = of_int \<bar>m\<bar> * pow2 k" by (simp add: assms(1) abs_mult less_imp_le)
  then have pos: "0 < \<bar>x\<bar>" using False by simp
  have "pow2 (exponent2 \<bar>x\<bar>) < pow2 (k + int p)"
  proof -
    have "of_int \<bar>m\<bar> < (of_int (2 ^ p) :: rat)" using assms(2) by (simp only: of_int_less_iff)
    then have "\<bar>x\<bar> < pow2 (k + int p)" by (simp add: ax pow2_add pow2_of_nat)
    with exponent2_bounds [OF pos] show ?thesis by linarith
  qed
  then have "exponent2 \<bar>x\<bar> < k + int p" using pow2_mono by (meson not_le)
  then obtain n where n: "k = (exponent2 \<bar>x\<bar> - int p + 1) + int n"
    using zle_iff_zadd [of "exponent2 \<bar>x\<bar> - int p + 1" k] by auto
  have "x = of_int (m * 2 ^ n) * ulp p x"
    by (subst assms(1), subst n) (simp only: pow2_add pow2_of_nat ulp_def, simp)
  then have "x / ulp p x = of_int (m * 2 ^ n)"
    by (metis nonzero_mult_div_cancel_right ulp_pos(4))
  then show ?thesis by (rule round_to_exact)
qed (simp add: assms(1))

text \<open>Rounding is odd, monotone, and close.\<close>

lemma round_to_nonneg:
  assumes "0 \<le> x"
  shows "0 \<le> round_to p x"
proof -
  have "round_even 0 \<le> round_even (x / ulp p x)"
    using assms by (intro round_even_mono) simp
  then show ?thesis by (simp add: round_to_ulp round_even_def [of 0])
qed

lemma round_to_nonpos:
  assumes "x \<le> 0"
  shows "round_to p x \<le> 0"
proof -
  have "round_even (x / ulp p x) \<le> round_even 0"
    using assms by (intro round_even_mono) (simp add: divide_le_0_iff order_less_imp_le)
  then show ?thesis by (simp add: round_to_ulp round_even_def [of 0] mult_le_0_iff order_less_imp_le)
qed

lemma round_to_between:
  assumes "0 < x" "0 < p"
  shows "pow2 (exponent2 x) \<le> round_to p x \<and> round_to p x \<le> pow2 (exponent2 x + 1)"
proof -
  let ?e = "exponent2 x"
  have u: "ulp p x = pow2 (?e - int p + 1)" using assms by (simp add: ulp_def)
  have "pow2 ?e = of_int (2 ^ (p - 1)) * ulp p x" "pow2 (?e + 1) = of_int (2 ^ p) * ulp p x"
    using assms(2) by (simp_all add: u flip: pow2_of_nat pow2_add)
  moreover have "2 ^ (p - 1) \<le> round_even (x / ulp p x)"
    using round_even_mono [of "of_int (2 ^ (p - 1))" "x / ulp p x"] significand_bounds [OF assms]
    by (simp only: round_even_of_int) simp
  moreover have "round_even (x / ulp p x) \<le> 2 ^ p"
    using round_even_mono [of "x / ulp p x" "of_int (2 ^ p)"] significand_bounds [OF assms]
    by (simp only: round_even_of_int) simp
  ultimately show ?thesis
    by (simp only: round_to_ulp mult_le_cancel_right of_int_le_iff) simp
qed

lemma round_to_pos: "0 < x \<Longrightarrow> 0 < p \<Longrightarrow> 0 < round_to p x"
  using round_to_between [of x p] pow2_pos [of "exponent2 x"] by linarith

lemma round_to_mono_pos:
  assumes "0 < x" "x \<le> y" "0 < p"
  shows "round_to p x \<le> round_to p y"
proof (cases "exponent2 x = exponent2 y")
  case True
  then have "ulp p x = ulp p y" using assms by (simp add: ulp_def)
  moreover have "round_even (x / ulp p y) \<le> round_even (y / ulp p y)"
    using assms by (intro round_even_mono) (simp add: divide_right_mono order_less_imp_le)
  ultimately show ?thesis by (simp add: round_to_ulp)
next
  case False
  then have "exponent2 x + 1 \<le> exponent2 y" using exponent2_mono [OF assms(1,2)] by simp
  then have "pow2 (exponent2 x + 1) \<le> pow2 (exponent2 y)" by (rule pow2_mono)
  with round_to_between [OF assms(1,3)] round_to_between [of y p] assms show ?thesis by simp
qed

lemma round_even_minus: "round_even (- x) = - round_even x"
proof (cases "x = of_int \<lfloor>x\<rfloor>")
  case True
  then show ?thesis by (metis of_int_minus round_even_of_int)
next
  case False
  define f d where "f = \<lfloor>x\<rfloor>" and "d = x - of_int f"
  have "0 \<le> d" "d < 1" unfolding f_def d_def by linarith+
  moreover have "d \<noteq> 0" using False by (simp add: d_def f_def)
  ultimately have d: "0 < d" "d < 1" by simp_all
  have x: "x = of_int f + d" by (simp add: d_def)
  have "\<lfloor>- x\<rfloor> = - f - 1" using d x by (intro floor_unique) simp_all
  then have "round_even (- x) = (if 1 - d < 1/2 then - f - 1 else if 1/2 < 1 - d then - f
      else if even (- f - 1) then - f - 1 else - f)"
    using x by (simp add: round_even_def Let_def)
  moreover have "round_even x = (if d < 1/2 then f else if 1/2 < d then f + 1
      else if even f then f else f + 1)"
    by (simp add: round_even_def Let_def d_def f_def)
  ultimately show ?thesis by (simp split: if_splits)
qed

lemma round_to_minus: "round_to p (- x) = - round_to p x"
  by (simp add: round_to_def Let_def round_even_minus)

lemma round_to_mono:
  assumes "x \<le> y" "0 < p"
  shows "round_to p x \<le> round_to p y"
proof -
  consider "0 < x" | "x \<le> 0" "0 \<le> y" | "y < 0" by linarith
  then show ?thesis
  proof cases
    case 1
    then show ?thesis using assms by (intro round_to_mono_pos)
  next
    case 2
    then show ?thesis using round_to_nonneg [of y p] round_to_nonpos [of x p] by linarith
  next
    case 3
    then have "round_to p (- y) \<le> round_to p (- x)" using assms by (intro round_to_mono_pos) auto
    then show ?thesis by (simp add: round_to_minus)
  qed
qed

text \<open>A bound that is itself representable survives rounding.\<close>

lemma round_to_le: "x \<le> y \<Longrightarrow> round_to p y = y \<Longrightarrow> 0 < p \<Longrightarrow> round_to p x \<le> y"
  by (metis round_to_mono)

lemma round_to_ge: "y \<le> x \<Longrightarrow> round_to p y = y \<Longrightarrow> 0 < p \<Longrightarrow> y \<le> round_to p x"
  by (metis round_to_mono)

lemma round_to_of_int: "\<bar>m\<bar> < 2 ^ p \<Longrightarrow> 0 < p \<Longrightarrow> round_to p (of_int m) = of_int m"
  by (rule round_to_dyadic [of _ m 0]) (simp_all add: pow2_def)

lemma round_to_numeral [simp]:
  "numeral m < (2 :: int) ^ p \<Longrightarrow> 0 < p \<Longrightarrow> round_to p (numeral m) = numeral m"
  using round_to_of_int [of "numeral m" p] by simp

lemma round_to_half: "\<bar>m\<bar> < 2 ^ p \<Longrightarrow> 0 < p \<Longrightarrow> round_to p (of_int m / 2) = of_int m / 2"
  by (rule round_to_dyadic [of _ m "-1"]) (simp_all add: pow2_def)

lemma dbl_of_u32_bounds: "0 \<le> dbl_of_u32 n" "dbl_of_u32 n < 4294967296"
proof -
  have "of_nat (unat n) < (of_nat 4294967296 :: rat)" by (simp only: of_nat_less_iff unat_u32_lt)
  then show "0 \<le> dbl_of_u32 n" "dbl_of_u32 n < 4294967296"
    by (simp_all add: dbl_of_u32_def)
qed

lemma dbl_round_u32 [simp]: "dbl_round (dbl_of_u32 n) = dbl_of_u32 n"
proof -
  have "dbl_of_u32 n = of_int (int (unat n))" by (simp add: dbl_of_u32_def)
  then show ?thesis using unat_u32_lt [of n]
    by (simp only:) (rule round_to_of_int, simp_all)
qed

lemma dbl_of_u32_le_iff: "dbl_of_u32 a \<le> dbl_of_u32 b \<longleftrightarrow> a \<le> b"
  by (simp add: dbl_of_u32_def word_le_nat_alt)

text \<open>Rounding a nonnegative double to the nearest integer by adding one half and truncating.\<close>

definition u32_nearest :: "dbl \<Rightarrow> u32 option" where
  "u32_nearest v = u32_of_dbl (dadd v (1/2))"

lemma dadd_half_bounds:
  assumes "0 \<le> v" "v \<le> of_nat n" "n < 2 ^ 51"
  shows "0 \<le> dadd v (1/2)" "dadd v (1/2) \<le> of_nat n + 1/2"
proof -
  show "0 \<le> dadd v (1/2)" using assms(1) by (simp add: dadd_def round_to_nonneg)
  have "dbl_round (of_int (2 * int n + 1) / 2) = of_int (2 * int n + 1) / 2"
    by (rule round_to_half) (use assms(3) in auto)
  then have "dbl_round (of_nat n + 1/2) = of_nat n + 1/2" by (simp add: add_divide_distrib)
  with assms(2) show "dadd v (1/2) \<le> of_nat n + 1/2"
    unfolding dadd_def by (intro round_to_le) auto
qed

lemma dadd_half_ge:
  assumes "of_nat n \<le> v" "n < 2 ^ 51"
  shows "of_nat n \<le> dadd v (1/2)"
proof -
  have "dbl_round (of_nat n) = of_nat n"
    using round_to_of_int [of "int n" 53] assms(2) by simp
  with assms(1) show ?thesis unfolding dadd_def by (intro round_to_ge) auto
qed

text \<open>A double between two 32-bit integers rounds to an integer between them.\<close>

lemma u32_of_dbl_between:
  assumes "dbl_of_u32 lo \<le> r" "r < dbl_of_u32 hi + 1"
  shows "\<exists>n. u32_of_dbl r = Some n \<and> lo \<le> n \<and> n \<le> hi"
proof -
  have r: "0 \<le> r" "r < 4294967296"
    using assms dbl_of_u32_bounds(1) [of lo] unat_u32_lt [of hi]
    by (simp, unfold dbl_of_u32_def) (metis (no_types, lifting) Suc_leI le_less_trans not_less
      of_nat_Suc of_nat_le_iff of_nat_numeral add.commute)
  have fl: "int (unat lo) \<le> \<lfloor>r\<rfloor>" "\<lfloor>r\<rfloor> \<le> int (unat hi)"
    using assms by (simp_all add: dbl_of_u32_def le_floor_iff floor_le_iff)
  then have "0 \<le> \<lfloor>r\<rfloor>" "nat \<lfloor>r\<rfloor> < 2 ^ LENGTH(32)"
    using unat_u32_lt [of hi] by (linarith, simp)
  then have "unat (of_int \<lfloor>r\<rfloor> :: u32) = nat \<lfloor>r\<rfloor>"
    by (metis int_nat_eq of_int_of_nat_eq unat_of_nat_small)
  with fl r show ?thesis
    by (auto simp: u32_of_dbl_def word_le_nat_alt nat_le_iff le_nat_iff)
qed

lemma u32_nearest_between:
  assumes "dbl_of_u32 lo \<le> v" "v \<le> dbl_of_u32 hi"
  shows "\<exists>n. u32_nearest v = Some n \<and> lo \<le> n \<and> n \<le> hi"
proof -
  have lt: "unat n < 2 ^ 51" for n :: u32 using unat_u32_lt [of n] by simp
  have "dbl_of_u32 lo \<le> dadd v (1/2)"
    using dadd_half_ge [OF _ lt, of lo] assms(1) by (simp add: dbl_of_u32_def)
  moreover have "dadd v (1/2) \<le> dbl_of_u32 hi + 1/2"
    using dadd_half_bounds(2) [OF _ _ lt, of v hi] assms dbl_of_u32_bounds(1) [of lo]
    by (simp add: dbl_of_u32_def)
  ultimately show ?thesis
    unfolding u32_nearest_def by (intro u32_of_dbl_between) auto
qed

end
