(* ===== verification/Rate_Control.thy ===== *)
theory Rate_Control
  imports Binary_Float
begin

text \<open>
  lib/ff_core/rate_control.h and rate_control.cpp: the ALOHA beacon interval, its clamps, the
  duty-cycle floor and the jitter; lib/ff_core/airtime.h and airtime.cpp: LoRa time on air.
  A result is \<open>None\<close> where the C++ converts a value that does not fit to an unsigned integer,
  or divides by zero.
\<close>

section \<open>Rate control\<close>

record rate_config =
  rc_target_load :: flt
  rc_min_interval_ms :: u32
  rc_max_interval_ms :: u32
  rc_jitter_frac :: flt
  rc_duty_cycle_pct :: u8

definition RateConfig :: rate_config where
  "RateConfig = \<lparr>rc_target_load = flt_round (15 / 100), rc_min_interval_ms = 100,
     rc_max_interval_ms = 1000, rc_jitter_frac = 1 / 4, rc_duty_cycle_pct = 0\<rparr>"

record rate_controller =
  rt_cfg :: rate_config
  rt_airtime_ms :: dbl

definition RateController :: "rate_config \<Rightarrow> rate_controller" where
  "RateController cfg = \<lparr>rt_cfg = cfg, rt_airtime_ms = 10\<rparr>"

definition setAirtimeMs :: "rate_controller \<Rightarrow> dbl \<Rightarrow> rate_controller" where
  "setAirtimeMs r airtime_ms = (if airtime_ms > 0 then r\<lparr>rt_airtime_ms := airtime_ms\<rparr> else r)"

definition clampU32 :: "dbl \<Rightarrow> u32 \<Rightarrow> u32 \<Rightarrow> u32 option" where
  "clampU32 v lo hi =
     (if v < dbl_of_u32 lo then Some lo
      else if v > dbl_of_u32 hi then Some hi
      else u32_nearest v)"

definition dutyFloorMs :: "rate_config \<Rightarrow> dbl \<Rightarrow> u32 option" where
  "dutyFloorMs cfg airtime_ms =
     (if rc_duty_cycle_pct cfg = 0 \<or> airtime_ms \<le> 0 then Some 0
      else do {
        floor_ms \<leftarrow> ddiv (dmul airtime_ms 100) (of_nat (unat (rc_duty_cycle_pct cfg)));
        u32_nearest floor_ms
      })"

definition rate_load :: "rate_config \<Rightarrow> dbl" where
  "rate_load cfg =
     (if rc_target_load cfg > 0 then rc_target_load cfg else dbl_round (15 / 100))"

definition baseIntervalMs :: "rate_config \<Rightarrow> u32 \<Rightarrow> dbl \<Rightarrow> u32 option" where
  "baseIntervalMs cfg active_peers airtime_ms = do {
     base \<leftarrow> ddiv (dmul (dadd (dbl_of_u32 active_peers) 1) airtime_ms) (rate_load cfg);
     duty_floor \<leftarrow> dutyFloorMs cfg airtime_ms;
     clamped \<leftarrow> clampU32 base (rc_min_interval_ms cfg) (rc_max_interval_ms cfg);
     Some (if clamped > duty_floor then clamped else duty_floor)
   }"

definition jitter_factor :: "flt \<Rightarrow> flt \<Rightarrow> dbl" where
  "jitter_factor rand01 jitter_frac = dadd 1 (dmul (dsub (dmul rand01 2) 1) jitter_frac)"

definition nextDelayMs :: "rate_config \<Rightarrow> u32 \<Rightarrow> flt \<Rightarrow> dbl \<Rightarrow> u32 option" where
  "nextDelayMs cfg active_peers rand01 airtime_ms = do {
     base \<leftarrow> baseIntervalMs cfg active_peers airtime_ms;
     let delay = dmul (dbl_of_u32 base) (jitter_factor rand01 (rc_jitter_frac cfg));
     u32_nearest (if delay < 0 then 0 else delay)
   }"

text \<open>The overloads that use the controller's own airtime.\<close>

definition rt_baseIntervalMs :: "rate_controller \<Rightarrow> u32 \<Rightarrow> u32 option" where
  "rt_baseIntervalMs r active_peers = baseIntervalMs (rt_cfg r) active_peers (rt_airtime_ms r)"

definition rt_nextDelayMs :: "rate_controller \<Rightarrow> u32 \<Rightarrow> flt \<Rightarrow> u32 option" where
  "rt_nextDelayMs r active_peers rand01 = nextDelayMs (rt_cfg r) active_peers rand01 (rt_airtime_ms r)"

section \<open>Airtime\<close>

record lora_params =
  lp_spreading_factor :: u8
  lp_bandwidth_hz :: u32
  lp_coding_rate_denom :: u8
  lp_preamble_symbols :: u16
  lp_explicit_header :: bool
  lp_crc_on :: bool
  lp_low_data_rate_optimize :: bool

definition flag :: "bool \<Rightarrow> dbl" where "flag b = (if b then 1 else 0)"

definition loraAirtimeMs :: "lora_params \<Rightarrow> nat \<Rightarrow> dbl option" where
  "loraAirtimeMs p payload_bytes = do {
     let sf = of_nat (unat (lp_spreading_factor p));
     let bw = dbl_of_u32 (lp_bandwidth_hz p);
     t_sym \<leftarrow> ddiv (2 ^ unat (lp_spreading_factor p)) bw;
     let t_preamble = dmul (dadd (of_nat (unat (lp_preamble_symbols p))) (17 / 4)) t_sym;
     let crc = flag (lp_crc_on p);
     let ih = flag (\<not> lp_explicit_header p);
     let de = flag (lp_low_data_rate_optimize p);
     let cr = int (unat (lp_coding_rate_denom p)) - 4;
     let numerator =
       dsub (dadd (dadd (dsub (dmul 8 (dbl_round (of_nat payload_bytes))) (dmul 4 sf)) 28)
         (dmul 16 crc)) (dmul 20 ih);
     let denominator = dmul 4 (dsub sf (dmul 2 de));
     q \<leftarrow> ddiv numerator denominator;
     let payload_symb = dmul (of_int \<lceil>q\<rceil>) (of_int (cr + 4));
     let payload_symb = dadd (if payload_symb < 0 then 0 else payload_symb) 8;
     let t_payload = dmul payload_symb t_sym;
     Some (dmul (dadd t_preamble t_payload) 1000)
   }"

section \<open>Lemmas\<close>

lemma dmul_mono: "0 \<le> x \<Longrightarrow> x \<le> x' \<Longrightarrow> 0 \<le> y \<Longrightarrow> y \<le> y' \<Longrightarrow> dmul x y \<le> dmul x' y'"
  unfolding dmul_def by (intro round_to_mono mult_mono) auto

lemma dadd_mono: "x \<le> x' \<Longrightarrow> y \<le> y' \<Longrightarrow> dadd x y \<le> dadd x' y'"
  unfolding dadd_def by (intro round_to_mono add_mono) auto

lemma dmul_nonneg: "0 \<le> x \<Longrightarrow> 0 \<le> y \<Longrightarrow> 0 \<le> dmul x y"
  unfolding dmul_def by (intro round_to_nonneg) simp

lemma dadd_nonneg: "0 \<le> x \<Longrightarrow> 0 \<le> y \<Longrightarrow> 0 \<le> dadd x y"
  unfolding dadd_def by (intro round_to_nonneg) simp

lemma rate_load_pos: "0 < rate_load cfg"
  by (simp add: rate_load_def round_to_pos)

lemma u32_of_dbl_mono:
  assumes "x \<le> y" "u32_of_dbl x = Some a" "u32_of_dbl y = Some b"
  shows "a \<le> b"
proof -
  have f: "unat (of_int \<lfloor>max 0 z\<rfloor> :: u32) = nat \<lfloor>max 0 z\<rfloor>" if "z < 4294967296" for z :: rat
  proof -
    have "\<lfloor>max 0 z\<rfloor> < 4294967296" using that by (simp add: floor_less_iff)
    moreover obtain n where n: "\<lfloor>max 0 z\<rfloor> = int n"
      by (metis max.cobounded1 nonneg_int_cases zero_le_floor)
    ultimately have "n < 2 ^ LENGTH(32)" by simp
    then show ?thesis by (simp add: n unat_of_nat_small)
  qed
  have "nat \<lfloor>max 0 x\<rfloor> \<le> nat \<lfloor>max 0 y\<rfloor>"
    using assms(1) by (intro nat_mono floor_mono max.mono) auto
  with assms f show ?thesis
    by (auto simp: u32_of_dbl_def word_le_nat_alt split: if_splits)
qed

lemma u32_nearest_mono:
  "x \<le> y \<Longrightarrow> u32_nearest x = Some a \<Longrightarrow> u32_nearest y = Some b \<Longrightarrow> a \<le> b"
  unfolding u32_nearest_def by (erule (1) u32_of_dbl_mono [rotated]) (intro dadd_mono, auto)

lemma u32_nearest_u32 [simp]: "u32_nearest (dbl_of_u32 n) = Some n"
  using u32_nearest_between [of n "dbl_of_u32 n" n] by auto

lemma u32_nearest_total:
  assumes "0 \<le> v" "v \<le> dbl_of_u32 hi"
  shows "\<exists>n. u32_nearest v = Some n \<and> n \<le> hi"
  using u32_nearest_between [of 0 v hi] assms by (auto simp: dbl_of_u32_def)

lemma clampU32_total:
  assumes "lo \<le> hi"
  shows "\<exists>n. clampU32 v lo hi = Some n \<and> lo \<le> n \<and> n \<le> hi"
  using assms u32_nearest_between [of lo v hi] by (auto simp: clampU32_def)

lemma clampU32_mono:
  assumes "x \<le> y" "lo \<le> hi" "clampU32 x lo hi = Some a" "clampU32 y lo hi = Some b"
  shows "a \<le> b"
proof -
  have ab: "lo \<le> a" "a \<le> hi" "lo \<le> b" "b \<le> hi"
    using clampU32_total [OF assms(2), of x] clampU32_total [OF assms(2), of y] assms(3,4) by auto
  consider "x < dbl_of_u32 lo" | "y > dbl_of_u32 hi" | "\<not> x < dbl_of_u32 lo" "\<not> y > dbl_of_u32 hi"
    by blast
  then show ?thesis
  proof cases
    case 1
    then show ?thesis using assms(3) ab by (simp add: clampU32_def)
  next
    case 2
    moreover have "dbl_of_u32 lo \<le> dbl_of_u32 hi" using assms(2) by (simp add: dbl_of_u32_le_iff)
    ultimately show ?thesis using assms(4) ab by (auto simp: clampU32_def split: if_splits)
  next
    case 3
    with assms show ?thesis
      by (auto simp: clampU32_def dest: u32_nearest_mono)
  qed
qed

lemma u32_nearest_lt:
  assumes "u32_nearest v = Some n" "of_nat m + 1/2 \<le> v" "m < 2 ^ 50"
  shows "m < unat n"
proof -
  have "dbl_round (of_int (int m + 1)) = of_int (int m + 1)"
    using assms(3) by (intro round_to_of_int) auto
  then have "of_nat m + 1 \<le> dadd v (1/2)"
    using assms(2) unfolding dadd_def by (intro round_to_ge) auto
  then have "int m + 1 \<le> \<lfloor>max 0 (dadd v (1/2))\<rfloor>" by (simp add: le_floor_iff)
  moreover have "int (unat n) = \<lfloor>max 0 (dadd v (1/2))\<rfloor>"
  proof -
    have r: "dadd v (1/2) < 4294967296" "n = of_int \<lfloor>max 0 (dadd v (1/2))\<rfloor>"
      using assms(1) by (auto simp: u32_nearest_def u32_of_dbl_def split: if_splits)
    then have "\<lfloor>max 0 (dadd v (1/2))\<rfloor> < 4294967296" by (simp add: floor_less_iff)
    moreover obtain k where k: "\<lfloor>max 0 (dadd v (1/2))\<rfloor> = int k"
      by (metis max.cobounded1 nonneg_int_cases zero_le_floor)
    ultimately show ?thesis using r(2) by (simp add: k unat_of_nat_small)
  qed
  ultimately show ?thesis by simp
qed

lemma duty_nonzero: "rc_duty_cycle_pct cfg \<noteq> 0 \<Longrightarrow> 0 < unat (rc_duty_cycle_pct cfg)"
  by (simp add: unat_eq_0 flip: neq0_conv)

text \<open>The floor exists for every airtime up to eleven hours.\<close>

lemma dutyFloorMs_total:
  assumes "airtime_ms \<le> 40000000"
  shows "\<exists>f. dutyFloorMs cfg airtime_ms = Some f"
proof (cases "rc_duty_cycle_pct cfg = 0 \<or> airtime_ms \<le> 0")
  case False
  let ?d = "of_nat (unat (rc_duty_cycle_pct cfg)) :: rat"
  have d: "1 \<le> ?d" using duty_nonzero [of cfg] False by simp
  let ?m = "dmul airtime_ms 100"
  have m: "0 \<le> ?m" "?m \<le> 4000000000"
  proof -
    show "0 \<le> ?m" using False by (intro dmul_nonneg) auto
    have "dbl_round (of_int 4000000000) = of_int 4000000000" by (rule round_to_of_int) auto
    then show "?m \<le> 4000000000"
      unfolding dmul_def using assms by (intro round_to_le) auto
  qed
  have q: "0 \<le> ?m / ?d" "?m / ?d \<le> 4000000000"
  proof -
    show "0 \<le> ?m / ?d" using m d by simp
    have "?m / ?d \<le> ?m" using m d by (simp add: divide_le_eq mult_le_cancel_left1)
    with m show "?m / ?d \<le> 4000000000" by linarith
  qed
  have "0 \<le> dbl_round (?m / ?d)" using q by (intro round_to_nonneg)
  moreover have "dbl_round (of_int 4000000000) = of_int 4000000000" by (rule round_to_of_int) auto
  then have "dbl_round (?m / ?d) \<le> 4000000000" using q by (intro round_to_le) auto
  then have "dbl_round (?m / ?d) \<le> dbl_of_u32 4000000000" by (simp add: dbl_of_u32_def)
  ultimately obtain f where "u32_nearest (dbl_round (?m / ?d)) = Some f"
    using u32_nearest_total by blast
  with False d show ?thesis by (auto simp: dutyFloorMs_def ddiv_def)
qed (auto simp: dutyFloorMs_def)

lemma dutyFloorMs_legal:
  assumes "dutyFloorMs cfg airtime_ms = Some f" "rc_duty_cycle_pct cfg \<noteq> 0"
  shows "airtime_ms * 100 < (of_nat (unat f) + 1/2) * of_nat (unat (rc_duty_cycle_pct cfg))"
proof (rule ccontr)
  let ?d = "unat (rc_duty_cycle_pct cfg)"
  let ?k = "of_nat (unat f) + 1/2 :: rat"
  have d: "0 < ?d" "?d < 256" using duty_nonzero assms(2) by simp_all
  have k: "0 < ?k" by (simp add: add_nonneg_pos)
  assume "\<not> ?thesis"
  then have le: "?k * of_nat ?d \<le> airtime_ms * 100" by simp
  moreover have "0 < ?k * of_nat ?d" using k d(1) by simp
  ultimately have air: "0 < airtime_ms" by linarith
  have r: "dbl_round (of_int ((2 * int (unat f) + 1) * int ?d) / 2) =
      of_int ((2 * int (unat f) + 1) * int ?d) / 2"
  proof (rule round_to_half)
    have "(2 * unat f + 1) * ?d < (2 * 4294967296 + 1) * 256"
      using d(2) unat_u32_lt [of f] by (intro mult_strict_mono) auto
    then have "int ((2 * unat f + 1) * ?d) < int (2 ^ 53)" by (simp only: of_nat_less_iff) simp
    then show "\<bar>(2 * int (unat f) + 1) * int ?d\<bar> < 2 ^ 53" by (simp add: algebra_simps)
  qed simp
  have "of_int ((2 * int (unat f) + 1) * int ?d) / 2 = ?k * of_nat ?d"
    by (simp add: field_simps)
  from r [unfolded this] have "?k * of_nat ?d \<le> dmul airtime_ms 100"
    unfolding dmul_def using le by (intro round_to_ge) auto
  then have "?k \<le> dmul airtime_ms 100 / of_nat ?d" using d(1) by (simp add: le_divide_eq)
  moreover have "dbl_round (of_int (2 * int (unat f) + 1) / 2) = of_int (2 * int (unat f) + 1) / 2"
    using unat_u32_lt [of f] by (intro round_to_half) auto
  then have "dbl_round ?k = ?k" by (simp add: add_divide_distrib)
  ultimately have "?k \<le> dbl_round (dmul airtime_ms 100 / of_nat ?d)"
    by (intro round_to_ge) auto
  moreover have "u32_nearest (dbl_round (dmul airtime_ms 100 / of_nat ?d)) = Some f"
    using assms air d(1) by (auto simp: dutyFloorMs_def ddiv_def)
  ultimately have "unat f < unat f"
    using unat_u32_lt [of f] by (intro u32_nearest_lt) auto
  then show False by simp
qed

lemma baseIntervalMs_total:
  assumes "airtime_ms \<le> 40000000" "rc_min_interval_ms cfg \<le> rc_max_interval_ms cfg"
  shows "\<exists>f c. dutyFloorMs cfg airtime_ms = Some f \<and>
    rc_min_interval_ms cfg \<le> c \<and> c \<le> rc_max_interval_ms cfg \<and>
    baseIntervalMs cfg active_peers airtime_ms = Some (max c f)"
proof -
  obtain f where f: "dutyFloorMs cfg airtime_ms = Some f"
    using dutyFloorMs_total [OF assms(1)] by blast
  let ?b = "dbl_round (dmul (dadd (dbl_of_u32 active_peers) 1) airtime_ms / rate_load cfg)"
  obtain c where c: "clampU32 ?b (rc_min_interval_ms cfg) (rc_max_interval_ms cfg) = Some c"
    "rc_min_interval_ms cfg \<le> c" "c \<le> rc_max_interval_ms cfg"
    using clampU32_total [OF assms(2)] by blast
  have "rate_load cfg \<noteq> 0" using rate_load_pos [of cfg] by simp
  then have "baseIntervalMs cfg active_peers airtime_ms = Some (if c > f then c else f)"
    using f c(1) by (simp add: baseIntervalMs_def ddiv_def)
  moreover have "(if c > f then c else f) = max c f" by (cases "f < c") auto
  ultimately show ?thesis using f c(2,3) by metis
qed

lemma baseIntervalMs_SomeD:
  assumes "baseIntervalMs cfg k airtime_ms = Some a"
  shows "\<exists>f c. dutyFloorMs cfg airtime_ms = Some f \<and>
    clampU32 (dbl_round (dmul (dadd (dbl_of_u32 k) 1) airtime_ms / rate_load cfg))
      (rc_min_interval_ms cfg) (rc_max_interval_ms cfg) = Some c \<and> a = max c f"
  using assms
  by (auto simp: baseIntervalMs_def ddiv_def max_def not_less split: Option.bind_splits if_splits)

lemma jitter_term_bound:
  assumes "0 \<le> r" "r \<le> 1" "0 \<le> j" "dbl_round j = j"
  shows "- j \<le> dmul (dsub (dmul r 2) 1) j \<and> dmul (dsub (dmul r 2) 1) j \<le> j"
proof -
  have one: "dbl_round (of_int 1) = of_int 1" "dbl_round (of_int 2) = of_int 2"
    by (rule round_to_of_int; simp)+
  have "0 \<le> dmul r 2" "dmul r 2 \<le> 2"
    using assms(1,2) one(2) by (auto simp: dmul_def intro!: round_to_nonneg round_to_le)
  then have d: "- 1 \<le> dsub (dmul r 2) 1" "dsub (dmul r 2) 1 \<le> 1"
    using one(1) by (auto simp: dsub_def round_to_minus intro!: round_to_le round_to_ge)
  have neg: "dbl_round (- j) = - j" using assms(4) by (simp add: round_to_minus)
  have "dsub (dmul r 2) 1 * j \<le> 1 * j" "- 1 * j \<le> dsub (dmul r 2) 1 * j"
    using d assms(3) by (intro mult_right_mono; simp)+
  then show ?thesis
    using assms(4) neg by (auto simp: dmul_def intro!: round_to_le round_to_ge)
qed

lemma jitter_factor_range:
  assumes "0 \<le> r" "r \<le> 1" "0 \<le> j" "j \<le> 1" "dbl_round j = j"
  shows "dsub 1 j \<le> jitter_factor r j" "jitter_factor r j \<le> dadd 1 j"
    "0 \<le> dsub 1 j" "dadd 1 j \<le> 2"
proof -
  note b = jitter_term_bound [OF assms(1-3,5)]
  have "dsub 1 j = dadd 1 (- j)" by (simp add: dsub_def dadd_def)
  then show "dsub 1 j \<le> jitter_factor r j"
    unfolding jitter_factor_def using b by (simp add: dadd_mono)
  show "jitter_factor r j \<le> dadd 1 j"
    unfolding jitter_factor_def using b by (intro dadd_mono) auto
  show "0 \<le> dsub 1 j" using assms(4) unfolding dsub_def by (intro round_to_nonneg) simp
  have "dbl_round (of_int 2) = of_int 2" by (rule round_to_of_int) simp_all
  then show "dadd 1 j \<le> 2" using assms(4) unfolding dadd_def by (intro round_to_le) auto
qed

text \<open>Time on air: the parts of the formula that do not depend on the payload.\<close>

lemma nextDelayMs_between:
  assumes "baseIntervalMs cfg active_peers airtime_ms = Some base" "base < 0x80000000"
    and "0 \<le> rand01" "rand01 \<le> 1"
    and "0 \<le> rc_jitter_frac cfg" "rc_jitter_frac cfg \<le> 1"
    and "dbl_round (rc_jitter_frac cfg) = rc_jitter_frac cfg"
  shows "\<exists>lo n hi. u32_nearest (dmul (dbl_of_u32 base) (dsub 1 (rc_jitter_frac cfg))) = Some lo \<and>
    nextDelayMs cfg active_peers rand01 airtime_ms = Some n \<and>
    u32_nearest (dmul (dbl_of_u32 base) (dadd 1 (rc_jitter_frac cfg))) = Some hi \<and>
    lo \<le> n \<and> n \<le> hi"
proof -
  let ?j = "rc_jitter_frac cfg" and ?b = "dbl_of_u32 base"
  note f = jitter_factor_range [OF assms(3-7)]
  have b: "0 \<le> ?b" by (rule dbl_of_u32_bounds)
  have nn: "0 \<le> jitter_factor rand01 ?j" "0 \<le> dadd 1 ?j" using f by linarith+
  have o: "dmul ?b (dsub 1 ?j) \<le> dmul ?b (jitter_factor rand01 ?j)"
    "dmul ?b (jitter_factor rand01 ?j) \<le> dmul ?b (dadd 1 ?j)"
    using b f nn by (auto intro!: dmul_mono)
  have "unat (2 * base) = 2 * unat base"
    using assms(2) by (simp add: unat_mult_lem [THEN iffD1] word_less_nat_alt)
  then have two: "dbl_of_u32 (2 * base) = ?b * 2" by (simp add: dbl_of_u32_def)
  have "?b * dadd 1 ?j \<le> ?b * 2" using b f(4) by (intro mult_left_mono)
  then have "dmul ?b (dadd 1 ?j) \<le> dbl_of_u32 (2 * base)"
    unfolding dmul_def two [symmetric] by (intro round_to_le) auto
  then have t: "\<exists>n. u32_nearest x = Some n" if "0 \<le> x" "x \<le> dmul ?b (dadd 1 ?j)" for x
    using that u32_nearest_total [of x "2 * base"] by force
  have z: "0 \<le> dmul ?b (dsub 1 ?j)" using b f(3) by (rule dmul_nonneg)
  obtain lo n hi where r: "u32_nearest (dmul ?b (dsub 1 ?j)) = Some lo"
    "u32_nearest (dmul ?b (jitter_factor rand01 ?j)) = Some n"
    "u32_nearest (dmul ?b (dadd 1 ?j)) = Some hi"
    using t [of "dmul ?b (dsub 1 ?j)"] t [of "dmul ?b (jitter_factor rand01 ?j)"]
      t [of "dmul ?b (dadd 1 ?j)"] z o by auto
  have "nextDelayMs cfg active_peers rand01 airtime_ms = Some n"
    using assms(1) r(2) z o(1) by (simp add: nextDelayMs_def Let_def)
  with r u32_nearest_mono [OF o(1) r(1,2)] u32_nearest_mono [OF o(2) r(2,3)] show ?thesis
    by blast
qed

definition airtime_of_symbols :: "lora_params \<Rightarrow> dbl \<Rightarrow> dbl \<Rightarrow> dbl" where
  "airtime_of_symbols p t_sym symb =
     dmul (dadd (dmul (dadd (of_nat (unat (lp_preamble_symbols p))) (17 / 4)) t_sym)
       (dmul (dadd (if symb < 0 then 0 else symb) 8) t_sym)) 1000"

definition airtime_numerator :: "lora_params \<Rightarrow> nat \<Rightarrow> dbl" where
  "airtime_numerator p payload_bytes =
     dsub (dadd (dadd (dsub (dmul 8 (dbl_round (of_nat payload_bytes)))
       (dmul 4 (of_nat (unat (lp_spreading_factor p))))) 28)
       (dmul 16 (flag (lp_crc_on p)))) (dmul 20 (flag (\<not> lp_explicit_header p)))"

definition airtime_denominator :: "lora_params \<Rightarrow> dbl" where
  "airtime_denominator p =
     dmul 4 (dsub (of_nat (unat (lp_spreading_factor p)))
       (dmul 2 (flag (lp_low_data_rate_optimize p))))"

lemma airtime_numerator_mono: "m \<le> n \<Longrightarrow> airtime_numerator p m \<le> airtime_numerator p n"
  unfolding airtime_numerator_def dsub_def dadd_def dmul_def
  by (intro round_to_mono diff_right_mono add_right_mono mult_left_mono) auto

lemma airtime_denominator_pos:
  assumes "3 \<le> unat (lp_spreading_factor p)"
  shows "0 < airtime_denominator p"
proof -
  have "dbl_round (of_int 2) = of_int 2" by (rule round_to_of_int) simp_all
  then have "dmul 2 (flag (lp_low_data_rate_optimize p)) \<le> 2" by (simp add: flag_def dmul_def)
  moreover have "3 \<le> (of_nat (unat (lp_spreading_factor p)) :: rat)" using assms by simp
  ultimately have "0 < (of_nat (unat (lp_spreading_factor p)) :: rat) -
      dmul 2 (flag (lp_low_data_rate_optimize p))"
    by linarith
  then show ?thesis
    unfolding airtime_denominator_def dsub_def dmul_def [of 4] by (intro round_to_pos) (simp_all add: round_to_pos)
qed

lemma loraAirtimeMs_eq:
  assumes "3 \<le> unat (lp_spreading_factor p)" "lp_bandwidth_hz p \<noteq> 0"
  defines "t_sym \<equiv> dbl_round (2 ^ unat (lp_spreading_factor p) / dbl_of_u32 (lp_bandwidth_hz p))"
  shows "loraAirtimeMs p n = Some (airtime_of_symbols p t_sym
    (dmul (of_int \<lceil>dbl_round (airtime_numerator p n / airtime_denominator p)\<rceil>)
      (of_int (int (unat (lp_coding_rate_denom p))))))"
proof -
  have "dbl_of_u32 (lp_bandwidth_hz p) \<noteq> 0"
    using assms(2) by (simp add: dbl_of_u32_def unat_eq_0)
  moreover have "airtime_denominator p \<noteq> 0" using airtime_denominator_pos [OF assms(1)] by simp
  ultimately show ?thesis
    by (simp add: loraAirtimeMs_def Let_def ddiv_def airtime_of_symbols_def t_sym_def
        flip: airtime_numerator_def airtime_denominator_def)
qed

lemma airtime_of_symbols_mono:
  assumes "0 \<le> t" "x \<le> y"
  shows "airtime_of_symbols p t x \<le> airtime_of_symbols p t y"
  unfolding airtime_of_symbols_def
  using assms by (intro dmul_mono dadd_mono dadd_nonneg dmul_nonneg) auto

text \<open>A configuration with round numbers, to evaluate the definitions at.\<close>

definition sample_rate :: "u8 \<Rightarrow> rate_config" where
  "sample_rate duty =
    \<lparr>rc_target_load = 1 / 4, rc_min_interval_ms = 100, rc_max_interval_ms = 1000,
     rc_jitter_frac = 1 / 4, rc_duty_cycle_pct = duty\<rparr>"

section \<open>Properties\<close>

text \<open>The beacon interval exists for every peer count and every airtime up to eleven hours,
  lies in the configured range unless the duty-cycle floor is longer, and is never shorter
  than that floor: transmitting one frame per interval stays below the configured duty cycle,
  to within the half millisecond the floor is rounded by.\<close>

theorem baseIntervalMs_legal:
  assumes "airtime_ms \<le> 40000000" "rc_min_interval_ms cfg \<le> rc_max_interval_ms cfg"
  shows "\<exists>f n. dutyFloorMs cfg airtime_ms = Some f \<and>
    baseIntervalMs cfg active_peers airtime_ms = Some n \<and>
    max (rc_min_interval_ms cfg) f \<le> n \<and> n \<le> max (rc_max_interval_ms cfg) f \<and>
    (rc_duty_cycle_pct cfg \<noteq> 0 \<longrightarrow>
       airtime_ms * 100 < (of_nat (unat n) + 1/2) * of_nat (unat (rc_duty_cycle_pct cfg)))"
proof -
  obtain f c where f: "dutyFloorMs cfg airtime_ms = Some f"
    and c: "rc_min_interval_ms cfg \<le> c" "c \<le> rc_max_interval_ms cfg"
    and n: "baseIntervalMs cfg active_peers airtime_ms = Some (max c f)"
    using baseIntervalMs_total [OF assms] by blast
  have "airtime_ms * 100 < (of_nat (unat (max c f)) + 1/2) * of_nat (unat (rc_duty_cycle_pct cfg))"
    if "rc_duty_cycle_pct cfg \<noteq> 0"
  proof -
    have "unat f \<le> unat (max c f)" by (simp add: max_def word_le_nat_alt)
    then have "(of_nat (unat f) + 1/2) * of_nat (unat (rc_duty_cycle_pct cfg)) \<le>
        (of_nat (unat (max c f)) + 1/2) * (of_nat (unat (rc_duty_cycle_pct cfg)) :: rat)"
      by (intro mult_right_mono add_right_mono) auto
    with dutyFloorMs_legal [OF f that] show ?thesis by linarith
  qed
  moreover have "max (rc_min_interval_ms cfg) f \<le> max c f" "max c f \<le> max (rc_max_interval_ms cfg) f"
    using c by (auto simp: max_def)
  ultimately show ?thesis using f n by blast
qed

theorem baseIntervalMs_legal_witness:
  "dutyFloorMs (sample_rate 10) 72 = Some 720 \<and>
   (\<exists>n. baseIntervalMs (sample_rate 10) 0 72 = Some n \<and> 720 \<le> n \<and> n \<le> 1000)"
proof -
  let ?c = "sample_rate 10"
  have f: "dutyFloorMs ?c 72 = Some 720" by code_simp
  have "72 \<le> (40000000 :: rat)" "rc_min_interval_ms ?c \<le> rc_max_interval_ms ?c"
    by (simp_all add: sample_rate_def)
  from baseIntervalMs_legal [OF this, of 0] f show ?thesis
    by (auto simp: sample_rate_def max_def split: if_splits)
qed

text \<open>Hearing more peers never makes a node beacon faster: the interval grows with the
  number of nodes that share the channel, roundings included.\<close>

theorem baseIntervalMs_mono:
  assumes "0 \<le> airtime_ms" "rc_min_interval_ms cfg \<le> rc_max_interval_ms cfg"
    and "m \<le> n" "baseIntervalMs cfg m airtime_ms = Some a" "baseIntervalMs cfg n airtime_ms = Some b"
  shows "a \<le> b"
proof -
  let ?b = "\<lambda>k. dbl_round (dmul (dadd (dbl_of_u32 k) 1) airtime_ms / rate_load cfg)"
  have load: "0 < rate_load cfg" "rate_load cfg \<noteq> 0" using rate_load_pos [of cfg] by simp_all
  have "dmul (dadd (dbl_of_u32 m) 1) airtime_ms \<le> dmul (dadd (dbl_of_u32 n) 1) airtime_ms"
    using assms(1,3) by (intro dmul_mono dadd_mono dadd_nonneg)
      (auto simp: dbl_of_u32_le_iff dbl_of_u32_bounds)
  then have "?b m \<le> ?b n"
    using load by (intro round_to_mono divide_right_mono) auto
  then have "c \<le> d"
    if "clampU32 (?b m) (rc_min_interval_ms cfg) (rc_max_interval_ms cfg) = Some c"
      "clampU32 (?b n) (rc_min_interval_ms cfg) (rc_max_interval_ms cfg) = Some d" for c d
    using that clampU32_mono [OF _ assms(2)] by blast
  with baseIntervalMs_SomeD [OF assms(4)] baseIntervalMs_SomeD [OF assms(5)] show ?thesis
    by (fastforce intro: max.mono)
qed

theorem baseIntervalMs_mono_witness:
  "let cfg = sample_rate 0
   in baseIntervalMs cfg 1 20 = Some 160 \<and> baseIntervalMs cfg 3 20 = Some 320 \<and> (160 :: u32) \<le> 320"
proof -
  let ?c = "sample_rate 0"
  have a: "baseIntervalMs ?c 1 20 = Some 160" by code_simp
  have b: "baseIntervalMs ?c 3 20 = Some 320" by code_simp
  have "(160 :: u32) \<le> 320"
    by (rule baseIntervalMs_mono [OF _ _ _ a b]) (simp_all add: sample_rate_def)
  with a b show ?thesis by simp
qed

text \<open>Jitter spreads a beacon over the interval \<open>1 - jitter\<close> to \<open>1 + jitter\<close> times the base
  interval, for every random sample: the delay exists, and lies between the two ends rounded
  to milliseconds.\<close>

theorem nextDelayMs_in_jitter_range:
  assumes "baseIntervalMs cfg active_peers airtime_ms = Some base" "base < 0x80000000"
    and "0 \<le> rand01" "rand01 \<le> 1"
    and "0 \<le> rc_jitter_frac cfg" "rc_jitter_frac cfg \<le> 1"
    and "dbl_round (rc_jitter_frac cfg) = rc_jitter_frac cfg"
  shows "\<exists>lo n hi. u32_nearest (dmul (dbl_of_u32 base) (dsub 1 (rc_jitter_frac cfg))) = Some lo \<and>
    nextDelayMs cfg active_peers rand01 airtime_ms = Some n \<and>
    u32_nearest (dmul (dbl_of_u32 base) (dadd 1 (rc_jitter_frac cfg))) = Some hi \<and>
    lo \<le> n \<and> n \<le> hi"
  using assms by (rule nextDelayMs_between)

theorem nextDelayMs_in_jitter_range_witness:
  "baseIntervalMs (sample_rate 0) 1 20 = Some 160 \<and>
   (\<exists>n. nextDelayMs (sample_rate 0) 1 (7 / 8) 20 = Some n \<and> 120 \<le> n \<and> n \<le> 200)"
proof -
  have a: "baseIntervalMs (sample_rate 0) 1 20 = Some 160" by code_simp
  have "0 \<le> (7 / 8 :: rat)" "7 / 8 \<le> (1 :: rat)" "(160 :: u32) < 0x80000000"
    "0 \<le> rc_jitter_frac (sample_rate 0)" "rc_jitter_frac (sample_rate 0) \<le> 1"
    "dbl_round (rc_jitter_frac (sample_rate 0)) = rc_jitter_frac (sample_rate 0)"
    by (simp_all add: sample_rate_def) code_simp
  from nextDelayMs_in_jitter_range [OF a this(3,1,2,4-6)] obtain lo n hi where
    "u32_nearest (dmul (dbl_of_u32 160) (dsub 1 (rc_jitter_frac (sample_rate 0)))) = Some lo"
    "nextDelayMs (sample_rate 0) 1 (7 / 8) 20 = Some n"
    "u32_nearest (dmul (dbl_of_u32 160) (dadd 1 (rc_jitter_frac (sample_rate 0)))) = Some hi"
    "lo \<le> n" "n \<le> hi"
    by blast
  moreover have "u32_nearest (dmul (dbl_of_u32 160) (dsub 1 (rc_jitter_frac (sample_rate 0)))) = Some 120"
    "u32_nearest (dmul (dbl_of_u32 160) (dadd 1 (rc_jitter_frac (sample_rate 0)))) = Some 200"
    by code_simp+
  ultimately show ?thesis using a by auto
qed

text \<open>The duty-cycle floor bounds the base interval and not the delay that is used: jitter
  is applied after it, so at 72 ms of airtime and a 10 percent ceiling, where the floor is
  720 ms, the next beacon can be scheduled after 540 ms.\<close>

theorem jitter_undercuts_duty_floor:
  "dutyFloorMs (sample_rate 10) 72 = Some 720 \<and> baseIntervalMs (sample_rate 10) 1 72 = Some 720 \<and>
   nextDelayMs (sample_rate 10) 1 0 72 = Some 540"
  by (intro conjI) code_simp+

text \<open>For every spreading factor of three or more and every bandwidth but zero the time on
  air exists, and a longer payload never takes less time: the symbol count, the ceiling and
  all the roundings are monotone.\<close>

theorem loraAirtimeMs_mono:
  assumes "3 \<le> unat (lp_spreading_factor p)" "lp_bandwidth_hz p \<noteq> 0" "m \<le> n"
  shows "\<exists>x y. loraAirtimeMs p m = Some x \<and> loraAirtimeMs p n = Some y \<and> x \<le> y"
proof -
  let ?q = "\<lambda>k. dbl_round (airtime_numerator p k / airtime_denominator p)"
  let ?s = "\<lambda>k. dmul (of_int \<lceil>?q k\<rceil>) (of_int (int (unat (lp_coding_rate_denom p))))"
  have "?q m \<le> ?q n"
    using airtime_numerator_mono [OF assms(3), of p] airtime_denominator_pos [OF assms(1)]
    by (intro round_to_mono divide_right_mono) auto
  then have "\<lceil>?q m\<rceil> \<le> \<lceil>?q n\<rceil>" by (rule ceiling_mono)
  then have "?s m \<le> ?s n"
    unfolding dmul_def by (intro round_to_mono mult_right_mono) auto
  moreover have "0 \<le> dbl_round (2 ^ unat (lp_spreading_factor p) / dbl_of_u32 (lp_bandwidth_hz p))"
    by (intro round_to_nonneg divide_nonneg_nonneg dbl_of_u32_bounds) simp
  ultimately show ?thesis
    using loraAirtimeMs_eq [OF assms(1,2)] airtime_of_symbols_mono by blast
qed

theorem loraAirtimeMs_mono_witness:
  "let p = \<lparr>lp_spreading_factor = 7, lp_bandwidth_hz = 125000, lp_coding_rate_denom = 5,
     lp_preamble_symbols = 8, lp_explicit_header = True, lp_crc_on = True,
     lp_low_data_rate_optimize = False\<rparr>
   in \<exists>x y. loraAirtimeMs p 21 = Some x \<and> loraAirtimeMs p 31 = Some y \<and> x \<le> y"
  unfolding Let_def by (rule loraAirtimeMs_mono) simp_all

end
