(* ===== verification/Lora_Band.thy ===== *)
theory Lora_Band
  imports Rate_Control
begin

text \<open>
  lib/ff_core/lora_band.h and lora_band.cpp: the LoRa channel of each band, the bands a chip
  and a board can run, and how the band a node runs on is decided. A \<open>bool\<close> result with an
  out-parameter is an option, and the error text of \<open>loraBandValid\<close> a sum.
\<close>

section \<open>Data\<close>

datatype lora_chip = SX127x | SX128x | LR1121

record lora_band =
  lb_band :: u16
  lb_frequency_hz :: u32
  lb_bandwidth_khz :: flt
  lb_spreading_factor :: u8
  lb_coding_rate :: u8
  lb_long_interleaving :: bool
  lb_preamble_symbols :: u16
  lb_sync_word :: u8
  lb_duty_cycle_pct :: u8
  lb_max_dbm :: i8

definition LoraBand :: lora_band where
  "LoraBand = \<lparr>lb_band = 0, lb_frequency_hz = 0, lb_bandwidth_khz = 0, lb_spreading_factor = 0,
     lb_coding_rate = 0, lb_long_interleaving = False, lb_preamble_symbols = 8,
     lb_sync_word = 0x17, lb_duty_cycle_pct = 0, lb_max_dbm = 30\<rparr>"

definition highBand :: "lora_band \<Rightarrow> bool" where
  "highBand b \<longleftrightarrow> lb_band b = 2400"

definition kLoraBands :: "u16 list" where
  "kLoraBands = [433, 868, 915, 2400]"

section \<open>Operations\<close>

definition loraBandPreset :: "u16 \<Rightarrow> lora_band option" where
  "loraBandPreset band =
     (let b = LoraBand\<lparr>lb_band := band\<rparr>
      in if band = 433 then
           Some (b\<lparr>lb_frequency_hz := 434400000, lb_bandwidth_khz := 250, lb_spreading_factor := 7,
             lb_coding_rate := 5, lb_duty_cycle_pct := 10, lb_max_dbm := 10\<rparr>)
         else if band = 868 then
           Some (b\<lparr>lb_frequency_hz := 869525000, lb_bandwidth_khz := 125, lb_spreading_factor := 7,
             lb_coding_rate := 5, lb_duty_cycle_pct := 10, lb_max_dbm := 27\<rparr>)
         else if band = 915 then
           Some (b\<lparr>lb_frequency_hz := 920000000, lb_bandwidth_khz := 500, lb_spreading_factor := 8,
             lb_coding_rate := 7, lb_max_dbm := 30\<rparr>)
         else if band = 2400 then
           Some (b\<lparr>lb_frequency_hz := 2476000000, lb_bandwidth_khz := 1625 / 2,
             lb_spreading_factor := 8, lb_coding_rate := 8, lb_long_interleaving := True,
             lb_preamble_symbols := 12, lb_max_dbm := 30\<rparr>)
         else None)"

fun chipSupportsBand :: "lora_chip \<Rightarrow> u16 \<Rightarrow> bool" where
  "chipSupportsBand SX127x band \<longleftrightarrow> band = 433 \<or> band = 868 \<or> band = 915"
| "chipSupportsBand SX128x band \<longleftrightarrow> band = 2400"
| "chipSupportsBand LR1121 band \<longleftrightarrow> band = 433 \<or> band = 868 \<or> band = 915 \<or> band = 2400"

definition boardSupportsBand :: "lora_chip \<Rightarrow> bool \<Rightarrow> u16 \<Rightarrow> bool" where
  "boardSupportsBand chip elrs_hardware band =
     (if elrs_hardware \<and> band = 433 then False else chipSupportsBand chip band)"

fun only_band :: "(u16 \<Rightarrow> bool) \<Rightarrow> u16 \<Rightarrow> u16 list \<Rightarrow> u16" where
  "only_band supports only [] = only"
| "only_band supports only (band # bands) =
     (if supports band then (if only \<noteq> 0 then 0 else only_band supports band bands)
      else only_band supports only bands)"

definition resolveLoraBand :: "lora_chip \<Rightarrow> bool \<Rightarrow> u16 \<Rightarrow> u16 \<Rightarrow> u16" where
  "resolveLoraBand chip elrs_hardware configured flashed_default =
     (if configured \<noteq> 0 \<and> boardSupportsBand chip elrs_hardware configured then configured
      else if flashed_default \<noteq> 0 \<and> boardSupportsBand chip elrs_hardware flashed_default
      then flashed_default
      else only_band (boardSupportsBand chip elrs_hardware) 0 kLoraBands)"

definition loraBandEdges :: "u16 \<Rightarrow> (dbl \<times> dbl) option" where
  "loraBandEdges band =
     (if band = 433 then Some (433050000, 434790000)
      else if band = 868 then Some (869400000, 869650000)
      else if band = 915 then Some (902000000, 928000000)
      else if band = 2400 then Some (2400000000, 2483500000)
      else None)"

datatype band_error = UnknownBand | BelowBand | AboveBand | TooNarrow

definition loraBandValid :: "lora_band \<Rightarrow> band_error + unit" where
  "loraBandValid b =
     (case loraBandEdges (lb_band b) of
        None \<Rightarrow> Inl UnknownBand
      | Some (low, high) \<Rightarrow>
          (let half_bw = dbl_round (dmul (lb_bandwidth_khz b) 1000 / 2);
               f = dbl_of_u32 (lb_frequency_hz b)
           in if dsub f half_bw < low then Inl BelowBand
              else if dadd f half_bw > high then Inl AboveBand
              else if highBand b \<and> lb_bandwidth_khz b < 500 then Inl TooNarrow
              else Inr ()))"

definition loraAirtimeParams :: "lora_band \<Rightarrow> lora_params option" where
  "loraAirtimeParams b =
     map_option (\<lambda>bw. \<lparr>lp_spreading_factor = lb_spreading_factor b, lp_bandwidth_hz = bw,
         lp_coding_rate_denom = lb_coding_rate b, lp_preamble_symbols = lb_preamble_symbols b,
         lp_explicit_header = True, lp_crc_on = True, lp_low_data_rate_optimize = False\<rparr>)
       (u32_of_dbl (flt_round (lb_bandwidth_khz b * 1000)))"

definition stricterDutyCycle :: "u8 \<Rightarrow> u8 \<Rightarrow> u8" where
  "stricterDutyCycle a b = (if a = 0 then b else if b = 0 then a else if a < b then a else b)"

section \<open>Lemmas\<close>

lemma only_band_eq:
  assumes "0 \<notin> set bands"
  shows "only_band ok only bands =
    (if only = 0 then (case filter ok bands of [b] \<Rightarrow> b | _ \<Rightarrow> 0)
     else if filter ok bands = [] then only else 0)"
  using assms by (induction ok only bands rule: only_band.induct) (auto split: list.splits)

lemma single_band:
  "(\<And>b. bs = [b] \<Longrightarrow> ok b) \<Longrightarrow>
     (case bs of [b] \<Rightarrow> b | _ \<Rightarrow> 0) = (0 :: u16) \<or> ok (case bs of [b] \<Rightarrow> b | _ \<Rightarrow> 0)"
  by (cases bs; cases "tl bs") auto

lemma supported_is_listed: "boardSupportsBand chip elrs band \<Longrightarrow> band \<in> set kLoraBands"
  by (cases chip) (auto simp: boardSupportsBand_def kLoraBands_def split: if_splits)

text \<open>The channel of a band is usable: it belongs to the band, passes the validity check, and
  its bandwidth in hertz is the one in kilohertz, not a rounded one.\<close>

definition preset_usable :: "u16 \<Rightarrow> bool" where
  "preset_usable band =
     (case loraBandPreset band of
        None \<Rightarrow> False
      | Some b \<Rightarrow> lb_band b = band \<and> loraBandValid b = Inr () \<and>
          (case loraAirtimeParams b of
             None \<Rightarrow> False
           | Some p \<Rightarrow> dbl_of_u32 (lp_bandwidth_hz p) = lb_bandwidth_khz b * 1000))"

section \<open>Properties\<close>

text \<open>A preset exists exactly for the four listed bands; each of them carries its own band
  number, lies wholly inside the allocation of its band, is wide enough for a fixed channel
  where that is required, and has a time on air the rate controller can use.\<close>

theorem loraBandPreset_valid:
  "(loraBandPreset band = None \<longleftrightarrow> band \<notin> set kLoraBands) \<and>
   preset_usable 433 \<and> preset_usable 868 \<and> preset_usable 915 \<and> preset_usable 2400"
proof (intro conjI)
  show "loraBandPreset band = None \<longleftrightarrow> band \<notin> set kLoraBands"
    by (auto simp: loraBandPreset_def kLoraBands_def)
qed (simp_all add: preset_usable_def loraBandPreset_def LoraBand_def loraBandValid_def
    loraBandEdges_def loraAirtimeParams_def highBand_def dmul_def dadd_def dsub_def u32_of_dbl_def
    dbl_of_u32_def)

text \<open>The band a node runs on is the setting if the board can run it, else the flashed
  default if the board can run that, else the only band the board has, and otherwise none: a
  multi-band board never picks a band by itself, and no board ever gets one it cannot run.\<close>

theorem resolveLoraBand_spec:
  "resolveLoraBand chip elrs configured flashed =
     (if boardSupportsBand chip elrs configured then configured
      else if boardSupportsBand chip elrs flashed then flashed
      else (case filter (boardSupportsBand chip elrs) kLoraBands of [b] \<Rightarrow> b | _ \<Rightarrow> 0)) \<and>
   (resolveLoraBand chip elrs configured flashed = 0 \<or>
    boardSupportsBand chip elrs (resolveLoraBand chip elrs configured flashed))"
proof -
  have z: "\<not> boardSupportsBand chip elrs 0" "0 \<notin> set kLoraBands"
    by (cases chip; simp add: boardSupportsBand_def; fail) (simp add: kLoraBands_def)
  define r where "r = (case filter (boardSupportsBand chip elrs) kLoraBands of [b] \<Rightarrow> b | _ \<Rightarrow> 0)"
  have "boardSupportsBand chip elrs b" if "filter (boardSupportsBand chip elrs) kLoraBands = [b]" for b
    using arg_cong [OF that, of set] by auto
  then have r: "r = 0 \<or> boardSupportsBand chip elrs r"
    unfolding r_def using single_band by blast
  have "only_band (boardSupportsBand chip elrs) 0 kLoraBands = r"
    using only_band_eq [OF z(2), of "boardSupportsBand chip elrs" 0]
    by (simp only: r_def simp_thms if_True)
  moreover have "(x \<noteq> 0 \<and> boardSupportsBand chip elrs x) = boardSupportsBand chip elrs x" for x
    using z(1) by (cases "x = 0") simp_all
  ultimately have "resolveLoraBand chip elrs configured flashed =
     (if boardSupportsBand chip elrs configured then configured
      else if boardSupportsBand chip elrs flashed then flashed else r)"
    by (simp only: resolveLoraBand_def)
  note eq = this
  have "resolveLoraBand chip elrs configured flashed = 0 \<or>
    boardSupportsBand chip elrs (resolveLoraBand chip elrs configured flashed)"
    unfolding eq using r
    by (cases "boardSupportsBand chip elrs configured"; cases "boardSupportsBand chip elrs flashed") simp_all
  with eq show ?thesis unfolding r_def [symmetric] by (rule conjI)
qed

text \<open>The stricter of two duty-cycle ceilings, where zero means none, is the smaller of the
  ceilings that are set: it is one of the two, no limit that is set is exceeded, and the order
  does not matter.\<close>

theorem stricterDutyCycle_least:
  "stricterDutyCycle a b = stricterDutyCycle b a \<and> stricterDutyCycle a b \<in> {a, b} \<and>
   (stricterDutyCycle a b = 0 \<longleftrightarrow> a = 0 \<and> b = 0) \<and>
   (a = 0 \<or> stricterDutyCycle a b \<le> a) \<and> (b = 0 \<or> stricterDutyCycle a b \<le> b)"
  by (cases "a = 0"; cases "b = 0"; cases a b rule: linorder_cases)
    (auto simp: stricterDutyCycle_def dest: order.asym less_imp_le)

end
