(* ===== verification/Loop_Stats.thy ===== *)
theory Loop_Stats
  imports Prelude
begin

text \<open>
  lib/ff_core/loop_stats.h and loop_stats.cpp: the main-loop timing statistics, and their
  refinement of the list of samples taken since the last reset.
\<close>

section \<open>State and operations\<close>

record loop_stats =
  ls_last_us :: u32
  ls_min_us :: u32
  ls_max_us :: u32
  ls_samples :: u32
  ls_total_us :: u64
  ls_overruns :: u32
  ls_excluded_us :: u64
  ls_overrun_us :: u32

definition LoopStats :: loop_stats where
  "LoopStats = \<lparr>ls_last_us = 0, ls_min_us = 0, ls_max_us = 0, ls_samples = 0, ls_total_us = 0,
     ls_overruns = 0, ls_excluded_us = 0, ls_overrun_us = 1500000\<rparr>"

definition setOverrunThresholdUs :: "loop_stats \<Rightarrow> u32 \<Rightarrow> loop_stats" where
  "setOverrunThresholdUs s us = s\<lparr>ls_overrun_us := us\<rparr>"

definition addSample :: "loop_stats \<Rightarrow> u32 \<Rightarrow> u32 \<Rightarrow> loop_stats" where
  "addSample s duration_us excluded_us =
     (let (s, duration_us) =
            (if excluded_us \<noteq> 0
             then (s\<lparr>ls_excluded_us := ls_excluded_us s + ucast excluded_us\<rparr>,
                   if excluded_us < duration_us then duration_us - excluded_us else 0)
             else (s, duration_us));
          s = s\<lparr>ls_last_us := duration_us\<rparr>;
          s = (if ls_samples s = 0 \<or> duration_us < ls_min_us s
               then s\<lparr>ls_min_us := duration_us\<rparr> else s);
          s = (if duration_us > ls_max_us s then s\<lparr>ls_max_us := duration_us\<rparr> else s);
          s = s\<lparr>ls_samples := ls_samples s + 1\<rparr>;
          s = s\<lparr>ls_total_us := ls_total_us s + ucast duration_us\<rparr>
      in if ls_overrun_us s \<noteq> 0 \<and> duration_us \<ge> ls_overrun_us s
         then s\<lparr>ls_overruns := ls_overruns s + 1\<rparr> else s)"

definition ls_reset :: "loop_stats \<Rightarrow> loop_stats" where
  "ls_reset s = s\<lparr>ls_last_us := 0, ls_min_us := 0, ls_max_us := 0, ls_samples := 0, ls_total_us := 0\<rparr>"

definition minUs :: "loop_stats \<Rightarrow> u32" where
  "minUs s = (if ls_samples s \<noteq> 0 then ls_min_us s else 0)"

definition meanUs :: "loop_stats \<Rightarrow> u32" where
  "meanUs s = (if ls_samples s \<noteq> 0 then ucast (ls_total_us s div ucast (ls_samples s)) else 0)"

definition rateHz :: "loop_stats \<Rightarrow> u32" where
  "rateHz s = (let mean = meanUs s in if mean \<noteq> 0 then 1000000 div mean else 0)"

section \<open>The samples a state stands for\<close>

text \<open>An iteration counts for its duration less what was excluded, never below zero.\<close>

definition effective_us :: "u32 \<times> u32 \<Rightarrow> nat" where
  "effective_us s = unat (fst s) - unat (snd s)"

definition ls_run :: "loop_stats \<Rightarrow> (u32 \<times> u32) list \<Rightarrow> loop_stats" where
  "ls_run s samples = foldl (\<lambda>s (d, x). addSample s d x) s samples"

definition ls_refines :: "loop_stats \<Rightarrow> nat list \<Rightarrow> bool" where
  "ls_refines s ds \<longleftrightarrow>
     length ds < 2 ^ 32 \<and> unat (ls_samples s) = length ds \<and> unat (ls_total_us s) = sum_list ds \<and>
     (\<forall>d \<in> set ds. d < 2 ^ 32) \<and>
     (ds = [] \<longrightarrow> ls_min_us s = 0 \<and> ls_max_us s = 0 \<and> ls_last_us s = 0) \<and>
     (ds \<noteq> [] \<longrightarrow> unat (ls_min_us s) = Min (set ds) \<and> unat (ls_max_us s) = Max (set ds) \<and>
        unat (ls_last_us s) = last ds)"

lemma ls_refines_reset: "ls_refines (ls_reset s) []"
  by (simp add: ls_refines_def ls_reset_def)

lemma sum_list_bound: "\<forall>d \<in> set ds. d < (b :: nat) \<Longrightarrow> sum_list ds \<le> length ds * b"
  by (induction ds) fastforce+

text \<open>The fields after one sample, each on its own.\<close>

definition eff :: "u32 \<Rightarrow> u32 \<Rightarrow> u32" where
  "eff d x = (if x \<noteq> 0 then (if x < d then d - x else 0) else d)"

lemmas ls_if_distribs = if_distrib [of ls_samples] if_distrib [of ls_total_us]
  if_distrib [of ls_last_us] if_distrib [of ls_max_us] if_distrib [of ls_min_us]
  if_distrib [of ls_overruns] if_distrib [of ls_overrun_us] if_distrib [of ls_excluded_us]

lemma addSample_shape:
  "addSample s d x =
     (let e = eff d x;
          s = s\<lparr>ls_excluded_us := ls_excluded_us s + ucast x, ls_last_us := e,
                ls_min_us := (if ls_samples s = 0 \<or> e < ls_min_us s then e else ls_min_us s),
                ls_max_us := (if e > ls_max_us s then e else ls_max_us s),
                ls_samples := ls_samples s + 1, ls_total_us := ls_total_us s + ucast e\<rparr>
      in if ls_overrun_us s \<noteq> 0 \<and> e \<ge> ls_overrun_us s
         then s\<lparr>ls_overruns := ls_overruns s + 1\<rparr> else s)"
proof -
  define e where "e = eff d x"
  have 1: "(if x \<noteq> 0 then (s\<lparr>ls_excluded_us := ls_excluded_us s + ucast x\<rparr>,
        if x < d then d - x else 0) else (s, d)) =
      (s\<lparr>ls_excluded_us := ls_excluded_us s + ucast x\<rparr>, e)"
    by (cases "x = 0") (simp_all add: e_def eff_def)
  show ?thesis
    unfolding addSample_def 1 e_def [symmetric] prod.case
    by (cases s; cases "ls_samples s = 0"; cases "e < ls_min_us s"; cases "e > ls_max_us s")
      (simp_all add: Let_def)
qed

lemma addSample_fields:
  "ls_samples (addSample s d x) = ls_samples s + 1"
  "ls_total_us (addSample s d x) = ls_total_us s + ucast (eff d x)"
  "ls_last_us (addSample s d x) = eff d x"
  "ls_max_us (addSample s d x) = (if eff d x > ls_max_us s then eff d x else ls_max_us s)"
  "ls_min_us (addSample s d x) =
     (if ls_samples s = 0 \<or> eff d x < ls_min_us s then eff d x else ls_min_us s)"
  "ls_excluded_us (addSample s d x) = ls_excluded_us s + ucast x"
  "ls_overrun_us (addSample s d x) = ls_overrun_us s"
  "ls_overruns (addSample s d x) = ls_overruns s +
     of_bool (ls_overrun_us s \<noteq> 0 \<and> eff d x \<ge> ls_overrun_us s)"
  by (simp_all add: addSample_shape Let_def)

lemma unat_eff: "unat (eff d x) = effective_us (d, x)"
  by (auto simp: eff_def effective_us_def unat_sub word_less_nat_alt word_le_nat_alt unat_eq_0)

lemma ls_refines_add:
  assumes "ls_refines s ds" "Suc (length ds) < 2 ^ 32"
  shows "ls_refines (addSample s d x) (ds @ [effective_us (d, x)])"
proof -
  let ?e = "eff d x"
  note e = unat_eff [of d x]
  have lt: "effective_us (d, x) < 2 ^ 32" using unat_u32_lt [of ?e] unfolding e by simp
  have sum: "sum_list ds + effective_us (d, x) < 2 ^ LENGTH(64)"
  proof -
    have "sum_list (ds @ [effective_us (d, x)]) \<le> Suc (length ds) * 2 ^ 32"
      using sum_list_bound [of "ds @ [effective_us (d, x)]" "2 ^ 32"] assms(1) lt
      by (auto simp: ls_refines_def)
    also have "\<dots> < 2 ^ 32 * 2 ^ 32" using assms(2) by (intro mult_strict_right_mono) auto
    finally show ?thesis by simp
  qed
  let ?s = "addSample s d x"
  note f = addSample_fields [of s d x]
  have n: "unat (ls_samples s + 1) = Suc (length ds)"
    using assms by (simp add: ls_refines_def unat_word_ariths)
  have u: "unat (ucast ?e :: u64) = effective_us (d, x)"
    using unat_u32_lt [of ?e] unfolding e [symmetric]
    by (simp add: unsigned_ucast_eq take_bit_nat_eq_self_iff del: of_nat_unat)
  have t: "unat (ls_total_us ?s) = sum_list ds + effective_us (d, x)"
    using sum assms(1) unfolding f(2) by (simp add: ls_refines_def unat_word_ariths u)
  have M: "Max (set (ds @ [effective_us (d, x)])) =
      (if ds = [] then effective_us (d, x) else max (effective_us (d, x)) (Max (set ds)))"
    "Min (set (ds @ [effective_us (d, x)])) =
      (if ds = [] then effective_us (d, x) else min (effective_us (d, x)) (Min (set ds)))"
    by simp_all
  have mx: "unat (ls_max_us ?s) = Max (set (ds @ [effective_us (d, x)]))"
    using assms(1) unfolding f(4) M
    by (cases "ds = []") (simp_all add: ls_refines_def word_less_nat_alt e max_def del: Max_less_iff)
  have "ls_samples s = 0 \<longleftrightarrow> ds = []"
    using assms(1) by (auto simp: ls_refines_def unat_eq_0 [symmetric])
  then have mn: "unat (ls_min_us ?s) = Min (set (ds @ [effective_us (d, x)]))"
    using assms(1) unfolding f(5) M
    by (cases "ds = []") (simp_all add: ls_refines_def word_less_nat_alt e min_def del: Min_gr_iff Min_ge_iff)
  have "\<forall>k \<in> set (ds @ [effective_us (d, x)]). k < 2 ^ 32"
    using assms(1) lt by (simp add: ls_refines_def)
  then show ?thesis
    unfolding ls_refines_def mx mn t f(1) n f(3) e using assms(2) by simp
qed

lemma ls_refines_run:
  assumes "ls_refines s ds" "length ds + length samples < 2 ^ 32"
  shows "ls_refines (ls_run s samples) (ds @ map effective_us samples)"
  using assms
proof (induction samples arbitrary: s ds)
  case (Cons p samples)
  obtain d x where p: "p = (d, x)" by fastforce
  have "ls_refines (addSample s d x) (ds @ [effective_us p])"
    using Cons.prems by (simp add: p ls_refines_add)
  from Cons.IH [OF this] Cons.prems(2) show ?case by (simp add: ls_run_def p)
qed (simp add: ls_run_def)

text \<open>The overrun and exclusion counters are never cleared, and count every sample.\<close>

lemma ls_run_counters:
  "ls_excluded_us (ls_run s samples) = ls_excluded_us s + (\<Sum>p\<leftarrow>samples. ucast (snd p))"
  "ls_overruns (ls_run s samples) = ls_overruns s +
     of_nat (length (filter (\<lambda>(d, x). ls_overrun_us s \<noteq> 0 \<and> ls_overrun_us s \<le> eff d x) samples))"
proof (induction samples arbitrary: s)
  case (Cons p samples)
  {
    case 1
    show ?case using Cons.IH(1) [of "addSample s (fst p) (snd p)"]
      by (simp add: ls_run_def addSample_fields split_def algebra_simps)
  next
    case 2
    show ?case using Cons.IH(2) [of "addSample s (fst p) (snd p)"]
      by (simp add: ls_run_def addSample_fields split_def algebra_simps)
  }
qed (simp_all add: ls_run_def)

lemma mean_between:
  assumes "(ds :: nat list) \<noteq> []"
  shows "Min (set ds) \<le> sum_list ds div length ds" "sum_list ds div length ds \<le> Max (set ds)"
proof -
  have "(\<Sum>d\<leftarrow>ds. Min (set ds)) \<le> (\<Sum>d\<leftarrow>ds. d)" "(\<Sum>d\<leftarrow>ds. d) \<le> (\<Sum>d\<leftarrow>ds. Max (set ds))"
    by (rule sum_list_mono; simp)+
  then have "length ds * Min (set ds) \<le> sum_list ds" "sum_list ds \<le> length ds * Max (set ds)"
    by (simp_all add: sum_list_triv)
  then have "length ds * Min (set ds) div length ds \<le> sum_list ds div length ds"
    "sum_list ds div length ds \<le> length ds * Max (set ds) div length ds"
    using div_le_mono by blast+
  with assms show "Min (set ds) \<le> sum_list ds div length ds" "sum_list ds div length ds \<le> Max (set ds)"
    by simp_all
qed

lemma meanUs_refines:
  assumes "ls_refines s ds" "ds \<noteq> []"
  shows "unat (meanUs s) = sum_list ds div length ds"
proof -
  have s: "unat (ls_samples s) = length ds" "unat (ls_total_us s) = sum_list ds" "length ds < 2 ^ 32"
    and mx: "\<forall>d \<in> set ds. d < 2 ^ 32"
    using assms by (simp_all add: ls_refines_def)
  have "ls_samples s \<noteq> 0" using s(1) assms(2) by (auto simp: unat_eq_0)
  moreover have "unat (ucast (ls_samples s) :: u64) = length ds"
    using s(1,3) by (simp add: unsigned_ucast_eq take_bit_nat_eq_self_iff del: of_nat_unat)
  then have q: "unat (ls_total_us s div ucast (ls_samples s)) = sum_list ds div length ds"
    using s(2) by (simp add: unat_div_distrib)
  have "Max (set ds) < 2 ^ 32" using mx assms(2) by simp
  with mean_between(2) [OF assms(2)] have "sum_list ds div length ds < 2 ^ 32"
    by (rule le_less_trans)
  ultimately show ?thesis
    by (simp add: meanUs_def unsigned_ucast_eq q take_bit_nat_eq_self_iff del: of_nat_unat)
qed

section \<open>Properties\<close>

text \<open>After a reset the statistics are those of the samples taken since: the number of
  samples, the shortest, the longest, the last and the mean effective duration, with no
  counter wrapping for fewer than \<open>2 ^ 32\<close> samples of any size; the mean lies between the
  extremes. The overrun and excluded counters go on from before the reset.\<close>

theorem loop_stats_since_reset:
  fixes s :: loop_stats
  assumes "length samples < 2 ^ 32" "samples \<noteq> []"
  defines "s' \<equiv> ls_run (ls_reset s) samples" and "ds \<equiv> map effective_us samples"
  shows "unat (ls_samples s') = length samples \<and> unat (minUs s') = Min (set ds) \<and>
    unat (ls_max_us s') = Max (set ds) \<and> unat (ls_last_us s') = last ds \<and>
    unat (meanUs s') = sum_list ds div length ds \<and> minUs s' \<le> meanUs s' \<and> meanUs s' \<le> ls_max_us s' \<and>
    ls_excluded_us s' = ls_excluded_us s + (\<Sum>p\<leftarrow>samples. ucast (snd p))"
proof -
  have r: "ls_refines s' ds"
    using ls_refines_run [OF ls_refines_reset, of samples s] assms by (simp add: s'_def ds_def)
  have ne: "ds \<noteq> []" using assms(2) by (simp add: ds_def)
  have n: "unat (ls_samples s') = length ds" "unat (ls_min_us s') = Min (set ds)"
    "unat (ls_max_us s') = Max (set ds)" "unat (ls_last_us s') = last ds"
    using r ne by (simp_all add: ls_refines_def)
  then have "minUs s' = ls_min_us s'" using ne by (auto simp: minUs_def)
  moreover note meanUs_refines [OF r ne] mean_between [OF ne]
  moreover have "ls_excluded_us s' = ls_excluded_us s + (\<Sum>p\<leftarrow>samples. ucast (snd p))"
    by (simp add: s'_def ls_run_counters) (simp add: ls_reset_def)
  ultimately show ?thesis using n by (simp add: word_le_nat_alt ds_def)
qed

theorem loop_stats_since_reset_witness:
  "let s' = ls_run (ls_reset LoopStats) [(900, 0), (500, 700), (300, 100)]
   in unat (minUs s') = 0 \<and> unat (ls_max_us s') = 900 \<and> unat (meanUs s') = 366"
  using loop_stats_since_reset [of "[(900, 0), (500, 700), (300, 100)]" LoopStats]
  by (simp add: effective_us_def)

end
