(* ===== verification/Aes.thy ===== *)
theory Aes
  imports Prelude
begin

text \<open>
  lib/ff_core/aes.h and aes.cpp: the AES-128 forward cipher. An \<open>Aes128\<close> object is its
  expanded key of 176 bytes; a block is a list of 16 bytes, column-major as in the source.
\<close>

section \<open>Tables\<close>

type_synonym aes128 = byte_list

definition kAesBlockSize :: nat where [simp]: "kAesBlockSize = 16"
definition kAesKeySize :: nat where [simp]: "kAesKeySize = 16"
definition kAesRounds :: nat where [simp]: "kAesRounds = 10"

definition kSbox :: byte_list where
  "kSbox = [
    0x63, 0x7c, 0x77, 0x7b, 0xf2, 0x6b, 0x6f, 0xc5, 0x30, 0x01, 0x67, 0x2b, 0xfe, 0xd7, 0xab, 0x76,
    0xca, 0x82, 0xc9, 0x7d, 0xfa, 0x59, 0x47, 0xf0, 0xad, 0xd4, 0xa2, 0xaf, 0x9c, 0xa4, 0x72, 0xc0,
    0xb7, 0xfd, 0x93, 0x26, 0x36, 0x3f, 0xf7, 0xcc, 0x34, 0xa5, 0xe5, 0xf1, 0x71, 0xd8, 0x31, 0x15,
    0x04, 0xc7, 0x23, 0xc3, 0x18, 0x96, 0x05, 0x9a, 0x07, 0x12, 0x80, 0xe2, 0xeb, 0x27, 0xb2, 0x75,
    0x09, 0x83, 0x2c, 0x1a, 0x1b, 0x6e, 0x5a, 0xa0, 0x52, 0x3b, 0xd6, 0xb3, 0x29, 0xe3, 0x2f, 0x84,
    0x53, 0xd1, 0x00, 0xed, 0x20, 0xfc, 0xb1, 0x5b, 0x6a, 0xcb, 0xbe, 0x39, 0x4a, 0x4c, 0x58, 0xcf,
    0xd0, 0xef, 0xaa, 0xfb, 0x43, 0x4d, 0x33, 0x85, 0x45, 0xf9, 0x02, 0x7f, 0x50, 0x3c, 0x9f, 0xa8,
    0x51, 0xa3, 0x40, 0x8f, 0x92, 0x9d, 0x38, 0xf5, 0xbc, 0xb6, 0xda, 0x21, 0x10, 0xff, 0xf3, 0xd2,
    0xcd, 0x0c, 0x13, 0xec, 0x5f, 0x97, 0x44, 0x17, 0xc4, 0xa7, 0x7e, 0x3d, 0x64, 0x5d, 0x19, 0x73,
    0x60, 0x81, 0x4f, 0xdc, 0x22, 0x2a, 0x90, 0x88, 0x46, 0xee, 0xb8, 0x14, 0xde, 0x5e, 0x0b, 0xdb,
    0xe0, 0x32, 0x3a, 0x0a, 0x49, 0x06, 0x24, 0x5c, 0xc2, 0xd3, 0xac, 0x62, 0x91, 0x95, 0xe4, 0x79,
    0xe7, 0xc8, 0x37, 0x6d, 0x8d, 0xd5, 0x4e, 0xa9, 0x6c, 0x56, 0xf4, 0xea, 0x65, 0x7a, 0xae, 0x08,
    0xba, 0x78, 0x25, 0x2e, 0x1c, 0xa6, 0xb4, 0xc6, 0xe8, 0xdd, 0x74, 0x1f, 0x4b, 0xbd, 0x8b, 0x8a,
    0x70, 0x3e, 0xb5, 0x66, 0x48, 0x03, 0xf6, 0x0e, 0x61, 0x35, 0x57, 0xb9, 0x86, 0xc1, 0x1d, 0x9e,
    0xe1, 0xf8, 0x98, 0x11, 0x69, 0xd9, 0x8e, 0x94, 0x9b, 0x1e, 0x87, 0xe9, 0xce, 0x55, 0x28, 0xdf,
    0x8c, 0xa1, 0x89, 0x0d, 0xbf, 0xe6, 0x42, 0x68, 0x41, 0x99, 0x2d, 0x0f, 0xb0, 0x54, 0xbb, 0x16]"

definition kRcon :: byte_list where
  "kRcon = [0x00, 0x01, 0x02, 0x04, 0x08, 0x10, 0x20, 0x40, 0x80, 0x1b, 0x36]"

definition sbox :: "u8 \<Rightarrow> u8" where
  "sbox b = kSbox ! unat b"

definition xtime :: "u8 \<Rightarrow> u8" where
  "xtime a = push_bit 1 a XOR (drop_bit 7 a * 0x1b)"

section \<open>Key schedule\<close>

definition key_word :: "byte_list \<Rightarrow> nat \<Rightarrow> byte_list" where
  "key_word rk i =
     (let t = map (\<lambda>j. rk ! ((i - 1) * 4 + j)) [0..<4];
          t = (if i mod 4 = 0
               then [sbox (t ! 1) XOR kRcon ! (i div 4), sbox (t ! 2), sbox (t ! 3), sbox (t ! 0)]
               else t)
      in rk @ map (\<lambda>j. rk ! ((i - 4) * 4 + j) XOR t ! j) [0..<4])"

definition setKey :: "byte_list \<Rightarrow> aes128" where
  "setKey key = foldl key_word (take kAesKeySize key) [4..<4 * (kAesRounds + 1)]"

section \<open>Rounds\<close>

definition addRoundKey :: "aes128 \<Rightarrow> nat \<Rightarrow> byte_list \<Rightarrow> byte_list" where
  "addRoundKey rk round block =
     map (\<lambda>i. block ! i XOR rk ! (round * kAesBlockSize + i)) [0..<kAesBlockSize]"

definition subBytes :: "byte_list \<Rightarrow> byte_list" where
  "subBytes block = map sbox block"

definition shiftRows :: "byte_list \<Rightarrow> byte_list" where
  "shiftRows b =
     [b ! 0, b ! 5, b ! 10, b ! 15, b ! 4, b ! 9, b ! 14, b ! 3,
      b ! 8, b ! 13, b ! 2, b ! 7, b ! 12, b ! 1, b ! 6, b ! 11]"

fun mixColumns :: "byte_list \<Rightarrow> byte_list" where
  "mixColumns (a0 # a1 # a2 # a3 # b) =
     (let all = a0 XOR a1 XOR a2 XOR a3
      in (a0 XOR (all XOR xtime (a0 XOR a1))) # (a1 XOR (all XOR xtime (a1 XOR a2))) #
         (a2 XOR (all XOR xtime (a2 XOR a3))) # (a3 XOR (all XOR xtime (a3 XOR a0))) #
         mixColumns b)"
| "mixColumns b = b"

definition aes_round :: "aes128 \<Rightarrow> byte_list \<Rightarrow> nat \<Rightarrow> byte_list" where
  "aes_round rk block round =
     (let block = shiftRows (subBytes block);
          block = (if round \<noteq> kAesRounds then mixColumns block else block)
      in addRoundKey rk round block)"

definition encryptBlock :: "aes128 \<Rightarrow> byte_list \<Rightarrow> byte_list" where
  "encryptBlock rk block = foldl (aes_round rk) (addRoundKey rk 0 block) [1..<kAesRounds + 1]"

section \<open>Lemmas\<close>

lemma length_addRoundKey [simp]: "length (addRoundKey rk r b) = 16"
  by (simp add: addRoundKey_def)

lemma length_mixColumns [simp]: "length (mixColumns b) = length b"
  by (induction b rule: mixColumns.induct) (simp_all add: Let_def)

lemma length_aes_round [simp]: "length (aes_round rk b r) = 16"
  by (simp add: aes_round_def Let_def)

lemma length_encryptBlock [simp]: "length (encryptBlock rk b) = 16"
proof -
  have step: "length b = 16 \<Longrightarrow> length (foldl (aes_round rk) b is) = 16" for b "is"
    by (induction "is" arbitrary: b) simp_all
  show ?thesis unfolding encryptBlock_def by (rule step, rule length_addRoundKey)
qed

lemma length_key_word [simp]: "length (key_word rk i) = length rk + 4"
  by (simp add: key_word_def Let_def)

lemma length_setKey:
  assumes "length key = 16"
  shows "length (setKey key) = 176"
proof -
  have "length (foldl key_word rk is) = length rk + 4 * length is" for rk "is"
    by (induction "is" arbitrary: rk) simp_all
  with assms show ?thesis by (simp add: setKey_def)
qed

text \<open>Each step of a round can be undone, so a round is injective on blocks.\<close>

lemma xor_key_cancel: "(x :: u8) XOR k = y XOR k \<longleftrightarrow> x = y"
proof
  assume "x XOR k = y XOR k"
  then have "(x XOR k) XOR k = (y XOR k) XOR k" by (simp only:)
  then show "x = y" by (simp add: xor.assoc)
qed simp

lemma addRoundKey_inj:
  assumes "length a = 16" "length b = 16" "addRoundKey rk r a = addRoundKey rk r b"
  shows "a = b"
proof (rule nth_equalityI)
  fix i assume "i < length a"
  with assms(1) have i: "i < 16" by simp
  have "a ! i XOR rk ! (r * 16 + i) = b ! i XOR rk ! (r * 16 + i)"
    using arg_cong [OF assms(3), of "\<lambda>l. l ! i"] i by (simp add: addRoundKey_def)
  then show "a ! i = b ! i" by (simp add: xor_key_cancel)
qed (use assms in simp)

lemma length_kSbox: "length kSbox = 256"
  by (simp add: kSbox_def)

text \<open>Distinctness of a list of numbers by their binary digits, quick to evaluate.\<close>

fun digits_distinct :: "nat \<Rightarrow> int list \<Rightarrow> bool" where
  "digits_distinct 0 xs = (case xs of [] \<Rightarrow> True | x # ys \<Rightarrow> ys = [])"
| "digits_distinct (Suc k) xs \<longleftrightarrow>
     digits_distinct k (map (\<lambda>x. x div 2) (filter even xs)) \<and>
     digits_distinct k (map (\<lambda>x. x div 2) (filter odd xs))"

lemma digits_distinct_sound: "digits_distinct k xs \<Longrightarrow> distinct xs"
proof (induction k xs rule: digits_distinct.induct)
  case (2 k xs)
  then have "distinct (filter even xs)" "distinct (filter odd xs)"
    by (auto simp: distinct_map)
  moreover have "distinct xs" if "distinct (filter P xs)" "distinct (filter (\<lambda>x. \<not> P x) xs)"
    for P and xs :: "int list"
    using that by (induction xs) (auto split: if_splits)
  ultimately show ?case by blast
qed (auto split: list.splits)

lemma distinct_kSbox: "distinct kSbox"
proof -
  have "digits_distinct 8 (map uint kSbox)" by code_simp
  then have "distinct (map uint kSbox)" by (rule digits_distinct_sound)
  then show ?thesis by (simp add: distinct_map)
qed

lemma sbox_inj: "sbox a = sbox b \<longleftrightarrow> a = b"
proof
  assume "sbox a = sbox b"
  then have "unat a = unat b"
    using nth_eq_iff_index_eq [OF distinct_kSbox, of "unat a" "unat b"]
    by (simp add: sbox_def length_kSbox)
  then show "a = b" by (simp add: word_unat_eq_iff)
qed simp

lemma shiftRows_inj:
  assumes "length a = 16" "length b = 16" "shiftRows a = shiftRows b"
  shows "a = b"
proof -
  have "\<forall>i < 16. a ! i = b ! i"
    using assms(3) by (simp add: shiftRows_def All_less_Suc numeral_eq_Suc)
  with assms show ?thesis by (intro nth_equalityI) auto
qed

lemma xtime_if: "xtime a = push_bit 1 a XOR (if bit a 7 then 0x1b else 0)"
proof -
  have "drop_bit 7 a = (if bit a 7 then 1 else 0)"
  proof (rule bit_word_eqI)
    fix n assume "n < LENGTH(8)"
    then show "bit (drop_bit 7 a) n = bit (if bit a 7 then 1 else 0 :: u8) n"
      by (cases n) (auto simp: bit_simps dest: bit_imp_le_length)
  qed
  then have "drop_bit 7 a * 0x1b = (if bit a 7 then 0x1b else 0)" by simp
  then show ?thesis by (simp only: xtime_def)
qed

lemma xtime_xor: "xtime (a XOR b) = xtime a XOR xtime b"
  unfolding xtime_if push_bit_xor
  by (cases "bit a 7"; cases "bit b 7") (simp_all add: bit_xor_iff ac_simps)

lemma xtime_0 [simp]: "xtime 0 = 0"
  by (simp add: xtime_def)

text \<open>Two applications of MixColumns to a column, and four, which give the column back.\<close>

lemma mixColumns_twice:
  "mixColumns (mixColumns [a, b, c, d]) =
     [a XOR xtime (xtime (a XOR c)), b XOR xtime (xtime (b XOR d)),
      c XOR xtime (xtime (c XOR a)), d XOR xtime (xtime (d XOR b))]"
  by (simp add: Let_def xtime_xor ac_simps)

lemma xor_cancel: "(x :: u8) XOR (x XOR y) = y" "x XOR x = 0"
  by (simp_all flip: xor.assoc)

lemma mixColumns_column:
  "mixColumns (mixColumns (mixColumns (mixColumns [a, b, c, d]))) = [a, b, c, d]"
  by (simp only: mixColumns_twice xtime_xor) (simp add: ac_simps xor_cancel)

lemma mixColumns_append4:
  "length l = 4 \<Longrightarrow> mixColumns (l @ r) = mixColumns l @ mixColumns r"
  by (auto simp: length_Suc_conv numeral_eq_Suc Let_def)

lemma mixColumns_order4: "mixColumns (mixColumns (mixColumns (mixColumns b))) = b"
proof (induction b rule: mixColumns.induct)
  case (1 a0 a1 a2 a3 b)
  have "mixColumns (mixColumns (mixColumns (mixColumns ([a0, a1, a2, a3] @ b)))) =
      mixColumns (mixColumns (mixColumns (mixColumns [a0, a1, a2, a3]))) @
      mixColumns (mixColumns (mixColumns (mixColumns b)))"
    by (simp add: mixColumns_append4 del: mixColumns.simps append_Cons)
  then show ?case using 1 by (simp only: mixColumns_column append_Cons append_Nil)
qed simp_all

lemma mixColumns_inj: "mixColumns a = mixColumns b \<Longrightarrow> a = b"
  by (metis mixColumns_order4)

lemma aes_round_inj:
  assumes "length a = 16" "length b = 16" "aes_round rk a r = aes_round rk b r"
  shows "a = b"
proof -
  have len: "length (shiftRows c) = 16" for c by (simp add: shiftRows_def)
  have "(if r \<noteq> kAesRounds then mixColumns (shiftRows (subBytes a)) else shiftRows (subBytes a)) =
      (if r \<noteq> kAesRounds then mixColumns (shiftRows (subBytes b)) else shiftRows (subBytes b))"
    using assms(3) unfolding aes_round_def Let_def
    by (rule addRoundKey_inj [rotated 2]) (simp_all add: len)
  then have "shiftRows (subBytes a) = shiftRows (subBytes b)"
    using mixColumns_inj by (cases "r \<noteq> kAesRounds") auto
  then have "subBytes a = subBytes b"
    by (rule shiftRows_inj [rotated 2]) (use assms in \<open>simp_all add: subBytes_def\<close>)
  then show ?thesis
    unfolding subBytes_def by (rule map_injective) (simp add: inj_def sbox_inj)
qed

lemma aes_rounds_inj:
  "length a = 16 \<Longrightarrow> length b = 16 \<Longrightarrow>
     foldl (aes_round rk) a rs = foldl (aes_round rk) b rs \<Longrightarrow> a = b"
proof (induction rs arbitrary: a b)
  case (Cons r rs)
  have "aes_round rk a r = aes_round rk b r"
    by (rule Cons.IH) (use Cons.prems in simp_all)
  with Cons.prems(1,2) show ?case by (rule aes_round_inj)
qed simp

section \<open>Properties\<close>

text \<open>Under every expanded key the cipher is a permutation of the 16-byte blocks: no step
  of it, the table lookup, the row shift, the column mixing or the key addition, loses
  information.\<close>

theorem encryptBlock_permutation:
  "bij_betw (encryptBlock rk) {b. length b = kAesBlockSize} {b. length b = kAesBlockSize}"
proof -
  let ?B = "{b :: byte_list. length b = kAesBlockSize}"
  have "inj_on (encryptBlock rk) ?B"
  proof (rule inj_onI)
    fix a b assume ab: "a \<in> ?B" "b \<in> ?B" and eq: "encryptBlock rk a = encryptBlock rk b"
    have "addRoundKey rk 0 a = addRoundKey rk 0 b"
      using eq unfolding encryptBlock_def by (rule aes_rounds_inj [rotated 2]) simp_all
    then show "a = b" by (rule addRoundKey_inj [rotated 2]) (use ab in simp_all)
  qed
  moreover have "encryptBlock rk ` ?B \<subseteq> ?B" by auto
  moreover have "finite ?B"
    using finite_lists_length_eq [of "UNIV :: u8 set" kAesBlockSize] by simp
  ultimately show ?thesis
    using endo_inj_surj by (metis bij_betw_def)
qed

end
