(* ===== verification/Ccm.thy ===== *)
theory Ccm
  imports Aes
begin

text \<open>
  lib/ff_core/ccm.h and ccm.cpp: AES-CCM (RFC 3610). Buffers are byte lists of their exact
  length; a function that transforms a buffer in place returns the new contents. The C++ code
  shifts a 32-bit counter by \<open>8 * i\<close> for every byte \<open>i\<close> of the length field, which is undefined
  for \<open>i \<ge> 4\<close>, that is, for a nonce of less than 11 bytes; here such a byte is zero, and the
  properties are stated for nonces of 11 bytes or more (the frame cipher uses 13).
\<close>

section \<open>Operations\<close>

definition paramsValid :: "nat \<Rightarrow> nat \<Rightarrow> nat \<Rightarrow> nat \<Rightarrow> bool" where
  "paramsValid nonce_len data_len aad_len tag_len =
     (if nonce_len < 7 \<or> nonce_len > 13 then False
      else if tag_len < 4 \<or> tag_len > 16 \<or> tag_len mod 2 \<noteq> 0 then False
      else if aad_len \<ge> 0xFF00 then False
      else let l = 15 - nonce_len in if l < 8 then data_len < 2 ^ (8 * l) else True)"

text \<open>The running CBC-MAC: the block under construction and how many bytes of it are filled.\<close>

record cbc_mac =
  cm_x :: byte_list
  cm_fill :: nat

definition CbcMac :: cbc_mac where
  "CbcMac = \<lparr>cm_x = replicate kAesBlockSize 0, cm_fill = 0\<rparr>"

definition mac_byte :: "aes128 \<Rightarrow> cbc_mac \<Rightarrow> u8 \<Rightarrow> cbc_mac" where
  "mac_byte aes m b =
     (let x = (cm_x m)[cm_fill m := cm_x m ! cm_fill m XOR b];
          fill = cm_fill m + 1
      in if fill = kAesBlockSize then \<lparr>cm_x = encryptBlock aes x, cm_fill = 0\<rparr>
         else \<lparr>cm_x = x, cm_fill = fill\<rparr>)"

definition mac_feed :: "aes128 \<Rightarrow> cbc_mac \<Rightarrow> byte_list \<Rightarrow> cbc_mac" where
  "mac_feed aes m data = foldl (mac_byte aes) m data"

definition mac_flush :: "aes128 \<Rightarrow> cbc_mac \<Rightarrow> cbc_mac" where
  "mac_flush aes m =
     (if cm_fill m \<noteq> 0 then \<lparr>cm_x = encryptBlock aes (cm_x m), cm_fill = 0\<rparr> else m)"

text \<open>The last \<open>l\<close> bytes of a block: a number, most significant byte first.\<close>

definition be_bytes :: "nat \<Rightarrow> nat \<Rightarrow> byte_list" where
  "be_bytes l n = rev (map (\<lambda>i. of_nat (n div 2 ^ (8 * i))) [0..<l])"

definition buildCtrBlock :: "byte_list \<Rightarrow> u32 \<Rightarrow> byte_list" where
  "buildCtrBlock nonce counter =
     (let l = 15 - length nonce in of_nat (l - 1) # nonce @ be_bytes l (unat counter))"

definition buildB0 :: "byte_list \<Rightarrow> nat \<Rightarrow> nat \<Rightarrow> nat \<Rightarrow> byte_list" where
  "buildB0 nonce aad_len data_len tag_len =
     (let l = 15 - length nonce
      in ((if aad_len > 0 then 0x40 else 0x00) OR push_bit 3 (of_nat ((tag_len - 2) div 2)) OR of_nat (l - 1))
         # nonce @ be_bytes l data_len)"

definition computeMac ::
  "aes128 \<Rightarrow> byte_list \<Rightarrow> byte_list \<Rightarrow> byte_list \<Rightarrow> nat \<Rightarrow> byte_list" where
  "computeMac aes nonce aad plaintext tag_len =
     (let mac = mac_feed aes CbcMac (buildB0 nonce (length aad) (length plaintext) tag_len);
          mac = (if length aad > 0
                 then let mac = mac_feed aes mac [of_nat (length aad div 2 ^ 8), of_nat (length aad mod 256)];
                          mac = mac_feed aes mac aad
                      in mac_flush aes mac
                 else mac);
          mac = mac_feed aes mac plaintext;
          mac = mac_flush aes mac
      in cm_x mac)"

definition xor_bytes :: "byte_list \<Rightarrow> byte_list \<Rightarrow> byte_list" where
  "xor_bytes = map2 (XOR)"

function ctr_from :: "aes128 \<Rightarrow> byte_list \<Rightarrow> u32 \<Rightarrow> byte_list \<Rightarrow> byte_list" where
  "ctr_from aes nonce counter data =
     (if data = [] then []
      else let ks = encryptBlock aes (buildCtrBlock nonce counter)
           in xor_bytes (take kAesBlockSize data) ks @
              ctr_from aes nonce (counter + 1) (drop kAesBlockSize data))"
  by auto
termination by (relation "measure (\<lambda>(aes, nonce, counter, data). length data)") auto

declare ctr_from.simps [simp del]

definition ctrCrypt :: "aes128 \<Rightarrow> byte_list \<Rightarrow> byte_list \<Rightarrow> byte_list" where
  "ctrCrypt aes nonce data = ctr_from aes nonce 1 data"

definition maskTag :: "aes128 \<Rightarrow> byte_list \<Rightarrow> byte_list \<Rightarrow> nat \<Rightarrow> byte_list" where
  "maskTag aes nonce mac tag_len =
     xor_bytes (take tag_len mac) (encryptBlock aes (buildCtrBlock nonce 0))"

definition ccmEncrypt ::
  "aes128 \<Rightarrow> byte_list \<Rightarrow> byte_list \<Rightarrow> byte_list \<Rightarrow> nat \<Rightarrow> (byte_list \<times> byte_list) option" where
  "ccmEncrypt aes nonce aad data tag_len =
     (if \<not> paramsValid (length nonce) (length data) (length aad) tag_len then None
      else let mac = maskTag aes nonce (computeMac aes nonce aad data tag_len) tag_len
           in Some (ctrCrypt aes nonce data, mac))"

definition tags_differ :: "byte_list \<Rightarrow> byte_list \<Rightarrow> u8" where
  "tags_differ mac tag = fold (\<lambda>(a, b) diff. diff OR (a XOR b)) (zip mac tag) 0"

text \<open>The buffer after the call, and whether the tag verified.\<close>

definition ccmDecrypt ::
  "aes128 \<Rightarrow> byte_list \<Rightarrow> byte_list \<Rightarrow> byte_list \<Rightarrow> byte_list \<Rightarrow> byte_list \<times> bool" where
  "ccmDecrypt aes nonce aad data tag =
     (if \<not> paramsValid (length nonce) (length data) (length aad) (length tag) then (data, False)
      else let data = ctrCrypt aes nonce data;
               mac = maskTag aes nonce (computeMac aes nonce aad data (length tag)) (length tag)
           in (data, tags_differ mac tag = 0))"

section \<open>Lemmas\<close>

lemma length_xor_bytes [simp]: "length (xor_bytes a b) = min (length a) (length b)"
  by (simp add: xor_bytes_def)

lemma xor_bytes_cancel: "length a \<le> length k \<Longrightarrow> xor_bytes (xor_bytes a k) k = a"
proof (induction a k rule: list_induct2')
  case (4 x a y k)
  then show ?case by (simp add: xor_bytes_def xor.assoc)
qed (simp_all add: xor_bytes_def)

lemma ctr_from_Nil [simp]: "ctr_from aes nonce c [] = []"
  by (simp add: ctr_from.simps)

lemma ctr_from_step:
  "data \<noteq> [] \<Longrightarrow> ctr_from aes nonce c data =
     xor_bytes (take 16 data) (encryptBlock aes (buildCtrBlock nonce c)) @
     ctr_from aes nonce (c + 1) (drop 16 data)"
  by (subst ctr_from.simps) (simp add: Let_def)

lemma length_ctr_from [simp]: "length (ctr_from aes nonce c data) = length data"
proof (induction aes nonce c data rule: ctr_from.induct)
  case (1 aes nonce c data)
  then show ?case
    by (cases "data = []") (simp_all add: ctr_from_step min_def)
qed

lemma length_ctrCrypt [simp]: "length (ctrCrypt aes nonce data) = length data"
  by (simp add: ctrCrypt_def)

text \<open>CTR is its own inverse, block by block.\<close>

lemma ctr_from_twice: "ctr_from aes nonce c (ctr_from aes nonce c data) = data"
proof (induction aes nonce c data rule: ctr_from.induct)
  case (1 aes nonce c data)
  show ?case
  proof (cases "data = []")
    case False
    let ?ks = "encryptBlock aes (buildCtrBlock nonce c)"
    let ?h = "xor_bytes (take 16 data) ?ks" and ?r = "ctr_from aes nonce (c + 1) (drop 16 data)"
    have once: "ctr_from aes nonce c data = ?h @ ?r" using False by (rule ctr_from_step)
    have cut: "take 16 (?h @ ?r) = ?h" "drop 16 (?h @ ?r) = ?r"
      by (cases "length data \<le> 16"; simp)+
    have "length (?h @ ?r) = length data" by simp
    with False have "?h @ ?r \<noteq> []" by (metis length_0_conv)
    from ctr_from_step [OF this, of aes nonce c]
    have "ctr_from aes nonce c (?h @ ?r) = xor_bytes ?h ?ks @ ctr_from aes nonce (c + 1) ?r"
      unfolding cut .
    also have "\<dots> = take 16 data @ drop 16 data"
      using 1 [OF False] by (simp add: xor_bytes_cancel)
    finally show ?thesis by (simp add: once)
  qed simp
qed

lemma ctrCrypt_twice: "ctrCrypt aes nonce (ctrCrypt aes nonce data) = data"
  by (simp add: ctrCrypt_def ctr_from_twice)

lemma length_be_bytes [simp]: "length (be_bytes l n) = l"
  by (simp add: be_bytes_def)

lemma length_mac_byte: "length (cm_x m) = 16 \<Longrightarrow> length (cm_x (mac_byte aes m b)) = 16"
  by (simp add: mac_byte_def Let_def)

lemma length_mac_feed: "length (cm_x m) = 16 \<Longrightarrow> length (cm_x (mac_feed aes m data)) = 16"
  unfolding mac_feed_def by (induction data arbitrary: m) (simp_all add: length_mac_byte)

lemma length_mac_flush: "length (cm_x m) = 16 \<Longrightarrow> length (cm_x (mac_flush aes m)) = 16"
  by (simp add: mac_flush_def)

lemma length_computeMac [simp]: "length (computeMac aes nonce aad p t) = 16"
  by (simp add: computeMac_def Let_def length_mac_flush length_mac_feed CbcMac_def)

lemma length_maskTag [simp]: "length (maskTag aes nonce (computeMac aes nonce' aad p t) n) = min n 16"
  by (simp add: maskTag_def min.commute)

text \<open>The constant-time comparison finds a difference exactly when there is one.\<close>

lemma fold_or_zero:
  "fold (\<lambda>(a, b) diff. diff OR (a XOR b)) xs d = (0 :: u8) \<longleftrightarrow> d = 0 \<and> (\<forall>(a, b) \<in> set xs. a = b)"
proof (induction xs arbitrary: d)
  case (Cons p xs)
  obtain a b where p: "p = (a, b)" by fastforce
  have "a XOR b = 0 \<longleftrightarrow> a = b"
    using xor_key_cancel [of a b b] by simp
  with Cons show ?case by (auto simp: p or_eq_0_iff)
qed simp

lemma tags_differ_iff:
  assumes "length mac = length tag"
  shows "tags_differ mac tag = 0 \<longleftrightarrow> mac = tag"
proof -
  have "tags_differ mac tag = 0 \<longleftrightarrow> list_all2 (=) mac tag"
    using assms by (simp add: tags_differ_def fold_or_zero list_all2_iff)
  then show ?thesis by (simp add: list.rel_eq)
qed

lemma ccm_accepts_iff:
  assumes "11 \<le> length nonce"
  shows "ccmDecrypt aes nonce aad c tag = (p, True) \<longleftrightarrow>
    ccmEncrypt aes nonce aad p (length tag) = Some (c, tag)"
proof (cases "paramsValid (length nonce) (length c) (length aad) (length tag)")
  case True
  then have t: "length tag \<le> 16" by (simp add: paramsValid_def split: if_splits)
  let ?q = "ctrCrypt aes nonce c"
  have d: "ccmDecrypt aes nonce aad c tag =
      (?q, maskTag aes nonce (computeMac aes nonce aad ?q (length tag)) (length tag) = tag)"
    using True t by (simp add: ccmDecrypt_def Let_def tags_differ_iff)
  show ?thesis
  proof
    assume "ccmDecrypt aes nonce aad c tag = (p, True)"
    with True d show "ccmEncrypt aes nonce aad p (length tag) = Some (c, tag)"
      by (auto simp: ccmEncrypt_def Let_def ctrCrypt_twice)
  next
    assume e: "ccmEncrypt aes nonce aad p (length tag) = Some (c, tag)"
    then have "c = ctrCrypt aes nonce p" by (auto simp: ccmEncrypt_def Let_def split: if_splits)
    with e d show "ccmDecrypt aes nonce aad c tag = (p, True)"
      by (auto simp: ccmEncrypt_def Let_def ctrCrypt_twice split: if_splits)
  qed
next
  case False
  then show ?thesis by (auto simp: ccmDecrypt_def ccmEncrypt_def Let_def split: if_splits)
qed

section \<open>Properties\<close>

text \<open>Decryption accepts exactly what encryption makes: a ciphertext and tag verify under
  a key, a nonce and associated data if and only if they are the encryption of the plaintext
  that decryption leaves in the buffer, for every message length the parameters allow and every
  even tag length from 4 to 16.\<close>

theorem ccmDecrypt_iff_ccmEncrypt:
  assumes "11 \<le> length nonce"
  shows "ccmDecrypt aes nonce aad c tag = (p, True) \<longleftrightarrow>
    ccmEncrypt aes nonce aad p (length tag) = Some (c, tag)"
  using assms by (rule ccm_accepts_iff)

theorem ccmDecrypt_iff_ccmEncrypt_witness:
  "let nonce = replicate 13 7; aes = setKey (replicate 16 1);
       (c, tag) = the (ccmEncrypt aes nonce [1, 2] [5, 6, 7] 6)
   in 11 \<le> length nonce \<and> ccmDecrypt aes nonce [1, 2] c tag = ([5, 6, 7], True)"
proof -
  let ?nonce = "replicate 13 (7 :: u8)" and ?aes = "setKey (replicate 16 1)"
  have n: "11 \<le> length ?nonce" by simp
  obtain c tag where e: "ccmEncrypt ?aes ?nonce [1, 2] [5, 6, 7] 6 = Some (c, tag)"
    by (simp add: ccmEncrypt_def paramsValid_def)
  then have "length tag = 6"
    by (auto simp: ccmEncrypt_def Let_def split: if_splits)
  with ccmDecrypt_iff_ccmEncrypt [OF n, of ?aes "[1, 2]" c tag "[5, 6, 7]"] e n show ?thesis by simp
qed

end
