(* ===== verification/Sha256.thy ===== *)
theory Sha256
  imports Wire_Format "HOL-Library.While_Combinator"
begin

text \<open>
  lib/ff_core/sha256.h and sha256.cpp: the incremental SHA-256 that derives the group key, and
  its refinement of the one-shot definition: pad the message, cut it into 64-byte blocks, and
  fold the compression function over them. The padding loop runs until the buffer holds 56
  bytes; it is a \<open>while\<close> that is shown to end.
\<close>

section \<open>State and compression\<close>

text \<open>The round constants of sha256.cpp, row by row, in decimal.\<close>

definition kK :: "u32 list" where
  "kK = [
    1116352408, 1899447441, 3049323471, 3921009573, 961987163, 1508970993, 2453635748, 2870763221,
    3624381080, 310598401, 607225278, 1426881987, 1925078388, 2162078206, 2614888103, 3248222580,
    3835390401, 4022224774, 264347078, 604807628, 770255983, 1249150122, 1555081692, 1996064986,
    2554220882, 2821834349, 2952996808, 3210313671, 3336571891, 3584528711, 113926993, 338241895,
    666307205, 773529912, 1294757372, 1396182291, 1695183700, 1986661051, 2177026350, 2456956037,
    2730485921, 2820302411, 3259730800, 3345764771, 3516065817, 3600352804, 4094571909, 275423344,
    430227734, 506948616, 659060556, 883997877, 958139571, 1322822218, 1537002063, 1747873779,
    1955562222, 2024104815, 2227730452, 2361852424, 2428436474, 2756734187, 3204031479, 3329325298]"

definition rotr :: "u32 \<Rightarrow> nat \<Rightarrow> u32" where
  "rotr x n = drop_bit n x OR push_bit (32 - n) x"

record sha256_ctx =
  sh_h :: "u32 list"
  sh_buf :: byte_list
  sh_buf_len :: nat
  sh_total_bits :: u64

definition sha_init :: "u32 list" where
  "sha_init = [0x6a09e667, 0xbb67ae85, 0x3c6ef372, 0xa54ff53a,
     0x510e527f, 0x9b05688c, 0x1f83d9ab, 0x5be0cd19]"

text \<open>A reset leaves the buffer as it is; a new context has an arbitrary one of 64 bytes.\<close>

definition sha_reset :: "sha256_ctx \<Rightarrow> sha256_ctx" where
  "sha_reset s = s\<lparr>sh_h := sha_init, sh_buf_len := 0, sh_total_bits := 0\<rparr>"

definition block_word :: "byte_list \<Rightarrow> nat \<Rightarrow> u32" where
  "block_word block i =
     push_bit 24 (ucast (block ! (i * 4))) OR push_bit 16 (ucast (block ! (i * 4 + 1))) OR
     push_bit 8 (ucast (block ! (i * 4 + 2))) OR ucast (block ! (i * 4 + 3))"

definition schedule_word :: "u32 list \<Rightarrow> nat \<Rightarrow> u32 list" where
  "schedule_word w i =
     (let s0 = rotr (w ! (i - 15)) 7 XOR rotr (w ! (i - 15)) 18 XOR drop_bit 3 (w ! (i - 15));
          s1 = rotr (w ! (i - 2)) 17 XOR rotr (w ! (i - 2)) 19 XOR drop_bit 10 (w ! (i - 2))
      in w @ [w ! (i - 16) + s0 + w ! (i - 7) + s1])"

definition sha_schedule :: "byte_list \<Rightarrow> u32 list" where
  "sha_schedule block = foldl schedule_word (map (block_word block) [0..<16]) [16..<64]"

fun sha_round :: "u32 list \<Rightarrow> u32 list \<Rightarrow> nat \<Rightarrow> u32 list" where
  "sha_round w [a, b, c, d, e, f, g, hh] i =
     (let s1 = rotr e 6 XOR rotr e 11 XOR rotr e 25;
          ch = (e AND f) XOR (NOT e AND g);
          t1 = hh + s1 + ch + kK ! i + w ! i;
          s0 = rotr a 2 XOR rotr a 13 XOR rotr a 22;
          maj = (a AND b) XOR (a AND c) XOR (b AND c);
          t2 = s0 + maj
      in [t1 + t2, a, b, c, d + t1, e, f, g])"
| "sha_round w v i = v"

definition compress :: "u32 list \<Rightarrow> byte_list \<Rightarrow> u32 list" where
  "compress h block = map2 (+) h (foldl (sha_round (sha_schedule block)) h [0..<64])"

section \<open>Incremental hashing\<close>

text \<open>One turn of the copying loop; the buffer is never full between turns.\<close>

definition sha_take :: "sha256_ctx \<Rightarrow> byte_list \<Rightarrow> sha256_ctx \<times> byte_list" where
  "sha_take s data =
     (let n = (if 64 - sh_buf_len s < length data then 64 - sh_buf_len s else length data);
          s = s\<lparr>sh_buf := take (sh_buf_len s) (sh_buf s) @ take n data @
                           drop (sh_buf_len s + n) (sh_buf s),
                sh_buf_len := sh_buf_len s + n\<rparr>;
          s = (if sh_buf_len s = 64 then s\<lparr>sh_h := compress (sh_h s) (sh_buf s), sh_buf_len := 0\<rparr>
               else s)
      in (s, drop n data))"

function sha_absorb :: "sha256_ctx \<Rightarrow> byte_list \<Rightarrow> sha256_ctx" where
  "sha_absorb s data =
     (if data = [] \<or> 64 \<le> sh_buf_len s then s
      else let (s, data) = sha_take s data in sha_absorb s data)"
  by auto
termination
  by (relation "measure (\<lambda>(s, data). length data)") (auto simp: sha_take_def Let_def)

declare sha_absorb.simps [simp del]

definition sha_update :: "sha256_ctx \<Rightarrow> byte_list \<Rightarrow> sha256_ctx" where
  "sha_update s data =
     sha_absorb (s\<lparr>sh_total_bits := sh_total_bits s + of_nat (length data) * 8\<rparr>) data"

definition len_be :: "u64 \<Rightarrow> byte_list" where
  "len_be bits = map (\<lambda>i. ucast (drop_bit (56 - 8 * i) bits)) [0..<8]"

definition word_be :: "u32 \<Rightarrow> byte_list" where
  "word_be w = [ucast (drop_bit 24 w), ucast (drop_bit 16 w), ucast (drop_bit 8 w), ucast w]"

definition sha_finish :: "sha256_ctx \<Rightarrow> (sha256_ctx \<times> byte_list) option" where
  "sha_finish s =
     (let bits = sh_total_bits s;
          s = sha_update s [0x80]
      in map_option
           (\<lambda>s. let s = s\<lparr>sh_buf := take 56 (sh_buf s) @ len_be bits\<rparr>;
                    s = s\<lparr>sh_h := compress (sh_h s) (sh_buf s), sh_buf_len := 0\<rparr>
                in (s, concat (map word_be (sh_h s))))
           (while_option (\<lambda>s. sh_buf_len s \<noteq> 56) (\<lambda>s. sha_update s [0]) s))"

definition sha256 :: "sha256_ctx \<Rightarrow> byte_list \<Rightarrow> byte_list option" where
  "sha256 s data = map_option snd (sha_finish (sha_update (sha_reset s) data))"

section \<open>The one-shot definition\<close>

function sha_blocks :: "byte_list \<Rightarrow> byte_list list" where
  "sha_blocks m = (if length m < 64 then [] else take 64 m # sha_blocks (drop 64 m))"
  by auto
termination by (relation "measure length") auto

declare sha_blocks.simps [simp del]

definition sha_pad :: "byte_list \<Rightarrow> byte_list" where
  "sha_pad m =
     m @ [0x80] @ replicate ((119 - length m mod 64) mod 64) 0 @ len_be (of_nat (length m) * 8)"

definition sha_digest :: "byte_list \<Rightarrow> byte_list" where
  "sha_digest m = concat (map word_be (foldl compress sha_init (sha_blocks (sha_pad m))))"

section \<open>Lemmas\<close>

text \<open>A context stands for the message it has absorbed.\<close>

definition sha_rep :: "sha256_ctx \<Rightarrow> byte_list \<Rightarrow> bool" where
  "sha_rep s m \<longleftrightarrow> length (sh_buf s) = 64 \<and> sh_buf_len s < 64 \<and>
     (\<exists>bs. 64 dvd length bs \<and> m = bs @ take (sh_buf_len s) (sh_buf s) \<and>
        sh_h s = foldl compress sha_init (sha_blocks bs))"

lemma sha_blocks_short [simp]: "length m < 64 \<Longrightarrow> sha_blocks m = []"
  by (simp add: sha_blocks.simps)

lemma sha_blocks_block: "length b = 64 \<Longrightarrow> sha_blocks (b @ m) = b # sha_blocks m"
  by (simp add: sha_blocks.simps [of "b @ m"])

lemma sha_blocks_append:
  "64 dvd length a \<Longrightarrow> sha_blocks (a @ m) = sha_blocks a @ sha_blocks m"
proof (induction a rule: sha_blocks.induct)
  case (1 a)
  show ?case
  proof (cases "length a < 64")
    case True
    with 1(2) have "a = []" by (auto dest: dvd_imp_le)
    then show ?thesis by simp
  next
    case False
    then have l: "length (take 64 a) = 64" by simp
    have "64 dvd length (drop 64 a)" using 1(2) False by (simp add: dvd_diff_nat)
    with 1(1) [OF False] have IH: "sha_blocks (drop 64 a @ m) = sha_blocks (drop 64 a) @ sha_blocks m" .
    have "sha_blocks (a @ m) = sha_blocks (take 64 a @ (drop 64 a @ m))"
      by (metis append.assoc append_take_drop_id)
    also have "\<dots> = take 64 a # sha_blocks (drop 64 a) @ sha_blocks m"
      by (simp only: sha_blocks_block [OF l] IH)
    finally show ?thesis
      using sha_blocks_block [OF l, of "drop 64 a"] by simp
  qed
qed

lemma sha_rep_take:
  assumes "sha_rep s m" "data \<noteq> []" "sha_take s data = (s', data')"
  shows "\<exists>d. data = d @ data' \<and> d \<noteq> [] \<and> sha_rep s' (m @ d)"
proof -
  obtain bs where l: "length (sh_buf s) = 64" "sh_buf_len s < 64"
    and bs: "64 dvd length bs" "m = bs @ take (sh_buf_len s) (sh_buf s)"
      "sh_h s = foldl compress sha_init (sha_blocks bs)"
    using assms(1) by (auto simp: sha_rep_def)
  define n where "n = min (64 - sh_buf_len s) (length data)"
  define d where "d = take n data"
  define B where "B = take (sh_buf_len s) (sh_buf s) @ d @ drop (sh_buf_len s + n) (sh_buf s)"
  have n: "(if 64 - sh_buf_len s < length data then 64 - sh_buf_len s else length data) = n"
    "0 < n" "length d = n" "sh_buf_len s + n \<le> 64"
    using assms(2) l by (auto simp: n_def d_def)
  have s': "data' = drop n data" "s' = (let s = s\<lparr>sh_buf := B, sh_buf_len := sh_buf_len s + n\<rparr>
      in if sh_buf_len s = 64 then s\<lparr>sh_h := compress (sh_h s) (sh_buf s), sh_buf_len := 0\<rparr> else s)"
    using assms(3) unfolding sha_take_def n(1) by (simp_all add: Let_def B_def d_def)
  have data: "data = d @ data'" "d \<noteq> []" using n s'(1) by (auto simp: d_def)
  have lb: "length B = 64" using l n by (simp add: B_def)
  have tk: "take (sh_buf_len s + n) B = take (sh_buf_len s) (sh_buf s) @ d"
    using l n(3) by (simp add: B_def)
  have "sha_rep s' (m @ d)"
  proof (cases "sh_buf_len s + n = 64")
    case True
    then have "m @ d = bs @ B" using tk lb bs(2) by simp
    moreover have "sh_buf s' = B" "sh_buf_len s' = 0" "sh_h s' = compress (sh_h s) B"
      using True by (simp_all add: s'(2))
    moreover have "compress (sh_h s) B = foldl compress sha_init (sha_blocks (bs @ B))"
      using bs(3) sha_blocks_append [OF bs(1), of B] sha_blocks_block [OF lb, of "[]"] by simp
    moreover have "64 dvd length (bs @ B)" using bs(1) lb by simp
    ultimately show ?thesis unfolding sha_rep_def using lb by auto
  next
    case False
    then have "sh_buf s' = B" "sh_buf_len s' = sh_buf_len s + n" "sh_h s' = sh_h s"
      by (simp_all add: s'(2))
    then show ?thesis
      unfolding sha_rep_def using False bs lb n(4) tk by auto
  qed
  with data show ?thesis by blast
qed

lemma sha_rep_absorb: "sha_rep s m \<Longrightarrow> sha_rep (sha_absorb s data) (m @ data)"
proof (induction s data arbitrary: m rule: sha_absorb.induct)
  case (1 s data)
  show ?case
  proof (cases "data = []")
    case False
    obtain s' data' where t: "sha_take s data = (s', data')" by fastforce
    from sha_rep_take [OF 1(2) False t] obtain d where d: "data = d @ data'" "sha_rep s' (m @ d)" by blast
    have c: "\<not> (data = [] \<or> 64 \<le> sh_buf_len s)" using 1(2) False by (simp add: sha_rep_def)
    then have "sha_absorb s data = sha_absorb s' data'"
      by (subst sha_absorb.simps) (simp only: t Let_def prod.case if_False)
    with 1(1) [OF c t [symmetric] refl d(2)] d(1) show ?thesis by simp
  qed (use 1(2) in \<open>simp add: sha_absorb.simps\<close>)
qed

lemma sha_rep_update: "sha_rep s m \<Longrightarrow> sha_rep (sha_update s data) (m @ data)"
  unfolding sha_update_def by (rule sha_rep_absorb) (simp add: sha_rep_def)

lemma sha_rep_reset: "length (sh_buf s) = 64 \<Longrightarrow> sha_rep (sha_reset s) []"
  by (simp add: sha_rep_def sha_reset_def)

lemma sha_rep_buf_len:
  assumes "sha_rep s m"
  shows "sh_buf_len s = length m mod 64"
proof -
  from assms obtain bs where "64 dvd length bs" "m = bs @ take (sh_buf_len s) (sh_buf s)"
    "length (sh_buf s) = 64" "sh_buf_len s < 64"
    by (auto simp: sha_rep_def)
  then have "length m = length bs + sh_buf_len s" "64 dvd length bs" by auto
  then show ?thesis using \<open>sh_buf_len s < 64\<close> by (auto elim!: dvdE)
qed

lemma sha_update_bits: "sh_total_bits (sha_update s data) = sh_total_bits s + of_nat (length data) * 8"
proof -
  have "sh_total_bits (sha_absorb s data) = sh_total_bits s" for s data
  proof (induction s data rule: sha_absorb.induct)
    case (1 s data)
    obtain s' data' where t: "sha_take s data = (s', data')" by fastforce
    then have "sh_total_bits s' = sh_total_bits s" by (auto simp: sha_take_def Let_def split: if_splits)
    with 1 t show ?case by (subst sha_absorb.simps) (auto simp: Let_def)
  qed
  then show ?thesis by (simp add: sha_update_def)
qed

lemma pad_mod:
  "(x :: nat) < 64 \<Longrightarrow> (120 - x) mod 64 = (if x \<le> 56 then 56 - x else 120 - x)"
  by (cases "x \<le> 56") (simp_all add: mod_if)

lemma pad_mod_Suc: "(x :: nat) < 64 \<Longrightarrow> (119 - x) mod 64 = (120 - Suc x mod 64) mod 64"
  by (cases "x = 63") (simp_all add: mod_Suc)

lemma pad_mod_pred:
  assumes "(x :: nat) < 64" "Suc n = (120 - x) mod 64"
  shows "n = (120 - Suc x mod 64) mod 64"
proof -
  consider "x \<le> 55" | "x = 56" | "56 < x" "x < 63" | "x = 63" using assms(1) by linarith
  then show ?thesis
  proof cases
    case 1
    then have "(119 - x) mod 64 = 55 - x" by (simp add: mod_if)
    with 1 assms show ?thesis by (simp add: pad_mod)
  qed (use assms in \<open>simp_all add: pad_mod\<close>)
qed

text \<open>The padding loop ends, after as many zeros as bring the buffer to 56 bytes.\<close>

lemma sha_pad_loop:
  assumes "sha_rep s m" "n = (120 - length m mod 64) mod 64"
  shows "\<exists>s'. while_option (\<lambda>s. sh_buf_len s \<noteq> 56) (\<lambda>s. sha_update s [0]) s = Some s' \<and>
    sha_rep s' (m @ replicate n 0) \<and> sh_buf_len s' = 56"
  using assms
proof (induction n arbitrary: s m)
  case 0
  have "length m mod 64 < 64" by simp
  with 0(2) have "length m mod 64 = 56" by (simp add: pad_mod split: if_splits)
  with sha_rep_buf_len [OF 0(1)] 0(1) show ?case by (subst while_option_unfold) simp
next
  case (Suc n)
  have lt: "length m mod 64 < 64" by simp
  with Suc.prems(2) have ne: "length m mod 64 \<noteq> 56" by auto
  have n: "n = (120 - length (m @ [0 :: u8]) mod 64) mod 64"
    using pad_mod_pred [OF lt Suc.prems(2)] by (simp add: mod_Suc_eq)
  have "sha_rep (sha_update s [0]) (m @ [0])" using Suc.prems(1) by (rule sha_rep_update)
  from Suc.IH [OF this n] obtain s' where
    "while_option (\<lambda>s. sh_buf_len s \<noteq> 56) (\<lambda>s. sha_update s [0]) (sha_update s [0]) = Some s'"
    "sha_rep s' ((m @ [0]) @ replicate n 0)" "sh_buf_len s' = 56" by blast
  with ne sha_rep_buf_len [OF Suc.prems(1)] show ?case
    by (subst while_option_unfold) simp
qed

lemma length_len_be [simp]: "length (len_be b) = 8"
  by (simp add: len_be_def)

lemma sha_finish_rep:
  assumes "sha_rep s m" "sh_total_bits s = of_nat (length m) * 8"
  shows "map_option snd (sha_finish s) = Some (sha_digest m)"
proof -
  let ?n = "(119 - length m mod 64) mod 64" and ?m = "m @ [0x80]"
  have "sha_rep (sha_update s [0x80]) ?m" using assms(1) by (rule sha_rep_update)
  moreover have "length m mod 64 < 64" by simp
  from pad_mod_Suc [OF this] have "?n = (120 - length ?m mod 64) mod 64" by (simp add: mod_Suc_eq)
  ultimately obtain s' where
    w: "while_option (\<lambda>s. sh_buf_len s \<noteq> 56) (\<lambda>s. sha_update s [0]) (sha_update s [0x80]) = Some s'"
    and r: "sha_rep s' (?m @ replicate ?n 0)" and l: "sh_buf_len s' = 56"
    using sha_pad_loop by blast
  from r l obtain bs where bs: "64 dvd length bs" "?m @ replicate ?n 0 = bs @ take 56 (sh_buf s')"
    "sh_h s' = foldl compress sha_init (sha_blocks bs)" "length (sh_buf s') = 64"
    by (auto simp: sha_rep_def)
  let ?last = "take 56 (sh_buf s') @ len_be (of_nat (length m) * 8)"
  have last: "length ?last = 64" using bs(4) by simp
  have "sha_pad m = (?m @ replicate ?n 0) @ len_be (of_nat (length m) * 8)" by (simp add: sha_pad_def)
  also have "\<dots> = bs @ ?last" unfolding bs(2) by (rule append.assoc)
  finally have "sha_blocks (sha_pad m) = sha_blocks bs @ [?last]"
    using sha_blocks_append [OF bs(1), of ?last] sha_blocks_block [OF last, of "[]"] by simp
  then have "sha_digest m = concat (map word_be (compress (sh_h s') ?last))"
    by (simp add: sha_digest_def bs(3))
  then show ?thesis
    by (simp add: sha_finish_def w assms(2) Let_def)
qed

section \<open>Properties\<close>

text \<open>C38: Hashing always ends, and the digest of a message fed in any number of pieces of any
  sizes is the digest of the padded message cut into 64-byte blocks.\<close>

theorem sha256_refines_digest:
  assumes "length (sh_buf s) = 64"
  shows "map_option snd (sha_finish (foldl sha_update (sha_reset s) pieces)) =
    Some (sha_digest (concat pieces))"
proof -
  have "sha_rep (foldl sha_update c pieces) (m @ concat pieces) \<and>
      sh_total_bits (foldl sha_update c pieces) = of_nat (length (m @ concat pieces)) * 8"
    if "sha_rep c m" "sh_total_bits c = of_nat (length m) * 8" for c m
    using that
  proof (induction pieces arbitrary: c m)
    case (Cons d pieces)
    have "sha_rep (sha_update c d) (m @ d)" using Cons.prems(1) by (rule sha_rep_update)
    moreover have "sh_total_bits (sha_update c d) = of_nat (length (m @ d)) * 8"
      using Cons.prems(2) by (simp add: sha_update_bits algebra_simps)
    ultimately show ?case using Cons.IH [of "sha_update c d" "m @ d"] by simp
  qed simp
  from this [OF sha_rep_reset [OF assms]] show ?thesis
    by (intro sha_finish_rep) (simp_all add: sha_reset_def)
qed

theorem sha256_refines_digest_witness:
  "let s = \<lparr>sh_h = [], sh_buf = replicate 64 0, sh_buf_len = 3, sh_total_bits = 5\<rparr>
   in map_option snd (sha_finish (foldl sha_update (sha_reset s) [[97], [98, 99], []])) =
      Some (sha_digest [97, 98, 99])"
  using sha256_refines_digest
    [of "\<lparr>sh_h = [], sh_buf = replicate 64 0, sh_buf_len = 3, sh_total_bits = 5\<rparr>" "[[97], [98, 99], []]"]
  by simp

end
