(* ===== verification/Crypto.thy ===== *)
theory Crypto
  imports Ccm Sha256 Peer_Table
begin

text \<open>
  lib/ff_core/crypto.h and crypto.cpp: the frame cipher. A buffer is a byte list of its full
  capacity, transformed in place; a length of zero or a \<open>False\<close> result is a refusal. The
  \<open>ReplaySlot*\<close> the code works on is the index of the slot.
\<close>

section \<open>State\<close>

definition kFrameHeaderLen :: nat where [simp]: "kFrameHeaderLen = 10"
definition kFrameCounterOffset :: nat where [simp]: "kFrameCounterOffset = 6"
definition kFrameTagLen :: nat where [simp]: "kFrameTagLen = 6"
definition kFrameOverhead :: nat where [simp]: "kFrameOverhead = 4 + kFrameTagLen"
definition kNonceLen :: nat where [simp]: "kNonceLen = 13"
definition kReplayResyncMs :: u32 where [simp]: "kReplayResyncMs = 10000"
definition kReplayWindowBits :: u32 where [simp]: "kReplayWindowBits = 32"

record replay_slot =
  rs_uid :: u32
  rs_high :: u32
  rs_window :: u32
  rs_last_ms :: u32
  rs_used :: bool

definition ReplaySlot :: replay_slot where
  "ReplaySlot = \<lparr>rs_uid = 0, rs_high = 0, rs_window = 0, rs_last_ms = 0, rs_used = False\<rparr>"

record ccm_crypto =
  cc_aes :: aes128
  cc_uid :: u32
  cc_counter :: u32
  cc_bad_tag :: u32
  cc_replay :: u32
  cc_last_reject_replay :: bool
  cc_replay_slots :: "replay_slot list"

definition CcmCrypto :: ccm_crypto where
  "CcmCrypto = \<lparr>cc_aes = replicate 176 0, cc_uid = 0, cc_counter = 0, cc_bad_tag = 0, cc_replay = 0,
     cc_last_reject_replay = False, cc_replay_slots = replicate kMaxPeers ReplaySlot\<rparr>"

section \<open>Keys\<close>

text \<open>The passphrase is the bytes before its NUL, or a null pointer; \<open>ctx\<close> is the hash object
  on the stack, of which only the buffer's size matters.\<close>

definition deriveGroupKey :: "sha256_ctx \<Rightarrow> byte_list option \<Rightarrow> byte_list option" where
  "deriveGroupKey ctx passphrase =
     map_option (take kAesKeySize) (sha256 ctx (case passphrase of None \<Rightarrow> [] | Some p \<Rightarrow> p))"

definition cc_begin :: "ccm_crypto \<Rightarrow> u32 \<Rightarrow> byte_list \<Rightarrow> u32 \<Rightarrow> ccm_crypto" where
  "cc_begin c uid key initial_counter =
     c\<lparr>cc_uid := uid, cc_counter := initial_counter, cc_aes := setKey key,
       cc_replay_slots := replicate kMaxPeers ReplaySlot\<rparr>"

definition cc_setKey :: "ccm_crypto \<Rightarrow> byte_list \<Rightarrow> ccm_crypto" where
  "cc_setKey c key = c\<lparr>cc_aes := setKey key\<rparr>"

section \<open>Encryption\<close>

definition buildNonce :: "u32 \<Rightarrow> u32 \<Rightarrow> byte_list" where
  "buildNonce uid counter = put_u32 (put_u32 [] uid) counter @ replicate (kNonceLen - 8) 0"

text \<open>Open the four-byte gap for the counter, from the last payload byte down.\<close>

fun open_gap :: "nat \<Rightarrow> byte_list \<Rightarrow> byte_list" where
  "open_gap 0 buf = buf"
| "open_gap (Suc i) buf = open_gap i (buf[kFrameHeaderLen + i := buf ! (kHeaderSize + i)])"

definition encryptAs ::
  "aes128 \<Rightarrow> u32 \<Rightarrow> u32 \<Rightarrow> byte_list \<Rightarrow> nat \<Rightarrow> nat \<Rightarrow> byte_list \<times> nat" where
  "encryptAs aes uid counter buf len cap =
     (if len < kHeaderSize \<or> cap < len + kFrameOverhead then (buf, 0)
      else let payload_len = len - kHeaderSize;
               buf = open_gap payload_len buf;
               buf = put_u32 (take kFrameCounterOffset buf) counter @ drop (kFrameCounterOffset + 4) buf
           in (case ccmEncrypt aes (buildNonce uid counter) (take kFrameHeaderLen buf)
                      (take payload_len (drop kFrameHeaderLen buf)) kFrameTagLen of
                 None \<Rightarrow> (buf, 0)
               | Some (data, tag) \<Rightarrow>
                   (take kFrameHeaderLen buf @ data @ tag @
                      drop (kFrameHeaderLen + payload_len + kFrameTagLen) buf,
                    kFrameHeaderLen + payload_len + kFrameTagLen)))"

definition cc_encrypt :: "ccm_crypto \<Rightarrow> byte_list \<Rightarrow> nat \<Rightarrow> nat \<Rightarrow> ccm_crypto \<times> byte_list \<times> nat" where
  "cc_encrypt c buf len cap =
     (let c = c\<lparr>cc_counter := cc_counter c + 1\<rparr>
      in (c, encryptAs (cc_aes c) (cc_uid c) (cc_counter c) buf len cap))"

section \<open>Replay rejection\<close>

fun victim_scan :: "replay_slot list \<Rightarrow> nat list \<Rightarrow> nat option \<Rightarrow> nat option" where
  "victim_scan slots [] victim = victim"
| "victim_scan slots (i # is) victim =
     (if \<not> rs_used (slots ! i) then Some i
      else victim_scan slots is
        (case victim of
           None \<Rightarrow> Some i
         | Some v \<Rightarrow> if sint (rs_last_ms (slots ! i) - rs_last_ms (slots ! v)) < 0 then Some i else victim))"

definition fresh_slot :: "u32 \<Rightarrow> u32 \<Rightarrow> replay_slot" where
  "fresh_slot now_ms uid = ReplaySlot\<lparr>rs_uid := uid, rs_used := True, rs_last_ms := now_ms\<rparr>"

definition slotFor :: "ccm_crypto \<Rightarrow> u32 \<Rightarrow> u32 \<Rightarrow> ccm_crypto \<times> nat \<times> bool" where
  "slotFor c uid now_ms =
     (case first_idx (\<lambda>s. rs_used s \<and> rs_uid s = uid) (cc_replay_slots c) of
        Some i \<Rightarrow> (c, i, False)
      | None \<Rightarrow>
          let i = the (victim_scan (cc_replay_slots c) [0..<kMaxPeers] None)
          in (c\<lparr>cc_replay_slots := (cc_replay_slots c)[i := fresh_slot now_ms uid]\<rparr>, i, True))"

definition acceptCounter :: "replay_slot \<Rightarrow> u32 \<Rightarrow> bool \<Rightarrow> replay_slot \<times> bool" where
  "acceptCounter slot counter reset =
     (if reset then (slot\<lparr>rs_high := counter, rs_window := 0\<rparr>, True)
      else if counter > rs_high slot then
        let advance = counter - rs_high slot;
            window = (if advance \<ge> kReplayWindowBits then 0
                      else push_bit (unat advance) (rs_window slot) OR push_bit (unat (advance - 1)) 1)
        in (slot\<lparr>rs_window := window, rs_high := counter\<rparr>, True)
      else
        let behind = rs_high slot - counter
        in if behind = 0 \<or> behind > kReplayWindowBits then (slot, False)
           else let b = push_bit (unat (behind - 1)) 1
                in if rs_window slot AND b \<noteq> 0 then (slot, False)
                   else (slot\<lparr>rs_window := rs_window slot OR b\<rparr>, True))"

section \<open>Decryption\<close>

fun close_gap :: "nat \<Rightarrow> nat \<Rightarrow> byte_list \<Rightarrow> byte_list" where
  "close_gap i 0 buf = buf"
| "close_gap i (Suc n) buf = close_gap (Suc i) n (buf[kHeaderSize + i := buf ! (kFrameHeaderLen + i)])"

text \<open>
  The second half of \<open>decrypt\<close>: the replay check of a frame whose tag has verified. First
  contact, or a sender that has been quiet long enough to have rebooted, restarts the window.
\<close>

definition replay_check :: "ccm_crypto \<Rightarrow> u32 \<Rightarrow> u32 \<Rightarrow> u32 \<Rightarrow> ccm_crypto \<times> bool" where
  "replay_check c uid counter now_ms =
     (let (c, i, fresh) = slotFor c uid now_ms;
          slot = cc_replay_slots c ! i;
          reset = (fresh \<or> age_ms now_ms (rs_last_ms slot) > kReplayResyncMs);
          (slot, ok) = acceptCounter slot counter reset
      in if \<not> ok
         then (c\<lparr>cc_replay_slots := (cc_replay_slots c)[i := slot],
                 cc_replay := cc_replay c + 1, cc_last_reject_replay := True\<rparr>, False)
         else (c\<lparr>cc_replay_slots := (cc_replay_slots c)[i := slot\<lparr>rs_last_ms := now_ms\<rparr>]\<rparr>, True))"

text \<open>The new state, the buffer, and the plaintext length if the frame is accepted.\<close>

definition cc_decrypt ::
  "ccm_crypto \<Rightarrow> byte_list \<Rightarrow> nat \<Rightarrow> u32 \<Rightarrow> ccm_crypto \<times> byte_list \<times> nat option" where
  "cc_decrypt c buf len now_ms =
     (let c = c\<lparr>cc_last_reject_replay := False\<rparr>
      in if len < kFrameHeaderLen + kFrameTagLen then (c\<lparr>cc_bad_tag := cc_bad_tag c + 1\<rparr>, buf, None)
         else
           let payload_len = len - kFrameHeaderLen - kFrameTagLen;
               uid = fst (the (get_u32 (drop 2 buf)));
               counter = fst (the (get_u32 (drop kFrameCounterOffset buf)));
               (data, ok) = ccmDecrypt (cc_aes c) (buildNonce uid counter) (take kFrameHeaderLen buf)
                 (take payload_len (drop kFrameHeaderLen buf))
                 (take kFrameTagLen (drop (kFrameHeaderLen + payload_len) buf));
               buf = take kFrameHeaderLen buf @ data @ drop (kFrameHeaderLen + payload_len) buf
           in if \<not> ok then (c\<lparr>cc_bad_tag := cc_bad_tag c + 1\<rparr>, buf, None)
              else let (c, ok) = replay_check c uid counter now_ms
                   in if \<not> ok then (c, buf, None)
                      else (c, close_gap 0 payload_len buf, Some (kHeaderSize + payload_len)))"

section \<open>Frames\<close>

lemma length_open_gap [simp]: "length (open_gap n buf) = length buf"
  by (induction n buf rule: open_gap.induct) simp_all

lemma open_gap_nth:
  "10 + n \<le> length buf \<Longrightarrow>
     open_gap n buf ! j = (if 10 \<le> j \<and> j < 10 + n then buf ! (j - 4) else buf ! j)"
proof (induction n buf rule: open_gap.induct)
  case (2 i buf)
  then have "open_gap (Suc i) buf ! j =
      (if 10 \<le> j \<and> j < 10 + i then buf[10 + i := buf ! (6 + i)] ! (j - 4)
       else buf[10 + i := buf ! (6 + i)] ! j)" by (simp add: kHeaderSize_def)
  with "2.prems" show ?case by (auto simp: nth_list_update less_Suc_eq)
qed auto

lemma open_gap_moves:
  assumes "10 + n \<le> length buf"
  shows "take n (drop 10 (open_gap n buf)) = take n (drop 6 buf)"
    and "take 6 (open_gap n buf) = take 6 buf"
    and "drop (10 + n) (open_gap n buf) = drop (10 + n) buf"
  by (rule nth_equalityI; use assms in \<open>simp add: open_gap_nth\<close>)+

lemma length_close_gap [simp]: "length (close_gap i n buf) = length buf"
  by (induction i n buf rule: close_gap.induct) simp_all

lemma close_gap_nth:
  "10 + i + n \<le> length buf \<Longrightarrow>
     close_gap i n buf ! j = (if 6 + i \<le> j \<and> j < 6 + i + n then buf ! (j + 4) else buf ! j)"
proof (induction i n buf rule: close_gap.induct)
  case (2 i n buf)
  then have "close_gap i (Suc n) buf ! j =
      (if 7 + i \<le> j \<and> j < 7 + i + n then buf[6 + i := buf ! (10 + i)] ! (j + 4)
       else buf[6 + i := buf ! (10 + i)] ! j)" by (simp add: kHeaderSize_def)
  with "2.prems" show ?case by (auto simp: nth_list_update le_less_Suc_eq add.commute)
qed auto

lemma take_close_gap:
  assumes "10 + n \<le> length buf"
  shows "take (6 + n) (close_gap 0 n buf) = take 6 buf @ take n (drop 10 buf)"
  by (rule nth_equalityI) (use assms in \<open>auto simp: close_gap_nth nth_append add.commute\<close>)

text \<open>The bytes on the air for a packet: clear header, counter, ciphertext and tag.\<close>

definition frame_header :: "u32 \<Rightarrow> byte_list \<Rightarrow> byte_list" where
  "frame_header counter packet = put_u32 (take kFrameCounterOffset packet) counter"

definition sealed :: "aes128 \<Rightarrow> u32 \<Rightarrow> u32 \<Rightarrow> byte_list \<Rightarrow> byte_list option" where
  "sealed aes uid counter packet =
     map_option (\<lambda>(data, tag). frame_header counter packet @ data @ tag)
       (ccmEncrypt aes (buildNonce uid counter) (frame_header counter packet)
          (drop kHeaderSize packet) kFrameTagLen)"

lemma length_buildNonce [simp]: "length (buildNonce uid counter) = 13"
  by (simp add: buildNonce_def)

lemma length_frame_header [simp]:
  "6 \<le> length packet \<Longrightarrow> length (frame_header counter packet) = 10"
  by (simp add: frame_header_def)

lemma ccmEncrypt_SomeD:
  "ccmEncrypt aes nonce aad p n = Some (c, tag) \<Longrightarrow>
     length c = length p \<and> length tag = n \<and> n \<le> 16"
  by (auto simp: ccmEncrypt_def paramsValid_def Let_def split: if_splits)

lemma length_sealed: "sealed aes uid ctr p = Some f \<Longrightarrow> 6 \<le> length p \<Longrightarrow> length f = length p + 10"
  by (auto simp: sealed_def dest!: ccmEncrypt_SomeD)

lemma ccmEncrypt_13:
  "ccmEncrypt aes (buildNonce uid ctr) aad p 6 \<noteq> None \<longleftrightarrow> length p < 65536 \<and> length aad < 65280"
  by (auto simp: ccmEncrypt_def paramsValid_def Let_def)

text \<open>\<open>encryptAs\<close> puts the sealed packet in the buffer and leaves the bytes after it alone.\<close>

lemma encryptAs_sealed:
  assumes "6 \<le> len" "len + 10 \<le> cap" "cap \<le> length buf" "sealed aes uid ctr (take len buf) = Some f"
  shows "encryptAs aes uid ctr buf len cap = (f @ drop (len + 10) buf, len + 10)"
    and "length f = len + 10"
proof -
  let ?n = "len - 6" and ?b = "open_gap (len - 6) buf"
  have n: "10 + ?n \<le> length buf" using assms by simp
  let ?g = "put_u32 (take 6 ?b) ctr @ drop 10 ?b"
  from assms(4) obtain d t where
    e: "ccmEncrypt aes (buildNonce uid ctr) (frame_header ctr (take len buf)) (drop 6 (take len buf)) 6 = Some (d, t)"
    and f: "f = frame_header ctr (take len buf) @ d @ t"
    by (auto simp: sealed_def kHeaderSize_def)
  have h: "put_u32 (take 6 ?b) ctr = frame_header ctr (take len buf)"
    using assms(1) by (simp add: frame_header_def open_gap_moves [OF n] min_def)
  have p: "take ?n (drop 10 ?b) = drop 6 (take len buf)"
    using assms(1) by (simp add: open_gap_moves [OF n] drop_take)
  have hl: "length (put_u32 (take 6 ?b) ctr) = 10" using n by simp
  have g: "take 10 ?g = frame_header ctr (take len buf)" "drop 10 ?g = drop 10 ?b"
    using hl n by (simp_all add: h min_absorb2)
  have r: "drop (10 + ?n + 6) ?g = drop (len + 10) buf"
  proof -
    have "drop (10 + ?n + 6) ?g = drop (?n + 6) (drop 10 ?g)" by (simp only: drop_drop ac_simps)
    also have "\<dots> = drop 6 (drop (10 + ?n) ?b)" unfolding g(2) by (simp add: ac_simps)
    also have "\<dots> = drop 6 (drop (10 + ?n) buf)" by (simp only: open_gap_moves(3) [OF n])
    also have "\<dots> = drop (len + 10) buf" using assms(1) by (simp add: ac_simps)
    finally show ?thesis .
  qed
  show "encryptAs aes uid ctr buf len cap = (f @ drop (len + 10) buf, len + 10)"
    using assms(1,2) e g p r
    by (simp add: encryptAs_def Let_def kHeaderSize_def f)
  show "length f = len + 10"
    using ccmEncrypt_SomeD [OF e] assms by (simp add: f)
qed

text \<open>The authenticated part of decryption, before the replay check.\<close>

definition opened :: "aes128 \<Rightarrow> byte_list \<Rightarrow> (byte_list \<times> u32 \<times> u32) option" where
  "opened aes frame =
     (if length frame < 16 then None
      else let n = length frame - 16;
               uid = fst (the (get_u32 (drop 2 frame)));
               counter = fst (the (get_u32 (drop 6 frame)));
               (data, ok) = ccmDecrypt aes (buildNonce uid counter) (take 10 frame)
                 (take n (drop 10 frame)) (drop (10 + n) frame)
           in if ok then Some (take 6 frame @ data, uid, counter) else None)"


lemma ccm_open_iff:
  "ccmDecrypt aes (buildNonce uid ctr) aad c tag = (p, True) \<longleftrightarrow>
     ccmEncrypt aes (buildNonce uid ctr) aad p (length tag) = Some (c, tag)"
  by (rule ccm_accepts_iff) simp

lemma get_u32_put: "take 4 p = put_u32 [] v \<Longrightarrow> get_u32 p = Some (v, drop 4 p)"
  by (metis append_take_drop_id get_put_u32)

lemma get_u32_takeD: "get_u32 p = Some (v, q) \<Longrightarrow> take 4 p = put_u32 [] v"
  by (drule get_u32_SomeD) (simp add: put_u32_cells)

text \<open>A frame opens exactly when it is a sealed packet of the sender its header names.\<close>

lemma opened_iff_sealed:
  "opened aes frame = Some (packet, uid, ctr) \<longleftrightarrow>
     6 \<le> length packet \<and> take 4 (drop 2 packet) = put_u32 [] uid \<and>
     sealed aes uid ctr packet = Some frame" (is "?l \<longleftrightarrow> ?r")
proof
  assume ?l
  then have len: "16 \<le> length frame" by (auto simp: opened_def split: if_splits)
  let ?n = "length frame - 16"
  obtain u q where u: "get_u32 (drop 2 frame) = Some (u, q)"
    using len by (cases "get_u32 (drop 2 frame)") (auto simp del: not_None_eq)
  obtain k r where k: "get_u32 (drop 6 frame) = Some (k, r)"
    using len by (cases "get_u32 (drop 6 frame)") (auto simp del: not_None_eq)
  obtain d where d: "ccmDecrypt aes (buildNonce uid ctr) (take 10 frame) (take ?n (drop 10 frame))
        (drop (10 + ?n) frame) = (d, True)"
    and pk: "packet = take 6 frame @ d" "u = uid" "k = ctr"
    using \<open>?l\<close> len u k by (auto simp: opened_def Let_def split: prod.splits if_splits)
  from d have e: "ccmEncrypt aes (buildNonce uid ctr) (take 10 frame) d 6 =
      Some (take ?n (drop 10 frame), drop (10 + ?n) frame)"
    using len by (simp add: ccm_open_iff)
  have hd: "frame_header ctr packet = take 10 frame"
  proof -
    have "take 10 frame = take 6 frame @ take 4 (drop 6 frame)"
      using take_add [of 6 4 frame] by simp
    with get_u32_takeD [OF k] pk len show ?thesis
      by (simp add: frame_header_def put_cursor(3) [of "take 6 frame"])
  qed
  have "take 4 (drop 2 packet) = take 4 (drop 2 frame)"
    using pk len by (simp add: drop_take [symmetric] take_drop)
  with get_u32_takeD [OF u] pk have uid: "take 4 (drop 2 packet) = put_u32 [] uid" by simp
  have "take 10 frame @ take ?n (drop 10 frame) @ drop (10 + ?n) frame = frame"
    by (metis append_take_drop_id drop_drop add.commute)
  with e hd pk len uid show ?r by (simp add: sealed_def)
next
  assume r: ?r
  then obtain d t where e: "ccmEncrypt aes (buildNonce uid ctr) (frame_header ctr packet) (drop 6 packet) 6 = Some (d, t)"
    and f: "frame = frame_header ctr packet @ d @ t"
    by (auto simp: sealed_def)
  have len: "length d = length packet - 6" "length t = 6" using ccmEncrypt_SomeD [OF e] by simp_all
  have hl: "length (frame_header ctr packet) = 10" using r by simp
  have cut: "take 10 frame = frame_header ctr packet" "drop 10 frame = d @ t"
    using hl by (simp_all add: f)
  have "take 4 (drop 6 frame) = put_u32 [] ctr" "take 4 (drop 2 frame) = take 4 (drop 2 packet)"
    using r by (simp_all add: f frame_header_def put_cursor(3) [of "take 6 packet"] min_absorb2 drop_take)
  with r have u: "get_u32 (drop 6 frame) = Some (ctr, drop 10 frame)"
    "get_u32 (drop 2 frame) = Some (uid, drop 6 frame)"
    using get_u32_put [of "drop 6 frame" ctr] get_u32_put [of "drop 2 frame" uid] by simp_all
  have p: "take 6 frame @ drop 6 packet = packet"
    using r by (simp add: f frame_header_def put_cursor(3) [of "take 6 packet"])
  have n: "length frame - 16 = length d" "\<not> length frame < 16" using hl len by (simp_all add: f)
  have "drop (10 + length d) frame = t" using hl by (simp add: f)
  with e cut len have "ccmDecrypt aes (buildNonce uid ctr) (take 10 frame) (take (length d) (drop 10 frame))
      (drop (10 + length d) frame) = (drop 6 packet, True)"
    by (simp add: ccm_open_iff)
  with u p n show ?l by (simp add: opened_def Let_def)
qed

section \<open>The replay table\<close>

interpretation replays: uid_slots rs_uid rs_used "fresh_slot now" ReplaySlot
  by unfold_locales (simp_all add: fresh_slot_def ReplaySlot_def)

definition cc_inv :: "ccm_crypto \<Rightarrow> bool" where
  "cc_inv c \<longleftrightarrow> length (cc_replay_slots c) = kMaxPeers \<and>
     slots_distinct rs_uid rs_used (cc_replay_slots c)"

lemma victim_scan_bound:
  "victim_scan slots is v = Some i \<Longrightarrow> set is \<subseteq> {..<n} \<Longrightarrow> (\<forall>j. v = Some j \<longrightarrow> j < n) \<Longrightarrow> i < n"
  by (induction slots "is" v rule: victim_scan.induct) (auto split: if_splits option.splits)

lemma victim_scan_found:
  "is \<noteq> [] \<or> v \<noteq> None \<Longrightarrow> victim_scan slots is v \<noteq> None"
  by (induction slots "is" v rule: victim_scan.induct) (auto split: option.splits)

lemma victim_exists: "\<exists>i < kMaxPeers. victim_scan slots [0..<kMaxPeers] None = Some i"
proof -
  obtain i where i: "victim_scan slots [0..<kMaxPeers] None = Some i"
    using victim_scan_found [of "[0..<kMaxPeers]" None slots] by auto
  moreover have "i < kMaxPeers" by (rule victim_scan_bound [OF i]) auto
  ultimately show ?thesis by blast
qed

lemma slotFor_found:
  assumes "cc_inv c" "slotFor c uid now = (c', i, fresh)"
  shows "cc_inv c'" "i < kMaxPeers" "rs_uid (cc_replay_slots c' ! i) = uid"
    "rs_used (cc_replay_slots c' ! i)" "c' = c\<lparr>cc_replay_slots := cc_replay_slots c'\<rparr>"
    "slot_find rs_uid rs_used uid (cc_replay_slots c') = Some i"
    "fresh \<longleftrightarrow> slot_find rs_uid rs_used uid (cc_replay_slots c) = None"
    "\<not> fresh \<Longrightarrow> c' = c"
proof -
  have all: "cc_inv c' \<and> i < kMaxPeers \<and> rs_uid (cc_replay_slots c' ! i) = uid \<and>
    rs_used (cc_replay_slots c' ! i) \<and> c' = c\<lparr>cc_replay_slots := cc_replay_slots c'\<rparr> \<and>
    slot_find rs_uid rs_used uid (cc_replay_slots c') = Some i \<and>
    (fresh \<longleftrightarrow> slot_find rs_uid rs_used uid (cc_replay_slots c) = None) \<and> (\<not> fresh \<longrightarrow> c' = c)"
  proof (cases "slot_find rs_uid rs_used uid (cc_replay_slots c)")
    case (Some j)
    with assms replays.find_SomeD [OF Some] show ?thesis
      by (auto simp: slotFor_def slot_find_def cc_inv_def)
  next
    case None
    obtain v where v: "v < kMaxPeers"
      "victim_scan (cc_replay_slots c) [0..<kMaxPeers] None = Some v"
      using victim_exists by blast
    have s: "c' = c\<lparr>cc_replay_slots := (cc_replay_slots c)[v := fresh_slot now uid]\<rparr>" "i = v" "fresh"
      using assms(2) None v unfolding slotFor_def slot_find_def by (auto simp del: kMaxPeers_def)
    have cl: "slot_claimable rs_uid rs_used (rs_uid (fresh_slot now uid)) v (cc_replay_slots c)"
      using None v assms(1) by (simp add: slot_claimable_def cc_inv_def replays.uid_fresh)
    have d: "slots_distinct rs_uid rs_used (cc_replay_slots c)" using assms(1) by (simp add: cc_inv_def)
    show ?thesis
      using s v assms(1) None replays.distinct_update [OF d cl]
        replays.find_update_same [OF d cl replays.used_fresh]
      by (simp add: cc_inv_def replays.uid_fresh replays.used_fresh)
  qed
  then show "cc_inv c'" "i < kMaxPeers" "rs_uid (cc_replay_slots c' ! i) = uid"
    "rs_used (cc_replay_slots c' ! i)" "c' = c\<lparr>cc_replay_slots := cc_replay_slots c'\<rparr>"
    "slot_find rs_uid rs_used uid (cc_replay_slots c') = Some i"
    "fresh \<longleftrightarrow> slot_find rs_uid rs_used uid (cc_replay_slots c) = None"
    "\<not> fresh \<Longrightarrow> c' = c" by blast+
qed

lemma acceptCounter_keeps:
  "rs_uid (fst (acceptCounter s k r)) = rs_uid s" "rs_used (fst (acceptCounter s k r)) = rs_used s"
  "rs_last_ms (fst (acceptCounter s k r)) = rs_last_ms s"
  unfolding acceptCounter_def Let_def
  by (cases s, simp only: if_distrib [of fst] if_distrib [of rs_uid] if_distrib [of rs_used]
      if_distrib [of rs_last_ms] fst_conv replay_slot.select_convs replay_slot.update_convs if_cancel)+

text \<open>The value a reader returns depends on the bytes it consumes only.\<close>

lemma get_u32_take:
  assumes "4 \<le> length p" "4 \<le> n"
  shows "fst (the (get_u32 (take n p))) = fst (the (get_u32 p))"
proof -
  obtain v q where v: "get_u32 p = Some (v, q)" using assms by (cases "get_u32 p") auto
  from get_u32_takeD [OF v] assms have "take 4 (take n p) = put_u32 [] v" by (simp add: min_def)
  from get_u32_put [OF this] v show ?thesis by simp
qed


text \<open>The sender and counter a frame's header names, and the decryption of its body.\<close>

definition frame_sender :: "byte_list \<Rightarrow> u32" where
  "frame_sender buf = fst (the (get_u32 (drop 2 buf)))"

definition frame_counter :: "byte_list \<Rightarrow> u32" where
  "frame_counter buf = fst (the (get_u32 (drop 6 buf)))"

definition frame_body :: "aes128 \<Rightarrow> byte_list \<Rightarrow> nat \<Rightarrow> byte_list \<times> bool" where
  "frame_body aes buf n = ccmDecrypt aes (buildNonce (frame_sender buf) (frame_counter buf))
     (take 10 buf) (take n (drop 10 buf)) (take 6 (drop (10 + n) buf))"

lemma cc_decrypt_body:
  "cc_decrypt c buf (16 + n) now =
     (case frame_body (cc_aes c) buf n of (data, ok) \<Rightarrow>
        if \<not> ok then (c\<lparr>cc_last_reject_replay := False, cc_bad_tag := cc_bad_tag c + 1\<rparr>,
                     take 10 buf @ data @ drop (10 + n) buf, None)
        else case replay_check (c\<lparr>cc_last_reject_replay := False\<rparr>) (frame_sender buf)
                    (frame_counter buf) now of
          (c, ok) \<Rightarrow> if \<not> ok then (c, take 10 buf @ data @ drop (10 + n) buf, None)
            else (c, close_gap 0 n (take 10 buf @ data @ drop (10 + n) buf), Some (6 + n)))"
proof -
  have n: "16 + n - 10 - 6 = n" "\<not> 16 + n < 10 + 6" by simp_all
  show ?thesis
    unfolding cc_decrypt_def Let_def kFrameHeaderLen_def kFrameTagLen_def kFrameCounterOffset_def
      kHeaderSize_def n frame_body_def frame_sender_def frame_counter_def if_not_P [OF n(2)]
    by (cases c, simp only: ccm_crypto.select_convs ccm_crypto.update_convs)
qed

lemma opened_body:
  assumes "16 + n \<le> length buf"
  shows "opened aes (take (16 + n) buf) =
    (case frame_body aes buf n of (data, ok) \<Rightarrow>
       if ok then Some (take 6 buf @ data, frame_sender buf, frame_counter buf) else None)"
proof -
  let ?f = "take (16 + n) buf"
  have "fst (the (get_u32 (drop 2 ?f))) = frame_sender buf"
    "fst (the (get_u32 (drop 6 ?f))) = frame_counter buf"
    using assms by (simp_all add: drop_take get_u32_take frame_sender_def frame_counter_def)
  moreover have "take 10 ?f = take 10 buf" "take 6 ?f = take 6 buf"
    "take n (drop 10 ?f) = take n (drop 10 buf)"
    "drop (10 + n) ?f = take 6 (drop (10 + n) buf)" "length ?f - 16 = n" "\<not> length ?f < 16"
    using assms by (simp_all add: drop_take min_def)
  ultimately show ?thesis by (simp only: opened_def Let_def frame_body_def if_False)
qed

lemma opened_short: "length f < 16 \<Longrightarrow> opened aes f = None"
  by (simp add: opened_def)

lemma cc_decrypt_unopened:
  assumes "len \<le> length buf" "opened (cc_aes c) (take len buf) = None"
  shows "\<exists>b. cc_decrypt c buf len now =
    (c\<lparr>cc_last_reject_replay := False, cc_bad_tag := cc_bad_tag c + 1\<rparr>, b, None)"
proof (cases "len < 16")
  case True
  then show ?thesis by (simp add: cc_decrypt_def)
next
  case False
  then obtain n where n: "len = 16 + n" by (metis le_iff_add not_less)
  obtain d ok where d: "frame_body (cc_aes c) buf n = (d, ok)" by fastforce
  with assms n have "\<not> ok" by (auto simp: opened_body)
  with d show ?thesis unfolding n cc_decrypt_body by simp
qed

lemma cc_decrypt_opened:
  assumes len: "len \<le> length buf" and o: "opened (cc_aes c) (take len buf) = Some (packet, uid, counter)"
    and r: "replay_check (c\<lparr>cc_last_reject_replay := False\<rparr>) uid counter now = (c', ok)"
  shows "\<exists>b. length b = length buf \<and> (ok \<longrightarrow> take (length packet) b = packet) \<and>
    cc_decrypt c buf len now = (c', b, if ok then Some (length packet) else None)"
proof -
  have "\<not> len < 16" using o opened_short [of "take len buf"] len by (auto simp: min_def split: if_splits)
  then obtain n where n: "len = 16 + n" by (metis le_iff_add not_less)
  note ob = opened_body [OF len [unfolded n], of "cc_aes c"]
  obtain d where d: "frame_body (cc_aes c) buf n = (d, True)"
    and u: "frame_sender buf = uid" "frame_counter buf = counter" and p: "packet = take 6 buf @ d"
    using o ob n by (auto split: prod.splits if_splits)
  have "length d = length (take n (drop 10 buf))"
    using d [unfolded frame_body_def ccm_open_iff] by (metis ccmEncrypt_SomeD)
  with len n have ld: "length d = n" by simp
  let ?b = "take 10 buf @ d @ drop (10 + n) buf"
  have lb: "length ?b = length buf" using ld len n by simp
  have bl: "10 + n \<le> length ?b" unfolding lb using len n by simp
  have "take (6 + n) (close_gap 0 n ?b) = take 6 buf @ d"
    using ld len n unfolding take_close_gap [OF bl] by (simp add: min_def)
  moreover have "length packet = 6 + n" using p ld len n by simp
  ultimately show ?thesis using d u p r lb
    unfolding n cc_decrypt_body
    by (cases ok) (simp_all only: prod.case if_True if_False not_True_eq_False not_False_eq_True
        length_close_gap, auto)
qed

section \<open>The sliding window\<close>

text \<open>
  What the window promises, over the set of counters accepted so far: a counter is accepted
  once, and only while it is at most 32 behind the newest.
\<close>

definition window_accepts :: "nat set \<Rightarrow> nat \<Rightarrow> bool" where
  "window_accepts seen k \<longleftrightarrow> k \<notin> seen \<and> (\<forall>s \<in> seen. s \<le> k + 32)"

definition window_rel :: "replay_slot \<Rightarrow> nat set \<Rightarrow> bool" where
  "window_rel s seen \<longleftrightarrow> unat (rs_high s) \<in> seen \<and> (\<forall>k \<in> seen. k \<le> unat (rs_high s)) \<and>
     (\<forall>i < 32. bit (rs_window s) i \<longleftrightarrow> i < unat (rs_high s) \<and> unat (rs_high s) - 1 - i \<in> seen)"

lemma window_accepts_high:
  "window_rel s seen \<Longrightarrow> window_accepts seen k \<longleftrightarrow> k \<notin> seen \<and> unat (rs_high s) \<le> k + 32"
  by (auto simp: window_accepts_def window_rel_def)

lemma window_reset: "window_rel (fst (acceptCounter s k True)) {unat k}"
  by (auto simp: window_rel_def acceptCounter_def)

lemma and_bit_iff: "n < 32 \<Longrightarrow> (w :: u32) AND push_bit n 1 \<noteq> 0 \<longleftrightarrow> bit w n"
  by (simp add: and_exp_eq_0_iff_not_bit flip: push_bit_eq_mult [of n 1])

lemma bit_one_shl: "i < 32 \<Longrightarrow> n < 32 \<Longrightarrow> bit (push_bit n (1 :: u32)) i \<longleftrightarrow> i = n"
  by (auto simp: bit_simps)

lemma window_newer:
  assumes rel: "window_rel s seen" and newer: "unat (rs_high s) < unat k"
    and jump: "unat k \<noteq> unat (rs_high s) + 32"
  shows "snd (acceptCounter s k False)"
    and "window_rel (fst (acceptCounter s k False)) (insert (unat k) seen)"
proof -
  define h a where "h = unat (rs_high s)" and "a = unat k - h"
  define w where "w = (if k - rs_high s \<ge> 32 then 0
    else push_bit (unat (k - rs_high s)) (rs_window s) OR push_bit (unat (k - rs_high s - 1)) 1)"
  have r: "acceptCounter s k False = (s\<lparr>rs_window := w, rs_high := k\<rparr>, True)"
    using newer by (simp add: acceptCounter_def Let_def w_def word_less_nat_alt)
  then show "snd (acceptCounter s k False)" by simp
  have k: "unat k = h + a" "0 < a" using newer by (simp_all add: h_def a_def)
  have ua: "unat (k - rs_high s) = a" using newer by (simp add: unat_sub word_le_nat_alt a_def h_def)
  then have ua1: "unat (k - rs_high s - 1) = a - 1"
    using k by (subst unat_minus_one) auto
  have big: "k - rs_high s \<ge> 32 \<longleftrightarrow> 32 \<le> a" by (simp add: word_le_nat_alt ua)
  have hs: "h \<in> seen" "\<And>x. x \<in> seen \<Longrightarrow> x \<le> h"
    and bits: "\<And>i. i < 32 \<Longrightarrow> bit (rs_window s) i \<longleftrightarrow> i < h \<and> h - 1 - i \<in> seen"
    using rel by (auto simp: window_rel_def h_def)
  have "bit w i \<longleftrightarrow> i < h + a \<and> h + a - 1 - i \<in> insert (h + a) seen" if i: "i < 32" for i
  proof (cases "32 \<le> a")
    case True
    then have "h < h + a - 1 - i" using jump i k(1) by (simp add: h_def)
    then have "h + a - 1 - i \<notin> seen" using hs(2) [of "h + a - 1 - i"] by linarith
    moreover have "h + a - 1 - i \<noteq> h + a" using k by linarith
    ultimately show ?thesis using True by (simp add: w_def big)
  next
    case False
    have "bit w i \<longleftrightarrow> (a \<le> i \<and> bit (rs_window s) (i - a)) \<or> i = a - 1"
      using False i k bit_one_shl [of i "a - 1"]
      by (auto simp: w_def big ua ua1 bit_or_iff bit_push_bit_iff)
    also have "\<dots> \<longleftrightarrow> i < h + a \<and> h + a - 1 - i \<in> insert (h + a) seen"
    proof (cases "a \<le> i")
      case True
      then have "h + a - 1 - i = h - 1 - (i - a)" "h + a - 1 - i \<noteq> h + a" using k by linarith+
      moreover have "i - a < h \<longleftrightarrow> i < h + a" using True by linarith
      ultimately show ?thesis using True bits [of "i - a"] i k by auto
    next
      case False
      have "h + a - 1 - i \<in> seen \<longleftrightarrow> i = a - 1"
        using hs(1) hs(2) [of "h + a - 1 - i"] False k by (auto simp: Suc_le_eq not_le)
      then show ?thesis using False k by auto
    qed
    finally show ?thesis .
  qed
  then show "window_rel (fst (acceptCounter s k False)) (insert (unat k) seen)"
    using hs k by (auto simp: r window_rel_def dest: hs(2))
qed

lemma window_older:
  assumes rel: "window_rel s seen" and older: "unat k \<le> unat (rs_high s)"
  shows "snd (acceptCounter s k False) \<longleftrightarrow> window_accepts seen (unat k)"
    and "window_rel (fst (acceptCounter s k False))
      (if window_accepts seen (unat k) then insert (unat k) seen else seen)"
proof -
  define h b where "h = unat (rs_high s)" and "b = h - unat k"
  have k: "unat k = h - b" "b \<le> h" using older by (simp_all add: h_def b_def)
  have ub: "unat (rs_high s - k) = b" using older by (simp add: unat_sub word_le_nat_alt b_def h_def)
  have nl: "\<not> rs_high s < k" using older by (simp add: word_less_nat_alt)
  have z: "rs_high s - k = 0 \<longleftrightarrow> b = 0" by (metis ub unat_eq_0)
  have g: "32 < rs_high s - k \<longleftrightarrow> 32 < b" by (simp add: word_less_nat_alt ub)
  have hs: "h \<in> seen" "\<And>x. x \<in> seen \<Longrightarrow> x \<le> h"
    and bits: "\<And>i. i < 32 \<Longrightarrow> bit (rs_window s) i \<longleftrightarrow> i < h \<and> h - 1 - i \<in> seen"
    using rel by (auto simp: window_rel_def h_def)
  have acc: "window_accepts seen (unat k) \<longleftrightarrow> h - b \<notin> seen \<and> b \<le> 32"
    using k by (auto simp: window_accepts_high [OF rel] h_def)
  show "snd (acceptCounter s k False) \<longleftrightarrow> window_accepts seen (unat k)"
    and "window_rel (fst (acceptCounter s k False))
      (if window_accepts seen (unat k) then insert (unat k) seen else seen)"
  proof -
    consider "b = 0 \<or> 32 < b" | "0 < b" "b \<le> 32" by linarith
    then have "(snd (acceptCounter s k False) \<longleftrightarrow> window_accepts seen (unat k)) \<and>
      window_rel (fst (acceptCounter s k False))
        (if window_accepts seen (unat k) then insert (unat k) seen else seen)"
    proof cases
      case 1
      then have "acceptCounter s k False = (s, False)"
        using nl by (simp only: acceptCounter_def Let_def kReplayWindowBits_def z g if_False if_True)
      moreover have "\<not> window_accepts seen (unat k)" using 1 hs(1) by (auto simp: acc)
      ultimately show ?thesis using rel by simp
    next
      case 2
      have ub1: "unat (rs_high s - k - 1) = b - 1"
        using 2 z by (subst unat_minus_one) (auto simp: ub)
      have b1: "b - 1 < 32" "h - 1 - (b - 1) = h - b" "b - 1 < h" using 2 k by linarith+
      have t: "rs_window s AND push_bit (b - 1) 1 \<noteq> 0 \<longleftrightarrow> h - b \<in> seen"
        unfolding and_bit_iff [OF b1(1)] using bits [OF b1(1)] b1 by simp
      have nb: "\<not> (b = 0 \<or> 32 < b)" using 2 by auto
      have r: "acceptCounter s k False = (if h - b \<in> seen then (s, False)
          else (s\<lparr>rs_window := rs_window s OR push_bit (b - 1) 1\<rparr>, True))"
        unfolding acceptCounter_def Let_def kReplayWindowBits_def ub1 z g t
        by (simp only: nl nb if_False)
      have "bit (rs_window s OR push_bit (b - 1) 1) i \<longleftrightarrow> i < h \<and> h - 1 - i \<in> insert (h - b) seen"
        if i: "i < 32" for i
      proof -
        have "i < h \<and> h - 1 - i = h - b \<longleftrightarrow> i = b - 1" using 2 k by auto
        with bits [OF i] bit_one_shl [OF i b1(1)] show ?thesis by (auto simp: bit_or_iff)
      qed
      then have "window_rel (s\<lparr>rs_window := rs_window s OR push_bit (b - 1) 1\<rparr>) (insert (h - b) seen)"
        using hs by (auto simp: window_rel_def h_def [symmetric])
      with r rel 2 k acc show ?thesis by simp
    qed
    then show "snd (acceptCounter s k False) \<longleftrightarrow> window_accepts seen (unat k)"
      and "window_rel (fst (acceptCounter s k False))
        (if window_accepts seen (unat k) then insert (unat k) seen else seen)" by blast+
  qed
qed

text \<open>The simulation: away from an advance of exactly 32, the code is the specification.\<close>

lemma acceptCounter_refines:
  assumes "window_rel s seen" "unat k \<noteq> unat (rs_high s) + 32"
  shows "snd (acceptCounter s k False) \<longleftrightarrow> window_accepts seen (unat k)"
    and "window_rel (fst (acceptCounter s k False))
      (if window_accepts seen (unat k) then insert (unat k) seen else seen)"
proof -
  have "(snd (acceptCounter s k False) \<longleftrightarrow> window_accepts seen (unat k)) \<and>
    window_rel (fst (acceptCounter s k False))
      (if window_accepts seen (unat k) then insert (unat k) seen else seen)"
  proof (cases "unat k \<le> unat (rs_high s)")
    case True
    with window_older [OF assms(1)] show ?thesis by simp
  next
    case False
    then have "window_accepts seen (unat k)"
      using assms(1) by (auto simp: window_accepts_high [OF assms(1)] window_rel_def)
    with window_newer [OF assms(1) _ assms(2)] False show ?thesis by simp
  qed
  then show "snd (acceptCounter s k False) \<longleftrightarrow> window_accepts seen (unat k)"
    and "window_rel (fst (acceptCounter s k False))
      (if window_accepts seen (unat k) then insert (unat k) seen else seen)" by blast+
qed

text \<open>A sender's counters, one after the other, without a restart in between.\<close>

fun accept_run :: "replay_slot \<Rightarrow> u32 list \<Rightarrow> bool list" where
  "accept_run s [] = []"
| "accept_run s (k # ks) =
     snd (acceptCounter s k False) # accept_run (fst (acceptCounter s k False)) ks"

fun window_run :: "nat set \<Rightarrow> u32 list \<Rightarrow> bool list" where
  "window_run seen [] = []"
| "window_run seen (k # ks) =
     window_accepts seen (unat k) #
     window_run (if window_accepts seen (unat k) then insert (unat k) seen else seen) ks"

text \<open>No counter is exactly 32 ahead of the newest one before it.\<close>

fun no_edge_jump :: "nat \<Rightarrow> u32 list \<Rightarrow> bool" where
  "no_edge_jump h [] = True"
| "no_edge_jump h (k # ks) \<longleftrightarrow> unat k \<noteq> h + 32 \<and> no_edge_jump (max h (unat k)) ks"

lemma acceptCounter_high:
  "rs_high (fst (acceptCounter s k False)) = (if rs_high s < k then k else rs_high s)"
  unfolding acceptCounter_def Let_def
  by (cases s, simp only: if_distrib [of fst] if_distrib [of rs_high] fst_conv if_False
      replay_slot.select_convs replay_slot.update_convs if_cancel)

lemma accept_run_refines:
  "window_rel s seen \<Longrightarrow> no_edge_jump (unat (rs_high s)) ks \<Longrightarrow>
     accept_run s ks = window_run seen ks"
proof (induction ks arbitrary: s seen)
  case (Cons k ks)
  have "unat (rs_high (fst (acceptCounter s k False))) = max (unat (rs_high s)) (unat k)"
    by (simp add: acceptCounter_high word_less_nat_alt max_def)
  with Cons.prems Cons.IH [OF acceptCounter_refines(2) [OF Cons.prems(1)]] show ?case
    by (simp add: acceptCounter_refines(1))
qed simp


section \<open>Replays, over whole runs\<close>

lemma replay_check_inv:
  assumes "cc_inv c"
  shows "cc_inv (fst (replay_check c uid counter now))"
proof -
  obtain c' i fresh where s: "slotFor c uid now = (c', i, fresh)" by (metis prod_cases3)
  note f = slotFor_found [OF assms s]
  let ?slot = "cc_replay_slots c' ! i"
  obtain slot ok where a: "acceptCounter ?slot counter
      (fresh \<or> age_ms now (rs_last_ms ?slot) > kReplayResyncMs) = (slot, ok)" by fastforce
  have u: "rs_uid slot = uid" using acceptCounter_keeps(1) [of ?slot counter] a f(3) by (metis fst_conv)
  have d: "slots_distinct rs_uid rs_used (cc_replay_slots c')" using f(1) by (simp add: cc_inv_def)
  have cl: "slot_claimable rs_uid rs_used uid i (cc_replay_slots c')"
    using f(1,2,6) by (simp add: slot_claimable_def cc_inv_def)
  have "slots_distinct rs_uid rs_used ((cc_replay_slots c')[i := slot\<lparr>rs_last_ms := now\<rparr>])"
    "slots_distinct rs_uid rs_used ((cc_replay_slots c')[i := slot])"
    by (rule replays.distinct_update [OF d]; use cl u in simp)+
  then show ?thesis
    using f(1) unfolding replay_check_def Let_def s prod.case a
    by (cases ok) (simp_all add: cc_inv_def)
qed

lemma cc_inv_flags [simp]:
  "cc_inv (c\<lparr>cc_last_reject_replay := b\<rparr>) = cc_inv c" "cc_inv (c\<lparr>cc_bad_tag := n\<rparr>) = cc_inv c"
  by (simp_all add: cc_inv_def)

lemma cc_decrypt_inv [inv_intros]:
  assumes "cc_inv c"
  shows "cc_inv (fst (cc_decrypt c buf len now))"
proof (cases "len < 16")
  case True
  then show ?thesis using assms by (simp add: cc_decrypt_def)
next
  case False
  then obtain n where n: "len = 16 + n" by (metis le_iff_add not_less)
  obtain d ok where d: "frame_body (cc_aes c) buf n = (d, ok)" by fastforce
  have "cc_inv (fst (replay_check (c\<lparr>cc_last_reject_replay := False\<rparr>) (frame_sender buf)
      (frame_counter buf) now))"
    using assms by (intro replay_check_inv) simp
  with assms d show ?thesis unfolding n cc_decrypt_body by (auto split: prod.splits)
qed

lemma cc_begin_inv [inv_intros]: "cc_inv (cc_begin c uid key counter)"
  using replays.distinct_blank [of 16] by (simp add: cc_inv_def cc_begin_def)

lemma cc_decrypt_aes: "cc_aes (fst (replay_check c uid counter now)) = cc_aes c"
proof -
  obtain c' i fresh where s: "slotFor c uid now = (c', i, fresh)" by (metis prod_cases3)
  have "cc_aes c' = cc_aes c"
    using s by (auto simp: slotFor_def Let_def split: option.splits)
  then show ?thesis
    unfolding replay_check_def Let_def s prod.case by (simp split: prod.split)
qed

text \<open>
  The counters a receiver ought to accept from a sender: any at first contact or after ten seconds
  of silence, any newer than the newest heard, and one up to 32 behind it that was not heard.
\<close>

definition unheard :: "ccm_crypto \<Rightarrow> u32 \<Rightarrow> u32 \<Rightarrow> u32 \<Rightarrow> bool" where
  "unheard c uid counter now \<longleftrightarrow>
     (case slot_find rs_uid rs_used uid (cc_replay_slots c) of
        None \<Rightarrow> True
      | Some i \<Rightarrow>
          let s = cc_replay_slots c ! i; behind = unat (rs_high s) - unat counter
          in age_ms now (rs_last_ms s) > kReplayResyncMs \<or> unat counter > unat (rs_high s) \<or>
             0 < behind \<and> behind \<le> 32 \<and> \<not> bit (rs_window s) (behind - 1))"

lemma acceptCounter_late:
  assumes "0 < unat (rs_high s) - unat k" "unat (rs_high s) - unat k \<le> 32"
  defines "n \<equiv> unat (rs_high s) - unat k - 1"
  shows "acceptCounter s k False =
    (if bit (rs_window s) n then (s, False) else (s\<lparr>rs_window := rs_window s OR push_bit n 1\<rparr>, True))"
proof -
  have ub: "unat (rs_high s - k) = unat (rs_high s) - unat k" using assms(1) by (simp add: unat_sub word_le_nat_alt)
  have nl: "\<not> rs_high s < k" using assms(1) by (simp add: word_less_nat_alt)
  have z: "rs_high s - k \<noteq> 0" using assms(1) ub by (metis unat_0 less_irrefl)
  have g: "\<not> 32 < rs_high s - k" using assms(2) ub by (simp add: word_less_nat_alt)
  have n: "unat (rs_high s - k - 1) = n" "n < 32"
    using z assms(1,2) by (simp_all add: unat_minus_one ub n_def)
  show ?thesis
    unfolding acceptCounter_def Let_def kReplayWindowBits_def n(1) and_bit_iff [OF n(2)]
    by (simp only: nl z g if_False simp_thms)
qed

text \<open>What was accepted is refused when it comes again.\<close>

lemma acceptCounter_again:
  assumes "acceptCounter s k r = (s', True)"
  shows "acceptCounter (s'\<lparr>rs_last_ms := t\<rparr>) k False = (s'\<lparr>rs_last_ms := t\<rparr>, False)"
proof (cases "r \<or> rs_high s < k")
  case True
  then have "rs_high s' = k" using assms acceptCounter_high [of s k] by (cases r) (auto simp: acceptCounter_def)
  then show ?thesis by (simp add: acceptCounter_def)
next
  case False
  let ?d = "unat (rs_high s) - unat k"
  have le: "unat k \<le> unat (rs_high s)" using False by (simp add: word_le_nat_alt not_less)
  then have ub: "unat (rs_high s - k) = ?d" by (simp add: unat_sub word_le_nat_alt)
  have d: "0 < ?d \<and> ?d \<le> 32"
  proof (rule ccontr)
    assume "\<not> ?thesis"
    then have "?d = 0 \<or> 32 < ?d" by linarith
    then have "rs_high s - k = 0 \<or> 32 < rs_high s - k"
      using ub by (auto simp: word_less_nat_alt unat_eq_zero)
    with False have "acceptCounter s k r = (s, False)"
      by (simp only: acceptCounter_def Let_def kReplayWindowBits_def if_False if_True de_Morgan_disj simp_thms)
    with assms show False by simp
  qed
  then have l: "?d - 1 < 32" "0 < ?d" "?d \<le> 32" by linarith+
  note late = acceptCounter_late [OF l(2,3)]
  have s': "s' = s\<lparr>rs_window := rs_window s OR push_bit (?d - 1) 1\<rparr>"
    using assms False late by (simp split: if_splits)
  have "bit (rs_window s OR push_bit (?d - 1) 1) (?d - 1)" using bit_one_shl [OF l(1,1)] by (simp add: bit_or_iff)
  then show ?thesis using acceptCounter_late [of "s'\<lparr>rs_last_ms := t\<rparr>" k] l by (simp add: s')
qed

lemma replay_check_unheard:
  assumes "cc_inv c" "unheard c uid counter now"
  obtains i c' where "replay_check c uid counter now = (c', True)" "cc_inv c'"
    "slot_find rs_uid rs_used uid (cc_replay_slots c') = Some i"
    "\<not> snd (acceptCounter (cc_replay_slots c' ! i) counter False)" "rs_last_ms (cc_replay_slots c' ! i) = now"
proof -
  obtain d i fresh where s: "slotFor c uid now = (d, i, fresh)" by (metis prod_cases3)
  note f = slotFor_found [OF assms(1) s]
  let ?old = "cc_replay_slots d ! i"
  let ?reset = "fresh \<or> age_ms now (rs_last_ms ?old) > kReplayResyncMs"
  have "snd (acceptCounter ?old counter ?reset)"
  proof (cases ?reset)
    case False
    then have "d = c" "slot_find rs_uid rs_used uid (cc_replay_slots c) = Some i" using f(6,8) by auto
    with assms(2) False have "unat counter > unat (rs_high ?old) \<or> 0 < unat (rs_high ?old) - unat counter \<and>
        unat (rs_high ?old) - unat counter \<le> 32 \<and> \<not> bit (rs_window ?old) (unat (rs_high ?old) - unat counter - 1)"
      by (simp add: unheard_def Let_def)
    then show ?thesis
    proof
      assume "unat counter > unat (rs_high ?old)"
      with False show ?thesis by (simp add: acceptCounter_def word_less_nat_alt Let_def)
    next
      assume l: "0 < unat (rs_high ?old) - unat counter \<and> unat (rs_high ?old) - unat counter \<le> 32 \<and>
        \<not> bit (rs_window ?old) (unat (rs_high ?old) - unat counter - 1)"
      have "?reset = False" using False by blast
      with l show ?thesis unfolding \<open>?reset = False\<close> by (subst acceptCounter_late) simp_all
    qed
  qed (simp add: acceptCounter_def)
  then obtain slot where a: "acceptCounter ?old counter ?reset = (slot, True)" by (cases "acceptCounter ?old counter ?reset") auto
  let ?slot = "slot\<lparr>rs_last_ms := now\<rparr>"
  let ?c = "d\<lparr>cc_replay_slots := (cc_replay_slots d)[i := ?slot]\<rparr>"
  have r: "replay_check c uid counter now = (?c, True)"
    unfolding replay_check_def Let_def s prod.case a by simp
  have k: "rs_uid slot = uid" "rs_used slot" using acceptCounter_keeps [of ?old counter ?reset] a f(3,4) by simp_all
  have i: "i < length (cc_replay_slots d)" using f(1,2) by (simp add: cc_inv_def)
  have cl: "slot_claimable rs_uid rs_used (rs_uid ?slot) i (cc_replay_slots d)"
    using f(6) i k by (simp add: slot_claimable_def)
  have ds: "slots_distinct rs_uid rs_used (cc_replay_slots d)" using f(1) by (simp add: cc_inv_def)
  show ?thesis
  proof (rule that [OF r])
    show "cc_inv ?c" using replay_check_inv [OF assms(1), of uid counter now] r by simp
    show "slot_find rs_uid rs_used uid (cc_replay_slots ?c) = Some i"
      using replays.find_update_same [OF ds cl] k by simp
  qed (use i acceptCounter_again [OF a, of now] in simp_all)
qed

lemma unheard_flag [simp]: "unheard (c\<lparr>cc_last_reject_replay := b\<rparr>) = unheard c"
  by (simp add: fun_eq_iff unheard_def cong: option.case_cong)

text \<open>A counter the slot refuses, within the resync time.\<close>

lemma replay_check_again:
  assumes "cc_inv c" "slot_find rs_uid rs_used uid (cc_replay_slots c) = Some i"
    and "\<not> snd (acceptCounter (cc_replay_slots c ! i) counter False)"
    and "age_ms now (rs_last_ms (cc_replay_slots c ! i)) \<le> kReplayResyncMs"
  shows "\<exists>d. replay_check c uid counter now = (d, False) \<and> cc_last_reject_replay d"
proof -
  obtain d j fresh where s: "slotFor c uid now = (d, j, fresh)" by (metis prod_cases3)
  note f = slotFor_found [OF assms(1) s]
  from assms(2) f(7,8) have "\<not> fresh" "d = c" by auto
  moreover from this f(6) assms(2) have "j = i" by simp
  moreover obtain slot where "acceptCounter (cc_replay_slots c ! i) counter False = (slot, False)"
    using assms(3) by (cases "acceptCounter (cc_replay_slots c ! i) counter False") auto
  moreover have "(age_ms now (rs_last_ms (cc_replay_slots c ! i)) > kReplayResyncMs) = False"
    using assms(4) by (simp only: not_less [symmetric] simp_thms)
  ultimately show ?thesis
    unfolding replay_check_def Let_def s prod.case by simp
qed

lemma encryptAs_makes_sealed:
  assumes "6 \<le> len" "len + 10 \<le> cap" "cap \<le> length buf" "len < 65536"
  obtains f where "sealed aes uid ctr (take len buf) = Some f" "length f = len + 10"
    "encryptAs aes uid ctr buf len cap = (f @ drop (len + 10) buf, len + 10)"
proof -
  have l: "length (take len buf) = len" using assms by simp
  have "ccmEncrypt aes (buildNonce uid ctr) (frame_header ctr (take len buf)) (drop 6 (take len buf)) 6 \<noteq> None"
    unfolding ccmEncrypt_13 using assms by simp
  then obtain f where f: "sealed aes uid ctr (take len buf) = Some f"
    by (auto simp: sealed_def)
  from encryptAs_sealed [OF assms(1-3) f] show ?thesis by (intro that [OF f])
qed

section \<open>Properties\<close>

text \<open>C7: Only sealed packets get in: a frame that decryption accepts is, byte for byte, what
  encryption makes of the delivered packet under the receiver's key for the sender the packet
  names, and its length is what the receiver is told.\<close>

theorem decrypt_accepts_only_sealed:
  assumes "len \<le> length buf" "cc_decrypt c buf len now = (c', buf', Some n)"
  shows "\<exists>uid counter. sealed (cc_aes c) uid counter (take n buf') = Some (take len buf) \<and>
    take 4 (drop 2 (take n buf')) = put_u32 [] uid \<and> n + kFrameOverhead = len"
proof (cases "opened (cc_aes c) (take len buf)")
  case None
  with cc_decrypt_unopened [of len buf c now] assms show ?thesis by auto
next
  case (Some x)
  obtain packet uid counter where o: "opened (cc_aes c) (take len buf) = Some (packet, uid, counter)"
    using Some by (cases x) auto
  obtain d ok where r: "replay_check (c\<lparr>cc_last_reject_replay := False\<rparr>) uid counter now = (d, ok)"
    by fastforce
  from cc_decrypt_opened [OF assms(1) o r] assms(2)
  have p: "take n buf' = packet" "n = length packet" by (auto split: if_splits)
  from o have s: "6 \<le> length packet" "take 4 (drop 2 packet) = put_u32 [] uid"
    "sealed (cc_aes c) uid counter packet = Some (take len buf)"
    by (simp_all only: opened_iff_sealed)
  then have "length (take len buf) = length packet + 10" by (auto dest: length_sealed)
  with s p assms(1) show ?thesis by auto
qed

theorem decrypt_accepts_only_sealed_witness:
  "\<exists>f c' buf'. let b = cc_begin CcmCrypto 8 (replicate 16 9) 0 in
     length f = 17 \<and> cc_decrypt b f 17 1000 = (c', buf', Some 7) \<and>
     (\<exists>uid counter. sealed (cc_aes b) uid counter (take 7 buf') = Some (take 17 f) \<and>
        take 4 (drop 2 (take 7 buf')) = put_u32 [] uid \<and> 7 + kFrameOverhead = 17)"
proof -
  define b where "b = cc_begin CcmCrypto 8 (replicate 16 9) 0"
  define p :: byte_list where "p = [2, 1, 7, 0, 0, 0, 55]"
  have p: "length p = 7" "take 4 (drop 2 p) = put_u32 [] 7" by (simp_all add: p_def put_u32_cells)
  obtain f where f: "sealed (cc_aes b) 7 42 p = Some f" "length f = 17"
    using encryptAs_makes_sealed [of 7 17 "p @ replicate 10 0" "cc_aes b" 7 42] p(1) by auto
  have o: "opened (cc_aes b) (take 17 f) = Some (p, 7, 42)"
    unfolding opened_iff_sealed using f p by simp
  have "cc_inv (b\<lparr>cc_last_reject_replay := False\<rparr>)"
    using cc_begin_inv [of CcmCrypto 8 "replicate 16 9" 0] by (simp add: b_def cc_inv_def)
  moreover have "slot_find rs_uid rs_used 7 (cc_replay_slots (b\<lparr>cc_last_reject_replay := False\<rparr>)) = None"
    by (simp add: b_def cc_begin_def replays.find_None_iff ReplaySlot_def)
  then have "unheard (b\<lparr>cc_last_reject_replay := False\<rparr>) 7 42 1000" by (simp add: unheard_def)
  ultimately obtain d where r: "replay_check (b\<lparr>cc_last_reject_replay := False\<rparr>) 7 42 1000 = (d, True)"
    by (metis replay_check_unheard)
  have "\<exists>buf'. cc_decrypt b f 17 1000 = (d, buf', Some 7)"
    using cc_decrypt_opened [OF _ o r] f(2) p(1) by auto
  then obtain buf' where d: "cc_decrypt b f 17 1000 = (d, buf', Some 7)" by blast
  have "17 \<le> length f" using f(2) by simp
  from decrypt_accepts_only_sealed [OF this d] d f(2) show ?thesis
    unfolding b_def [symmetric] Let_def by blast
qed



text \<open>The replay table stays well formed over any sequence of received frames: sixteen slots,
  and never two of them for one sender, so no sender's window can be bypassed through a second
  slot.\<close>

theorem replay_slots_distinct:
  "cc_inv (fold (\<lambda>(buf, len, now) c. fst (cc_decrypt c buf len now)) frames (cc_begin c uid key k))"
proof -
  have "cc_inv c \<Longrightarrow> cc_inv (fold (\<lambda>(buf, len, now) c. fst (cc_decrypt c buf len now)) frames c)" for c
    by (induction frames arbitrary: c) (auto intro: cc_decrypt_inv)
  then show ?thesis by (simp add: cc_begin_inv)
qed

text \<open>C9: The replay window implements its specification: after a window has started at a
  counter, a run of counters is accepted exactly as a receiver would that remembers every counter
  it accepted and refuses those seen before and those more than 32 behind the newest, provided no
  counter is exactly 32 ahead of the newest before it.\<close>

theorem replay_window_refines:
  assumes "no_edge_jump (unat k) ks"
  shows "accept_run (fst (acceptCounter slot k True)) ks = window_run {unat k} ks"
  by (rule accept_run_refines [OF window_reset]) (use assms in \<open>simp add: acceptCounter_def\<close>)

theorem replay_window_refines_witness:
  "no_edge_jump (unat (5 :: u32)) [7, 6, 6, 60, 40, 7] \<and>
   accept_run (fst (acceptCounter ReplaySlot 5 True)) [7, 6, 6, 60, 40, 7] =
     window_run {unat (5 :: u32)} [7, 6, 6, 60, 40, 7]"
proof -
  have n: "no_edge_jump (unat (5 :: u32)) [7, 6, 6, 60, 40, 7]" by simp
  from replay_window_refines [OF n, of ReplaySlot] n show ?thesis by blast
qed

text \<open>C10: At an advance of exactly 32 the window forgets the counter it was at: from every state of a
  slot that stands for the set of the counters heard, the counter 32 above the newest is accepted
  and then the one that was the newest is accepted a second time, where the specification refuses
  it.\<close>

theorem replay_window_edge_replay:
  assumes "window_rel slot seen" "unat (rs_high slot) + 32 < 2 ^ 32"
  shows "accept_run slot [rs_high slot + 32, rs_high slot] = [True, True] \<and>
    window_run seen [rs_high slot + 32, rs_high slot] = [True, False] \<and> unat (rs_high slot) \<in> seen"
proof -
  let ?h = "rs_high slot"
  have u: "unat (?h + 32) = unat ?h + 32" using assms(2) by (simp add: unat_word_ariths)
  then have gt: "?h < ?h + 32" by (simp add: word_less_nat_alt)
  let ?s = "slot\<lparr>rs_window := 0, rs_high := ?h + 32\<rparr>"
  have one: "acceptCounter slot (?h + 32) False = (?s, True)" using gt by (simp add: acceptCounter_def Let_def)
  have "0 < unat (rs_high ?s) - unat ?h" "unat (rs_high ?s) - unat ?h \<le> 32" using u by simp_all
  from acceptCounter_late [OF this] have "snd (acceptCounter ?s ?h False)" by simp
  moreover have "unat ?h \<in> seen" "\<forall>k \<in> seen. k \<le> unat ?h" using assms(1) by (simp_all add: window_rel_def)
  ultimately show ?thesis using one u by (auto simp: window_accepts_def dest: bspec)
qed

theorem replay_window_edge_replay_witness:
  "accept_run (fst (acceptCounter ReplaySlot 5 True)) [37, 5] = [True, True] \<and> window_run {5} [37, 5] = [True, False]"
proof -
  let ?s = "fst (acceptCounter ReplaySlot 5 True)"
  have "rs_high ?s = 5" by (simp add: acceptCounter_def)
  with replay_window_edge_replay [OF window_reset [of ReplaySlot 5]] show ?thesis
    by (simp del: accept_run.simps window_run.simps)
qed

end
