(* ===== verification/Node_Deps.thy ===== *)
theory Node_Deps
  imports Crypto Rate_Control
begin

text \<open>
  What a node is wired to (node.h): its own position, the frame cipher behind \<open>ICrypto\<close> with
  its two implementations (crypto.cpp and src/hal/PassthroughCrypto.h), and the radios behind
  \<open>IRadioSet\<close>, which is the \<open>RadioHub\<close> of radio_hub.h and radio_hub.cpp. A radio driver is
  hardware: here it is what the hub can ask of it.
\<close>

section \<open>Position source\<close>

record node_location =
  loc_valid :: bool
  loc_armed :: bool
  loc_lat :: i32
  loc_lon :: i32
  loc_alt_m :: i16
  loc_speed_cms :: u16
  loc_course_ddeg :: u16
  loc_sats :: u8
  loc_fix_type :: u8
  loc_hdop :: u16

definition NodeLocation :: node_location where
  "NodeLocation = \<lparr>loc_valid = False, loc_armed = False, loc_lat = 0, loc_lon = 0, loc_alt_m = 0,
     loc_speed_cms = 0, loc_course_ddeg = 0, loc_sats = 0, loc_fix_type = 0, loc_hdop = 0\<rparr>"

section \<open>Cipher\<close>

definition pass_encrypt :: "unit \<Rightarrow> byte_list \<Rightarrow> nat \<Rightarrow> nat \<Rightarrow> unit \<times> byte_list \<times> nat" where
  "pass_encrypt c buf len cap = (c, buf, len)"

definition pass_decrypt :: "unit \<Rightarrow> byte_list \<Rightarrow> nat \<Rightarrow> u32 \<Rightarrow> unit \<times> byte_list \<times> nat option" where
  "pass_decrypt c buf len now_ms = (c, buf, Some len)"

text \<open>The object an \<open>ICrypto*\<close> points to, and its virtual calls.\<close>

datatype icrypto = UseCcm ccm_crypto | UsePassthrough

fun crypto_encrypt :: "icrypto \<Rightarrow> byte_list \<Rightarrow> nat \<Rightarrow> nat \<Rightarrow> icrypto \<times> byte_list \<times> nat" where
  "crypto_encrypt (UseCcm c) buf len cap =
     (let (c, buf, n) = cc_encrypt c buf len cap in (UseCcm c, buf, n))"
| "crypto_encrypt UsePassthrough buf len cap =
     (let (_, buf, n) = pass_encrypt () buf len cap in (UsePassthrough, buf, n))"

fun crypto_decrypt :: "icrypto \<Rightarrow> byte_list \<Rightarrow> nat \<Rightarrow> u32 \<Rightarrow> icrypto \<times> byte_list \<times> nat option" where
  "crypto_decrypt (UseCcm c) buf len now_ms =
     (let (c, buf, r) = cc_decrypt c buf len now_ms in (UseCcm c, buf, r))"
| "crypto_decrypt UsePassthrough buf len now_ms =
     (let (_, buf, r) = pass_decrypt () buf len now_ms in (UsePassthrough, buf, r))"

fun lastRejectWasReplay :: "icrypto \<Rightarrow> bool" where
  "lastRejectWasReplay (UseCcm c) = cc_last_reject_replay c"
| "lastRejectWasReplay UsePassthrough = False"

section \<open>Radios\<close>

record rx_frame =
  rx_timestamp_ms :: u32
  rx_rssi :: i16
  rx_len :: u8
  rx_data :: byte_list

text \<open>
  \<open>dr_rx\<close> are the frames that \<open>popRx\<close> hands out, in order, once \<open>serviceRx\<close> has run.
\<close>

record radio_driver =
  dr_enabled :: bool
  dr_transmits :: bool
  dr_airtime :: "nat \<Rightarrow> dbl"
  dr_rx :: "rx_frame list"

type_synonym radio_hub = "radio_driver list"

definition hub_add :: "radio_hub \<Rightarrow> radio_driver option \<Rightarrow> radio_hub \<times> bool" where
  "hub_add hub driver =
     (case driver of
        None \<Rightarrow> (hub, False)
      | Some d \<Rightarrow> if length hub \<ge> kMaxRadios then (hub, False) else (hub @ [d], True))"

definition radioEnabled :: "radio_hub \<Rightarrow> nat \<Rightarrow> bool" where
  "radioEnabled hub index \<longleftrightarrow> index < length hub \<and> dr_enabled (hub ! index)"

definition radioTransmits :: "radio_hub \<Rightarrow> nat \<Rightarrow> bool" where
  "radioTransmits hub index \<longleftrightarrow> radioEnabled hub index \<and> dr_transmits (hub ! index)"

definition airtimeMs :: "radio_hub \<Rightarrow> nat \<Rightarrow> nat \<Rightarrow> dbl" where
  "airtimeMs hub index payload_len =
     (if index \<ge> length hub then 0 else dr_airtime (hub ! index) payload_len)"

text \<open>What goes out of a node: a frame handed to a radio, and a peer handed to the radar sink.\<close>

datatype node_output = Transmit nat byte_list | RadarPosition u8 peer

definition hub_transmit :: "radio_hub \<Rightarrow> nat \<Rightarrow> byte_list \<Rightarrow> node_output list" where
  "hub_transmit hub index data =
     (if index < length hub \<and> dr_enabled (hub ! index) then [Transmit index data] else [])"

section \<open>The contract of a frame cipher\<close>

text \<open>
  What the node relies on: both calls work in place and inside the buffer, and a decrypted
  packet is no longer than its frame.
\<close>

locale frame_cipher =
  fixes encrypt :: "'k \<Rightarrow> byte_list \<Rightarrow> nat \<Rightarrow> nat \<Rightarrow> 'k \<times> byte_list \<times> nat"
    and decrypt :: "'k \<Rightarrow> byte_list \<Rightarrow> nat \<Rightarrow> u32 \<Rightarrow> 'k \<times> byte_list \<times> nat option"
    and inv :: "'k \<Rightarrow> bool"
  assumes encrypt_in_place:
      "inv c \<Longrightarrow> length buf = cap \<Longrightarrow> len \<le> cap \<Longrightarrow> len < 65536 \<Longrightarrow> encrypt c buf len cap = (c', b, n) \<Longrightarrow>
         inv c' \<and> length b = cap \<and> n \<le> cap"
    and decrypt_in_place:
      "inv c \<Longrightarrow> len \<le> length buf \<Longrightarrow> decrypt c buf len now = (c', b, r) \<Longrightarrow>
         inv c' \<and> (\<forall>n. r = Some n \<longrightarrow> length b = length buf \<and> n \<le> len)"
begin

lemma encrypt_frame:
  assumes "inv c" "length buf = cap" "len \<le> cap" "len < 65536" "encrypt c buf len cap = (c', b, n)"
  shows "inv c'" "length (take n b) = n"
  using encrypt_in_place [OF assms] by simp_all

lemma decrypt_packet:
  assumes "inv c" "len \<le> length buf" "decrypt c buf len now = (c', b, Some n)"
  shows "inv c'" "length (take n b) = n" "n \<le> len"
  using decrypt_in_place [OF assms] assms(2) by auto

lemma decrypt_keeps:
  assumes "inv c" "len \<le> length buf"
  shows "inv (fst (decrypt c buf len now))"
proof -
  obtain c' b r where d: "decrypt c buf len now = (c', b, r)" by (metis prod_cases3)
  from decrypt_in_place [OF assms d] d show ?thesis by simp
qed

end

lemma cc_encrypt_in_place:
  assumes "length buf = cap" "len \<le> cap" "len < 65536" "cc_encrypt c buf len cap = (c', b, n)"
  shows "length b = cap \<and> n \<le> cap"
proof (cases "6 \<le> len \<and> len + 10 \<le> cap")
  case True
  then have l: "6 \<le> len" "len + 10 \<le> cap" "cap \<le> length buf" using assms(1) by simp_all
  obtain f where "length f = len + 10" "encryptAs (cc_aes c) (cc_uid c) (cc_counter c + 1) buf len cap =
      (f @ drop (len + 10) buf, len + 10)"
    using encryptAs_makes_sealed [OF l assms(3)] by blast
  with assms True show ?thesis by (auto simp: cc_encrypt_def Let_def)
next
  case False
  then have "encryptAs k u x buf len cap = (buf, 0)" for k u x
    by (auto simp: encryptAs_def)
  with assms show ?thesis by (auto simp: cc_encrypt_def Let_def)
qed

lemma cc_decrypt_in_place:
  assumes "len \<le> length buf" "cc_decrypt c buf len now = (c', b, Some n)"
  shows "length b = length buf \<and> n \<le> len"
proof (cases "opened (cc_aes c) (take len buf)")
  case None
  with cc_decrypt_unopened [OF assms(1), of c now] assms(2) show ?thesis by auto
next
  case (Some x)
  then obtain packet uid counter where o: "opened (cc_aes c) (take len buf) = Some (packet, uid, counter)"
    by (cases x) auto
  obtain d ok where r: "replay_check (c\<lparr>cc_last_reject_replay := False\<rparr>) uid counter now = (d, ok)"
    by fastforce
  have "length (take len buf) = length packet + 10"
    using o length_sealed [of "cc_aes c" uid counter packet] by (simp only: opened_iff_sealed)
  with cc_decrypt_opened [OF assms(1) o r] assms show ?thesis by (auto split: if_splits)
qed

interpretation ccm_cipher: frame_cipher cc_encrypt cc_decrypt cc_inv
proof
  fix c buf cap len c' b n
  assume a: "cc_inv c" "length buf = cap" "len \<le> cap" "len < 65536" "cc_encrypt c buf len cap = (c', b, n)"
  then have "cc_inv c'" by (auto simp: cc_encrypt_def Let_def cc_inv_def)
  with cc_encrypt_in_place [OF a(2-5)] show "cc_inv c' \<and> length b = cap \<and> n \<le> cap" by simp
next
  fix c len buf now c' b r
  assume a: "cc_inv c" "len \<le> length buf" "cc_decrypt c buf len now = (c', b, r)"
  then show "cc_inv c' \<and> (\<forall>n. r = Some n \<longrightarrow> length b = length buf \<and> n \<le> len)"
    using cc_decrypt_inv [OF a(1), of buf len now] cc_decrypt_in_place [OF a(2), of c now c' b] by auto
qed

fun crypto_inv :: "icrypto \<Rightarrow> bool" where
  "crypto_inv (UseCcm c) = cc_inv c"
| "crypto_inv UsePassthrough = True"

interpretation node_cipher: frame_cipher crypto_encrypt crypto_decrypt crypto_inv
proof
  fix c buf cap len c' b n
  assume a: "crypto_inv c" "length buf = cap" "len \<le> cap" "len < 65536"
    "crypto_encrypt c buf len cap = (c', b, n)"
  then show "crypto_inv c' \<and> length b = cap \<and> n \<le> cap"
  proof (cases c)
    case (UseCcm k)
    with a ccm_cipher.encrypt_in_place [of k buf cap len] show ?thesis by (auto split: prod.splits)
  qed (auto simp: pass_encrypt_def)
next
  fix c len buf now c' b r
  assume a: "crypto_inv c" "len \<le> length buf" "crypto_decrypt c buf len now = (c', b, r)"
  then show "crypto_inv c' \<and> (\<forall>n. r = Some n \<longrightarrow> length b = length buf \<and> n \<le> len)"
  proof (cases c)
    case (UseCcm k)
    with a ccm_cipher.decrypt_in_place [of k len buf now] show ?thesis by (auto split: prod.splits)
  qed (auto simp: pass_decrypt_def)
qed

end
