(* ===== verification/Node.thy ===== *)
theory Node
  imports Node_Deps Scheduler Frame_Log
begin

text \<open>
  lib/ff_core/node.h and node.cpp: the application core. A \<open>node\<close> holds the fields of the C++
  object, the objects its \<open>NodeDeps\<close> point to (a null pointer is \<open>None\<close>), and in \<open>nd_out\<close> what
  it has handed to the radios and the radar sink so far. The random source is a function of the
  number of samples drawn. \<open>nd_fault\<close> records that the conversion of a beacon delay to an
  integer was undefined; Node_Props shows that it never is for the configurations in use.
\<close>

section \<open>State\<close>

definition kMaxRxFrame :: nat where [simp]: "kMaxRxFrame = 64"

datatype node_task = BeaconTick nat | AnnounceTick | ExpireTick | RadarTick

record node_stats =
  st_beacons_sent :: u32
  st_announces_sent :: u32
  st_rx_ok :: u32
  st_rx_rejected :: u32
  st_rx_self :: u32
  st_last_tx_ms :: u32

definition NodeStats :: node_stats where
  "NodeStats = \<lparr>st_beacons_sent = 0, st_announces_sent = 0, st_rx_ok = 0, st_rx_rejected = 0,
     st_rx_self = 0, st_last_tx_ms = 0\<rparr>"

record radio_stats =
  ra_tx :: u32
  ra_rx_ok :: u32
  ra_rx_crypto_fail :: u32
  ra_rx_replay :: u32
  ra_rx_decode_fail :: u32
  ra_rx_self :: u32
  ra_last_rx_ms :: u32
  ra_last_rssi :: i16
  ra_beacon_interval_ms :: u32
  ra_airtime_ms :: dbl

definition RadioStats :: radio_stats where
  "RadioStats = \<lparr>ra_tx = 0, ra_rx_ok = 0, ra_rx_crypto_fail = 0, ra_rx_replay = 0,
     ra_rx_decode_fail = 0, ra_rx_self = 0, ra_last_rx_ms = 0, ra_last_rssi = 0,
     ra_beacon_interval_ms = 0, ra_airtime_ms = 0\<rparr>"

record node_config =
  nc_uid :: u32
  nc_name :: byte_list
  nc_capabilities :: u32
  nc_rate :: rate_config
  nc_peer_timeout_ms :: u32
  nc_announce_interval_ms :: u32
  nc_expire_interval_ms :: u32
  nc_msp_radar_interval_ms :: u32
  nc_listen_only :: bool

record node_deps =
  de_radios :: "radio_hub option"
  de_location :: "node_location option"
  de_crypto :: "icrypto option"
  de_msp_radar_sink :: bool
  de_rng :: "(nat \<Rightarrow> flt) option"

record node =
  nd_cfg :: node_config
  nd_deps :: node_deps
  nd_sched :: "node_task scheduler"
  nd_peers :: peer_table
  nd_rate :: rate_controller
  nd_stats :: node_stats
  nd_radio_stats :: "radio_stats list"
  nd_frames :: frame_log
  nd_radio_count :: nat
  nd_airtime :: "dbl list"
  nd_beacon_timer :: "timer_handle list"
  nd_announce_timer :: timer_handle
  nd_expire_timer :: timer_handle
  nd_msp_radar_timer :: timer_handle
  nd_msp_radar_cursor :: nat
  nd_samples :: nat
  nd_out :: "node_output list"
  nd_fault :: bool

text \<open>The handles of the beacon timers are not initialised by the constructor and not read
  before \<open>begin\<close> sets them; here they start at 0.\<close>

definition Node :: "node_config \<Rightarrow> node_deps \<Rightarrow> node" where
  "Node cfg deps =
     \<lparr>nd_cfg = cfg, nd_deps = deps, nd_sched = Scheduler,
      nd_peers = PeerTable (nc_peer_timeout_ms cfg), nd_rate = RateController (nc_rate cfg),
      nd_stats = NodeStats, nd_radio_stats = replicate kMaxRadios RadioStats, nd_frames = FrameLog,
      nd_radio_count = 0, nd_airtime = replicate kMaxRadios 0,
      nd_beacon_timer = replicate kMaxRadios 0, nd_announce_timer = kInvalidTimer,
      nd_expire_timer = kInvalidTimer, nd_msp_radar_timer = kInvalidTimer,
      nd_msp_radar_cursor = 0, nd_samples = 0, nd_out = [], nd_fault = False\<rparr>"

text \<open>Updates of one radio's counters, and the calls through the cipher pointer.\<close>

definition upd_radio :: "nat \<Rightarrow> (radio_stats \<Rightarrow> radio_stats) \<Rightarrow> node \<Rightarrow> node" where
  "upd_radio i f w = w\<lparr>nd_radio_stats := (nd_radio_stats w)[i := f (nd_radio_stats w ! i)]\<rparr>"

definition upd_stats :: "(node_stats \<Rightarrow> node_stats) \<Rightarrow> node \<Rightarrow> node" where
  "upd_stats f w = w\<lparr>nd_stats := f (nd_stats w)\<rparr>"

definition set_crypto :: "icrypto \<Rightarrow> node \<Rightarrow> node" where
  "set_crypto k w = w\<lparr>nd_deps := (nd_deps w)\<lparr>de_crypto := Some k\<rparr>\<rparr>"

definition node_encrypt :: "node \<Rightarrow> byte_list \<Rightarrow> nat \<Rightarrow> node \<times> byte_list \<times> nat" where
  "node_encrypt w buf len =
     (case de_crypto (nd_deps w) of
        None \<Rightarrow> (w, buf, len)
      | Some c \<Rightarrow> let (c, buf, n) = crypto_encrypt c buf len kMaxRxFrame in (set_crypto c w, buf, n))"

text \<open>A local buffer of 64 bytes that starts with the given bytes.\<close>

definition frame_buf :: "byte_list \<Rightarrow> byte_list" where
  "frame_buf bs = bs @ replicate (kMaxRxFrame - length bs) 0"

section \<open>Transmission\<close>

definition logFrame ::
  "node \<Rightarrow> nat \<Rightarrow> u32 \<Rightarrow> nat \<Rightarrow> i16 \<Rightarrow> u8 \<Rightarrow> frame_result \<Rightarrow> node" where
  "logFrame w radio_index uid len rssi ty result =
     w\<lparr>nd_frames := fl_add (nd_frames w)
        \<lparr>fe_ms = sc_now_ms (nd_sched w), fe_uid = uid, fe_len = of_nat len, fe_rssi = rssi,
         fe_radio = of_nat radio_index, fe_type = ty, fe_result = result\<rparr>\<rparr>"

definition nextBeaconDelayMs :: "node \<Rightarrow> nat \<Rightarrow> node \<times> u32 option" where
  "nextBeaconDelayMs w index =
     (let active = of_nat (countActiveOn (nd_peers w) index (sc_now_ms (nd_sched w)));
          (w, r) = (case de_rng (nd_deps w) of
             None \<Rightarrow> (w, 1 / 2)
           | Some rng \<Rightarrow> (w\<lparr>nd_samples := nd_samples w + 1\<rparr>, rng (nd_samples w)))
      in (w, nextDelayMs (rt_cfg (nd_rate w)) active r (nd_airtime w ! index)))"

definition beacon_packet :: "node_config \<Rightarrow> node_location \<Rightarrow> position_packet" where
  "beacon_packet cfg loc =
     \<lparr>pp_uid = nc_uid cfg, pp_lat = loc_lat loc, pp_lon = loc_lon loc, pp_alt_m = loc_alt_m loc,
      pp_speed_cms = loc_speed_cms loc, pp_course_ddeg = loc_course_ddeg loc,
      pp_flags = (if loc_valid loc then POSITION_FLAG_HAS_FIX else 0) OR
                 (if loc_armed loc then POSITION_FLAG_ARMED else 0)\<rparr>"

definition sendBeacon :: "node \<Rightarrow> nat \<Rightarrow> node" where
  "sendBeacon w index =
     (case de_radios (nd_deps w) of
        None \<Rightarrow> w
      | Some hub \<Rightarrow>
          if \<not> radioTransmits hub index then w
          else
            let loc = (case de_location (nd_deps w) of None \<Rightarrow> NodeLocation | Some l \<Rightarrow> l);
                pkt = encodePosition (beacon_packet (nd_cfg w) loc) kMaxRxFrame
            in if length pkt = 0 then w
               else
                 let (w, buf, len) = node_encrypt w (frame_buf pkt) (length pkt)
                 in if len = 0 then w
                    else
                      let w = w\<lparr>nd_out := nd_out w @ hub_transmit hub index (take len buf)\<rparr>;
                          w = upd_stats (\<lambda>s. s\<lparr>st_beacons_sent := st_beacons_sent s + 1,
                                 st_last_tx_ms := sc_now_ms (nd_sched w)\<rparr>) w;
                          w = upd_radio index (\<lambda>s. s\<lparr>ra_tx := ra_tx s + 1\<rparr>) w
                      in logFrame w index (nc_uid (nd_cfg w)) len 0 (packet_type_byte Position) Tx)"

definition onBeaconTick :: "node \<Rightarrow> nat \<Rightarrow> node" where
  "onBeaconTick w index =
     (let w = sendBeacon w index;
          (w, delay) = nextBeaconDelayMs w index
      in case delay of
           None \<Rightarrow> w\<lparr>nd_fault := True\<rparr>
         | Some delay \<Rightarrow>
             let w = upd_radio index (\<lambda>s. s\<lparr>ra_beacon_interval_ms := delay\<rparr>) w
             in w\<lparr>nd_sched := sched_rearm (nd_sched w) (nd_beacon_timer w ! index) delay\<rparr>)"

text \<open>The name of the announce is copied into a zeroed buffer up to its NUL.\<close>

definition announce_of :: "node_config \<Rightarrow> announce_packet" where
  "announce_of cfg = \<lparr>an_uid = nc_uid cfg,
     an_name = take (boundedLen (nc_name cfg) kMaxNameLen) (nc_name cfg) @
               replicate (kMaxNameLen + 1 - boundedLen (nc_name cfg) kMaxNameLen) 0,
     an_capabilities = nc_capabilities cfg\<rparr>"

fun announce_on :: "radio_hub \<Rightarrow> byte_list \<Rightarrow> nat list \<Rightarrow> bool \<Rightarrow> node \<Rightarrow> node \<times> bool" where
  "announce_on hub plain [] sent w = (w, sent)"
| "announce_on hub plain (i # is) sent w =
     (if \<not> radioTransmits hub i then announce_on hub plain is sent w
      else
        let (w, buf, len) = node_encrypt w (frame_buf plain) (length plain)
        in if len = 0 then announce_on hub plain is sent w
           else
             let w = w\<lparr>nd_out := nd_out w @ hub_transmit hub i (take len buf)\<rparr>;
                 w = upd_radio i (\<lambda>s. s\<lparr>ra_tx := ra_tx s + 1\<rparr>) w;
                 w = logFrame w i (nc_uid (nd_cfg w)) len 0 (packet_type_byte Announce) Tx
             in announce_on hub plain is True w)"

definition sendAnnounce :: "node \<Rightarrow> node" where
  "sendAnnounce w =
     (case de_radios (nd_deps w) of
        None \<Rightarrow> w
      | Some hub \<Rightarrow>
          let plain = encodeAnnounce (announce_of (nd_cfg w)) kMaxRxFrame
          in if length plain = 0 then w
             else
               let (w, sent) = announce_on hub plain [0..<nd_radio_count w] False w
               in if \<not> sent then w
                  else upd_stats (\<lambda>s. s\<lparr>st_announces_sent := st_announces_sent s + 1,
                         st_last_tx_ms := sc_now_ms (nd_sched w)\<rparr>) w)"

section \<open>Radar output\<close>

fun radar_scan :: "nat \<Rightarrow> node \<Rightarrow> node" where
  "radar_scan 0 w = w"
| "radar_scan (Suc tries) w =
     (let idx = nd_msp_radar_cursor w;
          w = w\<lparr>nd_msp_radar_cursor := (idx + 1) mod kMaxPeers\<rparr>
      in case pt_at (nd_peers w) idx of
           Some peer \<Rightarrow> w\<lparr>nd_out := nd_out w @ [RadarPosition (of_nat (idx + 1)) peer]\<rparr>
         | None \<Rightarrow> radar_scan tries w)"

definition onMspRadarTick :: "node \<Rightarrow> node" where
  "onMspRadarTick w =
     (if \<not> de_msp_radar_sink (nd_deps w) then w else radar_scan kMaxPeers w)"

section \<open>Timers\<close>

fun node_run :: "node_task \<Rightarrow> node \<Rightarrow> node" where
  "node_run (BeaconTick index) w = onBeaconTick w index"
| "node_run AnnounceTick w = sendAnnounce w"
| "node_run ExpireTick w = w\<lparr>nd_peers := pt_expire (nd_peers w) (sc_now_ms (nd_sched w))\<rparr>"
| "node_run RadarTick w = onMspRadarTick w"

definition put_sched :: "node_task scheduler \<Rightarrow> node \<Rightarrow> node" where
  "put_sched s w = w\<lparr>nd_sched := s\<rparr>"

definition node_poll :: "node \<Rightarrow> u32 \<Rightarrow> (u32 \<times> node) option" where
  "node_poll w now_ms = sched_poll node_run nd_sched put_sched now_ms w"

text \<open>One radio of \<open>begin\<close>'s loop, then \<open>begin\<close>.\<close>

definition begin_radio :: "radio_hub \<Rightarrow> nat \<Rightarrow> node \<Rightarrow> node" where
  "begin_radio hub i w =
     (let air = airtimeMs hub i kPositionFrameSize;
          w = w\<lparr>nd_airtime := (nd_airtime w)[i := air]\<rparr>;
          w = upd_radio i (\<lambda>s. s\<lparr>ra_airtime_ms := air\<rparr>) w
      in if nc_listen_only (nd_cfg w) then w
         else
           let (w, delay) = nextBeaconDelayMs w i
           in case delay of
                None \<Rightarrow> w\<lparr>nd_fault := True\<rparr>
              | Some delay \<Rightarrow>
                  let (s, h) = sched_after (nd_sched w) delay (BeaconTick i)
                  in w\<lparr>nd_sched := s, nd_beacon_timer := (nd_beacon_timer w)[i := h]\<rparr>)"

definition start_every :: "u32 \<Rightarrow> node_task \<Rightarrow> (timer_handle \<Rightarrow> node \<Rightarrow> node) \<Rightarrow> node \<Rightarrow> node" where
  "start_every period_ms task keep w =
     (let (s, h) = sched_every (nd_sched w) period_ms task in keep h (w\<lparr>nd_sched := s\<rparr>))"

definition node_begin :: "node \<Rightarrow> u32 \<Rightarrow> node option" where
  "node_begin w now_ms =
     (case node_poll w now_ms of
        None \<Rightarrow> None
      | Some (_, w) \<Rightarrow> Some (
          let w = w\<lparr>nd_radio_count := (case de_radios (nd_deps w) of
                      None \<Rightarrow> 0 | Some hub \<Rightarrow> min (length hub) kMaxRadios),
                   nd_beacon_timer := replicate kMaxRadios kInvalidTimer\<rparr>;
              w = (case de_radios (nd_deps w) of
                     None \<Rightarrow> w
                   | Some hub \<Rightarrow> fold (begin_radio hub) [0..<nd_radio_count w] w);
              w = (if nc_listen_only (nd_cfg w) then w
                   else start_every (nc_announce_interval_ms (nd_cfg w)) AnnounceTick
                          (\<lambda>h w. w\<lparr>nd_announce_timer := h\<rparr>) w);
              w = start_every (nc_expire_interval_ms (nd_cfg w)) ExpireTick
                    (\<lambda>h w. w\<lparr>nd_expire_timer := h\<rparr>) w
          in if de_msp_radar_sink (nd_deps w)
             then start_every (nc_msp_radar_interval_ms (nd_cfg w)) RadarTick
                    (\<lambda>h w. w\<lparr>nd_msp_radar_timer := h\<rparr>) (w\<lparr>nd_msp_radar_cursor := 0\<rparr>)
             else w))"

section \<open>Reception\<close>

text \<open>The three ways a frame is refused or ignored, and the way it is accepted.\<close>

definition rx_drop :: "node \<Rightarrow> nat \<Rightarrow> (radio_stats \<Rightarrow> radio_stats) \<Rightarrow> node" where
  "rx_drop w ri count =
     upd_radio ri count (upd_stats (\<lambda>s. s\<lparr>st_rx_rejected := st_rx_rejected s + 1\<rparr>) w)"

definition decode_fail :: "radio_stats \<Rightarrow> radio_stats" where
  "decode_fail s = s\<lparr>ra_rx_decode_fail := ra_rx_decode_fail s + 1\<rparr>"

definition rx_accept :: "node \<Rightarrow> nat \<Rightarrow> node" where
  "rx_accept w ri =
     upd_radio ri (\<lambda>s. s\<lparr>ra_rx_ok := ra_rx_ok s + 1\<rparr>)
       (upd_stats (\<lambda>s. s\<lparr>st_rx_ok := st_rx_ok s + 1\<rparr>) w)"

text \<open>The part of \<open>onReceive\<close> behind the cipher: \<open>packet\<close> is the plaintext, \<open>len\<close> the length of
  the frame it came in.\<close>

definition rx_packet ::
  "node \<Rightarrow> nat \<Rightarrow> byte_list \<Rightarrow> nat \<Rightarrow> u32 \<Rightarrow> i16 \<Rightarrow> nat \<Rightarrow> node" where
  "rx_packet w ri packet len now_ms rssi radio_index =
     (case the (peekHeader packet) of
        Inl e \<Rightarrow> logFrame (rx_drop w ri decode_fail) radio_index 0 len rssi 0 DecodeFail
      | Inr hdr \<Rightarrow>
          let ty = packet_type_byte (h_type hdr)
          in if h_uid hdr = nc_uid (nd_cfg w) then
               logFrame (upd_radio ri (\<lambda>s. s\<lparr>ra_rx_self := ra_rx_self s + 1\<rparr>)
                   (upd_stats (\<lambda>s. s\<lparr>st_rx_self := st_rx_self s + 1\<rparr>) w))
                 radio_index (h_uid hdr) len rssi ty Self
             else
               (case h_type hdr of
                  Position \<Rightarrow>
                    (case the (decodePosition packet) of
                       Inl e \<Rightarrow> logFrame (rx_drop w ri decode_fail) radio_index (h_uid hdr) len rssi ty DecodeFail
                     | Inr pkt \<Rightarrow>
                         logFrame (rx_accept (w\<lparr>nd_peers :=
                             fst (updatePosition (nd_peers w) pkt now_ms rssi radio_index)\<rparr>) ri)
                           radio_index (h_uid hdr) len rssi ty RxOk)
                | Announce \<Rightarrow>
                    (case the (decodeAnnounce packet) of
                       Inl e \<Rightarrow> logFrame (rx_drop w ri decode_fail) radio_index (h_uid hdr) len rssi ty DecodeFail
                     | Inr pkt \<Rightarrow>
                         logFrame (rx_accept (w\<lparr>nd_peers :=
                             fst (updateAnnounce (nd_peers w) pkt now_ms radio_index)\<rparr>) ri)
                           radio_index (h_uid hdr) len rssi ty RxOk)))"

definition onReceive :: "node \<Rightarrow> byte_list \<Rightarrow> u32 \<Rightarrow> i16 \<Rightarrow> nat \<Rightarrow> node" where
  "onReceive w data now_ms rssi radio_index =
     (let ri = (if radio_index < kMaxRadios then radio_index else 0);
          len = length data;
          w = upd_radio ri (\<lambda>s. s\<lparr>ra_last_rx_ms := now_ms, ra_last_rssi := rssi\<rparr>) w
      in if len = 0 \<or> len > kMaxRxFrame then
           logFrame (rx_drop w ri decode_fail) radio_index 0 len rssi 0 Oversize
         else
           case de_crypto (nd_deps w) of
             None \<Rightarrow> rx_packet w ri data len now_ms rssi radio_index
           | Some c \<Rightarrow>
               (case crypto_decrypt c (frame_buf data) len now_ms of
                  (c, buf, Some plain_len) \<Rightarrow>
                    rx_packet (set_crypto c w) ri (take plain_len buf) len now_ms rssi radio_index
                | (c, buf, None) \<Rightarrow>
                    let w = set_crypto c w
                    in if lastRejectWasReplay c
                       then logFrame (rx_drop w ri (\<lambda>s. s\<lparr>ra_rx_replay := ra_rx_replay s + 1\<rparr>))
                              radio_index 0 len rssi 0 ReplayFail
                       else logFrame (rx_drop w ri (\<lambda>s. s\<lparr>ra_rx_crypto_fail := ra_rx_crypto_fail s + 1\<rparr>))
                              radio_index 0 len rssi 0 CryptoFail))"

text \<open>\<open>RadioHub::service\<close>: every radio's received frames go to the node, radio by radio.\<close>

definition hub_deliver :: "nat \<Rightarrow> rx_frame \<Rightarrow> node \<Rightarrow> node" where
  "hub_deliver i f w = onReceive w (take (unat (rx_len f)) (rx_data f)) (rx_timestamp_ms f) (rx_rssi f) i"

definition hub_service :: "radio_hub \<Rightarrow> node \<Rightarrow> radio_hub \<times> node" where
  "hub_service hub w =
     (map (\<lambda>d. d\<lparr>dr_rx := []\<rparr>) hub,
      fold (\<lambda>(i, d) w. fold (hub_deliver i) (dr_rx d) w) (enumerate 0 hub) w)"

section \<open>Queries\<close>

definition node_radioStats :: "node \<Rightarrow> nat \<Rightarrow> radio_stats" where
  "node_radioStats w index = nd_radio_stats w ! (if index < kMaxRadios then index else 0)"

definition activePeerCount :: "node \<Rightarrow> u32 \<Rightarrow> nat" where
  "activePeerCount w now_ms = countActive (nd_peers w) now_ms"

definition activePeerCountOn :: "node \<Rightarrow> nat \<Rightarrow> u32 \<Rightarrow> nat" where
  "activePeerCountOn w radio_index now_ms = countActiveOn (nd_peers w) radio_index now_ms"

end
