(* ===== verification/Node_Inv.thy ===== *)
theory Node_Inv
  imports Node
begin

text \<open>
  The well-formedness invariant of a node, that every operation keeps it, and the
  interpretation of the timer contract (Scheduler) on the node's callbacks.
\<close>

section \<open>What transmission leaves alone\<close>

definition crypto_ok :: "node \<Rightarrow> bool" where
  "crypto_ok w \<longleftrightarrow> (case de_crypto (nd_deps w) of None \<Rightarrow> True | Some c \<Rightarrow> crypto_inv c)"

definition same_wiring :: "node \<Rightarrow> node \<Rightarrow> bool" where
  "same_wiring w w' \<longleftrightarrow> nd_cfg w' = nd_cfg w \<and> nd_rate w' = nd_rate w \<and>
     de_radios (nd_deps w') = de_radios (nd_deps w) \<and>
     de_location (nd_deps w') = de_location (nd_deps w) \<and>
     de_msp_radar_sink (nd_deps w') = de_msp_radar_sink (nd_deps w) \<and>
     de_rng (nd_deps w') = de_rng (nd_deps w)"

definition tx_step :: "node \<Rightarrow> node \<Rightarrow> bool" where
  "tx_step w w' \<longleftrightarrow> same_wiring w w' \<and> nd_sched w' = nd_sched w \<and> nd_peers w' = nd_peers w \<and>
     nd_airtime w' = nd_airtime w \<and> nd_radio_count w' = nd_radio_count w \<and>
     nd_beacon_timer w' = nd_beacon_timer w \<and> nd_msp_radar_cursor w' = nd_msp_radar_cursor w \<and>
     nd_samples w' = nd_samples w \<and> nd_fault w' = nd_fault w \<and>
     length (nd_radio_stats w') = length (nd_radio_stats w) \<and>
     (fl_inv (nd_frames w) \<longrightarrow> fl_inv (nd_frames w')) \<and> (crypto_ok w \<longrightarrow> crypto_ok w')"

lemma same_wiring_refl [simp]: "same_wiring w w"
  by (simp add: same_wiring_def)

lemma tx_step_refl [simp]: "tx_step w w"
  by (simp add: tx_step_def)

lemma tx_step_trans: "tx_step a b \<Longrightarrow> tx_step b c \<Longrightarrow> tx_step a c"
  by (simp add: tx_step_def same_wiring_def)

lemma tx_step_out: "tx_step w (w\<lparr>nd_out := out\<rparr>)"
  by (simp add: tx_step_def same_wiring_def crypto_ok_def)

lemma tx_step_stats: "tx_step w (upd_stats f w)"
  by (simp add: tx_step_def same_wiring_def upd_stats_def crypto_ok_def)

lemma tx_step_radio: "tx_step w (upd_radio i f w)"
  by (simp add: tx_step_def same_wiring_def upd_radio_def crypto_ok_def)

lemma tx_step_log: "tx_step w (logFrame w i uid len rssi ty r)"
  by (simp add: tx_step_def same_wiring_def logFrame_def crypto_ok_def frames.append_inv)

lemmas tx_steps = tx_step_out tx_step_stats tx_step_radio tx_step_log

lemma tx_step_crypto: "crypto_inv c \<Longrightarrow> tx_step w (set_crypto c w)"
  by (simp add: tx_step_def same_wiring_def set_crypto_def crypto_ok_def)

lemma node_encrypt_step:
  assumes "node_encrypt w (frame_buf pkt) (length pkt) = (w', buf, n)" "length pkt \<le> 64" "crypto_ok w"
  shows "tx_step w w' \<and> length (take n buf) = n \<and> n \<le> 64"
proof (cases "de_crypto (nd_deps w)")
  case None
  with assms show ?thesis by (auto simp: node_encrypt_def frame_buf_def)
next
  case (Some c)
  obtain c' where e: "crypto_encrypt c (frame_buf pkt) (length pkt) 64 = (c', buf, n)"
    and w': "w' = set_crypto c' w"
    using assms(1) Some by (auto simp: node_encrypt_def split: prod.splits)
  have "crypto_inv c" using assms(3) Some by (simp add: crypto_ok_def)
  from node_cipher.encrypt_in_place [OF this _ assms(2) _ e] assms(2)
  have "crypto_inv c' \<and> length buf = 64 \<and> n \<le> 64" by (simp add: frame_buf_def)
  then show ?thesis using tx_step_crypto w' by auto
qed

lemma encodePosition_64: "length (encodePosition p 64) = 21"
  by (simp add: length_encodePosition)

lemma encodeAnnounce_64: "length (encodeAnnounce a 64) \<le> 26"
  using length_encodeAnnounce [of a 64] by simp

lemma sendBeacon_step:
  assumes "crypto_ok w"
  shows "tx_step w (sendBeacon w i)"
proof (cases "de_radios (nd_deps w)")
  case (Some hub)
  define loc where "loc = (case de_location (nd_deps w) of None \<Rightarrow> NodeLocation | Some l \<Rightarrow> l)"
  define pkt where "pkt = encodePosition (beacon_packet (nd_cfg w) loc) 64"
  obtain w' buf n where e: "node_encrypt w (frame_buf pkt) (length pkt) = (w', buf, n)"
    by (metis prod_cases3)
  have l: "length pkt = 21" by (simp add: pkt_def encodePosition_64)
  have s: "tx_step w w'" using node_encrypt_step [OF e] l assms by simp
  show ?thesis
  proof (cases "radioTransmits hub i \<and> n \<noteq> 0")
    case True
    have "tx_step w (w'\<lparr>nd_out := nd_out w' @ hub_transmit hub i (take n buf)\<rparr>)"
      by (rule tx_step_trans [OF s tx_step_out])
    with True Some e l show ?thesis
      unfolding sendBeacon_def loc_def [symmetric] Let_def
      by (auto simp: pkt_def [symmetric] intro!: tx_step_trans [OF _ tx_step_log]
          tx_step_trans [OF _ tx_step_radio] tx_step_trans [OF _ tx_step_stats])
  next
    case False
    with Some e l s show ?thesis
      unfolding sendBeacon_def loc_def [symmetric] Let_def by (auto simp: pkt_def [symmetric])
  qed
qed (simp add: sendBeacon_def)

lemma announce_on_step:
  "crypto_ok w \<Longrightarrow> length plain \<le> 64 \<Longrightarrow> tx_step w (fst (announce_on hub plain is sent w))"
proof (induction "is" arbitrary: sent w)
  case (Cons i "is")
  obtain w' buf n where e: "node_encrypt w (frame_buf plain) (length plain) = (w', buf, n)"
    by (metis prod_cases3)
  have s: "tx_step w w'" using node_encrypt_step [OF e] Cons.prems by simp
  define x where "x = logFrame (upd_radio i (\<lambda>s. s\<lparr>ra_tx := ra_tx s + 1\<rparr>)
      (w'\<lparr>nd_out := nd_out w' @ hub_transmit hub i (take n buf)\<rparr>)) i (nc_uid (nd_cfg w')) n 0 2 Tx"
  have x: "tx_step w x" unfolding x_def
    by (rule tx_step_trans [OF _ tx_step_log], rule tx_step_trans [OF _ tx_step_radio],
        rule tx_step_trans [OF s tx_step_out])
  have ok: "crypto_ok w'" "crypto_ok x" using s x Cons.prems by (simp_all add: tx_step_def)
  have step: "announce_on hub plain (i # is) sent w =
      (if \<not> radioTransmits hub i then announce_on hub plain is sent w
       else if n = 0 then announce_on hub plain is sent w' else announce_on hub plain is True x)"
    by (simp add: e x_def upd_radio_def)
  show ?case
    unfolding step using Cons.IH [OF Cons.prems] Cons.IH [OF ok(1) Cons.prems(2)]
      Cons.IH [OF ok(2) Cons.prems(2)] s x tx_step_trans by auto
qed simp

lemma sendAnnounce_step:
  assumes "crypto_ok w"
  shows "tx_step w (sendAnnounce w)"
proof (cases "de_radios (nd_deps w)")
  case (Some hub)
  define plain where "plain = encodeAnnounce (announce_of (nd_cfg w)) 64"
  obtain w' sent where a: "announce_on hub plain [0..<nd_radio_count w] False w = (w', sent)"
    by fastforce
  have "length plain \<le> 64" using encodeAnnounce_64 [of "announce_of (nd_cfg w)"] by (simp add: plain_def)
  from announce_on_step [OF assms this, of hub "[0..<nd_radio_count w]" False] a
  have s: "tx_step w w'" by simp
  with tx_step_trans [OF s tx_step_stats] Some a show ?thesis
    by (simp add: sendAnnounce_def plain_def Let_def)
qed (simp add: sendAnnounce_def)

section \<open>The invariant\<close>

fun task_ok :: "bool \<Rightarrow> node_task \<Rightarrow> bool" where
  "task_ok listen_only (BeaconTick i) \<longleftrightarrow> i < kMaxRadios \<and> \<not> listen_only"
| "task_ok listen_only AnnounceTick \<longleftrightarrow> \<not> listen_only"
| "task_ok listen_only _ \<longleftrightarrow> True"

definition handles_ok :: "node_task scheduler \<Rightarrow> timer_handle list \<Rightarrow> bool" where
  "handles_ok s hs \<longleftrightarrow> (\<exists>c. has_task s c) \<longrightarrow> (\<forall>h \<in> set hs. handle_ok s h)"

definition tasks_ok :: "bool \<Rightarrow> node_task scheduler \<Rightarrow> bool" where
  "tasks_ok listen_only s \<longleftrightarrow> (\<forall>c. has_task s c \<longrightarrow> task_ok listen_only c)"

definition node_inv :: "node \<Rightarrow> bool" where
  "node_inv w \<longleftrightarrow> sched_ok (nd_sched w) \<and> tasks_ok (nc_listen_only (nd_cfg w)) (nd_sched w) \<and>
     length (nd_beacon_timer w) = kMaxRadios \<and> handles_ok (nd_sched w) (nd_beacon_timer w) \<and>
     length (nd_radio_stats w) = kMaxRadios \<and> length (nd_airtime w) = kMaxRadios \<and>
     nd_radio_count w \<le> kMaxRadios \<and> nd_msp_radar_cursor w < kMaxPeers \<and> pt_inv (nd_peers w) \<and> fl_inv (nd_frames w) \<and>
     crypto_ok w \<and> pt_find (nd_peers w) (nc_uid (nd_cfg w)) = None"

lemma node_inv_cong:
  assumes "nd_sched w' = nd_sched w" "nd_cfg w' = nd_cfg w" "nd_beacon_timer w' = nd_beacon_timer w"
    "nd_radio_stats w' = nd_radio_stats w" "nd_airtime w' = nd_airtime w"
    "nd_radio_count w' = nd_radio_count w"
    "nd_msp_radar_cursor w' = nd_msp_radar_cursor w" "nd_peers w' = nd_peers w"
    "nd_frames w' = nd_frames w" "nd_deps w' = nd_deps w"
  shows "node_inv w' = node_inv w"
  by (simp only: node_inv_def crypto_ok_def assms)

lemma node_invD:
  assumes "node_inv w"
  shows "sched_ok (nd_sched w)" "tasks_ok (nc_listen_only (nd_cfg w)) (nd_sched w)"
    "length (nd_beacon_timer w) = 4" "handles_ok (nd_sched w) (nd_beacon_timer w)"
    "length (nd_radio_stats w) = 4" "length (nd_airtime w) = 4" "nd_msp_radar_cursor w < 16"
    "pt_inv (nd_peers w)" "fl_inv (nd_frames w)" "crypto_ok w"
    "pt_find (nd_peers w) (nc_uid (nd_cfg w)) = None" "nd_radio_count w \<le> 4"
  using assms by (simp_all add: node_inv_def)

lemma Node_inv:
  "(case de_crypto deps of None \<Rightarrow> True | Some c \<Rightarrow> crypto_inv c) \<Longrightarrow> node_inv (Node cfg deps)"
  by (simp add: node_inv_def Node_def Scheduler_ok tasks_ok_def handles_ok_def PeerTable_inv
      FrameLog_inv crypto_ok_def)

lemma node_inv_tx: "node_inv w \<Longrightarrow> tx_step w w' \<Longrightarrow> node_inv w'"
  unfolding node_inv_def tx_step_def same_wiring_def by (elim conjE) (simp only: simp_thms)

text \<open>Replacing the scheduler by one with the same functions, or a subset of them.\<close>

lemma node_inv_sched:
  assumes "node_inv w" "sched_ok s" "tasks_kept (nd_sched w) s"
    and "\<And>c. has_task s c \<Longrightarrow> has_task (nd_sched w) c"
  shows "node_inv (w\<lparr>nd_sched := s\<rparr>)"
proof -
  note inv = node_invD [OF assms(1)]
  have "handles_ok s (nd_beacon_timer w)"
    using inv(4) handle_ok_kept [OF inv(1) _ assms(3)] assms(4) by (auto simp: handles_ok_def)
  moreover have "tasks_ok (nc_listen_only (nd_cfg w)) s"
    using inv(2) assms(4) by (simp add: tasks_ok_def)
  ultimately show ?thesis using inv assms(2) by (simp add: node_inv_def crypto_ok_def)
qed

text \<open>Fields outside the invariant.\<close>

lemma node_inv_fields:
  "node_inv (w\<lparr>nd_samples := n\<rparr>) = node_inv w" "node_inv (w\<lparr>nd_out := out\<rparr>) = node_inv w"
  "node_inv (w\<lparr>nd_fault := f\<rparr>) = node_inv w" "node_inv (w\<lparr>nd_announce_timer := h\<rparr>) = node_inv w"
  "node_inv (w\<lparr>nd_expire_timer := h\<rparr>) = node_inv w"
  "node_inv (w\<lparr>nd_msp_radar_timer := h\<rparr>) = node_inv w"
  by (rule node_inv_cong; simp)+

lemma nextBeaconDelayMs_node:
  "fst (nextBeaconDelayMs w i) = w\<lparr>nd_samples := nd_samples (fst (nextBeaconDelayMs w i))\<rparr>"
  by (simp add: nextBeaconDelayMs_def Let_def split: option.split)

lemma onBeaconTick_inv:
  assumes "node_inv w" "has_task (nd_sched w) (BeaconTick i)"
  shows "node_inv (onBeaconTick w i)"
proof -
  let ?a = "sendBeacon w i"
  have step: "tx_step w ?a" by (rule sendBeacon_step [OF node_invD(10) [OF assms(1)]])
  have a: "node_inv ?a" by (rule node_inv_tx [OF assms(1) step])
  obtain b d where d: "nextBeaconDelayMs ?a i = (b, d)" by fastforce
  have bs: "b = ?a\<lparr>nd_samples := nd_samples b\<rparr>" using nextBeaconDelayMs_node [of ?a i] d by simp
  have b: "node_inv b" by (subst bs) (simp only: node_inv_fields a)
  show ?thesis
  proof (cases d)
    case None
    with d b show ?thesis by (simp add: onBeaconTick_def Let_def node_inv_fields)
  next
    case (Some delay)
    define c where "c = upd_radio i (\<lambda>s. s\<lparr>ra_beacon_interval_ms := delay\<rparr>) b"
    have c: "node_inv c" unfolding c_def by (rule node_inv_tx [OF b tx_step_radio])
    have "nd_sched b = nd_sched ?a" by (subst bs) simp
    then have sched: "nd_sched c = nd_sched w" using step by (simp add: c_def upd_radio_def tx_step_def)
    have i: "i < 4" using assms(2) node_invD(2) [OF assms(1)] by (auto simp: tasks_ok_def)
    have h: "handle_ok (nd_sched c) (nd_beacon_timer c ! i)"
      using node_invD(3,4) [OF c] i assms(2) by (auto simp: handles_ok_def sched)
    have ok: "sched_ok (nd_sched c)" by (rule node_invD(1) [OF c])
    have "node_inv (c\<lparr>nd_sched := sched_rearm (nd_sched c) (nd_beacon_timer c ! i) delay\<rparr>)"
      using has_task_rearm [OF ok] by (intro node_inv_sched c sched_rearm_ok ok h tasks_kept_ops) auto
    with d Some show ?thesis by (simp add: onBeaconTick_def Let_def c_def)
  qed
qed

lemma radar_scan_Suc:
  "radar_scan (Suc n) w =
     (let w' = w\<lparr>nd_msp_radar_cursor := (nd_msp_radar_cursor w + 1) mod 16\<rparr>
      in case pt_at (nd_peers w) (nd_msp_radar_cursor w) of
           Some peer \<Rightarrow> w'\<lparr>nd_out := nd_out w @ [RadarPosition (of_nat (nd_msp_radar_cursor w + 1)) peer]\<rparr>
         | None \<Rightarrow> radar_scan n w')"
  by (cases "pt_at (nd_peers w) (nd_msp_radar_cursor w)") (simp_all add: Let_def)

declare radar_scan.simps(2) [simp del]

lemma radar_scan_shape:
  assumes "nd_msp_radar_cursor w < 16"
  obtains c out where "c < 16" "radar_scan n w = w\<lparr>nd_msp_radar_cursor := c, nd_out := out\<rparr>"
  using assms
proof (induction n arbitrary: w thesis)
  case 0
  show ?case by (rule 0(1) [of "nd_msp_radar_cursor w" "nd_out w"]) (use 0(2) in simp_all)
next
  case (Suc n)
  define k where "k = (nd_msp_radar_cursor w + 1) mod 16"
  have k: "k < 16" by (simp add: k_def)
  show ?case
  proof (cases "pt_at (nd_peers w) (nd_msp_radar_cursor w)")
    case None
    obtain c out where c: "c < 16" and
      r: "radar_scan n (w\<lparr>nd_msp_radar_cursor := k\<rparr>) =
        (w\<lparr>nd_msp_radar_cursor := k\<rparr>)\<lparr>nd_msp_radar_cursor := c, nd_out := out\<rparr>"
      by (rule Suc.IH [of "w\<lparr>nd_msp_radar_cursor := k\<rparr>"]) (simp_all add: k)
    have "radar_scan (Suc n) w = radar_scan n (w\<lparr>nd_msp_radar_cursor := k\<rparr>)"
      by (simp only: radar_scan_Suc None Let_def option.case k_def)
    with c r show ?thesis by (intro Suc.prems(1) [of c out]) simp_all
  next
    case (Some p)
    have "radar_scan (Suc n) w = w\<lparr>nd_msp_radar_cursor := k,
        nd_out := nd_out w @ [RadarPosition (of_nat (nd_msp_radar_cursor w + 1)) p]\<rparr>"
      by (simp only: radar_scan_Suc Some Let_def option.case k_def)
    with k show ?thesis by (rule Suc.prems(1))
  qed
qed

lemma node_inv_cursor: "node_inv w \<Longrightarrow> c < 16 \<Longrightarrow> node_inv (w\<lparr>nd_msp_radar_cursor := c\<rparr>)"
  by (simp add: node_inv_def crypto_ok_def)

lemma onMspRadarTick_inv:
  assumes "node_inv w"
  shows "node_inv (onMspRadarTick w)"
proof (cases "de_msp_radar_sink (nd_deps w)")
  case True
  have "nd_msp_radar_cursor w < 16" by (rule node_invD(7) [OF assms])
  then obtain c out where
    r: "c < 16" "radar_scan 16 w = w\<lparr>nd_msp_radar_cursor := c, nd_out := out\<rparr>"
    by (rule radar_scan_shape)
  have "node_inv (w\<lparr>nd_msp_radar_cursor := c, nd_out := out\<rparr>)"
    by (simp only: node_inv_fields(2)) (rule node_inv_cursor [OF assms r(1)])
  with True r(2) show ?thesis by (simp add: onMspRadarTick_def)
qed (use assms in \<open>simp add: onMspRadarTick_def\<close>)

lemma node_inv_peers:
  assumes "node_inv w" "pt_inv t" "pt_find t (nc_uid (nd_cfg w)) = None"
  shows "node_inv (w\<lparr>nd_peers := t\<rparr>)"
  using assms by (simp add: node_inv_def crypto_ok_def)

lemma node_run_inv:
  assumes "node_inv w" "has_task (nd_sched w) c"
  shows "node_inv (node_run c w)"
proof (cases c)
  case (BeaconTick i)
  with assms onBeaconTick_inv show ?thesis by simp
next
  case AnnounceTick
  have "crypto_ok w" by (rule node_invD(10) [OF assms(1)])
  from node_inv_tx [OF assms(1) sendAnnounce_step [OF this]] AnnounceTick show ?thesis by simp
next
  case ExpireTick
  have "node_inv (w\<lparr>nd_peers := pt_expire (nd_peers w) (sc_now_ms (nd_sched w))\<rparr>)"
    using pt_expire_lookup [OF node_invD(8) [OF assms(1)]] node_invD(11) [OF assms(1)]
    by (intro node_inv_peers assms(1)) simp_all
  with ExpireTick show ?thesis by simp
next
  case RadarTick
  with assms onMspRadarTick_inv show ?thesis by simp
qed

section \<open>Timers\<close>

lemma put_sched_inv:
  assumes "node_inv w" "sched_ok s" "same_tasks (nd_sched w) s"
  shows "node_inv (put_sched s w)"
  unfolding put_sched_def using has_task_same [OF assms(3)]
  by (intro node_inv_sched assms same_tasks_kept) auto

lemma onBeaconTick_now:
  assumes "crypto_ok w"
  shows "sc_now_ms (nd_sched (onBeaconTick w i)) = sc_now_ms (nd_sched w)"
proof -
  obtain b d where d: "nextBeaconDelayMs (sendBeacon w i) i = (b, d)" by fastforce
  have "b = (sendBeacon w i)\<lparr>nd_samples := nd_samples b\<rparr>"
    using nextBeaconDelayMs_node [of "sendBeacon w i" i] d by simp
  then have "nd_sched b = nd_sched (sendBeacon w i)" by (metis node.select_convs(3) node.surjective node.update_convs(16))
  with d sendBeacon_step [OF assms, of i] show ?thesis
    by (simp add: onBeaconTick_def Let_def tx_step_def upd_radio_def split: option.split)
qed

lemma onMspRadarTick_sched: "node_inv w \<Longrightarrow> nd_sched (onMspRadarTick w) = nd_sched w"
proof -
  assume "node_inv w"
  then obtain c out where "radar_scan 16 w = w\<lparr>nd_msp_radar_cursor := c, nd_out := out\<rparr>"
    using radar_scan_shape [OF node_invD(7)] by metis
  then show ?thesis by (simp add: onMspRadarTick_def)
qed

lemma node_run_now:
  assumes "node_inv w"
  shows "sc_now_ms (nd_sched (node_run c w)) = sc_now_ms (nd_sched w)"
  using onBeaconTick_now [OF node_invD(10) [OF assms]] onMspRadarTick_sched [OF assms]
    sendAnnounce_step [OF node_invD(10) [OF assms]]
  by (cases c) (simp_all add: tx_step_def)

interpretation node_timers: timer_client node_run nd_sched put_sched node_inv
proof
  show "nd_sched (put_sched s w) = s" for s w by (simp add: put_sched_def)
qed (auto intro: put_sched_inv node_run_inv node_run_now node_invD(1))

lemma node_poll_total:
  assumes "node_inv w"
  shows "\<exists>w'. node_poll w now_ms = Some (sched_next_delay (nd_sched w'), w') \<and> node_inv w' \<and>
    sc_now_ms (nd_sched w') = now_ms"
  unfolding node_poll_def by (rule node_timers.poll_total [OF assms])

section \<open>Start\<close>

lemma node_inv_timer:
  assumes inv: "node_inv w" and s: "sched_ok s" "tasks_kept (nd_sched w) s"
    and c: "\<And>k. has_task s k \<Longrightarrow> has_task (nd_sched w) k \<or> k = c" "task_ok (nc_listen_only (nd_cfg w)) c"
    and h: "\<forall>h \<in> set (nd_beacon_timer w). handle_ok (nd_sched w) h"
  shows "node_inv (w\<lparr>nd_sched := s\<rparr>)" "\<forall>h \<in> set (nd_beacon_timer w). handle_ok s h"
proof -
  note inv' = node_invD [OF inv]
  show h': "\<forall>h \<in> set (nd_beacon_timer w). handle_ok s h"
    using h handle_ok_kept [OF inv'(1) _ s(2)] by blast
  have "tasks_ok (nc_listen_only (nd_cfg w)) s" using inv'(2) c by (auto simp: tasks_ok_def)
  with h' inv' s(1) show "node_inv (w\<lparr>nd_sched := s\<rparr>)"
    by (simp add: node_inv_def crypto_ok_def handles_ok_def)
qed

text \<open>Between the steps of \<open>begin\<close> every beacon handle is valid, timers running or not.\<close>

definition node_ready :: "node \<Rightarrow> bool" where
  "node_ready w \<longleftrightarrow> node_inv w \<and> (\<forall>h \<in> set (nd_beacon_timer w). handle_ok (nd_sched w) h)"

lemma start_every_ready:
  assumes "node_ready w" "task_ok (nc_listen_only (nd_cfg w)) c"
    and keep: "\<And>h v. node_inv (keep h v) = node_inv v" "\<And>h v. nd_sched (keep h v) = nd_sched v"
      "\<And>h v. nd_beacon_timer (keep h v) = nd_beacon_timer v"
  shows "node_ready (start_every p c keep w)"
proof -
  obtain s h where sh: "sched_every (nd_sched w) p c = (s, h)" by fastforce
  have inv: "node_inv w" and hs: "\<forall>h \<in> set (nd_beacon_timer w). handle_ok (nd_sched w) h"
    using assms(1) by (simp_all add: node_ready_def)
  have ok: "sched_ok s" using sched_every_ok [OF node_invD(1) [OF inv], of p c] sh by simp
  have kept: "tasks_kept (nd_sched w) s" using tasks_kept_ops(2) [of "nd_sched w" p c] sh by simp
  have has: "has_task s k \<Longrightarrow> has_task (nd_sched w) k \<or> k = c" for k
    using has_task_ops(2) [of "nd_sched w" p c k] sh by simp
  from node_inv_timer [OF inv ok kept has assms(2) hs] sh keep show ?thesis
    by (simp add: start_every_def node_ready_def)
qed

lemma begin_radio_ready:
  assumes "node_ready w" "i < 4"
  shows "node_ready (begin_radio hub i w)"
proof -
  define a where "a = upd_radio i (\<lambda>s. s\<lparr>ra_airtime_ms := airtimeMs hub i kPositionFrameSize\<rparr>)
    (w\<lparr>nd_airtime := (nd_airtime w)[i := airtimeMs hub i kPositionFrameSize]\<rparr>)"
  have inv: "node_inv w" and hs: "\<forall>h \<in> set (nd_beacon_timer w). handle_ok (nd_sched w) h"
    using assms(1) by (simp_all add: node_ready_def)
  have "node_inv (w\<lparr>nd_airtime := (nd_airtime w)[i := airtimeMs hub i kPositionFrameSize]\<rparr>)"
    using node_invD [OF inv] by (simp add: node_inv_def crypto_ok_def)
  then have a: "node_inv a" unfolding a_def by (rule node_inv_tx [OF _ tx_step_radio])
  have as: "nd_sched a = nd_sched w" "nd_beacon_timer a = nd_beacon_timer w" "nd_cfg a = nd_cfg w"
    by (simp_all add: a_def upd_radio_def)
  obtain b d where d: "nextBeaconDelayMs a i = (b, d)" by fastforce
  have b: "b = a\<lparr>nd_samples := nd_samples b\<rparr>" using nextBeaconDelayMs_node [of a i] d by simp
  have bi: "node_inv b" by (subst b) (simp only: node_inv_fields a)
  have bs: "nd_sched b = nd_sched w" "nd_beacon_timer b = nd_beacon_timer w" "nd_cfg b = nd_cfg w"
    by (subst b, simp add: as)+
  show ?thesis
  proof (cases "nc_listen_only (nd_cfg w)")
    case True
    with a as hs show ?thesis
      by (simp add: begin_radio_def Let_def a_def [symmetric] node_ready_def del: kPositionFrameSize_def)
  next
    case False
    show ?thesis
    proof (cases d)
      case None
      with False d bi bs as hs show ?thesis
        by (simp add: begin_radio_def Let_def a_def [symmetric] node_ready_def node_inv_fields
            del: kPositionFrameSize_def)
    next
      case (Some delay)
      obtain s h where sh: "sched_after (nd_sched w) delay (BeaconTick i) = (s, h)" by fastforce
      note ok0 = node_invD(1) [OF inv]
      have ok: "sched_ok s" using sched_after_ok [OF ok0, of delay "BeaconTick i"] sh by simp
      have kept: "tasks_kept (nd_sched b) s"
        using tasks_kept_ops(1) [of "nd_sched w" delay "BeaconTick i"] sh bs by simp
      have has: "has_task s k \<Longrightarrow> has_task (nd_sched b) k \<or> k = BeaconTick i" for k
        using has_task_ops(1) [of "nd_sched w" delay "BeaconTick i" k] sh bs by simp
      have t: "task_ok (nc_listen_only (nd_cfg b)) (BeaconTick i)" using False assms(2) bs by simp
      note n = node_inv_timer [OF bi ok kept has t]
      have h: "handle_ok s h" using sched_after_handle [OF ok0, of delay "BeaconTick i"] sh by simp
      have hs': "\<forall>k \<in> set ((nd_beacon_timer b)[i := h]). handle_ok s k"
        using n(2) hs bs h by (auto dest!: set_update_subset_insert [THEN subsetD])
      have "node_inv (b\<lparr>nd_sched := s\<rparr>)" using n(1) hs bs by simp
      then have "node_inv (b\<lparr>nd_sched := s, nd_beacon_timer := (nd_beacon_timer b)[i := h]\<rparr>)"
        using hs' by (simp add: node_inv_def crypto_ok_def handles_ok_def)
      with False d Some sh bs as hs' show ?thesis
        by (simp add: begin_radio_def Let_def a_def [symmetric] node_ready_def del: kPositionFrameSize_def)
    qed
  qed
qed

lemma begin_radios_ready:
  "node_ready w \<Longrightarrow> set is \<subseteq> {..<4} \<Longrightarrow> node_ready (fold (begin_radio hub) is w)"
  by (induction "is" arbitrary: w) (simp_all add: begin_radio_ready)

lemma begin_radio_cfg: "nd_cfg (begin_radio hub i w) = nd_cfg w"
  by (auto simp: begin_radio_def nextBeaconDelayMs_def upd_radio_def Let_def
      split: option.split prod.split)

lemma begin_radios_cfg: "nd_cfg (fold (begin_radio hub) is w) = nd_cfg w"
  by (induction "is" arbitrary: w) (simp_all add: begin_radio_cfg)

lemma node_begin_total:
  assumes "node_inv w"
  shows "\<exists>w'. node_begin w now_ms = Some w' \<and> node_inv w'"
proof -
  obtain a where a: "node_poll w now_ms = Some (sched_next_delay (nd_sched a), a)" "node_inv a"
    using node_poll_total [OF assms] by blast
  define n where "n = (case de_radios (nd_deps a) of None \<Rightarrow> 0 | Some hub \<Rightarrow> min (length hub) kMaxRadios)"
  define c where "c = a\<lparr>nd_radio_count := n, nd_beacon_timer := replicate kMaxRadios kInvalidTimer\<rparr>"
  have nc: "nd_radio_count c = n" by (simp add: c_def)
  have n4: "n \<le> 4" by (simp add: n_def split: option.split)
  have "node_ready c"
    using node_invD [OF a(2)] n4
    by (simp add: c_def node_ready_def node_inv_def crypto_ok_def handles_ok_def)
  moreover have "set [0..<n] \<subseteq> {..<4}" by (auto simp: n_def split: option.splits)
  moreover define d where "d = (case de_radios (nd_deps c) of None \<Rightarrow> c
      | Some hub \<Rightarrow> fold (begin_radio hub) [0..<n] c)"
  ultimately have d: "node_ready d" by (auto simp: begin_radios_ready split: option.split)
  define e where "e = (if nc_listen_only (nd_cfg d) then d
      else start_every (nc_announce_interval_ms (nd_cfg d)) AnnounceTick (\<lambda>h w. w\<lparr>nd_announce_timer := h\<rparr>) d)"
  have e: "node_ready e"
    unfolding e_def by (simp add: d, intro impI start_every_ready) (simp_all add: d node_inv_fields)
  define f where "f = start_every (nc_expire_interval_ms (nd_cfg e)) ExpireTick (\<lambda>h w. w\<lparr>nd_expire_timer := h\<rparr>) e"
  have f: "node_ready f" unfolding f_def by (intro start_every_ready) (simp_all add: e node_inv_fields)
  then have f0: "node_ready (f\<lparr>nd_msp_radar_cursor := 0\<rparr>)"
    by (simp add: node_ready_def node_inv_cursor)
  have g: "node_ready (start_every (nc_msp_radar_interval_ms (nd_cfg f)) RadarTick
      (\<lambda>h w. w\<lparr>nd_msp_radar_timer := h\<rparr>) (f\<lparr>nd_msp_radar_cursor := 0\<rparr>))"
    using f0 by (intro start_every_ready) (simp_all add: node_inv_fields)
  have "node_begin w now_ms = Some (if de_msp_radar_sink (nd_deps f)
      then start_every (nc_msp_radar_interval_ms (nd_cfg f)) RadarTick
        (\<lambda>h w. w\<lparr>nd_msp_radar_timer := h\<rparr>) (f\<lparr>nd_msp_radar_cursor := 0\<rparr>) else f)"
    by (simp only: node_begin_def a(1) option.case prod.case Let_def n_def [symmetric]
        c_def [symmetric] nc d_def [symmetric] e_def [symmetric] f_def [symmetric])
  with f g show ?thesis by (auto simp: node_ready_def)
qed

section \<open>Reception\<close>

lemma decodePosition_uid:
  assumes "peekHeader p = Some (Inr hdr)" "decodePosition p = Some (Inr pkt)"
  shows "pp_uid pkt = h_uid hdr"
  using assms by (auto simp: decodePosition_def split: if_splits Option.bind_splits prod.splits)

lemma decodeAnnounce_uid:
  assumes "peekHeader p = Some (Inr hdr)" "decodeAnnounce p = Some (Inr pkt)"
  shows "an_uid pkt = h_uid hdr"
  using assms by (auto simp: decodeAnnounce_def split: if_splits Option.bind_splits prod.splits)

lemma rx_accept_step: "tx_step w (rx_accept w i)"
  unfolding rx_accept_def by (rule tx_step_trans [OF tx_step_stats tx_step_radio])

lemma rx_drop_step: "tx_step w (rx_drop w i f)"
  unfolding rx_drop_def by (rule tx_step_trans [OF tx_step_stats tx_step_radio])

lemma logged_inv: "node_inv w \<Longrightarrow> tx_step w v \<Longrightarrow> node_inv (logFrame v i u l r t k)"
  by (erule node_inv_tx) (erule tx_step_trans [OF _ tx_step_log])

text \<open>The cases of \<open>rx_packet\<close>, with the decoders' results in hand.\<close>

lemma rx_packet_cases:
  obtains (undecoded) u t where
      "rx_packet w ri packet len now rssi r = logFrame (rx_drop w ri decode_fail) r u len rssi t DecodeFail"
  | (self) t where
      "rx_packet w ri packet len now rssi r =
         logFrame (upd_radio ri (\<lambda>s. s\<lparr>ra_rx_self := ra_rx_self s + 1\<rparr>)
           (upd_stats (\<lambda>s. s\<lparr>st_rx_self := st_rx_self s + 1\<rparr>) w)) r (nc_uid (nd_cfg w)) len rssi t Self"
  | (position) p where "decodePosition packet = Some (Inr p)" "pp_uid p \<noteq> nc_uid (nd_cfg w)"
      "rx_packet w ri packet len now rssi r =
         logFrame (rx_accept (w\<lparr>nd_peers := fst (updatePosition (nd_peers w) p now rssi r)\<rparr>) ri)
           r (pp_uid p) len rssi 1 RxOk"
  | (announce) a where "decodeAnnounce packet = Some (Inr a)" "an_uid a \<noteq> nc_uid (nd_cfg w)"
      "rx_packet w ri packet len now rssi r =
         logFrame (rx_accept (w\<lparr>nd_peers := fst (updateAnnounce (nd_peers w) a now r)\<rparr>) ri)
           r (an_uid a) len rssi 2 RxOk"
proof -
  obtain h where h: "peekHeader packet = Some h" using peekHeader_total by blast
  obtain dp where dp: "decodePosition packet = Some dp" using decodePosition_total by blast
  obtain da where da: "decodeAnnounce packet = Some da" using decodeAnnounce_total by blast
  show ?thesis
  proof (cases h)
    case (Inl e)
    then show ?thesis by (intro undecoded [of 0 0]) (simp add: rx_packet_def h)
  next
    case (Inr hdr)
    note h = h [unfolded Inr]
    show ?thesis
    proof (cases "h_uid hdr = nc_uid (nd_cfg w)")
      case True
      then show ?thesis
        by (intro self [of "packet_type_byte (h_type hdr)"]) (simp add: rx_packet_def h Let_def)
    next
      case other: False
      show ?thesis
      proof (cases "h_type hdr")
        case Position
        show ?thesis
        proof (cases dp)
          case (Inl e)
          with h dp other Position show ?thesis
            by (intro undecoded [of "h_uid hdr" 1]) (simp add: rx_packet_def Let_def)
        next
          case (Inr p)
          note dp = dp [unfolded Inr]
          have u: "pp_uid p = h_uid hdr" by (rule decodePosition_uid [OF h dp])
          show ?thesis
            by (rule position [OF dp]) (use u other Position h dp in \<open>simp_all add: rx_packet_def Let_def\<close>)
        qed
      next
        case Announce
        show ?thesis
        proof (cases da)
          case (Inl e)
          with h da other Announce show ?thesis
            by (intro undecoded [of "h_uid hdr" 2]) (simp add: rx_packet_def Let_def)
        next
          case (Inr a)
          note da = da [unfolded Inr]
          have u: "an_uid a = h_uid hdr" by (rule decodeAnnounce_uid [OF h da])
          show ?thesis
            by (rule announce [OF da]) (use u other Announce h da in \<open>simp_all add: rx_packet_def Let_def\<close>)
        qed
      qed
    qed
  qed
qed

lemma rx_packet_inv:
  assumes "node_inv w"
  shows "node_inv (rx_packet w ri packet len now rssi r)"
proof (cases rule: rx_packet_cases [of w ri packet len now rssi r])
  case (undecoded u t)
  then show ?thesis using logged_inv [OF assms rx_drop_step] by simp
next
  case (self t)
  have "tx_step w (upd_radio ri (\<lambda>s. s\<lparr>ra_rx_self := ra_rx_self s + 1\<rparr>)
      (upd_stats (\<lambda>s. s\<lparr>st_rx_self := st_rx_self s + 1\<rparr>) w))"
    by (rule tx_step_trans [OF tx_step_stats tx_step_radio])
  with self logged_inv [OF assms] show ?thesis by simp
next
  case (position p)
  have "node_inv (w\<lparr>nd_peers := fst (updatePosition (nd_peers w) p now rssi r)\<rparr>)"
    using updatePosition_stored(1) [OF node_invD(8) [OF assms], of p now rssi r]
      updatePosition_stored(3) [OF node_invD(8) [OF assms] position(2) [symmetric], of now rssi r]
      node_invD(11) [OF assms]
    by (intro node_inv_peers assms) auto
  from logged_inv [OF this rx_accept_step] position(3) show ?thesis by simp
next
  case (announce a)
  have "node_inv (w\<lparr>nd_peers := fst (updateAnnounce (nd_peers w) a now r)\<rparr>)"
    using updateAnnounce_stored(1) [OF node_invD(8) [OF assms], of a now r]
      updateAnnounce_stored(3) [OF node_invD(8) [OF assms] announce(2) [symmetric], of now r]
      node_invD(11) [OF assms]
    by (intro node_inv_peers assms) auto
  from logged_inv [OF this rx_accept_step] announce(3) show ?thesis by simp
qed

text \<open>The cases of \<open>onReceive\<close>.\<close>

definition heard :: "node \<Rightarrow> u32 \<Rightarrow> i16 \<Rightarrow> nat \<Rightarrow> node" where
  "heard w now_ms rssi radio_index =
     upd_radio (if radio_index < kMaxRadios then radio_index else 0)
       (\<lambda>s. s\<lparr>ra_last_rx_ms := now_ms, ra_last_rssi := rssi\<rparr>) w"

lemma heard_step: "tx_step w (heard w now rssi r)"
  unfolding heard_def by (rule tx_step_radio)

lemma onReceive_cases:
  assumes "crypto_ok w"
  obtains (dropped) v f k where "tx_step w v" "nd_stats v = nd_stats w" "nd_frames v = nd_frames w"
      "onReceive w data now rssi r =
         logFrame (rx_drop v (if r < kMaxRadios then r else 0) f) r 0 (length data) rssi 0 k"
  | (packet) v packet where "tx_step w v" "nd_stats v = nd_stats w" "nd_frames v = nd_frames w"
      "onReceive w data now rssi r =
         rx_packet v (if r < kMaxRadios then r else 0) packet (length data) now rssi r"
      "case de_crypto (nd_deps w) of None \<Rightarrow> packet = data
       | Some c \<Rightarrow> \<exists>c' b n. crypto_decrypt c (frame_buf data) (length data) now = (c', b, Some n) \<and> packet = take n b"
proof -
  let ?v = "heard w now rssi r" and ?ri = "if r < kMaxRadios then r else 0"
  have v: "nd_stats ?v = nd_stats w" "nd_frames ?v = nd_frames w" "nd_deps ?v = nd_deps w"
    by (simp_all add: heard_def upd_radio_def)
  show ?thesis
  proof (cases "length data = 0 \<or> length data > kMaxRxFrame")
    case True
    show ?thesis
      by (rule dropped [OF heard_step v(1,2)]) (use True in \<open>simp add: onReceive_def Let_def heard_def\<close>)
  next
    case len: False
    show ?thesis
    proof (cases "de_crypto (nd_deps w)")
      case None
      have "onReceive w data now rssi r = rx_packet ?v ?ri data (length data) now rssi r"
        using len None v(3) unfolding onReceive_def Let_def heard_def [symmetric] by simp
      then show ?thesis by (rule packet [OF heard_step v(1,2)]) (simp add: None)
    next
      case (Some c)
      obtain c' b res where d: "crypto_decrypt c (frame_buf data) (length data) now = (c', b, res)"
        by (metis prod_cases3)
      have ci: "crypto_inv c" using assms Some by (simp add: crypto_ok_def)
      have l: "length data \<le> length (frame_buf data)" by (simp add: frame_buf_def)
      have ci': "crypto_inv c'" using node_cipher.decrypt_keeps [OF ci l, of now] d by simp
      let ?u = "set_crypto c' ?v"
      have u1: "tx_step w ?u" by (rule tx_step_trans [OF heard_step tx_step_crypto [OF ci']])
      have u2: "nd_stats ?u = nd_stats w" "nd_frames ?u = nd_frames w"
        using v by (simp_all add: set_crypto_def)
      note u = u1 u2
      show ?thesis
      proof (cases res)
        case None
        have "onReceive w data now rssi r =
            (if lastRejectWasReplay c'
             then logFrame (rx_drop ?u ?ri (\<lambda>s. s\<lparr>ra_rx_replay := ra_rx_replay s + 1\<rparr>)) r 0 (length data) rssi 0 ReplayFail
             else logFrame (rx_drop ?u ?ri (\<lambda>s. s\<lparr>ra_rx_crypto_fail := ra_rx_crypto_fail s + 1\<rparr>)) r 0 (length data) rssi 0 CryptoFail)"
          using len Some v(3) d None unfolding onReceive_def Let_def heard_def [symmetric] by simp
        then show ?thesis using dropped [OF u] by (auto split: if_splits)
      next
        case (Some n)
        have "onReceive w data now rssi r = rx_packet ?u ?ri (take n b) (length data) now rssi r"
          using len \<open>de_crypto _ = _\<close> v(3) d Some unfolding onReceive_def Let_def heard_def [symmetric] by simp
        then show ?thesis by (rule packet [OF u]) (use \<open>de_crypto _ = _\<close> d Some in auto)
      qed
    qed
  qed
qed

lemma onReceive_inv:
  assumes "node_inv w"
  shows "node_inv (onReceive w data now rssi r)"
  using node_invD(10) [OF assms]
proof (cases rule: onReceive_cases [where data = data and now = now and rssi = rssi and r = r])
  case (dropped v f k)
  then show ?thesis using logged_inv [OF node_inv_tx [OF assms dropped(1)] rx_drop_step] by simp
next
  case (packet v packet)
  then show ?thesis using rx_packet_inv [OF node_inv_tx [OF assms packet(1)]] by simp
qed

end
