(* ===== verification/Node_Runs.thy ===== *)
theory Node_Runs
  imports Node_Inv
begin

text \<open>
  Whole lives of a node: a start and any sequence of polls, received frames and changes of its
  surroundings. A predicate that every event keeps (\<open>stable\<close>) holds in every state of every
  life; the accounting of frames and the freshness of nonces are two such predicates.
\<close>

section \<open>Runs\<close>

text \<open>What happens to a node: the loop polls it, a radio hands it a frame, or its surroundings
  change (a new position fix, a radio switched on or off).\<close>

datatype node_event =
    Poll u32
  | Receive byte_list u32 i16 nat
  | Rewire "radio_hub option" "node_location option"

definition rewire :: "radio_hub option \<Rightarrow> node_location option \<Rightarrow> node \<Rightarrow> node" where
  "rewire hub loc w = w\<lparr>nd_deps := (nd_deps w)\<lparr>de_radios := hub, de_location := loc\<rparr>\<rparr>"

fun node_step :: "node_event \<Rightarrow> node \<Rightarrow> node option" where
  "node_step (Poll now_ms) w = map_option snd (node_poll w now_ms)"
| "node_step (Receive data now_ms rssi radio_index) w = Some (onReceive w data now_ms rssi radio_index)"
| "node_step (Rewire hub loc) w = Some (rewire hub loc w)"

fun node_events :: "node_event list \<Rightarrow> node \<Rightarrow> node option" where
  "node_events [] w = Some w"
| "node_events (e # es) w = (case node_step e w of None \<Rightarrow> None | Some w \<Rightarrow> node_events es w)"

definition node_life :: "node_config \<Rightarrow> node_deps \<Rightarrow> u32 \<Rightarrow> node_event list \<Rightarrow> node option" where
  "node_life cfg deps now_ms es =
     (case node_begin (Node cfg deps) now_ms of None \<Rightarrow> None | Some w \<Rightarrow> node_events es w)"

text \<open>
  Predicates that the timers keep, and that every event keeps, hold over a whole life together
  with the invariant.
\<close>

definition timer_stable :: "(node \<Rightarrow> bool) \<Rightarrow> bool" where
  "timer_stable P \<longleftrightarrow>
     (\<forall>s w. node_inv w \<longrightarrow> P w \<longrightarrow> P (put_sched s w)) \<and>
     (\<forall>c w. node_inv w \<longrightarrow> P w \<longrightarrow> has_task (nd_sched w) c \<longrightarrow> P (node_run c w))"

definition stable :: "(node \<Rightarrow> bool) \<Rightarrow> bool" where
  "stable P \<longleftrightarrow> timer_stable P \<and>
     (\<forall>d n s r w. node_inv w \<longrightarrow> P w \<longrightarrow> P (onReceive w d n s r)) \<and>
     (\<forall>hub loc w. node_inv w \<longrightarrow> P w \<longrightarrow> P (rewire hub loc w))"

lemma rewire_inv: "node_inv w \<Longrightarrow> node_inv (rewire hub loc w)"
  by (simp add: rewire_def node_inv_def crypto_ok_def)

lemma stable_poll:
  assumes "timer_stable P" "node_inv w" "P w"
  shows "\<exists>w'. node_poll w now = Some (sched_next_delay (nd_sched w'), w') \<and> node_inv w' \<and> P w'"
proof -
  have put: "P (put_sched s w)" if "node_inv w" "P w" for s w
    using assms(1) that by (simp only: timer_stable_def)
  have run: "P (node_run c w)" if "node_inv w" "P w" "has_task (nd_sched w) c" for c w
    using assms(1) that by (simp only: timer_stable_def)
  from node_timers.poll_keeps [where P = P, OF assms(2,3) put run, of now] show ?thesis
    unfolding node_poll_def by blast
qed

lemma stable_events:
  assumes "stable P" "node_inv w" "P w"
  shows "\<exists>w'. node_events es w = Some w' \<and> node_inv w' \<and> P w'"
  using assms(2,3)
proof (induction es arbitrary: w)
  case (Cons e es)
  have "\<exists>v. node_step e w = Some v \<and> node_inv v \<and> P v"
  proof (cases e)
    case (Poll now)
    have "timer_stable P" using assms(1) by (simp only: stable_def)
    from stable_poll [OF this Cons.prems, of now] Poll show ?thesis by auto
  next
    case (Receive d n s r)
    have "P (onReceive w d n s r)" using assms(1) Cons.prems by (simp only: stable_def)
    with Receive Cons.prems onReceive_inv show ?thesis by simp
  next
    case (Rewire hub loc)
    have "P (rewire hub loc w)" using assms(1) Cons.prems by (simp only: stable_def)
    with Rewire Cons.prems rewire_inv show ?thesis by simp
  qed
  with Cons.IH show ?case by auto
qed simp

text \<open>The steps of \<open>begin\<close> after its poll change only what timers and airtime are made of.\<close>

definition begin_step :: "node \<Rightarrow> node \<Rightarrow> bool" where
  "begin_step w w' \<longleftrightarrow> nd_cfg w' = nd_cfg w \<and> nd_deps w' = nd_deps w \<and> nd_rate w' = nd_rate w \<and>
     nd_peers w' = nd_peers w \<and> nd_stats w' = nd_stats w \<and> nd_frames w' = nd_frames w \<and>
     nd_out w' = nd_out w \<and> map ra_tx (nd_radio_stats w') = map ra_tx (nd_radio_stats w)"

lemma map_update_same: "f y = f (xs ! i) \<Longrightarrow> map f (xs[i := y]) = map f xs"
  by (cases "i < length xs") (simp_all add: map_update list_update_same_conv list_update_beyond)

lemma begin_step_refl [simp]: "begin_step w w"
  by (simp add: begin_step_def)

lemma begin_step_trans: "begin_step a b \<Longrightarrow> begin_step b c \<Longrightarrow> begin_step a c"
  by (simp add: begin_step_def)

lemma begin_step_radio: "begin_step w (begin_radio hub i w)"
proof -
  define air where "air = airtimeMs hub i kPositionFrameSize"
  define a where "a = upd_radio i (\<lambda>s. s\<lparr>ra_airtime_ms := air\<rparr>) (w\<lparr>nd_airtime := (nd_airtime w)[i := air]\<rparr>)"
  have a: "begin_step w a" by (simp add: a_def upd_radio_def begin_step_def map_update_same)
  obtain b d where d: "nextBeaconDelayMs a i = (b, d)" by fastforce
  have "b = a\<lparr>nd_samples := nd_samples b\<rparr>" using nextBeaconDelayMs_node [of a i] d by simp
  moreover have "begin_step a (a\<lparr>nd_samples := nd_samples b\<rparr>)" by (simp add: begin_step_def)
  ultimately have "begin_step a b" by simp
  with a have b: "begin_step w b" by (rule begin_step_trans)
  obtain s h where sh: "\<And>delay. d = Some delay \<Longrightarrow> sched_after (nd_sched b) delay (BeaconTick i) = (s, h)"
    by (cases d) (auto, metis surj_pair)
  have fin: "begin_step w (b\<lparr>nd_fault := True\<rparr>)"
    "begin_step w (b\<lparr>nd_sched := s, nd_beacon_timer := (nd_beacon_timer b)[i := h]\<rparr>)"
    using b by (simp_all add: begin_step_def)
  have "begin_radio hub i w = (if nc_listen_only (nd_cfg a) then a else case d of
      None \<Rightarrow> b\<lparr>nd_fault := True\<rparr>
    | Some delay \<Rightarrow> b\<lparr>nd_sched := s, nd_beacon_timer := (nd_beacon_timer b)[i := h]\<rparr>)"
    unfolding begin_radio_def Let_def air_def [symmetric] a_def [symmetric] d prod.case
    using sh by (simp split: option.split)
  with a fin show ?thesis by (simp split: option.split)
qed

lemma begin_step_radios: "begin_step w (fold (begin_radio hub) is w)"
  by (induction "is" arbitrary: w) (auto intro: begin_step_trans begin_step_radio)

lemma begin_step_every:
  "(\<And>h v. begin_step v (keep h v)) \<Longrightarrow> begin_step w (start_every p c keep w)"
  unfolding start_every_def
  by (cases "sched_every (nd_sched w) p c")
    (auto intro: begin_step_trans [of w "w\<lparr>nd_sched := s\<rparr>" for s] simp: begin_step_def)

lemma node_begin_step:
  assumes "node_begin w now = Some w'"
  shows "\<exists>d a. node_poll w now = Some (d, a) \<and> begin_step a w'"
proof -
  obtain d a where a: "node_poll w now = Some (d, a)"
    using assms by (cases "node_poll w now") (auto simp: node_begin_def)
  define c where "c = a\<lparr>nd_radio_count := (case de_radios (nd_deps a) of
      None \<Rightarrow> 0 | Some hub \<Rightarrow> min (length hub) kMaxRadios),
    nd_beacon_timer := replicate kMaxRadios kInvalidTimer\<rparr>"
  define b where "b = (case de_radios (nd_deps c) of None \<Rightarrow> c
      | Some hub \<Rightarrow> fold (begin_radio hub) [0..<nd_radio_count c] c)"
  define e where "e = (if nc_listen_only (nd_cfg b) then b
      else start_every (nc_announce_interval_ms (nd_cfg b)) AnnounceTick (\<lambda>h w. w\<lparr>nd_announce_timer := h\<rparr>) b)"
  define f where "f = start_every (nc_expire_interval_ms (nd_cfg e)) ExpireTick (\<lambda>h w. w\<lparr>nd_expire_timer := h\<rparr>) e"
  have w': "w' = (if de_msp_radar_sink (nd_deps f)
      then start_every (nc_msp_radar_interval_ms (nd_cfg f)) RadarTick
        (\<lambda>h w. w\<lparr>nd_msp_radar_timer := h\<rparr>) (f\<lparr>nd_msp_radar_cursor := 0\<rparr>) else f)"
    using assms by (simp only: node_begin_def a option.case prod.case Let_def c_def [symmetric]
        b_def [symmetric] e_def [symmetric] f_def [symmetric] option.inject)
  have "begin_step a c" by (simp add: c_def begin_step_def)
  also have "begin_step c b" by (simp add: b_def begin_step_radios split: option.split)
  finally (begin_step_trans) have "begin_step a b" .
  also have "begin_step b e" by (auto simp: e_def intro!: begin_step_every) (simp add: begin_step_def)
  finally (begin_step_trans) have "begin_step a e" .
  also have "begin_step e f" by (auto simp: f_def intro!: begin_step_every) (simp add: begin_step_def)
  finally (begin_step_trans) have af: "begin_step a f" .
  have "begin_step f (f\<lparr>nd_msp_radar_cursor := 0\<rparr>)" by (simp add: begin_step_def)
  also have "begin_step (f\<lparr>nd_msp_radar_cursor := 0\<rparr>) (start_every (nc_msp_radar_interval_ms (nd_cfg f)) RadarTick
        (\<lambda>h w. w\<lparr>nd_msp_radar_timer := h\<rparr>) (f\<lparr>nd_msp_radar_cursor := 0\<rparr>))"
    by (intro begin_step_every) (simp add: begin_step_def)
  finally (begin_step_trans) have "begin_step f w'" by (simp add: w')
  with af a show ?thesis using begin_step_trans by blast
qed

lemma stable_life:
  assumes "stable P" and starts: "\<And>w w'. begin_step w w' \<Longrightarrow> P w \<Longrightarrow> P w'"
    and start: "node_inv (Node cfg deps)" "P (Node cfg deps)"
  shows "\<exists>w'. node_life cfg deps now es = Some w' \<and> node_inv w' \<and> P w'"
proof -
  have t: "timer_stable P" using assms(1) by (simp only: stable_def)
  obtain b where b: "node_begin (Node cfg deps) now = Some b" "node_inv b"
    using node_begin_total [OF start(1)] by blast
  obtain a d where a: "node_poll (Node cfg deps) now = Some (d, a)" "begin_step a b"
    using node_begin_step [OF b(1)] by blast
  obtain x where x: "node_poll (Node cfg deps) now = Some (sched_next_delay (nd_sched x), x)" "P x"
    using stable_poll [OF t start, of now] by blast
  have "a = x" using a(1) x(1) by simp
  with x(2) starts [OF a(2)] have "P b" by simp
  from stable_events [OF assms(1) b(2) this, of es] b(1) show ?thesis
    by (simp add: node_life_def)
qed

text \<open>A predicate of the outputs, the statistics and the log only.\<close>

lemma timer_stableI:
  assumes put: "\<And>s w. P w \<Longrightarrow> P (w\<lparr>nd_sched := s\<rparr>)"
    and beacon: "\<And>w i. node_inv w \<Longrightarrow> P w \<Longrightarrow> i < 4 \<Longrightarrow> \<not> nc_listen_only (nd_cfg w) \<Longrightarrow> P (sendBeacon w i)"
    and announce: "\<And>w. node_inv w \<Longrightarrow> P w \<Longrightarrow> \<not> nc_listen_only (nd_cfg w) \<Longrightarrow> P (sendAnnounce w)"
    and radar: "\<And>w. node_inv w \<Longrightarrow> P w \<Longrightarrow> P (onMspRadarTick w)"
    and peers: "\<And>w t. P w \<Longrightarrow> P (w\<lparr>nd_peers := t\<rparr>)"
    and samples: "\<And>w n. P w \<Longrightarrow> P (w\<lparr>nd_samples := n\<rparr>)"
    and fault: "\<And>w. P w \<Longrightarrow> P (w\<lparr>nd_fault := True\<rparr>)"
    and interval: "\<And>w i n. P w \<Longrightarrow> P (upd_radio i (\<lambda>s. s\<lparr>ra_beacon_interval_ms := n\<rparr>) w)"
  shows "timer_stable P"
  unfolding timer_stable_def
proof (intro conjI allI impI)
  fix c w assume w: "node_inv w" "P w" "has_task (nd_sched w) c"
  have t: "task_ok (nc_listen_only (nd_cfg w)) c" using node_invD(2) [OF w(1)] w(3) by (simp add: tasks_ok_def)
  show "P (node_run c w)"
  proof (cases c)
    case (BeaconTick i)
    obtain b d where d: "nextBeaconDelayMs (sendBeacon w i) i = (b, d)" by fastforce
    have bs: "b = (sendBeacon w i)\<lparr>nd_samples := nd_samples b\<rparr>"
      using nextBeaconDelayMs_node [of "sendBeacon w i" i] d by simp
    have "P b" by (subst bs, rule samples, rule beacon) (use w t BeaconTick in simp_all)
    then show ?thesis using d BeaconTick
      by (cases d) (simp_all add: onBeaconTick_def Let_def fault put interval)
  qed (use w t announce radar peers in simp_all)
qed (simp add: put_sched_def put)

section \<open>What one transmission does\<close>

text \<open>The record of a transmitted frame: the output, the counters and the log entry.\<close>

definition sent_on :: "node \<Rightarrow> nat \<Rightarrow> byte_list \<Rightarrow> u8 \<Rightarrow> node" where
  "sent_on w i frame ty =
     logFrame (upd_radio i (\<lambda>s. s\<lparr>ra_tx := ra_tx s + 1\<rparr>)
       (w\<lparr>nd_out := nd_out w @ [Transmit i frame]\<rparr>)) i (nc_uid (nd_cfg w)) (length frame) 0 ty Tx"

lemma hub_transmit_on: "radioTransmits hub i \<Longrightarrow> hub_transmit hub i f = [Transmit i f]"
  by (simp add: radioTransmits_def radioEnabled_def hub_transmit_def)

lemma stats_out: "upd_stats f (w\<lparr>nd_out := out\<rparr>) = (upd_stats f w)\<lparr>nd_out := out\<rparr>"
  by (cases w) (simp add: upd_stats_def)

lemma node_encrypt_len:
  assumes "crypto_ok w" "length pkt \<le> 64" "node_encrypt w (frame_buf pkt) (length pkt) = (v, buf, n)"
  shows "length (take n buf) = n" "tx_step w v"
  using node_encrypt_step [OF assms(3,2,1)] by simp_all

text \<open>A beacon tick either sends nothing or one frame.\<close>

lemma sendBeacon_cases:
  assumes "crypto_ok w"
  obtains (quiet) "sendBeacon w i = w"
  | (failed) p v buf where "node_encrypt w (frame_buf p) (length p) = (v, buf, 0)" "sendBeacon w i = v"
      "p = encodePosition (beacon_packet (nd_cfg w) (case de_location (nd_deps w) of None \<Rightarrow> NodeLocation | Some l \<Rightarrow> l)) 64"
  | (sent) p v buf n hub where "node_encrypt w (frame_buf p) (length p) = (v, buf, n)" "n \<noteq> 0"
      "p = encodePosition (beacon_packet (nd_cfg w) (case de_location (nd_deps w) of None \<Rightarrow> NodeLocation | Some l \<Rightarrow> l)) 64"
      "de_radios (nd_deps w) = Some hub" "radioTransmits hub i"
      "sendBeacon w i = sent_on (upd_stats (\<lambda>s. s\<lparr>st_beacons_sent := st_beacons_sent s + 1,
         st_last_tx_ms := sc_now_ms (nd_sched w)\<rparr>) v) i (take n buf) 1"
proof (cases "de_radios (nd_deps w)")
  case None
  then show ?thesis by (intro quiet) (simp add: sendBeacon_def)
next
  case (Some hub)
  define loc where "loc = (case de_location (nd_deps w) of None \<Rightarrow> NodeLocation | Some l \<Rightarrow> l)"
  define pkt where "pkt = encodePosition (beacon_packet (nd_cfg w) loc) 64"
  have l: "length pkt = 21" by (simp add: pkt_def encodePosition_64)
  obtain v buf n where e: "node_encrypt w (frame_buf pkt) (length pkt) = (v, buf, n)"
    by (metis prod_cases3)
  have v: "tx_step w v" "length (take n buf) = n" using node_encrypt_len [OF assms _ e] l by simp_all
  show thesis
  proof (cases "radioTransmits hub i")
    case False
    with Some show ?thesis by (intro quiet) (simp add: sendBeacon_def)
  next
    case tx: True
    have r: "sendBeacon w i = (if n = 0 then v else
        logFrame (upd_radio i (\<lambda>s. s\<lparr>ra_tx := ra_tx s + 1\<rparr>) (upd_stats (\<lambda>s. s\<lparr>st_beacons_sent := st_beacons_sent s + 1,
          st_last_tx_ms := sc_now_ms (nd_sched v)\<rparr>) (v\<lparr>nd_out := nd_out v @ hub_transmit hub i (take n buf)\<rparr>)))
          i (nc_uid (nd_cfg v)) n 0 1 Tx)"
      using Some tx e l unfolding sendBeacon_def loc_def [symmetric] Let_def
      by (simp add: pkt_def [symmetric] upd_stats_def upd_radio_def)
    show ?thesis
    proof (cases "n = 0")
      case True
      with r e show ?thesis by (intro failed [of pkt v buf]) (simp_all add: pkt_def loc_def)
    next
      case False
      have "sendBeacon w i = sent_on (upd_stats (\<lambda>s. s\<lparr>st_beacons_sent := st_beacons_sent s + 1,
         st_last_tx_ms := sc_now_ms (nd_sched w)\<rparr>) v) i (take n buf) 1"
        using r False v tx
        by (simp add: sent_on_def hub_transmit_on stats_out tx_step_def) (simp add: upd_stats_def)
      with e False Some tx show ?thesis by (intro sent [of pkt v buf n hub]) (simp_all add: pkt_def loc_def)
    qed
  qed
qed

lemma announce_on_Cons:
  assumes "crypto_ok w" "length plain \<le> 64"
    and e: "node_encrypt w (frame_buf plain) (length plain) = (v, buf, n)"
  shows "announce_on hub plain (i # is) sent w =
    (if \<not> radioTransmits hub i then announce_on hub plain is sent w
     else if n = 0 then announce_on hub plain is sent v
     else announce_on hub plain is True (sent_on v i (take n buf) 2))"
proof -
  note l = node_encrypt_len [OF assms]
  show ?thesis using l(1) e
    by (cases "radioTransmits hub i") (simp_all add: sent_on_def hub_transmit_on upd_radio_def)
qed

lemma sent_on_step: "tx_step w (sent_on w i f ty)"
  unfolding sent_on_def
  by (rule tx_step_trans [OF _ tx_step_log], rule tx_step_trans [OF tx_step_out tx_step_radio])

text \<open>A predicate that survives an encryption and a transmission survives both senders.\<close>

lemma sendBeacon_keeps:
  assumes "node_inv w" "P w" "i < 4"
    and sent: "\<And>w p v buf n. node_inv w \<Longrightarrow> P w \<Longrightarrow> 6 \<le> length p \<Longrightarrow> length p \<le> 26 \<Longrightarrow>
      node_encrypt w (frame_buf p) (length p) = (v, buf, n) \<Longrightarrow>
      (n = 0 \<longrightarrow> P v) \<and> (n \<noteq> 0 \<longrightarrow> P (sent_on v i (take n buf) 1))"
    and stats: "\<And>w f i b. P (sent_on w i b 1) \<Longrightarrow> P (sent_on (upd_stats (\<lambda>s. s\<lparr>st_beacons_sent := st_beacons_sent s + 1,
      st_last_tx_ms := f\<rparr>) w) i b 1)"
  shows "P (sendBeacon w i)"
  using node_invD(10) [OF assms(1)]
proof (cases rule: sendBeacon_cases [where i = i])
  case quiet
  with assms(2) show ?thesis by simp
next
  case (failed p v buf)
  then have "length p = 21" by (simp add: encodePosition_64)
  with failed sent [OF assms(1,2) _ _ failed(1)] show ?thesis by simp
next
  case (sent p v buf n hub)
  then have "length p = 21" by (simp add: encodePosition_64)
  with sent(2) assms(4) [OF assms(1,2) _ _ sent(1)] have "P (sent_on v i (take n buf) 1)" by simp
  with sent(6) stats show ?thesis by simp
qed

lemma announce_on_keeps:
  assumes sent: "\<And>w i v buf n. node_inv w \<Longrightarrow> P w \<Longrightarrow> i \<in> set is \<Longrightarrow>
      node_encrypt w (frame_buf plain) (length plain) = (v, buf, n) \<Longrightarrow>
      (n = 0 \<longrightarrow> P v) \<and> (n \<noteq> 0 \<longrightarrow> P (sent_on v i (take n buf) 2))"
    and l: "length plain \<le> 64"
  shows "node_inv w \<Longrightarrow> P w \<Longrightarrow> P (fst (announce_on hub plain is b w))"
  using sent
proof (induction "is" arbitrary: b w)
  case (Cons i "is")
  obtain v buf n where e: "node_encrypt w (frame_buf plain) (length plain) = (v, buf, n)"
    by (metis prod_cases3)
  note ok = node_invD(10) [OF Cons.prems(1)]
  have v: "node_inv v" using node_inv_tx [OF Cons.prems(1)] node_encrypt_len(2) [OF ok l e] by simp
  have s: "node_inv (sent_on v i (take n buf) 2)" by (rule node_inv_tx [OF v sent_on_step])
  note k = Cons.prems(3) [OF Cons.prems(1,2) _ e, of i]
  have IH: "node_inv x \<Longrightarrow> P x \<Longrightarrow> P (fst (announce_on hub plain is c x))" for c x
    by (rule Cons.IH, assumption, assumption, rule Cons.prems(3)) simp_all
  show ?case unfolding announce_on_Cons [OF ok l e]
    using IH [OF Cons.prems(1,2)] IH [OF v] IH [OF s] k by simp
qed simp

lemma sendAnnounce_keeps:
  assumes "node_inv w" "P w"
    and sent: "\<And>w i p v buf n. node_inv w \<Longrightarrow> P w \<Longrightarrow> i < 4 \<Longrightarrow> 6 \<le> length p \<Longrightarrow> length p \<le> 26 \<Longrightarrow>
      node_encrypt w (frame_buf p) (length p) = (v, buf, n) \<Longrightarrow>
      (n = 0 \<longrightarrow> P v) \<and> (n \<noteq> 0 \<longrightarrow> P (sent_on v i (take n buf) 2))"
    and stats: "\<And>w f. P w \<Longrightarrow> P (upd_stats (\<lambda>s. s\<lparr>st_announces_sent := st_announces_sent s + 1,
      st_last_tx_ms := f\<rparr>) w)"
  shows "P (sendAnnounce w)"
proof (cases "de_radios (nd_deps w)")
  case (Some hub)
  define plain where "plain = encodeAnnounce (announce_of (nd_cfg w)) 64"
  have lp: "6 \<le> length plain" "length plain \<le> 26"
    using encodeAnnounce_64 [of "announce_of (nd_cfg w)"]
      boundedLen_le [of "an_name (announce_of (nd_cfg w))" 15]
    by (simp_all add: plain_def encodeAnnounce_eq)
  obtain v sent where a: "announce_on hub plain [0..<nd_radio_count w] False w = (v, sent)"
    by fastforce
  have "P (fst (announce_on hub plain [0..<nd_radio_count w] False w))"
  proof (rule announce_on_keeps [where P = P, OF _ _ assms(1,2)])
    fix x i u buf n
    assume "node_inv x" "P x" "i \<in> set [0..<nd_radio_count w]"
      "node_encrypt x (frame_buf plain) (length plain) = (u, buf, n)"
    moreover from this(3) have "i < 4" using node_invD(12) [OF assms(1)] by simp
    ultimately show "(n = 0 \<longrightarrow> P u) \<and> (n \<noteq> 0 \<longrightarrow> P (sent_on u i (take n buf) 2))"
      using lp by (intro sent)
  qed (use lp in simp)
  then have v: "P v" using a by simp
  have "length plain \<noteq> 0" using lp(1) by linarith
  then have eq: "sendAnnounce w = (if \<not> sent then v else upd_stats (\<lambda>s. s\<lparr>st_announces_sent := st_announces_sent s + 1,
      st_last_tx_ms := sc_now_ms (nd_sched v)\<rparr>) v)"
    unfolding sendAnnounce_def Some option.case kMaxRxFrame_def plain_def [symmetric] Let_def a prod.case
    by (simp only: if_False)
  show ?thesis unfolding eq using v stats [OF v]
    by (cases sent) (simp_all only: if_True if_False not_True_eq_False not_False_eq_True)
qed (use assms in \<open>simp add: sendAnnounce_def\<close>)

section \<open>Accounting\<close>

text \<open>The frames of a life, and those of one radio.\<close>

fun transmitted :: "node_output list \<Rightarrow> byte_list list" where
  "transmitted [] = []"
| "transmitted (Transmit i f # out) = f # transmitted out"
| "transmitted (RadarPosition s p # out) = transmitted out"

lemma transmitted_append [simp]: "transmitted (a @ b) = transmitted a @ transmitted b"
  by (induction a rule: transmitted.induct) simp_all

fun transmitted_on :: "nat \<Rightarrow> node_output list \<Rightarrow> byte_list list" where
  "transmitted_on i [] = []"
| "transmitted_on i (Transmit j f # out) = (if j = i then f # transmitted_on i out else transmitted_on i out)"
| "transmitted_on i (RadarPosition s p # out) = transmitted_on i out"

lemma transmitted_on_append [simp]: "transmitted_on i (a @ b) = transmitted_on i a @ transmitted_on i b"
  by (induction i a rule: transmitted_on.induct) simp_all

lemma same_out_deps:
  "nd_out (logFrame w i u n r t k) = nd_out w" "nd_deps (logFrame w i u n r t k) = nd_deps w"
  "nd_out (upd_radio i f w) = nd_out w" "nd_deps (upd_radio i f w) = nd_deps w"
  "nd_out (upd_stats g w) = nd_out w" "nd_deps (upd_stats g w) = nd_deps w"
  "nd_out (rx_accept w i) = nd_out w" "nd_deps (rx_accept w i) = nd_deps w"
  "nd_out (rx_drop w i f) = nd_out w" "nd_deps (rx_drop w i f) = nd_deps w"
  by (simp_all add: logFrame_def upd_radio_def upd_stats_def rx_accept_def rx_drop_def)

lemma rx_packet_same: "nd_out (rx_packet w ri p len now rssi r) = nd_out w"
    "nd_deps (rx_packet w ri p len now rssi r) = nd_deps w"
  by (cases rule: rx_packet_cases [of w ri p len now rssi r]; simp add: same_out_deps)+

lemma onReceive_out: "nd_out (onReceive w data now rssi r) = nd_out w"
  by (simp add: onReceive_def Let_def same_out_deps rx_packet_same set_crypto_def
      split: option.split prod.split)

lemma radar_quiet:
  "transmitted (nd_out (radar_scan n w)) = transmitted (nd_out w)"
  "transmitted_on i (nd_out (radar_scan n w)) = transmitted_on i (nd_out w)"
proof -
  have "transmitted (nd_out (radar_scan n w)) = transmitted (nd_out w) \<and>
    transmitted_on i (nd_out (radar_scan n w)) = transmitted_on i (nd_out w)"
  proof (induction n arbitrary: w)
    case (Suc n)
    show ?case
      by (cases "pt_at (nd_peers w) (nd_msp_radar_cursor w)") (simp_all add: radar_scan_Suc Let_def Suc.IH)
  qed simp
  then show "transmitted (nd_out (radar_scan n w)) = transmitted (nd_out w)"
    "transmitted_on i (nd_out (radar_scan n w)) = transmitted_on i (nd_out w)" by blast+
qed

definition rx_total :: "node \<Rightarrow> u32" where
  "rx_total w = st_rx_ok (nd_stats w) + st_rx_rejected (nd_stats w) + st_rx_self (nd_stats w)"

text \<open>The frame log has an entry for every frame transmitted or received, and every radio's counter is
  the number of the frames transmitted on it.\<close>

definition radio_counts :: "node \<Rightarrow> bool" where
  "radio_counts w \<longleftrightarrow>
     map ra_tx (nd_radio_stats w) = map (\<lambda>i. of_nat (length (transmitted_on i (nd_out w)))) [0..<kMaxRadios]"

definition log_complete :: "node \<Rightarrow> bool" where
  "log_complete w \<longleftrightarrow> fl_total (nd_frames w) = rx_total w + of_nat (length (transmitted (nd_out w))) \<and> radio_counts w"

lemma totals_simps [simp]:
  "rx_total (upd_radio i f w) = rx_total w" "rx_total (w\<lparr>nd_out := out\<rparr>) = rx_total w"
  "rx_total (logFrame w i u n r t k) = rx_total w" "rx_total (set_crypto c w) = rx_total w"
  "fl_total (nd_frames (logFrame w i u n r t k)) = fl_total (nd_frames w) + 1"
  "nd_frames (upd_radio i f w) = nd_frames w" "nd_frames (upd_stats g w) = nd_frames w"
  "nd_frames (set_crypto c w) = nd_frames w"
  "length (nd_radio_stats (set_crypto c w)) = length (nd_radio_stats w)"
  "nd_radio_stats (upd_stats g w) = nd_radio_stats w" "nd_out (upd_stats g w) = nd_out w"
  "nd_out (upd_radio i f w) = nd_out w" "nd_out (logFrame w i u n r t k) = nd_out w"
  "nd_radio_stats (logFrame w i u n r t k) = nd_radio_stats w"
  by (simp_all add: rx_total_def upd_stats_def upd_radio_def logFrame_def set_crypto_def)

lemma node_encrypt_same:
  assumes "node_encrypt w b l = (v, buf, n)"
  shows "rx_total v = rx_total w" "nd_frames v = nd_frames w"
    "nd_radio_stats v = nd_radio_stats w" "nd_stats v = nd_stats w" "nd_out v = nd_out w"
  using assms by (auto simp: node_encrypt_def set_crypto_def rx_total_def
      split: option.splits prod.splits)

lemma sent_on_fields:
  "nd_out (sent_on w i f ty) = nd_out w @ [Transmit i f]" "rx_total (sent_on w i f ty) = rx_total w"
  "fl_total (nd_frames (sent_on w i f ty)) = fl_total (nd_frames w) + 1"
  "nd_radio_stats (sent_on w i f ty) =
     (nd_radio_stats w)[i := (nd_radio_stats w ! i)\<lparr>ra_tx := ra_tx (nd_radio_stats w ! i) + 1\<rparr>]"
  by (simp_all add: sent_on_def, simp_all add: upd_radio_def)

lemma rx_total_sent [simp]:
  "rx_total (upd_stats (\<lambda>s. s\<lparr>st_beacons_sent := n s, st_last_tx_ms := t\<rparr>) w) = rx_total w"
  "rx_total (upd_stats (\<lambda>s. s\<lparr>st_announces_sent := n s, st_last_tx_ms := t\<rparr>) w) = rx_total w"
  by (simp_all add: rx_total_def upd_stats_def)

lemma sent_counted:
  assumes "radio_counts w" "i < 4"
  shows "radio_counts (sent_on w i f ty)"
proof -
  have l: "length (nd_radio_stats w) = 4" using arg_cong [OF assms(1) [unfolded radio_counts_def], of length] by simp
  have n: "ra_tx (nd_radio_stats w ! j) = of_nat (length (transmitted_on j (nd_out w)))" if "j < 4" for j
    using arg_cong [OF assms(1) [unfolded radio_counts_def], of "\<lambda>xs. xs ! j"] that l by simp
  show ?thesis
    unfolding radio_counts_def sent_on_fields
    by (rule nth_equalityI) (use l n assms(2) in \<open>auto simp: nth_list_update\<close>)
qed

lemma sent_complete:
  assumes "log_complete w" "i < 4" "node_encrypt w b l = (v, buf, n)"
  shows "log_complete v" "rx_total v = rx_total w"
    "log_complete (sent_on v i f ty)" "rx_total (sent_on v i f ty) = rx_total w"
proof -
  note e = node_encrypt_same [OF assms(3)]
  show v: "log_complete v" "rx_total v = rx_total w" using assms(1) e by (simp_all add: log_complete_def radio_counts_def)
  show "log_complete (sent_on v i f ty)" "rx_total (sent_on v i f ty) = rx_total w"
    using v sent_counted [OF _ assms(2), of v f ty] by (simp_all add: log_complete_def sent_on_fields)
qed

text \<open>Every frame handed to the node is counted once, and logged once.\<close>

lemma rx_counted:
  "rx_total (rx_accept w i) = rx_total w + 1" "rx_total (rx_drop w i f) = rx_total w + 1"
  "rx_total (upd_stats (\<lambda>s. s\<lparr>st_rx_self := st_rx_self s + 1\<rparr>) w) = rx_total w + 1"
  by (simp_all add: rx_total_def rx_accept_def rx_drop_def upd_radio_def upd_stats_def)

lemma rx_accept_frames [simp]: "nd_frames (rx_accept w i) = nd_frames w"
  by (simp add: rx_accept_def)

lemma rx_drop_frames [simp]: "nd_frames (rx_drop w i f) = nd_frames w"
  by (simp add: rx_drop_def)

lemma rx_packet_counted:
  "rx_total (rx_packet w ri packet len now rssi r) = rx_total w + 1 \<and>
   fl_total (nd_frames (rx_packet w ri packet len now rssi r)) = fl_total (nd_frames w) + 1"
  by (cases rule: rx_packet_cases [of w ri packet len now rssi r])
    (simp_all add: rx_counted, simp_all add: rx_total_def)

lemma onReceive_counted:
  assumes "node_inv w"
  shows "rx_total (onReceive w data now rssi r) = rx_total w + 1 \<and>
    fl_total (nd_frames (onReceive w data now rssi r)) = fl_total (nd_frames w) + 1"
  using node_invD(10) [OF assms]
proof (cases rule: onReceive_cases [where data = data and now = now and rssi = rssi and r = r])
  case (dropped v f k)
  then show ?thesis by (simp add: rx_counted) (simp add: rx_total_def)
next
  case (packet v p)
  then show ?thesis
    using rx_packet_counted [of v "if r < kMaxRadios then r else 0" p "length data" now rssi r]
    by (simp add: rx_total_def)
qed

lemma timers_keep_counts: "timer_stable (\<lambda>w. log_complete w \<and> rx_total w = k)"
proof (rule timer_stableI)
  fix w i assume w: "node_inv w" "log_complete w \<and> rx_total w = k" "i < (4 :: nat)"
  show "log_complete (sendBeacon w i) \<and> rx_total (sendBeacon w i) = k"
  proof (rule sendBeacon_keeps [where P = "\<lambda>w. log_complete w \<and> rx_total w = k", OF w])
    fix w p v buf n
    assume "node_inv w" "log_complete w \<and> rx_total w = k" "node_encrypt w (frame_buf p) (length p) = (v, buf, n)"
    with w(3) sent_complete [of w i "frame_buf p" "length p" v buf n]
    show "(n = 0 \<longrightarrow> log_complete v \<and> rx_total v = k) \<and>
      (n \<noteq> 0 \<longrightarrow> log_complete (sent_on v i (take n buf) 1) \<and> rx_total (sent_on v i (take n buf) 1) = k)"
      by simp
  qed (simp add: sent_on_fields log_complete_def radio_counts_def)
next
  fix w assume w: "node_inv w" "log_complete w \<and> rx_total w = k"
  show "log_complete (sendAnnounce w) \<and> rx_total (sendAnnounce w) = k"
  proof (rule sendAnnounce_keeps [where P = "\<lambda>w. log_complete w \<and> rx_total w = k", OF w])
    fix w i p v buf n
    assume "node_inv w" "log_complete w \<and> rx_total w = k" "node_encrypt w (frame_buf p) (length p) = (v, buf, n)"
      "i < (4 :: nat)"
    with sent_complete [of w i "frame_buf p" "length p" v buf n]
    show "(n = 0 \<longrightarrow> log_complete v \<and> rx_total v = k) \<and>
      (n \<noteq> 0 \<longrightarrow> log_complete (sent_on v i (take n buf) 2) \<and> rx_total (sent_on v i (take n buf) 2) = k)"
      by simp
  qed (simp add: log_complete_def radio_counts_def)
next
  fix w assume w: "node_inv w" "log_complete w \<and> rx_total w = k"
  obtain c out where r: "radar_scan 16 w = w\<lparr>nd_msp_radar_cursor := c, nd_out := out\<rparr>"
    using radar_scan_shape [OF node_invD(7) [OF w(1)]] by metis
  then have "transmitted out = transmitted (nd_out w)" "transmitted_on i out = transmitted_on i (nd_out w)" for i
    using radar_quiet [where n = 16 and w = w] by simp_all
  with w(2) r show "log_complete (onMspRadarTick w) \<and> rx_total (onMspRadarTick w) = k"
    by (simp add: onMspRadarTick_def log_complete_def rx_total_def radio_counts_def)
next
  fix w i n assume w: "log_complete w \<and> rx_total w = k"
  then show "log_complete (upd_radio i (\<lambda>s. s\<lparr>ra_beacon_interval_ms := n\<rparr>) w) \<and>
      rx_total (upd_radio i (\<lambda>s. s\<lparr>ra_beacon_interval_ms := n\<rparr>) w) = k"
    by (simp add: log_complete_def radio_counts_def) (simp add: upd_radio_def map_update_same)
qed (simp_all add: log_complete_def rx_total_def radio_counts_def)

lemma rx_packet_tx: "map ra_tx (nd_radio_stats (rx_packet w ri p len now rssi r)) = map ra_tx (nd_radio_stats w)"
proof -
  have u: "map ra_tx (nd_radio_stats (upd_radio i f v)) = map ra_tx (nd_radio_stats v)"
    if "\<And>s. ra_tx (f s) = ra_tx s" for i f v using that by (simp add: upd_radio_def map_update_same)
  show ?thesis
    by (cases rule: rx_packet_cases [of w ri p len now rssi r])
      (simp_all add: rx_drop_def rx_accept_def decode_fail_def u)
qed

lemma onReceive_tx: "map ra_tx (nd_radio_stats (onReceive w data now rssi r)) = map ra_tx (nd_radio_stats w)"
proof -
  have u: "map ra_tx (nd_radio_stats (upd_radio i f v)) = map ra_tx (nd_radio_stats v)"
    if "\<And>s. ra_tx (f s) = ra_tx s" for i f v using that by (simp add: upd_radio_def map_update_same)
  have c: "nd_radio_stats (set_crypto c v) = nd_radio_stats v" for c v by (simp add: set_crypto_def)
  show ?thesis
    by (simp add: onReceive_def Let_def rx_packet_tx rx_drop_def decode_fail_def u c split: option.split prod.split)
qed

fun is_receive :: "node_event \<Rightarrow> bool" where
  "is_receive (Receive _ _ _ _) = True"
| "is_receive _ = False"

lemma events_counted:
  assumes "node_inv w" "log_complete w" "node_events es w = Some w'"
  shows "log_complete w' \<and> rx_total w' = rx_total w + of_nat (length (filter is_receive es))"
  using assms
proof (induction es arbitrary: w)
  case (Cons e es)
  obtain v where v: "node_step e w = Some v" "node_events es v = Some w'"
    using Cons.prems(3) by (auto split: option.splits)
  have "node_inv v \<and> log_complete v \<and> rx_total v = rx_total w + (if is_receive e then 1 else 0)"
  proof (cases e)
    case (Poll now)
    obtain x where "node_poll w now = Some (sched_next_delay (nd_sched x), x)" "node_inv x"
      "log_complete x" "rx_total x = rx_total w"
      using stable_poll [OF timers_keep_counts [of "rx_total w"] Cons.prems(1), of now] Cons.prems(2) by auto
    with v(1) Poll show ?thesis by simp
  next
    case (Receive d n s r)
    with v(1) Cons.prems(2) onReceive_counted [OF Cons.prems(1), of d n s r]
      onReceive_inv [OF Cons.prems(1)] show ?thesis
      by (auto simp: log_complete_def radio_counts_def onReceive_tx onReceive_out)
  next
    case (Rewire hub loc)
    with v(1) rewire_inv [OF Cons.prems(1)] Cons.prems(2) show ?thesis
      by (auto simp: log_complete_def rx_total_def radio_counts_def rewire_def)
  qed
  with Cons.IH [of v] v(2) show ?case by simp
qed simp

lemma life_counted:
  assumes "node_inv (Node cfg deps)" "node_life cfg deps now es = Some w"
  shows "log_complete w \<and> rx_total w = of_nat (length (filter is_receive es))"
proof -
  let ?w = "Node cfg deps"
  obtain b where b: "node_begin ?w now = Some b" "node_inv b" "node_events es b = Some w"
    using assms node_begin_total [OF assms(1), of now] by (auto simp: node_life_def)
  obtain d a where a: "node_poll ?w now = Some (d, a)" "begin_step a b"
    using node_begin_step [OF b(1)] by blast
  have "log_complete ?w \<and> rx_total ?w = 0"
    by (simp add: Node_def log_complete_def rx_total_def radio_counts_def NodeStats_def FrameLog_def
        RadioStats_def map_replicate_const)
  from stable_poll [OF timers_keep_counts assms(1) this, of now] a(1)
  have "log_complete a \<and> rx_total a = 0" by auto
  with a(2) have "log_complete b \<and> rx_total b = 0"
    by (simp add: begin_step_def log_complete_def rx_total_def radio_counts_def)
  with events_counted [OF b(2) _ b(3)] show ?thesis by simp
qed

section \<open>Nonces\<close>

text \<open>Under a CCM key, every frame sent so far carries its own counter, in order, and the cipher's
  counter is that of the last frame.\<close>

definition nonces_fresh :: "u32 \<Rightarrow> node \<Rightarrow> bool" where
  "nonces_fresh k w \<longleftrightarrow> (\<exists>c. de_crypto (nd_deps w) = Some (UseCcm c) \<and>
     map frame_counter (transmitted (nd_out w)) =
       map (\<lambda>j. k + of_nat (Suc j)) [0..<length (transmitted (nd_out w))] \<and>
     cc_counter c = k + of_nat (length (transmitted (nd_out w))))"

lemma frame_counter_sealed:
  assumes "sealed aes uid ctr p = Some f" "6 \<le> length p"
  shows "frame_counter f = ctr"
proof -
  obtain d t where f: "f = frame_header ctr p @ d @ t" using assms(1) by (auto simp: sealed_def)
  have "take 4 (drop 6 f) = put_u32 [] ctr"
    using assms(2) by (simp add: f frame_header_def put_cursor(3) [of "take 6 p"] min_absorb2)
  from get_u32_put [OF this] show ?thesis by (simp add: frame_counter_def)
qed

text \<open>Encrypting a packet under a CCM key: the next counter, and the sealed packet.\<close>

lemma node_encrypt_ccm:
  assumes "de_crypto (nd_deps w) = Some (UseCcm c)" "6 \<le> length p" "length p \<le> 26"
    and "node_encrypt w (frame_buf p) (length p) = (v, buf, n)"
  shows "n = length p + 10" "sealed (cc_aes c) (cc_uid c) (cc_counter c + 1) p = Some (take n buf)"
    "v = set_crypto (UseCcm (c\<lparr>cc_counter := cc_counter c + 1\<rparr>)) w"
proof -
  let ?k = "cc_counter c + 1"
  have l: "length (frame_buf p) = 64" "take (length p) (frame_buf p) = p"
    using assms(3) by (simp_all add: frame_buf_def)
  obtain f where f: "sealed (cc_aes c) (cc_uid c) ?k p = Some f" "length f = length p + 10"
    "encryptAs (cc_aes c) (cc_uid c) ?k (frame_buf p) (length p) 64 =
      (f @ drop (length p + 10) (frame_buf p), length p + 10)"
    using encryptAs_makes_sealed [of "length p" 64 "frame_buf p" "cc_aes c" "cc_uid c" ?k] assms(2,3) l
    by auto
  show "n = length p + 10" "sealed (cc_aes c) (cc_uid c) ?k p = Some (take n buf)"
    "v = set_crypto (UseCcm (c\<lparr>cc_counter := ?k\<rparr>)) w"
    using assms(1,4) f by (auto simp: node_encrypt_def cc_encrypt_def Let_def)
qed

lemma nonces_fresh_sent:
  assumes "nonces_fresh k w" "6 \<le> length p" "length p \<le> 26"
    and e: "node_encrypt w (frame_buf p) (length p) = (v, buf, n)"
  shows "(n = 0 \<longrightarrow> nonces_fresh k v) \<and> (n \<noteq> 0 \<longrightarrow> nonces_fresh k (sent_on v i (take n buf) ty))"
proof -
  obtain c where c: "de_crypto (nd_deps w) = Some (UseCcm c)"
    and m: "map frame_counter (transmitted (nd_out w)) =
       map (\<lambda>j. k + of_nat (Suc j)) [0..<length (transmitted (nd_out w))]"
    and k: "cc_counter c = k + of_nat (length (transmitted (nd_out w)))"
    using assms(1) by (auto simp: nonces_fresh_def)
  note s = node_encrypt_ccm [OF c assms(2-4)]
  have "frame_counter (take n buf) = cc_counter c + 1" by (rule frame_counter_sealed [OF s(2) assms(2)])
  with s(1,3) m k show ?thesis
    by (simp add: nonces_fresh_def sent_on_def logFrame_def upd_radio_def set_crypto_def)
qed

lemma cc_decrypt_same_counter: "cc_counter (fst (cc_decrypt c buf len now)) = cc_counter c"
proof -
  have r: "cc_counter (fst (replay_check d u k now)) = cc_counter d" for d u k
  proof -
    obtain c' i fresh where s: "slotFor d u now = (c', i, fresh)" by (metis prod_cases3)
    have "cc_counter c' = cc_counter d" using s by (auto simp: slotFor_def Let_def split: option.splits)
    then show ?thesis unfolding replay_check_def Let_def s prod.case by (simp split: prod.split)
  qed
  show ?thesis
  proof (cases "len < 16")
    case False
    then obtain n where n: "len = 16 + n" by (metis le_iff_add not_less)
    obtain d ok where d: "frame_body (cc_aes c) buf n = (d, ok)" by fastforce
    show ?thesis
      using r [of "c\<lparr>cc_last_reject_replay := False\<rparr>" "frame_sender buf" "frame_counter buf"]
      unfolding n cc_decrypt_body d prod.case by (auto split: prod.splits)
  qed (simp add: cc_decrypt_def)
qed

lemma onReceive_crypto:
  assumes "de_crypto (nd_deps w) = Some (UseCcm c)"
  shows "\<exists>c'. de_crypto (nd_deps (onReceive w data now rssi r)) = Some (UseCcm c') \<and>
    cc_counter c' = cc_counter c"
proof -
  obtain d b res where e: "cc_decrypt c (frame_buf data) (length data) now = (d, b, res)"
    by (metis prod_cases3)
  have k: "cc_counter d = cc_counter c"
    using cc_decrypt_same_counter [of c "frame_buf data" "length data" now] e by simp
  show ?thesis
  proof (cases "length data = 0 \<or> length data > kMaxRxFrame")
    case True
    then show ?thesis using assms by (simp add: onReceive_def Let_def same_out_deps)
  next
    case False
    then show ?thesis using assms e k
      by (cases res) (simp_all add: onReceive_def Let_def same_out_deps rx_packet_same set_crypto_def)
  qed
qed

lemma nonces_fresh_cong:
  "nd_out w' = nd_out w \<Longrightarrow> nd_deps w' = nd_deps w \<Longrightarrow> nonces_fresh k w' = nonces_fresh k w"
  by (simp add: nonces_fresh_def)

lemma nonces_stable: "stable (nonces_fresh k)"
  unfolding stable_def
proof (intro conjI allI impI)
  show "timer_stable (nonces_fresh k)"
  proof (rule timer_stableI)
    fix w i assume w: "node_inv w" "nonces_fresh k w" "i < (4 :: nat)"
    show "nonces_fresh k (sendBeacon w i)"
    proof (rule sendBeacon_keeps [where P = "nonces_fresh k", OF w])
      fix w f i b
      assume n: "nonces_fresh k (sent_on w i b 1)"
      show "nonces_fresh k (sent_on (upd_stats (\<lambda>s. s\<lparr>st_beacons_sent := st_beacons_sent s + 1,
          st_last_tx_ms := f\<rparr>) w) i b 1)"
        using n by (rule iffD1 [OF nonces_fresh_cong, rotated 2])
          (simp_all add: sent_on_def logFrame_def upd_radio_def upd_stats_def)
    qed (use nonces_fresh_sent in blast)
  next
    fix w assume w: "node_inv w" "nonces_fresh k w"
    show "nonces_fresh k (sendAnnounce w)"
    proof (rule sendAnnounce_keeps [where P = "nonces_fresh k", OF w])
      show "nonces_fresh k (upd_stats g v)" if "nonces_fresh k v" for v g
        using that by (rule iffD1 [OF nonces_fresh_cong, rotated 2]) (simp_all add: same_out_deps)
    qed (use nonces_fresh_sent in blast)
  next
    fix w assume w: "node_inv w" "nonces_fresh k w"
    show "nonces_fresh k (onMspRadarTick w)"
    proof (cases "de_msp_radar_sink (nd_deps w)")
      case True
      have t: "transmitted (nd_out (radar_scan n v)) = transmitted (nd_out v) \<and> nd_deps (radar_scan n v) = nd_deps v"
        for n v
      proof (induction n arbitrary: v)
        case (Suc n)
        show ?case
          by (cases "pt_at (nd_peers v) (nd_msp_radar_cursor v)")
            (simp_all add: radar_scan_Suc Let_def Suc.IH)
      qed simp
      with True w(2) show ?thesis by (simp add: onMspRadarTick_def nonces_fresh_def)
    qed (use w in \<open>simp add: onMspRadarTick_def\<close>)
  qed (simp_all add: nonces_fresh_def upd_radio_def)
next
  fix d n s r w assume w: "node_inv w" "nonces_fresh k w"
  then obtain c where "de_crypto (nd_deps w) = Some (UseCcm c)" by (auto simp: nonces_fresh_def)
  from onReceive_crypto [OF this, of d n s r] w(2) this show "nonces_fresh k (onReceive w d n s r)"
    by (auto simp: nonces_fresh_def onReceive_out)
qed (simp add: nonces_fresh_def rewire_def)

end
