(* ===== verification/Node_Props.thy ===== *)
theory Node_Props
  imports Node_Runs
begin

text \<open>
  The properties of the node: it never gets stuck, never tracks itself, accounts for every frame
  it hears, never transmits when it is to listen only, never uses a nonce twice, shows every peer
  it knows on the radar, and a beacon that is heard arrives in the peer table.
\<close>

declare of_nat_unat [simp del]

section \<open>Configuration, silence and pacing\<close>

lemma tx_step_cfg: "tx_step w w' \<Longrightarrow> nd_cfg w' = nd_cfg w" "tx_step w w' \<Longrightarrow> nd_rate w' = nd_rate w"
  "tx_step w w' \<Longrightarrow> nd_airtime w' = nd_airtime w" "tx_step w w' \<Longrightarrow> nd_fault w' = nd_fault w"
  "tx_step w w' \<Longrightarrow> de_rng (nd_deps w') = de_rng (nd_deps w)"
  by (simp_all add: tx_step_def same_wiring_def)

lemma rx_packet_fields:
  "nd_cfg (rx_packet w ri p len now rssi r) = nd_cfg w" "nd_rate (rx_packet w ri p len now rssi r) = nd_rate w"
  "nd_airtime (rx_packet w ri p len now rssi r) = nd_airtime w"
  "nd_fault (rx_packet w ri p len now rssi r) = nd_fault w"
  "de_rng (nd_deps (rx_packet w ri p len now rssi r)) = de_rng (nd_deps w)"
  by (cases rule: rx_packet_cases [of w ri p len now rssi r];
      simp add: logFrame_def rx_drop_def rx_accept_def upd_radio_def upd_stats_def)+

lemma onReceive_fields:
  assumes "node_inv w"
  shows "nd_cfg (onReceive w d now rssi r) = nd_cfg w" "nd_rate (onReceive w d now rssi r) = nd_rate w"
    "nd_airtime (onReceive w d now rssi r) = nd_airtime w"
    "nd_fault (onReceive w d now rssi r) = nd_fault w"
    "de_rng (nd_deps (onReceive w d now rssi r)) = de_rng (nd_deps w)"
proof -
  have "nd_cfg (onReceive w d now rssi r) = nd_cfg w \<and> nd_rate (onReceive w d now rssi r) = nd_rate w \<and>
    nd_airtime (onReceive w d now rssi r) = nd_airtime w \<and>
    nd_fault (onReceive w d now rssi r) = nd_fault w \<and>
    de_rng (nd_deps (onReceive w d now rssi r)) = de_rng (nd_deps w)"
    using node_invD(10) [OF assms]
  proof (cases rule: onReceive_cases [where data = d and now = now and rssi = rssi and r = r])
    case (dropped v f k)
    have "tx_step w (onReceive w d now rssi r)"
      unfolding dropped(4)
      by (rule tx_step_trans [OF _ tx_step_log], rule tx_step_trans [OF dropped(1) rx_drop_step])
    then show ?thesis by (simp add: tx_step_cfg)
  next
    case (packet v p)
    with tx_step_cfg [OF packet(1)] show ?thesis by (simp add: rx_packet_fields)
  qed
  then show "nd_cfg (onReceive w d now rssi r) = nd_cfg w" "nd_rate (onReceive w d now rssi r) = nd_rate w"
    "nd_airtime (onReceive w d now rssi r) = nd_airtime w"
    "nd_fault (onReceive w d now rssi r) = nd_fault w"
    "de_rng (nd_deps (onReceive w d now rssi r)) = de_rng (nd_deps w)" by blast+
qed

lemma radar_fields:
  assumes "node_inv w"
  shows "nd_cfg (onMspRadarTick w) = nd_cfg w" "nd_rate (onMspRadarTick w) = nd_rate w"
    "nd_airtime (onMspRadarTick w) = nd_airtime w" "nd_fault (onMspRadarTick w) = nd_fault w"
    "nd_deps (onMspRadarTick w) = nd_deps w"
proof -
  obtain c out where "radar_scan 16 w = w\<lparr>nd_msp_radar_cursor := c, nd_out := out\<rparr>"
    using radar_scan_shape [OF node_invD(7) [OF assms]] by metis
  then show "nd_cfg (onMspRadarTick w) = nd_cfg w" "nd_rate (onMspRadarTick w) = nd_rate w"
    "nd_airtime (onMspRadarTick w) = nd_airtime w" "nd_fault (onMspRadarTick w) = nd_fault w"
    "nd_deps (onMspRadarTick w) = nd_deps w"
    by (simp_all add: onMspRadarTick_def)
qed

lemma cfg_stable: "stable (\<lambda>w. nd_cfg w = c)"
  unfolding stable_def
proof (intro conjI allI impI)
  show "timer_stable (\<lambda>w. nd_cfg w = c)"
  proof (rule timer_stableI)
    fix w i assume w: "node_inv w" "nd_cfg w = c"
    with tx_step_cfg(1) [OF sendBeacon_step [OF node_invD(10) [OF w(1)]]]
    show "nd_cfg (sendBeacon w i) = c" by simp
  next
    fix w assume w: "node_inv w" "nd_cfg w = c"
    with tx_step_cfg(1) [OF sendAnnounce_step [OF node_invD(10) [OF w(1)]]]
    show "nd_cfg (sendAnnounce w) = c" by simp
  qed (simp_all add: radar_fields upd_radio_def)
qed (simp_all add: onReceive_fields rewire_def)

definition silent :: "node \<Rightarrow> bool" where
  "silent w \<longleftrightarrow> nc_listen_only (nd_cfg w) \<and> transmitted (nd_out w) = []"

lemma silent_stable: "stable silent"
  unfolding stable_def
proof (intro conjI allI impI)
  show "timer_stable silent"
  proof (rule timer_stableI)
    fix w assume w: "node_inv w" "silent w"
    then show "silent (onMspRadarTick w)"
      by (simp add: silent_def radar_fields) (simp add: onMspRadarTick_def radar_quiet)
  qed (simp_all add: silent_def upd_radio_def)
qed (simp_all add: silent_def onReceive_fields onReceive_out rewire_def)

text \<open>A configuration, random source and airtimes for which every beacon delay is defined.\<close>

definition rate_ok :: "rate_config \<Rightarrow> bool" where
  "rate_ok cfg \<longleftrightarrow> rc_min_interval_ms cfg \<le> rc_max_interval_ms cfg \<and>
     rc_max_interval_ms cfg < 0x80000000 \<and> 0 \<le> rc_jitter_frac cfg \<and> rc_jitter_frac cfg \<le> 1 \<and>
     dbl_round (rc_jitter_frac cfg) = rc_jitter_frac cfg"

definition paced :: "node \<Rightarrow> bool" where
  "paced w \<longleftrightarrow> rate_ok (rt_cfg (nd_rate w)) \<and> (\<forall>a \<in> set (nd_airtime w). a \<le> 20000000) \<and>
     (case de_rng (nd_deps w) of None \<Rightarrow> True | Some rng \<Rightarrow> \<forall>n. 0 \<le> rng n \<and> rng n \<le> 1) \<and>
     \<not> nd_fault w"

lemma dutyFloorMs_bound:
  assumes "dutyFloorMs cfg a = Some f" "a \<le> 20000000"
  shows "f < 0x80000000"
proof (cases "rc_duty_cycle_pct cfg = 0 \<or> a \<le> 0")
  case True
  with assms(1) show ?thesis by (auto simp: dutyFloorMs_def)
next
  case False
  let ?d = "of_nat (unat (rc_duty_cycle_pct cfg)) :: rat"
  have d: "1 \<le> ?d" using duty_nonzero [of cfg] False by simp
  have r: "dbl_round (of_int 2000000000) = of_int 2000000000" by (rule round_to_of_int) auto
  have m: "0 \<le> dmul a 100" "dmul a 100 \<le> 2000000000"
    using False assms(2) r by (auto simp: dmul_def intro!: round_to_nonneg round_to_le)
  have "dmul a 100 / ?d \<le> dmul a 100" using m d by (simp add: divide_le_eq mult_le_cancel_left1)
  with m have q: "dmul a 100 / ?d \<le> 2000000000" by linarith
  have "dbl_round (dmul a 100 / ?d) \<le> dbl_of_u32 2000000000"
    using q r by (auto simp: dbl_of_u32_def intro!: round_to_le)
  moreover have "0 \<le> dbl_round (dmul a 100 / ?d)" using m d by (intro round_to_nonneg) simp
  ultimately obtain n where "u32_nearest (dbl_round (dmul a 100 / ?d)) = Some n" "n \<le> 2000000000"
    using u32_nearest_total by blast
  with assms(1) False d have "f \<le> 2000000000" by (auto simp: dutyFloorMs_def ddiv_def)
  then show ?thesis by (simp add: word_le_nat_alt word_less_nat_alt)
qed

lemma delay_defined:
  assumes "rate_ok cfg" "a \<le> 20000000" "0 \<le> r" "r \<le> 1"
  shows "\<exists>d. nextDelayMs cfg n r a = Some d"
proof -
  obtain f c where b: "dutyFloorMs cfg a = Some f" "c \<le> rc_max_interval_ms cfg"
    "baseIntervalMs cfg n a = Some (max c f)"
    using baseIntervalMs_total [of a cfg n] assms(1,2) by (auto simp: rate_ok_def)
  have "max c f < 0x80000000"
    using dutyFloorMs_bound [OF b(1) assms(2)] b(2) assms(1) by (auto simp: rate_ok_def max_def)
  from nextDelayMs_between [OF b(3) this assms(3,4)] assms(1) show ?thesis
    by (auto simp: rate_ok_def)
qed

lemma nextBeaconDelayMs_defined:
  assumes "paced w" "i < length (nd_airtime w)"
  obtains d where "snd (nextBeaconDelayMs w i) = Some d"
proof -
  have a: "nd_airtime w ! i \<le> 20000000" using assms by (simp add: paced_def)
  have r: "rate_ok (rt_cfg (nd_rate w))" using assms(1) by (simp add: paced_def)
  have half: "0 \<le> (1 / 2 :: rat)" "1 / 2 \<le> (1 :: rat)" by simp_all
  show ?thesis
  proof (cases "de_rng (nd_deps w)")
    case None
    with delay_defined [OF r a half] that show ?thesis by (auto simp: nextBeaconDelayMs_def Let_def)
  next
    case (Some rng)
    then have "0 \<le> rng n" "rng n \<le> 1" for n using assms(1) by (simp_all add: paced_def)
    from delay_defined [OF r a this, of _ "nd_samples w"] Some that show ?thesis
      by (auto simp: nextBeaconDelayMs_def Let_def)
  qed
qed

lemma paced_step: "tx_step w w' \<Longrightarrow> paced w' = paced w"
  using tx_step_cfg [of w w'] by (simp add: paced_def)

lemma paced_cong:
  assumes "nd_rate w' = nd_rate w" "nd_airtime w' = nd_airtime w" "nd_deps w' = nd_deps w"
    "nd_fault w' = nd_fault w"
  shows "paced w' = paced w"
  by (simp only: paced_def assms)

lemma onBeaconTick_paced:
  assumes "node_inv w" "paced w" "i < 4"
  shows "paced (onBeaconTick w i)"
proof -
  let ?a = "sendBeacon w i"
  have s: "tx_step w ?a" by (rule sendBeacon_step [OF node_invD(10) [OF assms(1)]])
  have a: "paced ?a" "i < length (nd_airtime ?a)"
    using paced_step [OF s] assms node_invD(6) [OF assms(1)] tx_step_cfg(3) [OF s] by simp_all
  obtain b d where d: "nextBeaconDelayMs ?a i = (b, d)" by fastforce
  obtain delay where delay: "d = Some delay"
    using nextBeaconDelayMs_defined [OF a] d by (metis snd_conv)
  have "b = ?a\<lparr>nd_samples := nd_samples b\<rparr>" using nextBeaconDelayMs_node [of ?a i] d by simp
  moreover have "paced (?a\<lparr>nd_samples := n\<rparr>) = paced ?a" for n by (rule paced_cong) simp_all
  ultimately have "paced b" using a(1) by metis
  moreover have "paced (onBeaconTick w i) = paced b"
    unfolding onBeaconTick_def Let_def d prod.case delay option.case
    by (rule paced_cong) (simp_all add: upd_radio_def)
  ultimately show ?thesis by simp
qed

lemma paced_stable: "stable paced"
  unfolding stable_def timer_stable_def
proof (intro conjI allI impI)
  fix s w assume "paced w"
  then show "paced (put_sched s w)" by (simp add: paced_def put_sched_def)
next
  fix c w assume w: "node_inv w" "paced w" "has_task (nd_sched w) c"
  have t: "task_ok (nc_listen_only (nd_cfg w)) c" using node_invD(2) [OF w(1)] w(3) by (simp add: tasks_ok_def)
  show "paced (node_run c w)"
  proof (cases c)
    case (BeaconTick i)
    with t onBeaconTick_paced [OF w(1,2)] show ?thesis by simp
  next
    case AnnounceTick
    with paced_step [OF sendAnnounce_step [OF node_invD(10) [OF w(1)]]] w(2) show ?thesis by simp
  next
    case ExpireTick
    have "paced (w\<lparr>nd_peers := t\<rparr>) = paced w" for t by (rule paced_cong) simp_all
    with ExpireTick w(2) show ?thesis by simp
  next
    case RadarTick
    with w radar_fields [OF w(1)] show ?thesis by (simp add: paced_def)
  qed
next
  fix d n s r w assume "node_inv w" "paced w"
  then show "paced (onReceive w d n s r)" by (simp add: paced_def onReceive_fields)
qed (simp add: paced_def rewire_def)

lemma paced_begin_radio:
  assumes "paced w" "i < length (nd_airtime w)" "airtimeMs hub i kPositionFrameSize \<le> 20000000"
  shows "paced (begin_radio hub i w) \<and> length (nd_airtime (begin_radio hub i w)) = length (nd_airtime w)"
proof -
  define air where "air = airtimeMs hub i kPositionFrameSize"
  define a where "a = upd_radio i (\<lambda>s. s\<lparr>ra_airtime_ms := air\<rparr>) (w\<lparr>nd_airtime := (nd_airtime w)[i := air]\<rparr>)"
  have "\<forall>x \<in> set ((nd_airtime w)[i := air]). x \<le> 20000000"
    using assms by (auto simp: paced_def air_def dest!: set_update_subset_insert [THEN subsetD])
  then have a: "paced a" "length (nd_airtime a) = length (nd_airtime w)"
    using assms(1) by (simp_all add: a_def upd_radio_def paced_def)
  obtain b d where d: "nextBeaconDelayMs a i = (b, d)" by fastforce
  obtain delay where delay: "d = Some delay"
    using nextBeaconDelayMs_defined [of a i] a assms(2) d by (metis snd_conv)
  have bs: "b = a\<lparr>nd_samples := nd_samples b\<rparr>" using nextBeaconDelayMs_node [of a i] d by simp
  obtain s h where sh: "sched_after (nd_sched b) delay (BeaconTick i) = (s, h)" by fastforce
  have "begin_radio hub i w = (if nc_listen_only (nd_cfg a) then a
      else b\<lparr>nd_sched := s, nd_beacon_timer := (nd_beacon_timer b)[i := h]\<rparr>)"
    unfolding begin_radio_def Let_def air_def [symmetric] a_def [symmetric] d prod.case delay option.case sh ..
  moreover have "paced (b\<lparr>nd_sched := s, nd_beacon_timer := (nd_beacon_timer b)[i := h]\<rparr>) = paced a"
    "nd_airtime (b\<lparr>nd_sched := s, nd_beacon_timer := (nd_beacon_timer b)[i := h]\<rparr>) = nd_airtime a"
    by (subst bs, rule paced_cong, simp_all) (subst bs, simp)
  ultimately show ?thesis using a by simp
qed

lemma paced_begin_radios:
  assumes "paced w" "set is \<subseteq> {..<length (nd_airtime w)}" "\<And>i. airtimeMs hub i kPositionFrameSize \<le> 20000000"
  shows "paced (fold (begin_radio hub) is w)"
  using assms(1,2)
proof (induction "is" arbitrary: w)
  case (Cons i "is")
  from paced_begin_radio [OF Cons.prems(1) _ assms(3), of i] Cons.prems(2)
  have "paced (begin_radio hub i w)" "length (nd_airtime (begin_radio hub i w)) = length (nd_airtime w)"
    by auto
  with Cons.IH [of "begin_radio hub i w"] Cons.prems(2) show ?case by simp
qed simp

lemma paced_start_every:
  "(\<And>h v. paced (keep h v) = paced v) \<Longrightarrow> paced (start_every p c keep w) = paced w"
proof -
  assume k: "\<And>h v. paced (keep h v) = paced v"
  obtain s h where sh: "sched_every (nd_sched w) p c = (s, h)" by fastforce
  have "paced (w\<lparr>nd_sched := s\<rparr>) = paced w" by (rule paced_cong) simp_all
  with sh k show ?thesis by (simp add: start_every_def)
qed

lemma paced_timers:
  "paced (w\<lparr>nd_announce_timer := h\<rparr>) = paced w" "paced (w\<lparr>nd_expire_timer := h\<rparr>) = paced w"
  "paced (w\<lparr>nd_msp_radar_timer := h\<rparr>) = paced w" "paced (w\<lparr>nd_msp_radar_cursor := n\<rparr>) = paced w"
  "paced (w\<lparr>nd_radio_count := n, nd_beacon_timer := hs\<rparr>) = paced w"
  by (rule paced_cong; simp)+

lemma paced_life:
  assumes inv: "node_inv (Node cfg deps)" and rate: "rate_ok (nc_rate cfg)"
    and rng: "case de_rng deps of None \<Rightarrow> True | Some rng \<Rightarrow> \<forall>n. 0 \<le> rng n \<and> rng n \<le> 1"
    and air: "case de_radios deps of None \<Rightarrow> True
      | Some hub \<Rightarrow> \<forall>i. airtimeMs hub i kPositionFrameSize \<le> 20000000"
  shows "\<exists>w'. node_life cfg deps now es = Some w' \<and> paced w'"
proof -
  let ?w = "Node cfg deps"
  have p0: "paced ?w" using rate rng by (simp add: paced_def Node_def RateController_def)
  let ?P = "\<lambda>w. paced w \<and> de_radios (nd_deps w) = de_radios deps"
  have t: "timer_stable paced" using paced_stable by (simp only: stable_def)
  obtain b where b: "node_begin ?w now = Some b" "node_inv b" using node_begin_total [OF inv] by blast
  obtain x where x: "node_poll ?w now = Some (sched_next_delay (nd_sched x), x)" "node_inv x" "paced x"
    using stable_poll [OF t inv p0] by blast
  have hub: "de_radios (nd_deps x) = de_radios deps"
  proof -
    have "timer_stable (\<lambda>w. de_radios (nd_deps w) = de_radios deps)"
    proof (rule timer_stableI)
      fix w i assume w: "node_inv w" "de_radios (nd_deps w) = de_radios deps"
      with sendBeacon_step [OF node_invD(10) [OF w(1)], of i]
      show "de_radios (nd_deps (sendBeacon w i)) = de_radios deps" by (simp add: tx_step_def same_wiring_def)
    next
      fix w assume w: "node_inv w" "de_radios (nd_deps w) = de_radios deps"
      with sendAnnounce_step [OF node_invD(10) [OF w(1)]]
      show "de_radios (nd_deps (sendAnnounce w)) = de_radios deps" by (simp add: tx_step_def same_wiring_def)
    qed (simp_all add: radar_fields upd_radio_def)
    from stable_poll [OF this inv, of now] x(1) show ?thesis by (auto simp: Node_def)
  qed
  define c where "c = x\<lparr>nd_radio_count := (case de_radios (nd_deps x) of
      None \<Rightarrow> 0 | Some hub \<Rightarrow> min (length hub) kMaxRadios),
    nd_beacon_timer := replicate kMaxRadios kInvalidTimer\<rparr>"
  define d where "d = (case de_radios (nd_deps c) of None \<Rightarrow> c
      | Some hub \<Rightarrow> fold (begin_radio hub) [0..<nd_radio_count c] c)"
  define e where "e = (if nc_listen_only (nd_cfg d) then d
      else start_every (nc_announce_interval_ms (nd_cfg d)) AnnounceTick (\<lambda>h w. w\<lparr>nd_announce_timer := h\<rparr>) d)"
  define f where "f = start_every (nc_expire_interval_ms (nd_cfg e)) ExpireTick (\<lambda>h w. w\<lparr>nd_expire_timer := h\<rparr>) e"
  have w': "b = (if de_msp_radar_sink (nd_deps f)
      then start_every (nc_msp_radar_interval_ms (nd_cfg f)) RadarTick
        (\<lambda>h w. w\<lparr>nd_msp_radar_timer := h\<rparr>) (f\<lparr>nd_msp_radar_cursor := 0\<rparr>) else f)"
    using b(1) by (simp only: node_begin_def x(1) option.case prod.case Let_def c_def [symmetric]
        d_def [symmetric] e_def [symmetric] f_def [symmetric] option.inject)
  have c: "paced c" "length (nd_airtime c) = 4" "de_radios (nd_deps c) = de_radios deps" "nd_radio_count c \<le> 4"
    using x(3) node_invD(6) [OF x(2)] hub by (simp_all add: c_def paced_timers split: option.split)
  have "paced d"
  proof (cases "de_radios deps")
    case (Some h)
    with air have "airtimeMs h i kPositionFrameSize \<le> 20000000" for i by simp
    moreover have "set [0..<nd_radio_count c] \<subseteq> {..<length (nd_airtime c)}" using c(2,4) by auto
    ultimately have "paced (fold (begin_radio h) [0..<nd_radio_count c] c)"
      using c(1) by (intro paced_begin_radios)
    with c(3) Some show ?thesis by (simp add: d_def)
  qed (use c in \<open>simp add: d_def\<close>)
  then have "paced b"
    by (simp add: w' f_def e_def paced_start_every paced_timers split: if_split)
  from stable_events [OF paced_stable b(2) this, of es] b(1) show ?thesis by (auto simp: node_life_def)
qed

section \<open>The radar round robin\<close>

text \<open>A tick shows the first known peer at or after the cursor and moves the cursor past it.\<close>

lemma radar_scan_finds:
  assumes "nd_msp_radar_cursor w < 16" "e < n"
    "pt_at (nd_peers w) ((nd_msp_radar_cursor w + e) mod 16) = Some p"
  shows "\<exists>d q. d \<le> e \<and> pt_at (nd_peers w) ((nd_msp_radar_cursor w + d) mod 16) = Some q \<and>
    radar_scan n w = w\<lparr>nd_msp_radar_cursor := (nd_msp_radar_cursor w + d + 1) mod 16,
      nd_out := nd_out w @ [RadarPosition (of_nat ((nd_msp_radar_cursor w + d) mod 16 + 1)) q]\<rparr>"
  using assms
proof (induction n arbitrary: w e)
  case 0
  from 0(2) have False by (rule less_zeroE)
  then show ?case ..
next
  case (Suc n)
  define c where "c = nd_msp_radar_cursor w"
  have c: "c < 16" using Suc.prems(1) by (simp add: c_def)
  show ?case
  proof (cases "pt_at (nd_peers w) c")
    case (Some q)
    then have "radar_scan (Suc n) w = w\<lparr>nd_msp_radar_cursor := (c + 0 + 1) mod 16,
        nd_out := nd_out w @ [RadarPosition (of_nat ((c + 0) mod 16 + 1)) q]\<rparr>"
      using c by (simp add: radar_scan_Suc Let_def c_def [symmetric])
    with Some c show ?thesis unfolding c_def [symmetric] by (intro exI [of _ 0] exI [of _ q]) simp
  next
    case None
    define v where "v = w\<lparr>nd_msp_radar_cursor := (c + 1) mod 16\<rparr>"
    have "e \<noteq> 0" using None Suc.prems(3) c by (cases e) (simp_all add: c_def)
    then obtain k where e: "e = Suc k" by (cases e) simp_all
    have m: "((c + 1) mod 16 + j) mod 16 = (c + Suc j) mod 16" for j
      by (simp add: mod_add_left_eq)
    have v: "nd_msp_radar_cursor v = (c + 1) mod 16" "nd_peers v = nd_peers w" "nd_out v = nd_out w"
      by (simp_all add: v_def)
    have "pt_at (nd_peers v) ((nd_msp_radar_cursor v + k) mod 16) = Some p"
      using Suc.prems(3) by (simp only: v m c_def [symmetric] e)
    moreover have "k < n" "nd_msp_radar_cursor v < 16" using e Suc.prems(2) by (simp_all add: v)
    ultimately obtain d q where d: "d \<le> k"
      "pt_at (nd_peers w) ((c + Suc d) mod 16) = Some q"
      "radar_scan n v = v\<lparr>nd_msp_radar_cursor := (nd_msp_radar_cursor v + d + 1) mod 16,
        nd_out := nd_out w @ [RadarPosition (of_nat ((c + Suc d) mod 16 + 1)) q]\<rparr>"
      using Suc.IH [of v k] by (auto simp only: v m)
    have "(nd_msp_radar_cursor v + d + 1) mod 16 = (c + Suc d + 1) mod 16"
      using m [of "d + 1"] by (simp add: v)
    moreover have "radar_scan (Suc n) w = radar_scan n v"
      using None by (simp add: radar_scan_Suc Let_def v_def c_def [symmetric])
    ultimately have "radar_scan (Suc n) w = w\<lparr>nd_msp_radar_cursor := (c + Suc d + 1) mod 16,
        nd_out := nd_out w @ [RadarPosition (of_nat ((c + Suc d) mod 16 + 1)) q]\<rparr>"
      unfolding d(3) by (simp add: v_def)
    with d(1,2) e show ?thesis
      unfolding c_def [symmetric] by (intro exI [of _ "Suc d"] exI [of _ q]) simp
  qed
qed

lemma radar_tick_finds:
  assumes "node_inv w" "de_msp_radar_sink (nd_deps w)" "e < 16"
    "pt_at (nd_peers w) ((nd_msp_radar_cursor w + e) mod 16) = Some p"
  obtains d q where "d \<le> e" "pt_at (nd_peers w) ((nd_msp_radar_cursor w + d) mod 16) = Some q"
    "onMspRadarTick w = w\<lparr>nd_msp_radar_cursor := (nd_msp_radar_cursor w + d + 1) mod 16,
      nd_out := nd_out w @ [RadarPosition (of_nat ((nd_msp_radar_cursor w + d) mod 16 + 1)) q]\<rparr>"
proof -
  obtain d q where d: "d \<le> e" "pt_at (nd_peers w) ((nd_msp_radar_cursor w + d) mod 16) = Some q"
    "radar_scan 16 w = w\<lparr>nd_msp_radar_cursor := (nd_msp_radar_cursor w + d + 1) mod 16,
      nd_out := nd_out w @ [RadarPosition (of_nat ((nd_msp_radar_cursor w + d) mod 16 + 1)) q]\<rparr>"
    using radar_scan_finds [OF node_invD(7) [OF assms(1)] assms(3,4)] by blast
  with assms(2) show ?thesis by (intro that [OF d(1,2)]) (simp add: onMspRadarTick_def)
qed

lemma radar_tick_out:
  assumes "node_inv w"
  shows "\<exists>out. nd_out (onMspRadarTick w) = nd_out w @ out \<and> length out \<le> 1"
proof -
  have "\<exists>out. nd_out (radar_scan n v) = nd_out v @ out \<and> length out \<le> 1" for n v
  proof (induction n arbitrary: v)
    case (Suc n)
    show ?case
    proof (cases "pt_at (nd_peers v) (nd_msp_radar_cursor v)")
      case None
      with Suc.IH [of "v\<lparr>nd_msp_radar_cursor := (nd_msp_radar_cursor v + 1) mod 16\<rparr>"] show ?thesis
        by (simp add: radar_scan_Suc Let_def)
    qed (simp add: radar_scan_Suc Let_def)
  qed simp
  then show ?thesis by (simp add: onMspRadarTick_def)
qed

lemma radar_ticks_keep:
  assumes "node_inv w"
  shows "node_inv ((onMspRadarTick ^^ n) w) \<and> nd_deps ((onMspRadarTick ^^ n) w) = nd_deps w \<and>
    nd_peers ((onMspRadarTick ^^ n) w) = nd_peers w \<and>
    (\<exists>out. nd_out ((onMspRadarTick ^^ n) w) = nd_out w @ out \<and> length out \<le> n)"
proof (induction n)
  case (Suc n)
  let ?v = "(onMspRadarTick ^^ n) w"
  have inv: "node_inv ?v" using Suc by blast
  obtain c out where r: "radar_scan 16 ?v = ?v\<lparr>nd_msp_radar_cursor := c, nd_out := out\<rparr>"
    using radar_scan_shape [OF node_invD(7) [OF inv]] by metis
  have "nd_peers (onMspRadarTick ?v) = nd_peers ?v" "nd_deps (onMspRadarTick ?v) = nd_deps ?v"
    using r by (simp_all add: onMspRadarTick_def)
  moreover obtain o1 where "nd_out (onMspRadarTick ?v) = nd_out ?v @ o1" "length o1 \<le> 1"
    using radar_tick_out [OF inv] by blast
  moreover obtain o2 where "nd_out ?v = nd_out w @ o2" "length o2 \<le> n" using Suc by blast
  ultimately show ?case using Suc onMspRadarTick_inv [OF inv] by simp
qed (simp add: assms)

lemma radar_reaches:
  assumes "node_inv w" "de_msp_radar_sink (nd_deps w)" "e < 16"
    "pt_at (nd_peers w) ((nd_msp_radar_cursor w + e) mod 16) = Some p"
  shows "\<exists>n \<le> e. \<exists>out. nd_out ((onMspRadarTick ^^ Suc n) w) =
    nd_out w @ out @ [RadarPosition (of_nat ((nd_msp_radar_cursor w + e) mod 16 + 1)) p]"
  using assms
proof (induction e arbitrary: w rule: less_induct)
  case (less e)
  define c where "c = nd_msp_radar_cursor w"
  obtain d q where d: "d \<le> e" "pt_at (nd_peers w) ((c + d) mod 16) = Some q"
    "onMspRadarTick w = w\<lparr>nd_msp_radar_cursor := (c + d + 1) mod 16,
      nd_out := nd_out w @ [RadarPosition (of_nat ((c + d) mod 16 + 1)) q]\<rparr>"
    using radar_tick_finds [OF less.prems] unfolding c_def by metis
  show ?case
  proof (cases "d = e")
    case True
    then have "q = p" using d(2) less.prems(4) by (simp add: c_def)
    with True d(3) show ?thesis by (intro exI [of _ 0]) (simp add: c_def)
  next
    case False
    define v where "v = onMspRadarTick w"
    define k where "k = e - d - 1"
    have k: "k < e" "e = d + 1 + k" using False d(1) by (simp_all add: k_def)
    have v: "nd_msp_radar_cursor v = (c + d + 1) mod 16" "nd_peers v = nd_peers w"
      "nd_deps v = nd_deps w" "nd_out v = nd_out w @ [RadarPosition (of_nat ((c + d) mod 16 + 1)) q]"
      by (simp_all add: v_def d(3))
    have m: "((c + d + 1) mod 16 + k) mod 16 = (c + e) mod 16"
      by (simp add: mod_add_left_eq k(2) add.assoc)
    have "pt_at (nd_peers v) ((nd_msp_radar_cursor v + k) mod 16) = Some p"
      using less.prems(4) by (simp only: v m c_def [symmetric])
    moreover have "node_inv v" unfolding v_def by (rule onMspRadarTick_inv [OF less.prems(1)])
    ultimately obtain n out where n: "n \<le> k" "nd_out ((onMspRadarTick ^^ Suc n) v) =
        nd_out v @ out @ [RadarPosition (of_nat ((c + e) mod 16 + 1)) p]"
      using less.IH [OF k(1), of v] less.prems(2,3) k(1) v m by auto
    have "(onMspRadarTick ^^ Suc (Suc n)) w = (onMspRadarTick ^^ Suc n) v"
      unfolding v_def by (simp only: funpow.simps comp_apply funpow_swap1)
    with n(2) v(4) have "nd_out ((onMspRadarTick ^^ Suc (Suc n)) w) = nd_out w @
        ([RadarPosition (of_nat ((c + d) mod 16 + 1)) q] @ out) @ [RadarPosition (of_nat ((c + e) mod 16 + 1)) p]"
      by simp
    moreover have "Suc n \<le> e" using n(1) k(2) by simp
    ultimately show ?thesis unfolding c_def by blast
  qed
qed

section \<open>Properties\<close>

text \<open>C1: A node never gets stuck and never tracks itself: from any start with any sequence of
  polls, received frames and changes of position or radios, every poll returns (no timer slot
  without a function is ever called), the peer table is well formed and this node's own UID is
  not in it.\<close>

theorem node_life_safe:
  assumes "case de_crypto deps of None \<Rightarrow> True | Some c \<Rightarrow> crypto_inv c"
  shows "\<exists>w. node_life cfg deps now es = Some w \<and> pt_inv (nd_peers w) \<and>
    pt_find (nd_peers w) (nc_uid cfg) = None"
proof -
  note inv = Node_inv [OF assms, of cfg]
  have start: "nd_cfg (Node cfg deps) = cfg" by (simp add: Node_def)
  obtain w where "node_life cfg deps now es = Some w" "node_inv w" "nd_cfg w = cfg"
    using stable_life [OF cfg_stable _ inv start] by (auto simp: begin_step_def)
  with node_invD(8,11) show ?thesis by fastforce
qed

definition sample_cfg :: node_config where
  "sample_cfg = \<lparr>nc_uid = 7, nc_name = [70, 70, 0], nc_capabilities = 0, nc_rate = RateConfig,
     nc_peer_timeout_ms = 6000, nc_announce_interval_ms = 2000, nc_expire_interval_ms = 1000,
     nc_msp_radar_interval_ms = 100, nc_listen_only = False\<rparr>"

definition sample_deps :: node_deps where
  "sample_deps = \<lparr>de_radios = Some [\<lparr>dr_enabled = True, dr_transmits = True, dr_airtime = (\<lambda>n. 20), dr_rx = []\<rparr>],
     de_location = None, de_crypto = Some (UseCcm (cc_begin CcmCrypto 7 (replicate 16 1) 0)),
     de_msp_radar_sink = True, de_rng = None\<rparr>"

lemma sample_deps_ok: "case de_crypto sample_deps of None \<Rightarrow> True | Some c \<Rightarrow> crypto_inv c"
  by (simp add: sample_deps_def cc_begin_inv)

theorem node_life_safe_witness:
  "\<exists>w. node_life sample_cfg sample_deps 1000 [Poll 1500, Receive [1, 2, 3] 1600 0 0, Poll 4000] = Some w \<and>
     pt_find (nd_peers w) 7 = None"
  using node_life_safe [OF sample_deps_ok, of sample_cfg 1000
      "[Poll 1500, Receive [1, 2, 3] 1600 0 0, Poll 4000]"]
  by (auto simp: sample_cfg_def)

text \<open>C4: Every frame is accounted for: after any life the frames accepted, refused and
  recognised as the node's own add up to the frames the radios handed over, the counter of every
  radio is the number of the frames transmitted on it, and the frame log has counted exactly the
  frames handed over and the frames transmitted.\<close>

theorem every_frame_counted:
  assumes "case de_crypto deps of None \<Rightarrow> True | Some c \<Rightarrow> crypto_inv c"
    and "node_life cfg deps now es = Some w"
  shows "st_rx_ok (nd_stats w) + st_rx_rejected (nd_stats w) + st_rx_self (nd_stats w) =
      of_nat (length (filter is_receive es)) \<and>
    map ra_tx (nd_radio_stats w) = map (\<lambda>i. of_nat (length (transmitted_on i (nd_out w)))) [0..<kMaxRadios] \<and>
    fl_total (nd_frames w) =
      of_nat (length (filter is_receive es)) + of_nat (length (transmitted (nd_out w)))"
  using life_counted [OF Node_inv [OF assms(1)] assms(2)]
  by (simp add: log_complete_def rx_total_def radio_counts_def)

theorem every_frame_counted_witness:
  "\<exists>w. node_life sample_cfg sample_deps 1000 [Receive [] 1600 0 0, Receive [1] 1700 0 9, Poll 4000] = Some w \<and>
     st_rx_ok (nd_stats w) + st_rx_rejected (nd_stats w) + st_rx_self (nd_stats w) = 2"
proof -
  let ?es = "[Receive [] 1600 0 0, Receive [1] 1700 0 9, Poll 4000]"
  obtain w where w: "node_life sample_cfg sample_deps 1000 ?es = Some w"
    using stable_life [OF cfg_stable _ Node_inv [OF sample_deps_ok], of sample_cfg sample_cfg]
    by (auto simp: begin_step_def Node_def)
  from every_frame_counted [OF sample_deps_ok w] w show ?thesis by auto
qed

text \<open>C5: A node configured to listen only never transmits, whatever it hears and however its
  radios and timers run.\<close>

theorem listen_only_never_transmits:
  assumes "case de_crypto deps of None \<Rightarrow> True | Some c \<Rightarrow> crypto_inv c" "nc_listen_only cfg"
  shows "\<exists>w. node_life cfg deps now es = Some w \<and> transmitted (nd_out w) = []"
proof -
  note inv = Node_inv [OF assms(1), of cfg]
  have start: "silent (Node cfg deps)" using assms(2) by (simp add: Node_def silent_def)
  obtain w where "node_life cfg deps now es = Some w" "silent w"
    using stable_life [OF silent_stable _ inv start] by (auto simp: begin_step_def silent_def)
  then show ?thesis by (auto simp: silent_def)
qed

theorem listen_only_never_transmits_witness:
  "\<exists>w. node_life (sample_cfg\<lparr>nc_listen_only := True\<rparr>) sample_deps 1000 [Poll 1100, Poll 4000] = Some w \<and>
     transmitted (nd_out w) = []"
  by (rule listen_only_never_transmits [OF sample_deps_ok]) simp

text \<open>C3: No nonce is ever used twice: over any life of a node with a CCM key, the frames it
  sends, on all its radios together, carry the counters after the initial one in order, so two
  frames share a counter only after all \<open>2 ^ 32\<close> have been used.\<close>

theorem transmit_counters_in_order:
  assumes "de_crypto deps = Some (UseCcm c)" "cc_inv c"
  shows "\<exists>w. node_life cfg deps now es = Some w \<and>
    map frame_counter (transmitted (nd_out w)) =
      map (\<lambda>j. cc_counter c + of_nat (Suc j)) [0..<length (transmitted (nd_out w))] \<and>
    (length (transmitted (nd_out w)) \<le> 2 ^ 32 \<longrightarrow>
      distinct (map frame_counter (transmitted (nd_out w))))"
proof -
  have inv: "node_inv (Node cfg deps)" by (rule Node_inv) (simp add: assms)
  have start: "nonces_fresh (cc_counter c) (Node cfg deps)"
    using assms by (simp add: Node_def nonces_fresh_def)
  have "\<exists>w. node_life cfg deps now es = Some w \<and> node_inv w \<and> nonces_fresh (cc_counter c) w"
  proof (rule stable_life [OF nonces_stable _ inv start])
    fix w w' assume "begin_step w w'" "nonces_fresh (cc_counter c) w"
    then show "nonces_fresh (cc_counter c) w'" by (simp add: begin_step_def nonces_fresh_def)
  qed
  then obtain w where w: "node_life cfg deps now es = Some w" "nonces_fresh (cc_counter c) w" by blast
  let ?n = "length (transmitted (nd_out w))"
  have m: "map frame_counter (transmitted (nd_out w)) = map (\<lambda>j. cc_counter c + of_nat (Suc j)) [0..<?n]"
    using w(2) by (auto simp: nonces_fresh_def)
  have "distinct (map (\<lambda>j. cc_counter c + of_nat (Suc j)) [0..<?n])" if "?n \<le> 2 ^ 32"
  proof -
    have "inj_on (\<lambda>j. cc_counter c + of_nat (Suc j)) {0..<?n}"
    proof (rule inj_onI)
      fix i j assume ij: "i \<in> {0..<?n}" "j \<in> {0..<?n}"
        "cc_counter c + of_nat (Suc i) = cc_counter c + of_nat (Suc j)"
      then have "(of_nat i :: u32) = of_nat j" by simp
      moreover have "i < 2 ^ LENGTH(32)" "j < 2 ^ LENGTH(32)" using ij that by auto
      ultimately show "i = j" using unat_of_nat_small [where 'a = 32] by metis
    qed
    then show ?thesis by (simp add: distinct_map)
  qed
  with w(1) m show ?thesis by auto
qed

theorem transmit_counters_in_order_witness:
  "\<exists>w. node_life sample_cfg sample_deps 1000 [Poll 1500, Poll 3500] = Some w \<and>
     map frame_counter (transmitted (nd_out w)) =
       map (\<lambda>j. of_nat (Suc j)) [0..<length (transmitted (nd_out w))]"
proof -
  have "de_crypto sample_deps = Some (UseCcm (cc_begin CcmCrypto 7 (replicate 16 1) 0))"
    by (simp add: sample_deps_def)
  from transmit_counters_in_order [OF this cc_begin_inv, of sample_cfg 1000 "[Poll 1500, Poll 3500]"]
  show ?thesis by (auto simp: cc_begin_def)
qed

text \<open>Every beacon is scheduled: with a sane rate configuration (interval bounds in order and
  below \<open>2 ^ 31\<close> ms, a jitter fraction between 0 and 1), a random source in the unit interval and
  airtimes up to 20,000 seconds, no delay computation of any life is undefined.\<close>

theorem beacon_delays_defined:
  assumes "case de_crypto deps of None \<Rightarrow> True | Some c \<Rightarrow> crypto_inv c" "rate_ok (nc_rate cfg)"
    and "case de_rng deps of None \<Rightarrow> True | Some rng \<Rightarrow> \<forall>n. 0 \<le> rng n \<and> rng n \<le> 1"
    and "case de_radios deps of None \<Rightarrow> True
      | Some hub \<Rightarrow> \<forall>i. airtimeMs hub i kPositionFrameSize \<le> 20000000"
  shows "\<exists>w. node_life cfg deps now es = Some w \<and> \<not> nd_fault w"
  using paced_life [OF Node_inv [OF assms(1)] assms(2-4), of now es] by (auto simp: paced_def)

theorem beacon_delays_defined_witness:
  "\<exists>w. node_life sample_cfg sample_deps 1000 [Poll 1500, Poll 3500] = Some w \<and> \<not> nd_fault w"
proof (rule beacon_delays_defined [OF sample_deps_ok])
  show "rate_ok (nc_rate sample_cfg)"
    unfolding rate_ok_def sample_cfg_def RateConfig_def by (simp, code_simp)
qed (simp_all add: sample_deps_def airtimeMs_def nth_Cons split: nat.split)

text \<open>C6: The radar shows everybody: with a radar sink, sixteen ticks send the position of every
  known peer at least once, under the number of its table slot, and no tick, however many there
  are, sends more than one position.\<close>

theorem radar_round_robin:
  assumes "node_inv w" "de_msp_radar_sink (nd_deps w)" "i < kMaxPeers" "pt_at (nd_peers w) i = Some p"
  shows "(\<exists>out. nd_out ((onMspRadarTick ^^ 16) w) = nd_out w @ out \<and> RadarPosition (of_nat (i + 1)) p \<in> set out) \<and>
    (\<forall>n. \<exists>out. nd_out ((onMspRadarTick ^^ Suc n) w) = nd_out ((onMspRadarTick ^^ n) w) @ out \<and> length out \<le> 1)"
proof -
  define e where "e = (i + 16 - nd_msp_radar_cursor w) mod 16"
  have c: "nd_msp_radar_cursor w < 16" by (rule node_invD(7) [OF assms(1)])
  have e: "e < 16" "(nd_msp_radar_cursor w + e) mod 16 = i"
    using c assms(3) by (simp_all add: e_def mod_add_right_eq)
  obtain n out where n: "n \<le> e" "nd_out ((onMspRadarTick ^^ Suc n) w) =
      nd_out w @ out @ [RadarPosition (of_nat (i + 1)) p]"
    using radar_reaches [OF assms(1,2) e(1)] assms(4) e(2) by auto
  let ?v = "(onMspRadarTick ^^ Suc n) w"
  have v: "node_inv ?v" using radar_ticks_keep [OF assms(1)] by blast
  have "(onMspRadarTick ^^ 16) w = (onMspRadarTick ^^ (15 - n)) ?v"
    using n(1) e(1) funpow_add [of "15 - n" "Suc n" onMspRadarTick] by (simp add: comp_def)
  moreover obtain o2 where "nd_out ((onMspRadarTick ^^ (15 - n)) ?v) = nd_out ?v @ o2"
    using radar_ticks_keep [OF v] by blast
  ultimately have "nd_out ((onMspRadarTick ^^ 16) w) =
      nd_out w @ (out @ [RadarPosition (of_nat (i + 1)) p] @ o2)" using n(2) by simp
  moreover have "\<exists>o3. nd_out ((onMspRadarTick ^^ Suc m) w) = nd_out ((onMspRadarTick ^^ m) w) @ o3 \<and> length o3 \<le> 1" for m
    using radar_tick_out [of "(onMspRadarTick ^^ m) w"] radar_ticks_keep [OF assms(1), of m] by simp
  ultimately show ?thesis by auto
qed

theorem radar_round_robin_witness:
  "let p = \<lparr>pp_uid = 9, pp_lat = 1, pp_lon = 2, pp_alt_m = 3, pp_speed_cms = 4, pp_course_ddeg = 5, pp_flags = 1\<rparr>;
       w = (Node sample_cfg sample_deps)\<lparr>nd_peers := fst (updatePosition (PeerTable 6000) p 10 0 0)\<rparr>
   in \<exists>i q. i < kMaxPeers \<and> pt_at (nd_peers w) i = Some q \<and>
     RadarPosition (of_nat (i + 1)) q \<in> set (nd_out ((onMspRadarTick ^^ 16) w))"
proof -
  define p where "p = \<lparr>pp_uid = 9, pp_lat = 1, pp_lon = 2, pp_alt_m = 3, pp_speed_cms = 4,
    pp_course_ddeg = 5, pp_flags = 1\<rparr>"
  define t where "t = fst (updatePosition (PeerTable 6000) p 10 0 0)"
  define w where "w = (Node sample_cfg sample_deps)\<lparr>nd_peers := t\<rparr>"
  have "pt_find t 7 = None"
    using updatePosition_stored(3) [OF PeerTable_inv, where v = 7 and p = p] by (auto simp: t_def p_def)
  then have inv: "node_inv w"
    unfolding w_def t_def
    by (intro node_inv_peers Node_inv [OF sample_deps_ok] updatePosition_stored(1) PeerTable_inv)
      (simp add: Node_def sample_cfg_def)
  have sink: "de_msp_radar_sink (nd_deps w)" by (simp add: w_def Node_def sample_deps_def)
  have "pt_inv t" "pt_find t 9 \<noteq> None"
    using updatePosition_stored(1,2) [OF PeerTable_inv, where p = p] by (simp_all add: t_def p_def)
  then obtain i where i: "i < 16" "pe_valid (pt_peers t ! i)"
    unfolding pt_find_def by (auto simp: pt_inv_def in_set_conv_nth)
  then have q: "pt_at (nd_peers w) i = Some (pt_peers t ! i)" by (simp add: w_def pt_at_def)
  have "i < kMaxPeers" using i by simp
  from radar_round_robin [OF inv sink this q] q i show ?thesis
    unfolding p_def [symmetric] t_def [symmetric] w_def [symmetric] Let_def
    by (intro exI [of _ i] exI [of _ "pt_peers t ! i"]) auto
qed

text \<open>What a node with the sender's key makes of a sealed position: the two ends of a beacon.\<close>

lemma sendBeacon_seals:
  assumes "de_radios (nd_deps a) = Some hub" "radioTransmits hub i" "de_location (nd_deps a) = Some loc"
    and "de_crypto (nd_deps a) = Some (UseCcm ka)"
  obtains frame where "nd_out (sendBeacon a i) = nd_out a @ [Transmit i frame]"
    "sealed (cc_aes ka) (cc_uid ka) (cc_counter ka + 1) (encodePosition (beacon_packet (nd_cfg a) loc) 64) = Some frame"
proof -
  define pkt where "pkt = encodePosition (beacon_packet (nd_cfg a) loc) 64"
  have l: "length pkt = 21" by (simp add: pkt_def encodePosition_64)
  obtain v buf n where e: "node_encrypt a (frame_buf pkt) (length pkt) = (v, buf, n)" by (metis prod_cases3)
  have ll: "6 \<le> length pkt" "length pkt \<le> 26" using l by simp_all
  note s = node_encrypt_ccm [OF assms(4) ll e]
  have n: "n = 31" using s(1) l by simp
  have v: "nd_out v = nd_out a" using node_encrypt_same [OF e] by simp
  have "nd_out (sendBeacon a i) = nd_out a @ [Transmit i (take 31 buf)]"
    using assms(1-3) e l n v unfolding sendBeacon_def Let_def
    by (simp add: pkt_def [symmetric] logFrame_def upd_radio_def upd_stats_def hub_transmit_on)
  with s(2) n show ?thesis by (intro that [of "take 31 buf"]) (simp_all add: pkt_def)
qed

lemma onReceive_opens:
  assumes inv: "node_inv b" and key: "de_crypto (nd_deps b) = Some (UseCcm kb)"
    and frame: "sealed (cc_aes kb) uid counter pkt = Some frame" "take 4 (drop 2 pkt) = put_u32 [] uid"
      "6 \<le> length pkt" "length pkt \<le> 26"
    and new: "unheard kb uid counter now"
  obtains w where "nd_peers w = nd_peers b" "nd_cfg w = nd_cfg b" "nd_stats w = nd_stats b"
    "onReceive b frame now rssi r = rx_packet w (if r < kMaxRadios then r else 0) pkt (length frame) now rssi r"
proof -
  have lf: "length frame = length pkt + 10" using length_sealed [OF frame(1,3)] .
  have op: "opened (cc_aes kb) (take (length frame) (frame_buf frame)) = Some (pkt, uid, counter)"
    unfolding opened_iff_sealed using frame lf by (simp add: frame_buf_def)
  let ?kb = "kb\<lparr>cc_last_reject_replay := False\<rparr>"
  have ki: "cc_inv ?kb" using node_invD(10) [OF inv] key by (simp add: crypto_ok_def)
  have kf: "unheard ?kb uid counter now" using new by simp
  obtain j kb' where r: "replay_check ?kb uid counter now = (kb', True)" by (rule replay_check_unheard [OF ki kf])
  have "length frame \<le> length (frame_buf frame)" by (simp add: frame_buf_def)
  from cc_decrypt_opened [OF this op r] obtain x where
    x: "take (length pkt) x = pkt" "cc_decrypt kb (frame_buf frame) (length frame) now = (kb', x, Some (length pkt))"
    by auto
  define w where "w = set_crypto (UseCcm kb') (heard b now rssi r)"
  have "nd_peers w = nd_peers b" "nd_cfg w = nd_cfg b" "nd_stats w = nd_stats b"
    by (simp_all add: w_def set_crypto_def heard_def upd_radio_def)
  moreover have "onReceive b frame now rssi r = rx_packet w (if r < kMaxRadios then r else 0) pkt (length frame) now rssi r"
    using key x lf frame(3,4) unfolding onReceive_def Let_def heard_def [symmetric]
    by (auto simp: w_def heard_def upd_radio_def)
  ultimately show ?thesis by (rule that)
qed

lemma rx_packet_position:
  assumes "pp_uid pos \<noteq> nc_uid (nd_cfg w)"
  shows "rx_packet w ri (encodePosition pos 64) len now rssi r =
    logFrame (rx_accept (w\<lparr>nd_peers := fst (updatePosition (nd_peers w) pos now rssi r)\<rparr>) ri) r (pp_uid pos) len rssi 1 RxOk"
proof -
  have dec: "decodePosition (encodePosition pos 64) = Some (Inr pos)"
    using decodePosition_encoded [of 64 pos "[]"] by simp
  have "peekHeader (encodePosition pos 64) = Some (Inr \<lparr>h_version = 2, h_type = Position, h_uid = pp_uid pos\<rparr>)"
    using peekHeader_encoded [of Position] by (simp add: encodePosition_eq)
  with assms dec show ?thesis by (simp add: rx_packet_def Let_def)
qed

text \<open>C2: A beacon that is heard arrives: when a node beacons on a radio, the one frame it transmits,
  received by a node that shares the key, has another UID and has not heard the frame's counter
  (at first contact or after ten seconds of silence any counter will do, otherwise one newer than
  the newest heard, or a late one not heard), is accepted, and the receiver's peer table then holds
  the sender's position as its location source gave it.\<close>

theorem beacon_delivers_position:
  assumes inv: "node_inv a" "node_inv b"
    and radio: "de_radios (nd_deps a) = Some hub" "radioTransmits hub i"
    and keys: "de_crypto (nd_deps a) = Some (UseCcm ka)" "de_crypto (nd_deps b) = Some (UseCcm kb)"
      "cc_aes kb = cc_aes ka" "cc_uid ka = nc_uid (nd_cfg a)"
    and uids: "nc_uid (nd_cfg a) \<noteq> nc_uid (nd_cfg b)"
    and new: "unheard kb (nc_uid (nd_cfg a)) (cc_counter ka + 1) now"
    and loc: "de_location (nd_deps a) = Some loc"
  shows "\<exists>frame p. nd_out (sendBeacon a i) = nd_out a @ [Transmit i frame] \<and>
    pt_find (nd_peers (onReceive b frame now rssi r)) (nc_uid (nd_cfg a)) = Some p \<and>
    (pe_lat p, pe_lon p, pe_alt_m p, pe_speed_cms p, pe_course_ddeg p) =
      (loc_lat loc, loc_lon loc, loc_alt_m loc, loc_speed_cms loc, loc_course_ddeg loc) \<and>
    pe_last_update_ms p = now \<and>
    st_rx_ok (nd_stats (onReceive b frame now rssi r)) = st_rx_ok (nd_stats b) + 1"
proof -
  define pos where "pos = beacon_packet (nd_cfg a) loc"
  have uid: "pp_uid pos = nc_uid (nd_cfg a)" by (simp add: pos_def beacon_packet_def)
  obtain frame where out: "nd_out (sendBeacon a i) = nd_out a @ [Transmit i frame]"
    and sealed: "sealed (cc_aes ka) (cc_uid ka) (cc_counter ka + 1) (encodePosition pos 64) = Some frame"
    unfolding pos_def by (rule sendBeacon_seals [OF radio loc keys(1)])
  have hdr: "take 4 (drop 2 (encodePosition pos 64)) = put_u32 [] (nc_uid (nd_cfg a))"
    by (simp add: encodePosition_eq uid)
  obtain w where w: "nd_peers w = nd_peers b" "nd_cfg w = nd_cfg b" "nd_stats w = nd_stats b"
    and rx: "onReceive b frame now rssi r =
      rx_packet w (if r < kMaxRadios then r else 0) (encodePosition pos 64) (length frame) now rssi r"
    by (rule onReceive_opens [OF inv(2) keys(2) sealed [folded keys(3), unfolded keys(4)] hdr _ _ new])
       (simp_all add: encodePosition_64)
  have "pp_uid pos \<noteq> nc_uid (nd_cfg w)" using uids by (simp add: uid w)
  note acc = rx_packet_position [OF this]
  have peers: "nd_peers (onReceive b frame now rssi r) = fst (updatePosition (nd_peers b) pos now rssi r)"
    and st: "st_rx_ok (nd_stats (onReceive b frame now rssi r)) = st_rx_ok (nd_stats b) + 1"
    by (simp_all add: rx acc logFrame_def rx_accept_def upd_radio_def upd_stats_def w)
  define q where "q = apply_position (known_peer (nd_peers b) (pp_uid pos)) pos now rssi r"
  have "pt_find (nd_peers (onReceive b frame now rssi r)) (nc_uid (nd_cfg a)) = Some q"
    unfolding peers uid [symmetric] q_def
    by (rule updatePosition_stored(2) [OF node_invD(8) [OF inv(2)]])
  moreover have "(pe_lat q, pe_lon q, pe_alt_m q, pe_speed_cms q, pe_course_ddeg q) =
      (loc_lat loc, loc_lon loc, loc_alt_m loc, loc_speed_cms loc, loc_course_ddeg loc)" "pe_last_update_ms q = now"
    by (simp_all add: q_def apply_position_def Let_def pos_def beacon_packet_def)
  ultimately show ?thesis using out st by blast
qed

theorem beacon_delivers_position_witness:
  "let loc = NodeLocation\<lparr>loc_valid := True, loc_lat := 451, loc_lon := 90\<rparr>;
       a = Node sample_cfg (sample_deps\<lparr>de_location := Some loc\<rparr>);
       b = Node (sample_cfg\<lparr>nc_uid := 8\<rparr>)
             (sample_deps\<lparr>de_crypto := Some (UseCcm (cc_begin CcmCrypto 8 (replicate 16 1) 0))\<rparr>)
   in \<exists>frame p. nd_out (sendBeacon a 0) = [Transmit 0 frame] \<and>
        pt_find (nd_peers (onReceive b frame 2000 0 0)) 7 = Some p \<and> pe_lat p = 451"
proof -
  define loc where "loc = NodeLocation\<lparr>loc_valid := True, loc_lat := 451, loc_lon := 90\<rparr>"
  define a where "a = Node sample_cfg (sample_deps\<lparr>de_location := Some loc\<rparr>)"
  define b where "b = Node (sample_cfg\<lparr>nc_uid := 8\<rparr>)
    (sample_deps\<lparr>de_crypto := Some (UseCcm (cc_begin CcmCrypto 8 (replicate 16 1) 0))\<rparr>)"
  have inv: "node_inv a" "node_inv b"
    unfolding a_def b_def by (rule Node_inv; simp add: sample_deps_def cc_begin_inv)+
  obtain hub where hub: "de_radios (nd_deps a) = Some hub" "radioTransmits hub 0"
    by (simp add: a_def Node_def sample_deps_def radioTransmits_def radioEnabled_def)
  have keys: "de_crypto (nd_deps a) = Some (UseCcm (cc_begin CcmCrypto 7 (replicate 16 1) 0))"
    "de_crypto (nd_deps b) = Some (UseCcm (cc_begin CcmCrypto 8 (replicate 16 1) 0))"
    by (simp_all add: a_def b_def Node_def sample_deps_def)
  have uids: "nc_uid (nd_cfg a) = 7" "nc_uid (nd_cfg b) = 8"
    by (simp_all add: a_def b_def Node_def sample_cfg_def)
  have "slot_find rs_uid rs_used (nc_uid (nd_cfg a))
      (cc_replay_slots (cc_begin CcmCrypto 8 (replicate 16 1) 0)) = None"
    by (simp add: cc_begin_def replays.find_None_iff ReplaySlot_def)
  then have f: "unheard (cc_begin CcmCrypto 8 (replicate 16 1) 0) (nc_uid (nd_cfg a))
      (cc_counter (cc_begin CcmCrypto 7 (replicate 16 1) 0) + 1) 2000" by (simp add: unheard_def)
  have l: "de_location (nd_deps a) = Some loc" by (simp add: a_def Node_def)
  have out: "nd_out a = []" by (simp add: a_def Node_def)
  have "\<exists>frame p. nd_out (sendBeacon a 0) = nd_out a @ [Transmit 0 frame] \<and>
    pt_find (nd_peers (onReceive b frame 2000 0 0)) (nc_uid (nd_cfg a)) = Some p \<and>
    (pe_lat p, pe_lon p, pe_alt_m p, pe_speed_cms p, pe_course_ddeg p) =
      (loc_lat loc, loc_lon loc, loc_alt_m loc, loc_speed_cms loc, loc_course_ddeg loc) \<and>
    pe_last_update_ms p = 2000 \<and>
    st_rx_ok (nd_stats (onReceive b frame 2000 0 0)) = st_rx_ok (nd_stats b) + 1"
    by (rule beacon_delivers_position [OF inv hub keys _ _ _ f l]) (simp_all add: uids cc_begin_def)
  then show ?thesis
    unfolding loc_def [symmetric] a_def [symmetric] b_def [symmetric] Let_def
    by (auto simp: out uids) (auto simp: loc_def)
qed

end
