(* ===== verification/Frame_Parser.thy ===== *)
theory Frame_Parser
  imports Prelude "HOL-Library.Sublist"
begin

text \<open>
  What the two byte-at-a-time parsers of lib/ff_core share (\<open>MspParser\<close> of msp_parser.h,
  \<open>UbxParser\<close> of ubx.h): a step that takes one byte and says whether it completed a frame, and
  the contract under which whole streams are read correctly.
\<close>

text \<open>Feeding a stream: the parser after it, and what it reported, in order.\<close>

fun feed_run :: "('p \<Rightarrow> u8 \<Rightarrow> 'p \<times> bool) \<Rightarrow> ('p \<Rightarrow> 'r) \<Rightarrow> 'p \<Rightarrow> byte_list \<Rightarrow> 'p \<times> 'r list" where
  "feed_run feed result p [] = (p, [])"
| "feed_run feed result p (b # bs) =
     (let (p, ok) = feed p b; (q, out) = feed_run feed result p bs
      in (q, if ok then result p # out else out))"

lemma feed_run_append:
  "feed_run feed result p (xs @ ys) =
     (let (q, out) = feed_run feed result p xs; (r, out') = feed_run feed result q ys in (r, out @ out'))"
  by (induction xs arbitrary: p) (simp_all add: Let_def split: prod.splits)

lemma feed_run_append_silent:
  "feed_run feed result p xs = (q, []) \<Longrightarrow> feed_run feed result p (xs @ ys) = feed_run feed result q ys"
  by (simp add: feed_run_append split: prod.split)

lemma word_eq_unat: "unat v = unat w \<Longrightarrow> v = w"
  by (metis word_unat_eq_iff)

text \<open>
  The contract. \<open>quiet\<close> says which bytes between frames are skipped, \<open>ready\<close> that the parser is
  between frames and \<open>hunting\<close> that the next frame's first byte is recognised; \<open>frame\<close> is the frame
  that carries a result and \<open>fits\<close> says which frames the parser's buffer can hold. \<open>seen p h\<close>
  relates the parser to the bytes it has been fed.
\<close>

locale frame_parser =
  fixes feed :: "'p \<Rightarrow> u8 \<Rightarrow> 'p \<times> bool" and result :: "'p \<Rightarrow> 'r"
    and ready :: "'p \<Rightarrow> bool" and hunting :: "'p \<Rightarrow> bool" and quiet :: "byte_list \<Rightarrow> bool"
    and seen :: "'p \<Rightarrow> byte_list \<Rightarrow> bool" and frame :: "'r \<Rightarrow> byte_list"
    and wf :: "'r \<Rightarrow> bool" and fits :: "'r \<Rightarrow> bool"
  assumes noise_skipped: "ready p \<Longrightarrow> quiet g \<Longrightarrow> \<exists>q. feed_run feed result p g = (q, []) \<and> hunting q"
    and frame_heard: "hunting p \<Longrightarrow> wf r \<Longrightarrow>
      \<exists>q. feed_run feed result p (frame r) = (q, if fits r then [r] else []) \<and> ready q"
    and seen_feed: "seen p h \<Longrightarrow> seen (fst (feed p b)) (h @ [b])"
    and seen_accept: "seen p h \<Longrightarrow> feed p b = (q, True) \<Longrightarrow>
      suffix (frame (result q)) (h @ [b]) \<and> wf (result q) \<and> fits (result q)"
begin

lemma run_stream:
  "ready p \<Longrightarrow> \<forall>(noise, r) \<in> set items. quiet noise \<and> wf r \<Longrightarrow> quiet rest \<Longrightarrow>
     \<exists>q. feed_run feed result p (concat (map (\<lambda>(noise, r). noise @ frame r) items) @ rest) =
       (q, filter fits (map snd items)) \<and> hunting q"
proof (induction items arbitrary: p)
  case Nil
  then show ?case using noise_skipped [of p rest] by auto
next
  case (Cons a items)
  obtain noise r where a: "a = (noise, r)" by (cases a)
  with Cons.prems(2) have n: "quiet noise" "wf r" by auto
  obtain p1 where p1: "feed_run feed result p noise = (p1, [])" "hunting p1"
    using noise_skipped [OF Cons.prems(1) n(1)] by blast
  obtain q where q: "feed_run feed result p1 (frame r) = (q, if fits r then [r] else [])" "ready q"
    using frame_heard [OF p1(2) n(2)] by blast
  have tail: "\<forall>(noise, r) \<in> set items. quiet noise \<and> wf r" using Cons.prems(2) by simp
  obtain s where "feed_run feed result q (concat (map (\<lambda>(noise, r). noise @ frame r) items) @ rest) =
      (s, filter fits (map snd items))" "hunting s"
    using Cons.IH [OF q(2) tail Cons.prems(3)] by blast
  then show ?case
    using q(1) p1(1) by (auto simp: a feed_run_append Let_def simp del: feed_run.simps)
qed

lemma run_seen: "seen p h \<Longrightarrow> seen (fst (feed_run feed result p bs)) (h @ bs)"
proof (induction bs arbitrary: p h)
  case (Cons b bs)
  from Cons.IH [OF seen_feed [OF Cons.prems, of b]]
  show ?case by (auto simp: Let_def split: prod.splits)
qed simp

lemma reported_frames:
  "seen p h \<Longrightarrow> r \<in> set (snd (feed_run feed result p bs)) \<Longrightarrow>
     sublist (frame r) (h @ bs) \<and> wf r \<and> fits r"
proof (induction bs arbitrary: p h)
  case (Cons b bs)
  obtain q ok where q: "feed p b = (q, ok)" by fastforce
  have s: "seen q (h @ [b])" using seen_feed [OF Cons.prems(1), of b] q by simp
  show ?case
  proof (cases "r \<in> set (snd (feed_run feed result q bs))")
    case True
    from Cons.IH [OF s this] show ?thesis by simp
  next
    case False
    then have "ok" "r = result q"
      using Cons.prems(2) q by (auto simp: Let_def split: prod.splits if_splits)
    then have "suffix (frame r) (h @ [b]) \<and> wf r \<and> fits r"
      using seen_accept [OF Cons.prems(1)] q by simp
    then obtain zs where z: "h @ [b] = zs @ frame r" "wf r \<and> fits r"
      by (auto simp: suffix_def)
    have "h @ b # bs = zs @ frame r @ bs" using arg_cong [OF z(1), of "\<lambda>xs. xs @ bs"] by simp
    with z(2) show ?thesis unfolding sublist_def by blast
  qed
qed simp

end

end
