(* ===== verification/Msp_Frame.thy ===== *)
theory Msp_Frame
  imports Wire_Format Frame_Parser
begin

text \<open>
  MSP framing: lib/ff_core/msp_crc.h, the frame builders of msp_fc.cpp, and the incremental
  reply parser of msp_parser.h and msp_parser.cpp.
\<close>

section \<open>Checksum\<close>

definition crc8_step :: "u8 \<Rightarrow> u8" where
  "crc8_step crc = (if crc AND 0x80 \<noteq> 0 then push_bit 1 crc XOR 0xD5 else push_bit 1 crc)"

definition mspCrc8DvbS2 :: "u8 \<Rightarrow> u8 \<Rightarrow> u8" where
  "mspCrc8DvbS2 crc a = (crc8_step ^^ 8) (crc XOR a)"

section \<open>Builders\<close>

definition kMspV1Overhead :: nat where [simp]: "kMspV1Overhead = 6"
definition kMspV2Overhead :: nat where [simp]: "kMspV2Overhead = 9"

definition buildMspV1 :: "u8 \<Rightarrow> byte_list \<Rightarrow> nat \<Rightarrow> byte_list" where
  "buildMspV1 cmd payload cap =
     (let len = length payload
      in if len > 255 \<or> cap < kMspV1Overhead + len then []
         else
           let out = put_u8 [] 0x24;
               out = put_u8 out 0x4D;
               out = put_u8 out 0x3C;
               out = put_u8 out (of_nat len);
               out = put_u8 out cmd;
               (out, crc) = foldl (\<lambda>(out, crc) b. (put_u8 out b, crc XOR b)) (out, of_nat len XOR cmd) payload
           in put_u8 out crc)"

definition buildMspV2 :: "u16 \<Rightarrow> byte_list \<Rightarrow> nat \<Rightarrow> byte_list" where
  "buildMspV2 cmd payload cap =
     (let len = length payload
      in if len > 0xFFFF \<or> cap < kMspV2Overhead + len then []
         else
           let out = put_u8 [] 0x24;
               out = put_u8 out 0x58;
               out = put_u8 out 0x3C;
               out = put_u8 out 0;
               out = put_u16 out cmd;
               out = put_u16 out (of_nat len);
               crc = mspCrc8DvbS2 0 0;
               crc = mspCrc8DvbS2 crc (ucast (cmd AND 0xFF));
               crc = mspCrc8DvbS2 crc (ucast (drop_bit 8 cmd));
               crc = mspCrc8DvbS2 crc (of_nat (len mod 256));
               crc = mspCrc8DvbS2 crc (of_nat (len div 256));
               (out, crc) = foldl (\<lambda>(out, crc) b. (put_u8 out b, mspCrc8DvbS2 crc b)) (out, crc) payload
           in put_u8 out crc)"

section \<open>Parser\<close>

definition kMspMaxPayload :: nat where [simp]: "kMspMaxPayload = 128"

datatype msp_state = Idle | HdrM | V1Dir | V1Size | V1Id | V1Payload | V1Crc
  | V2Dir | V2Flag | V2IdLo | V2IdHi | V2SizeLo | V2SizeHi | V2Payload | V2Crc

record msp_parser =
  mp_state :: msp_state
  mp_version :: u8
  mp_size :: u16
  mp_id :: u16
  mp_flag :: u8
  mp_idx :: u16
  mp_crc :: u8
  mp_oversize :: bool
  mp_payload :: byte_list

definition MspParser :: msp_parser where
  "MspParser = \<lparr>mp_state = Idle, mp_version = 0, mp_size = 0, mp_id = 0, mp_flag = 0, mp_idx = 0,
     mp_crc = 0, mp_oversize = False, mp_payload = replicate kMspMaxPayload 0\<rparr>"

definition msp_reset :: "msp_parser \<Rightarrow> msp_parser" where
  "msp_reset p = p\<lparr>mp_state := Idle, mp_version := 0, mp_size := 0, mp_id := 0, mp_flag := 0,
     mp_idx := 0, mp_crc := 0, mp_oversize := False\<rparr>"

text \<open>The payload states of both versions store one byte and count it.\<close>

definition msp_store :: "msp_parser \<Rightarrow> u8 \<Rightarrow> u8 \<Rightarrow> msp_state \<Rightarrow> msp_parser" where
  "msp_store p b crc done_state =
     (let p = p\<lparr>mp_crc := crc\<rparr>;
          p = (if \<not> mp_oversize p then p\<lparr>mp_payload := (mp_payload p)[unat (mp_idx p) := b]\<rparr> else p);
          p = p\<lparr>mp_idx := mp_idx p + 1\<rparr>
      in if mp_idx p \<ge> mp_size p then p\<lparr>mp_state := done_state\<rparr> else p)"

definition msp_feed :: "msp_parser \<Rightarrow> u8 \<Rightarrow> msp_parser \<times> bool" where
  "msp_feed p b =
     (case mp_state p of
        Idle \<Rightarrow> (if b = 0x24 then p\<lparr>mp_state := HdrM\<rparr> else p, False)
      | HdrM \<Rightarrow>
          (p\<lparr>mp_state := (if b = 0x4D then V1Dir else if b = 0x58 then V2Dir
                         else if b = 0x24 then HdrM else Idle)\<rparr>, False)
      | V1Dir \<Rightarrow> (p\<lparr>mp_state := (if b = 0x3E then V1Size else if b = 0x24 then HdrM else Idle)\<rparr>, False)
      | V1Size \<Rightarrow>
          (p\<lparr>mp_version := 1, mp_flag := 0, mp_size := ucast b, mp_crc := b, mp_idx := 0,
             mp_oversize := unat b > kMspMaxPayload, mp_state := V1Id\<rparr>, False)
      | V1Id \<Rightarrow>
          (p\<lparr>mp_id := ucast b, mp_crc := mp_crc p XOR b,
             mp_state := (if mp_size p = 0 then V1Crc else V1Payload)\<rparr>, False)
      | V1Payload \<Rightarrow> (msp_store p b (mp_crc p XOR b) V1Crc, False)
      | V1Crc \<Rightarrow> (p\<lparr>mp_state := Idle\<rparr>, b = mp_crc p \<and> \<not> mp_oversize p)
      | V2Dir \<Rightarrow> (p\<lparr>mp_state := (if b = 0x3E then V2Flag else if b = 0x24 then HdrM else Idle)\<rparr>, False)
      | V2Flag \<Rightarrow>
          (p\<lparr>mp_version := 2, mp_flag := b, mp_crc := mspCrc8DvbS2 0 b, mp_state := V2IdLo\<rparr>, False)
      | V2IdLo \<Rightarrow>
          (p\<lparr>mp_id := ucast b, mp_crc := mspCrc8DvbS2 (mp_crc p) b, mp_state := V2IdHi\<rparr>, False)
      | V2IdHi \<Rightarrow>
          (p\<lparr>mp_id := mp_id p OR push_bit 8 (ucast b), mp_crc := mspCrc8DvbS2 (mp_crc p) b,
             mp_state := V2SizeLo\<rparr>, False)
      | V2SizeLo \<Rightarrow>
          (p\<lparr>mp_size := ucast b, mp_crc := mspCrc8DvbS2 (mp_crc p) b, mp_state := V2SizeHi\<rparr>, False)
      | V2SizeHi \<Rightarrow>
          (let size = mp_size p OR push_bit 8 (ucast b)
           in (p\<lparr>mp_size := size, mp_crc := mspCrc8DvbS2 (mp_crc p) b, mp_idx := 0,
                 mp_oversize := unat size > kMspMaxPayload,
                 mp_state := (if size = 0 then V2Crc else V2Payload)\<rparr>, False))
      | V2Payload \<Rightarrow> (msp_store p b (mspCrc8DvbS2 (mp_crc p) b) V2Crc, False)
      | V2Crc \<Rightarrow> (p\<lparr>mp_state := Idle\<rparr>, b = mp_crc p \<and> \<not> mp_oversize p))"

text \<open>What a caller reads after a successful feed.\<close>

definition mp_data :: "msp_parser \<Rightarrow> byte_list" where
  "mp_data p = take (unat (mp_size p)) (mp_payload p)"

text \<open>A reply as the parser reports it: version, flag, command and payload.\<close>

type_synonym msp_reply = "u8 \<times> u8 \<times> u16 \<times> byte_list"

definition mp_reply :: "msp_parser \<Rightarrow> msp_reply" where
  "mp_reply p = (mp_version p, mp_flag p, mp_id p, mp_data p)"

abbreviation msp_run :: "msp_parser \<Rightarrow> byte_list \<Rightarrow> msp_parser \<times> msp_reply list" where
  "msp_run \<equiv> feed_run msp_feed mp_reply"

section \<open>Lemmas\<close>

text \<open>The specification of the two framings: a direction byte, a flag, an id and a payload.\<close>

definition crc8 :: "byte_list \<Rightarrow> u8" where
  "crc8 bs = foldl mspCrc8DvbS2 0 bs"

definition xor_sum :: "byte_list \<Rightarrow> u8" where
  "xor_sum bs = foldl (XOR) 0 bs"

definition v1_body :: "u8 \<Rightarrow> byte_list \<Rightarrow> byte_list" where
  "v1_body cmd payload = [of_nat (length payload), cmd] @ payload"

definition v1_frame :: "u8 \<Rightarrow> u8 \<Rightarrow> byte_list \<Rightarrow> byte_list" where
  "v1_frame dir cmd payload = [0x24, 0x4D, dir] @ v1_body cmd payload @ [xor_sum (v1_body cmd payload)]"

definition v2_body :: "u8 \<Rightarrow> u16 \<Rightarrow> byte_list \<Rightarrow> byte_list" where
  "v2_body flag cmd payload = [flag] @ put_u16 [] cmd @ put_u16 [] (of_nat (length payload)) @ payload"

definition v2_frame :: "u8 \<Rightarrow> u8 \<Rightarrow> u16 \<Rightarrow> byte_list \<Rightarrow> byte_list" where
  "v2_frame dir flag cmd payload =
     [0x24, 0x58, dir] @ v2_body flag cmd payload @ [crc8 (v2_body flag cmd payload)]"

lemma build_fold:
  "foldl (\<lambda>(out, crc) b. (out @ [b], f crc b)) (out, crc) bs = (out @ bs, foldl f crc bs)"
  by (induction bs arbitrary: out crc) simp_all

lemma u16_low_byte: "ucast (of_nat n AND 0xFF :: u16) = (of_nat (n mod 256) :: u8)"
proof (rule word_eq_unat)
  have "unat (of_nat n AND 0xFF :: u16) = n mod 256"
    by (simp add: u8_mask take_bit_eq_mod unat_mod_distrib unsigned_of_nat mod_mod_cancel
        flip: take_bit_eq_mask)
  then show "unat (ucast (of_nat n AND 0xFF :: u16) :: u8) = unat (of_nat (n mod 256) :: u8)"
    by (simp add: unsigned_ucast_eq take_bit_eq_mod unsigned_of_nat)
qed

lemma u16_high_byte:
  assumes "n < 65536"
  shows "ucast (drop_bit 8 (of_nat n :: u16) AND 0xFF) = (of_nat (n div 256) :: u8)"
proof (rule word_eq_unat)
  have d: "unat (drop_bit 8 (of_nat n :: u16)) = n div 256"
    using assms by (simp add: unsigned_drop_bit_eq unat_of_nat_small unat_div_distrib drop_bit_eq_div take_bit_eq_mod)
  have "unat (drop_bit 8 (of_nat n :: u16) AND 0xFF) = n div 256"
    using assms by (simp add: u8_mask d take_bit_eq_mod unat_mod_distrib flip: take_bit_eq_mask)
  then show "unat (ucast (drop_bit 8 (of_nat n :: u16) AND 0xFF) :: u8) = unat (of_nat (n div 256) :: u8)"
    by (simp add: unsigned_ucast_eq take_bit_eq_mod unsigned_of_nat)
qed

lemma buildMspV1_frame:
  "buildMspV1 cmd payload cap =
     (if length payload > 255 \<or> cap < 6 + length payload then [] else v1_frame 0x3C cmd payload)"
  by (simp add: buildMspV1_def put_u8_def build_fold Let_def v1_frame_def v1_body_def xor_sum_def)

lemma buildMspV2_frame:
  "buildMspV2 cmd payload cap =
     (if length payload > 65535 \<or> cap < 9 + length payload then [] else v2_frame 0x3C 0 cmd payload)"
proof (cases "length payload > 65535 \<or> cap < 9 + length payload")
  case False
  have "ucast (drop_bit 8 cmd AND 0xFF) = (ucast (drop_bit 8 cmd) :: u8)"
    by (rule bit_word_eqI) (simp add: bit_simps u8_mask)
  with False show ?thesis
    by (simp add: buildMspV2_def put_u8_def build_fold Let_def put_u16_def v2_frame_def v2_body_def crc8_def
        u16_low_byte u16_high_byte)
qed (auto simp: buildMspV2_def Let_def)

section \<open>What the parser has seen\<close>

text \<open>
  The bytes of the current frame that bring the parser into a state, from the fields it has
  stored and the payload bytes so far.
\<close>

definition pending :: "msp_parser \<Rightarrow> byte_list \<Rightarrow> byte_list" where
  "pending p pl =
     (let v1 = [0x24, 0x4D, 0x3E]; v2 = [0x24, 0x58, 0x3E]; size = mp_size p; cmd = mp_id p
      in case mp_state p of
        Idle \<Rightarrow> []
      | HdrM \<Rightarrow> [0x24]
      | V1Dir \<Rightarrow> [0x24, 0x4D]
      | V1Size \<Rightarrow> v1
      | V1Id \<Rightarrow> v1 @ [ucast size]
      | V1Payload \<Rightarrow> v1 @ [ucast size, ucast cmd] @ pl
      | V1Crc \<Rightarrow> v1 @ [ucast size, ucast cmd] @ pl
      | V2Dir \<Rightarrow> [0x24, 0x58]
      | V2Flag \<Rightarrow> v2
      | V2IdLo \<Rightarrow> v2 @ [mp_flag p]
      | V2IdHi \<Rightarrow> v2 @ [mp_flag p, ucast cmd]
      | V2SizeLo \<Rightarrow> v2 @ [mp_flag p] @ put_u16 [] cmd
      | V2SizeHi \<Rightarrow> v2 @ [mp_flag p] @ put_u16 [] cmd @ [ucast size]
      | V2Payload \<Rightarrow> v2 @ [mp_flag p] @ put_u16 [] cmd @ put_u16 [] size @ pl
      | V2Crc \<Rightarrow> v2 @ [mp_flag p] @ put_u16 [] cmd @ put_u16 [] size @ pl)"

text \<open>The checksum over them, and the ranges of the fields that are set at that point.\<close>

definition fields_ok :: "msp_parser \<Rightarrow> byte_list \<Rightarrow> bool" where
  "fields_ok p pl =
     (let crc1 = (mp_crc p = xor_sum (drop 3 (pending p pl)));
          crc2 = (mp_crc p = crc8 (drop 3 (pending p pl)));
          v1 = (mp_version p = 1 \<and> mp_flag p = 0 \<and> unat (mp_size p) < 256);
          v2 = (mp_version p = 2);
          big = (mp_oversize p \<longleftrightarrow> unat (mp_size p) > 128);
          got = (length pl = unat (mp_idx p) \<and> (\<not> mp_oversize p \<longrightarrow> take (length pl) (mp_payload p) = pl))
      in case mp_state p of
        V1Id \<Rightarrow> crc1 \<and> v1 \<and> big \<and> mp_idx p = 0
      | V1Payload \<Rightarrow> crc1 \<and> v1 \<and> big \<and> got \<and> unat (mp_id p) < 256 \<and> length pl < unat (mp_size p)
      | V1Crc \<Rightarrow> crc1 \<and> v1 \<and> big \<and> got \<and> unat (mp_id p) < 256 \<and> length pl = unat (mp_size p)
      | V2IdLo \<Rightarrow> crc2 \<and> v2
      | V2IdHi \<Rightarrow> crc2 \<and> v2 \<and> unat (mp_id p) < 256
      | V2SizeLo \<Rightarrow> crc2 \<and> v2
      | V2SizeHi \<Rightarrow> crc2 \<and> v2 \<and> unat (mp_size p) < 256
      | V2Payload \<Rightarrow> crc2 \<and> v2 \<and> big \<and> got \<and> length pl < unat (mp_size p)
      | V2Crc \<Rightarrow> crc2 \<and> v2 \<and> big \<and> got \<and> length pl = unat (mp_size p)
      | _ \<Rightarrow> True)"

definition msp_seen :: "msp_parser \<Rightarrow> byte_list \<Rightarrow> byte_list \<Rightarrow> bool" where
  "msp_seen p pl h \<longleftrightarrow> length (mp_payload p) = 128 \<and> suffix (pending p pl) h \<and> fields_ok p pl"

lemma crc8_snoc [simp]: "crc8 (xs @ [b]) = mspCrc8DvbS2 (crc8 xs) b"
  by (simp add: crc8_def)

lemma xor_sum_snoc [simp]: "xor_sum (xs @ [b]) = xor_sum xs XOR b"
  by (simp add: xor_sum_def)

lemma crc8_one: "crc8 [b] = mspCrc8DvbS2 0 b" "xor_sum [b] = b"
  by (simp_all add: crc8_def xor_sum_def)

lemma ucast_u8_u16 [simp]: "ucast (ucast (b :: u8) :: u16) = b"
  by (rule bit_word_eqI) (simp add: bit_simps)

lemma put_u16_or:
  assumes "unat (lo :: u16) < 256"
  shows "put_u16 [] (lo OR push_bit 8 (ucast (b :: u8))) = [ucast lo, b]"
proof -
  have z: "\<not> bit lo n" if "8 \<le> n" for n
  proof -
    have "unat lo < 2 ^ 8" using assms by simp
    then have "take_bit 8 lo = lo" by (simp add: word_eq_unat unsigned_take_bit_eq take_bit_nat_eq_self)
    then show ?thesis using that bit_take_bit_iff [of 8 lo n] by simp
  qed
  have "ucast ((lo OR push_bit 8 (ucast b)) AND 0xFF) = (ucast lo :: u8)"
    by (rule bit_word_eqI) (auto simp: u8_mask bit_simps)
  moreover have "ucast (drop_bit 8 (lo OR push_bit 8 (ucast b)) AND 0xFF) = b"
    by (rule bit_word_eqI) (auto simp: u8_mask bit_simps z)
  ultimately show ?thesis by (simp add: put_u16_def)
qed

lemma take_update_snoc: "n < length xs \<Longrightarrow> take n xs = ys \<Longrightarrow> take (Suc n) (xs[n := b]) = ys @ [b]"
  by (simp add: take_Suc_conv_app_nth)

lemma store_fields:
  assumes "length pl = unat (mp_idx p)" "length pl < unat (mp_size p)" "length (mp_payload p) = 128"
    and "mp_oversize p \<longleftrightarrow> unat (mp_size p) > 128"
    and "\<not> mp_oversize p \<longrightarrow> take (length pl) (mp_payload p) = pl"
    and q_def: "q = msp_store p b crc done_state"
  shows "unat (mp_idx q) = Suc (length pl)" "length (mp_payload q) = 128"
    and "\<not> mp_oversize p \<longrightarrow> take (Suc (length pl)) (mp_payload q) = pl @ [b]"
    and "mp_state q = (if Suc (length pl) = unat (mp_size p) then done_state else mp_state p)"
    and "mp_crc q = crc" "mp_size q = mp_size p" "mp_id q = mp_id p" "mp_flag q = mp_flag p"
      "mp_version q = mp_version p" "mp_oversize q = mp_oversize p"
proof -
  have "unat (mp_idx p) < 65535" using assms(1,2) unat_u16_lt [of "mp_size p"] by linarith
  then have i: "unat (mp_idx p + 1) = Suc (length pl)" using assms(1) by (simp add: unat_word_ariths)
  have c: "mp_size p \<le> mp_idx p + 1 \<longleftrightarrow> Suc (length pl) = unat (mp_size p)"
    using i assms(2) by (auto simp: word_le_nat_alt)
  show "unat (mp_idx q) = Suc (length pl)" "length (mp_payload q) = 128"
    and "mp_state q = (if Suc (length pl) = unat (mp_size p) then done_state else mp_state p)"
    and "mp_crc q = crc" "mp_size q = mp_size p" "mp_id q = mp_id p" "mp_flag q = mp_flag p"
      "mp_version q = mp_version p" "mp_oversize q = mp_oversize p"
    using assms(3) i c by (simp_all add: q_def msp_store_def Let_def)
  show "\<not> mp_oversize p \<longrightarrow> take (Suc (length pl)) (mp_payload q) = pl @ [b]"
    using assms(1-5) by (auto simp: q_def msp_store_def Let_def take_update_snoc)
qed

lemma msp_seenI:
  assumes "msp_seen p pl h" "length (mp_payload q) = 128" "fields_ok q pl'"
    and "pending q pl' = pending p pl @ [b] \<or> pending q pl' = [] \<or> pending q pl' = [b]"
  shows "msp_seen q pl' (h @ [b])"
  using assms by (auto simp: msp_seen_def suffix_def)

lemmas seen_defs = fields_ok_def pending_def crc8_def xor_sum_def

lemma fields_ok_V1:
  assumes "mp_state p = V1Payload \<or> mp_state p = V1Crc"
  shows "fields_ok p pl \<longleftrightarrow> mp_crc p = xor_sum (drop 3 (pending p pl)) \<and>
    (mp_version p = 1 \<and> mp_flag p = 0 \<and> unat (mp_size p) < 256 \<and> unat (mp_id p) < 256) \<and>
    (mp_oversize p \<longleftrightarrow> unat (mp_size p) > 128) \<and>
    (length pl = unat (mp_idx p) \<and> (\<not> mp_oversize p \<longrightarrow> take (length pl) (mp_payload p) = pl)) \<and>
    (if mp_state p = V1Payload then length pl < unat (mp_size p) else length pl = unat (mp_size p))"
  using assms by (elim disjE) (simp_all only: fields_ok_def Let_def msp_state.case msp_state.distinct if_True if_False simp_thms conj_ac)

lemma fields_ok_V2:
  assumes "mp_state p = V2Payload \<or> mp_state p = V2Crc"
  shows "fields_ok p pl \<longleftrightarrow> mp_crc p = crc8 (drop 3 (pending p pl)) \<and> mp_version p = 2 \<and>
    (mp_oversize p \<longleftrightarrow> unat (mp_size p) > 128) \<and>
    (length pl = unat (mp_idx p) \<and> (\<not> mp_oversize p \<longrightarrow> take (length pl) (mp_payload p) = pl)) \<and>
    (if mp_state p = V2Payload then length pl < unat (mp_size p) else length pl = unat (mp_size p))"
  using assms by (elim disjE) (simp_all only: fields_ok_def Let_def msp_state.case msp_state.distinct if_True if_False simp_thms conj_ac)

lemma grow_fields:
  assumes "fields_ok p pl" "mp_state p = V1Payload \<and> crc = mp_crc p XOR b \<and> done_state = V1Crc \<or>
      mp_state p = V2Payload \<and> crc = mspCrc8DvbS2 (mp_crc p) b \<and> done_state = V2Crc"
    and "length (mp_payload p) = 128" and q_def: "q = msp_store p b crc done_state"
  shows "fields_ok q (pl @ [b]) \<and> pending q (pl @ [b]) = pending p pl @ [b] \<and> length (mp_payload q) = 128"
proof -
  have f: "length pl = unat (mp_idx p)" "length pl < unat (mp_size p)"
    "mp_oversize p \<longleftrightarrow> unat (mp_size p) > 128"
    "\<not> mp_oversize p \<longrightarrow> take (length pl) (mp_payload p) = pl"
    using assms by (auto simp: fields_ok_def)
  note q = store_fields [OF f(1,2) assms(3) f(3,4) q_def]
  have got: "length (pl @ [b]) = unat (mp_idx q) \<and>
      (\<not> mp_oversize q \<longrightarrow> take (length (pl @ [b])) (mp_payload q) = pl @ [b])"
    using q(1,3,10) by simp
  have st: "mp_state q = done_state \<and> length (pl @ [b]) = unat (mp_size p) \<or>
      mp_state q = mp_state p \<and> length (pl @ [b]) < unat (mp_size p)"
    using q(4) f(2) by simp
  have pen: "pending q (pl @ [b]) = pending p pl @ [b]"
    using assms(2) st by (auto simp: pending_def Let_def q(6-8))
  have d: "drop 3 (pending p pl @ [b]) = drop 3 (pending p pl) @ [b]"
    using assms(2) by (auto simp: pending_def Let_def)
  have "fields_ok q (pl @ [b])"
  proof (cases "mp_state p = V1Payload")
    case True
    then have s1: "mp_state p = V1Payload \<or> mp_state p = V1Crc" "mp_state q = V1Payload \<or> mp_state q = V1Crc"
      and c: "crc = mp_crc p XOR b" using st assms(2) by auto
    from assms(1) have o: "mp_crc p = xor_sum (drop 3 (pending p pl))"
      "mp_version p = 1 \<and> mp_flag p = 0 \<and> unat (mp_size p) < 256 \<and> unat (mp_id p) < 256"
      unfolding fields_ok_V1 [OF s1(1)] by blast+
    show ?thesis
      unfolding fields_ok_V1 [OF s1(2)] pen d q(5-9) xor_sum_snoc c o(1) [symmetric]
      using o(2) f(3) got st True assms(2) q(10) by auto
  next
    case False
    then have s1: "mp_state p = V2Payload \<or> mp_state p = V2Crc" "mp_state q = V2Payload \<or> mp_state q = V2Crc"
      and c: "crc = mspCrc8DvbS2 (mp_crc p) b" using st assms(2) by auto
    from assms(1) have o: "mp_crc p = crc8 (drop 3 (pending p pl))" "mp_version p = 2"
      unfolding fields_ok_V2 [OF s1(1)] by blast+
    show ?thesis
      unfolding fields_ok_V2 [OF s1(2)] pen d q(5-9) crc8_snoc c o(1) [symmetric]
      using o(2) f(3) got st False assms(2) q(10) by auto
  qed
  with pen q(2) show ?thesis by blast
qed

lemma feed_seen_payload:
  assumes "msp_seen p pl h" "mp_state p = V1Payload \<or> mp_state p = V2Payload"
  shows "msp_seen (fst (msp_feed p b)) (pl @ [b]) (h @ [b])"
proof -
  have f: "fields_ok p pl" "length (mp_payload p) = 128" using assms(1) by (simp_all add: msp_seen_def)
  show ?thesis
  proof (cases "mp_state p = V1Payload")
    case True
    with grow_fields [OF f(1) _ f(2) refl, of "mp_crc p XOR b" b V1Crc] msp_seenI [OF assms(1)]
    show ?thesis by (simp add: msp_feed_def)
  next
    case False
    with assms(2) grow_fields [OF f(1) _ f(2) refl, of "mspCrc8DvbS2 (mp_crc p) b" b V2Crc]
      msp_seenI [OF assms(1)]
    show ?thesis by (simp add: msp_feed_def)
  qed
qed

lemma feed_seen:
  assumes "msp_seen p pl h"
  shows "\<exists>pl'. msp_seen (fst (msp_feed p b)) pl' (h @ [b])"
proof (cases "mp_state p = V1Payload \<or> mp_state p = V2Payload")
  case True
  with feed_seen_payload [OF assms] show ?thesis by blast
next
  case False
  have f: "length (mp_payload p) = 128" "fields_ok p pl" using assms by (simp_all add: msp_seen_def)
  let ?q = "fst (msp_feed p b)"
  have "length (mp_payload ?q) = 128"
    using False f(1) by (cases "mp_state p") (simp_all add: msp_feed_def Let_def)
  moreover have "fields_ok ?q [] \<and> (pending ?q [] = pending p pl @ [b] \<or> pending ?q [] = [] \<or> pending ?q [] = [b])"
  proof (cases "mp_state p = V2SizeHi")
    case True
    define size where "size = mp_size p OR push_bit 8 (ucast b)"
    have "put_u16 [] size = [ucast (mp_size p), b]"
      unfolding size_def by (rule put_u16_or) (use True f(2) in \<open>simp add: fields_ok_def\<close>)
    then show ?thesis
      using True f(2) unfolding msp_feed_def Let_def size_def [symmetric]
      by (cases "size = 0") (simp_all add: seen_defs unat_gt_0)
  next
    case F: False
    show ?thesis
      using False F f(2) by (cases "mp_state p") (simp_all add: msp_feed_def Let_def seen_defs put_u16_or unat_gt_0)
  qed
  ultimately show ?thesis using msp_seenI [OF assms] by blast
qed

section \<open>Frames in a stream\<close>

fun reply_frame :: "msp_reply \<Rightarrow> byte_list" where
  "reply_frame (version, flag, cmd, data) =
     (if version = 1 then v1_frame 0x3E (ucast cmd) data else v2_frame 0x3E flag cmd data)"

text \<open>The replies the two framings can carry.\<close>

fun well_formed :: "msp_reply \<Rightarrow> bool" where
  "well_formed (version, flag, cmd, data) \<longleftrightarrow>
     version = 1 \<and> flag = 0 \<and> unat cmd < 256 \<and> length data < 256 \<or>
     version = 2 \<and> length data < 65536"

fun retained :: "msp_reply \<Rightarrow> bool" where
  "retained (version, flag, cmd, data) \<longleftrightarrow> length data \<le> kMspMaxPayload"

lemma msp_seen_start: "msp_seen MspParser [] []"
  by (simp add: msp_seen_def MspParser_def pending_def fields_ok_def)

lemma of_nat_unat_ucast: "of_nat (unat (w :: u16)) = (ucast w :: u8)"
  by simp

lemma accepted_frame:
  assumes "msp_seen p pl h" "msp_feed p b = (q, True)"
  shows "suffix (reply_frame (mp_reply q)) (h @ [b]) \<and> well_formed (mp_reply q) \<and> retained (mp_reply q)"
proof -
  define r where r0: "r = mp_reply q"
  note r_def = r0 [unfolded mp_reply_def]
  have st: "mp_state p = V1Crc \<or> mp_state p = V2Crc" and ok: "b = mp_crc p" "\<not> mp_oversize p"
    and q: "q = p\<lparr>mp_state := Idle\<rparr>"
    using assms(2) by (auto simp: msp_feed_def Let_def split: msp_state.splits)
  have f: "fields_ok p pl" and su: "suffix (pending p pl @ [b]) (h @ [b])"
    using assms(1) by (simp_all add: msp_seen_def)
  have com: "length pl = unat (mp_size p)" "take (length pl) (mp_payload p) = pl" "unat (mp_size p) \<le> 128"
    using f st ok(2) by (auto simp: fields_ok_def)
  then have data: "mp_data q = pl" by (simp add: mp_data_def q)
  have n: "of_nat (length pl) = (ucast (mp_size p) :: u8)" "of_nat (length pl) = mp_size p"
    unfolding com(1) by (simp_all add: of_nat_unat_ucast)
  from st show ?thesis
    unfolding r0 [symmetric]
  proof
    assume s: "mp_state p = V1Crc"
    then have "b = xor_sum ([ucast (mp_size p), ucast (mp_id p)] @ pl)" "mp_version p = 1" "mp_flag p = 0"
      "unat (mp_id p) < 256"
      using f ok(1) by (simp_all add: fields_ok_def pending_def)
    then have "reply_frame r = pending p pl @ [b]" and "well_formed r" and "retained r"
      using com s by (simp_all add: r_def q [symmetric] data v1_frame_def v1_body_def pending_def n(1))
        (simp_all add: q n(1))
    with su show "suffix (reply_frame r) (h @ [b]) \<and> well_formed r \<and> retained r" by simp
  next
    assume s: "mp_state p = V2Crc"
    then have "b = crc8 ([mp_flag p] @ put_u16 [] (mp_id p) @ put_u16 [] (mp_size p) @ pl)" "mp_version p = 2"
      using f ok(1) by (simp_all add: fields_ok_def pending_def)
    then have "reply_frame r = pending p pl @ [b]" and "well_formed r" and "retained r"
      using com s by (simp_all add: r_def q [symmetric] data v2_frame_def v2_body_def pending_def n(2))
        (simp_all add: q n(2))
    with su show "suffix (reply_frame r) (h @ [b]) \<and> well_formed r \<and> retained r" by simp
  qed
qed

text \<open>What the payload states do with a whole payload.\<close>

lemma run_payload:
  assumes "fields_ok p pl" "mp_state p = (if v1 then V1Payload else V2Payload)"
    and "length (mp_payload p) = 128" "length pl + length bs = unat (mp_size p)" "bs \<noteq> []"
  shows "\<exists>q. msp_run p bs = (q, []) \<and> mp_state q = (if v1 then V1Crc else V2Crc) \<and>
    fields_ok q (pl @ bs) \<and> pending q (pl @ bs) = pending p pl @ bs \<and> length (mp_payload q) = 128 \<and>
    mp_size q = mp_size p \<and> mp_id q = mp_id p \<and> mp_flag q = mp_flag p"
  using assms
proof (induction bs arbitrary: p pl)
  case (Cons b bs)
  define crc where "crc = (if v1 then mp_crc p XOR b else mspCrc8DvbS2 (mp_crc p) b)"
  define done_state where "done_state = (if v1 then V1Crc else V2Crc)"
  define q where "q = msp_store p b crc done_state"
  have g: "fields_ok q (pl @ [b]) \<and> pending q (pl @ [b]) = pending p pl @ [b] \<and> length (mp_payload q) = 128"
    using Cons.prems(2) by (intro grow_fields [OF Cons.prems(1) _ Cons.prems(3) q_def])
      (auto simp: crc_def done_state_def)
  have l: "length pl = unat (mp_idx p)" "length pl < unat (mp_size p)"
    "mp_oversize p \<longleftrightarrow> unat (mp_size p) > 128"
    "\<not> mp_oversize p \<longrightarrow> take (length pl) (mp_payload p) = pl"
    using Cons.prems(1,2) by (auto simp: fields_ok_def split: if_splits)
  note f = store_fields [OF l(1,2) Cons.prems(3) l(3,4) q_def]
  have feed: "msp_feed p b = (q, False)"
    using Cons.prems(2) by (simp add: msp_feed_def q_def crc_def done_state_def)
  show ?case
  proof (cases "bs = []")
    case True
    then have "mp_state q = done_state" using f(4) Cons.prems(4) by simp
    with True feed g f(6-8) show ?thesis by (simp add: done_state_def)
  next
    case False
    then have "Suc (length pl) \<noteq> unat (mp_size p)" using Cons.prems(4) by (cases bs) auto
    then have st: "mp_state q = (if v1 then V1Payload else V2Payload)" using f(4) Cons.prems(2) by simp
    have len: "length (pl @ [b]) + length bs = unat (mp_size q)" using Cons.prems(4) f(6) by simp
    from Cons.IH [OF _ st _ len False] g feed f(6-8) show ?thesis by simp
  qed
qed simp

text \<open>What comes after a header: the payload, then the checksum.\<close>

lemma run_body:
  assumes "fields_ok p []" "mp_state p = (if data = [] then (if v1 then V1Crc else V2Crc)
      else (if v1 then V1Payload else V2Payload))"
    and "length (mp_payload p) = 128" "length data = unat (mp_size p)"
    and "c = (if v1 then xor_sum else crc8) (drop 3 (pending p [] @ data))"
  shows "\<exists>q. msp_run p (data @ [b]) =
      (q, if b = c \<and> length data \<le> kMspMaxPayload then [(if v1 then 1 else 2, mp_flag p, mp_id p, data)] else []) \<and>
    mp_state q = Idle \<and> length (mp_payload q) = 128"
proof -
  obtain q where q: "msp_run p data = (q, [])" "mp_state q = (if v1 then V1Crc else V2Crc)"
    "fields_ok q data" "pending q data = pending p [] @ data" "length (mp_payload q) = 128"
    "mp_size q = mp_size p" "mp_id q = mp_id p" "mp_flag q = mp_flag p"
  proof (cases "data = []")
    case False
    with run_payload [OF assms(1) _ assms(3), of v1 data] assms(2,4) that show ?thesis by auto
  qed (use assms that in auto)
  have f: "mp_crc q = c" "mp_version q = (if v1 then 1 else 2)" "mp_oversize q \<longleftrightarrow> length data > 128"
    "\<not> mp_oversize q \<longrightarrow> take (length data) (mp_payload q) = data"
    using q(2-4) assms(4,5) q(6) by (auto simp: fields_ok_def split: if_splits)
  let ?r = "q\<lparr>mp_state := Idle\<rparr>"
  have "msp_feed q b = (?r, b = c \<and> length data \<le> 128)"
    using q(2) f(1,3) by (simp add: msp_feed_def not_less)
  moreover have "mp_data ?r = data" if "length data \<le> 128"
    using f(3,4) that assms(4) q(6) by (simp add: mp_data_def)
  ultimately have "msp_run p (data @ [b]) =
      (?r, if b = c \<and> length data \<le> 128 then [(if v1 then 1 else 2, mp_flag p, mp_id p, data)] else [])"
    using q(1,7,8) f(2) by (simp add: feed_run_append [of msp_feed mp_reply] Let_def mp_reply_def)
  with q(5) show ?thesis by (intro exI [of _ ?r]) simp
qed

lemma unat_of_nat_byte: "n < 256 \<Longrightarrow> unat (of_nat n :: u8) = n" "n < 65536 \<Longrightarrow> unat (of_nat n :: u16) = n"
  by (simp_all add: unat_of_nat_small)

lemma put_u16_cells: "\<exists>lo hi. put_u16 [] w = [lo, hi] \<and> w = ucast lo OR push_bit 8 (ucast hi)"
proof (intro exI conjI)
  show "put_u16 [] w = [ucast (w AND 0xFF), ucast (drop_bit 8 w AND 0xFF)]" by (simp add: put_u16_def)
  show "w = ucast (ucast (w AND 0xFF) :: u8) OR push_bit 8 (ucast (ucast (drop_bit 8 w AND 0xFF) :: u8))"
    by (rule bit_word_eqI) (auto simp: u8_mask bit_simps)
qed

lemma run_v1:
  assumes "mp_state p = Idle" "length (mp_payload p) = 128" "length data < 256"
  shows "\<exists>q. msp_run p ([0x24, 0x4D, 0x3E] @ v1_body cmd data @ [b]) =
      (q, if b = xor_sum (v1_body cmd data) \<and> length data \<le> kMspMaxPayload
          then [(1, 0, ucast cmd, data)] else []) \<and> mp_state q = Idle \<and> length (mp_payload q) = 128"
proof -
  define l :: u8 where "l = of_nat (length data)"
  have n: "unat l = length data" using assms(3) by (simp add: l_def unat_of_nat_byte)
  have n16: "unat (ucast l :: u16) = length data" using n by simp
  then have z: "(ucast l :: u16) = 0 \<longleftrightarrow> data = []" by (metis length_0_conv unat_eq_0)
  define s where "s = (if data = [] then V1Crc else V1Payload)"
  define q where "q = p\<lparr>mp_version := 1, mp_flag := 0, mp_size := ucast l, mp_idx := 0, mp_oversize := length data > 128,
    mp_id := ucast cmd, mp_crc := l XOR cmd, mp_state := s\<rparr>"
  have run: "msp_run p [0x24, 0x4D, 0x3E, l, cmd] = (q, [])"
    using assms(1) n by (simp add: msp_feed_def Let_def q_def s_def z)
  have q: "fields_ok q []" "pending q [] = [0x24, 0x4D, 0x3E, l, cmd]"
    using n z assms(3) by (auto simp: fields_ok_def pending_def q_def s_def xor_sum_def)
  have "mp_state q = s" "mp_flag q = 0" "mp_id q = ucast cmd" "unat (mp_size q) = length data"
    "length (mp_payload q) = 128" using assms(2) n16 by (simp_all add: q_def)
  then show ?thesis
    using run_body [OF q(1), of data True "xor_sum (v1_body cmd data)" b] run
      feed_run_append [of msp_feed mp_reply p "[0x24, 0x4D, 0x3E, l, cmd]" "data @ [b]"]
    by (auto simp: s_def v1_body_def q(2) l_def [symmetric])
qed

lemma run_v2_header:
  assumes "mp_state p = Idle"
  shows "\<exists>q. msp_run p [0x24, 0x58, 0x3E, flag, lo, hi, l, h] = (q, []) \<and>
    q = p\<lparr>mp_version := 2, mp_flag := flag, mp_id := ucast lo OR push_bit 8 (ucast hi),
      mp_size := ucast l OR push_bit 8 (ucast h), mp_crc := crc8 [flag, lo, hi, l, h], mp_idx := 0,
      mp_oversize := unat (ucast l OR push_bit 8 (ucast h) :: u16) > 128,
      mp_state := (if ucast l OR push_bit 8 (ucast h) = (0 :: u16) then V2Crc else V2Payload)\<rparr>"
  unfolding crc8_def using assms by (cases p) (simp add: msp_feed_def Let_def)

lemma run_v2:
  assumes "mp_state p = Idle" "length (mp_payload p) = 128" "length data < 65536"
  shows "\<exists>q. msp_run p ([0x24, 0x58, 0x3E] @ v2_body flag cmd data @ [b]) =
      (q, if b = crc8 (v2_body flag cmd data) \<and> length data \<le> kMspMaxPayload
          then [(2, flag, cmd, data)] else []) \<and> mp_state q = Idle \<and> length (mp_payload q) = 128"
proof -
  define n :: u16 where "n = of_nat (length data)"
  have n: "unat n = length data" using assms(3) by (simp add: n_def unat_of_nat_byte)
  then have z: "n = 0 \<longleftrightarrow> data = []" by (metis length_0_conv unat_eq_0)
  obtain lo hi where c: "put_u16 [] cmd = [lo, hi]" "ucast lo OR push_bit 8 (ucast hi) = cmd"
    using put_u16_cells by metis
  obtain l h where s: "put_u16 [] n = [l, h]" "ucast l OR push_bit 8 (ucast h) = n"
    using put_u16_cells by metis
  let ?h = "[0x24, 0x58, 0x3E, flag, lo, hi, l, h]"
  obtain q where run: "msp_run p ?h = (q, [])"
    and q: "q = p\<lparr>mp_version := 2, mp_flag := flag, mp_id := cmd,
      mp_size := n, mp_crc := crc8 [flag, lo, hi, l, h], mp_idx := 0,
      mp_oversize := unat n > 128, mp_state := (if n = 0 then V2Crc else V2Payload)\<rparr>"
    using run_v2_header [OF assms(1), of flag lo hi l h, unfolded c(2) s(2)] by blast
  have f: "mp_state q = (if data = [] then V2Crc else V2Payload)" "mp_flag q = flag" "mp_id q = cmd"
    "unat (mp_size q) = length data" "length (mp_payload q) = 128"
    using assms(2) z n by (simp_all add: q)
  have pen: "pending q [] = ?h" using c(1) s(1) by (cases "n = 0") (simp_all add: pending_def q)
  have ok: "fields_ok q []" using n z by (auto simp: fields_ok_def pen) (simp_all add: q unat_gt_0)
  have body: "v2_body flag cmd data = drop 3 ?h @ data" by (simp add: v2_body_def c(1) s(1) n_def [symmetric])
  show ?thesis
    using run_body [OF ok, of data False "crc8 (v2_body flag cmd data)" b] run f
      feed_run_append [of msp_feed mp_reply p ?h "data @ [b]"]
    by (auto simp: body pen)
qed

lemma run_reply:
  assumes "mp_state p = Idle" "length (mp_payload p) = 128" "well_formed r"
  shows "\<exists>q. msp_run p (reply_frame r) = (q, if retained r then [r] else []) \<and>
    mp_state q = Idle \<and> length (mp_payload q) = 128"
proof -
  obtain version flag cmd data where r: "r = (version, flag, cmd, data)" by (cases r)
  show ?thesis
  proof (cases "version = 1")
    case True
    then have f: "flag = 0" "unat cmd < 256" "length data < 256" using assms(3) r by auto
    have uc: "ucast (ucast cmd :: u8) = cmd"
      using f(2) by (intro word_eq_unat) (simp add: unsigned_ucast_eq unsigned_take_bit_eq take_bit_nat_eq_self)
    have "reply_frame r = [0x24, 0x4D, 0x3E] @ v1_body (ucast cmd) data @ [xor_sum (v1_body (ucast cmd) data)]"
      using True r by (simp add: v1_frame_def)
    with run_v1 [OF assms(1,2) f(3), of "ucast cmd" "xor_sum (v1_body (ucast cmd) data)", unfolded uc] True f(1) r
    show ?thesis by (cases "length data \<le> 128") (simp_all del: feed_run.simps)
  next
    case False
    then have f: "version = 2" "length data < 65536" using assms(3) r by auto
    have "reply_frame r = [0x24, 0x58, 0x3E] @ v2_body flag cmd data @ [crc8 (v2_body flag cmd data)]"
      using f(1) r by (simp add: v2_frame_def)
    with run_v2 [OF assms(1,2) f(2), of flag cmd "crc8 (v2_body flag cmd data)"] f(1) r
    show ?thesis by (cases "length data \<le> 128") (simp_all del: feed_run.simps)
  qed
qed

section \<open>Corrupted frames\<close>

lemma crc8_step_inject: "crc8_step a = crc8_step b \<longleftrightarrow> a = b"
proof
  assume eq: "crc8_step a = crc8_step b"
  have m: "x AND 0x80 \<noteq> 0 \<longleftrightarrow> bit x 7" for x :: u8
    using and_exp_eq_0_iff_not_bit [of x 7] by simp
  have step: "bit (crc8_step x) n \<longleftrightarrow> (bit x 7 \<and> bit (0xD5 :: u8) n) \<noteq> (0 < n \<and> bit x (n - 1))"
    if "n < 8" for x n
  proof -
    have "bit (push_bit 1 x) n \<longleftrightarrow> 0 < n \<and> bit x (n - 1)" using that unfolding bit_push_bit_iff by auto
    then show ?thesis unfolding crc8_step_def m by (simp only: bit_xor_iff split: if_split) blast
  qed
  have "bit (0xD5 :: u8) 0" by simp
  with step [of 0 a] step [of 0 b] eq have top: "bit a 7 \<longleftrightarrow> bit b 7" by simp
  show "a = b"
  proof (rule bit_word_eqI)
    fix n :: nat
    assume "n < LENGTH(8)"
    then have "n = 7 \<or> Suc n < 8" by auto
    then show "bit a n \<longleftrightarrow> bit b n"
      using step [of "Suc n" a] step [of "Suc n" b] eq top by auto
  qed
qed simp

lemma mspCrc8_inject: "mspCrc8DvbS2 c a = mspCrc8DvbS2 d b \<longleftrightarrow> c XOR a = d XOR b"
proof -
  have "(crc8_step ^^ n) x = (crc8_step ^^ n) y \<longleftrightarrow> x = y" for n x y
    by (induction n) (simp_all add: crc8_step_inject)
  then show ?thesis by (simp add: mspCrc8DvbS2_def)
qed

lemma xor_u8_cancel: "c XOR a = d XOR a \<longleftrightarrow> c = (d :: u8)" "c XOR a = c XOR b \<longleftrightarrow> a = (b :: u8)"
  by (metis xor.assoc xor.right_neutral xor_self_eq, metis xor.assoc xor.left_neutral xor_self_eq)

lemma fold_differs:
  assumes "\<And>a c d. f c a = f d a \<Longrightarrow> c = (d :: u8)" "f c x \<noteq> f c y"
  shows "foldl f c (x # zs) \<noteq> foldl f c (y # zs)"
proof -
  have "foldl f c zs = foldl f d zs \<Longrightarrow> c = d" for c d
    by (induction zs arbitrary: c d) (auto dest: assms(1))
  with assms(2) show ?thesis by auto
qed

lemma checksum_differs:
  assumes "i < length xs" "x \<noteq> xs ! i"
  shows "crc8 (xs[i := x]) \<noteq> crc8 xs" "xor_sum (xs[i := x]) \<noteq> xor_sum xs"
proof -
  have s: "xs = take i xs @ xs ! i # drop (Suc i) xs" using assms(1) by (simp add: id_take_nth_drop)
  have u: "xs[i := x] = take i xs @ x # drop (Suc i) xs" using assms(1) by (simp add: upd_conv_take_nth_drop)
  have "crc8 (take i xs @ x # drop (Suc i) xs) \<noteq> crc8 (take i xs @ xs ! i # drop (Suc i) xs)"
    unfolding crc8_def foldl_append
    by (rule fold_differs) (use assms(2) in \<open>simp_all add: mspCrc8_inject xor_u8_cancel\<close>)
  then show "crc8 (xs[i := x]) \<noteq> crc8 xs" unfolding u using s by metis
  have "xor_sum (take i xs @ x # drop (Suc i) xs) \<noteq> xor_sum (take i xs @ xs ! i # drop (Suc i) xs)"
    unfolding xor_sum_def foldl_append
    by (rule fold_differs) (use assms(2) in \<open>simp_all add: xor_u8_cancel\<close>)
  then show "xor_sum (xs[i := x]) \<noteq> xor_sum xs" unfolding u using s by metis
qed

text \<open>A frame with one byte of its flag, command, payload or checksum changed is not reported.\<close>

lemma v1_body_update:
  assumes "length data < 256" "0 < i" "i < length (v1_body cmd data)"
  shows "\<exists>cmd' data'. (v1_body cmd data)[i := x] = v1_body cmd' data' \<and> length data' = length data"
proof (cases "i = 1")
  case False
  then have "(v1_body cmd data)[i := x] = v1_body cmd (data[i - 2 := x])"
    using assms(2) by (cases i; cases "i - 1") (auto simp: v1_body_def)
  then show ?thesis by (metis length_list_update)
qed (auto simp: v1_body_def)

lemma v2_body_update:
  assumes "i < length (v2_body flag cmd data)" "i \<noteq> 3" "i \<noteq> 4"
  shows "\<exists>flag' cmd' data'. (v2_body flag cmd data)[i := x] = v2_body flag' cmd' data' \<and>
    length data' = length data"
proof -
  obtain lo hi where c: "put_u16 [] cmd = [lo, hi]" using put_u16_cells by metis
  obtain l h where s: "put_u16 [] (of_nat (length data)) = [l, h]" using put_u16_cells by metis
  have b: "v2_body flag cmd data = flag # lo # hi # l # h # data" by (simp add: v2_body_def c s)
  have e: "v2_body flag' (ucast lo' OR push_bit 8 (ucast hi')) data' = flag' # lo' # hi' # l # h # data'"
    if "length data' = length data" for flag' lo' hi' data'
    using that by (simp add: v2_body_def put_get_u16 s)
  consider "i = 0" | "i = 1" | "i = 2" | "5 \<le> i" using assms(2,3) by linarith
  then show ?thesis
  proof cases
    case 4
    then have "(v2_body flag cmd data)[i := x] = flag # lo # hi # l # h # data[i - 5 := x]"
      by (auto simp: b numeral_eq_Suc le_iff_add)
    with e [of "data[i - 5 := x]"] show ?thesis by (metis length_list_update)
  qed (use b e [OF refl] in \<open>simp_all, metis+\<close>)
qed

text \<open>The positions of the length bytes in a reply frame.\<close>

definition length_bytes :: "msp_reply \<Rightarrow> nat set" where
  "length_bytes r = (if fst r = 1 then {3} else {6, 7})"

lemma run_corrupted:
  assumes "mp_state p = Idle" "length (mp_payload p) = 128" "well_formed r"
    and "3 \<le> i" "i < length (reply_frame r)" "i \<notin> length_bytes r" "x \<noteq> reply_frame r ! i"
  shows "\<exists>q. msp_run p ((reply_frame r)[i := x]) = (q, []) \<and> mp_state q = Idle"
proof -
  obtain version flag cmd data where r: "r = (version, flag, cmd, data)" by (cases r)
  define v1 where "v1 \<longleftrightarrow> version = 1"
  define body where "body = (if v1 then v1_body (ucast cmd) data else v2_body flag cmd data)"
  define crc where "crc = (if v1 then xor_sum else crc8)"
  define hd3 :: byte_list where "hd3 = (if v1 then [0x24, 0x4D, 0x3E] else [0x24, 0x58, 0x3E])"
  have f: "reply_frame r = hd3 @ body @ [crc body]"
    by (simp add: r v1_def body_def crc_def hd3_def v1_frame_def v2_frame_def)
  have l3: "length hd3 = 3" by (simp add: hd3_def)
  have ld: "length data < 65536" "v1 \<Longrightarrow> length data < 256" using assms(3) by (auto simp: r v1_def)
  have refused: "\<exists>q. msp_run p (hd3 @ body' @ [b]) = (q, []) \<and> mp_state q = Idle"
    if "b \<noteq> crc body'" "body' = (if v1 then v1_body cmd' data' else v2_body flag' cmd'' data')"
      "length data' = length data" for b body' cmd' cmd'' flag' data'
  proof (cases v1)
    case True
    with run_v1 [OF assms(1,2), of data' cmd' b] ld(2) that show ?thesis
      by (auto simp: hd3_def crc_def simp del: feed_run.simps)
  next
    case False
    with run_v2 [OF assms(1,2), of data' flag' cmd'' b] ld(1) that show ?thesis
      by (auto simp: hd3_def crc_def simp del: feed_run.simps)
  qed
  show ?thesis
  proof (cases "i = length (reply_frame r) - 1")
    case True
    then have "(reply_frame r)[i := x] = hd3 @ body @ [x]" "x \<noteq> crc body"
      using assms(7) l3 by (simp_all add: f list_update_append nth_append)
    with refused [of x body "ucast cmd" data flag cmd] show ?thesis by (simp add: body_def)
  next
    case False
    define j where "j = i - 3"
    have j: "i = j + 3" "j < length body" using assms(4,5) False l3 by (simp_all add: j_def f)
    have u: "(reply_frame r)[i := x] = hd3 @ body[j := x] @ [crc body]" "x \<noteq> body ! j"
      using assms(7) j l3 by (simp_all add: f list_update_append nth_append)
    have ne: "crc body \<noteq> crc (body[j := x])"
      using checksum_differs [OF j(2) u(2)] by (simp add: crc_def)
    have "v1 \<Longrightarrow> j \<noteq> 0" "\<not> v1 \<Longrightarrow> j \<noteq> 3 \<and> j \<noteq> 4" using assms(6) j(1) by (auto simp: length_bytes_def v1_def r)
    then have "\<exists>flag' cmd' cmd'' data'. body[j := x] = (if v1 then v1_body cmd' data' else v2_body flag' cmd'' data') \<and>
        length data' = length data"
      using v1_body_update [OF ld(2), of j "ucast cmd" x] v2_body_update [of j flag cmd data x] j(2)
      by (cases v1) (auto simp: body_def)
    with refused [OF ne] show ?thesis unfolding u(1) by metis
  qed
qed

lemma parser_start: "mp_state MspParser = Idle" "length (mp_payload MspParser) = 128"
  by (simp_all add: MspParser_def)

definition msp_ready :: "msp_parser \<Rightarrow> bool" where
  "msp_ready p \<longleftrightarrow> mp_state p = Idle \<and> length (mp_payload p) = 128"

text \<open>Noise: any bytes without the three bytes that start a reply. They may well hold \<open>$\<close>, parts of
  such a start, or requests and error replies.\<close>

definition starts_reply :: "byte_list \<Rightarrow> bool" where
  "starts_reply bs \<longleftrightarrow> sublist [0x24, 0x4D, 0x3E] bs \<or> sublist [0x24, 0x58, 0x3E] bs"

text \<open>Between frames, after the noise \<open>h\<close>: the state says which part of a start the noise ends with.\<close>

definition msp_hunting :: "msp_parser \<Rightarrow> byte_list \<Rightarrow> bool" where
  "msp_hunting p h \<longleftrightarrow> length (mp_payload p) = 128 \<and>
     (mp_state p = Idle \<or> mp_state p = HdrM \<and> suffix [0x24] h \<or>
      mp_state p = V1Dir \<and> suffix [0x24, 0x4D] h \<or> mp_state p = V2Dir \<and> suffix [0x24, 0x58] h)"

lemma suffix_two: "suffix [a] h \<Longrightarrow> suffix [a, b] (h @ [b])"
  by (auto simp: suffix_def)

lemma suffix_three: "suffix [a, b] h \<Longrightarrow> sublist [a, b, c] (h @ [c])"
  by (auto simp: suffix_def)

lemma hunting_step:
  assumes "msp_hunting p h" "\<not> starts_reply (h @ [b])"
  shows "\<exists>q. msp_feed p b = (q, False) \<and> msp_hunting q (h @ [b])"
proof -
  have one: "suffix [b] (h @ [b])" by simp
  from assms(2) have n: "\<not> (suffix [0x24, 0x4D] h \<and> b = 0x3E)" "\<not> (suffix [0x24, 0x58] h \<and> b = 0x3E)"
    using suffix_three [of "0x24" "0x4D" h b] suffix_three [of "0x24" "0x58" h b] by (auto simp: starts_reply_def)
  from assms(1) consider "mp_state p = Idle" | "mp_state p = HdrM" "suffix [0x24] h"
    | "mp_state p = V1Dir" "suffix [0x24, 0x4D] h" | "mp_state p = V2Dir" "suffix [0x24, 0x58] h"
    by (auto simp: msp_hunting_def)
  then show ?thesis
    using assms(1) n one suffix_two [of "0x24" h b]
    by cases (auto simp: msp_feed_def msp_hunting_def)
qed

lemma hunting_run:
  "msp_hunting p h \<Longrightarrow> \<not> starts_reply (h @ g) \<Longrightarrow> \<exists>q. msp_run p g = (q, []) \<and> msp_hunting q (h @ g)"
proof (induction g arbitrary: p h)
  case (Cons b g)
  have "\<not> starts_reply (h @ [b])"
    using Cons.prems(2) sublist_order.order_trans [OF _ sublist_appendI [of "h @ [b]" "[]" g]]
    by (auto simp: starts_reply_def)
  from hunting_step [OF Cons.prems(1) this] obtain p1 where p1: "msp_feed p b = (p1, False)" "msp_hunting p1 (h @ [b])"
    by blast
  from Cons.IH [OF p1(2)] Cons.prems(2) p1(1) show ?case by auto
qed simp

text \<open>In each of these states the first byte of a frame starts it.\<close>

lemma hunting_frame:
  assumes "msp_hunting p h" "well_formed r"
  shows "\<exists>q. msp_run p (reply_frame r) = (q, if retained r then [r] else []) \<and> msp_ready q"
proof -
  obtain bs where f: "reply_frame r = 0x24 # bs"
    by (cases r) (cases "fst r = 1", simp_all add: v1_frame_def v2_frame_def)
  have "msp_feed p 0x24 = msp_feed (p\<lparr>mp_state := Idle\<rparr>) 0x24"
    using assms(1) by (auto simp: msp_hunting_def msp_feed_def)
  then have "msp_run p (reply_frame r) = msp_run (p\<lparr>mp_state := Idle\<rparr>) (reply_frame r)" by (simp add: f)
  with run_reply [of "p\<lparr>mp_state := Idle\<rparr>" r] assms show ?thesis by (simp add: msp_hunting_def msp_ready_def)
qed

interpretation msp: frame_parser msp_feed mp_reply msp_ready "\<lambda>p. \<exists>h. msp_hunting p h" "\<lambda>g. \<not> starts_reply g"
    "\<lambda>p h. \<exists>pl. msp_seen p pl h" reply_frame well_formed retained
proof unfold_locales
  fix p g assume "msp_ready p" "\<not> starts_reply g"
  then show "\<exists>q. msp_run p g = (q, []) \<and> (\<exists>h. msp_hunting q h)"
    using hunting_run [of p "[]" g] by (auto simp: msp_ready_def msp_hunting_def)
next
  fix p r assume "\<exists>h. msp_hunting p h" "well_formed r"
  then show "\<exists>q. msp_run p (reply_frame r) = (q, if retained r then [r] else []) \<and> msp_ready q"
    using hunting_frame by blast
next
  fix p h and b :: u8 assume "\<exists>pl. msp_seen p pl h"
  then show "\<exists>pl. msp_seen (fst (msp_feed p b)) pl (h @ [b])" using feed_seen by blast
next
  fix p h q and b :: u8 assume "\<exists>pl. msp_seen p pl h" "msp_feed p b = (q, True)"
  then show "suffix (reply_frame (mp_reply q)) (h @ [b]) \<and> well_formed (mp_reply q) \<and> retained (mp_reply q)"
    using accepted_frame by blast
qed

lemma msp_start: "msp_ready MspParser" "\<exists>pl. msp_seen MspParser pl []"
  using parser_start msp_seen_start by (auto simp: msp_ready_def)

section \<open>Properties\<close>

text \<open>C37: The parser hears exactly the replies: from a stream of well-formed reply frames of both
  versions, with any bytes between and after them that do not hold the three bytes that start a
  reply (\<open>$M>\<close> or \<open>$X>\<close>), it reports the frames with at most 128 bytes of payload, in order and with
  version, flag, command and payload as sent, and skips the longer ones whole. The noise may hold
  \<open>$\<close>, end with \<open>$M\<close> or be a request: the parser resynchronises on the next \<open>$\<close>.\<close>

theorem parser_hears_stream:
  assumes "\<forall>(noise, r) \<in> set items. \<not> starts_reply noise \<and> well_formed r" "\<not> starts_reply rest"
  shows "snd (msp_run MspParser (concat (map (\<lambda>(noise, r). noise @ reply_frame r) items) @ rest)) =
    filter retained (map snd items)"
  using msp.run_stream [OF msp_start(1) assms] by auto

theorem parser_hears_stream_witness:
  "snd (msp_run MspParser (concat (map (\<lambda>(noise, r). noise @ reply_frame r)
      [([1, 0x24, 0x4D, 0x3C, 0x24, 0x58], 1, 0, 106, [3, 12]), ([0x24, 0x24, 0x4D], 2, 0, 0x2003, [7]),
       ([0x4D], 1, 0, 5, replicate 200 0x24)]) @ [0x24, 0x4D])) =
     [(1, 0, 106, [3, 12]), (2, 0, 0x2003, [7])]"
  by (subst parser_hears_stream) (simp_all add: starts_reply_def sublist_Cons_right)

text \<open>The parser reports nothing but frames: whatever bytes arrive, every reply it reports
  stands in the stream as a well-formed frame with a right checksum, its payload fits the buffer,
  and no payload byte is ever stored outside the buffer.\<close>

theorem parser_reports_frames_only:
  assumes "r \<in> set (snd (msp_run MspParser bs))" "p = fst (msp_run MspParser bs')"
  shows "sublist (reply_frame r) bs \<and> well_formed r \<and> retained r \<and>
    (mp_state p \<in> {V1Payload, V2Payload} \<longrightarrow> mp_oversize p \<or> unat (mp_idx p) < length (mp_payload p))"
proof -
  obtain pl where "msp_seen p pl bs'" using msp.run_seen [OF msp_start(2), of bs'] assms(2) by auto
  then have "mp_state p \<in> {V1Payload, V2Payload} \<longrightarrow> mp_oversize p \<or> unat (mp_idx p) < length (mp_payload p)"
    by (auto simp: msp_seen_def fields_ok_def)
  with msp.reported_frames [OF msp_start(2) assms(1)] show ?thesis by simp
qed

theorem parser_reports_frames_only_witness:
  "(1, 0, 106, [3]) \<in> set (snd (msp_run MspParser (reply_frame (1, 0, 106, [3])))) \<and>
   sublist (reply_frame (1, 0, 106, [3])) (reply_frame (1, 0, 106, [3]))"
proof -
  have "snd (msp_run MspParser (reply_frame (1, 0, 106, [3]))) = [(1, 0, 106, [3])]"
    using run_reply [OF parser_start, of "(1, 0, 106, [3])"] by auto
  then have m: "(1, 0, 106, [3]) \<in> set (snd (msp_run MspParser (reply_frame (1, 0, 106, [3]))))" by simp
  with parser_reports_frames_only [OF m refl] show ?thesis by blast
qed

text \<open>One wrong byte is caught: a reply frame in which one byte of the flag, the command, the
  payload or the checksum has been replaced by another value is not reported, and leaves the
  parser ready for the next frame.\<close>

theorem parser_refuses_corrupted:
  assumes "well_formed r" "3 \<le> i" "i < length (reply_frame r)" "i \<notin> length_bytes r"
    and "x \<noteq> reply_frame r ! i"
  shows "\<exists>q. msp_run MspParser ((reply_frame r)[i := x]) = (q, []) \<and> mp_state q = Idle"
  by (rule run_corrupted [OF parser_start assms])

theorem parser_refuses_corrupted_witness:
  "\<exists>q. msp_run MspParser ((reply_frame (1, 0, 106, [3]))[5 := 4]) = (q, []) \<and> mp_state q = Idle"
  by (rule parser_refuses_corrupted) (simp_all add: length_bytes_def v1_frame_def v1_body_def)

end
