(* ===== verification/Msp_Fc.thy ===== *)
theory Msp_Fc
  imports Msp_Frame Peer_Table
begin

text \<open>
  MSP messages: the reply decoders, the flight mode map and the command payloads of
  lib/ff_core/msp_fc.h and msp_fc.cpp, and the radar position message of msp_radar.h and
  msp_radar.cpp. A decoder is \<open>None\<close> if it would read past the payload (none does), and
  otherwise \<open>Some None\<close> where the C++ function returns false.
\<close>

section \<open>Message ids and sizes\<close>

definition kMspFcVariant :: u8 where "kMspFcVariant = 2"
definition kMspFcVersion :: u8 where "kMspFcVersion = 3"
definition kMspStatus :: u8 where "kMspStatus = 101"
definition kMspRc :: u8 where "kMspRc = 105"
definition kMspRawGps :: u8 where "kMspRawGps = 106"
definition kMspAltitude :: u8 where "kMspAltitude = 109"
definition kMspBoxIds :: u8 where "kMspBoxIds = 119"
definition kMspSetWp :: u8 where "kMspSetWp = 209"
definition kMspSetHead :: u8 where "kMspSetHead = 211"
definition kMsp2InavStatus :: u16 where "kMsp2InavStatus = 0x2000"
definition kMsp2InavMixer :: u16 where "kMsp2InavMixer = 0x2010"
definition kMsp2InavSetGvar :: u16 where "kMsp2InavSetGvar = 0x2214"

definition kMspSetWpPayloadSize :: nat where [simp]: "kMspSetWpPayloadSize = 21"
definition kMspSetHeadPayloadSize :: nat where [simp]: "kMspSetHeadPayloadSize = 2"
definition kMspSetGvarPayloadSize :: nat where [simp]: "kMspSetGvarPayloadSize = 5"

section \<open>Reply decoders\<close>

record fc_raw_gps =
  rg_fix_type :: u8
  rg_num_sat :: u8
  rg_lat :: i32
  rg_lon :: i32
  rg_alt_m :: i16
  rg_speed_cms :: i16
  rg_course_ddeg :: i16
  rg_hdop :: u16

definition decodeRawGps :: "byte_list \<Rightarrow> fc_raw_gps option option" where
  "decodeRawGps p =
     (if length p < 18 then Some None
      else do {
        (fix_type, p) \<leftarrow> get_u8 p;
        (num_sat, p) \<leftarrow> get_u8 p;
        (lat, p) \<leftarrow> get_i32 p;
        (lon, p) \<leftarrow> get_i32 p;
        (alt_m, p) \<leftarrow> get_i16 p;
        (speed, p) \<leftarrow> get_i16 p;
        (course, p) \<leftarrow> get_i16 p;
        (hdop, p) \<leftarrow> get_u16 p;
        Some (Some \<lparr>rg_fix_type = fix_type, rg_num_sat = num_sat, rg_lat = lat, rg_lon = lon,
          rg_alt_m = alt_m, rg_speed_cms = speed, rg_course_ddeg = course, rg_hdop = hdop\<rparr>)
      })"

definition decodeAltitudeCm :: "byte_list \<Rightarrow> i32 option option" where
  "decodeAltitudeCm p =
     (if length p < 4 then Some None else do { (cm, p) \<leftarrow> get_i32 p; Some (Some cm) })"

fun rc_channels :: "nat \<Rightarrow> byte_list \<Rightarrow> u16 list option" where
  "rc_channels 0 p = Some []"
| "rc_channels (Suc n) p = do { (c, p) \<leftarrow> get_u16 p; cs \<leftarrow> rc_channels n p; Some (c # cs) }"

definition decodeRc :: "byte_list \<Rightarrow> nat \<Rightarrow> u16 list option" where
  "decodeRc p cap =
     (let n = length p div 2; n = (if n > cap then cap else n) in rc_channels n p)"

record fc_version =
  fv_major :: u8
  fv_minor :: u8
  fv_patch :: u8

definition decodeFcVersion :: "byte_list \<Rightarrow> fc_version option" where
  "decodeFcVersion p =
     (if length p < 3 then None
      else Some \<lparr>fv_major = p ! 0, fv_minor = p ! 1, fv_patch = p ! 2\<rparr>)"

definition decodeFcVariant :: "byte_list \<Rightarrow> byte_list option" where
  "decodeFcVariant p = (if length p < 4 then None else Some (map ((!) p) [0..<4] @ [0]))"

definition fcVariantIsInav :: "byte_list \<Rightarrow> bool" where
  "fcVariantIsInav v \<longleftrightarrow> v ! 0 = 0x49 \<and> v ! 1 = 0x4E \<and> v ! 2 = 0x41 \<and> v ! 3 = 0x56"

text \<open>\<open>FcPlatform\<close> is an enumeration over one byte; a cast into it keeps any value.\<close>

type_synonym fc_platform = u8

definition Multirotor :: fc_platform where "Multirotor = 0"
definition Airplane :: fc_platform where "Airplane = 1"
definition Helicopter :: fc_platform where "Helicopter = 2"
definition Tricopter :: fc_platform where "Tricopter = 3"
definition Rover :: fc_platform where "Rover = 4"
definition Boat :: fc_platform where "Boat = 5"
definition UnknownPlatform :: fc_platform where "UnknownPlatform = 0xFF"

definition decodeMixerPlatform :: "byte_list \<Rightarrow> fc_platform option" where
  "decodeMixerPlatform p = (if length p < 4 then None else Some (p ! 3))"

section \<open>Flight modes\<close>

definition kFcModeCount :: nat where [simp]: "kFcModeCount = 30"

definition kFcBoxPermanentIds :: "u8 list" where
  "kFcBoxPermanentIds =
     [0, 1, 2, 3, 5, 6, 7, 8, 10, 11, 12, 13, 15, 16, 19,
      20, 21, 22, 26, 27, 28, 29, 30, 31, 32, 33, 34, 35, 36, 37]"

definition statusModeFlags :: "byte_list \<Rightarrow> byte_list option" where
  "statusModeFlags p = (if length p < 10 then None else Some (take 4 (drop 6 p)))"

definition inavStatusModeFlags :: "byte_list \<Rightarrow> byte_list option" where
  "inavStatusModeFlags p =
     (if length p < 13 then None else Some (take (length p - 13) (drop 13 p)))"

definition inavStatusArmed :: "byte_list \<Rightarrow> bool option option" where
  "inavStatusArmed p =
     (if length p < 13 then Some None
      else do {
        (arming_flags, _) \<leftarrow> get_u32 (drop 9 p);
        Some (Some (arming_flags AND push_bit 2 1 \<noteq> 0))
      })"

text \<open>The inner loop sets the bit of the first mode with the permanent id, if there is one.\<close>

definition mode_bit :: "u8 \<Rightarrow> u32" where
  "mode_bit box =
     (case first_idx (\<lambda>perm. perm = box) kFcBoxPermanentIds of None \<Rightarrow> 0 | Some j \<Rightarrow> push_bit j 1)"

fun active_modes :: "byte_list \<Rightarrow> nat \<Rightarrow> byte_list \<Rightarrow> u32 \<Rightarrow> u32" where
  "active_modes flags i [] modes = modes"
| "active_modes flags i (box # boxes) modes =
     (if i div 8 \<ge> length flags then modes
      else if flags ! (i div 8) AND push_bit (i mod 8) 1 = 0 then active_modes flags (Suc i) boxes modes
      else active_modes flags (Suc i) boxes (modes OR mode_bit box))"

definition decodeActiveModes :: "byte_list \<Rightarrow> byte_list \<Rightarrow> u32" where
  "decodeActiveModes flags box_ids = active_modes flags 0 box_ids 0"

definition modeActive :: "u32 \<Rightarrow> nat \<Rightarrow> bool" where
  "modeActive modes m \<longleftrightarrow> drop_bit m modes AND 1 \<noteq> 0"

section \<open>Command payloads\<close>

definition encodeSetWp ::
  "u8 \<Rightarrow> u8 \<Rightarrow> i32 \<Rightarrow> i32 \<Rightarrow> i32 \<Rightarrow> i16 \<Rightarrow> i16 \<Rightarrow> i16 \<Rightarrow> u8 \<Rightarrow> nat \<Rightarrow> byte_list" where
  "encodeSetWp wp_number action lat lon alt_cm p1 p2 p3 flag cap =
     (if cap < kMspSetWpPayloadSize then []
      else
        let out = put_u8 [] wp_number;
            out = put_u8 out action;
            out = put_i32 out lat;
            out = put_i32 out lon;
            out = put_i32 out alt_cm;
            out = put_i16 out p1;
            out = put_i16 out p2;
            out = put_i16 out p3
        in put_u8 out flag)"

definition encodeSetHead :: "i16 \<Rightarrow> nat \<Rightarrow> byte_list" where
  "encodeSetHead heading_deg cap =
     (if cap < kMspSetHeadPayloadSize then [] else put_i16 [] heading_deg)"

definition encodeSetGvar :: "u8 \<Rightarrow> i32 \<Rightarrow> nat \<Rightarrow> byte_list" where
  "encodeSetGvar index value cap =
     (if cap < kMspSetGvarPayloadSize then [] else put_i32 (put_u8 [] index) value)"

section \<open>Radar positions\<close>

definition kMspSetRadarPos :: u16 where "kMspSetRadarPos = 0x100B"
definition kMspRadarFrameSize :: nat where [simp]: "kMspRadarFrameSize = 28"

definition estimateRadarLq :: "peer \<Rightarrow> u32 \<Rightarrow> u32 \<Rightarrow> u8" where
  "estimateRadarLq peer now_ms timeout_ms =
     (if timeout_ms = 0 then 0
      else
        let age = age_ms now_ms (pe_last_update_ms peer)
        in if age \<ge> timeout_ms then 0
           else
             let bucket = (age * 4) div timeout_ms;
                 bucket = (if bucket > 3 then 3 else bucket)
             in ucast (4 - bucket))"

definition radar_payload :: "u8 \<Rightarrow> peer \<Rightarrow> u32 \<Rightarrow> u32 \<Rightarrow> byte_list" where
  "radar_payload slot_id peer now_ms timeout_ms =
     (let p = put_u8 [] slot_id;
          p = put_u8 p (if pe_flags peer AND POSITION_FLAG_ARMED \<noteq> 0 then 1 else 0);
          p = put_i32 p (pe_lat peer);
          p = put_i32 p (pe_lon peer);
          p = put_i32 p (scast (pe_alt_m peer) * 100);
          p = put_u16 p (pe_course_ddeg peer div 10);
          p = put_u16 p (pe_speed_cms peer)
      in put_u8 p (estimateRadarLq peer now_ms timeout_ms))"

definition buildMspSetRadarPos :: "u8 \<Rightarrow> peer \<Rightarrow> u32 \<Rightarrow> u32 \<Rightarrow> nat \<Rightarrow> byte_list" where
  "buildMspSetRadarPos slot_id peer now_ms timeout_ms cap =
     (if cap < kMspRadarFrameSize then []
      else
        let payload = radar_payload slot_id peer now_ms timeout_ms;
            out = put_u8 [] 0x24;
            out = put_u8 out 0x58;
            out = put_u8 out 0x3C;
            out = put_u8 out 0;
            out = put_u16 out kMspSetRadarPos;
            out = put_u16 out 19;
            crc = mspCrc8DvbS2 0 0;
            crc = mspCrc8DvbS2 crc (ucast (kMspSetRadarPos AND 0xFF));
            crc = mspCrc8DvbS2 crc (ucast (drop_bit 8 kMspSetRadarPos));
            crc = mspCrc8DvbS2 crc 19;
            crc = mspCrc8DvbS2 crc 0;
            (out, crc) = foldl (\<lambda>(out, crc) b. (put_u8 out b, mspCrc8DvbS2 crc b)) (out, crc) payload
        in put_u8 out crc)"

section \<open>Lemmas\<close>

text \<open>The bytes of a raw GPS reply, as the flight controller sends them.\<close>

definition raw_gps_bytes :: "fc_raw_gps \<Rightarrow> byte_list" where
  "raw_gps_bytes g = put_u8 [] (rg_fix_type g) @ put_u8 [] (rg_num_sat g) @ put_i32 [] (rg_lat g) @
     put_i32 [] (rg_lon g) @ put_i16 [] (rg_alt_m g) @ put_i16 [] (rg_speed_cms g) @
     put_i16 [] (rg_course_ddeg g) @ put_u16 [] (rg_hdop g)"

lemma length_raw_gps_bytes: "length (raw_gps_bytes g) = 18"
  by (simp add: raw_gps_bytes_def)

lemma decodeRawGps_bytes: "decodeRawGps (raw_gps_bytes g @ rest) = Some (Some g)"
  using length_raw_gps_bytes [of g] unfolding decodeRawGps_def
  by (simp add: raw_gps_bytes_def wire_simps)

lemma decodeRawGps_split:
  assumes "18 \<le> length p"
  obtains g rest where "p = raw_gps_bytes g @ rest"
proof -
  note a = get_at [of _ p]
  obtain v0 where v0: "get_u8 p = Some (v0, drop 1 p)" using a(1) [of 0] assms by auto
  obtain v1 where v1: "get_u8 (drop 1 p) = Some (v1, drop 2 p)"
    using a(1) [of 1] assms by (auto simp: numeral_eq_Suc)
  obtain v2 where v2: "get_i32 (drop 2 p) = Some (v2, drop 6 p)" using a(5) [of 2] assms by auto
  obtain v3 where v3: "get_i32 (drop 6 p) = Some (v3, drop 10 p)" using a(5) [of 6] assms by auto
  obtain v4 where v4: "get_i16 (drop 10 p) = Some (v4, drop 12 p)" using a(3) [of 10] assms by auto
  obtain v5 where v5: "get_i16 (drop 12 p) = Some (v5, drop 14 p)" using a(3) [of 12] assms by auto
  obtain v6 where v6: "get_i16 (drop 14 p) = Some (v6, drop 16 p)" using a(3) [of 14] assms by auto
  obtain v7 where v7: "get_u16 (drop 16 p) = Some (v7, drop 18 p)" using a(2) [of 16] assms by auto
  have "p = raw_gps_bytes \<lparr>rg_fix_type = v0, rg_num_sat = v1, rg_lat = v2, rg_lon = v3,
      rg_alt_m = v4, rg_speed_cms = v5, rg_course_ddeg = v6, rg_hdop = v7\<rparr> @ drop 18 p"
    unfolding raw_gps_bytes_def fc_raw_gps.select_convs append_assoc
      get_u16_SomeD [OF v7, symmetric] get_i16_SomeD [OF v6, symmetric] get_i16_SomeD [OF v5, symmetric]
      get_i16_SomeD [OF v4, symmetric] get_i32_SomeD [OF v3, symmetric] get_i32_SomeD [OF v2, symmetric]
      get_u8_SomeD [OF v1, symmetric] get_u8_SomeD [OF v0, symmetric] ..
  then show ?thesis by (rule that)
qed

lemma rc_channels_some:
  "2 * n \<le> length p \<Longrightarrow> \<exists>cs. rc_channels n p = Some cs \<and> length cs = n \<and>
    concat (map (put_u16 []) cs) = take (2 * n) p"
proof (induction n arbitrary: p)
  case (Suc n)
  then obtain v where v: "get_u16 p = Some (v, drop 2 p)" using get_u16_SomeI [of p] by auto
  obtain cs where cs: "rc_channels n (drop 2 p) = Some cs" "length cs = n"
    "concat (map (put_u16 []) cs) = take (2 * n) (drop 2 p)"
    using Suc.IH [of "drop 2 p"] Suc.prems by (force simp del: drop_drop)
  have "p = put_u16 [] v @ drop 2 p" using get_u16_SomeD [OF v] .
  then have "take (2 + 2 * n) p = put_u16 [] v @ take (2 * n) (drop 2 p)"
    by (metis length_put(2) list.size(3) plus_nat.add_0 take_add append_eq_conv_conj)
  with v cs show ?case by (simp add: take_add)
qed simp

lemma decodeRc_some:
  "\<exists>cs. decodeRc p cap = Some cs \<and> length cs = min (length p div 2) cap \<and>
    concat (map (put_u16 []) cs) = take (2 * length cs) p"
proof -
  let ?n = "min (length p div 2) cap"
  have "2 * ?n \<le> length p" by (simp add: min_def) linarith
  from rc_channels_some [OF this] show ?thesis by (auto simp: decodeRc_def Let_def min_def not_le)
qed

text \<open>Each permanent id belongs to one mode.\<close>

lemma permanent_ids: "length kFcBoxPermanentIds = 30" "distinct kFcBoxPermanentIds"
  by (simp_all add: kFcBoxPermanentIds_def)

lemma mode_bit_iff:
  assumes "j < 32"
  shows "bit (mode_bit box) j \<longleftrightarrow> j < 30 \<and> kFcBoxPermanentIds ! j = box"
proof (cases "first_idx (\<lambda>perm. perm = box) kFcBoxPermanentIds")
  case None
  then have "\<not> (j < 30 \<and> kFcBoxPermanentIds ! j = box)" using permanent_ids(1) by auto
  with None show ?thesis by (simp add: mode_bit_def del: first_idx_None)
next
  case (Some k)
  then have k: "k < 30" "kFcBoxPermanentIds ! k = box"
    using first_idx_SomeD [OF Some] permanent_ids(1) by auto
  have "bit (push_bit k (1 :: u32)) j \<longleftrightarrow> j = k"
    using assms k(1) by (auto simp: bit_exp_iff)
  with Some k show ?thesis
    using nth_eq_iff_index_eq [OF permanent_ids(2), of j k] permanent_ids(1) by (auto simp: mode_bit_def)
qed

lemma and_bit_u8: "n < 8 \<Longrightarrow> (w :: u8) AND 2 ^ n = 0 \<longleftrightarrow> \<not> bit w n"
  by (simp add: and_exp_eq_0_iff_not_bit)

lemma active_modes_bit:
  assumes "j < 32"
  shows "bit (active_modes flags i boxes modes) j \<longleftrightarrow> bit modes j \<or>
    (\<exists>k < length boxes. (i + k) div 8 < length flags \<and> bit (flags ! ((i + k) div 8)) ((i + k) mod 8) \<and>
       j < 30 \<and> kFcBoxPermanentIds ! j = boxes ! k)"
proof (induction flags i boxes modes rule: active_modes.induct)
  case (2 flags i box boxes modes)
  let ?P = "\<lambda>i boxes k. (i + k) div 8 < length flags \<and> bit (flags ! ((i + k) div 8)) ((i + k) mod 8) \<and>
       j < 30 \<and> kFcBoxPermanentIds ! j = boxes ! k"
  have split: "(\<exists>k < length (box # boxes). ?P i (box # boxes) k) \<longleftrightarrow>
      ?P i (box # boxes) 0 \<or> (\<exists>k < length boxes. ?P (Suc i) boxes k)"
    by (auto simp: less_Suc_eq_0_disj)
  consider "length flags \<le> i div 8" | "i div 8 < length flags" "\<not> bit (flags ! (i div 8)) (i mod 8)"
    | "i div 8 < length flags" "bit (flags ! (i div 8)) (i mod 8)" by linarith
  then show ?case
  proof cases
    case 1
    then have "\<not> (i + k) div 8 < length flags" for k
      using div_le_mono [of i "i + k" 8] by auto
    with 1 show ?thesis by simp
  next
    case 2
    then show ?thesis unfolding split using "2.IH"(1) by (simp add: and_bit_u8)
  next
    case 3
    then show ?thesis unfolding split using "2.IH"(2) mode_bit_iff [OF assms, of box]
      by (auto simp: and_bit_u8 bit_or_iff)
  qed
qed simp

lemma modeActive_iff_bit: "modeActive modes m \<longleftrightarrow> bit modes m"
  by (simp add: modeActive_def and_one_eq bit_iff_odd_drop_bit odd_iff_mod_2_eq_one)

lemma unat_estimateRadarLq:
  assumes "unat timeout \<le> 2 ^ 30"
  shows "unat (estimateRadarLq peer now timeout) =
    (let age = unat (age_ms now (pe_last_update_ms peer))
     in if age < unat timeout then 4 - 4 * age div unat timeout else 0)"
proof (cases "age_ms now (pe_last_update_ms peer) < timeout")
  case True
  define age where "age = age_ms now (pe_last_update_ms peer)"
  have a: "unat age < unat timeout" using True by (simp add: age_def word_less_nat_alt)
  then have t0: "timeout \<noteq> 0" by auto
  have m: "unat (age * 4) = 4 * unat age" using a assms by (simp add: unat_word_ariths)
  have q: "unat (age * 4 div timeout) = 4 * unat age div unat timeout" by (simp add: unat_div_distrib m)
  have lt: "4 * unat age div unat timeout < 4"
    using a by (metis div_less_iff_less_mult mult.commute nat_mult_less_cancel_disj not_gr0 not_less0 zero_less_numeral)
  define b where "b = age * 4 div timeout"
  have b: "unat b < 4" using lt q by (simp add: b_def)
  have nb: "\<not> b > 3" using b by (simp add: word_less_nat_alt)
  have "unat (4 - b) = 4 - unat b" using b by (simp add: unat_sub_if')
  moreover have "estimateRadarLq peer now timeout = ucast (4 - b)"
    using True t0 nb by (simp add: estimateRadarLq_def Let_def b_def age_def flip: not_less)
  moreover have "unat (ucast (4 - b) :: u8) = unat (4 - b)"
    using calculation(1) by (simp add: unsigned_ucast_eq take_bit_nat_eq_self)
  ultimately show ?thesis using True q by (simp add: Let_def word_less_nat_alt b_def age_def)
next
  case False
  then show ?thesis by (simp add: estimateRadarLq_def Let_def not_less word_le_nat_alt)
qed

lemma length_radar_payload: "length (radar_payload slot peer now timeout) = 19"
  by (simp add: radar_payload_def Let_def)

lemma radar_is_v2: "buildMspSetRadarPos slot peer now timeout cap =
    buildMspV2 kMspSetRadarPos (radar_payload slot peer now timeout) cap"
  by (simp add: buildMspSetRadarPos_def buildMspV2_def length_radar_payload Let_def)

section \<open>Properties\<close>

text \<open>A position reply is read exactly: the decoder never reads past a payload, succeeds on
  18 bytes or more, and its result is the one record whose encoding the payload starts with; the
  channel decoder gives, up to its capacity, every complete pair of bytes.\<close>

theorem fc_replies_decoded:
  "(decodeRawGps p = Some (Some g) \<longleftrightarrow> (\<exists>rest. p = raw_gps_bytes g @ rest)) \<and>
   (decodeRawGps p = Some None \<longleftrightarrow> length p < 18) \<and> decodeRawGps p \<noteq> None \<and>
   (\<exists>cs. decodeRc p cap = Some cs \<and> length cs = min (length p div 2) cap \<and>
     concat (map (put_u16 []) cs) = take (2 * length cs) p)"
proof -
  have short: "decodeRawGps p = Some None" if "length p < 18" using that by (simp add: decodeRawGps_def)
  have long: "\<exists>g rest. p = raw_gps_bytes g @ rest \<and> decodeRawGps p = Some (Some g)" if "18 \<le> length p"
    using decodeRawGps_split [OF that] decodeRawGps_bytes by metis
  have total: "decodeRawGps p \<noteq> None" "decodeRawGps p = Some None \<longleftrightarrow> length p < 18"
    using short long by (cases "length p < 18"; force)+
  have exact: "decodeRawGps p = Some (Some g) \<longleftrightarrow> (\<exists>rest. p = raw_gps_bytes g @ rest)"
  proof
    assume d: "decodeRawGps p = Some (Some g)"
    then have "18 \<le> length p" using short by (cases "length p < 18") auto
    from long [OF this] d show "\<exists>rest. p = raw_gps_bytes g @ rest" by auto
  qed (auto simp: decodeRawGps_bytes)
  show ?thesis using exact total decodeRc_some [of p cap] by (intro conjI)
qed

text \<open>Active modes are read as the flight controller means them: mode \<open>j\<close> is active exactly
  when some position of the box list carries its permanent id and the bit of that position is set
  in the flag bytes that were received; positions past the flags count as off.\<close>

theorem active_modes_spec:
  assumes "j < 32"
  shows "modeActive (decodeActiveModes flags boxes) j \<longleftrightarrow>
    (\<exists>i < length boxes. i div 8 < length flags \<and> bit (flags ! (i div 8)) (i mod 8) \<and>
       j < kFcModeCount \<and> kFcBoxPermanentIds ! j = boxes ! i)"
  unfolding modeActive_iff_bit decodeActiveModes_def active_modes_bit [OF assms] by simp

theorem active_modes_spec_witness:
  "modeActive (decodeActiveModes [0x05] [0, 1, 27, 11]) 0 \<and> modeActive (decodeActiveModes [0x05] [0, 1, 27, 11]) 19"
proof
  show "modeActive (decodeActiveModes [0x05] [0, 1, 27, 11]) 0"
    by (rule active_modes_spec [THEN iffD2], simp, rule exI [of _ 0]) (simp add: kFcBoxPermanentIds_def)
  show "modeActive (decodeActiveModes [0x05] [0, 1, 27, 11]) 19"
    by (rule active_modes_spec [THEN iffD2], simp, rule exI [of _ 2]) (simp add: kFcBoxPermanentIds_def)
qed

text \<open>A radar message is an MSP v2 frame of 28 bytes around the peer's payload, and, for a
  timeout below \<open>2 ^ 30\<close> ms, its link quality is 4 in the first quarter of the timeout, one less in
  each further quarter, 0 from the timeout on, across the wrap of the clock.\<close>

theorem radar_message_spec:
  assumes "unat timeout \<le> 2 ^ 30" "kMspRadarFrameSize \<le> cap"
  shows "buildMspSetRadarPos slot peer now timeout cap =
      v2_frame 0x3C 0 kMspSetRadarPos (radar_payload slot peer now timeout) \<and>
    length (buildMspSetRadarPos slot peer now timeout cap) = kMspRadarFrameSize \<and>
    unat (last (radar_payload slot peer now timeout)) =
      (let age = unat (age_ms now (pe_last_update_ms peer))
       in if age < unat timeout then 4 - 4 * age div unat timeout else 0)"
proof (intro conjI)
  show f: "buildMspSetRadarPos slot peer now timeout cap =
      v2_frame 0x3C 0 kMspSetRadarPos (radar_payload slot peer now timeout)"
    unfolding radar_is_v2 buildMspV2_frame length_radar_payload using assms(2) by simp
  show "length (buildMspSetRadarPos slot peer now timeout cap) = kMspRadarFrameSize"
    unfolding f v2_frame_def v2_body_def by (simp add: length_radar_payload)
  show "unat (last (radar_payload slot peer now timeout)) =
      (let age = unat (age_ms now (pe_last_update_ms peer))
       in if age < unat timeout then 4 - 4 * age div unat timeout else 0)"
    unfolding unat_estimateRadarLq [OF assms(1), symmetric] by (simp add: radar_payload_def Let_def put_u8_def)
qed

theorem radar_message_spec_witness:
  "unat (last (radar_payload 1 (blank_peer\<lparr>pe_last_update_ms := 4294967000\<rparr>) 2204 6000)) = 3"
  using radar_message_spec [of 6000 28 1 "blank_peer\<lparr>pe_last_update_ms := 4294967000\<rparr>" 2204]
  by (simp add: age_ms_def Let_def)

end
