(* ===== verification/Ubx.thy ===== *)
theory Ubx
  imports Msp_Frame
begin

text \<open>
  lib/ff_core/ubx.h and ubx.cpp: the parser of the u-blox binary protocol, the decoders of its
  navigation messages and the builders of its configuration messages. As for MSP, a decoder is
  \<open>None\<close> if it would read past the payload and \<open>Some None\<close> where the C++ function returns false.
\<close>

section \<open>Constants\<close>

definition kUbxClassNav :: u8 where "kUbxClassNav = 0x01"
definition kUbxIdNavPvt :: u8 where "kUbxIdNavPvt = 0x07"
definition kUbxIdNavPosllh :: u8 where "kUbxIdNavPosllh = 0x02"
definition kUbxIdNavSol :: u8 where "kUbxIdNavSol = 0x06"
definition kUbxIdNavVelned :: u8 where "kUbxIdNavVelned = 0x12"
definition kUbxIdNavDop :: u8 where "kUbxIdNavDop = 0x04"
definition kUbxClassAck :: u8 where "kUbxClassAck = 0x05"
definition kUbxIdAckNak :: u8 where "kUbxIdAckNak = 0x00"
definition kUbxIdAckAck :: u8 where "kUbxIdAckAck = 0x01"
definition kUbxClassCfg :: u8 where "kUbxClassCfg = 0x06"
definition kUbxIdCfgPrt :: u8 where "kUbxIdCfgPrt = 0x00"
definition kUbxIdCfgMsg :: u8 where "kUbxIdCfgMsg = 0x01"
definition kUbxIdCfgRate :: u8 where "kUbxIdCfgRate = 0x08"
definition kUbxClassNmea :: u8 where "kUbxClassNmea = 0xF0"
definition kUbxMaxPayload :: nat where [simp]: "kUbxMaxPayload = 128"

section \<open>Checksum and parser\<close>

text \<open>Both running sums take one byte; \<open>ubxChecksum\<close> starts them at zero.\<close>

definition ck_step :: "u8 \<times> u8 \<Rightarrow> u8 \<Rightarrow> u8 \<times> u8" where
  "ck_step ck d = (let a = fst ck + d in (a, snd ck + a))"

definition ubxChecksum :: "byte_list \<Rightarrow> u8 \<times> u8" where
  "ubxChecksum data = foldl ck_step (0, 0) data"

datatype ubx_state = Sync1 | Sync2 | UClass | UId | LenLo | LenHi | UPayload | CkA | CkB

record ubx_parser =
  ub_state :: ubx_state
  ub_class :: u8
  ub_id :: u8
  ub_len :: u16
  ub_idx :: u16
  ub_ck_a :: u8
  ub_ck_b :: u8
  ub_rx_ck_a :: u8
  ub_oversize :: bool
  ub_payload :: byte_list

definition UbxParser :: ubx_parser where
  "UbxParser = \<lparr>ub_state = Sync1, ub_class = 0, ub_id = 0, ub_len = 0, ub_idx = 0, ub_ck_a = 0,
     ub_ck_b = 0, ub_rx_ck_a = 0, ub_oversize = False, ub_payload = replicate kUbxMaxPayload 0\<rparr>"

definition ubx_reset :: "ubx_parser \<Rightarrow> ubx_parser" where
  "ubx_reset p = p\<lparr>ub_state := Sync1, ub_idx := 0, ub_oversize := False\<rparr>"

text \<open>The two checksum assignments of the states from \<open>Id\<close> to \<open>Payload\<close>.\<close>

definition ubx_sum :: "ubx_parser \<Rightarrow> u8 \<Rightarrow> ubx_parser" where
  "ubx_sum p b =
     (let p = p\<lparr>ub_ck_a := ub_ck_a p + b\<rparr> in p\<lparr>ub_ck_b := ub_ck_b p + ub_ck_a p\<rparr>)"

definition ubx_feed :: "ubx_parser \<Rightarrow> u8 \<Rightarrow> ubx_parser \<times> bool" where
  "ubx_feed p b =
     (case ub_state p of
        Sync1 \<Rightarrow> (if b = 0xB5 then p\<lparr>ub_state := Sync2\<rparr> else p, False)
      | Sync2 \<Rightarrow>
          (p\<lparr>ub_state := (if b = 0x62 then UClass else if b = 0xB5 then Sync2 else Sync1)\<rparr>, False)
      | UClass \<Rightarrow> (p\<lparr>ub_class := b, ub_ck_a := b, ub_ck_b := b, ub_state := UId\<rparr>, False)
      | UId \<Rightarrow> ((ubx_sum (p\<lparr>ub_id := b\<rparr>) b)\<lparr>ub_state := LenLo\<rparr>, False)
      | LenLo \<Rightarrow> ((ubx_sum (p\<lparr>ub_len := ucast b\<rparr>) b)\<lparr>ub_state := LenHi\<rparr>, False)
      | LenHi \<Rightarrow>
          (let len = ub_len p OR push_bit 8 (ucast b);
               p = ubx_sum (p\<lparr>ub_len := len\<rparr>) b
           in (p\<lparr>ub_idx := 0, ub_oversize := unat len > kUbxMaxPayload,
                 ub_state := (if len = 0 then CkA else UPayload)\<rparr>, False))
      | UPayload \<Rightarrow>
          (let p = ubx_sum p b;
               p = (if \<not> ub_oversize p then p\<lparr>ub_payload := (ub_payload p)[unat (ub_idx p) := b]\<rparr> else p);
               p = p\<lparr>ub_idx := ub_idx p + 1\<rparr>
           in (if ub_idx p \<ge> ub_len p then p\<lparr>ub_state := CkA\<rparr> else p, False))
      | CkA \<Rightarrow> (p\<lparr>ub_rx_ck_a := b, ub_state := CkB\<rparr>, False)
      | CkB \<Rightarrow> (p\<lparr>ub_state := Sync1\<rparr>,
                ub_rx_ck_a p = ub_ck_a p \<and> b = ub_ck_b p \<and> \<not> ub_oversize p))"

text \<open>What a caller reads after a complete frame: class, id and payload.\<close>

type_synonym ubx_message = "u8 \<times> u8 \<times> byte_list"

definition ub_message :: "ubx_parser \<Rightarrow> ubx_message" where
  "ub_message p = (ub_class p, ub_id p, take (unat (ub_len p)) (ub_payload p))"

abbreviation ubx_run :: "ubx_parser \<Rightarrow> byte_list \<Rightarrow> ubx_parser \<times> ubx_message list" where
  "ubx_run \<equiv> feed_run ubx_feed ub_message"

section \<open>Decoders\<close>

definition readI32 :: "byte_list \<Rightarrow> nat \<Rightarrow> i32 option" where
  "readI32 p off = map_option fst (get_i32 (drop off p))"

definition readU16 :: "byte_list \<Rightarrow> nat \<Rightarrow> u16 option" where
  "readU16 p off = map_option fst (get_u16 (drop off p))"

definition readU8 :: "byte_list \<Rightarrow> nat \<Rightarrow> u8 option" where
  "readU8 p off = (if off < length p then Some (p ! off) else None)"

text \<open>Division in C++ rounds toward zero, and the remainder has the sign of the dividend.\<close>

definition normaliseCourseDdeg :: "int \<Rightarrow> u16" where
  "normaliseCourseDdeg ddeg =
     (let ddeg = ddeg smod 3600; ddeg = (if ddeg < 0 then ddeg + 3600 else ddeg) in of_int ddeg)"

record ubx_fix =
  uf_valid :: bool
  uf_fix_type :: u8
  uf_num_sat :: u8
  uf_lat :: i32
  uf_lon :: i32
  uf_alt_m :: i16
  uf_speed_cms :: u16
  uf_course_ddeg :: u16

record ubx_pos_llh =
  up_lat :: i32
  up_lon :: i32
  up_alt_m :: i16

record ubx_sol =
  us_valid :: bool
  us_fix_type :: u8
  us_num_sat :: u8

record ubx_vel_ned =
  uv_speed_cms :: u16
  uv_course_ddeg :: u16

definition decodeNavPvt :: "byte_list \<Rightarrow> ubx_fix option option" where
  "decodeNavPvt p =
     (if length p < 92 then Some None
      else do {
        fix_type \<leftarrow> readU8 p 20;
        flags \<leftarrow> readU8 p 21;
        num_sat \<leftarrow> readU8 p 23;
        lon \<leftarrow> readI32 p 24;
        lat \<leftarrow> readI32 p 28;
        hmsl \<leftarrow> readI32 p 36;
        gspeed \<leftarrow> readI32 p 60;
        heading \<leftarrow> readI32 p 64;
        let gnss_ok = (flags AND 0x01 \<noteq> 0);
        Some (Some \<lparr>uf_valid = (gnss_ok \<and> (fix_type = 2 \<or> fix_type = 3)),
          uf_fix_type = (if gnss_ok then fix_type else 0), uf_num_sat = num_sat,
          uf_lat = lat, uf_lon = lon, uf_alt_m = of_int (sint hmsl sdiv 1000),
          uf_speed_cms = of_int (sint gspeed sdiv 10),
          uf_course_ddeg = normaliseCourseDdeg (sint heading sdiv 10000)\<rparr>)
      })"

definition decodeNavPosllh :: "byte_list \<Rightarrow> ubx_pos_llh option option" where
  "decodeNavPosllh p =
     (if length p < 28 then Some None
      else do {
        lon \<leftarrow> readI32 p 4;
        lat \<leftarrow> readI32 p 8;
        hmsl \<leftarrow> readI32 p 16;
        Some (Some \<lparr>up_lat = lat, up_lon = lon, up_alt_m = of_int (sint hmsl sdiv 1000)\<rparr>)
      })"

definition decodeNavSol :: "byte_list \<Rightarrow> ubx_sol option option" where
  "decodeNavSol p =
     (if length p < 52 then Some None
      else do {
        fix_type \<leftarrow> readU8 p 10;
        flags \<leftarrow> readU8 p 11;
        num_sat \<leftarrow> readU8 p 47;
        let ok = (flags AND 0x01 \<noteq> 0);
        Some (Some \<lparr>us_valid = (ok \<and> (fix_type = 2 \<or> fix_type = 3)),
          us_fix_type = (if ok then fix_type else 0), us_num_sat = num_sat\<rparr>)
      })"

definition decodeNavVelned :: "byte_list \<Rightarrow> ubx_vel_ned option option" where
  "decodeNavVelned p =
     (if length p < 36 then Some None
      else do {
        gspeed \<leftarrow> readI32 p 20;
        heading \<leftarrow> readI32 p 24;
        Some (Some \<lparr>uv_speed_cms = (if sint gspeed < 0 then 0 else of_int (sint gspeed)),
          uv_course_ddeg = normaliseCourseDdeg (sint heading sdiv 10000)\<rparr>)
      })"

definition decodeNavDop :: "byte_list \<Rightarrow> u16 option option" where
  "decodeNavDop p =
     (if length p < 18 then Some None else do { hdop \<leftarrow> readU16 p 12; Some (Some hdop) })"

definition decodeAck :: "byte_list \<Rightarrow> (u8 \<times> u8) option" where
  "decodeAck p = (if length p < 2 then None else Some (p ! 0, p ! 1))"

section \<open>Builders\<close>

definition finishFrame :: "u8 \<Rightarrow> u8 \<Rightarrow> byte_list \<Rightarrow> byte_list" where
  "finishFrame cls mid payload =
     (let len = length payload;
          buf = [0xB5, 0x62, cls, mid, of_nat (len mod 256), of_nat (len div 256)] @ payload;
          (ck_a, ck_b) = ubxChecksum (take (4 + len) (drop 2 buf))
      in buf @ [ck_a, ck_b])"

definition buildCfgMsg :: "u8 \<Rightarrow> u8 \<Rightarrow> u8 \<Rightarrow> nat \<Rightarrow> byte_list" where
  "buildCfgMsg msg_class msg_id rate cap =
     (if cap < 8 + 3 then [] else finishFrame kUbxClassCfg kUbxIdCfgMsg [msg_class, msg_id, rate])"

definition buildCfgRate :: "u16 \<Rightarrow> nat \<Rightarrow> byte_list" where
  "buildCfgRate meas_ms cap =
     (if cap < 8 + 6 then []
      else finishFrame kUbxClassCfg kUbxIdCfgRate
        [ucast (meas_ms AND 0xFF), ucast (drop_bit 8 meas_ms), 0x01, 0x00, 0x01, 0x00])"

definition buildCfgPrtUart :: "u32 \<Rightarrow> nat \<Rightarrow> byte_list" where
  "buildCfgPrtUart baud cap =
     (if cap < 8 + 20 then []
      else
        let pl = replicate 20 0;
            pl = pl[0 := 0x01, 4 := 0xD0, 5 := 0x08];
            pl = pl[8 := ucast (baud AND 0xFF), 9 := ucast (drop_bit 8 baud AND 0xFF),
                    10 := ucast (drop_bit 16 baud AND 0xFF), 11 := ucast (drop_bit 24 baud AND 0xFF)];
            pl = pl[12 := 0x03, 14 := 0x01]
        in finishFrame kUbxClassCfg kUbxIdCfgPrt pl)"

fun legacy_messages :: "u8 list \<Rightarrow> byte_list \<Rightarrow> nat \<Rightarrow> byte_list" where
  "legacy_messages [] buf cap = buf"
| "legacy_messages (mid # mids) buf cap =
     (let f = buildCfgMsg kUbxClassNav mid 1 (cap - length buf)
      in if length f = 0 then [] else legacy_messages mids (buf @ f) cap)"

definition buildLegacyNavConfig :: "nat \<Rightarrow> byte_list" where
  "buildLegacyNavConfig cap =
     legacy_messages [kUbxIdNavPosllh, kUbxIdNavSol, kUbxIdNavVelned, kUbxIdNavDop] [] cap"

section \<open>What the parser has seen\<close>

text \<open>The bytes of the current frame that bring the parser into a state.\<close>

definition ubx_pending :: "ubx_parser \<Rightarrow> byte_list \<Rightarrow> byte_list" where
  "ubx_pending p pl =
     (let c = [0xB5, 0x62, ub_class p]; i = c @ [ub_id p]; l = i @ put_u16 [] (ub_len p)
      in case ub_state p of
        Sync1 \<Rightarrow> []
      | Sync2 \<Rightarrow> [0xB5]
      | UClass \<Rightarrow> [0xB5, 0x62]
      | UId \<Rightarrow> c
      | LenLo \<Rightarrow> i
      | LenHi \<Rightarrow> i @ [ucast (ub_len p)]
      | UPayload \<Rightarrow> l @ pl
      | CkA \<Rightarrow> l @ pl
      | CkB \<Rightarrow> l @ pl @ [ub_rx_ck_a p])"

text \<open>The checksum over them, and the fields that are set at that point.\<close>

definition ubx_fields :: "ubx_parser \<Rightarrow> byte_list \<Rightarrow> bool" where
  "ubx_fields p pl =
     (let ck = (\<lambda>bs. (ub_ck_a p, ub_ck_b p) = ubxChecksum bs);
          body = [ub_class p, ub_id p] @ put_u16 [] (ub_len p) @ pl;
          big = (ub_oversize p \<longleftrightarrow> unat (ub_len p) > 128);
          got = (length pl = unat (ub_idx p) \<and> (\<not> ub_oversize p \<longrightarrow> take (length pl) (ub_payload p) = pl))
      in case ub_state p of
        UId \<Rightarrow> ck [ub_class p]
      | LenLo \<Rightarrow> ck [ub_class p, ub_id p]
      | LenHi \<Rightarrow> ck [ub_class p, ub_id p, ucast (ub_len p)] \<and> unat (ub_len p) < 256
      | UPayload \<Rightarrow> ck body \<and> big \<and> got \<and> length pl < unat (ub_len p)
      | CkA \<Rightarrow> ck body \<and> big \<and> got \<and> length pl = unat (ub_len p)
      | CkB \<Rightarrow> ck body \<and> big \<and> got \<and> length pl = unat (ub_len p)
      | _ \<Rightarrow> True)"

definition ubx_seen :: "ubx_parser \<Rightarrow> byte_list \<Rightarrow> byte_list \<Rightarrow> bool" where
  "ubx_seen p pl h \<longleftrightarrow> length (ub_payload p) = 128 \<and> suffix (ubx_pending p pl) h \<and> ubx_fields p pl"

lemma ubxChecksum_snoc: "ubxChecksum (xs @ [b]) = ck_step (ubxChecksum xs) b"
  by (simp add: ubxChecksum_def)

lemma ubx_sum_ck: "(ub_ck_a p, ub_ck_b p) = ubxChecksum xs \<Longrightarrow>
    (ub_ck_a (ubx_sum p b), ub_ck_b (ubx_sum p b)) = ubxChecksum (xs @ [b])"
  by (auto simp: ubxChecksum_snoc ubx_sum_def ck_step_def Let_def dest: sym)

lemma ubx_sum_fields [simp]:
  "ub_state (ubx_sum p b) = ub_state p" "ub_class (ubx_sum p b) = ub_class p" "ub_id (ubx_sum p b) = ub_id p"
  "ub_len (ubx_sum p b) = ub_len p" "ub_idx (ubx_sum p b) = ub_idx p" "ub_oversize (ubx_sum p b) = ub_oversize p"
  "ub_payload (ubx_sum p b) = ub_payload p" "ub_rx_ck_a (ubx_sum p b) = ub_rx_ck_a p"
  by (simp_all add: ubx_sum_def Let_def)

lemma ubx_seenI:
  assumes "ubx_seen p pl h" "length (ub_payload q) = 128" "ubx_fields q pl'"
    and "ubx_pending q pl' = ubx_pending p pl @ [b] \<or> ubx_pending q pl' = [] \<or> ubx_pending q pl' = [b]"
  shows "ubx_seen q pl' (h @ [b])"
  using assms by (auto simp: ubx_seen_def suffix_def)

text \<open>One payload byte.\<close>

lemma ubx_grow:
  assumes "ubx_fields p pl" "ub_state p = UPayload" "length (ub_payload p) = 128"
    and q_def: "q = fst (ubx_feed p b)"
  shows "ubx_fields q (pl @ [b])" "ubx_pending q (pl @ [b]) = ubx_pending p pl @ [b]"
    "length (ub_payload q) = 128" "\<not> snd (ubx_feed p b)"
    "ub_state q = (if Suc (length pl) = unat (ub_len p) then CkA else UPayload)"
    "ub_class q = ub_class p" "ub_id q = ub_id p" "ub_len q = ub_len p"
proof -
  let ?body = "[ub_class p, ub_id p] @ put_u16 [] (ub_len p) @ pl"
  have f: "(ub_ck_a p, ub_ck_b p) = ubxChecksum ?body" "ub_oversize p \<longleftrightarrow> unat (ub_len p) > 128"
    "length pl = unat (ub_idx p)" "\<not> ub_oversize p \<longrightarrow> take (length pl) (ub_payload p) = pl"
    "length pl < unat (ub_len p)"
    using assms(1) unfolding ubx_fields_def Let_def assms(2) ubx_state.case by blast+
  have "unat (ub_idx p) < 65535" using f(3,5) unat_u16_lt [of "ub_len p"] by linarith
  then have i: "unat (ub_idx p + 1) = Suc (length pl)" using f(3) by (simp add: unat_word_ariths)
  have c: "ub_len p \<le> ub_idx p + 1 \<longleftrightarrow> Suc (length pl) = unat (ub_len p)"
    using i f(5) by (auto simp: word_le_nat_alt)
  have q: "ub_state q = (if Suc (length pl) = unat (ub_len p) then CkA else UPayload)"
    "ub_class q = ub_class p" "ub_id q = ub_id p" "ub_len q = ub_len p" "ub_oversize q = ub_oversize p"
    "unat (ub_idx q) = Suc (length pl)" "length (ub_payload q) = 128" "\<not> snd (ubx_feed p b)"
    "ub_ck_a q = ub_ck_a (ubx_sum p b)" "ub_ck_b q = ub_ck_b (ubx_sum p b)"
    "ub_payload q = (if \<not> ub_oversize p then (ub_payload p)[unat (ub_idx p) := b] else ub_payload p)"
    using assms(2,3) i c by (simp_all add: q_def ubx_feed_def Let_def)
  show "ub_state q = (if Suc (length pl) = unat (ub_len p) then CkA else UPayload)"
    "ub_class q = ub_class p" "ub_id q = ub_id p" "ub_len q = ub_len p" "length (ub_payload q) = 128"
    "\<not> snd (ubx_feed p b)" by (fact q)+
  show "ubx_pending q (pl @ [b]) = ubx_pending p pl @ [b]"
    using assms(2) q(1) by (simp add: ubx_pending_def Let_def q(2-4))
  have ck: "(ub_ck_a q, ub_ck_b q) = ubxChecksum (?body @ [b])"
    unfolding q(9,10) by (rule ubx_sum_ck [OF f(1)])
  have got: "\<not> ub_oversize q \<longrightarrow> take (Suc (length pl)) (ub_payload q) = pl @ [b]"
    unfolding q(5,11) using f(2-5) assms(3) take_update_snoc [of "length pl" "ub_payload p" pl b] by auto
  show "ubx_fields q (pl @ [b])"
    unfolding ubx_fields_def Let_def q(1-4,6) using ck got f(2,5) q(5)
    by (cases "Suc (length pl) = unat (ub_len p)") auto
qed

lemma ubx_fields_CkB:
  assumes "ub_state p = CkA" "ubx_fields p pl"
  shows "ubx_fields (p\<lparr>ub_rx_ck_a := b, ub_state := CkB\<rparr>) pl"
proof (cases p)
  case (fields st cls mid len idx a b' rx over payload)
  with assms show ?thesis
    by (simp only: ubx_fields_def Let_def ubx_parser.simps ubx_state.case) (elim conjE, simp)
qed

lemma ubx_feed_seen:
  assumes "ubx_seen p pl h"
  shows "\<exists>pl'. ubx_seen (fst (ubx_feed p b)) pl' (h @ [b])"
proof -
  have f: "length (ub_payload p) = 128" "ubx_fields p pl" using assms by (simp_all add: ubx_seen_def)
  let ?q = "fst (ubx_feed p b)"
  show ?thesis
  proof (cases "ub_state p = UPayload")
    case True
    note g = ubx_grow [OF f(2) True f(1) refl, of b]
    show ?thesis by (rule exI, rule ubx_seenI [OF assms g(3,1)]) (simp add: g(2))
  next
    case P: False
    show ?thesis
    proof (cases "ub_state p = LenHi")
      case True
      define len where "len = ub_len p OR push_bit 8 (ucast b)"
      let ?body = "[ub_class p, ub_id p, ucast (ub_len p)]"
      have ck: "(ub_ck_a p, ub_ck_b p) = ubxChecksum ?body" and lo: "unat (ub_len p) < 256"
        using f(2) True by (simp_all add: ubx_fields_def Let_def)
      have l: "put_u16 [] len = [ucast (ub_len p), b]"
        unfolding len_def by (rule put_u16_or) (rule lo)
      have ck': "(ub_ck_a ?q, ub_ck_b ?q) = ubxChecksum (?body @ [b])"
        using ubx_sum_ck [of "p\<lparr>ub_len := len\<rparr>" ?body b] ck True by (simp add: ubx_feed_def Let_def len_def)
      have q: "ub_state ?q = (if len = 0 then CkA else UPayload)" "ub_len ?q = len" "ub_idx ?q = 0"
        "ub_oversize ?q \<longleftrightarrow> unat len > 128" "ub_class ?q = ub_class p" "ub_id ?q = ub_id p"
        "ub_payload ?q = ub_payload p"
        using True by (simp_all add: ubx_feed_def Let_def len_def)
      have "ubx_fields ?q []"
        unfolding ubx_fields_def Let_def q(1-6) l using ck' by (auto simp: unat_gt_0)
      moreover have "ubx_pending ?q [] = ubx_pending p pl @ [b]"
        unfolding ubx_pending_def Let_def q(1,2,5,6) l using True by simp
      ultimately show ?thesis using ubx_seenI [OF assms, of ?q "[]"] f(1) q(7) by auto
    next
      case L: False
      show ?thesis
      proof (cases "ub_state p = CkA")
        case True
        have q: "?q = p\<lparr>ub_rx_ck_a := b, ub_state := CkB\<rparr>" using True by (simp add: ubx_feed_def)
        have "ubx_fields ?q pl" unfolding q by (rule ubx_fields_CkB [OF True f(2)])
        moreover have "ubx_pending ?q pl = ubx_pending p pl @ [b]" "length (ub_payload ?q) = 128"
          using f True by (simp_all add: q ubx_pending_def Let_def)
        ultimately show ?thesis using ubx_seenI [OF assms, of ?q pl] by blast
      next
        case C: False
        have "ubx_fields ?q []"
          using f(2) P L C by (cases "ub_state p")
            (simp_all add: ubx_fields_def ubx_feed_def Let_def ubx_sum_def ubxChecksum_def ck_step_def)
        moreover have "ubx_pending ?q [] = ubx_pending p pl @ [b] \<or> ubx_pending ?q [] = [] \<or> ubx_pending ?q [] = [b]"
          using P L C by (cases "ub_state p") (simp_all add: ubx_pending_def ubx_feed_def Let_def)
        moreover have "length (ub_payload ?q) = 128"
          using f(1) P L C by (cases "ub_state p") (simp_all add: ubx_feed_def Let_def)
        ultimately show ?thesis using ubx_seenI [OF assms, of ?q "[]"] by blast
      qed
    qed
  qed
qed

section \<open>Frames in a stream\<close>

fun ubx_body :: "ubx_message \<Rightarrow> byte_list" where
  "ubx_body (cls, mid, data) = [cls, mid] @ put_u16 [] (of_nat (length data)) @ data"

definition ubx_frame_with :: "byte_list \<Rightarrow> u8 \<times> u8 \<Rightarrow> byte_list" where
  "ubx_frame_with body ck = [0xB5, 0x62] @ body @ [fst ck, snd ck]"

definition ubx_frame :: "ubx_message \<Rightarrow> byte_list" where
  "ubx_frame m = ubx_frame_with (ubx_body m) (ubxChecksum (ubx_body m))"

fun ubx_wf :: "ubx_message \<Rightarrow> bool" where
  "ubx_wf (cls, mid, data) \<longleftrightarrow> length data < 65536"

fun ubx_fits :: "ubx_message \<Rightarrow> bool" where
  "ubx_fits (cls, mid, data) \<longleftrightarrow> length data \<le> kUbxMaxPayload"

definition ubx_ready :: "ubx_parser \<Rightarrow> bool" where
  "ubx_ready p \<longleftrightarrow> ub_state p = Sync1 \<and> length (ub_payload p) = 128"

lemma ubx_accepted:
  assumes "ubx_seen p pl h" "ubx_feed p b = (q, True)"
  shows "suffix (ubx_frame (ub_message q)) (h @ [b]) \<and> ubx_wf (ub_message q) \<and> ubx_fits (ub_message q)"
proof -
  have st: "ub_state p = CkB" and ok: "ub_rx_ck_a p = ub_ck_a p" "b = ub_ck_b p" "\<not> ub_oversize p"
    and q: "q = p\<lparr>ub_state := Sync1\<rparr>"
    using assms(2) by (auto simp: ubx_feed_def Let_def split: ubx_state.splits)
  have f: "ubx_fields p pl" and su: "suffix (ubx_pending p pl @ [b]) (h @ [b])"
    using assms(1) by (simp_all add: ubx_seen_def)
  have com: "(ub_ck_a p, ub_ck_b p) = ubxChecksum ([ub_class p, ub_id p] @ put_u16 [] (ub_len p) @ pl)"
    "length pl = unat (ub_len p)" "take (length pl) (ub_payload p) = pl" "unat (ub_len p) \<le> 128"
    using f ok(3) unfolding ubx_fields_def Let_def st ubx_state.case by (blast, blast, blast, simp)
  have m: "ub_message q = (ub_class p, ub_id p, pl)" using com(2,3) by (simp add: ub_message_def q)
  have n: "of_nat (length pl) = ub_len p" unfolding com(2) by simp
  have "ubx_pending p pl @ [b] = ubx_frame (ub_message q)"
    using com(1) ok by (simp add: m n ubx_frame_def ubx_frame_with_def ubx_pending_def st flip: com(1)) (metis fst_conv snd_conv)
  with su com(2,4) show ?thesis by (simp add: m)
qed

lemma ubx_run_payload:
  assumes "ubx_fields p pl" "ub_state p = UPayload" "length (ub_payload p) = 128"
    and "length pl + length bs = unat (ub_len p)" "bs \<noteq> []"
  shows "\<exists>q. ubx_run p bs = (q, []) \<and> ub_state q = CkA \<and> ubx_fields q (pl @ bs) \<and>
    length (ub_payload q) = 128 \<and> ub_class q = ub_class p \<and> ub_id q = ub_id p \<and> ub_len q = ub_len p"
  using assms
proof (induction bs arbitrary: p pl)
  case (Cons b bs)
  note g = ubx_grow [OF Cons.prems(1-3) refl, of b]
  obtain q where q: "ubx_feed p b = (q, False)" using g(4) by (cases "ubx_feed p b") auto
  note g = g [unfolded q fst_conv snd_conv]
  show ?case
  proof (cases "bs = []")
    case True
    then have "ub_state q = CkA" using g(5) Cons.prems(4) by simp
    with True q g show ?thesis by simp
  next
    case False
    then have "Suc (length pl) \<noteq> unat (ub_len p)" using Cons.prems(4) by (cases bs) auto
    then have st: "ub_state q = UPayload" using g(5) by simp
    have len: "length (pl @ [b]) + length bs = unat (ub_len q)" using Cons.prems(4) g(8) by simp
    from Cons.IH [OF g(1) st g(3) len False] q g(6-8) show ?thesis by simp
  qed
qed simp

lemma ubx_run_header:
  assumes "ub_state p = Sync1"
  shows "\<exists>q. ubx_run p [0xB5, 0x62, cls, mid, l, h] = (q, []) \<and> ub_class q = cls \<and> ub_id q = mid \<and>
    ub_len q = ucast l OR push_bit 8 (ucast h) \<and> ub_idx q = 0 \<and>
    (ub_ck_a q, ub_ck_b q) = ubxChecksum [cls, mid, l, h] \<and> ub_payload q = ub_payload p \<and>
    (ub_oversize q \<longleftrightarrow> unat (ub_len q) > 128) \<and> ub_state q = (if ub_len q = 0 then CkA else UPayload)"
  using assms by (simp add: ubx_feed_def Let_def ubx_sum_def ubxChecksum_def ck_step_def)

text \<open>A whole frame with any checksum: reported exactly if the checksum is right and the buffer
  can hold the payload.\<close>

lemma ubx_run_frame:
  assumes "ubx_ready p" "length data < 65536"
  shows "\<exists>q. ubx_run p (ubx_frame_with (ubx_body (cls, mid, data)) ck) =
      (q, if ck = ubxChecksum (ubx_body (cls, mid, data)) \<and> length data \<le> kUbxMaxPayload
          then [(cls, mid, data)] else []) \<and> ubx_ready q"
proof -
  define n :: u16 where "n = of_nat (length data)"
  have un: "unat n = length data" using assms(2) by (simp add: n_def unat_of_nat_byte)
  have z: "n = 0 \<longleftrightarrow> data = []" by (metis length_0_conv unat_eq_0 un)
  obtain l h where s: "put_u16 [] n = [l, h]" "n = ucast l OR push_bit 8 (ucast h)"
    using put_u16_cells by blast
  let ?h = "[0xB5, 0x62, cls, mid, l, h]"
  have body: "ubx_body (cls, mid, data) = [cls, mid, l, h] @ data" by (simp add: s(1) flip: n_def)
  obtain p1 where p1: "ubx_run p ?h = (p1, [])" "ub_class p1 = cls" "ub_id p1 = mid" "ub_len p1 = n"
    "ub_idx p1 = 0" "(ub_ck_a p1, ub_ck_b p1) = ubxChecksum [cls, mid, l, h]" "ub_payload p1 = ub_payload p"
    "ub_oversize p1 \<longleftrightarrow> unat n > 128" "ub_state p1 = (if n = 0 then CkA else UPayload)"
    using ubx_run_header [of p cls mid l h] assms(1) s(2) by (auto simp: ubx_ready_def)
  have l1: "length (ub_payload p1) = 128" using p1(7) assms(1) by (simp add: ubx_ready_def)
  have f1: "ubx_fields p1 []"
    unfolding ubx_fields_def Let_def p1(2-5,9) using p1(6,8) s(1) z un by auto
  obtain p2 where p2: "ubx_run p1 data = (p2, [])" "ub_state p2 = CkA" "ubx_fields p2 data"
    "length (ub_payload p2) = 128" "ub_class p2 = cls" "ub_id p2 = mid" "ub_len p2 = n"
  proof (cases "data = []")
    case False
    with ubx_run_payload [OF f1 _ l1, of data] p1(2-4,9) z un that show ?thesis by auto
  qed (use p1 f1 l1 z that in auto)
  have com: "(ub_ck_a p2, ub_ck_b p2) = ubxChecksum (ubx_body (cls, mid, data))"
    "ub_oversize p2 \<longleftrightarrow> length data > 128" "\<not> ub_oversize p2 \<longrightarrow> take (length data) (ub_payload p2) = data"
    using p2(3) un unfolding ubx_fields_def Let_def p2(2,5-7) ubx_state.case body s(1) by auto
  let ?q = "p2\<lparr>ub_rx_ck_a := fst ck, ub_state := Sync1\<rparr>"
  have ok: "fst ck = ub_ck_a p2 \<and> snd ck = ub_ck_b p2 \<longleftrightarrow> ck = ubxChecksum (ubx_body (cls, mid, data))"
    using com(1) by (metis fst_conv prod.collapse snd_conv)
  have "ub_message ?q = (cls, mid, data)" if "length data \<le> 128"
    using com(2,3) that p2(5-7) un by (simp add: ub_message_def)
  then have "ubx_run p2 [fst ck, snd ck] =
      (?q, if ck = ubxChecksum (ubx_body (cls, mid, data)) \<and> length data \<le> 128 then [(cls, mid, data)] else [])"
    using p2(2) ok com(2) by (auto simp: ubx_feed_def Let_def)
  then have "ubx_run p (?h @ data @ [fst ck, snd ck]) =
      (?q, if ck = ubxChecksum (ubx_body (cls, mid, data)) \<and> length data \<le> 128 then [(cls, mid, data)] else [])"
    unfolding feed_run_append_silent [OF p1(1)] feed_run_append_silent [OF p2(1)] .
  moreover have "ubx_ready ?q" using p2(4) by (simp add: ubx_ready_def)
  moreover have "ubx_frame_with (ubx_body (cls, mid, data)) ck = ?h @ data @ [fst ck, snd ck]"
    by (simp add: ubx_frame_with_def body del: ubx_body.simps)
  ultimately show ?thesis by auto
qed

lemma ubx_noise: "ubx_ready p \<Longrightarrow> 0xB5 \<notin> set g \<Longrightarrow> ubx_run p g = (p, [])"
  by (induction g) (auto simp: ubx_feed_def ubx_ready_def)

interpretation ubx: frame_parser ubx_feed ub_message ubx_ready ubx_ready "\<lambda>g. 0xB5 \<notin> set g"
    "\<lambda>p h. \<exists>pl. ubx_seen p pl h" ubx_frame ubx_wf ubx_fits
proof unfold_locales
  fix p g assume "ubx_ready p" "(0xB5 :: u8) \<notin> set g"
  then show "\<exists>q. ubx_run p g = (q, []) \<and> ubx_ready q" using ubx_noise by blast
next
  fix p m assume "ubx_ready p" "ubx_wf m"
  then show "\<exists>q. ubx_run p (ubx_frame m) = (q, if ubx_fits m then [m] else []) \<and> ubx_ready q"
    using ubx_run_frame [of p "snd (snd m)" "fst m" "fst (snd m)" "ubxChecksum (ubx_body m)"]
    by (cases m) (auto simp: ubx_frame_def simp del: ubx_body.simps)
next
  fix p h and b :: u8 assume "\<exists>pl. ubx_seen p pl h"
  then show "\<exists>pl. ubx_seen (fst (ubx_feed p b)) pl (h @ [b])" using ubx_feed_seen by blast
next
  fix p h q and b :: u8 assume "\<exists>pl. ubx_seen p pl h" "ubx_feed p b = (q, True)"
  then show "suffix (ubx_frame (ub_message q)) (h @ [b]) \<and> ubx_wf (ub_message q) \<and> ubx_fits (ub_message q)"
    using ubx_accepted by blast
qed

lemma ubx_start: "ubx_ready UbxParser" "\<exists>pl. ubx_seen UbxParser pl []"
  by (simp_all add: ubx_ready_def UbxParser_def ubx_seen_def ubx_pending_def ubx_fields_def Let_def)

section \<open>Decoders and builders\<close>

lemma read_some:
  "off < length p \<Longrightarrow> readU8 p off = Some (p ! off)"
  "off + 2 \<le> length p \<Longrightarrow> \<exists>v. readU16 p off = Some v"
  "off + 4 \<le> length p \<Longrightarrow> \<exists>v. readI32 p off = Some v"
  using get_at [of off p] by (auto simp: readU8_def readU16_def readI32_def)

lemma uint_normaliseCourseDdeg: "uint (normaliseCourseDdeg d) = d mod 3600"
proof -
  have "normaliseCourseDdeg d = of_int (d mod 3600)"
    unfolding normaliseCourseDdeg_def Let_def using smod_mod [of 3600 d] by simp
  moreover have "0 \<le> d mod 3600" "d mod 3600 < 2 ^ 16" using pos_mod_bound [of 3600 d] by simp_all
  ultimately show ?thesis by (simp add: uint_word_of_int_eq take_bit_int_eq_self)
qed

lemma finishFrame_frame:
  assumes "length payload < 65536"
  shows "finishFrame cls mid payload = ubx_frame (cls, mid, payload)"
proof -
  have "put_u16 [] (of_nat (length payload)) = [of_nat (length payload mod 256), of_nat (length payload div 256)]"
    using assms by (simp add: put_u16_def u16_low_byte u16_high_byte)
  then show ?thesis
    by (simp add: finishFrame_def ubx_frame_def ubx_frame_with_def Let_def split: prod.split)
qed

lemma buildCfgMsg_frame:
  "11 \<le> cap \<Longrightarrow> buildCfgMsg c m rate cap = ubx_frame (kUbxClassCfg, kUbxIdCfgMsg, [c, m, rate])"
  by (simp add: buildCfgMsg_def finishFrame_frame)

lemma length_ubx_frame: "length (ubx_frame (c, m, data)) = length data + 8"
  by (simp add: ubx_frame_def ubx_frame_with_def)

lemma ubx_frame_not_Nil [simp]: "ubx_frame m \<noteq> []"
  by (simp add: ubx_frame_def ubx_frame_with_def)

lemma legacy_messages_frames:
  "11 * length mids + length buf \<le> cap \<Longrightarrow> legacy_messages mids buf cap =
     buf @ concat (map (\<lambda>m. ubx_frame (kUbxClassCfg, kUbxIdCfgMsg, [kUbxClassNav, m, 1])) mids)"
  by (induction mids arbitrary: buf) (simp_all add: Let_def buildCfgMsg_frame length_ubx_frame)

lemma legacy_messages_short:
  "cap < 11 * length mids + length buf \<Longrightarrow> mids \<noteq> [] \<Longrightarrow> length buf \<le> cap \<Longrightarrow> legacy_messages mids buf cap = []"
proof (induction mids arbitrary: buf)
  case (Cons m mids)
  show ?case
  proof (cases "11 \<le> cap - length buf")
    case True
    let ?f = "buildCfgMsg kUbxClassNav m 1 (cap - length buf)"
    have l: "length ?f = 11" using True by (simp add: buildCfgMsg_frame length_ubx_frame)
    then have "mids \<noteq> []" using Cons.prems True by auto
    then have "legacy_messages mids (buf @ ?f) cap = []"
      using Cons.IH [of "buf @ ?f"] Cons.prems l True by simp
    with l show ?thesis by (simp add: Let_def)
  next
    case False
    then show ?thesis by (simp add: buildCfgMsg_def Let_def)
  qed
qed simp

section \<open>Properties\<close>

text \<open>The parser hears exactly the messages: from a stream of well-formed UBX frames, with any
  bytes but \<open>0xB5\<close> between and after them, it reports the messages with at most 128 bytes of
  payload, in order, and from any bytes whatever it reports only messages that stand in them as a
  frame with a right checksum.\<close>

theorem ubx_hears_stream:
  assumes "\<forall>(noise, m) \<in> set items. 0xB5 \<notin> set noise \<and> ubx_wf m" "0xB5 \<notin> set rest"
  shows "snd (ubx_run UbxParser (concat (map (\<lambda>(noise, m). noise @ ubx_frame m) items) @ rest)) =
      filter ubx_fits (map snd items) \<and>
    (\<forall>m \<in> set (snd (ubx_run UbxParser bs)). sublist (ubx_frame m) bs \<and> ubx_fits m)"
  using ubx.run_stream [OF ubx_start(1) assms] ubx.reported_frames [OF ubx_start(2)] by auto

theorem ubx_hears_stream_witness:
  "snd (ubx_run UbxParser ([7] @ ubx_frame (1, 7, [1, 2]) @ ubx_frame (1, 8, replicate 200 0xB5) @ [0x62])) = [(1, 7, [1, 2])]"
  using ubx_hears_stream [of "[([7], 1, 7, [1, 2]), ([], 1, 8, replicate 200 0xB5)]" "[0x62]" "[]"]
  by (simp del: feed_run.simps)

text \<open>The configuration a driver sends is what a receiver reads: given room for the four
  messages, the legacy set is four frames, and a parser fed with them reads back one rate message
  for each of the navigation messages; with less room nothing is written.\<close>

theorem legacy_config_read_back:
  assumes "44 \<le> cap" "small < 44"
  shows "snd (ubx_run UbxParser (buildLegacyNavConfig cap)) =
      map (\<lambda>m. (kUbxClassCfg, kUbxIdCfgMsg, [kUbxClassNav, m, 1]))
        [kUbxIdNavPosllh, kUbxIdNavSol, kUbxIdNavVelned, kUbxIdNavDop] \<and>
    length (buildLegacyNavConfig cap) = 44 \<and> buildLegacyNavConfig small = []"
proof (intro conjI)
  let ?ids = "[kUbxIdNavPosllh, kUbxIdNavSol, kUbxIdNavVelned, kUbxIdNavDop]"
  let ?m = "\<lambda>m. (kUbxClassCfg, kUbxIdCfgMsg, [kUbxClassNav, m, 1])"
  have b: "buildLegacyNavConfig cap = concat (map (\<lambda>m. ubx_frame (?m m)) ?ids)"
    unfolding buildLegacyNavConfig_def using legacy_messages_frames [of ?ids "[]" cap] assms(1) by simp
  have "concat (map (\<lambda>(noise, m). noise @ ubx_frame m) (map (\<lambda>m. ([], ?m m)) ?ids)) @ [] =
      buildLegacyNavConfig cap" unfolding b by simp
  moreover have "\<forall>(noise, m) \<in> set (map (\<lambda>m. ([], ?m m)) ?ids). (0xB5 :: u8) \<notin> set noise \<and> ubx_wf m" by simp
  ultimately obtain q where "ubx_run UbxParser (buildLegacyNavConfig cap) =
      (q, filter ubx_fits (map snd (map (\<lambda>m. ([] :: byte_list, ?m m)) ?ids)))"
    using ubx.run_stream [OF ubx_start(1), of "map (\<lambda>m. ([], ?m m)) ?ids" "[]"] by auto
  then show "snd (ubx_run UbxParser (buildLegacyNavConfig cap)) = map ?m ?ids" by simp
  show "length (buildLegacyNavConfig cap) = 44" unfolding b by (simp add: length_ubx_frame)
  show "buildLegacyNavConfig small = []"
    unfolding buildLegacyNavConfig_def using assms(2) by (intro legacy_messages_short) simp_all
qed

theorem legacy_config_read_back_witness:
  "length (snd (ubx_run UbxParser (buildLegacyNavConfig 64))) = 4 \<and> buildLegacyNavConfig 43 = []"
  using legacy_config_read_back [of 64 43] by simp

text \<open>A navigation fix is read safely: the decoder never reads past the payload, fails exactly
  when it is shorter than 92 bytes, calls a fix valid exactly when the quality it reports is 2D or
  3D, and its course is the heading in decidegrees modulo a full circle, rounded toward zero.\<close>

theorem nav_pvt_decoded:
  "(decodeNavPvt p = Some None \<longleftrightarrow> length p < 92) \<and>
   (length p < 92 \<or> (\<exists>f heading. decodeNavPvt p = Some (Some f) \<and> readI32 p 64 = Some heading \<and>
      (uf_valid f \<longleftrightarrow> uf_fix_type f \<in> {2, 3}) \<and>
      uint (uf_course_ddeg f) = (sint heading sdiv 10000) mod 3600))"
proof (cases "length p < 92")
  case False
  obtain lon lat hmsl gspeed heading where r: "readI32 p 24 = Some lon" "readI32 p 28 = Some lat"
    "readI32 p 36 = Some hmsl" "readI32 p 60 = Some gspeed" "readI32 p 64 = Some heading"
    using read_some(3) [of 24 p] read_some(3) [of 28 p] read_some(3) [of 36 p] read_some(3) [of 60 p]
      read_some(3) [of 64 p] False by auto
  have b: "readU8 p 20 = Some (p ! 20)" "readU8 p 21 = Some (p ! 21)" "readU8 p 23 = Some (p ! 23)"
    using read_some(1) False by auto
  show ?thesis
    unfolding decodeNavPvt_def using False
    by (simp add: r b Let_def uint_normaliseCourseDdeg)
qed (simp add: decodeNavPvt_def)

end
