(* ===== verification/Float_Math.thy ===== *)
theory Float_Math
  imports Binary_Float
begin

text \<open>
  The part of \<open>cmath\<close> that follow.cpp and geo.cpp call. Square root is correctly rounded, as
  IEEE 754 requires; \<open>lround\<close> rounds to the nearest integer, ties away from zero. The
  trigonometric functions are not specified to the last bit, so they are a parameter of the
  model, a record of functions, and so is what \<open>lround\<close> and the cast to \<open>int32_t\<close> give where
  the standard leaves it open. A computation that can be NaN is an \<open>option\<close>, with NaN as
  \<open>None\<close>; the two zeros are one number.
\<close>

section \<open>Square root\<close>

function isqrt :: "int \<Rightarrow> int" where
  "isqrt n =
     (if n \<le> 0 then 0
      else let r = 2 * isqrt (n div 4) in if (r + 1) * (r + 1) \<le> n then r + 1 else r)"
  by auto
termination by (relation "measure nat") auto

declare isqrt.simps [simp del]

definition sqrt_to :: "nat \<Rightarrow> rat \<Rightarrow> rat" where
  "sqrt_to p x =
     (if x \<le> 0 then 0
      else let u = pow2 (exponent2 x div 2 - int p + 1);
               q = x / (u * u);
               n = isqrt \<lfloor>q\<rfloor>;
               mid = (of_int n + 1/2) * (of_int n + 1/2)
           in of_int (if mid < q \<or> mid = q \<and> odd n then n + 1 else n) * u)"

definition dsqrt :: "dbl \<Rightarrow> dbl" where "dsqrt x = sqrt_to 53 x"
definition fsqrt :: "flt \<Rightarrow> flt" where "fsqrt x = sqrt_to 24 x"

definition fmul :: "flt \<Rightarrow> flt \<Rightarrow> flt" where "fmul x y = flt_round (x * y)"

definition copysign :: "rat \<Rightarrow> rat \<Rightarrow> rat" where
  "copysign x y = (if y < 0 then - \<bar>x\<bar> else \<bar>x\<bar>)"

text \<open>Division by a nonzero constant.\<close>

definition dquot :: "dbl \<Rightarrow> dbl \<Rightarrow> dbl" where "dquot x c = dbl_round (x / c)"

section \<open>Library functions\<close>

record libm =
  lm_sin :: "dbl \<Rightarrow> dbl"
  lm_cos :: "dbl \<Rightarrow> dbl"
  lm_asin :: "dbl \<Rightarrow> dbl"
  lm_atan2 :: "dbl \<Rightarrow> dbl \<Rightarrow> dbl"
  lm_lround_undef :: "dbl option \<Rightarrow> i32"

definition m_sqrt :: "dbl \<Rightarrow> dbl option" where
  "m_sqrt x = (if x < 0 then None else Some (dsqrt x))"

definition m_asin :: "libm \<Rightarrow> dbl \<Rightarrow> dbl option" where
  "m_asin m x = (if \<bar>x\<bar> > 1 then None else Some (lm_asin m x))"

definition round_away :: "rat \<Rightarrow> int" where
  "round_away x = (if 0 \<le> x then \<lfloor>x + 1/2\<rfloor> else - \<lfloor>1/2 - x\<rfloor>)"

text \<open>\<open>static_cast<int32_t>(std::lround(x))\<close>.\<close>

definition lround_i32 :: "libm \<Rightarrow> dbl option \<Rightarrow> i32" where
  "lround_i32 m v =
     (case v of
        Some x \<Rightarrow> if -2147483648 \<le> round_away x \<and> round_away x \<le> 2147483647
                  then word_of_int (round_away x) else lm_lround_undef m v
      | None \<Rightarrow> lm_lround_undef m v)"

definition dbl_of_i32 :: "i32 \<Rightarrow> dbl" where "dbl_of_i32 w = of_int (sint w)"
definition dbl_of_i16 :: "i16 \<Rightarrow> dbl" where "dbl_of_i16 w = of_int (sint w)"
definition dbl_of_u16 :: "u16 \<Rightarrow> dbl" where "dbl_of_u16 w = of_int (uint w)"

text \<open>A comparison with NaN is false.\<close>

definition dbl_less :: "dbl option \<Rightarrow> dbl option \<Rightarrow> bool" where
  "dbl_less x y = (case (x, y) of (Some a, Some b) \<Rightarrow> a < b | _ \<Rightarrow> False)"

section \<open>Lemmas\<close>

lemma isqrt_bounds:
  "0 \<le> n \<Longrightarrow> 0 \<le> isqrt n \<and> isqrt n * isqrt n \<le> n \<and> n < (isqrt n + 1) * (isqrt n + 1)"
proof (induction n rule: isqrt.induct)
  case (1 n)
  show ?case
  proof (cases "n \<le> 0")
    case True
    with 1 show ?thesis by (simp add: isqrt.simps)
  next
    case False
    define s where "s = isqrt (n div 4)"
    from 1 False have IH: "0 \<le> s" "s * s \<le> n div 4" "n div 4 < (s + 1) * (s + 1)"
      by (auto simp: s_def)
    have n: "4 * (n div 4) \<le> n" "n < 4 * (n div 4) + 4" by linarith+
    have lo: "2 * s * (2 * s) \<le> n" using IH(2) n(1) by (simp add: algebra_simps)
    have "4 * (n div 4) + 4 \<le> 4 * ((s + 1) * (s + 1))" using IH(3) by linarith
    then have hi: "n < (2 * s + 2) * (2 * s + 2)" using n(2) by (simp add: algebra_simps)
    have r: "isqrt n = (if (2 * s + 1) * (2 * s + 1) \<le> n then 2 * s + 1 else 2 * s)"
      using False by (subst isqrt.simps) (simp add: s_def Let_def)
    show ?thesis using IH(1) lo hi by (auto simp: r not_le algebra_simps)
  qed
qed

lemma round_away_of_int [simp]: "round_away (of_int n) = n"
proof -
  have "\<lfloor>of_int n + 1/2 :: rat\<rfloor> = n" "\<lfloor>1/2 - of_int n :: rat\<rfloor> = - n" by linarith+
  then show ?thesis by (simp add: round_away_def)
qed

lemma round_away_near: "\<bar>of_int (round_away x) - x\<bar> \<le> 1/2"
proof (cases "0 \<le> x")
  case True
  then have "round_away x = \<lfloor>x + 1/2\<rfloor>" by (simp add: round_away_def)
  then show ?thesis by linarith
next
  case False
  then have "round_away x = - \<lfloor>1/2 - x\<rfloor>" by (simp add: round_away_def)
  then show ?thesis by linarith
qed

lemma round_away_mono:
  assumes "x \<le> y"
  shows "round_away x \<le> round_away y"
proof -
  consider "0 \<le> x" | "y < 0" | "x < 0" "0 \<le> y" by linarith
  then show ?thesis
  proof cases
    case 1
    with assms show ?thesis by (simp add: round_away_def floor_mono)
  next
    case 2
    with assms show ?thesis by (simp add: round_away_def floor_mono)
  next
    case 3
    then have "round_away x = - \<lfloor>1/2 - x\<rfloor>" "round_away y = \<lfloor>y + 1/2\<rfloor>"
      by (simp_all add: round_away_def)
    with 3 show ?thesis by linarith
  qed
qed

lemma dsqrt_0 [simp]: "dsqrt 0 = 0" "fsqrt 0 = 0"
  by (simp_all add: dsqrt_def fsqrt_def sqrt_to_def)

lemma sint_of_int_i32: "-2147483648 \<le> k \<Longrightarrow> k \<le> 2147483647 \<Longrightarrow> sint (word_of_int k :: i32) = k"
  by (simp add: signed_of_int signed_take_bit_int_eq_self_iff)

lemma lround_i32_range:
  "-2147483648 \<le> round_away x \<Longrightarrow> round_away x \<le> 2147483647 \<Longrightarrow>
     sint (lround_i32 m (Some x)) = round_away x"
  by (simp add: lround_i32_def sint_of_int_i32)

lemma dbl_less_irrefl [simp]: "\<not> dbl_less x x"
  by (simp add: dbl_less_def split: option.splits)

lemma pow2_double: "pow2 (2 * k) = pow2 k * pow2 k"
  using pow2_add [of k k] by simp

text \<open>The quotient \<open>q\<close> of a square root with \<open>p\<close> digits: its root has \<open>p\<close> digits before the point.\<close>

lemma sqrt_to_shape:
  assumes "0 < x" "0 < p"
  defines "u \<equiv> pow2 (exponent2 x div 2 - int p + 1)"
  obtains n s where "sqrt_to p x = of_int s * u" "s = n \<or> s = n + 1 \<and> (of_int n + 1/2) * (of_int n + 1/2) \<le> x / (u * u)"
    "2 ^ (p - 1) \<le> n" "of_int (n * n) \<le> x / (u * u)" "x / (u * u) < of_int ((n + 1) * (n + 1))"
proof -
  define q where "q = x / (u * u)"
  define n where "n = isqrt \<lfloor>q\<rfloor>"
  have u: "0 < u" by (simp add: u_def)
  have q: "0 < q" using assms(1) u by (simp add: q_def)
  let ?e = "exponent2 x"
  have "pow2 (2 * (?e div 2)) \<le> x" using exponent2_bounds [OF assms(1)] pow2_mono [of "2 * (?e div 2)" ?e] by linarith
  moreover have "pow2 (?e div 2) = of_int (2 ^ (p - 1)) * u"
    using assms(2) by (simp add: u_def flip: pow2_of_nat pow2_add)
  ultimately have "of_int (2 ^ (p - 1) * 2 ^ (p - 1)) * (u * u) \<le> x" by (simp add: pow2_double algebra_simps)
  then have big: "of_int (2 ^ (p - 1) * 2 ^ (p - 1)) \<le> q" using u by (simp add: q_def le_divide_eq)
  have n: "0 \<le> n" "n * n \<le> \<lfloor>q\<rfloor>" "\<lfloor>q\<rfloor> < (n + 1) * (n + 1)"
    using isqrt_bounds [of "\<lfloor>q\<rfloor>"] q by (simp_all add: n_def)
  have "2 ^ (p - 1) * 2 ^ (p - 1) \<le> \<lfloor>q\<rfloor>" using big by (simp only: le_floor_iff)
  then have "2 ^ (p - 1) * 2 ^ (p - 1) < (n + 1) * (n + 1)" using n(3) by linarith
  have n2: "2 ^ (p - 1) \<le> n"
  proof (rule ccontr)
    assume "\<not> ?thesis"
    then have "n + 1 \<le> 2 ^ (p - 1)" by simp
    then have "(n + 1) * (n + 1) \<le> 2 ^ (p - 1) * 2 ^ (p - 1)" using n(1) by (intro mult_mono) auto
    with \<open>2 ^ (p - 1) * 2 ^ (p - 1) < (n + 1) * (n + 1)\<close> show False by simp
  qed
  have q2: "of_int (n * n) \<le> q" "q < of_int ((n + 1) * (n + 1))"
    using n(2,3) by (simp_all only: le_floor_iff floor_less_iff)
  have "sqrt_to p x = of_int (if (of_int n + 1/2) * (of_int n + 1/2) < q \<or> (of_int n + 1/2) * (of_int n + 1/2) = q \<and> odd n
      then n + 1 else n) * u" using assms(1) by (simp add: sqrt_to_def Let_def u_def q_def n_def)
  moreover have "\<exists>s. (if (of_int n + 1/2) * (of_int n + 1/2) < q \<or> (of_int n + 1/2) * (of_int n + 1/2) = q \<and> odd n
      then n + 1 else n) = s \<and> (s = n \<or> s = n + 1 \<and> (of_int n + 1/2) * (of_int n + 1/2) \<le> q)" by auto
  ultimately obtain s where "sqrt_to p x = of_int s * u"
    "s = n \<or> s = n + 1 \<and> (of_int n + 1/2) * (of_int n + 1/2) \<le> q" by auto
  then show ?thesis using that n2 q2 by (simp only: q_def)
qed


lemma sqrt_to_upper:
  assumes "0 \<le> x" "0 < p"
  shows "sqrt_to p x * sqrt_to p x \<le> x * ((1 + 1 / 2 ^ p) * (1 + 1 / 2 ^ p))"
proof (cases "x = 0")
  case True
  then show ?thesis by (simp add: sqrt_to_def)
next
  case False
  then have x: "0 < x" using assms by simp
  let ?d = "1 + 1 / 2 ^ p :: rat"
  define u where "u = pow2 (exponent2 x div 2 - int p + 1)"
  define q where "q = x / (u * u)"
  obtain n s where ns: "sqrt_to p x = of_int s * u" "s = n \<or> s = n + 1 \<and> (of_int n + 1/2) * (of_int n + 1/2) \<le> q"
    "2 ^ (p - 1) \<le> n" "of_int (n * n) \<le> q"
    using sqrt_to_shape [OF x assms(2)] unfolding u_def q_def by metis
  have u: "0 < u" by (simp add: u_def)
  have xq: "x = q * (u * u)" using u by (simp add: q_def)
  have n0: "0 < n" using ns(3) zero_less_power [of "2 :: int" "p - 1"] by linarith
  have d: "1 \<le> ?d" by simp
  have "of_int s * of_int s \<le> q * (?d * ?d)"
    using ns(2)
  proof
    assume "s = n"
    then have "of_int s * of_int s \<le> q * 1" using ns(4) by simp
    also have "\<dots> \<le> q * (?d * ?d)"
      using mult_mono [OF d d] x u by (intro mult_left_mono) (simp_all add: q_def)
    finally show ?thesis .
  next
    assume s: "s = n + 1 \<and> (of_int n + 1/2) * (of_int n + 1/2) \<le> q"
    have "(2 :: rat) ^ p = 2 * 2 ^ (p - 1)" using assms(2) by (cases p) simp_all
    moreover have "of_int (2 ^ (p - 1)) \<le> (of_int n :: rat)" using ns(3) by (simp only: of_int_le_iff)
    ultimately have h: "1/2 \<le> of_int n * (1 / 2 ^ p :: rat)" by (simp add: field_simps)
    define e :: rat where "e = 1 / 2 ^ p"
    have "0 \<le> e" by (simp add: e_def)
    moreover have "(of_int n + 1/2) * (1 + e) = of_int n + 1/2 + of_int n * e + e / 2" by (simp add: algebra_simps)
    moreover have "of_int s = of_int n + (1 :: rat)" using s by simp
    ultimately have "of_int s \<le> (of_int n + 1/2) * ?d" using h unfolding e_def [symmetric] by linarith
    then have "of_int s * of_int s \<le> ((of_int n + 1/2) * ?d) * ((of_int n + 1/2) * ?d)"
      using s n0 d by (intro mult_mono) auto
    also have "\<dots> = ((of_int n + 1/2) * (of_int n + 1/2)) * (?d * ?d)" by (simp only: ac_simps)
    also have "\<dots> \<le> q * (?d * ?d)" using s d by (intro mult_right_mono) auto
    finally show ?thesis .
  qed
  then have "of_int s * of_int s * (u * u) \<le> q * (?d * ?d) * (u * u)" using u by (intro mult_right_mono) auto
  moreover have "sqrt_to p x * sqrt_to p x = of_int s * of_int s * (u * u)" by (simp only: ns(1) ac_simps)
  moreover have "x * (?d * ?d) = q * (?d * ?d) * (u * u)" by (subst xq) (simp only: ac_simps)
  ultimately show ?thesis by (simp only:)
qed

lemma sqrt_to_nonneg: "0 < p \<Longrightarrow> 0 \<le> sqrt_to p x"
proof (cases "x \<le> 0")
  case False
  assume "0 < p"
  then obtain n s where "sqrt_to p x = of_int s * pow2 (exponent2 x div 2 - int p + 1)" "s = n \<or> s = n + 1"
    "2 ^ (p - 1) \<le> n" using sqrt_to_shape [of x p] False by (metis not_le)
  moreover have "0 < (2 :: int) ^ (p - 1)" by simp
  ultimately have "0 \<le> s" by linarith
  then have "(0 :: rat) \<le> of_int s" by simp
  moreover have "0 \<le> pow2 k" for k using pow2_pos [of k] by linarith
  ultimately show ?thesis by (simp only: \<open>sqrt_to p x = _\<close> zero_le_mult_iff simp_thms)
qed (simp add: sqrt_to_def)

lemma round_to_upper:
  assumes "0 \<le> x" "0 < p"
  shows "round_to p x \<le> x * (1 + 1 / 2 ^ p)"
proof (cases "x = 0")
  case False
  then have x: "0 < x" using assms by simp
  have u: "0 < ulp p x" by simp
  have "2 ^ (p - 1) * ulp p x \<le> x" using significand_bounds [OF x assms(2)] by (simp add: le_divide_eq)
  moreover have "(2 :: rat) ^ p = 2 * 2 ^ (p - 1)" using assms(2) by (cases p) simp_all
  ultimately have h: "ulp p x / 2 \<le> x * (1 / 2 ^ p)" by (simp add: field_simps)
  have "of_int (round_even (x / ulp p x)) \<le> x / ulp p x + 1/2"
    using round_even_error [of "x / ulp p x"] by linarith
  then have "round_to p x \<le> (x / ulp p x + 1/2) * ulp p x"
    unfolding round_to_ulp using u by (intro mult_right_mono) auto
  also have "\<dots> = x + ulp p x / 2" by (simp add: distrib_right)
  also have "\<dots> \<le> x + x * (1 / 2 ^ p)" using h by (rule add_left_mono)
  finally show ?thesis by (simp only: distrib_left mult_1_right)
qed simp

text \<open>One rounding, relative to the exact value.\<close>

definition dbl_eps :: rat where "dbl_eps = 1 + 1 / 2 ^ 53"

lemma dbl_eps_ge: "1 \<le> dbl_eps" "0 \<le> dbl_eps" by (simp_all add: dbl_eps_def)

lemma dbl_eps_mono:
  assumes "x \<le> y * dbl_eps ^ i" "i \<le> j" "0 \<le> y"
  shows "x \<le> y * dbl_eps ^ j"
proof -
  have "y * dbl_eps ^ i \<le> y * dbl_eps ^ j"
    using assms by (intro mult_left_mono power_increasing) (auto simp: dbl_eps_ge)
  with assms(1) show ?thesis by simp
qed

end
