(* ===== verification/Geo.thy ===== *)
theory Geo
  imports Float_Math
begin

text \<open>lib/ff_core/geo.h and geo.cpp: geodesy on a spherical Earth, in doubles.\<close>

section \<open>Constants and conversions\<close>

definition kEarthRadiusM :: dbl where "kEarthRadiusM = 6371000"

definition kPi :: dbl where
  "kPi = dbl_round (314159265358979323846 / 100000000000000000000)"

definition toRad :: "dbl \<Rightarrow> dbl" where "toRad deg = dquot (dmul deg kPi) 180"
definition toDeg :: "dbl \<Rightarrow> dbl" where "toDeg rad = dquot (dmul rad 180) kPi"

section \<open>Distance, bearing, destination\<close>

definition distanceM :: "libm \<Rightarrow> dbl \<Rightarrow> dbl \<Rightarrow> dbl \<Rightarrow> dbl \<Rightarrow> dbl option" where
  "distanceM m lat1 lon1 lat2 lon2 =
     (let lat1r = toRad lat1; lon1r = toRad lon1; lat2r = toRad lat2; lon2r = toRad lon2;
          u = lm_sin m (dquot (dsub lat2r lat1r) 2);
          v = lm_sin m (dquot (dsub lon2r lon1r) 2)
      in do {
        s \<leftarrow> m_sqrt (dadd (dmul u u) (dmul (dmul (dmul (lm_cos m lat1r) (lm_cos m lat2r)) v) v));
        a \<leftarrow> m_asin m s;
        Some (dmul (dmul 2 kEarthRadiusM) a)
      })"

definition bearingDeg :: "libm \<Rightarrow> dbl \<Rightarrow> dbl \<Rightarrow> dbl \<Rightarrow> dbl \<Rightarrow> dbl" where
  "bearingDeg m lat1 lon1 lat2 lon2 =
     (let dlon = toRad (dsub lon2 lon1); lat1r = toRad lat1; lat2r = toRad lat2;
          a1 = dmul (lm_sin m dlon) (lm_cos m lat2r);
          a2 = dmul (dmul (lm_sin m lat1r) (lm_cos m lat2r)) (lm_cos m dlon);
          a2 = dsub (dmul (lm_cos m lat1r) (lm_sin m lat2r)) a2;
          a2 = lm_atan2 m a1 a2;
          a2 = (if a2 < 0 then dadd a2 (dmul 2 kPi) else a2)
      in toDeg a2)"

definition pointAtDistance :: "libm \<Rightarrow> dbl \<Rightarrow> dbl \<Rightarrow> dbl \<Rightarrow> dbl \<Rightarrow> (dbl \<times> dbl) option" where
  "pointAtDistance m lat lon dist_m bearing_deg =
     (let lat1 = toRad lat; lon1 = toRad lon; ang = dquot dist_m kEarthRadiusM; brg = toRad bearing_deg
      in do {
        lat2 \<leftarrow> m_asin m (dadd (dmul (lm_sin m lat1) (lm_cos m ang))
                  (dmul (dmul (lm_cos m lat1) (lm_sin m ang)) (lm_cos m brg)));
        let lon2 = dadd lon1 (lm_atan2 m (dmul (dmul (lm_sin m brg) (lm_sin m ang)) (lm_cos m lat1))
                     (dsub (lm_cos m ang) (dmul (lm_sin m lat1) (lm_sin m lat2))));
        Some (toDeg lat2, toDeg lon2)
      })"

section \<open>Lemmas\<close>

lemma dsub_self [simp]: "dsub x x = 0"
  by (simp add: dsub_def)

lemma toRad_0 [simp]: "toRad 0 = 0"
  by (simp add: toRad_def dmul_def dquot_def)

text \<open>A point is at distance zero from itself, whatever the last bits of the library's cosine.\<close>

lemma distanceM_self:
  assumes "lm_sin m 0 = 0" "lm_asin m 0 = 0"
  shows "distanceM m lat lon lat lon = Some 0"
  using assms by (simp add: distanceM_def Let_def dquot_def dmul_def dadd_def m_sqrt_def m_asin_def)

lemma kEarthRadiusM_pos: "0 < kEarthRadiusM" by (simp add: kEarthRadiusM_def)

end
