(* ===== verification/Follow_Config.thy ===== *)
theory Follow_Config
  imports Geo Node_Deps Msp_Fc
begin

text \<open>
  lib/ff_core/follow.h and the pure helpers of follow.cpp: the configuration with its
  compile-time defaults, the slot projection, the geometry rules and the validation of a
  candidate configuration. A \<open>double\<close> field holds a finite number. An error message is
  \<open>Some\<close> text, acceptance is \<open>None\<close>.
\<close>

section \<open>Types\<close>

datatype follow_trigger_mode = FOLLOW_TRIGGER_GCSNAV | FOLLOW_TRIGGER_AUX

datatype follow_heading_mode = FOLLOW_HEADING_OFF | FOLLOW_HEADING_COURSE
  | FOLLOW_HEADING_POINT_LEADER | FOLLOW_HEADING_FIXED | FOLLOW_HEADING_COURSE_RELATIVE

datatype follow_lock_state = FOLLOW_LOCK_IDLE | FOLLOW_LOCK_ACQUIRING | FOLLOW_LOCK_LOCKED
  | FOLLOW_LOCK_LOCKED_HOLDING

datatype follow_condition = FOLLOW_CONDITION_NONE | FOLLOW_CONDITION_FLOOR_CLAMPED
  | FOLLOW_CONDITION_TARGET_TOO_FAR | FOLLOW_CONDITION_RC_INVALID_GAP_SETTINGS

fun condition_code :: "follow_condition \<Rightarrow> i32" where
  "condition_code FOLLOW_CONDITION_NONE = 0"
| "condition_code FOLLOW_CONDITION_FLOOR_CLAMPED = 1"
| "condition_code FOLLOW_CONDITION_TARGET_TOO_FAR = 2"
| "condition_code FOLLOW_CONDITION_RC_INVALID_GAP_SETTINGS = 3"

record follow_offset =
  longitudinal_m :: dbl
  lateral_m :: dbl
  vertical_m :: dbl

record follow_target =
  tg_lat_1e7 :: i32
  tg_lon_1e7 :: i32

record follow_config =
  fw_ofsLongM :: dbl
  fw_ofsLatM :: dbl
  fw_ofsVertM :: dbl
  fw_targetUid :: u32
  fw_emitHz :: u16
  fw_peerTimeoutMs :: u32
  fw_minSepM :: dbl
  fw_minVSepM :: dbl
  fw_maxTargetDistM :: dbl
  fw_minAltM :: dbl
  fw_minCourseSpeed :: dbl
  fw_headingMode :: follow_heading_mode
  fw_headingDeg :: dbl
  fw_statusGvarIndex :: i16
  fw_conditionFlagsGvarIndex :: i16
  fw_rcLongChannel :: i16
  fw_rcLatChannel :: i16
  fw_rcVertChannel :: i16
  fw_targetSpeedGvarIndex :: i16
  fw_autothrottleEngageGvarIndex :: i16
  fw_autothrottleEnableRcChannel :: i16
  fw_autothrottleEnableMinThresholdUs :: i16
  fw_autothrottleEnableMaxThresholdUs :: i16
  fw_speedCorrectionAccelCmS2 :: i16
  fw_minTargetSpeedMps :: dbl
  fw_maxTargetSpeedMps :: dbl
  fw_debug :: bool

definition FOLLOW_TRIGGER_MODE :: follow_trigger_mode where
  "FOLLOW_TRIGGER_MODE = FOLLOW_TRIGGER_GCSNAV"

definition FollowConfig :: follow_config where
  "FollowConfig = \<lparr>fw_ofsLongM = -15, fw_ofsLatM = 0, fw_ofsVertM = 10, fw_targetUid = 0,
     fw_emitHz = 4, fw_peerTimeoutMs = 1500, fw_minSepM = 8, fw_minVSepM = 13,
     fw_maxTargetDistM = 50, fw_minAltM = 3, fw_minCourseSpeed = 2,
     fw_headingMode = FOLLOW_HEADING_POINT_LEADER, fw_headingDeg = 0, fw_statusGvarIndex = -1,
     fw_conditionFlagsGvarIndex = -1, fw_rcLongChannel = -1, fw_rcLatChannel = -1,
     fw_rcVertChannel = -1, fw_targetSpeedGvarIndex = -1, fw_autothrottleEngageGvarIndex = -1,
     fw_autothrottleEnableRcChannel = -1, fw_autothrottleEnableMinThresholdUs = 1700,
     fw_autothrottleEnableMaxThresholdUs = 2100, fw_speedCorrectionAccelCmS2 = 0,
     fw_minTargetSpeedMps = 0, fw_maxTargetSpeedMps = 0, fw_debug = False\<rparr>"

definition kFollowStackedHorizontalEpsilonM :: dbl where "kFollowStackedHorizontalEpsilonM = 1/2"
definition kFollowPrearmMatchEpsilonM :: dbl where "kFollowPrearmMatchEpsilonM = dbl_round (5/100)"
definition kFollowGvarHeartbeatMs :: u32 where "kFollowGvarHeartbeatMs = 5000"
definition kMspMaxRcChannels :: nat where [simp]: "kMspMaxRcChannels = 16"

fun followLockStateName :: "follow_lock_state \<Rightarrow> string" where
  "followLockStateName FOLLOW_LOCK_IDLE = ''IDLE''"
| "followLockStateName FOLLOW_LOCK_ACQUIRING = ''ACQUIRING''"
| "followLockStateName FOLLOW_LOCK_LOCKED = ''LOCKED''"
| "followLockStateName FOLLOW_LOCK_LOCKED_HOLDING = ''LOCKED_HOLDING''"

fun followHeadingModeName :: "follow_heading_mode \<Rightarrow> string" where
  "followHeadingModeName FOLLOW_HEADING_COURSE = ''COURSE''"
| "followHeadingModeName FOLLOW_HEADING_POINT_LEADER = ''POINT_LEADER''"
| "followHeadingModeName FOLLOW_HEADING_FIXED = ''FIXED''"
| "followHeadingModeName FOLLOW_HEADING_COURSE_RELATIVE = ''COURSE_RELATIVE''"
| "followHeadingModeName FOLLOW_HEADING_OFF = ''OFF''"

fun followTriggerModeName :: "follow_trigger_mode \<Rightarrow> string" where
  "followTriggerModeName FOLLOW_TRIGGER_AUX = ''AUX''"
| "followTriggerModeName FOLLOW_TRIGGER_GCSNAV = ''GCSNAV''"

section \<open>Geometry\<close>

definition clampD :: "dbl \<Rightarrow> dbl \<Rightarrow> dbl \<Rightarrow> dbl" where
  "clampD v lo hi = (if v < lo then lo else if v > hi then hi else v)"

definition deg1e7 :: "i32 \<Rightarrow> dbl" where "deg1e7 v = dquot (dbl_of_i32 v) 10000000"

text \<open>\<open>sqrt(x * x + y * y)\<close>.\<close>

definition dhypot :: "dbl \<Rightarrow> dbl \<Rightarrow> dbl" where
  "dhypot x y = dsqrt (dadd (dmul x x) (dmul y y))"

definition slotToLatLon :: "libm \<Rightarrow> i32 \<Rightarrow> i32 \<Rightarrow> dbl \<Rightarrow> dbl \<Rightarrow> dbl \<Rightarrow> follow_target" where
  "slotToLatLon m peer_lat_1e7 peer_lon_1e7 course_deg long_m lat_m =
     (let th = toRad course_deg;
          north_m = dsub (dmul long_m (lm_cos m th)) (dmul lat_m (lm_sin m th));
          east_m = dadd (dmul long_m (lm_sin m th)) (dmul lat_m (lm_cos m th));
          distance_m = dhypot north_m east_m;
          bearing_deg = toDeg (lm_atan2 m east_m north_m);
          bearing_deg = (if bearing_deg < 0 then dadd bearing_deg 360 else bearing_deg);
          dest = pointAtDistance m (deg1e7 peer_lat_1e7) (deg1e7 peer_lon_1e7) distance_m bearing_deg
      in \<lparr>tg_lat_1e7 = lround_i32 m (map_option (\<lambda>(lat, lon). dmul lat 10000000) dest),
          tg_lon_1e7 = lround_i32 m (map_option (\<lambda>(lat, lon). dmul lon 10000000) dest)\<rparr>)"

definition offsetGeometrySane :: "follow_offset \<Rightarrow> dbl \<Rightarrow> dbl \<Rightarrow> string option" where
  "offsetGeometrySane ofs minSepM minVSepM =
     (let horizontalMag = dhypot (longitudinal_m ofs) (lateral_m ofs);
          mag3d = dhypot horizontalMag (vertical_m ofs)
      in if mag3d < minSepM then Some ''slot magnitude is below minSepM (minimum 3D separation)''
         else if horizontalMag < kFollowStackedHorizontalEpsilonM \<and> \<bar>vertical_m ofs\<bar> < minVSepM
         then Some ''stacked slot's vertical offset is below minVSepM''
         else None)"

definition axisSignLocked :: "dbl \<Rightarrow> dbl \<Rightarrow> dbl \<Rightarrow> dbl \<Rightarrow> dbl \<Rightarrow> dbl \<Rightarrow> dbl \<Rightarrow> bool" where
  "axisSignLocked candidateAxis referenceAxis candidateOther1 candidateOther2 referenceOther1
     referenceOther2 minSepM =
     (let crossed = (candidateAxis > 0 \<and> referenceAxis < 0) \<or> (candidateAxis < 0 \<and> referenceAxis > 0)
      in if \<not> crossed then False
         else let coMagCandidate = dhypot candidateOther1 candidateOther2;
                  coMagReference = dhypot referenceOther1 referenceOther2;
                  coMag = (if coMagCandidate < coMagReference then coMagCandidate else coMagReference)
              in coMag < minSepM)"

definition candidateOffsetOk :: "follow_offset \<Rightarrow> follow_offset \<Rightarrow> dbl \<Rightarrow> dbl \<Rightarrow> bool" where
  "candidateOffsetOk cand ref minSepM minVSepM =
     (if offsetGeometrySane cand minSepM minVSepM \<noteq> None then False
      else if axisSignLocked (longitudinal_m cand) (longitudinal_m ref) (lateral_m cand)
                (vertical_m cand) (lateral_m ref) (vertical_m ref) minSepM then False
      else if axisSignLocked (lateral_m cand) (lateral_m ref) (longitudinal_m cand)
                (vertical_m cand) (longitudinal_m ref) (vertical_m ref) minSepM then False
      else if axisSignLocked (vertical_m cand) (vertical_m ref) (longitudinal_m cand)
                (lateral_m cand) (longitudinal_m ref) (lateral_m ref) minSepM then False
      else True)"

definition rcCandidateMatchesStaticDefault :: "follow_offset \<Rightarrow> follow_config \<Rightarrow> bool" where
  "rcCandidateMatchesStaticDefault cand cfg =
     (if sint (fw_rcLongChannel cfg) \<noteq> -1 \<and>
         \<bar>dsub (longitudinal_m cand) (fw_ofsLongM cfg)\<bar> > kFollowPrearmMatchEpsilonM then False
      else if sint (fw_rcLatChannel cfg) \<noteq> -1 \<and>
         \<bar>dsub (lateral_m cand) (fw_ofsLatM cfg)\<bar> > kFollowPrearmMatchEpsilonM then False
      else if sint (fw_rcVertChannel cfg) \<noteq> -1 \<and>
         \<bar>dsub (vertical_m cand) (fw_ofsVertM cfg)\<bar> > kFollowPrearmMatchEpsilonM then False
      else True)"

definition followPeerStale :: "peer option \<Rightarrow> u32 \<Rightarrow> u32 \<Rightarrow> bool" where
  "followPeerStale peer now_ms timeout_ms =
     (case peer of
        None \<Rightarrow> True
      | Some p \<Rightarrow>
          if \<not> pe_valid p then True
          else if pe_flags p AND POSITION_FLAG_HAS_FIX = 0 then True
          else age_ms now_ms (pe_last_position_ms p) > timeout_ms)"

section \<open>Validation\<close>

text \<open>The three range rules of the integer fields.\<close>

definition gvar_out_of_range :: "i16 \<Rightarrow> bool" where
  "gvar_out_of_range i \<longleftrightarrow> sint i < -1 \<or> sint i > 7"

definition rc_out_of_range :: "i16 \<Rightarrow> bool" where
  "rc_out_of_range ch \<longleftrightarrow> sint ch \<noteq> -1 \<and> (sint ch < 1 \<or> sint ch > int kMspMaxRcChannels)"

definition same_index :: "i16 \<Rightarrow> i16 \<Rightarrow> bool" where
  "same_index a b \<longleftrightarrow> sint a \<noteq> -1 \<and> a = b"

definition config_offset :: "follow_config \<Rightarrow> follow_offset" where
  "config_offset cfg = \<lparr>longitudinal_m = fw_ofsLongM cfg, lateral_m = fw_ofsLatM cfg,
     vertical_m = fw_ofsVertM cfg\<rparr>"

definition followValidateConfig :: "follow_config \<Rightarrow> string option" where
  "followValidateConfig n =
     (if fw_emitHz n = 0 then Some ''emitHz must be > 0''
      else if fw_peerTimeoutMs n = 0 then Some ''peerTimeoutMs must be > 0''
      else if fw_minSepM n < 0 \<or> fw_minVSepM n < 0 \<or> fw_minAltM n < 0
      then Some ''minSepM/minVSepM/minAltM must be >= 0''
      else if fw_maxTargetDistM n \<le> 0 then Some ''maxTargetDistM must be > 0''
      else if fw_minCourseSpeed n < 0 then Some ''minCourseSpeed must be >= 0''
      else if gvar_out_of_range (fw_statusGvarIndex n)
      then Some ''statusGvarIndex must be -1 (disabled) or 0-7''
      else if gvar_out_of_range (fw_conditionFlagsGvarIndex n)
      then Some ''conditionFlagsGvarIndex must be -1 (disabled) or 0-7''
      else if rc_out_of_range (fw_rcLongChannel n)
      then Some ''rcLongChannel must be -1 (disabled) or 1-16''
      else if rc_out_of_range (fw_rcLatChannel n)
      then Some ''rcLatChannel must be -1 (disabled) or 1-16''
      else if rc_out_of_range (fw_rcVertChannel n)
      then Some ''rcVertChannel must be -1 (disabled) or 1-16''
      else if gvar_out_of_range (fw_targetSpeedGvarIndex n)
      then Some ''targetSpeedGvarIndex must be -1 (disabled) or 0-7''
      else if gvar_out_of_range (fw_autothrottleEngageGvarIndex n)
      then Some ''autothrottleEngageGvarIndex must be -1 (disabled) or 0-7''
      else if rc_out_of_range (fw_autothrottleEnableRcChannel n)
      then Some ''autothrottleEnableRcChannel must be -1 (disabled) or 1-16''
      else if same_index (fw_statusGvarIndex n) (fw_conditionFlagsGvarIndex n) \<or>
              same_index (fw_statusGvarIndex n) (fw_targetSpeedGvarIndex n) \<or>
              same_index (fw_statusGvarIndex n) (fw_autothrottleEngageGvarIndex n) \<or>
              same_index (fw_conditionFlagsGvarIndex n) (fw_targetSpeedGvarIndex n) \<or>
              same_index (fw_conditionFlagsGvarIndex n) (fw_autothrottleEngageGvarIndex n) \<or>
              same_index (fw_targetSpeedGvarIndex n) (fw_autothrottleEngageGvarIndex n)
      then Some ''GVAR indices must be unique (or -1/disabled)''
      else if same_index (fw_rcLongChannel n) (fw_rcLatChannel n) \<or>
              same_index (fw_rcLongChannel n) (fw_rcVertChannel n) \<or>
              same_index (fw_rcLatChannel n) (fw_rcVertChannel n)
      then Some ''rcLongChannel/rcLatChannel/rcVertChannel must be unique (or -1/disabled)''
      else if sint (fw_autothrottleEnableRcChannel n) \<noteq> -1 \<and>
              (fw_autothrottleEnableRcChannel n = fw_rcLongChannel n \<or>
               fw_autothrottleEnableRcChannel n = fw_rcLatChannel n \<or>
               fw_autothrottleEnableRcChannel n = fw_rcVertChannel n)
      then Some ''autothrottleEnableRcChannel must differ from the RC axis channels (or -1/disabled)''
      else if sint (fw_autothrottleEnableMaxThresholdUs n) \<le> sint (fw_autothrottleEnableMinThresholdUs n)
      then Some ''autothrottleEnableMaxThresholdUs must be > autothrottleEnableMinThresholdUs''
      else if sint (fw_autothrottleEnableRcChannel n) \<noteq> -1 \<and>
              (fw_minTargetSpeedMps n \<le> 0 \<or> fw_maxTargetSpeedMps n \<le> fw_minTargetSpeedMps n)
      then Some ''minTargetSpeedMps must be > 0 and maxTargetSpeedMps must be > minTargetSpeedMps when autothrottleEnableRcChannel is set''
      else if sint (fw_speedCorrectionAccelCmS2 n) < 0
      then Some ''speedCorrectionAccelCmS2 must be >= 0''
      else offsetGeometrySane (config_offset n) (fw_minSepM n) (fw_minVSepM n))"

section \<open>Lemmas\<close>

declare of_nat_unat [simp del]

lemma dmul_square: "0 \<le> dmul x x \<and> dmul x x \<le> x * x * dbl_eps"
  using round_to_upper [of "x * x" 53] by (simp add: dmul_def dbl_eps_def round_to_nonneg)

text \<open>The square of a computed hypotenuse exceeds the exact sum of squares by four roundings.\<close>

lemma dhypot_upper: "0 \<le> dhypot x y \<and> dhypot x y * dhypot x y \<le> (x * x + y * y) * dbl_eps ^ 4"
proof -
  define a where "a = dadd (dmul x x) (dmul y y)"
  note sq = dmul_square [of x] dmul_square [of y]
  have s: "0 \<le> dmul x x + dmul y y" "dmul x x + dmul y y \<le> (x * x + y * y) * dbl_eps"
    using sq by (simp_all add: distrib_right)
  have a: "0 \<le> a" "a \<le> (dmul x x + dmul y y) * dbl_eps"
    using s(1) round_to_upper [of "dmul x x + dmul y y" 53] by (simp_all add: a_def dadd_def dbl_eps_def round_to_nonneg)
  have "dsqrt a * dsqrt a \<le> a * (dbl_eps * dbl_eps)"
    unfolding dsqrt_def dbl_eps_def by (rule sqrt_to_upper) (use a in auto)
  also have "\<dots> \<le> (dmul x x + dmul y y) * dbl_eps * (dbl_eps * dbl_eps)"
    using a(2) by (intro mult_right_mono) (simp_all add: dbl_eps_ge)
  also have "\<dots> \<le> (x * x + y * y) * dbl_eps * dbl_eps * (dbl_eps * dbl_eps)"
    using s(2) by (intro mult_right_mono) (simp_all add: dbl_eps_ge)
  also have "\<dots> = (x * x + y * y) * dbl_eps ^ 4" by (simp add: power_numeral_reduce)
  finally show ?thesis by (simp add: dhypot_def a_def dsqrt_def sqrt_to_nonneg)
qed

lemma candidate_sane: "candidateOffsetOk cand ref a b \<Longrightarrow> offsetGeometrySane cand a b = None"
  by (simp add: candidateOffsetOk_def split: if_splits)

lemma same_offset_ok: "candidateOffsetOk ofs ofs a b \<longleftrightarrow> offsetGeometrySane ofs a b = None"
  by (auto simp: candidateOffsetOk_def axisSignLocked_def Let_def)

text \<open>The rules of a configuration, said once: an enabled index or channel is one that is not -1.\<close>

definition enabled :: "i16 list \<Rightarrow> i16 list" where
  "enabled is = filter (\<lambda>i. i \<noteq> -1) is"

definition gvar_indices :: "follow_config \<Rightarrow> i16 list" where
  "gvar_indices cfg = [fw_statusGvarIndex cfg, fw_conditionFlagsGvarIndex cfg,
     fw_targetSpeedGvarIndex cfg, fw_autothrottleEngageGvarIndex cfg]"

definition rc_channels :: "follow_config \<Rightarrow> i16 list" where
  "rc_channels cfg = [fw_rcLongChannel cfg, fw_rcLatChannel cfg, fw_rcVertChannel cfg,
     fw_autothrottleEnableRcChannel cfg]"

definition follow_config_ok :: "follow_config \<Rightarrow> bool" where
  "follow_config_ok cfg \<longleftrightarrow>
     fw_emitHz cfg \<noteq> 0 \<and> fw_peerTimeoutMs cfg \<noteq> 0 \<and>
     0 \<le> fw_minSepM cfg \<and> 0 \<le> fw_minVSepM cfg \<and> 0 \<le> fw_minAltM cfg \<and>
     0 < fw_maxTargetDistM cfg \<and> 0 \<le> fw_minCourseSpeed cfg \<and>
     list_all (\<lambda>i. unat i \<le> 7) (enabled (gvar_indices cfg)) \<and> distinct (enabled (gvar_indices cfg)) \<and>
     list_all (\<lambda>ch. 1 \<le> unat ch \<and> unat ch \<le> 16) (enabled (rc_channels cfg)) \<and>
     distinct (enabled (rc_channels cfg)) \<and>
     sint (fw_autothrottleEnableMinThresholdUs cfg) < sint (fw_autothrottleEnableMaxThresholdUs cfg) \<and>
     (fw_autothrottleEnableRcChannel cfg = -1 \<or>
        0 < fw_minTargetSpeedMps cfg \<and> fw_minTargetSpeedMps cfg < fw_maxTargetSpeedMps cfg) \<and>
     0 \<le> sint (fw_speedCorrectionAccelCmS2 cfg) \<and>
     offsetGeometrySane (config_offset cfg) (fw_minSepM cfg) (fw_minVSepM cfg) = None"

lemma sint_m1: "sint (i :: i16) = -1 \<longleftrightarrow> i = -1"
  by (metis signed_minus_1 signed_word_eqI)

lemma unat_m1: "unat (i :: i16) = 65535 \<longleftrightarrow> i = -1"
proof -
  have "unat (-1 :: i16) = 65535" by (simp add: unsigned_minus_1_eq_mask mask_eq_exp_minus_1)
  then show ?thesis by (metis word_eq_unat)
qed

lemma gvar_range: "gvar_out_of_range i \<longleftrightarrow> i \<noteq> -1 \<and> \<not> unat i \<le> 7"
  unfolding gvar_out_of_range_def sint_u16 unat_m1 [symmetric]
  using unat_u16_lt [of i] by (cases "unat i < 32768"; simp; linarith)

lemma rc_range: "rc_out_of_range i \<longleftrightarrow> i \<noteq> -1 \<and> \<not> (1 \<le> unat i \<and> unat i \<le> 16)"
  unfolding rc_out_of_range_def sint_m1 unat_m1 [symmetric] sint_u16
  using unat_u16_lt [of i] by (cases "unat i < 32768"; simp; linarith)

lemma reject_first: "(if c then Some e else r) = None \<longleftrightarrow> \<not> c \<and> r = None"
  by simp

lemma validated:
  "followValidateConfig n = None \<Longrightarrow>
     fw_emitHz n \<noteq> 0 \<and> offsetGeometrySane (config_offset n) (fw_minSepM n) (fw_minVSepM n) = None"
  by (simp only: followValidateConfig_def reject_first simp_thms)

section \<open>Properties\<close>

text \<open>C15: The validation is its rule book: a configuration is accepted exactly when every bound
  holds, the enabled GVAR indices are distinct and in 0 to 7, the enabled RC channels (axes and
  arm switch together) are distinct and in 1 to 16, the thresholds and speed bounds are in order
  and the configured slot is geometrically sane.\<close>

theorem followValidateConfig_rules:
  "followValidateConfig cfg = None \<longleftrightarrow> follow_config_ok cfg"
proof -
  have g: "list_all (\<lambda>i. unat i \<le> 7) (enabled is) \<longleftrightarrow> list_all (\<lambda>i. \<not> gvar_out_of_range i) is" for "is"
    by (induction "is") (auto simp: enabled_def gvar_range)
  have r: "list_all (\<lambda>ch. 1 \<le> unat ch \<and> unat ch \<le> 16) (enabled is) \<longleftrightarrow>
      list_all (\<lambda>i. \<not> rc_out_of_range i) is" for "is"
    by (induction "is") (auto simp: enabled_def rc_range)
  have d: "distinct (enabled [a, b, c, e]) \<longleftrightarrow> \<not> (same_index a b \<or> same_index a c \<or> same_index a e \<or>
      same_index b c \<or> same_index b e \<or> same_index c e)" for a b c e
    by (auto simp: enabled_def same_index_def sint_m1)
  have e: "sint x \<noteq> -1 \<and> (x = a \<or> x = b \<or> x = c) \<longleftrightarrow> same_index a x \<or> same_index b x \<or> same_index c x"
    for x a b c
    by (auto simp: same_index_def sint_m1)
  have n: "followValidateConfig cfg = None \<longleftrightarrow>
      fw_emitHz cfg \<noteq> 0 \<and> fw_peerTimeoutMs cfg \<noteq> 0 \<and>
      \<not> (fw_minSepM cfg < 0 \<or> fw_minVSepM cfg < 0 \<or> fw_minAltM cfg < 0) \<and>
      \<not> fw_maxTargetDistM cfg \<le> 0 \<and> \<not> fw_minCourseSpeed cfg < 0 \<and>
      list_all (\<lambda>i. \<not> gvar_out_of_range i) (gvar_indices cfg) \<and> distinct (enabled (gvar_indices cfg)) \<and>
      list_all (\<lambda>i. \<not> rc_out_of_range i) (rc_channels cfg) \<and> distinct (enabled (rc_channels cfg)) \<and>
      \<not> sint (fw_autothrottleEnableMaxThresholdUs cfg) \<le> sint (fw_autothrottleEnableMinThresholdUs cfg) \<and>
      \<not> (sint (fw_autothrottleEnableRcChannel cfg) \<noteq> -1 \<and>
         (fw_minTargetSpeedMps cfg \<le> 0 \<or> fw_maxTargetSpeedMps cfg \<le> fw_minTargetSpeedMps cfg)) \<and>
      \<not> sint (fw_speedCorrectionAccelCmS2 cfg) < 0 \<and>
      offsetGeometrySane (config_offset cfg) (fw_minSepM cfg) (fw_minVSepM cfg) = None"
    unfolding followValidateConfig_def reject_first gvar_indices_def rc_channels_def d list.pred_inject e
    by (simp only: de_Morgan_disj conj_ac simp_thms list.pred_inject(1))
  show ?thesis unfolding n follow_config_ok_def g r sint_m1 by (simp only: not_less not_le de_Morgan_disj de_Morgan_conj not_not conj_assoc)
qed

text \<open>A sane slot is a safe distance from the leader in the real plane, not only in the
  computed one: whatever the roundings of the check do, the exact length of an accepted
  offset is the minimum separation up to a factor of at most \<open>(1 + 2 ^ -53) ^ 4\<close>.\<close>

theorem sane_offset_separated:
  assumes "offsetGeometrySane ofs minSepM minVSepM = None" "0 \<le> minSepM"
  shows "minSepM * minSepM \<le>
    (longitudinal_m ofs * longitudinal_m ofs + lateral_m ofs * lateral_m ofs +
     vertical_m ofs * vertical_m ofs) * (1 + 1 / 2 ^ 53) ^ 8"
proof -
  define h where "h = dhypot (longitudinal_m ofs) (lateral_m ofs)"
  let ?plane = "longitudinal_m ofs * longitudinal_m ofs + lateral_m ofs * lateral_m ofs"
  let ?v = "vertical_m ofs * vertical_m ofs"
  have "minSepM \<le> dhypot h (vertical_m ofs)"
    using assms(1) by (simp add: offsetGeometrySane_def Let_def h_def not_less split: if_splits)
  then have "minSepM * minSepM \<le> dhypot h (vertical_m ofs) * dhypot h (vertical_m ofs)"
    using assms(2) by (intro mult_mono) auto
  also have "\<dots> \<le> (h * h + ?v) * dbl_eps ^ 4" using dhypot_upper by blast
  also have "\<dots> \<le> (?plane + ?v) * dbl_eps ^ 4 * dbl_eps ^ 4"
  proof (rule mult_right_mono)
    have "h * h \<le> ?plane * dbl_eps ^ 4" using dhypot_upper by (simp add: h_def)
    moreover have "?v * 1 \<le> ?v * dbl_eps ^ 4" by (rule mult_left_mono) (simp_all add: dbl_eps_ge one_le_power)
    ultimately show "h * h + ?v \<le> (?plane + ?v) * dbl_eps ^ 4" unfolding distrib_right by linarith
  qed (simp add: dbl_eps_ge)
  also have "\<dots> = (?plane + ?v) * dbl_eps ^ 8" by (simp flip: power_add add: mult.assoc)
  finally show ?thesis by (simp only: dbl_eps_def)
qed

theorem sane_offset_separated_witness:
  "(8 :: rat) * 8 \<le> (15 * 15 + 0 * 0 + 10 * 10) * (1 + 1 / 2 ^ 53) ^ 8"
proof -
  have "offsetGeometrySane (config_offset FollowConfig) 8 13 = None" by code_simp
  from sane_offset_separated [OF this] show ?thesis by (simp add: config_offset_def FollowConfig_def)
qed

end
