(* ===== verification/Follow.thy ===== *)
theory Follow
  imports Follow_Config
begin

text \<open>
  lib/ff_core/follow.h and follow.cpp: the \<open>FollowController\<close>. The flight controller behind
  \<open>IFollowFc\<close> answers reads from a cache, so one control cycle sees the record \<open>fc_view\<close> of
  its answers; the writes are the list of commands a cycle sends, in order. The peer table and
  the node's own position, which the controller borrows, are arguments.
\<close>

section \<open>Flight controller\<close>

record fc_view =
  fc_armed :: bool
  fc_gcsNav :: bool
  fc_headingHold :: bool
  fc_rc :: "u8 \<Rightarrow> u16 option"
  fc_localAltitudeCm :: i32
  fc_platformType :: fc_platform

datatype fc_cmd = TelemetryNeeds bool bool | FollowWaypoint i32 i32 i32 i16 | SetHead i16 | Gvar u8 i32

section \<open>State\<close>

record follow =
  fo_config :: follow_config
  fo_started :: bool
  fo_nextRunMs :: u32
  fo_state :: follow_lock_state
  fo_lockedUid :: u32
  fo_lockedName :: byte_list
  fo_lastValidCourseDeg :: dbl
  fo_haveValidCourse :: bool
  fo_haveLastTarget :: bool
  fo_lastTarget :: follow_target
  fo_lastTargetAltCm :: i32
  fo_lastTargetHeadingDeg :: i16
  fo_lastTargetMs :: u32
  fo_lastSentStatus :: i32
  fo_lastSentConditionFlags :: i32
  fo_lastStatusSendMs :: u32
  fo_lastConditionFlagsSendMs :: u32
  fo_lastSentEngage :: i32
  fo_lastEngageSendMs :: u32
  fo_lastTargetSpeedCmS :: i32
  fo_lastAutothrottleEngaged :: bool
  fo_lastKnownGood :: follow_offset
  fo_rcSlotFrozen :: bool
  fo_rcPreArmCheckFailed :: bool
  fo_preArmCandidateOffset :: follow_offset
  fo_havePreArmCandidateOffset :: bool
  fo_lastLiveOffset :: follow_offset

definition INT32_MIN :: i32 where "INT32_MIN = 0x80000000"

definition zero_offset :: follow_offset where
  "zero_offset = \<lparr>longitudinal_m = 0, lateral_m = 0, vertical_m = 0\<rparr>"

definition FollowController :: follow where
  "FollowController = \<lparr>fo_config = FollowConfig, fo_started = False, fo_nextRunMs = 0,
     fo_state = FOLLOW_LOCK_IDLE, fo_lockedUid = 0, fo_lockedName = replicate (kMaxNameLen + 1) 0,
     fo_lastValidCourseDeg = 0, fo_haveValidCourse = False, fo_haveLastTarget = False,
     fo_lastTarget = \<lparr>tg_lat_1e7 = 0, tg_lon_1e7 = 0\<rparr>, fo_lastTargetAltCm = 0,
     fo_lastTargetHeadingDeg = 0, fo_lastTargetMs = 0, fo_lastSentStatus = INT32_MIN,
     fo_lastSentConditionFlags = INT32_MIN, fo_lastStatusSendMs = 0,
     fo_lastConditionFlagsSendMs = 0, fo_lastSentEngage = INT32_MIN, fo_lastEngageSendMs = 0,
     fo_lastTargetSpeedCmS = 0, fo_lastAutothrottleEngaged = False,
     fo_lastKnownGood = config_offset FollowConfig, fo_rcSlotFrozen = False,
     fo_rcPreArmCheckFailed = False, fo_preArmCandidateOffset = zero_offset,
     fo_havePreArmCandidateOffset = False, fo_lastLiveOffset = zero_offset\<rparr>"

section \<open>GVAR reports\<close>

fun statusGvarValue :: "follow_lock_state \<Rightarrow> i32" where
  "statusGvarValue FOLLOW_LOCK_ACQUIRING = 1"
| "statusGvarValue FOLLOW_LOCK_LOCKED = 2"
| "statusGvarValue FOLLOW_LOCK_LOCKED_HOLDING = 3"
| "statusGvarValue FOLLOW_LOCK_IDLE = 0"

text \<open>The new \<open>lastSent\<close> and \<open>lastSendMs\<close>, and what is sent.\<close>

definition sendGvarIfDue ::
  "i16 \<Rightarrow> i32 \<Rightarrow> i32 \<Rightarrow> u32 \<Rightarrow> u32 \<Rightarrow> i32 \<times> u32 \<times> fc_cmd list" where
  "sendGvarIfDue gvarIndex value lastSent lastSendMs now =
     (if sint gvarIndex < 0 then (lastSent, lastSendMs, [])
      else if lastSent = INT32_MIN \<or> value \<noteq> lastSent \<or>
              age_ms now lastSendMs \<ge> kFollowGvarHeartbeatMs
      then (value, now, [Gvar (ucast gvarIndex) value])
      else (lastSent, lastSendMs, []))"

definition updateStatusGvars ::
  "follow \<Rightarrow> follow_condition \<Rightarrow> u32 \<Rightarrow> follow \<times> fc_cmd list" where
  "updateStatusGvars c conditionCode now_ms =
     (let (sent, ms, cmds) = sendGvarIfDue (fw_statusGvarIndex (fo_config c))
            (statusGvarValue (fo_state c)) (fo_lastSentStatus c) (fo_lastStatusSendMs c) now_ms;
          (sent', ms', cmds') = sendGvarIfDue (fw_conditionFlagsGvarIndex (fo_config c))
            (condition_code conditionCode) (fo_lastSentConditionFlags c)
            (fo_lastConditionFlagsSendMs c) now_ms
      in (c\<lparr>fo_lastSentStatus := sent, fo_lastStatusSendMs := ms,
            fo_lastSentConditionFlags := sent', fo_lastConditionFlagsSendMs := ms'\<rparr>, cmds @ cmds'))"

definition updateAutothrottleGvars ::
  "follow \<Rightarrow> bool \<Rightarrow> i32 \<Rightarrow> u32 \<Rightarrow> follow \<times> fc_cmd list" where
  "updateAutothrottleGvars c engaged targetSpeedCmS now_ms =
     (let (sent, ms, cmds) = sendGvarIfDue (fw_autothrottleEngageGvarIndex (fo_config c))
            (if engaged then 1 else 0) (fo_lastSentEngage c) (fo_lastEngageSendMs c) now_ms
      in (c\<lparr>fo_lastSentEngage := sent, fo_lastEngageSendMs := ms\<rparr>,
          cmds @ (if engaged \<and> sint (fw_targetSpeedGvarIndex (fo_config c)) \<ge> 0
                  then [Gvar (ucast (fw_targetSpeedGvarIndex (fo_config c))) targetSpeedCmS] else [])))"

text \<open>The lambda \<open>bail\<close> of \<open>service\<close>.\<close>

definition bail :: "follow \<Rightarrow> follow_condition \<Rightarrow> u32 \<Rightarrow> follow \<times> fc_cmd list" where
  "bail c code now_ms =
     (let (c, cmds) = updateStatusGvars c code now_ms;
          (c, cmds') = updateAutothrottleGvars c False 0 now_ms
      in (c, cmds @ cmds'))"

text \<open>Bearing and distance as a north and east offset; NaN when the distance is.\<close>

definition horizontalOffsetM :: "libm \<Rightarrow> node_location \<Rightarrow> dbl \<Rightarrow> dbl \<Rightarrow> (dbl \<times> dbl) option" where
  "horizontalOffsetM m self lat lon =
     (let selfLat = deg1e7 (loc_lat self); selfLon = deg1e7 (loc_lon self);
          bearingRad = toRad (bearingDeg m selfLat selfLon lat lon)
      in do {
        distM \<leftarrow> distanceM m selfLat selfLon lat lon;
        Some (dmul distM (lm_cos m bearingRad), dmul distM (lm_sin m bearingRad))
      })"

definition updateDebugGvars ::
  "libm \<Rightarrow> follow \<Rightarrow> i32 \<Rightarrow> i32 \<Rightarrow> i32 \<Rightarrow> i16 \<Rightarrow> node_location \<Rightarrow> fc_cmd list" where
  "updateDebugGvars m c lat_1e7 lon_1e7 altCm headingDeg self =
     (if \<not> fw_debug (fo_config c) then []
      else let ofs = horizontalOffsetM m self (deg1e7 lat_1e7) (deg1e7 lon_1e7)
           in [Gvar 0 (lround_i32 m (map_option (\<lambda>(north_m, east_m). dmul north_m 100) ofs)),
               Gvar 1 (lround_i32 m (map_option (\<lambda>(north_m, east_m). dmul east_m 100) ofs)),
               Gvar 2 altCm, Gvar 3 (scast headingDeg)])"

section \<open>Target lock\<close>

definition followSwitchActive :: "fc_view \<Rightarrow> bool" where
  "followSwitchActive fc =
     (case FOLLOW_TRIGGER_MODE of
        FOLLOW_TRIGGER_GCSNAV \<Rightarrow> fc_gcsNav fc
      | FOLLOW_TRIGGER_AUX \<Rightarrow> False)"

text \<open>\<open>strncpy\<close> into the name buffer and its terminator.\<close>

definition copy_locked_name :: "byte_list \<Rightarrow> byte_list" where
  "copy_locked_name name =
     (let n = boundedLen name kMaxNameLen in take n name @ replicate (kMaxNameLen + 1 - n) 0)"

definition peer_distance :: "libm \<Rightarrow> node_location \<Rightarrow> peer \<Rightarrow> dbl option" where
  "peer_distance m self p =
     distanceM m (deg1e7 (loc_lat self)) (deg1e7 (loc_lon self)) (deg1e7 (pe_lat p)) (deg1e7 (pe_lon p))"

text \<open>The loop of the nearest-peer search over the table's slots.\<close>

fun nearest_scan ::
  "libm \<Rightarrow> peer_table \<Rightarrow> node_location \<Rightarrow> u32 \<Rightarrow> u32 \<Rightarrow> nat list \<Rightarrow> peer option \<Rightarrow> dbl option \<Rightarrow> peer option" where
  "nearest_scan m t self now_ms timeout [] candidate bestDistM = candidate"
| "nearest_scan m t self now_ms timeout (i # is) candidate bestDistM =
     (if followPeerStale (pt_at t i) now_ms timeout
      then nearest_scan m t self now_ms timeout is candidate bestDistM
      else if \<not> loc_valid self then pt_at t i
      else let distM = peer_distance m self (the (pt_at t i))
           in if candidate = None \<or> dbl_less distM bestDistM
              then nearest_scan m t self now_ms timeout is (pt_at t i) distM
              else nearest_scan m t self now_ms timeout is candidate bestDistM)"

definition lock_candidate ::
  "libm \<Rightarrow> peer_table \<Rightarrow> node_location \<Rightarrow> follow_config \<Rightarrow> u32 \<Rightarrow> peer option" where
  "lock_candidate m t self cfg now_ms =
     (if fw_targetUid cfg \<noteq> 0
      then (let p = pt_find t (fw_targetUid cfg)
            in if \<not> followPeerStale p now_ms (fw_peerTimeoutMs cfg) then p else None)
      else nearest_scan m t self now_ms (fw_peerTimeoutMs cfg) [0..<kMaxPeers] None (Some 0))"

definition resolveLock ::
  "libm \<Rightarrow> peer_table \<Rightarrow> node_location \<Rightarrow> follow \<Rightarrow> u32 \<Rightarrow> follow \<times> peer option" where
  "resolveLock m t self c now_ms =
     (let c = (if fo_state c = FOLLOW_LOCK_IDLE then c\<lparr>fo_state := FOLLOW_LOCK_ACQUIRING\<rparr> else c);
          timeout = fw_peerTimeoutMs (fo_config c)
      in if fo_state c = FOLLOW_LOCK_ACQUIRING then
           (case lock_candidate m t self (fo_config c) now_ms of
              None \<Rightarrow> (c, None)
            | Some p \<Rightarrow>
                (c\<lparr>fo_lockedUid := pe_uid p, fo_lockedName := copy_locked_name (pe_name p),
                   fo_state := FOLLOW_LOCK_LOCKED\<rparr>, Some p))
         else if fo_state c = FOLLOW_LOCK_LOCKED then
           (let p = pt_find t (fo_lockedUid c)
            in if followPeerStale p now_ms timeout
               then (c\<lparr>fo_state := FOLLOW_LOCK_LOCKED_HOLDING\<rparr>, None) else (c, p))
         else
           (case pt_find t (fo_lockedUid c) of
              None \<Rightarrow> (c, None)
            | Some p \<Rightarrow>
                if followPeerStale (Some p) now_ms timeout then (c, None)
                else (c\<lparr>fo_lockedName := copy_locked_name (pe_name p),
                        fo_state := FOLLOW_LOCK_LOCKED\<rparr>, Some p)))"

definition forceReacquire :: "follow \<Rightarrow> follow" where
  "forceReacquire c = c\<lparr>fo_state := FOLLOW_LOCK_ACQUIRING, fo_lockedUid := 0,
     fo_lockedName := (fo_lockedName c)[0 := 0]\<rparr>"

section \<open>Course, heading, speed\<close>

definition resolveCourseDeg :: "libm \<Rightarrow> follow \<Rightarrow> peer \<Rightarrow> follow \<times> dbl" where
  "resolveCourseDeg m c peer =
     (let minSpeedCmS = lround_i32 m (Some (dmul (fw_minCourseSpeed (fo_config c)) 100));
          course = dquot (dbl_of_u16 (pe_course_ddeg peer)) 10
      in if int (unat (pe_speed_cms peer)) \<ge> sint minSpeedCmS
         then (c\<lparr>fo_haveValidCourse := True, fo_lastValidCourseDeg := course\<rparr>, course)
         else if fo_haveValidCourse c then (c, fo_lastValidCourseDeg c)
         else (c, course))"

definition wrap_heading :: "i32 \<Rightarrow> i16" where
  "wrap_heading raw =
     (let deg = sint raw smod 360;
          deg = (if deg < 0 then deg + 360 else deg);
          deg = (if deg = 0 then 1 else deg)
      in word_of_int deg)"

definition resolveHeadingDeg ::
  "libm \<Rightarrow> follow_config \<Rightarrow> peer \<Rightarrow> dbl \<Rightarrow> node_location \<Rightarrow> i16" where
  "resolveHeadingDeg m cfg peer courseDeg self =
     (let wrap = (\<lambda>raw. wrap_heading (lround_i32 m (Some raw)))
      in case fw_headingMode cfg of
           FOLLOW_HEADING_COURSE \<Rightarrow> wrap courseDeg
         | FOLLOW_HEADING_POINT_LEADER \<Rightarrow>
             wrap (bearingDeg m (deg1e7 (loc_lat self)) (deg1e7 (loc_lon self))
                     (deg1e7 (pe_lat peer)) (deg1e7 (pe_lon peer)))
         | FOLLOW_HEADING_FIXED \<Rightarrow> wrap (fw_headingDeg cfg)
         | FOLLOW_HEADING_COURSE_RELATIVE \<Rightarrow> wrap (dadd courseDeg (fw_headingDeg cfg))
         | FOLLOW_HEADING_OFF \<Rightarrow> 0)"

definition resolveAlongTrackErrorM ::
  "libm \<Rightarrow> follow_target \<Rightarrow> dbl \<Rightarrow> node_location \<Rightarrow> dbl option" where
  "resolveAlongTrackErrorM m tg courseDeg self = do {
     (north_m, east_m) \<leftarrow> horizontalOffsetM m self (deg1e7 (tg_lat_1e7 tg)) (deg1e7 (tg_lon_1e7 tg));
     let th = toRad courseDeg;
     Some (dadd (dmul north_m (lm_cos m th)) (dmul east_m (lm_sin m th)))
   }"

text \<open>The closing speed for an along-track error, in \<open>float\<close>.\<close>

definition correctionCmS :: "i16 \<Rightarrow> dbl \<Rightarrow> flt" where
  "correctionCmS accel alongTrackErrorM =
     (let errorCm = flt_round (dmul alongTrackErrorM 100); aCmS2 = dbl_of_i16 accel
      in copysign (fsqrt (fmul (fmul 2 aCmS2) \<bar>errorCm\<bar>)) errorCm)"

text \<open>\<open>clampD\<close> leaves NaN alone.\<close>

definition resolveTargetSpeedCmS ::
  "libm \<Rightarrow> follow_config \<Rightarrow> peer \<Rightarrow> follow_target \<Rightarrow> dbl \<Rightarrow> node_location \<Rightarrow> i32" where
  "resolveTargetSpeedCmS m cfg peer tg courseDeg self =
     (let targetSpeedCmS = map_option
            (\<lambda>e. dadd (dbl_of_u16 (pe_speed_cms peer)) (correctionCmS (fw_speedCorrectionAccelCmS2 cfg) e))
            (resolveAlongTrackErrorM m tg courseDeg self);
          minCmS = dmul (fw_minTargetSpeedMps cfg) 100;
          maxCmS = dmul (fw_maxTargetSpeedMps cfg) 100
      in lround_i32 m (map_option (\<lambda>v. clampD v minCmS maxCmS) targetSpeedCmS))"

section \<open>Slot offset from the RC sticks\<close>

definition resolveAxisOffset :: "fc_view \<Rightarrow> dbl \<Rightarrow> i16 \<Rightarrow> dbl" where
  "resolveAxisOffset fc configuredM channel1Based =
     (if sint channel1Based < 1 then configuredM
      else case fc_rc fc (ucast channel1Based) of
             None \<Rightarrow> configuredM
           | Some us \<Rightarrow>
               let gap = \<bar>configuredM\<bar>;
                   usClamped = (if us < 1000 then 1000 else if us > 2000 then 2000 else us);
                   frac = dquot (dsub (dbl_of_u16 usClamped) 1500) 500
               in dmul frac gap)"

definition anyRcChannelAssigned :: "follow_config \<Rightarrow> bool" where
  "anyRcChannelAssigned cfg \<longleftrightarrow> sint (fw_rcLongChannel cfg) \<noteq> -1 \<or> sint (fw_rcLatChannel cfg) \<noteq> -1 \<or>
     sint (fw_rcVertChannel cfg) \<noteq> -1"

definition autothrottleArmed :: "fc_view \<Rightarrow> follow_config \<Rightarrow> bool" where
  "autothrottleArmed fc cfg =
     (if sint (fw_autothrottleEnableRcChannel cfg) < 1 then True
      else case fc_rc fc (ucast (fw_autothrottleEnableRcChannel cfg)) of
             None \<Rightarrow> True
           | Some us \<Rightarrow> int (unat us) \<ge> sint (fw_autothrottleEnableMinThresholdUs cfg) \<and>
                       int (unat us) \<le> sint (fw_autothrottleEnableMaxThresholdUs cfg))"

definition resolveCandidateOffset :: "fc_view \<Rightarrow> follow_config \<Rightarrow> follow_offset" where
  "resolveCandidateOffset fc cfg =
     \<lparr>longitudinal_m = resolveAxisOffset fc (fw_ofsLongM cfg) (fw_rcLongChannel cfg),
      lateral_m = resolveAxisOffset fc (fw_ofsLatM cfg) (fw_rcLatChannel cfg),
      vertical_m = resolveAxisOffset fc (fw_ofsVertM cfg) (fw_rcVertChannel cfg)\<rparr>"

definition resolveOffset :: "fc_view \<Rightarrow> follow \<Rightarrow> follow" where
  "resolveOffset fc c =
     (let cand = resolveCandidateOffset fc (fo_config c);
          ok = candidateOffsetOk cand (fo_lastKnownGood c) (fw_minSepM (fo_config c))
                 (fw_minVSepM (fo_config c));
          c = c\<lparr>fo_rcSlotFrozen := \<not> ok\<rparr>
      in if ok then c\<lparr>fo_lastKnownGood := cand\<rparr> else c)"

definition targetTooFar :: "libm \<Rightarrow> follow_config \<Rightarrow> follow_target \<Rightarrow> node_location \<Rightarrow> bool" where
  "targetTooFar m cfg tg self =
     dbl_less (Some (fw_maxTargetDistM cfg))
       (distanceM m (deg1e7 (loc_lat self)) (deg1e7 (loc_lon self))
          (deg1e7 (tg_lat_1e7 tg)) (deg1e7 (tg_lon_1e7 tg)))"

section \<open>The control cycle\<close>

text \<open>The parts of \<open>service\<close>: the pre-arm check, the reset when the gate is off, the commanded
  altitude with its floor, the condition code, and the cycle behind the lock.\<close>

definition prearm_check :: "fc_view \<Rightarrow> follow \<Rightarrow> follow" where
  "prearm_check fc c =
     (let c = c\<lparr>fo_rcPreArmCheckFailed := False, fo_havePreArmCandidateOffset := False\<rparr>
      in if \<not> fc_armed fc \<and> anyRcChannelAssigned (fo_config c) then
           let cand = resolveCandidateOffset fc (fo_config c)
           in c\<lparr>fo_preArmCandidateOffset := cand, fo_havePreArmCandidateOffset := True,
                fo_rcPreArmCheckFailed :=
                  \<not> candidateOffsetOk cand (fo_lastKnownGood c) (fw_minSepM (fo_config c))
                      (fw_minVSepM (fo_config c)) \<or>
                  \<not> rcCandidateMatchesStaticDefault cand (fo_config c)\<rparr>
         else c)"

definition gate_reset :: "follow \<Rightarrow> follow" where
  "gate_reset c = c\<lparr>fo_state := FOLLOW_LOCK_IDLE, fo_lockedUid := 0,
     fo_lockedName := (fo_lockedName c)[0 := 0], fo_haveValidCourse := False\<rparr>"

definition floorCm :: "libm \<Rightarrow> follow_config \<Rightarrow> i32" where
  "floorCm m cfg = lround_i32 m (Some (dmul (fw_minAltM cfg) 100))"

definition altCmD :: "fc_view \<Rightarrow> node_location \<Rightarrow> peer \<Rightarrow> follow_offset \<Rightarrow> dbl" where
  "altCmD fc self peer ofs =
     (let relaltM = dsub (dbl_of_i16 (pe_alt_m peer)) (dbl_of_i16 (loc_alt_m self))
      in dadd (dadd (dbl_of_i32 (fc_localAltitudeCm fc)) (dmul relaltM 100)) (dmul (vertical_m ofs) 100))"

text \<open>The altitude that goes out, and the condition the clamp raises.\<close>

definition commanded_altitude ::
  "libm \<Rightarrow> follow_config \<Rightarrow> dbl \<Rightarrow> follow_offset \<Rightarrow> i32 \<times> follow_condition" where
  "commanded_altitude m cfg altD ofs =
     (let altCm = lround_i32 m (Some altD)
      in if sint altCm < sint (floorCm m cfg) then
           let altCmStatic = lround_i32 m
                 (Some (dadd altD (dmul (dsub (fw_ofsVertM cfg) (vertical_m ofs)) 100)))
           in (floorCm m cfg,
               if sint altCmStatic \<ge> sint (floorCm m cfg) then FOLLOW_CONDITION_RC_INVALID_GAP_SETTINGS
               else FOLLOW_CONDITION_FLOOR_CLAMPED)
         else (altCm, FOLLOW_CONDITION_NONE))"

definition raiseCondition :: "follow_condition \<Rightarrow> follow_condition \<Rightarrow> follow_condition" where
  "raiseCondition code cand = (if condition_code cand > condition_code code then cand else code)"

definition follow_track ::
  "libm \<Rightarrow> fc_view \<Rightarrow> node_location \<Rightarrow> follow \<Rightarrow> peer \<Rightarrow> u32 \<Rightarrow> follow \<times> fc_cmd list" where
  "follow_track m fc self c peer now_ms =
     (let c = resolveOffset fc c;
          ofs = fo_lastKnownGood c;
          (c, courseDeg) = resolveCourseDeg m c peer;
          cfg = fo_config c;
          tg = slotToLatLon m (pe_lat peer) (pe_lon peer) courseDeg (longitudinal_m ofs) (lateral_m ofs);
          (altCm, code) = commanded_altitude m cfg (altCmD fc self peer ofs) ofs;
          code = (if fo_rcSlotFrozen c
                  then raiseCondition code FOLLOW_CONDITION_RC_INVALID_GAP_SETTINGS else code)
      in if offsetGeometrySane ofs (fw_minSepM cfg) (fw_minVSepM cfg) \<noteq> None then bail c code now_ms
         else if targetTooFar m cfg tg self
         then bail c (raiseCondition code FOLLOW_CONDITION_TARGET_TOO_FAR) now_ms
         else
           let headingDeg = resolveHeadingDeg m cfg peer courseDeg self;
               debug = updateDebugGvars m c (tg_lat_1e7 tg) (tg_lon_1e7 tg) altCm headingDeg self;
               engaged = (fc_platformType fc = Airplane \<and> autothrottleArmed fc cfg);
               speed = (if engaged then resolveTargetSpeedCmS m cfg peer tg courseDeg self else 0);
               (c, throttle) = updateAutothrottleGvars c engaged speed now_ms;
               c = c\<lparr>fo_lastAutothrottleEngaged := engaged, fo_lastTargetSpeedCmS := speed\<rparr>;
               heading = (if headingDeg \<noteq> 0 \<and> fc_headingHold fc then [SetHead headingDeg] else []);
               (c, status) = updateStatusGvars c code now_ms
           in (c\<lparr>fo_haveLastTarget := True, fo_lastTarget := tg, fo_lastTargetAltCm := altCm,
                 fo_lastTargetHeadingDeg := headingDeg, fo_lastTargetMs := now_ms,
                 fo_lastLiveOffset := ofs\<rparr>,
               debug @ throttle @
               [FollowWaypoint (tg_lat_1e7 tg) (tg_lon_1e7 tg) altCm headingDeg] @ heading @ status))"

text \<open>One cycle, and \<open>service\<close>, where \<open>None\<close> is the division by an \<open>emitHz\<close> of zero.\<close>

definition follow_cycle ::
  "libm \<Rightarrow> peer_table \<Rightarrow> node_location \<Rightarrow> fc_view \<Rightarrow> follow \<Rightarrow> u32 \<Rightarrow> follow \<times> fc_cmd list" where
  "follow_cycle m t self fc c now_ms =
     (let c = prearm_check fc c
      in if \<not> followSwitchActive fc then
           bail (gate_reset c) (if fo_rcPreArmCheckFailed c
             then FOLLOW_CONDITION_RC_INVALID_GAP_SETTINGS else FOLLOW_CONDITION_NONE) now_ms
         else
           let (c, peer) = resolveLock m t self c now_ms
           in case peer of
                None \<Rightarrow> bail c FOLLOW_CONDITION_NONE now_ms
              | Some p \<Rightarrow> if \<not> loc_valid self then bail c FOLLOW_CONDITION_NONE now_ms
                         else follow_track m fc self c p now_ms)"

definition follow_service ::
  "libm \<Rightarrow> peer_table \<Rightarrow> node_location \<Rightarrow> fc_view \<Rightarrow> follow \<Rightarrow> u32 \<Rightarrow> (follow \<times> fc_cmd list) option" where
  "follow_service m t self fc c now_ms =
     (if fo_started c \<and> sint (now_ms - fo_nextRunMs c) < 0 then Some (c, [])
      else if fw_emitHz (fo_config c) = 0 then None
      else
        let c = c\<lparr>fo_started := True,
                  fo_nextRunMs := now_ms + 1000 div ucast (fw_emitHz (fo_config c))\<rparr>;
            needs = TelemetryNeeds (followSwitchActive fc)
              (anyRcChannelAssigned (fo_config c) \<or>
               sint (fw_autothrottleEnableRcChannel (fo_config c)) \<ge> 1);
            (c, cmds) = follow_cycle m t self fc c now_ms
        in Some (c, needs # cmds))"

definition applyConfig :: "follow \<Rightarrow> follow_config \<Rightarrow> follow \<times> string option" where
  "applyConfig c newConfig =
     (case followValidateConfig newConfig of
        Some err \<Rightarrow> (c, Some err)
      | None \<Rightarrow>
          let targetChanged = (fw_targetUid newConfig \<noteq> fw_targetUid (fo_config c));
              c = c\<lparr>fo_config := newConfig, fo_lastKnownGood := config_offset newConfig\<rparr>
          in (if targetChanged then forceReacquire c else c, None))"

section \<open>Status\<close>

record follow_status =
  fs_state :: follow_lock_state
  fs_gateActive :: bool
  fs_lockedUid :: u32
  fs_lockedName :: byte_list
  fs_lastTarget :: "(follow_target \<times> i32 \<times> i16 \<times> u32) option"
  fs_targetSpeedCmS :: i32
  fs_autothrottleEngaged :: bool
  fs_liveOffset :: follow_offset
  fs_rcSlotFrozen :: bool
  fs_statusGvarValue :: "i32 option"
  fs_conditionFlagsGvarValue :: "i32 option"
  fs_platformType :: fc_platform
  fs_autothrottleArmed :: bool
  fs_preArmCandidateOffset :: "follow_offset option"
  fs_rcPreArmCheckFailed :: bool

text \<open>The snapshot: a field that comes with a \<open>have\<close> flag is an \<open>option\<close> here.\<close>

definition follow_status_at :: "fc_view \<Rightarrow> follow \<Rightarrow> u32 \<Rightarrow> follow_status" where
  "follow_status_at fc c now_ms =
     (let have = fo_haveLastTarget c; cfg = fo_config c
      in \<lparr>fs_state = fo_state c, fs_gateActive = followSwitchActive fc, fs_lockedUid = fo_lockedUid c,
          fs_lockedName = copy_locked_name (fo_lockedName c),
          fs_lastTarget = (if have then Some (fo_lastTarget c, fo_lastTargetAltCm c,
            fo_lastTargetHeadingDeg c, age_ms now_ms (fo_lastTargetMs c)) else None),
          fs_targetSpeedCmS = (if have then fo_lastTargetSpeedCmS c else 0),
          fs_autothrottleEngaged = (have \<and> fo_lastAutothrottleEngaged c),
          fs_liveOffset = (if have then fo_lastLiveOffset c else zero_offset),
          fs_rcSlotFrozen = (have \<and> fo_rcSlotFrozen c),
          fs_statusGvarValue = (if sint (fw_statusGvarIndex cfg) \<ge> 0 \<and> fo_lastSentStatus c \<noteq> INT32_MIN
            then Some (fo_lastSentStatus c) else None),
          fs_conditionFlagsGvarValue = (if sint (fw_conditionFlagsGvarIndex cfg) \<ge> 0 \<and>
            fo_lastSentConditionFlags c \<noteq> INT32_MIN then Some (fo_lastSentConditionFlags c) else None),
          fs_platformType = fc_platformType fc,
          fs_autothrottleArmed = autothrottleArmed fc cfg,
          fs_preArmCandidateOffset =
            (if fo_havePreArmCandidateOffset c then Some (fo_preArmCandidateOffset c) else None),
          fs_rcPreArmCheckFailed = fo_rcPreArmCheckFailed c\<rparr>)"

end
