(* ===== verification/Follow_Props.thy ===== *)
theory Follow_Props
  imports Follow
begin

text \<open>
  What the Follow controller guarantees: the invariant of any sequence of cycles and
  configuration changes, what a waypoint that goes out satisfies, the target lock, and the
  GVAR reports.
\<close>

section \<open>Lemmas\<close>

subsection \<open>What a cycle sends\<close>

definition waypoints :: "fc_cmd list \<Rightarrow> (i32 \<times> i32 \<times> i32 \<times> i16) list" where
  "waypoints cmds = concat (map (\<lambda>cmd. case cmd of
     FollowWaypoint lat lon alt heading \<Rightarrow> [(lat, lon, alt, heading)] | _ \<Rightarrow> []) cmds)"

lemma waypoints_simps [simp]:
  "waypoints [] = []" "waypoints (xs @ ys) = waypoints xs @ waypoints ys"
  "waypoints (TelemetryNeeds a r # xs) = waypoints xs" "waypoints (SetHead h # xs) = waypoints xs"
  "waypoints (Gvar i v # xs) = waypoints xs"
  "waypoints (FollowWaypoint lat lon alt h # xs) = (lat, lon, alt, h) # waypoints xs"
  by (simp_all add: waypoints_def)

lemma sendGvarIfDue_cases:
  obtains "sendGvarIfDue i v sent ms now = (sent, ms, [])"
  | "sendGvarIfDue i v sent ms now = (v, now, [Gvar (ucast i) v])"
  unfolding sendGvarIfDue_def by metis

text \<open>The report functions change what was last reported only.\<close>

definition same_control :: "follow \<Rightarrow> follow \<Rightarrow> bool" where
  "same_control c c' \<longleftrightarrow> fo_config c' = fo_config c \<and> fo_started c' = fo_started c \<and>
     fo_nextRunMs c' = fo_nextRunMs c \<and> fo_state c' = fo_state c \<and> fo_lockedUid c' = fo_lockedUid c \<and>
     fo_lockedName c' = fo_lockedName c \<and> fo_lastKnownGood c' = fo_lastKnownGood c \<and>
     fo_haveValidCourse c' = fo_haveValidCourse c \<and> fo_lastValidCourseDeg c' = fo_lastValidCourseDeg c"

lemma updateStatusGvars_control:
  assumes "updateStatusGvars c code now = (c', cmds)"
  shows "same_control c c' \<and> waypoints cmds = []"
proof -
  have w: "waypoints (snd (snd (sendGvarIfDue i v sent ms now))) = []" for i v sent ms
    by (rule sendGvarIfDue_cases [of i v sent ms now]) simp_all
  have "cmds = snd (snd (sendGvarIfDue (fw_statusGvarIndex (fo_config c)) (statusGvarValue (fo_state c))
        (fo_lastSentStatus c) (fo_lastStatusSendMs c) now)) @
      snd (snd (sendGvarIfDue (fw_conditionFlagsGvarIndex (fo_config c)) (condition_code code)
        (fo_lastSentConditionFlags c) (fo_lastConditionFlagsSendMs c) now))"
    "same_control c c'"
    using assms by (auto simp: updateStatusGvars_def same_control_def split: prod.splits)
  with w show ?thesis by simp
qed

lemma updateAutothrottleGvars_control:
  assumes "updateAutothrottleGvars c engaged speed now = (c', cmds)"
  shows "same_control c c' \<and> waypoints cmds = []"
proof -
  have w: "waypoints (snd (snd (sendGvarIfDue i v sent ms now))) = []" for i v sent ms
    by (rule sendGvarIfDue_cases [of i v sent ms now]) simp_all
  have "waypoints cmds = waypoints (snd (snd (sendGvarIfDue (fw_autothrottleEngageGvarIndex (fo_config c))
      (if engaged then 1 else 0) (fo_lastSentEngage c) (fo_lastEngageSendMs c) now)))" "same_control c c'"
    using assms by (auto simp: updateAutothrottleGvars_def same_control_def split: prod.splits)
  with w show ?thesis by simp
qed

lemma same_control_trans: "same_control a b \<Longrightarrow> same_control b c \<Longrightarrow> same_control a c"
  by (simp add: same_control_def)

lemma bail_control:
  assumes "bail c code now = (c', cmds)"
  shows "same_control c c' \<and> waypoints cmds = []"
proof -
  obtain c1 s1 c2 s2 where b: "updateStatusGvars c code now = (c1, s1)"
    "updateAutothrottleGvars c1 False 0 now = (c2, s2)" by fastforce
  with assms have "c' = c2" "cmds = s1 @ s2" by (auto simp: bail_def)
  with updateStatusGvars_control [OF b(1)] updateAutothrottleGvars_control [OF b(2)] same_control_trans
  show ?thesis by auto
qed

lemma updateDebugGvars_waypoints [simp]: "waypoints (updateDebugGvars m c la lo alt h self) = []"
  by (simp add: updateDebugGvars_def Let_def)

subsection \<open>Invariant\<close>

definition slot_sane :: "follow \<Rightarrow> bool" where
  "slot_sane c \<longleftrightarrow> offsetGeometrySane (fo_lastKnownGood c) (fw_minSepM (fo_config c))
     (fw_minVSepM (fo_config c)) = None"

definition follow_inv :: "follow \<Rightarrow> bool" where
  "follow_inv c \<longleftrightarrow> followValidateConfig (fo_config c) = None \<and> slot_sane c \<and>
     length (fo_lockedName c) = kMaxNameLen + 1"

lemma follow_inv_cong:
  "fo_config c' = fo_config c \<Longrightarrow> fo_lastKnownGood c' = fo_lastKnownGood c \<Longrightarrow>
     length (fo_lockedName c') = length (fo_lockedName c) \<Longrightarrow> follow_inv c' \<longleftrightarrow> follow_inv c"
  by (simp add: follow_inv_def slot_sane_def)

lemma follow_inv_control: "same_control c c' \<Longrightarrow> follow_inv c' \<longleftrightarrow> follow_inv c"
  by (rule follow_inv_cong) (simp_all add: same_control_def)

lemma follow_inv_emitHz: "follow_inv c \<Longrightarrow> fw_emitHz (fo_config c) \<noteq> 0"
  by (simp add: follow_inv_def validated)

lemma FollowController_inv: "follow_inv FollowController"
proof -
  have "followValidateConfig FollowConfig = None" by code_simp
  moreover have "offsetGeometrySane (config_offset FollowConfig) (fw_minSepM FollowConfig)
      (fw_minVSepM FollowConfig) = None" by code_simp
  ultimately show ?thesis by (simp add: follow_inv_def slot_sane_def FollowController_def)
qed

lemma length_copy_locked_name [simp]: "length (copy_locked_name name) = kMaxNameLen + 1"
proof -
  have "boundedLen name n \<le> n \<and> boundedLen name n \<le> length name" for n
    by (induction name n rule: boundedLen.induct) auto
  from this [of kMaxNameLen] show ?thesis by (simp add: copy_locked_name_def Let_def)
qed

lemma applyConfig_inv:
  assumes "follow_inv c"
  shows "follow_inv (fst (applyConfig c n))"
proof (cases "followValidateConfig n")
  case None
  with assms show ?thesis
    by (simp add: applyConfig_def follow_inv_def slot_sane_def forceReacquire_def Let_def validated)
qed (use assms in \<open>simp add: applyConfig_def\<close>)

lemma resolveOffset_sane:
  assumes "slot_sane c"
  shows "slot_sane (resolveOffset fc c)"
  using assms candidate_sane by (auto simp: resolveOffset_def slot_sane_def Let_def)

lemma resolveOffset_frame [simp]:
  "fo_config (resolveOffset fc c) = fo_config c" "fo_state (resolveOffset fc c) = fo_state c"
  "fo_lockedUid (resolveOffset fc c) = fo_lockedUid c" "fo_lockedName (resolveOffset fc c) = fo_lockedName c"
  "fo_started (resolveOffset fc c) = fo_started c" "fo_nextRunMs (resolveOffset fc c) = fo_nextRunMs c"
  by (simp_all add: resolveOffset_def Let_def)

lemma resolveCourseDeg_frame:
  assumes "resolveCourseDeg m c peer = (c', course)"
  shows "fo_config c' = fo_config c" "fo_state c' = fo_state c" "fo_lockedUid c' = fo_lockedUid c"
    "fo_lockedName c' = fo_lockedName c" "fo_lastKnownGood c' = fo_lastKnownGood c"
    "fo_started c' = fo_started c" "fo_nextRunMs c' = fo_nextRunMs c" "fo_rcSlotFrozen c' = fo_rcSlotFrozen c"
  using assms by (auto simp: resolveCourseDeg_def Let_def split: if_splits)

lemma prearm_check_frame [simp]:
  "fo_config (prearm_check fc c) = fo_config c" "fo_state (prearm_check fc c) = fo_state c"
  "fo_lockedUid (prearm_check fc c) = fo_lockedUid c" "fo_lockedName (prearm_check fc c) = fo_lockedName c"
  "fo_started (prearm_check fc c) = fo_started c" "fo_nextRunMs (prearm_check fc c) = fo_nextRunMs c"
  "fo_lastKnownGood (prearm_check fc c) = fo_lastKnownGood c"
  by (simp_all add: prearm_check_def Let_def)

subsection \<open>A cycle behind the lock\<close>

lemma wrap_heading_range: "1 \<le> sint (wrap_heading raw) \<and> sint (wrap_heading raw) < 360"
proof -
  define d where "d = sint raw mod 360"
  have d: "0 \<le> d" "d < 360" by (simp_all add: d_def)
  have "wrap_heading raw = word_of_int (if d = 0 then 1 else d)"
    unfolding wrap_heading_def Let_def using smod_mod [of 360 "sint raw"] by (simp add: d_def)
  then have "sint (wrap_heading raw) = (if d = 0 then 1 else d)"
    using d by (simp add: signed_of_int signed_take_bit_int_eq_self_iff)
  with d show ?thesis by simp
qed

lemma resolveHeadingDeg_range:
  "0 \<le> sint (resolveHeadingDeg m cfg peer course self) \<and> sint (resolveHeadingDeg m cfg peer course self) < 360 \<and>
     (resolveHeadingDeg m cfg peer course self = 0 \<longleftrightarrow> fw_headingMode cfg = FOLLOW_HEADING_OFF)"
proof -
  have w: "0 \<le> sint (wrap_heading raw)" "sint (wrap_heading raw) < 360" "wrap_heading raw \<noteq> 0" for raw
    using wrap_heading_range [of raw] by auto
  show ?thesis
    by (cases "fw_headingMode cfg") (simp_all add: resolveHeadingDeg_def Let_def w)
qed

lemma commanded_altitude_floor:
  "commanded_altitude m cfg altD ofs = (alt, code) \<Longrightarrow> sint (floorCm m cfg) \<le> sint alt"
  by (auto simp: commanded_altitude_def Let_def split: if_splits)

text \<open>
  The side rule of the RC slot: an axis changes its sign only where the other two axes keep the
  minimum separation by themselves, before the change and after it.
\<close>

definition crosses :: "dbl \<Rightarrow> dbl \<Rightarrow> bool" where
  "crosses x y \<longleftrightarrow> x < 0 \<and> 0 < y \<or> 0 < x \<and> y < 0"

definition side_kept :: "dbl \<Rightarrow> follow_offset \<Rightarrow> follow_offset \<Rightarrow> bool" where
  "side_kept minSepM old new \<longleftrightarrow>
     (crosses (longitudinal_m old) (longitudinal_m new) \<longrightarrow>
        minSepM \<le> dhypot (lateral_m old) (vertical_m old) \<and> minSepM \<le> dhypot (lateral_m new) (vertical_m new)) \<and>
     (crosses (lateral_m old) (lateral_m new) \<longrightarrow>
        minSepM \<le> dhypot (longitudinal_m old) (vertical_m old) \<and> minSepM \<le> dhypot (longitudinal_m new) (vertical_m new)) \<and>
     (crosses (vertical_m old) (vertical_m new) \<longrightarrow>
        minSepM \<le> dhypot (longitudinal_m old) (lateral_m old) \<and> minSepM \<le> dhypot (longitudinal_m new) (lateral_m new))"

text \<open>How a cycle may change the slot: not at all, or to where the sticks are.\<close>

definition slot_moved :: "fc_view \<Rightarrow> follow_config \<Rightarrow> follow_offset \<Rightarrow> follow_offset \<Rightarrow> bool" where
  "slot_moved fc cfg old new \<longleftrightarrow>
     new = old \<or> new = resolveCandidateOffset fc cfg \<and> side_kept (fw_minSepM cfg) old new"

lemma axis_free:
  "\<not> axisSignLocked x y a b a' b' s \<Longrightarrow> crosses y x \<Longrightarrow> s \<le> dhypot a' b' \<and> s \<le> dhypot a b"
  by (auto simp: axisSignLocked_def crosses_def Let_def split: if_splits)

lemma candidate_side_kept: "candidateOffsetOk cand ref s v \<Longrightarrow> side_kept s ref cand"
  by (auto simp: candidateOffsetOk_def side_kept_def dest: axis_free split: if_splits)

lemma resolveOffset_moved:
  "slot_moved fc (fo_config c) (fo_lastKnownGood c) (fo_lastKnownGood (resolveOffset fc c))"
  by (auto simp: slot_moved_def resolveOffset_def Let_def candidate_side_kept)

text \<open>The course a controller holds for a peer, and its slot beside the peer.\<close>

definition held_course :: "follow \<Rightarrow> peer \<Rightarrow> dbl" where
  "held_course c p = (if fo_haveValidCourse c then fo_lastValidCourseDeg c else dquot (dbl_of_u16 (pe_course_ddeg p)) 10)"

definition slot_target :: "libm \<Rightarrow> follow \<Rightarrow> peer \<Rightarrow> follow_target" where
  "slot_target m c p = slotToLatLon m (pe_lat p) (pe_lon p) (held_course c p)
     (longitudinal_m (fo_lastKnownGood c)) (lateral_m (fo_lastKnownGood c))"

text \<open>A place is beyond the bound from here.\<close>

definition beyond :: "libm \<Rightarrow> node_location \<Rightarrow> follow_config \<Rightarrow> follow_target \<Rightarrow> bool" where
  "beyond m self cfg tg \<longleftrightarrow> dbl_less (Some (fw_maxTargetDistM cfg))
     (distanceM m (deg1e7 (loc_lat self)) (deg1e7 (loc_lon self)) (deg1e7 (tg_lat_1e7 tg)) (deg1e7 (tg_lon_1e7 tg)))"

definition waypoint_ok ::
  "libm \<Rightarrow> node_location \<Rightarrow> follow \<Rightarrow> peer \<Rightarrow> i32 \<times> i32 \<times> i32 \<times> i16 \<Rightarrow> bool" where
  "waypoint_ok m self c peer w \<longleftrightarrow>
     (case w of (lat, lon, alt, heading) \<Rightarrow>
        \<lparr>tg_lat_1e7 = lat, tg_lon_1e7 = lon\<rparr> = slot_target m c peer \<and>
        \<not> beyond m self (fo_config c) (slot_target m c peer) \<and>
        sint (floorCm m (fo_config c)) \<le> sint alt \<and> 0 \<le> sint heading \<and> sint heading < 360 \<and>
        (heading = 0 \<longleftrightarrow> fw_headingMode (fo_config c) = FOLLOW_HEADING_OFF))"

lemma resolveCourseDeg_held:
  "resolveCourseDeg m c peer = (c', course) \<Longrightarrow> course = held_course c' peer"
  by (auto simp: resolveCourseDeg_def held_course_def Let_def split: if_splits)

text \<open>What both kinds of cycle leave alone.\<close>

definition same_lock :: "follow \<Rightarrow> follow \<Rightarrow> bool" where
  "same_lock c c' \<longleftrightarrow> fo_config c' = fo_config c \<and> fo_started c' = fo_started c \<and>
     fo_nextRunMs c' = fo_nextRunMs c \<and> fo_state c' = fo_state c \<and> fo_lockedUid c' = fo_lockedUid c \<and>
     fo_lockedName c' = fo_lockedName c"

lemma same_lock_control: "same_control c c' \<Longrightarrow> same_lock c c' \<and> fo_lastKnownGood c' = fo_lastKnownGood c"
  by (simp add: same_control_def same_lock_def)

lemma same_lock_trans: "same_lock a b \<Longrightarrow> same_lock b c \<Longrightarrow> same_lock a c"
  by (simp add: same_lock_def)

lemma slot_sane_cong:
  "fo_config c' = fo_config c \<Longrightarrow> fo_lastKnownGood c' = fo_lastKnownGood c \<Longrightarrow> slot_sane c' \<longleftrightarrow> slot_sane c"
  by (simp add: slot_sane_def)

lemma follow_track_spec:
  assumes "slot_sane c" "follow_track m fc self c peer now = (c', cmds)"
  shows "same_lock c c' \<and> slot_sane c' \<and> slot_moved fc (fo_config c) (fo_lastKnownGood c) (fo_lastKnownGood c') \<and>
    held_course c' peer = snd (resolveCourseDeg m c peer) \<and>
    (if beyond m self (fo_config c) (slot_target m c' peer) then waypoints cmds = []
     else \<exists>alt heading. waypoints cmds =
            [(tg_lat_1e7 (slot_target m c' peer), tg_lon_1e7 (slot_target m c' peer), alt, heading)] \<and>
          (\<forall>w \<in> set (waypoints cmds). waypoint_ok m self c' peer w))"
proof -
  define c1 where "c1 = resolveOffset fc c"
  obtain c2 course where r: "resolveCourseDeg m c1 peer = (c2, course)" by fastforce
  note f2 = resolveCourseDeg_frame [OF r]
  define ofs cfg where "ofs = fo_lastKnownGood c1" and "cfg = fo_config c2"
  define tg where "tg = slotToLatLon m (pe_lat peer) (pe_lon peer) course (longitudinal_m ofs) (lateral_m ofs)"
  obtain alt code0 where a: "commanded_altitude m cfg (altCmD fc self peer ofs) ofs = (alt, code0)" by fastforce
  define code where "code = (if fo_rcSlotFrozen c2
    then raiseCondition code0 FOLLOW_CONDITION_RC_INVALID_GAP_SETTINGS else code0)"
  have "snd (resolveCourseDeg m c1 peer) = snd (resolveCourseDeg m c peer)"
    by (simp add: c1_def resolveCourseDeg_def resolveOffset_def Let_def)
  then have course: "course = snd (resolveCourseDeg m c peer)" by (simp add: r)
  have tg: "slot_target m d peer = tg \<and> held_course d peer = snd (resolveCourseDeg m c peer)" if "fo_lastKnownGood d = ofs"
      "fo_haveValidCourse d = fo_haveValidCourse c2" "fo_lastValidCourseDeg d = fo_lastValidCourseDeg c2" for d
    using that resolveCourseDeg_held [OF r] course by (simp add: slot_target_def tg_def held_course_def)
  have moved: "slot_moved fc (fo_config c) (fo_lastKnownGood c) ofs"
    unfolding ofs_def c1_def by (rule resolveOffset_moved)
  have far: "targetTooFar m cfg tg self = beyond m self cfg tg" by (simp add: targetTooFar_def beyond_def)
  have s1: "same_lock c c2" "slot_sane c2" "fo_lastKnownGood c2 = ofs" "cfg = fo_config c"
    using f2 resolveOffset_sane [OF assms(1), of fc] slot_sane_cong [OF f2(1) f2(5)]
    by (simp_all add: same_lock_def c1_def ofs_def cfg_def)
  note track = assms(2) [unfolded follow_track_def Let_def, folded c1_def, unfolded r prod.case,
      folded ofs_def cfg_def, folded tg_def, unfolded a prod.case, folded code_def]
  have sane: "offsetGeometrySane ofs (fw_minSepM cfg) (fw_minVSepM cfg) = None"
    using s1(2,3) by (simp add: slot_sane_def cfg_def)
  have bails: ?thesis if s: "same_control c2 c'" "waypoints cmds = []" "targetTooFar m cfg tg self"
  proof -
    have "slot_sane c'" using slot_sane_cong [of c' c2] s(1) s1(2) by (simp add: same_control_def)
    moreover have "slot_target m c' peer = tg" "held_course c' peer = snd (resolveCourseDeg m c peer)"
      "fo_lastKnownGood c' = ofs"
      using tg s(1) s1(3) by (simp_all add: same_control_def)
    ultimately show ?thesis
      using s(2,3) same_lock_trans [OF s1(1)] same_lock_control [OF s(1)] moved far s1(4) by simp
  qed
  show ?thesis
  proof (cases "targetTooFar m cfg tg self")
    case True
    with track sane have "bail c2 (raiseCondition code FOLLOW_CONDITION_TARGET_TOO_FAR) now = (c', cmds)" by simp
    from bail_control [OF this] show ?thesis using bails True by blast
  next
    case near: False
    define h where "h = resolveHeadingDeg m cfg peer course self"
    define engaged where "engaged = (fc_platformType fc = Airplane \<and> autothrottleArmed fc cfg)"
    define speed where "speed = (if engaged then resolveTargetSpeedCmS m cfg peer tg course self else 0)"
    obtain c3 t3 where u3: "updateAutothrottleGvars c2 engaged speed now = (c3, t3)" by fastforce
    obtain c4 t4 where u4: "updateStatusGvars (c3\<lparr>fo_lastAutothrottleEngaged := engaged,
        fo_lastTargetSpeedCmS := speed\<rparr>) code now = (c4, t4)" by fastforce
    note u = updateAutothrottleGvars_control [OF u3] updateStatusGvars_control [OF u4]
    have c': "c' = c4\<lparr>fo_haveLastTarget := True, fo_lastTarget := tg, fo_lastTargetAltCm := alt,
        fo_lastTargetHeadingDeg := h, fo_lastTargetMs := now, fo_lastLiveOffset := ofs\<rparr>"
      and cmds: "waypoints cmds = [(tg_lat_1e7 tg, tg_lon_1e7 tg, alt, h)]"
      using track sane near u3 u4 u by (auto simp: h_def engaged_def [symmetric] speed_def [symmetric])
    have l: "same_lock c2 c'" "fo_lastKnownGood c' = ofs" "slot_sane c'"
      using u s1(2,3) by (auto simp: c' same_lock_def same_control_def slot_sane_def)
    have "fo_haveValidCourse c' = fo_haveValidCourse c2" "fo_lastValidCourseDeg c' = fo_lastValidCourseDeg c2"
      using u by (simp_all add: c' same_control_def)
    then have tgt: "slot_target m c' peer = tg" and held: "held_course c' peer = snd (resolveCourseDeg m c peer)"
      using tg l(2) by blast+
    have cf: "fo_config c' = cfg" using l(1) by (simp add: same_lock_def cfg_def)
    have "waypoint_ok m self c' peer (tg_lat_1e7 tg, tg_lon_1e7 tg, alt, h)"
      using near commanded_altitude_floor [OF a] resolveHeadingDeg_range [of m cfg peer course self]
      by (simp add: waypoint_ok_def far tgt cf h_def)
    then show ?thesis
      using same_lock_trans [OF s1(1)] l moved near [unfolded far] held by (simp add: cmds tgt s1(4))
  qed
qed

subsection \<open>The lock\<close>

lemma pt_at_find:
  assumes "pt_inv t" "pt_at t i = Some p"
  shows "pt_find t (pe_uid p) = Some p"
proof -
  have i: "i < length (pt_peers t)" "pe_valid (pt_peers t ! i)" "p = pt_peers t ! i"
    using assms by (auto simp: pt_at_def pt_inv_def split: if_splits)
  with assms(1) show ?thesis
    by (simp add: pt_find_slot peers.find_some_slot pt_inv_def)
qed

lemma pt_find_uid: "pt_find t u = Some p \<Longrightarrow> pe_uid p = u"
  by (auto simp: pt_find_def dest: first_idx_holds)

definition followable :: "peer_table \<Rightarrow> u32 \<Rightarrow> u32 \<Rightarrow> peer \<Rightarrow> bool" where
  "followable t now timeout p \<longleftrightarrow>
     pt_find t (pe_uid p) = Some p \<and> \<not> followPeerStale (Some p) now timeout"

lemma not_stale_some: "\<not> followPeerStale r now timeout \<Longrightarrow> \<exists>p. r = Some p"
  by (cases r) (simp_all add: followPeerStale_def)

lemma nearest_scan_found:
  assumes "pt_inv t" "nearest_scan m t self now timeout is cand d = Some p"
  shows "cand = Some p \<or> followable t now timeout p"
  using assms
proof (induction m t self now timeout "is" cand d rule: nearest_scan.induct)
  case (2 m t self now timeout i "is" cand d)
  show ?case
  proof (cases "followPeerStale (pt_at t i) now timeout")
    case False
    then obtain q where q: "pt_at t i = Some q" using not_stale_some by blast
    with False have f: "followable t now timeout q"
      using pt_at_find [OF "2.prems"(1) q] by (simp add: followable_def)
    consider "p = q" | "nearest_scan m t self now timeout is (Some q) (peer_distance m self q) = Some p"
        "loc_valid self" "cand = None \<or> dbl_less (peer_distance m self q) d"
      | "nearest_scan m t self now timeout is cand d = Some p"
        "loc_valid self" "\<not> (cand = None \<or> dbl_less (peer_distance m self q) d)"
      using "2.prems"(2) False q by (auto simp: Let_def split: if_splits)
    then show ?thesis
      by cases (use f "2.IH" "2.prems"(1) False q in auto)
  qed (use 2 in simp)
qed simp

lemma lock_candidate_found:
  assumes "pt_inv t" "lock_candidate m t self cfg now = Some p"
  shows "followable t now (fw_peerTimeoutMs cfg) p"
proof (cases "fw_targetUid cfg = 0")
  case False
  with assms(2) have "pt_find t (fw_targetUid cfg) = Some p" "\<not> followPeerStale (Some p) now (fw_peerTimeoutMs cfg)"
    by (auto simp: lock_candidate_def Let_def split: if_splits)
  then show ?thesis using pt_find_uid by (simp add: followable_def)
next
  case True
  with assms(2) have "nearest_scan m t self now (fw_peerTimeoutMs cfg) [0..<kMaxPeers] None (Some 0) = Some p"
    by (simp add: lock_candidate_def)
  from nearest_scan_found [OF assms(1) this] show ?thesis by simp
qed

definition locked_states :: "follow_lock_state set" where
  "locked_states = {FOLLOW_LOCK_LOCKED, FOLLOW_LOCK_LOCKED_HOLDING}"

lemma resolveLock_frame:
  assumes "resolveLock m t self c now = (c', r)"
  shows "fo_config c' = fo_config c" "fo_started c' = fo_started c" "fo_nextRunMs c' = fo_nextRunMs c"
    "fo_lastKnownGood c' = fo_lastKnownGood c" "length (fo_lockedName c) = 16 \<Longrightarrow> length (fo_lockedName c') = 16"
  using assms by (auto simp: resolveLock_def Let_def split: if_splits option.splits)

lemma resolveLock_result:
  assumes "pt_inv t" "resolveLock m t self c now = (c', r)"
  shows "case r of None \<Rightarrow> fo_state c' \<in> {FOLLOW_LOCK_ACQUIRING, FOLLOW_LOCK_LOCKED_HOLDING}
    | Some p \<Rightarrow> fo_state c' = FOLLOW_LOCK_LOCKED \<and> pe_uid p = fo_lockedUid c' \<and>
        followable t now (fw_peerTimeoutMs (fo_config c)) p"
proof (cases "fo_state c \<in> locked_states")
  case True
  have "\<not> followPeerStale r now to \<Longrightarrow> pt_find t u = r \<Longrightarrow> \<exists>p. r = Some p \<and> pe_uid p = u \<and> followable t now to p"
    for u r to using not_stale_some pt_find_uid by (fastforce simp: followable_def)
  with True assms(2) show ?thesis
    by (fastforce simp: resolveLock_def Let_def locked_states_def split: if_splits option.splits)
next
  case False
  then have "fo_state c = FOLLOW_LOCK_IDLE \<or> fo_state c = FOLLOW_LOCK_ACQUIRING"
    by (cases "fo_state c") (simp_all add: locked_states_def)
  then show ?thesis
    using assms(2) lock_candidate_found [OF assms(1), of m self "fo_config c" now]
    by (cases "lock_candidate m t self (fo_config c) now") (auto simp: resolveLock_def Let_def split: option.splits)
qed

lemma resolveLock_keeps:
  assumes "resolveLock m t self c now = (c', r)" "fo_state c \<in> locked_states"
  shows "fo_lockedUid c' = fo_lockedUid c \<and> fo_state c' \<in> locked_states"
  using assms by (auto simp: resolveLock_def Let_def locked_states_def split: if_splits option.splits)

subsection \<open>A cycle\<close>

text \<open>What a waypoint that goes out says of the world it was computed from.\<close>

definition waypoint_safe ::
  "libm \<Rightarrow> peer_table \<Rightarrow> node_location \<Rightarrow> fc_view \<Rightarrow> u32 \<Rightarrow> follow \<Rightarrow> i32 \<times> i32 \<times> i32 \<times> i16 \<Rightarrow> bool" where
  "waypoint_safe m t self fc now c w \<longleftrightarrow>
     fc_gcsNav fc \<and> loc_valid self \<and> fo_state c = FOLLOW_LOCK_LOCKED \<and>
     (\<exists>p. pe_uid p = fo_lockedUid c \<and> followable t now (fw_peerTimeoutMs (fo_config c)) p \<and>
          waypoint_ok m self c p w)"

lemma followSwitchActive_eq [simp]: "followSwitchActive fc = fc_gcsNav fc"
  by (simp add: followSwitchActive_def FOLLOW_TRIGGER_MODE_def)

lemma follow_cycle_off:
  assumes "follow_cycle m t self fc c now = (c', cmds)" "\<not> fc_gcsNav fc"
  shows "same_control (gate_reset (prearm_check fc c)) c' \<and> waypoints cmds = []"
  using assms by (intro bail_control [of _ "if fo_rcPreArmCheckFailed (prearm_check fc c)
    then FOLLOW_CONDITION_RC_INVALID_GAP_SETTINGS else FOLLOW_CONDITION_NONE" now])
    (simp add: follow_cycle_def Let_def)

lemma follow_cycle_on:
  assumes c: "slot_sane c" and t: "pt_inv t" and gate: "fc_gcsNav fc"
    and cyc: "follow_cycle m t self fc c now = (c', cmds)"
    and r: "resolveLock m t self (prearm_check fc c) now = (c1, r)"
  shows "same_lock c1 c' \<and> slot_sane c' \<and> slot_moved fc (fo_config c) (fo_lastKnownGood c) (fo_lastKnownGood c') \<and>
    length (waypoints cmds) \<le> 1 \<and> (\<forall>w \<in> set (waypoints cmds). waypoint_safe m t self fc now c' w)"
proof -
  note fr = resolveLock_frame [OF r, unfolded prearm_check_frame]
  have sane: "slot_sane c1" using c slot_sane_cong [OF fr(1,4)] by simp
  have bails: ?thesis if "bail c1 FOLLOW_CONDITION_NONE now = (c', cmds)"
  proof -
    note b = bail_control [OF that]
    have "slot_sane c'" using slot_sane_cong [of c' c1] b sane by (simp add: same_control_def)
    then show ?thesis using b same_lock_control [of c1 c'] fr(4) by (simp add: slot_moved_def)
  qed
  show ?thesis
  proof (cases r)
    case None
    with cyc gate r bails show ?thesis by (simp add: follow_cycle_def Let_def)
  next
    case (Some p)
    show ?thesis
    proof (cases "loc_valid self")
      case False
      with Some cyc gate r bails show ?thesis by (simp add: follow_cycle_def Let_def)
    next
      case True
      with Some cyc gate r have tr: "follow_track m fc self c1 p now = (c', cmds)"
        by (simp add: follow_cycle_def Let_def)
      have l: "fo_state c1 = FOLLOW_LOCK_LOCKED" "pe_uid p = fo_lockedUid c1"
        "followable t now (fw_peerTimeoutMs (fo_config c)) p"
        using resolveLock_result [OF t r] Some by simp_all
      note k = follow_track_spec [OF sane tr]
      then have "length (waypoints cmds) \<le> 1 \<and> (\<forall>w \<in> set (waypoints cmds). waypoint_ok m self c' p w)"
        by (auto split: if_splits)
      moreover have "fo_config c' = fo_config c" "fo_state c' = fo_state c1" "fo_lockedUid c' = fo_lockedUid c1"
        using k fr(1) by (simp_all add: same_lock_def)
      ultimately show ?thesis using k l fr(1,4) gate True by (auto simp: waypoint_safe_def)
    qed
  qed
qed

lemma follow_cycle_spec:
  assumes "slot_sane c" "pt_inv t" "length (fo_lockedName c) = 16"
    "follow_cycle m t self fc c now = (c', cmds)"
  shows "fo_config c' = fo_config c \<and> fo_started c' = fo_started c \<and> fo_nextRunMs c' = fo_nextRunMs c \<and>
    length (fo_lockedName c') = 16 \<and> slot_sane c' \<and>
    slot_moved fc (fo_config c) (fo_lastKnownGood c) (fo_lastKnownGood c') \<and> length (waypoints cmds) \<le> 1 \<and>
    (\<forall>w \<in> set (waypoints cmds). waypoint_safe m t self fc now c' w) \<and>
    (fc_gcsNav fc \<and> fo_state c \<in> locked_states \<longrightarrow>
       fo_lockedUid c' = fo_lockedUid c \<and> fo_state c' \<in> locked_states) \<and>
    (\<not> fc_gcsNav fc \<longrightarrow> fo_state c' = FOLLOW_LOCK_IDLE \<and> fo_lockedUid c' = 0 \<and> waypoints cmds = [])"
proof (cases "fc_gcsNav fc")
  case True
  obtain c1 r where r: "resolveLock m t self (prearm_check fc c) now = (c1, r)" by fastforce
  have "same_lock c1 c' \<and> slot_sane c' \<and> slot_moved fc (fo_config c) (fo_lastKnownGood c) (fo_lastKnownGood c') \<and>
      length (waypoints cmds) \<le> 1 \<and> (\<forall>w \<in> set (waypoints cmds). waypoint_safe m t self fc now c' w)"
    by (rule follow_cycle_on [OF assms(1,2) True assms(4) r])
  then show ?thesis
    using resolveLock_frame [OF r, unfolded prearm_check_frame] resolveLock_keeps [OF r, unfolded prearm_check_frame]
      True assms(3) by (simp add: same_lock_def)
next
  case False
  have g: "same_control (gate_reset (prearm_check fc c)) c'" "waypoints cmds = []"
    using follow_cycle_off [OF assms(4) False] by auto
  have "fo_config c' = fo_config c" "fo_lastKnownGood c' = fo_lastKnownGood c"
    using g(1) by (simp_all add: same_control_def gate_reset_def)
  from slot_sane_cong [OF this] show ?thesis
    using g assms(1,3) False by (simp add: same_control_def gate_reset_def slot_moved_def)
qed

subsection \<open>Runs\<close>

text \<open>A run is any sequence of service calls, each with the peer table, position and flight
  controller answers of its moment, and configuration changes. Its output is, for each event,
  the controller after it and the commands it sent.\<close>

datatype follow_event = Service peer_table node_location fc_view u32 | Apply follow_config

fun follow_step :: "libm \<Rightarrow> follow \<Rightarrow> follow_event \<Rightarrow> (follow \<times> fc_cmd list) option" where
  "follow_step m c (Service t self fc now) = follow_service m t self fc c now"
| "follow_step m c (Apply n) = Some (fst (applyConfig c n), [])"

fun follow_run ::
  "libm \<Rightarrow> follow \<Rightarrow> follow_event list \<Rightarrow> (follow \<times> (follow_event \<times> follow \<times> fc_cmd list) list) option" where
  "follow_run m c [] = Some (c, [])"
| "follow_run m c (e # es) = do {
     (c, cmds) \<leftarrow> follow_step m c e;
     (d, out) \<leftarrow> follow_run m c es;
     Some (d, (e, c, cmds) # out)
   }"

fun event_ok :: "follow_event \<Rightarrow> bool" where
  "event_ok (Service t self fc now) = pt_inv t"
| "event_ok (Apply n) = True"

text \<open>What an event may do to the slot, and a run does: \<open>c\<close> is the controller before.\<close>

fun slot_kept :: "follow \<Rightarrow> follow_event \<Rightarrow> follow \<Rightarrow> bool" where
  "slot_kept c (Service t self fc now) d \<longleftrightarrow> fo_config d = fo_config c \<and>
     slot_moved fc (fo_config c) (fo_lastKnownGood c) (fo_lastKnownGood d)"
| "slot_kept c (Apply n) d \<longleftrightarrow>
     fo_config d = fo_config c \<and> fo_lastKnownGood d = fo_lastKnownGood c \<or>
     fo_config d = n \<and> fo_lastKnownGood d = config_offset n"

fun slots_kept :: "follow \<Rightarrow> (follow_event \<times> follow \<times> fc_cmd list) list \<Rightarrow> bool" where
  "slots_kept c [] \<longleftrightarrow> True"
| "slots_kept c ((e, d, cmds) # out) \<longleftrightarrow> slot_kept c e d \<and> slots_kept d out"

text \<open>What one event's output satisfies.\<close>

fun output_safe :: "libm \<Rightarrow> follow_event \<times> follow \<times> fc_cmd list \<Rightarrow> bool" where
  "output_safe m (Service t self fc now, c, cmds) \<longleftrightarrow> follow_inv c \<and> length (waypoints cmds) \<le> 1 \<and>
     (\<forall>w \<in> set (waypoints cmds). waypoint_safe m t self fc now c w)"
| "output_safe m (Apply n, c, cmds) \<longleftrightarrow> follow_inv c \<and> cmds = []"

lemma follow_service_spec:
  assumes "follow_inv c" "pt_inv t"
  obtains c' cmds where "follow_service m t self fc c now = Some (c', cmds)" "follow_inv c'"
    "output_safe m (Service t self fc now, c', cmds)" "fo_config c' = fo_config c"
    "fc_gcsNav fc \<Longrightarrow> fo_state c \<in> locked_states \<Longrightarrow>
       fo_lockedUid c' = fo_lockedUid c \<and> fo_state c' \<in> locked_states"
    "slot_moved fc (fo_config c) (fo_lastKnownGood c) (fo_lastKnownGood c')"
proof (cases "fo_started c \<and> sint (now - fo_nextRunMs c) < 0")
  case True
  with assms that [of c "[]"] show ?thesis by (simp add: follow_service_def slot_moved_def)
next
  case False
  let ?c = "c\<lparr>fo_started := True, fo_nextRunMs := now + 1000 div ucast (fw_emitHz (fo_config c))\<rparr>"
  have c: "slot_sane ?c" "length (fo_lockedName ?c) = 16" using assms(1) by (simp_all add: follow_inv_def slot_sane_def)
  obtain c' cmds where cyc: "follow_cycle m t self fc ?c now = (c', cmds)" by fastforce
  note s = follow_cycle_spec [OF c(1) assms(2) c(2) cyc]
  have inv: "follow_inv c'" using s assms(1) by (simp add: follow_inv_def)
  have "follow_service m t self fc c now = Some (c', TelemetryNeeds (fc_gcsNav fc)
      (anyRcChannelAssigned (fo_config c) \<or> 1 \<le> sint (fw_autothrottleEnableRcChannel (fo_config c))) # cmds)"
    using False follow_inv_emitHz [OF assms(1)] cyc by (auto simp: follow_service_def Let_def)
  then show ?thesis by (rule that) (use s inv in auto)
qed

lemma follow_step_spec:
  assumes "follow_inv c" "event_ok e"
  shows "\<exists>c' cmds. follow_step m c e = Some (c', cmds) \<and> follow_inv c' \<and> output_safe m (e, c', cmds) \<and> slot_kept c e c'"
proof (cases e)
  case (Service t self fc now)
  with assms(2) have "pt_inv t" by simp
  then show ?thesis
    by (rule follow_service_spec [OF assms(1), of t m self fc now]) (use Service in auto)
next
  case (Apply n)
  have "slot_kept c (Apply n) (fst (applyConfig c n))"
    by (auto simp: applyConfig_def forceReacquire_def Let_def split: option.splits)
  with Apply applyConfig_inv [OF assms(1)] show ?thesis by auto
qed

subsection \<open>The nearest peer\<close>

text \<open>The search is a search for the least distance among the followable peers.\<close>

fun nearest_of :: "('p \<Rightarrow> dbl option) \<Rightarrow> 'p list \<Rightarrow> 'p option \<Rightarrow> dbl option \<Rightarrow> 'p option" where
  "nearest_of far_of [] cand d = cand"
| "nearest_of far_of (p # ps) cand d =
     (if cand = None \<or> dbl_less (far_of p) d then nearest_of far_of ps (Some p) (far_of p)
      else nearest_of far_of ps cand d)"

definition fresh_peers :: "peer_table \<Rightarrow> u32 \<Rightarrow> u32 \<Rightarrow> nat list \<Rightarrow> peer list" where
  "fresh_peers t now timeout is =
     map (\<lambda>i. the (pt_at t i)) (filter (\<lambda>i. \<not> followPeerStale (pt_at t i) now timeout) is)"

lemma nearest_scan_of:
  "loc_valid self \<Longrightarrow> nearest_scan m t self now timeout is cand d =
     nearest_of (peer_distance m self) (fresh_peers t now timeout is) cand d"
proof (induction "is" arbitrary: cand d)
  case (Cons i "is")
  show ?case
  proof (cases "followPeerStale (pt_at t i) now timeout")
    case False
    then obtain q where "pt_at t i = Some q" using not_stale_some by blast
    with Cons False show ?thesis by (simp add: fresh_peers_def)
  qed (use Cons in \<open>simp add: fresh_peers_def\<close>)
qed (simp add: fresh_peers_def)

lemma nearest_of_min:
  assumes "\<forall>q \<in> set ps. far_of q \<noteq> None" "\<forall>c. cand = Some c \<longrightarrow> d = far_of c \<and> far_of c \<noteq> None"
  shows "case nearest_of far_of ps cand d of None \<Rightarrow> cand = None \<and> ps = []
    | Some p \<Rightarrow> p \<in> set ps \<union> set_option cand \<and>
        (\<forall>q \<in> set ps \<union> set_option cand. the (far_of p) \<le> the (far_of q))"
  using assms
proof (induction ps arbitrary: cand d)
  case Nil
  then show ?case by (cases cand) auto
next
  case (Cons q ps)
  then obtain dq where dq: "far_of q = Some dq" by auto
  show ?case
  proof (cases cand)
    case None
    from Cons.IH [of "Some q" "far_of q"] Cons.prems None dq show ?thesis
      by (cases "nearest_of far_of ps (Some q) (far_of q)") auto
  next
    case (Some e)
    then obtain de where de: "far_of e = Some de" "d = Some de" using Cons.prems by auto
    show ?thesis
    proof (cases "dq < de")
      case True
      with Cons.IH [of "Some q" "far_of q"] Cons.prems Some dq de show ?thesis
        by (cases "nearest_of far_of ps (Some q) (far_of q)") (auto simp: dbl_less_def)
    next
      case False
      with Cons.IH [of "Some e" d] Cons.prems Some dq de show ?thesis
        by (cases "nearest_of far_of ps (Some e) d") (auto simp: dbl_less_def)
    qed
  qed
qed

lemma set_fresh_peers:
  assumes "pt_inv t"
  shows "set (fresh_peers t now timeout [0..<kMaxPeers]) = {p. followable t now timeout p}"
proof (intro set_eqI iffI; unfold mem_Collect_eq)
  fix p assume "p \<in> set (fresh_peers t now timeout [0..<kMaxPeers])"
  then obtain i where i: "\<not> followPeerStale (pt_at t i) now timeout" "p = the (pt_at t i)"
    by (auto simp: fresh_peers_def)
  then obtain q where "pt_at t i = Some q" using not_stale_some by blast
  with i pt_at_find [OF assms] show "followable t now timeout p" by (auto simp: followable_def)
next
  fix p assume f: "followable t now timeout p"
  then obtain i where i: "first_idx (\<lambda>q. pe_valid q \<and> pe_uid q = pe_uid p) (pt_peers t) = Some i"
    "p = pt_peers t ! i" by (auto simp: followable_def pt_find_def)
  from first_idx_SomeD [OF i(1)] have "i < length (pt_peers t)" "pe_valid (pt_peers t ! i)" by blast+
  moreover have "length (pt_peers t) = kMaxPeers" using assms by (simp add: pt_inv_def)
  ultimately have "i < kMaxPeers" "pt_at t i = Some (pt_peers t ! i)" by (simp_all add: pt_at_def)
  then have "i < kMaxPeers" "pt_at t i = Some p" by (simp_all only: i(2))
  then show "p \<in> set (fresh_peers t now timeout [0..<kMaxPeers])"
    using f unfolding fresh_peers_def set_map set_filter
    by (intro image_eqI [of _ _ i]) (simp_all add: followable_def)
qed

end
