(* ===== verification/Follow_Runs.thy ===== *)
theory Follow_Runs
  imports Follow_Props
begin

text \<open>
  The properties of the Follow controller over runs: safety of every waypoint, no failover,
  progress, the choice of the nearest peer, the pacing of the cycles, the freshness of the GVAR
  reports and the bounds of the speed setpoint.
\<close>

section \<open>Lemmas\<close>

lemma follow_run_inv:
  assumes "follow_inv c" "list_all event_ok es"
  shows "\<exists>c' out. follow_run m c es = Some (c', out) \<and> follow_inv c' \<and> list_all (output_safe m) out \<and>
    slots_kept c out \<and> map fst out = es"
  using assms
proof (induction es arbitrary: c)
  case (Cons e es)
  then obtain c1 cmds where s: "follow_step m c e = Some (c1, cmds)" "follow_inv c1" "output_safe m (e, c1, cmds)"
    "slot_kept c e c1" using follow_step_spec by (metis list.pred_inject(2))
  from Cons.IH [OF s(2)] Cons.prems(2) s show ?case by auto
qed simp

text \<open>Events that let the lock alone: the gate is active, the configured target unchanged.\<close>

fun holds_lock :: "u32 \<Rightarrow> follow_event \<Rightarrow> bool" where
  "holds_lock target (Service t self fc now) \<longleftrightarrow> pt_inv t \<and> fc_gcsNav fc"
| "holds_lock target (Apply n) \<longleftrightarrow> fw_targetUid n = target"

lemma holds_lock_ok: "holds_lock target e \<Longrightarrow> event_ok e"
  by (cases e) simp_all

lemma holds_lock_step:
  assumes "follow_inv c" "fo_state c \<in> locked_states" "holds_lock (fw_targetUid (fo_config c)) e"
    and "follow_step m c e = Some (c', cmds)"
  shows "fo_lockedUid c' = fo_lockedUid c \<and> fo_state c' \<in> locked_states \<and>
    fw_targetUid (fo_config c') = fw_targetUid (fo_config c)"
proof (cases e)
  case (Service t self fc now)
  with assms(3) have t: "pt_inv t" "fc_gcsNav fc" by simp_all
  show ?thesis
    by (rule follow_service_spec [OF assms(1) t(1), of m self fc now]) (use assms(2,4) t(2) Service in auto)
next
  case (Apply n)
  with assms show ?thesis
    by (auto simp: applyConfig_def Let_def split: option.splits)
qed

lemma holds_lock_run:
  assumes "follow_inv c" "fo_state c \<in> locked_states" "list_all (holds_lock (fw_targetUid (fo_config c))) es"
  shows "\<exists>c' out. follow_run m c es = Some (c', out) \<and> fo_state c' \<in> locked_states \<and>
    list_all (\<lambda>(e, d, cmds). output_safe m (e, d, cmds) \<and> fo_lockedUid d = fo_lockedUid c) out \<and>
    map fst out = es \<and> fo_lockedUid c' = fo_lockedUid c"
  using assms
proof (induction es arbitrary: c)
  case (Cons e es)
  then have e: "holds_lock (fw_targetUid (fo_config c)) e" by simp
  obtain c1 cmds where s: "follow_step m c e = Some (c1, cmds)" "follow_inv c1" "output_safe m (e, c1, cmds)"
    using follow_step_spec [OF Cons.prems(1) holds_lock_ok [OF e]] by blast
  note k = holds_lock_step [OF Cons.prems(1,2) e s(1)]
  from Cons.IH [OF s(2)] Cons.prems(3) k s show ?case by auto
qed simp

text \<open>A cycle that runs: the guard of \<open>service\<close> lets it through.\<close>

definition cycle_due :: "follow \<Rightarrow> u32 \<Rightarrow> bool" where
  "cycle_due c now \<longleftrightarrow> \<not> fo_started c \<or> 0 \<le> sint (now - fo_nextRunMs c)"

lemma service_due:
  assumes "follow_inv c" "cycle_due c now"
  defines "c0 \<equiv> c\<lparr>fo_started := True, fo_nextRunMs := now + 1000 div ucast (fw_emitHz (fo_config c))\<rparr>"
  shows "\<exists>needs. follow_service m t self fc c now =
    Some (fst (follow_cycle m t self fc c0 now), needs # snd (follow_cycle m t self fc c0 now))"
  using assms(2) follow_inv_emitHz [OF assms(1)]
  by (auto simp: follow_service_def cycle_due_def c0_def Let_def split: prod.splits)

lemma sint_before:
  assumes "unat d < 2147483648" "unat p < 2147483648"
  shows "sint (d - p :: u32) < 0 \<longleftrightarrow> unat d < unat p"
  using assms unat_u32_lt [of p] by (auto simp: sint_neg_iff unat_sub_if' word_le_nat_alt)

lemma resolveLock_fresh:
  assumes "fo_state c = FOLLOW_LOCK_LOCKED" "pt_find t (fo_lockedUid c) = Some p"
    and "\<not> followPeerStale (Some p) now (fw_peerTimeoutMs (fo_config c))"
  shows "resolveLock m t self c now = (c, Some p)"
  using assms by (simp add: resolveLock_def Let_def)

text \<open>A history of calls of the report rule: each a value and a time; what it sends, with the times.\<close>

fun gvar_run :: "i16 \<Rightarrow> i32 \<Rightarrow> u32 \<Rightarrow> (i32 \<times> u32) list \<Rightarrow> (u32 \<times> fc_cmd) list" where
  "gvar_run i sent ms [] = []"
| "gvar_run i sent ms ((v, now) # calls) =
     (case sendGvarIfDue i v sent ms now of
        (sent, ms, cmds) \<Rightarrow> map (Pair now) cmds @ gvar_run i sent ms calls)"

definition spaced :: "u32 \<times> fc_cmd \<Rightarrow> u32 \<times> fc_cmd \<Rightarrow> bool" where
  "spaced a b \<longleftrightarrow> snd a \<noteq> snd b \<or> kFollowGvarHeartbeatMs \<le> age_ms (fst b) (fst a)"

lemma gvar_run_from:
  assumes "0 \<le> sint i" "sent \<noteq> INT32_MIN" "INT32_MIN \<notin> fst ` set calls"
  shows "let sends = (ms, Gvar (ucast i) sent) # gvar_run i sent ms calls
    in successively spaced sends \<and>
      (calls \<noteq> [] \<longrightarrow> snd (last sends) = Gvar (ucast i) (fst (last calls)) \<and>
         age_ms (snd (last calls)) (fst (last sends)) < kFollowGvarHeartbeatMs)"
  using assms(2,3) unfolding Let_def
proof (induction calls arbitrary: sent ms)
  case (Cons call calls)
  obtain v now where call: "call = (v, now)" by fastforce
  show ?case
  proof (cases "v \<noteq> sent \<or> kFollowGvarHeartbeatMs \<le> age_ms now ms")
    case True
    then have "gvar_run i sent ms (call # calls) = (now, Gvar (ucast i) v) # gvar_run i v now calls"
      using assms(1) by (simp add: call sendGvarIfDue_def)
    moreover have "spaced (ms, Gvar (ucast i) sent) (now, Gvar (ucast i) v)" using True by (auto simp: spaced_def)
    moreover have "age_ms now now < kFollowGvarHeartbeatMs" by (simp add: kFollowGvarHeartbeatMs_def)
    ultimately show ?thesis using Cons.IH [of v now] Cons.prems by (cases calls) (auto simp: call)
  next
    case False
    then have "gvar_run i sent ms (call # calls) = gvar_run i sent ms calls"
      using assms(1) Cons.prems(1) by (simp add: call sendGvarIfDue_def)
    then show ?thesis using Cons.IH [of sent ms] Cons.prems False by (cases calls) (auto simp: call not_le)
  qed
qed simp

lemma clampD_between: "lo \<le> hi \<Longrightarrow> lo \<le> clampD v lo hi \<and> clampD v lo hi \<le> hi"
  by (simp add: clampD_def)

text \<open>A scene for the witnesses: a library whose sine is 0, a leader with a fresh fix, a node
  with a fix and a flight controller with the gate active.\<close>

definition sample_libm :: libm where
  "sample_libm = \<lparr>lm_sin = (\<lambda>x. 0), lm_cos = (\<lambda>x. 1), lm_asin = (\<lambda>x. 0), lm_atan2 = (\<lambda>y x. 0),
     lm_lround_undef = (\<lambda>v. 0)\<rparr>"

definition leader :: peer where
  "leader = apply_position (known_peer (PeerTable 6000) 42) \<lparr>pp_uid = 42, pp_lat = 470000000,
     pp_lon = 80000000, pp_alt_m = 500, pp_speed_cms = 900, pp_course_ddeg = 900,
     pp_flags = POSITION_FLAG_HAS_FIX\<rparr> 800 0 0"

definition leader_table :: peer_table where
  "leader_table = fst (updatePosition (PeerTable 6000) \<lparr>pp_uid = 42, pp_lat = 470000000,
     pp_lon = 80000000, pp_alt_m = 500, pp_speed_cms = 900, pp_course_ddeg = 900,
     pp_flags = POSITION_FLAG_HAS_FIX\<rparr> 800 0 0)"

definition here :: node_location where
  "here = NodeLocation\<lparr>loc_valid := True, loc_lat := 470000000, loc_lon := 80000000, loc_alt_m := 490\<rparr>"

definition fc_on :: fc_view where
  "fc_on = \<lparr>fc_armed = True, fc_gcsNav = True, fc_headingHold = True, fc_rc = (\<lambda>ch. None),
     fc_localAltitudeCm = 2000, fc_platformType = Airplane\<rparr>"

definition following :: follow where
  "following = FollowController\<lparr>fo_state := FOLLOW_LOCK_LOCKED, fo_lockedUid := 42\<rparr>"

lemma leader_table_inv: "pt_inv leader_table"
  unfolding leader_table_def by (rule updatePosition_stored(1) [OF PeerTable_inv])

lemma leader_found: "pt_find leader_table 42 = Some leader"
  using updatePosition_stored(2) [OF PeerTable_inv, of 6000 "\<lparr>pp_uid = 42, pp_lat = 470000000,
     pp_lon = 80000000, pp_alt_m = 500, pp_speed_cms = 900, pp_course_ddeg = 900,
     pp_flags = POSITION_FLAG_HAS_FIX\<rparr>" 800 0 0]
  by (simp add: leader_table_def leader_def)

lemma leader_fresh: "\<not> followPeerStale (Some leader) 1000 1500"
  by (simp add: followPeerStale_def leader_def apply_position_def Let_def POSITION_FLAG_HAS_FIX_def
      age_ms_def markHeardOn_def blank_peer_def fresh_peer_def)

lemma following_inv: "follow_inv following"
  using FollowController_inv by (simp add: following_def follow_inv_def slot_sane_def)

lemma sample_distance: "distanceM sample_libm a b c d = Some 0"
  by (simp add: distanceM_def Let_def sample_libm_def dmul_def dadd_def m_sqrt_def m_asin_def)

section \<open>Properties\<close>

text \<open>C11: Follow never sends an unsafe waypoint: over any run of cycles and configuration changes
  from power-on, with any library functions, no cycle divides by zero, the live configuration is
  always a valid one and the slot in use always geometrically sane, and a cycle sends at most one
  waypoint, which it does only with the gate active, an own fix and a lock on a peer in the table
  that has a fix and a position younger than the timeout; the waypoint is that peer's position
  with the slot in use projected along the course held for the peer, its computed distance from the
  own position is not beyond the bound, its altitude is not below the floor, and its heading is 0,
  which leaves the nose alone, exactly in mode OFF, else 1 to 359. The slot in use only ever becomes
  the one the sticks ask for, or that of a configuration applied, and a stick takes an axis from one
  side of the leader to the other only where the other two axes keep the minimum separation by
  themselves, before and after.\<close>

theorem follow_waypoints_safe:
  assumes "list_all event_ok es"
  shows "\<exists>c out. follow_run m FollowController es = Some (c, out) \<and> follow_inv c \<and>
    list_all (output_safe m) out \<and> slots_kept FollowController out \<and> map fst out = es"
  using follow_run_inv [OF FollowController_inv assms] by blast

theorem follow_waypoints_safe_witness:
  "\<exists>c out. follow_run sample_libm FollowController [Service leader_table here fc_on 1000, Apply FollowConfig] =
     Some (c, out) \<and> follow_inv c \<and> list_all (output_safe sample_libm) out \<and> slots_kept FollowController out \<and>
     map fst out = [Service leader_table here fc_on 1000, Apply FollowConfig]"
  by (rule follow_waypoints_safe) (simp add: leader_table_inv)

text \<open>C12: The lock never fails over: once a peer is locked, then for as long as the gate stays
  active and the configured target is not changed, every cycle of any run keeps that UID, fresh,
  stale or gone, so every waypoint of the run follows that one aircraft.\<close>

theorem lock_never_fails_over:
  assumes "follow_inv c" "fo_state c \<in> locked_states"
    and "list_all (holds_lock (fw_targetUid (fo_config c))) es"
  shows "\<exists>c' out. follow_run m c es = Some (c', out) \<and> fo_lockedUid c' = fo_lockedUid c \<and>
    list_all (\<lambda>(e, d, cmds). output_safe m (e, d, cmds) \<and> fo_lockedUid d = fo_lockedUid c) out"
  using holds_lock_run [OF assms] by blast

theorem lock_never_fails_over_witness:
  "\<exists>c' out. follow_run sample_libm following [Service leader_table here fc_on 1000,
       Service (PeerTable 6000) here fc_on 3000, Service leader_table NodeLocation fc_on 4000] = Some (c', out) \<and>
     fo_lockedUid c' = 42 \<and> list_all (\<lambda>(e, d, cmds). output_safe sample_libm (e, d, cmds) \<and> fo_lockedUid d = 42) out"
proof -
  have l: "fo_state following \<in> locked_states" "fo_lockedUid following = 42"
    by (simp_all add: following_def locked_states_def)
  show ?thesis
    using lock_never_fails_over [OF following_inv l(1), of "[Service leader_table here fc_on 1000,
       Service (PeerTable 6000) here fc_on 3000, Service leader_table NodeLocation fc_on 4000]" sample_libm]
    by (simp add: leader_table_inv PeerTable_inv fc_on_def l(2))
qed

text \<open>C14: Nearest means nearest: with no target configured, an own fix and distances that are
  numbers, acquisition locks nothing exactly when no peer is followable, and otherwise a followable
  peer that no other followable peer is nearer than.\<close>

theorem nearest_peer_acquired:
  assumes "pt_inv t" "loc_valid self" "fw_targetUid cfg = 0"
    and "\<forall>p. followable t now (fw_peerTimeoutMs cfg) p \<longrightarrow> peer_distance m self p \<noteq> None"
  shows "case lock_candidate m t self cfg now of
      None \<Rightarrow> (\<forall>p. \<not> followable t now (fw_peerTimeoutMs cfg) p)
    | Some p \<Rightarrow> followable t now (fw_peerTimeoutMs cfg) p \<and>
        (\<forall>q. followable t now (fw_peerTimeoutMs cfg) q \<longrightarrow>
           the (peer_distance m self p) \<le> the (peer_distance m self q))"
proof -
  define ps where "ps = fresh_peers t now (fw_peerTimeoutMs cfg) [0..<kMaxPeers]"
  have set_ps: "set ps = {p. followable t now (fw_peerTimeoutMs cfg) p}"
    unfolding ps_def by (rule set_fresh_peers [OF assms(1)])
  have l: "lock_candidate m t self cfg now = nearest_of (peer_distance m self) ps None (Some 0)"
    unfolding lock_candidate_def ps_def nearest_scan_of [OF assms(2)] using assms(3) by simp
  have none: "ps = [] \<longleftrightarrow> (\<forall>p. \<not> followable t now (fw_peerTimeoutMs cfg) p)"
    unfolding set_empty [symmetric] set_ps by blast
  from nearest_of_min [of ps "peer_distance m self" None "Some 0"] assms(4) show ?thesis
    by (cases "nearest_of (peer_distance m self) ps None (Some 0)") (simp_all add: l none set_ps)
qed

theorem nearest_peer_acquired_witness:
  "\<exists>p. lock_candidate sample_libm leader_table here FollowConfig 1000 = Some p \<and> followable leader_table 1000 1500 p"
proof -
  have f: "followable leader_table 1000 1500 leader"
    using leader_found leader_fresh pt_find_uid [OF leader_found] by (simp add: followable_def)
  have c: "loc_valid here" "fw_targetUid FollowConfig = 0" "fw_peerTimeoutMs FollowConfig = 1500"
    by (simp_all add: here_def FollowConfig_def)
  have "\<forall>p. followable leader_table 1000 (fw_peerTimeoutMs FollowConfig) p \<longrightarrow> peer_distance sample_libm here p \<noteq> None"
    by (simp add: peer_distance_def sample_distance)
  from nearest_peer_acquired [OF leader_table_inv c(1,2) this] f c(3) show ?thesis
    by (cases "lock_candidate sample_libm leader_table here FollowConfig 1000") auto
qed

text \<open>C13: Follow does its job when it can: in every cycle that runs with the gate active, an own
  fix and a lock on a peer whose position is fresh, the lock is kept and exactly one waypoint goes
  out, at the slot in use, projected from the peer along the course held for it, unless that very
  place is farther from the own position than the bound, and then none goes out. The slot in use is
  the one before or the one the sticks ask for; the course held is the one the peer reports when it
  is fast enough for it to mean something.\<close>

theorem waypoint_sent_when_ready:
  assumes "follow_inv c" "cycle_due c now" "fc_gcsNav fc" "loc_valid self"
    and "fo_state c = FOLLOW_LOCK_LOCKED" "pt_find t (fo_lockedUid c) = Some p"
    and "\<not> followPeerStale (Some p) now (fw_peerTimeoutMs (fo_config c))"
  shows "\<exists>c' cmds. follow_service m t self fc c now = Some (c', cmds) \<and>
    fo_state c' = FOLLOW_LOCK_LOCKED \<and> fo_lockedUid c' = fo_lockedUid c \<and>
    slot_moved fc (fo_config c) (fo_lastKnownGood c) (fo_lastKnownGood c') \<and>
    held_course c' p = snd (resolveCourseDeg m c p) \<and>
    (if beyond m self (fo_config c) (slot_target m c' p) then waypoints cmds = []
     else \<exists>alt heading. waypoints cmds =
            [(tg_lat_1e7 (slot_target m c' p), tg_lon_1e7 (slot_target m c' p), alt, heading)])"
proof -
  define c0 where "c0 = c\<lparr>fo_started := True, fo_nextRunMs := now + 1000 div ucast (fw_emitHz (fo_config c))\<rparr>"
  define c1 where "c1 = prearm_check fc c0"
  have f: "fo_config c1 = fo_config c" "fo_state c1 = fo_state c" "fo_lockedUid c1 = fo_lockedUid c"
    "slot_sane c1" "fo_lastKnownGood c1 = fo_lastKnownGood c"
    using assms(1) by (simp_all add: c1_def c0_def follow_inv_def slot_sane_def)
  have hc: "fo_haveValidCourse c1 = fo_haveValidCourse c" "fo_lastValidCourseDeg c1 = fo_lastValidCourseDeg c"
    by (simp_all add: c1_def c0_def prearm_check_def Let_def)
  obtain c' cmds where tr: "follow_track m fc self c1 p now = (c', cmds)" by fastforce
  have "follow_cycle m t self fc c0 now = (c', cmds)"
    using assms(3,4) tr resolveLock_fresh [of c1 t p now m self] assms(5-7) f
    by (simp add: follow_cycle_def Let_def c1_def [symmetric])
  with service_due [OF assms(1,2), of m t self fc] obtain needs where
    s: "follow_service m t self fc c now = Some (c', needs # cmds)" "needs = hd (needs # cmds)"
    by (auto simp: c0_def)
  have w: "waypoints (needs # cmds) = waypoints cmds"
    using s(1) by (auto simp: follow_service_def Let_def split: if_splits prod.splits)
  have h: "held_course c' p = snd (resolveCourseDeg m c p)"
    using follow_track_spec [OF f(4) tr] f(1) hc by (simp add: resolveCourseDeg_def Let_def)
  show ?thesis
    by (rule exI [of _ c'], rule exI [of _ "needs # cmds"])
      (use follow_track_spec [OF f(4) tr] s(1) w h f assms(5) in \<open>auto simp: same_lock_def split: if_splits\<close>)
qed

theorem waypoint_sent_when_ready_witness:
  "\<exists>c' cmds. follow_service sample_libm leader_table here fc_on following 1000 = Some (c', cmds) \<and>
     length (waypoints cmds) = 1"
proof -
  have c: "cycle_due following 1000" "fc_gcsNav fc_on" "loc_valid here" "fo_state following = FOLLOW_LOCK_LOCKED"
    "fo_lockedUid following = 42" "fw_peerTimeoutMs (fo_config following) = 1500"
    "0 \<le> fw_maxTargetDistM (fo_config following)"
    by (simp_all add: following_def FollowController_def cycle_due_def fc_on_def here_def FollowConfig_def)
  have near: "\<not> beyond sample_libm here (fo_config following) tg" for tg
    using c(7) by (simp add: beyond_def sample_distance dbl_less_def)
  from waypoint_sent_when_ready [OF following_inv c(1-4), of leader_table leader sample_libm] near show ?thesis
    using leader_found leader_fresh c(5,6) by auto
qed

text \<open>The cycles keep their pace: after a cycle that ran, for every moment within \<open>2 ^ 31\<close> ms of
  it and across the wrap of the clock, a call does nothing exactly while less than a period of
  \<open>1000 / emitHz\<close> ms has passed.\<close>

theorem cycles_keep_pace:
  assumes "follow_inv c" "pt_inv t" "cycle_due c now" "unat (age_ms later now) < 2 ^ 31"
    and "follow_service m t self fc c now = Some (c', cmds)"
  shows "follow_service m t' self' fc' c' later = Some (c', []) \<longleftrightarrow>
    unat (age_ms later now) < 1000 div unat (fw_emitHz (fo_config c))"
proof -
  define c0 where "c0 = c\<lparr>fo_started := True, fo_nextRunMs := now + 1000 div ucast (fw_emitHz (fo_config c))\<rparr>"
  define period :: u32 where "period = 1000 div ucast (fw_emitHz (fo_config c))"
  have p: "unat period = 1000 div unat (fw_emitHz (fo_config c))"
    by (simp add: period_def unat_div_distrib)
  have sane: "slot_sane c0" "length (fo_lockedName c0) = 16" using assms(1) by (simp_all add: c0_def follow_inv_def slot_sane_def)
  obtain c2 cmds2 where cyc: "follow_cycle m t self fc c0 now = (c2, cmds2)" by fastforce
  have c': "c' = c2" using service_due [OF assms(1,3), of m t self fc] assms(5) cyc by (auto simp: c0_def)
  note s = follow_cycle_spec [OF sane(1) assms(2) sane(2) cyc]
  have f: "fo_started c'" "fo_nextRunMs c' = now + period" "fo_config c' = fo_config c"
    using s by (simp_all add: c' c0_def period_def)
  have "unat period \<le> 1000" by (simp add: p)
  then have "sint (later - fo_nextRunMs c') < 0 \<longleftrightarrow> unat (age_ms later now) < unat period"
    using sint_before [of "later - now" period] assms(4) by (simp add: f(2) age_ms_def diff_diff_eq)
  moreover have "follow_service m t' self' fc' c' later = Some (c', []) \<longleftrightarrow> sint (later - fo_nextRunMs c') < 0"
    using f(1) by (auto simp: follow_service_def Let_def split: prod.splits)
  ultimately show ?thesis by (simp add: p)
qed

theorem cycles_keep_pace_witness:
  "\<exists>c' cmds. follow_service sample_libm leader_table here fc_on following 4294967000 = Some (c', cmds) \<and>
     follow_service sample_libm leader_table here fc_on c' 4294967249 = Some (c', []) \<and>
     follow_service sample_libm leader_table here fc_on c' 100 \<noteq> Some (c', [])"
proof -
  have due: "cycle_due following 4294967000" "fw_emitHz (fo_config following) = 4"
    by (simp_all add: following_def FollowController_def cycle_due_def FollowConfig_def)
  obtain c' cmds where s: "follow_service sample_libm leader_table here fc_on following 4294967000 = Some (c', cmds)"
    by (rule follow_service_spec [OF following_inv leader_table_inv])
  have a: "unat (age_ms 4294967249 4294967000) = 249" "unat (age_ms 100 4294967000) = 396" by (simp_all add: age_ms_def)
  show ?thesis
    using cycles_keep_pace [OF following_inv leader_table_inv due(1) _ s, of 4294967249 leader_table here fc_on]
      cycles_keep_pace [OF following_inv leader_table_inv due(1) _ s, of 100 leader_table here fc_on]
      a due(2) s by auto
qed

text \<open>A report is never stale and never spams: over any history of calls with an enabled index,
  the last command sent carries the value of the last call and is less than the heartbeat old,
  and two commands in a row differ or are a heartbeat apart.\<close>

theorem gvar_reports_fresh:
  assumes "0 \<le> sint i" "calls \<noteq> []" "INT32_MIN \<notin> fst ` set calls"
  shows "let sends = gvar_run i INT32_MIN ms calls
    in sends \<noteq> [] \<and> snd (last sends) = Gvar (ucast i) (fst (last calls)) \<and>
       age_ms (snd (last calls)) (fst (last sends)) < kFollowGvarHeartbeatMs \<and> successively spaced sends"
proof -
  obtain v now rest where calls: "calls = (v, now) # rest" using assms(2) by (cases calls) auto
  have r: "gvar_run i INT32_MIN ms calls = (now, Gvar (ucast i) v) # gvar_run i v now rest"
    using assms(1) by (simp add: calls sendGvarIfDue_def)
  have "age_ms now now < kFollowGvarHeartbeatMs" by (simp add: kFollowGvarHeartbeatMs_def)
  moreover have "v \<noteq> INT32_MIN" "INT32_MIN \<notin> fst ` set rest" using assms(3) by (auto simp: calls)
  note gvar_run_from [OF assms(1) this, of now, unfolded Let_def]
  ultimately show ?thesis unfolding r Let_def by (cases "rest = []") (simp_all add: calls split: if_splits)
qed

theorem gvar_reports_fresh_witness:
  "let sends = gvar_run 3 INT32_MIN 0 [(1, 0), (1, 4000), (1, 5000), (2, 5100)]
   in sends \<noteq> [] \<and> snd (last sends) = Gvar 3 2 \<and> successively spaced sends"
proof -
  have "0 \<le> sint (3 :: i16)" by simp
  from gvar_reports_fresh [OF this, of "[(1, 0), (1, 4000), (1, 5000), (2, 5100)]" 0] show ?thesis
    by (simp add: INT32_MIN_def Let_def del: gvar_run.simps)
qed

text \<open>The speed setpoint stays in its bounds: with bounds of whole metres per second in order,
  as the configuration stores them, and an along-track error that is a number, the setpoint is
  between them in centimetres per second, and it is 0 while the bounds are unset.\<close>

theorem target_speed_bounded:
  assumes "fw_minTargetSpeedMps cfg = of_int lo" "fw_maxTargetSpeedMps cfg = of_int hi"
    and "0 \<le> lo" "lo \<le> hi" "hi \<le> 32767"
    and "resolveAlongTrackErrorM m tg course self \<noteq> None"
  shows "100 * lo \<le> sint (resolveTargetSpeedCmS m cfg peer tg course self) \<and>
    sint (resolveTargetSpeedCmS m cfg peer tg course self) \<le> 100 * hi"
proof -
  obtain e where e: "resolveAlongTrackErrorM m tg course self = Some e" using assms(6) by blast
  have x: "dmul (of_int k) 100 = of_int (100 * k)" if "0 \<le> k" "k \<le> 32767" for k
    using that round_to_of_int [of "100 * k" 53] by (simp add: dmul_def mult.commute)
  define v where "v = clampD (dadd (dbl_of_u16 (pe_speed_cms peer))
    (correctionCmS (fw_speedCorrectionAccelCmS2 cfg) e)) (of_int (100 * lo)) (of_int (100 * hi))"
  have v: "of_int (100 * lo) \<le> v" "v \<le> of_int (100 * hi)"
    using clampD_between assms(4) by (simp_all add: v_def)
  have b: "100 * lo \<le> round_away v" "round_away v \<le> 100 * hi"
    using round_away_mono [OF v(1)] round_away_mono [OF v(2)] by (simp_all only: round_away_of_int)
  have "resolveTargetSpeedCmS m cfg peer tg course self = lround_i32 m (Some v)"
    using assms(1-5) x by (simp add: resolveTargetSpeedCmS_def Let_def e v_def)
  then show ?thesis using lround_i32_range [of v m] b assms(3,5) by simp
qed

theorem target_speed_bounded_witness:
  "1000 \<le> sint (resolveTargetSpeedCmS sample_libm (FollowConfig\<lparr>fw_minTargetSpeedMps := 10, fw_maxTargetSpeedMps := 20\<rparr>)
     leader \<lparr>tg_lat_1e7 = 0, tg_lon_1e7 = 0\<rparr> 0 here)"
proof -
  have "resolveAlongTrackErrorM sample_libm \<lparr>tg_lat_1e7 = 0, tg_lon_1e7 = 0\<rparr> 0 here \<noteq> None"
    by (simp add: resolveAlongTrackErrorM_def horizontalOffsetM_def Let_def sample_distance)
  from target_speed_bounded [OF _ _ _ _ _ this, of "FollowConfig\<lparr>fw_minTargetSpeedMps := 10, fw_maxTargetSpeedMps := 20\<rparr>"
      10 20 leader] show ?thesis by simp
qed

end
