(* ===== verification/Config.thy ===== *)
theory Config
  imports Follow Lora_Band
begin

text \<open>
  lib/ff_core/config.h and config.cpp: the persisted configuration, its JSON form, the merge of
  a partial document and the validation. ArduinoJson is third-party code: a document is a value
  of an arbitrary type and the calls the code makes on it are a parameter, the record
  \<open>json_api\<close>. What is written is the list of assignments, section by section, in order.
  A C string is the array that holds it, or, for a string the parser hands out, its bytes
  without the NUL.
\<close>

section \<open>Settings\<close>

definition kConfigVersion :: u16 where "kConfigVersion = 1"
definition kMaxPassphraseLen :: nat where "kMaxPassphraseLen = 32"
definition kMaxSsidLen :: nat where "kMaxSsidLen = 32"
definition kMaxPskLen :: nat where "kMaxPskLen = 63"

record node_settings =
  cn_name :: byte_list
  cn_listen_only :: bool

record security_settings =
  cs_passphrase :: byte_list

record radio_settings =
  cr_espnow_enabled :: bool
  cr_lora_enabled :: bool
  cr_lora_power_dbm :: i16
  cr_lora_band :: u16

record wifi_settings =
  cw_ap :: bool
  cw_ssid :: byte_list
  cw_psk :: byte_list
  cw_ap_psk :: byte_list
  cw_channel :: u8

record sim_settings =
  cm_enabled :: bool

record settings =
  cfg_version :: u16
  cfg_node :: node_settings
  cfg_security :: security_settings
  cfg_rate :: rate_config
  cfg_peer_timeout_ms :: u32
  cfg_announce_interval_ms :: u32
  cfg_msp_radar_interval_ms :: u32
  cfg_gnss_rate_hz :: u16
  cfg_radios :: radio_settings
  cfg_wifi :: wifi_settings
  cfg_follow :: follow_config
  cfg_sim :: sim_settings

definition Settings :: settings where
  "Settings = \<lparr>cfg_version = kConfigVersion,
     cfg_node = \<lparr>cn_name = replicate (kMaxNameLen + 1) 0, cn_listen_only = False\<rparr>,
     cfg_security = \<lparr>cs_passphrase = replicate (kMaxPassphraseLen + 1) 0\<rparr>,
     cfg_rate = RateConfig, cfg_peer_timeout_ms = 6000, cfg_announce_interval_ms = 2000,
     cfg_msp_radar_interval_ms = 100, cfg_gnss_rate_hz = 10,
     cfg_radios = \<lparr>cr_espnow_enabled = True, cr_lora_enabled = True, cr_lora_power_dbm = 0, cr_lora_band = 0\<rparr>,
     cfg_wifi = \<lparr>cw_ap = True, cw_ssid = replicate (kMaxSsidLen + 1) 0,
       cw_psk = replicate (kMaxPskLen + 1) 0, cw_ap_psk = replicate (kMaxPskLen + 1) 0, cw_channel = 1\<rparr>,
     cfg_follow = FollowConfig, cfg_sim = \<lparr>cm_enabled = False\<rparr>\<rparr>"

section \<open>JSON\<close>

text \<open>The calls on a variant of a document: \<open>containsKey\<close>, \<open>operator[]\<close>, the string it is, if it
  is one (\<open>is<const char*>\<close> and \<open>as<const char*>\<close>), and \<open>as<T>\<close>.\<close>

record 'v json_api =
  js_contains :: "'v \<Rightarrow> string \<Rightarrow> bool"
  js_get :: "'v \<Rightarrow> string \<Rightarrow> 'v"
  js_str :: "'v \<Rightarrow> byte_list option"
  js_bool :: "'v \<Rightarrow> bool"
  js_u8 :: "'v \<Rightarrow> u8"
  js_u16 :: "'v \<Rightarrow> u16"
  js_i16 :: "'v \<Rightarrow> i16"
  js_u32 :: "'v \<Rightarrow> u32"
  js_flt :: "'v \<Rightarrow> flt"
  js_dbl :: "'v \<Rightarrow> dbl"

datatype js_val = JsBool bool | JsU8 u8 | JsU16 u16 | JsI16 i16 | JsU32 u32 | JsFlt flt | JsDbl dbl
  | JsStr byte_list

type_synonym js_section = "string \<times> (string \<times> js_val) list"

text \<open>The placeholder of a secret, eight bullets in UTF-8.\<close>

definition kRedactedSecret :: byte_list where
  "kRedactedSecret = concat (replicate 8 [0xE2, 0x80, 0xA2])"

definition ascii :: "string \<Rightarrow> byte_list" where "ascii s = map (\<lambda>c. of_nat (of_char c)) s"

text \<open>\<open>strncpy(dst, s, cap)\<close> into an array of \<open>cap + 1\<close> bytes, and the terminator.\<close>

definition strncpy_buf :: "nat \<Rightarrow> byte_list \<Rightarrow> byte_list" where
  "strncpy_buf cap s = (let n = boundedLen s cap in take n s @ replicate (cap + 1 - n) 0)"

definition copyStr :: "'v json_api \<Rightarrow> 'v \<Rightarrow> byte_list \<Rightarrow> nat \<Rightarrow> byte_list" where
  "copyStr api v dst cap =
     (case js_str api v of
        None \<Rightarrow> dst
      | Some s \<Rightarrow> if cstr s = kRedactedSecret then dst else strncpy_buf cap s)"

definition putSecret :: "string \<Rightarrow> byte_list \<Rightarrow> bool \<Rightarrow> string \<times> js_val" where
  "putSecret key value redact =
     (if redact \<and> value ! 0 \<noteq> 0 then (key, JsStr kRedactedSecret) else (key, JsStr (cstr value)))"

definition mergeVal :: "'v json_api \<Rightarrow> ('v \<Rightarrow> 't) \<Rightarrow> 'v \<Rightarrow> string \<Rightarrow> 't \<Rightarrow> 't" where
  "mergeVal api as_t obj key dst =
     (if js_contains api obj key then as_t (js_get api obj key) else dst)"

section \<open>UIDs as hexadecimal text\<close>

definition hex_digit :: "nat \<Rightarrow> u8" where
  "hex_digit n = (if n < 10 then 48 + of_nat n else 87 + of_nat n)"

text \<open>\<open>snprintf\<close> with \<open>%08x\<close>.\<close>

definition hex8 :: "u32 \<Rightarrow> byte_list" where
  "hex8 u = map (\<lambda>i. hex_digit (unat u div 16 ^ (7 - i) mod 16)) [0..<8]"

definition hex_value :: "u8 \<Rightarrow> nat option" where
  "hex_value c =
     (let n = unat c
      in if 48 \<le> n \<and> n \<le> 57 then Some (n - 48)
         else if 97 \<le> n \<and> n \<le> 102 then Some (n - 87)
         else if 65 \<le> n \<and> n \<le> 70 then Some (n - 55) else None)"

fun strtoul_digits :: "byte_list \<Rightarrow> nat \<Rightarrow> nat" where
  "strtoul_digits [] acc = acc"
| "strtoul_digits (c # s) acc =
     (case hex_value c of None \<Rightarrow> acc | Some d \<Rightarrow> strtoul_digits s (16 * acc + d))"

text \<open>\<open>strtoul(s, nullptr, 16)\<close> where \<open>unsigned long\<close> has 32 bits: white space, a sign, an optional
  \<open>0x\<close>, then digits; out of range gives the maximum.\<close>

definition is_space :: "u8 \<Rightarrow> bool" where
  "is_space c \<longleftrightarrow> c = 32 \<or> 9 \<le> c \<and> c \<le> 13"

definition strtoul16 :: "byte_list \<Rightarrow> u32" where
  "strtoul16 s =
     (let s = dropWhile is_space s;
          neg = (s \<noteq> [] \<and> hd s = 45);
          s = (if s \<noteq> [] \<and> (hd s = 45 \<or> hd s = 43) then tl s else s);
          s = (if take 2 s = [48, 120] \<or> take 2 s = [48, 88] then drop 2 s else s);
          n = strtoul_digits s 0
      in if n > 4294967295 then 4294967295 else if neg then - of_nat n else of_nat n)"

section \<open>Follow\<close>

definition heading_of_name :: "byte_list \<Rightarrow> follow_heading_mode \<Rightarrow> follow_heading_mode" where
  "heading_of_name s old =
     (if s = ascii ''OFF'' then FOLLOW_HEADING_OFF
      else if s = ascii ''COURSE'' then FOLLOW_HEADING_COURSE
      else if s = ascii ''POINT_LEADER'' then FOLLOW_HEADING_POINT_LEADER
      else if s = ascii ''FIXED'' then FOLLOW_HEADING_FIXED
      else if s = ascii ''COURSE_RELATIVE'' then FOLLOW_HEADING_COURSE_RELATIVE
      else old)"

definition merge_target_uid :: "'v json_api \<Rightarrow> 'v \<Rightarrow> u32 \<Rightarrow> u32" where
  "merge_target_uid api obj old =
     (if js_contains api obj ''targetUid'' then
        (let v = js_get api obj ''targetUid''
         in case js_str api v of Some s \<Rightarrow> strtoul16 s | None \<Rightarrow> js_u32 api v)
      else old)"

definition merge_heading :: "'v json_api \<Rightarrow> 'v \<Rightarrow> follow_heading_mode \<Rightarrow> follow_heading_mode" where
  "merge_heading api obj old =
     (if js_contains api obj ''headingMode'' then
        (case js_str api (js_get api obj ''headingMode'') of
           Some s \<Rightarrow> heading_of_name (cstr s) old | None \<Rightarrow> old)
      else old)"

definition mergeFollow :: "'v json_api \<Rightarrow> 'v \<Rightarrow> follow_config \<Rightarrow> follow_config" where
  "mergeFollow api obj f =
     (let u32_of = mergeVal api (js_u32 api) obj; u16_of = mergeVal api (js_u16 api) obj;
          i16_of = mergeVal api (js_i16 api) obj; dbl_of = mergeVal api (js_dbl api) obj
      in \<lparr>fw_ofsLongM = dbl_of ''ofsLongM'' (fw_ofsLongM f),
          fw_ofsLatM = dbl_of ''ofsLatM'' (fw_ofsLatM f),
          fw_ofsVertM = dbl_of ''ofsVertM'' (fw_ofsVertM f),
          fw_targetUid = merge_target_uid api obj (u32_of ''targetUid'' (fw_targetUid f)),
          fw_emitHz = u16_of ''emitHz'' (fw_emitHz f),
          fw_peerTimeoutMs = u32_of ''peerTimeoutMs'' (fw_peerTimeoutMs f),
          fw_minSepM = dbl_of ''minSepM'' (fw_minSepM f),
          fw_minVSepM = dbl_of ''minVSepM'' (fw_minVSepM f),
          fw_maxTargetDistM = dbl_of ''maxTargetDistM'' (fw_maxTargetDistM f),
          fw_minAltM = dbl_of ''minAltM'' (fw_minAltM f),
          fw_minCourseSpeed = dbl_of ''minCourseSpeed'' (fw_minCourseSpeed f),
          fw_headingMode = merge_heading api obj (fw_headingMode f),
          fw_headingDeg = dbl_of ''headingDeg'' (fw_headingDeg f),
          fw_statusGvarIndex = i16_of ''statusGvarIndex'' (fw_statusGvarIndex f),
          fw_conditionFlagsGvarIndex = i16_of ''conditionFlagsGvarIndex'' (fw_conditionFlagsGvarIndex f),
          fw_rcLongChannel = i16_of ''rcLongChannel'' (fw_rcLongChannel f),
          fw_rcLatChannel = i16_of ''rcLatChannel'' (fw_rcLatChannel f),
          fw_rcVertChannel = i16_of ''rcVertChannel'' (fw_rcVertChannel f),
          fw_targetSpeedGvarIndex = i16_of ''targetSpeedGvarIndex'' (fw_targetSpeedGvarIndex f),
          fw_autothrottleEngageGvarIndex =
            i16_of ''autothrottleEngageGvarIndex'' (fw_autothrottleEngageGvarIndex f),
          fw_autothrottleEnableRcChannel =
            i16_of ''autothrottleEnableRcChannel'' (fw_autothrottleEnableRcChannel f),
          fw_autothrottleEnableMinThresholdUs =
            i16_of ''autothrottleEnableMinThresholdUs'' (fw_autothrottleEnableMinThresholdUs f),
          fw_autothrottleEnableMaxThresholdUs =
            i16_of ''autothrottleEnableMaxThresholdUs'' (fw_autothrottleEnableMaxThresholdUs f),
          fw_speedCorrectionAccelCmS2 = i16_of ''speedCorrectionAccelCmS2'' (fw_speedCorrectionAccelCmS2 f),
          fw_minTargetSpeedMps = dbl_of ''minTargetSpeedMps'' (fw_minTargetSpeedMps f),
          fw_maxTargetSpeedMps = dbl_of ''maxTargetSpeedMps'' (fw_maxTargetSpeedMps f),
          fw_debug = mergeVal api (js_bool api) obj ''debug'' (fw_debug f)\<rparr>)"

definition followToJson :: "follow_config \<Rightarrow> (string \<times> js_val) list" where
  "followToJson f =
     [(''targetUid'', JsU32 (fw_targetUid f)), (''emitHz'', JsU16 (fw_emitHz f)),
      (''peerTimeoutMs'', JsU32 (fw_peerTimeoutMs f)), (''statusGvarIndex'', JsI16 (fw_statusGvarIndex f)),
      (''conditionFlagsGvarIndex'', JsI16 (fw_conditionFlagsGvarIndex f)),
      (''rcLongChannel'', JsI16 (fw_rcLongChannel f)), (''rcLatChannel'', JsI16 (fw_rcLatChannel f)),
      (''rcVertChannel'', JsI16 (fw_rcVertChannel f)),
      (''targetSpeedGvarIndex'', JsI16 (fw_targetSpeedGvarIndex f)),
      (''autothrottleEngageGvarIndex'', JsI16 (fw_autothrottleEngageGvarIndex f)),
      (''autothrottleEnableRcChannel'', JsI16 (fw_autothrottleEnableRcChannel f)),
      (''autothrottleEnableMinThresholdUs'', JsI16 (fw_autothrottleEnableMinThresholdUs f)),
      (''autothrottleEnableMaxThresholdUs'', JsI16 (fw_autothrottleEnableMaxThresholdUs f)),
      (''speedCorrectionAccelCmS2'', JsI16 (fw_speedCorrectionAccelCmS2 f)),
      (''ofsLongM'', JsDbl (fw_ofsLongM f)), (''ofsLatM'', JsDbl (fw_ofsLatM f)),
      (''ofsVertM'', JsDbl (fw_ofsVertM f)), (''minSepM'', JsDbl (fw_minSepM f)),
      (''minVSepM'', JsDbl (fw_minVSepM f)), (''maxTargetDistM'', JsDbl (fw_maxTargetDistM f)),
      (''minAltM'', JsDbl (fw_minAltM f)), (''minCourseSpeed'', JsDbl (fw_minCourseSpeed f)),
      (''headingDeg'', JsDbl (fw_headingDeg f)), (''minTargetSpeedMps'', JsDbl (fw_minTargetSpeedMps f)),
      (''maxTargetSpeedMps'', JsDbl (fw_maxTargetSpeedMps f)),
      (''targetUid'', JsStr (hex8 (fw_targetUid f))),
      (''headingMode'', JsStr (ascii (followHeadingModeName (fw_headingMode f)))),
      (''triggerMode'', JsStr (ascii (followTriggerModeName FOLLOW_TRIGGER_MODE))),
      (''debug'', JsBool (fw_debug f))]"

section \<open>Document, validation, merge\<close>

definition configToJson :: "settings \<Rightarrow> bool \<Rightarrow> u16 \<times> js_section list" where
  "configToJson cfg redact_secrets =
     (cfg_version cfg,
      [(''node'', [(''name'', JsStr (cstr (cn_name (cfg_node cfg)))),
          (''listen_only'', JsBool (cn_listen_only (cfg_node cfg)))]),
       (''security'', [putSecret ''passphrase'' (cs_passphrase (cfg_security cfg)) redact_secrets]),
       (''rate'', [(''target_load'', JsFlt (rc_target_load (cfg_rate cfg))),
          (''min_interval_ms'', JsU32 (rc_min_interval_ms (cfg_rate cfg))),
          (''max_interval_ms'', JsU32 (rc_max_interval_ms (cfg_rate cfg))),
          (''jitter_frac'', JsFlt (rc_jitter_frac (cfg_rate cfg))),
          (''duty_cycle_pct'', JsU8 (rc_duty_cycle_pct (cfg_rate cfg)))]),
       (''peers'', [(''timeout_ms'', JsU32 (cfg_peer_timeout_ms cfg)),
          (''announce_interval_ms'', JsU32 (cfg_announce_interval_ms cfg))]),
       (''msp'', [(''radar_interval_ms'', JsU32 (cfg_msp_radar_interval_ms cfg))]),
       (''gnss'', [(''rate_hz'', JsU16 (cfg_gnss_rate_hz cfg))]),
       (''radios'', [(''espnow_enabled'', JsBool (cr_espnow_enabled (cfg_radios cfg))),
          (''lora_enabled'', JsBool (cr_lora_enabled (cfg_radios cfg))),
          (''lora_power_dbm'', JsI16 (cr_lora_power_dbm (cfg_radios cfg))),
          (''lora_band'', JsU16 (cr_lora_band (cfg_radios cfg)))]),
       (''wifi'', [(''ap'', JsBool (cw_ap (cfg_wifi cfg))), (''ssid'', JsStr (cstr (cw_ssid (cfg_wifi cfg)))),
          putSecret ''psk'' (cw_psk (cfg_wifi cfg)) redact_secrets,
          putSecret ''ap_psk'' (cw_ap_psk (cfg_wifi cfg)) redact_secrets,
          (''channel'', JsU8 (cw_channel (cfg_wifi cfg)))]),
       (''sim'', [(''enabled'', JsBool (cm_enabled (cfg_sim cfg)))]),
       (''follow'', followToJson (cfg_follow cfg))])"

definition configValidate :: "settings \<Rightarrow> string option" where
  "configValidate c =
     (if rc_target_load (cfg_rate c) \<le> 0 \<or> rc_target_load (cfg_rate c) > 1
      then Some ''rate.target_load must be in (0, 1]''
      else if rc_jitter_frac (cfg_rate c) < 0 \<or> rc_jitter_frac (cfg_rate c) \<ge> 1
      then Some ''rate.jitter_frac must be in [0, 1)''
      else if rc_min_interval_ms (cfg_rate c) = 0 then Some ''rate.min_interval_ms must be > 0''
      else if rc_max_interval_ms (cfg_rate c) < rc_min_interval_ms (cfg_rate c)
      then Some ''rate.max_interval_ms must be >= rate.min_interval_ms''
      else if rc_duty_cycle_pct (cfg_rate c) > 100
      then Some ''rate.duty_cycle_pct must be 0 (no limit) or 1-100''
      else if cfg_peer_timeout_ms c = 0 then Some ''peers.timeout_ms must be > 0''
      else if cfg_announce_interval_ms c = 0 then Some ''peers.announce_interval_ms must be > 0''
      else if cfg_msp_radar_interval_ms c = 0 then Some ''msp.radar_interval_ms must be > 0''
      else if cfg_gnss_rate_hz c = 0 \<or> cfg_gnss_rate_hz c > 25 then Some ''gnss.rate_hz must be 1-25''
      else if \<not> cr_espnow_enabled (cfg_radios c) \<and> \<not> cr_lora_enabled (cfg_radios c) \<and> \<not> cm_enabled (cfg_sim c)
      then Some ''at least one radio must be enabled''
      else if sint (cr_lora_power_dbm (cfg_radios c)) < 0 \<or> sint (cr_lora_power_dbm (cfg_radios c)) > 30
      then Some ''radios.lora_power_dbm must be 0 (target default) or 1-30''
      else if \<not> (cr_lora_band (cfg_radios c) = 0 \<or> cr_lora_band (cfg_radios c) \<in> set kLoraBands)
      then Some ''radios.lora_band must be 0 (flashed default), 433, 868, 915 or 2400''
      else if cw_channel (cfg_wifi c) < 1 \<or> cw_channel (cfg_wifi c) > 13
      then Some ''wifi.channel must be 1-13''
      else if \<not> cw_ap (cfg_wifi c) \<and> cw_ssid (cfg_wifi c) ! 0 = 0
      then Some ''wifi.ssid is required when wifi.ap is false''
      else if cw_ap_psk (cfg_wifi c) ! 0 \<noteq> 0 \<and> length (cstr (cw_ap_psk (cfg_wifi c))) < 8
      then Some ''wifi.ap_psk must be empty (open) or at least 8 characters''
      else followValidateConfig (cfg_follow c))"

text \<open>The sections of a merge: each is left alone unless the document has it.\<close>

definition in_section :: "'v json_api \<Rightarrow> 'v \<Rightarrow> string \<Rightarrow> ('v \<Rightarrow> 's \<Rightarrow> 's) \<Rightarrow> 's \<Rightarrow> 's" where
  "in_section api doc key merge s =
     (if js_contains api doc key then merge (js_get api doc key) s else s)"

definition merge_node :: "'v json_api \<Rightarrow> 'v \<Rightarrow> node_settings \<Rightarrow> node_settings" where
  "merge_node api obj n = \<lparr>cn_name = copyStr api (js_get api obj ''name'') (cn_name n) kMaxNameLen,
     cn_listen_only = mergeVal api (js_bool api) obj ''listen_only'' (cn_listen_only n)\<rparr>"

definition merge_security :: "'v json_api \<Rightarrow> 'v \<Rightarrow> security_settings \<Rightarrow> security_settings" where
  "merge_security api obj n =
     \<lparr>cs_passphrase = copyStr api (js_get api obj ''passphrase'') (cs_passphrase n) kMaxPassphraseLen\<rparr>"

definition merge_rate :: "'v json_api \<Rightarrow> 'v \<Rightarrow> rate_config \<Rightarrow> rate_config" where
  "merge_rate api obj r =
     \<lparr>rc_target_load = mergeVal api (js_flt api) obj ''target_load'' (rc_target_load r),
      rc_min_interval_ms = mergeVal api (js_u32 api) obj ''min_interval_ms'' (rc_min_interval_ms r),
      rc_max_interval_ms = mergeVal api (js_u32 api) obj ''max_interval_ms'' (rc_max_interval_ms r),
      rc_jitter_frac = mergeVal api (js_flt api) obj ''jitter_frac'' (rc_jitter_frac r),
      rc_duty_cycle_pct = mergeVal api (js_u8 api) obj ''duty_cycle_pct'' (rc_duty_cycle_pct r)\<rparr>"

definition merge_radios :: "'v json_api \<Rightarrow> 'v \<Rightarrow> radio_settings \<Rightarrow> radio_settings" where
  "merge_radios api obj r =
     \<lparr>cr_espnow_enabled = mergeVal api (js_bool api) obj ''espnow_enabled'' (cr_espnow_enabled r),
      cr_lora_enabled = mergeVal api (js_bool api) obj ''lora_enabled'' (cr_lora_enabled r),
      cr_lora_power_dbm = mergeVal api (js_i16 api) obj ''lora_power_dbm'' (cr_lora_power_dbm r),
      cr_lora_band = mergeVal api (js_u16 api) obj ''lora_band'' (cr_lora_band r)\<rparr>"

definition merge_wifi :: "'v json_api \<Rightarrow> 'v \<Rightarrow> wifi_settings \<Rightarrow> wifi_settings" where
  "merge_wifi api obj w =
     \<lparr>cw_ap = mergeVal api (js_bool api) obj ''ap'' (cw_ap w),
      cw_ssid = copyStr api (js_get api obj ''ssid'') (cw_ssid w) kMaxSsidLen,
      cw_psk = copyStr api (js_get api obj ''psk'') (cw_psk w) kMaxPskLen,
      cw_ap_psk = copyStr api (js_get api obj ''ap_psk'') (cw_ap_psk w) kMaxPskLen,
      cw_channel = mergeVal api (js_u8 api) obj ''channel'' (cw_channel w)\<rparr>"

text \<open>The body of the merge, before the validation.\<close>

definition merge_settings :: "'v json_api \<Rightarrow> 'v \<Rightarrow> settings \<Rightarrow> settings" where
  "merge_settings api doc c =
     c\<lparr>cfg_node := in_section api doc ''node'' (merge_node api) (cfg_node c),
       cfg_security := in_section api doc ''security'' (merge_security api) (cfg_security c),
       cfg_rate := in_section api doc ''rate'' (merge_rate api) (cfg_rate c),
       cfg_peer_timeout_ms := in_section api doc ''peers''
         (\<lambda>obj. mergeVal api (js_u32 api) obj ''timeout_ms'') (cfg_peer_timeout_ms c),
       cfg_announce_interval_ms := in_section api doc ''peers''
         (\<lambda>obj. mergeVal api (js_u32 api) obj ''announce_interval_ms'') (cfg_announce_interval_ms c),
       cfg_msp_radar_interval_ms := in_section api doc ''msp''
         (\<lambda>obj. mergeVal api (js_u32 api) obj ''radar_interval_ms'') (cfg_msp_radar_interval_ms c),
       cfg_gnss_rate_hz := in_section api doc ''gnss''
         (\<lambda>obj. mergeVal api (js_u16 api) obj ''rate_hz'') (cfg_gnss_rate_hz c),
       cfg_radios := in_section api doc ''radios'' (merge_radios api) (cfg_radios c),
       cfg_wifi := in_section api doc ''wifi'' (merge_wifi api) (cfg_wifi c),
       cfg_sim := in_section api doc ''sim''
         (\<lambda>obj s. s\<lparr>cm_enabled := mergeVal api (js_bool api) obj ''enabled'' (cm_enabled s)\<rparr>) (cfg_sim c),
       cfg_follow := in_section api doc ''follow'' (mergeFollow api) (cfg_follow c)\<rparr>"

definition configMergeJson :: "'v json_api \<Rightarrow> 'v \<Rightarrow> settings \<Rightarrow> settings \<times> string option" where
  "configMergeJson api doc cfg =
     (let nxt = merge_settings api doc cfg
      in case configValidate nxt of Some err \<Rightarrow> (cfg, Some err) | None \<Rightarrow> (nxt, None))"

text \<open>\<open>snprintf(dst, sizeof(dst), "%s", s)\<close>: the bytes behind the NUL stay as they were.\<close>

definition snprintf_buf :: "byte_list \<Rightarrow> byte_list \<Rightarrow> byte_list" where
  "snprintf_buf dst s =
     (let t = take (length dst - 1) (cstr s) @ [0] in t @ drop (length t) dst)"

definition configSeedFlashed ::
  "settings \<Rightarrow> byte_list option \<Rightarrow> byte_list option \<Rightarrow> settings \<times> bool" where
  "configSeedFlashed cfg name passphrase =
     (let given = (\<lambda>s. case s of None \<Rightarrow> False | Some t \<Rightarrow> cstr t \<noteq> []);
          nxt = (if given name then cfg\<lparr>cfg_node := (cfg_node cfg)\<lparr>cn_name :=
                   snprintf_buf (cn_name (cfg_node cfg)) (the name)\<rparr>\<rparr> else cfg);
          nxt = (if given passphrase then nxt\<lparr>cfg_security := (cfg_security nxt)\<lparr>cs_passphrase :=
                   snprintf_buf (cs_passphrase (cfg_security nxt)) (the passphrase)\<rparr>\<rparr> else nxt);
          changed = (given name \<or> given passphrase)
      in if \<not> changed \<or> configValidate nxt \<noteq> None then (cfg, False) else (nxt, True))"

end
