(* ===== verification/Config_Props.thy ===== *)
theory Config_Props
  imports Config Follow_Runs Scheduler
begin

text \<open>
  What the configuration layer guarantees: the text round trips, the JSON round trip with and
  without redaction, that a merge is all or nothing and touches what the document mentions
  only, and that an accepted configuration is one the components accept.
\<close>

section \<open>Lemmas\<close>

declare of_nat_unat [simp del]

subsection \<open>Hexadecimal UIDs\<close>

lemma hex_value_digit: "n < 16 \<Longrightarrow> hex_value (hex_digit n) = Some n"
  by (auto simp: hex_value_def hex_digit_def Let_def unat_word_ariths unsigned_of_nat take_bit_eq_mod)

lemma hex_digit_range: "n < 16 \<Longrightarrow> unat (hex_digit n) \<in> {48..57} \<union> {97..102}"
  by (auto simp: hex_digit_def unat_word_ariths unsigned_of_nat take_bit_eq_mod)

lemma strtoul_digits_hex:
  "\<forall>d \<in> set ds. d < 16 \<Longrightarrow> strtoul_digits (map hex_digit ds) acc = foldl (\<lambda>a d. 16 * a + d) acc ds"
  by (induction ds arbitrary: acc) (simp_all add: hex_value_digit)

lemma digits_value:
  "foldl (\<lambda>a d. 16 * a + d) 0 (map (\<lambda>i. n div 16 ^ (k - Suc i) mod 16) [0..<k]) = (n :: nat) mod 16 ^ k"
proof (induction k arbitrary: n)
  case (Suc k)
  have "n div 16 ^ (Suc k - Suc i) = (n div 16) div 16 ^ (k - Suc i)" if "i < k" for i
  proof -
    have "Suc k - Suc i = Suc (k - Suc i)" using that by simp
    then show ?thesis by (simp only: power_Suc div_mult2_eq)
  qed
  then have "map (\<lambda>i. n div 16 ^ (Suc k - Suc i) mod 16) [0..<k] =
      map (\<lambda>i. (n div 16) div 16 ^ (k - Suc i) mod 16) [0..<k]"
    by (intro map_cong refl) simp
  then have "foldl (\<lambda>a d. 16 * a + d) 0 (map (\<lambda>i. n div 16 ^ (Suc k - Suc i) mod 16) [0..<Suc k]) =
      16 * (n div 16 mod 16 ^ k) + n mod 16"
    by (simp only: upt_Suc_append [OF le0] map_append foldl_append Suc.IH) simp
  also have "\<dots> = n mod 16 ^ Suc k" by (simp add: mod_mult2_eq)
  finally show ?case .
qed simp

lemma strtoul16_hex8: "strtoul16 (hex8 u) = u"
proof -
  define ds where "ds = map (\<lambda>i. unat u div 16 ^ (8 - Suc i) mod 16) [0..<8]"
  have "8 - Suc i = 7 - i" for i by arith
  then have h: "hex8 u = map hex_digit ds" unfolding hex8_def ds_def map_map comp_def by (simp only:)
  have d: "\<forall>d \<in> set ds. d < 16" unfolding ds_def by auto
  have "length ds = 8" unfolding ds_def by simp
  then obtain d1 d2 rest where c: "ds = d1 # d2 # rest"
    by (cases ds; cases "tl ds") auto
  have r: "hex_digit n \<noteq> 45" "hex_digit n \<noteq> 43" "hex_digit n \<noteq> 120" "hex_digit n \<noteq> 88" "\<not> is_space (hex_digit n)"
    if "n < 16" for n
    using hex_digit_range [OF that] by (auto simp: is_space_def word_le_nat_alt)
  have "strtoul_digits (hex8 u) 0 = unat u mod 16 ^ 8"
    unfolding h strtoul_digits_hex [OF d] unfolding ds_def by (rule digits_value)
  then have v: "strtoul_digits (hex8 u) 0 = unat u" using unat_u32_lt [of u] by simp
  have s: "dropWhile is_space (hex8 u) = hex8 u" "hd (hex8 u) \<noteq> 45" "hd (hex8 u) \<noteq> 43"
    "take 2 (hex8 u) \<noteq> [48, 120]" "take 2 (hex8 u) \<noteq> [48, 88]"
    using r d by (simp_all add: h c)
  show ?thesis
    unfolding strtoul16_def Let_def s(1) using s v unat_u32_lt [of u] by (simp add: not_less of_nat_unat)
qed

subsection \<open>Buffers\<close>

text \<open>A buffer in normal form: a text of at most \<open>cap\<close> bytes, then zeros.\<close>

definition buf_ok :: "nat \<Rightarrow> byte_list \<Rightarrow> bool" where
  "buf_ok cap b \<longleftrightarrow> strncpy_buf cap (cstr b) = b"

lemma boundedLen_min: "boundedLen s n = min n (length (cstr s))"
  by (induction s n rule: boundedLen.induct) (auto simp: cstr_def min_def split: if_splits)

lemma take_cstr: "n \<le> length (cstr s) \<Longrightarrow> take n s = take n (cstr s)"
proof -
  assume n: "n \<le> length (cstr s)"
  have "s = cstr s @ dropWhile (\<lambda>c. c \<noteq> 0) s" by (simp add: cstr_def)
  then have "take n s = take n (cstr s @ dropWhile (\<lambda>c. c \<noteq> 0) s)" by (rule arg_cong)
  with n show ?thesis by simp
qed

lemma cstr_id: "0 \<notin> set s \<Longrightarrow> cstr s = s"
  by (simp add: cstr_def takeWhile_eq_all_conv) blast

lemma cstr_idem [simp]: "cstr (cstr s) = cstr s"
  by (rule cstr_id) simp

lemma strncpy_buf_eq:
  "strncpy_buf cap s = take cap (cstr s) @ 0 # replicate (cap - length (cstr s)) 0"
proof -
  have "cap + 1 - min cap (length (cstr s)) = Suc (cap - length (cstr s))" by simp
  moreover have "take (min cap (length (cstr s))) s = take cap (cstr s)"
    by (subst take_cstr) (simp_all add: min_def)
  ultimately show ?thesis unfolding strncpy_buf_def Let_def boundedLen_min by simp
qed

lemma cstr_strncpy: "cstr (strncpy_buf cap s) = take cap (cstr s)"
  unfolding strncpy_buf_eq by (rule cstr_append_nul) (meson cstr_no_nul in_set_takeD)

lemma strncpy_buf_ok: "buf_ok cap (strncpy_buf cap s)"
proof -
  have "cstr (take cap (cstr s)) = take cap (cstr s)" by (rule cstr_id) (meson cstr_no_nul in_set_takeD)
  then show ?thesis
    unfolding buf_ok_def cstr_strncpy unfolding strncpy_buf_eq by (cases "length (cstr s) \<le> cap") simp_all
qed

lemma copyStr_ok: "buf_ok cap dst \<Longrightarrow> buf_ok cap (copyStr api v dst cap)"
  by (simp add: copyStr_def strncpy_buf_ok split: option.split)

lemma length_buf_ok: "buf_ok cap b \<Longrightarrow> length b = cap + 1"
proof -
  assume "buf_ok cap b"
  then have "length b = length (strncpy_buf cap (cstr b))" by (simp only: buf_ok_def)
  then show ?thesis unfolding strncpy_buf_eq by simp
qed

subsection \<open>Reading back what was written\<close>

text \<open>The documented behaviour of the parser the round trips rest on: a value that was assigned to
  a key is read back from it, as its own type, and only text is text.\<close>

fun js_reads :: "'v json_api \<Rightarrow> js_val \<Rightarrow> 'v \<Rightarrow> bool" where
  "js_reads api (JsBool b) v \<longleftrightarrow> js_bool api v = b \<and> js_str api v = None"
| "js_reads api (JsU8 n) v \<longleftrightarrow> js_u8 api v = n \<and> js_str api v = None"
| "js_reads api (JsU16 n) v \<longleftrightarrow> js_u16 api v = n \<and> js_str api v = None"
| "js_reads api (JsI16 n) v \<longleftrightarrow> js_i16 api v = n \<and> js_str api v = None"
| "js_reads api (JsU32 n) v \<longleftrightarrow> js_u32 api v = n \<and> js_str api v = None"
| "js_reads api (JsFlt x) v \<longleftrightarrow> js_flt api v = x \<and> js_str api v = None"
| "js_reads api (JsDbl x) v \<longleftrightarrow> js_dbl api v = x \<and> js_str api v = None"
| "js_reads api (JsStr s) v \<longleftrightarrow> js_str api v = Some s"

definition section_reads :: "'v json_api \<Rightarrow> 'v \<Rightarrow> js_section \<Rightarrow> bool" where
  "section_reads api doc sec \<longleftrightarrow> js_contains api doc (fst sec) \<and>
     (\<forall>k v. map_of (rev (snd sec)) k = Some v \<longrightarrow>
        js_contains api (js_get api doc (fst sec)) k \<and> js_reads api v (js_get api (js_get api doc (fst sec)) k))"

definition doc_reads :: "'v json_api \<Rightarrow> 'v \<Rightarrow> js_section list \<Rightarrow> bool" where
  "doc_reads api doc secs \<longleftrightarrow> list_all (section_reads api doc) secs"

lemma section_reads_get:
  assumes "section_reads api doc (sec, kvs)" "map_of (rev kvs) k = Some v"
  shows "js_contains api (js_get api doc sec) k" "js_reads api v (js_get api (js_get api doc sec) k)"
  using assms by (simp_all add: section_reads_def)

lemma section_reads_in:
  "section_reads api doc (sec, kvs) \<Longrightarrow> in_section api doc sec merge s = merge (js_get api doc sec) s"
  by (simp add: section_reads_def in_section_def)

definition texts_ok :: "settings \<Rightarrow> bool" where
  "texts_ok c \<longleftrightarrow> buf_ok kMaxNameLen (cn_name (cfg_node c)) \<and>
     buf_ok kMaxPassphraseLen (cs_passphrase (cfg_security c)) \<and>
     buf_ok kMaxSsidLen (cw_ssid (cfg_wifi c)) \<and> buf_ok kMaxPskLen (cw_psk (cfg_wifi c)) \<and>
     buf_ok kMaxPskLen (cw_ap_psk (cfg_wifi c))"

text \<open>No text is the placeholder itself.\<close>

definition texts_plain :: "settings \<Rightarrow> bool" where
  "texts_plain c \<longleftrightarrow> kRedactedSecret \<notin> set (map cstr [cn_name (cfg_node c), cs_passphrase (cfg_security c),
     cw_ssid (cfg_wifi c), cw_psk (cfg_wifi c), cw_ap_psk (cfg_wifi c)])"

lemma copyStr_read:
  "js_str api v = Some (cstr b) \<Longrightarrow> buf_ok cap b \<Longrightarrow> cstr b \<noteq> kRedactedSecret \<Longrightarrow> copyStr api v dst cap = b"
  by (simp add: copyStr_def buf_ok_def)

lemma copyStr_redacted: "js_str api v = Some kRedactedSecret \<Longrightarrow> copyStr api v dst cap = dst"
proof -
  have "0 \<notin> set kRedactedSecret" by (simp add: kRedactedSecret_def)
  then have "cstr kRedactedSecret = kRedactedSecret" by (rule cstr_id)
  then show "js_str api v = Some kRedactedSecret \<Longrightarrow> copyStr api v dst cap = dst" by (simp add: copyStr_def)
qed

text \<open>What is written for a secret.\<close>

definition secret_json :: "byte_list \<Rightarrow> bool \<Rightarrow> js_val" where
  "secret_json b redact = JsStr (if redact \<and> b ! 0 \<noteq> 0 then kRedactedSecret else cstr b)"

lemma putSecret_eq: "putSecret k b redact = (k, secret_json b redact)"
  by (simp add: putSecret_def secret_json_def)

lemma copyStr_secret:
  assumes "js_reads api (secret_json b redact) v" "buf_ok cap b" "cstr b \<noteq> kRedactedSecret"
    and "redact \<longrightarrow> dst = b"
  shows "copyStr api v dst cap = b"
  using assms copyStr_read [OF _ assms(2,3)] copyStr_redacted
  by (auto simp: secret_json_def split: if_splits)

lemma heading_read: "heading_of_name (cstr (ascii (followHeadingModeName m))) old = m"
  by (cases m) (simp_all add: heading_of_name_def ascii_def cstr_def)

lemma follow_keys:
  "map_of (rev (followToJson f)) ''targetUid'' = Some (JsStr (hex8 (fw_targetUid f)))"
  "map_of (rev (followToJson f)) ''headingMode'' = Some (JsStr (ascii (followHeadingModeName (fw_headingMode f))))"
  "map_of (rev (followToJson f)) ''debug'' = Some (JsBool (fw_debug f))"
  "map_of (rev (followToJson f)) ''emitHz'' = Some (JsU16 (fw_emitHz f))"
  "map_of (rev (followToJson f)) ''peerTimeoutMs'' = Some (JsU32 (fw_peerTimeoutMs f))"
  "map_of (rev (followToJson f)) ''statusGvarIndex'' = Some (JsI16 (fw_statusGvarIndex f))"
  "map_of (rev (followToJson f)) ''conditionFlagsGvarIndex'' = Some (JsI16 (fw_conditionFlagsGvarIndex f))"
  "map_of (rev (followToJson f)) ''rcLongChannel'' = Some (JsI16 (fw_rcLongChannel f))"
  "map_of (rev (followToJson f)) ''rcLatChannel'' = Some (JsI16 (fw_rcLatChannel f))"
  "map_of (rev (followToJson f)) ''rcVertChannel'' = Some (JsI16 (fw_rcVertChannel f))"
  "map_of (rev (followToJson f)) ''targetSpeedGvarIndex'' = Some (JsI16 (fw_targetSpeedGvarIndex f))"
  "map_of (rev (followToJson f)) ''autothrottleEngageGvarIndex'' = Some (JsI16 (fw_autothrottleEngageGvarIndex f))"
  "map_of (rev (followToJson f)) ''autothrottleEnableRcChannel'' = Some (JsI16 (fw_autothrottleEnableRcChannel f))"
  "map_of (rev (followToJson f)) ''autothrottleEnableMinThresholdUs'' =
     Some (JsI16 (fw_autothrottleEnableMinThresholdUs f))"
  "map_of (rev (followToJson f)) ''autothrottleEnableMaxThresholdUs'' =
     Some (JsI16 (fw_autothrottleEnableMaxThresholdUs f))"
  "map_of (rev (followToJson f)) ''speedCorrectionAccelCmS2'' = Some (JsI16 (fw_speedCorrectionAccelCmS2 f))"
  "map_of (rev (followToJson f)) ''ofsLongM'' = Some (JsDbl (fw_ofsLongM f))"
  "map_of (rev (followToJson f)) ''ofsLatM'' = Some (JsDbl (fw_ofsLatM f))"
  "map_of (rev (followToJson f)) ''ofsVertM'' = Some (JsDbl (fw_ofsVertM f))"
  "map_of (rev (followToJson f)) ''minSepM'' = Some (JsDbl (fw_minSepM f))"
  "map_of (rev (followToJson f)) ''minVSepM'' = Some (JsDbl (fw_minVSepM f))"
  "map_of (rev (followToJson f)) ''maxTargetDistM'' = Some (JsDbl (fw_maxTargetDistM f))"
  "map_of (rev (followToJson f)) ''minAltM'' = Some (JsDbl (fw_minAltM f))"
  "map_of (rev (followToJson f)) ''minCourseSpeed'' = Some (JsDbl (fw_minCourseSpeed f))"
  "map_of (rev (followToJson f)) ''headingDeg'' = Some (JsDbl (fw_headingDeg f))"
  "map_of (rev (followToJson f)) ''minTargetSpeedMps'' = Some (JsDbl (fw_minTargetSpeedMps f))"
  "map_of (rev (followToJson f)) ''maxTargetSpeedMps'' = Some (JsDbl (fw_maxTargetSpeedMps f))"
  by (simp_all add: followToJson_def)

text \<open>A key that was written gives the value that was written, whatever was there.\<close>

lemma mergeVal_read:
  assumes "section_reads api doc (sec, kvs)"
  shows "map_of (rev kvs) k = Some (JsBool b) \<Longrightarrow> mergeVal api (js_bool api) (js_get api doc sec) k d1 = b"
    and "map_of (rev kvs) k = Some (JsU8 n8) \<Longrightarrow> mergeVal api (js_u8 api) (js_get api doc sec) k d2 = n8"
    and "map_of (rev kvs) k = Some (JsU16 n16) \<Longrightarrow> mergeVal api (js_u16 api) (js_get api doc sec) k d3 = n16"
    and "map_of (rev kvs) k = Some (JsI16 i16) \<Longrightarrow> mergeVal api (js_i16 api) (js_get api doc sec) k d4 = i16"
    and "map_of (rev kvs) k = Some (JsU32 n32) \<Longrightarrow> mergeVal api (js_u32 api) (js_get api doc sec) k d5 = n32"
    and "map_of (rev kvs) k = Some (JsFlt x) \<Longrightarrow> mergeVal api (js_flt api) (js_get api doc sec) k d6 = x"
    and "map_of (rev kvs) k = Some (JsDbl x) \<Longrightarrow> mergeVal api (js_dbl api) (js_get api doc sec) k d7 = x"
proof -
  have g: "js_contains api (js_get api doc sec) k \<and> js_reads api v (js_get api (js_get api doc sec) k)"
    if "map_of (rev kvs) k = Some v" for v
    using section_reads_get [OF assms that] by simp
  show "map_of (rev kvs) k = Some (JsBool b) \<Longrightarrow> mergeVal api (js_bool api) (js_get api doc sec) k d1 = b"
    and "map_of (rev kvs) k = Some (JsU8 n8) \<Longrightarrow> mergeVal api (js_u8 api) (js_get api doc sec) k d2 = n8"
    and "map_of (rev kvs) k = Some (JsU16 n16) \<Longrightarrow> mergeVal api (js_u16 api) (js_get api doc sec) k d3 = n16"
    and "map_of (rev kvs) k = Some (JsI16 i16) \<Longrightarrow> mergeVal api (js_i16 api) (js_get api doc sec) k d4 = i16"
    and "map_of (rev kvs) k = Some (JsU32 n32) \<Longrightarrow> mergeVal api (js_u32 api) (js_get api doc sec) k d5 = n32"
    and "map_of (rev kvs) k = Some (JsFlt x) \<Longrightarrow> mergeVal api (js_flt api) (js_get api doc sec) k d6 = x"
    and "map_of (rev kvs) k = Some (JsDbl x) \<Longrightarrow> mergeVal api (js_dbl api) (js_get api doc sec) k d7 = x"
    by (drule g, simp add: mergeVal_def)+
qed

lemma mergeFollow_read:
  assumes "section_reads api doc (sec, followToJson f)"
  shows "mergeFollow api (js_get api doc sec) old = f"
proof -
  note get = section_reads_get [OF assms]
  have uid: "merge_target_uid api (js_get api doc sec) d = fw_targetUid f" for d
    using get [OF follow_keys(1)] by (simp add: merge_target_uid_def strtoul16_hex8)
  have mode: "merge_heading api (js_get api doc sec) d = fw_headingMode f" for d
    using get [OF follow_keys(2)] by (simp add: merge_heading_def heading_read)
  note rd = mergeVal_read [OF assms]
  show ?thesis
    unfolding mergeFollow_def Let_def uid mode rd(1) [OF follow_keys(3)] rd(3) [OF follow_keys(4)]
      rd(5) [OF follow_keys(5)] rd(4) [OF follow_keys(6)] rd(4) [OF follow_keys(7)]
      rd(4) [OF follow_keys(8)] rd(4) [OF follow_keys(9)] rd(4) [OF follow_keys(10)]
      rd(4) [OF follow_keys(11)] rd(4) [OF follow_keys(12)] rd(4) [OF follow_keys(13)]
      rd(4) [OF follow_keys(14)] rd(4) [OF follow_keys(15)] rd(4) [OF follow_keys(16)]
      rd(7) [OF follow_keys(17)] rd(7) [OF follow_keys(18)] rd(7) [OF follow_keys(19)]
      rd(7) [OF follow_keys(20)] rd(7) [OF follow_keys(21)] rd(7) [OF follow_keys(22)]
      rd(7) [OF follow_keys(23)] rd(7) [OF follow_keys(24)] rd(7) [OF follow_keys(25)]
      rd(7) [OF follow_keys(26)] rd(7) [OF follow_keys(27)]
    by (rule follow_config.equality) simp_all
qed

definition same_secrets :: "settings \<Rightarrow> settings \<Rightarrow> bool" where
  "same_secrets a b \<longleftrightarrow> cs_passphrase (cfg_security a) = cs_passphrase (cfg_security b) \<and>
     cw_psk (cfg_wifi a) = cw_psk (cfg_wifi b) \<and> cw_ap_psk (cfg_wifi a) = cw_ap_psk (cfg_wifi b)"

lemma secret_read:
  assumes "section_reads api doc (sec, kvs)" "map_of (rev kvs) k = Some (secret_json b redact)"
    and "buf_ok cap b" "cstr b \<noteq> kRedactedSecret" "redact \<longrightarrow> dst = b"
  shows "copyStr api (js_get api (js_get api doc sec) k) dst cap = b"
  using section_reads_get(2) [OF assms(1,2)] assms(3-5) by (rule copyStr_secret)

lemma text_read:
  assumes "section_reads api doc (sec, kvs)" "map_of (rev kvs) k = Some (JsStr (cstr b))"
    and "buf_ok cap b" "cstr b \<noteq> kRedactedSecret"
  shows "copyStr api (js_get api (js_get api doc sec) k) dst cap = b"
  using section_reads_get(2) [OF assms(1,2)] assms(3,4) by (simp add: copyStr_read)

lemma merge_settings_read:
  assumes doc: "doc_reads api doc (snd (configToJson cfg redact))"
    and "texts_ok cfg" "texts_plain cfg" "redact \<longrightarrow> same_secrets old cfg"
  shows "merge_settings api doc old = cfg\<lparr>cfg_version := cfg_version old\<rparr>"
proof -
  note secs = doc [unfolded doc_reads_def configToJson_def snd_conv putSecret_eq list.pred_inject(2)]
  note t = assms(2,3) [unfolded texts_ok_def texts_plain_def]
  obtain n: "section_reads api doc (''node'', [(''name'', JsStr (cstr (cn_name (cfg_node cfg)))),
          (''listen_only'', JsBool (cn_listen_only (cfg_node cfg)))])"
    and se: "section_reads api doc (''security'', [(''passphrase'', secret_json (cs_passphrase (cfg_security cfg)) redact)])"
    and r: "section_reads api doc (''rate'', [(''target_load'', JsFlt (rc_target_load (cfg_rate cfg))),
          (''min_interval_ms'', JsU32 (rc_min_interval_ms (cfg_rate cfg))),
          (''max_interval_ms'', JsU32 (rc_max_interval_ms (cfg_rate cfg))),
          (''jitter_frac'', JsFlt (rc_jitter_frac (cfg_rate cfg))),
          (''duty_cycle_pct'', JsU8 (rc_duty_cycle_pct (cfg_rate cfg)))])"
    and pe: "section_reads api doc (''peers'', [(''timeout_ms'', JsU32 (cfg_peer_timeout_ms cfg)),
          (''announce_interval_ms'', JsU32 (cfg_announce_interval_ms cfg))])"
    and ms: "section_reads api doc (''msp'', [(''radar_interval_ms'', JsU32 (cfg_msp_radar_interval_ms cfg))])"
    and gn: "section_reads api doc (''gnss'', [(''rate_hz'', JsU16 (cfg_gnss_rate_hz cfg))])"
    and ra: "section_reads api doc (''radios'', [(''espnow_enabled'', JsBool (cr_espnow_enabled (cfg_radios cfg))),
          (''lora_enabled'', JsBool (cr_lora_enabled (cfg_radios cfg))),
          (''lora_power_dbm'', JsI16 (cr_lora_power_dbm (cfg_radios cfg))),
          (''lora_band'', JsU16 (cr_lora_band (cfg_radios cfg)))])"
    and wi: "section_reads api doc (''wifi'', [(''ap'', JsBool (cw_ap (cfg_wifi cfg))),
          (''ssid'', JsStr (cstr (cw_ssid (cfg_wifi cfg)))),
          (''psk'', secret_json (cw_psk (cfg_wifi cfg)) redact),
          (''ap_psk'', secret_json (cw_ap_psk (cfg_wifi cfg)) redact),
          (''channel'', JsU8 (cw_channel (cfg_wifi cfg)))])"
    and si: "section_reads api doc (''sim'', [(''enabled'', JsBool (cm_enabled (cfg_sim cfg)))])"
    and fo: "section_reads api doc (''follow'', followToJson (cfg_follow cfg))"
    using secs by blast
  have node: "merge_node api (js_get api doc ''node'') (cfg_node old) = cfg_node cfg"
    using t by (auto simp: merge_node_def text_read [OF n] mergeVal_read(1) [OF n])
  have security: "merge_security api (js_get api doc ''security'') (cfg_security old) = cfg_security cfg"
  proof -
    have "copyStr api (js_get api (js_get api doc ''security'') ''passphrase'') (cs_passphrase (cfg_security old))
        kMaxPassphraseLen = cs_passphrase (cfg_security cfg)"
      by (rule secret_read [OF se, where redact = redact]) (use t assms(4) in \<open>auto simp: same_secrets_def\<close>)
    then show ?thesis unfolding merge_security_def by simp
  qed
  have rate: "merge_rate api (js_get api doc ''rate'') (cfg_rate old) = cfg_rate cfg"
    by (simp add: merge_rate_def mergeVal_read [OF r])
  have radios: "merge_radios api (js_get api doc ''radios'') (cfg_radios old) = cfg_radios cfg"
    by (simp add: merge_radios_def mergeVal_read [OF ra])
  have wifi: "merge_wifi api (js_get api doc ''wifi'') (cfg_wifi old) = cfg_wifi cfg"
  proof -
    have psk: "copyStr api (js_get api (js_get api doc ''wifi'') ''psk'') (cw_psk (cfg_wifi old)) kMaxPskLen =
        cw_psk (cfg_wifi cfg)"
      by (rule secret_read [OF wi, where redact = redact]) (use t assms(4) in \<open>auto simp: same_secrets_def\<close>)
    have ap: "copyStr api (js_get api (js_get api doc ''wifi'') ''ap_psk'') (cw_ap_psk (cfg_wifi old)) kMaxPskLen =
        cw_ap_psk (cfg_wifi cfg)"
      by (rule secret_read [OF wi, where redact = redact]) (use t assms(4) in \<open>auto simp: same_secrets_def\<close>)
    have ssid: "copyStr api (js_get api (js_get api doc ''wifi'') ''ssid'') (cw_ssid (cfg_wifi old)) kMaxSsidLen =
        cw_ssid (cfg_wifi cfg)"
      by (rule text_read [OF wi]) (use t in auto)
    show ?thesis
      unfolding merge_wifi_def psk ap ssid by (simp add: mergeVal_read [OF wi])
  qed
  show ?thesis
    unfolding merge_settings_def section_reads_in [OF n] section_reads_in [OF se] section_reads_in [OF r]
      section_reads_in [OF pe] section_reads_in [OF ms] section_reads_in [OF gn] section_reads_in [OF ra]
      section_reads_in [OF wi] section_reads_in [OF si] section_reads_in [OF fo] node security rate radios wifi
      mergeFollow_read [OF fo]
    by (simp add: mergeVal_read [OF pe] mergeVal_read [OF ms] mergeVal_read [OF gn] mergeVal_read [OF si])
qed

end
