(* ===== verification/Config_Store.thy ===== *)
theory Config_Store
  imports Config
begin

text \<open>
  src/hal/ConfigStore.h and ConfigStore.cpp: the configuration file, what \<open>setup\<close> in src/main.cpp
  does with it at boot, and the two handlers of src/hal/WebServer.cpp that change the settings.
  LittleFS and the JSON parser are third-party code: the calls on them are a parameter, the record
  \<open>fs_api\<close>, over an arbitrary type of file system states. A save is the list of the states the
  file system goes through, since a power cut can stop it at each of them.
\<close>

record ('fs, 'v, 'd) fs_api =
  fs_begin :: "'fs \<Rightarrow> bool \<times> 'fs"
  fs_begin_formatting :: "'fs \<Rightarrow> bool \<times> 'fs"
  fs_format :: "'fs \<Rightarrow> 'fs"
  fs_open_r :: "'fs \<Rightarrow> string \<Rightarrow> ('d \<times> bool \<times> nat) option"
  fs_open_w :: "'fs \<Rightarrow> string \<Rightarrow> bool \<times> 'fs"
  fs_serialize :: "'fs \<Rightarrow> string \<Rightarrow> u16 \<times> js_section list \<Rightarrow> nat \<times> 'fs"
  fs_remove :: "'fs \<Rightarrow> string \<Rightarrow> bool \<times> 'fs"
  fs_rename :: "'fs \<Rightarrow> string \<Rightarrow> string \<Rightarrow> bool \<times> 'fs"
  js_parse :: "'d \<Rightarrow> 'v option"
  js_overflowed :: "u16 \<times> js_section list \<Rightarrow> bool"

text \<open>\<open>fs_open_r\<close> gives the contents, whether it is a directory, and the size.\<close>

record config_store =
  cst_mounted :: bool
  cst_corrupt :: bool
  cst_fresh :: bool

definition ConfigStore :: config_store where
  "ConfigStore = \<lparr>cst_mounted = False, cst_corrupt = False, cst_fresh = False\<rparr>"

definition kConfigPath :: string where "kConfigPath = ''/config.json''"
definition kTempPath :: string where "kTempPath = ''/config.new''"

definition store_begin ::
  "bool \<Rightarrow> ('fs, 'v, 'd) fs_api \<Rightarrow> config_store \<Rightarrow> 'fs \<Rightarrow> config_store \<times> 'fs" where
  "store_begin esp8266 fa st fs =
     (let (ok, fs) = fs_begin fa fs;
          (ok, fs) = (if ok then (ok, fs) else fs_begin fa fs);
          (ok, fs) = (if ok then (ok, fs)
                      else if esp8266 then fs_begin fa (fs_format fa fs)
                      else fs_begin_formatting fa fs)
      in (st\<lparr>cst_mounted := ok\<rparr>, fs))"

definition store_save ::
  "('fs, 'v, 'd) fs_api \<Rightarrow> config_store \<Rightarrow> settings \<Rightarrow> 'fs \<Rightarrow> 'fs list \<times> string option" where
  "store_save fa st cfg fs =
     (if \<not> cst_mounted st then ([fs], Some ''filesystem not mounted'')
      else
        let json = configToJson cfg False
        in if js_overflowed fa json then ([fs], Some ''config too large to serialize'')
           else
             let (opened, fs1) = fs_open_w fa fs kTempPath
             in if \<not> opened then ([fs, fs1], Some ''could not open config for writing'')
                else
                  let (written, fs2) = fs_serialize fa fs1 kTempPath json
                  in if written = 0
                     then ([fs, fs1, fs2, snd (fs_remove fa fs2 kTempPath)], Some ''config write failed'')
                     else
                       let fs3 = snd (fs_remove fa fs2 kConfigPath);
                           (renamed, fs4) = fs_rename fa fs3 kTempPath kConfigPath
                       in ([fs, fs1, fs2, fs3, fs4],
                           if renamed then None else Some ''could not commit config''))"

text \<open>The file system and the settings after a load, and whether a stored file was applied.\<close>

definition store_load ::
  "'v json_api \<Rightarrow> ('fs, 'v, 'd) fs_api \<Rightarrow> config_store \<Rightarrow> settings \<Rightarrow> 'fs \<Rightarrow>
   config_store \<times> settings \<times> 'fs list \<times> bool" where
  "store_load api fa st cfg fs =
     (let st = st\<lparr>cst_corrupt := False, cst_fresh := False\<rparr>
      in if \<not> cst_mounted st then (st, cfg, [fs], False)
         else
           case fs_open_r fa fs kConfigPath of
             Some (d, False, Suc n) \<Rightarrow>
               (case js_parse fa d of
                  None \<Rightarrow> (st\<lparr>cst_corrupt := True\<rparr>, cfg, [fs], False)
                | Some doc \<Rightarrow>
                    (case configMergeJson api doc cfg of
                       (_, Some err) \<Rightarrow> (st\<lparr>cst_corrupt := True\<rparr>, cfg, [fs], False)
                     | (cfg, None) \<Rightarrow> (st, cfg, [fs], True)))
           | _ \<Rightarrow> (st\<lparr>cst_fresh := True\<rparr>, cfg, fst (store_save fa st cfg fs), False))"

definition store_erase ::
  "('fs, 'v, 'd) fs_api \<Rightarrow> config_store \<Rightarrow> 'fs \<Rightarrow> bool \<times> 'fs" where
  "store_erase fa st fs = (if \<not> cst_mounted st then (False, fs) else fs_remove fa fs kConfigPath)"

text \<open>The configuration part of \<open>setup\<close>: mount, load over the compiled defaults, and on a first
  boot take what the installer flashed.\<close>

definition boot_config ::
  "'v json_api \<Rightarrow> bool \<Rightarrow> ('fs, 'v, 'd) fs_api \<Rightarrow> byte_list option \<Rightarrow> byte_list option \<Rightarrow> 'fs \<Rightarrow>
   config_store \<times> settings \<times> 'fs" where
  "boot_config api esp8266 fa flashed_name flashed_passphrase fs =
     (let (st, fs) = store_begin esp8266 fa ConfigStore fs;
          (st, cfg, trace, _) = store_load api fa st Settings fs;
          (cfg, seeded) = (if cst_fresh st then configSeedFlashed cfg flashed_name flashed_passphrase
                           else (cfg, False))
      in (st, cfg, if seeded then last (fst (store_save fa st cfg (last trace))) else last trace))"

text \<open>A web request that changes the settings: a partial document, or the factory reset.\<close>

datatype 'v config_request = PostConfig 'v | ResetConfig

fun handle_config ::
  "'v json_api \<Rightarrow> ('fs, 'v, 'd) fs_api \<Rightarrow> config_store \<Rightarrow> 'v config_request \<Rightarrow>
   settings \<times> 'fs \<Rightarrow> settings \<times> 'fs" where
  "handle_config api fa st (PostConfig doc) (cfg, fs) = (fst (configMergeJson api doc cfg), fs)"
| "handle_config api fa st ResetConfig (cfg, fs) = (Settings, last (fst (store_save fa st Settings fs)))"

end
