(* ===== verification/Config_Runs.thy ===== *)
theory Config_Runs
  imports Config_Props Config_Store
begin

text \<open>
  The properties of the configuration: the JSON round trip with and without redaction, what a
  merge leaves alone, that the settings in force are always accepted ones, and what a power cut
  or a short write does to the stored file.
\<close>

section \<open>Settings in force\<close>

text \<open>A text buffer of capacity \<open>cap\<close>: its array length, and a NUL in the last byte.\<close>

definition text_buf :: "nat \<Rightarrow> byte_list \<Rightarrow> bool" where
  "text_buf cap b \<longleftrightarrow> length b = cap + 1 \<and> b ! cap = 0"

definition settings_ok :: "settings \<Rightarrow> bool" where
  "settings_ok c \<longleftrightarrow> configValidate c = None \<and> text_buf kMaxNameLen (cn_name (cfg_node c)) \<and>
     text_buf kMaxPassphraseLen (cs_passphrase (cfg_security c)) \<and>
     text_buf kMaxSsidLen (cw_ssid (cfg_wifi c)) \<and> text_buf kMaxPskLen (cw_psk (cfg_wifi c)) \<and>
     text_buf kMaxPskLen (cw_ap_psk (cfg_wifi c))"

lemma text_buf_strncpy: "text_buf cap (strncpy_buf cap s)"
  unfolding text_buf_def strncpy_buf_eq
  by (cases "cap \<le> length (cstr s)") (simp_all add: nth_append nth_Cons' min_def)

lemma text_buf_copyStr: "text_buf cap dst \<Longrightarrow> text_buf cap (copyStr api v dst cap)"
  by (simp add: copyStr_def text_buf_strncpy split: option.split)

lemma text_buf_snprintf: "text_buf cap dst \<Longrightarrow> text_buf cap (snprintf_buf dst s)"
  by (auto simp: text_buf_def snprintf_buf_def Let_def nth_append nth_Cons' min_def)

lemma text_buf_zero [simp]: "text_buf cap (replicate (Suc cap) 0)"
  by (simp add: text_buf_def del: replicate_Suc)

lemma merge_settings_bufs:
  assumes "settings_ok c" "configValidate (merge_settings api doc c) = None"
  shows "settings_ok (merge_settings api doc c)"
  using assms unfolding settings_ok_def
  by (simp add: merge_settings_def in_section_def merge_node_def merge_security_def merge_wifi_def text_buf_copyStr)

lemma merge_ok: "settings_ok c \<Longrightarrow> settings_ok (fst (configMergeJson api doc c))"
  by (simp add: configMergeJson_def Let_def merge_settings_bufs split: option.split)

lemma seed_ok: "settings_ok c \<Longrightarrow> settings_ok (fst (configSeedFlashed c name pass))"
  unfolding configSeedFlashed_def Let_def
  by (auto simp: settings_ok_def text_buf_snprintf)

lemma Settings_valid: "configValidate Settings = None"
  by code_simp

lemma Settings_ok: "settings_ok Settings"
  unfolding settings_ok_def using Settings_valid
  by (simp add: Settings_def del: replicate_Suc kMaxNameLen_def)

lemma load_cases:
  "fst (snd (store_load api fa st c fs)) = c \<or>
   (\<exists>doc. fst (snd (store_load api fa st c fs)) = fst (configMergeJson api doc c))"
  by (auto simp: store_load_def Let_def split: option.split prod.split bool.split nat.split dest: sym)
    (metis fst_conv)

lemma load_ok: "settings_ok c \<Longrightarrow> settings_ok (fst (snd (store_load api fa st c fs)))"
  using load_cases [of api fa st c fs] merge_ok by metis

lemma boot_ok: "settings_ok (fst (snd (boot_config api esp8266 fa name pass fs)))"
proof -
  obtain st1 fs1 where b: "store_begin esp8266 fa ConfigStore fs = (st1, fs1)" by fastforce
  obtain st2 c2 tr ok where l: "store_load api fa st1 Settings fs1 = (st2, c2, tr, ok)"
    by (metis prod_cases4)
  have "settings_ok c2" using load_ok [OF Settings_ok, of api fa st1 fs1] by (simp add: l)
  moreover obtain c3 seeded where "configSeedFlashed c2 name pass = (c3, seeded)" by fastforce
  ultimately show ?thesis using seed_ok [of c2 name pass] by (simp add: boot_config_def b l)
qed

lemma handle_ok: "settings_ok c \<Longrightarrow> settings_ok (fst (handle_config api fa st r (c, fs)))"
  by (cases r) (simp_all add: merge_ok Settings_ok)

lemma handle_run_ok:
  "settings_ok (fst w) \<Longrightarrow> settings_ok (fst (fold (handle_config api fa st) rs w))"
proof (induction rs arbitrary: w)
  case (Cons r rs)
  have "settings_ok (fst (handle_config api fa st r w))" using handle_ok Cons.prems by (cases w) auto
  then show ?case by (simp add: Cons.IH)
qed simp

lemma accepted_rules:
  assumes "configValidate c = None"
  shows "0 < rc_target_load (cfg_rate c)" "rc_target_load (cfg_rate c) \<le> 1"
    "rc_min_interval_ms (cfg_rate c) \<noteq> 0" "rc_min_interval_ms (cfg_rate c) \<le> rc_max_interval_ms (cfg_rate c)"
    "rc_duty_cycle_pct (cfg_rate c) \<le> 100" "followValidateConfig (cfg_follow c) = None"
  using assms [unfolded configValidate_def reject_first not_less not_le de_Morgan_disj]
  by (simp_all only: simp_thms)

text \<open>C16: The settings in force are always accepted ones: after a boot, whatever the file system
  holds and whatever the installer flashed, and after any sequence of configuration requests, the
  settings pass the validation, every text is NUL-terminated inside its buffer, the bounds of the
  beacon interval are in order, and the Follow controller takes the new block in every state it
  can be in.\<close>

theorem settings_always_accepted:
  "let (st, cfg, fs') = boot_config api esp8266 fa name passphrase fs;
       c = fst (fold (handle_config api fa st) requests (cfg, fs'))
   in configValidate c = None \<and>
      text_buf kMaxNameLen (cn_name (cfg_node c)) \<and>
      text_buf kMaxPassphraseLen (cs_passphrase (cfg_security c)) \<and>
      text_buf kMaxSsidLen (cw_ssid (cfg_wifi c)) \<and> text_buf kMaxPskLen (cw_psk (cfg_wifi c)) \<and>
      text_buf kMaxPskLen (cw_ap_psk (cfg_wifi c)) \<and>
      rc_min_interval_ms (cfg_rate c) \<le> rc_max_interval_ms (cfg_rate c) \<and>
      snd (applyConfig follow (cfg_follow c)) = None"
proof -
  obtain st cfg fs' where b: "boot_config api esp8266 fa name passphrase fs = (st, cfg, fs')"
    by (metis prod_cases3)
  define c where "c = fst (fold (handle_config api fa st) requests (cfg, fs'))"
  have "settings_ok cfg" using boot_ok [of api esp8266 fa name passphrase fs] by (simp add: b)
  then have ok: "settings_ok c" unfolding c_def by (intro handle_run_ok) simp
  then have "configValidate c = None" by (simp only: settings_ok_def)
  from accepted_rules(4,6) [OF this] ok show ?thesis
    unfolding b Let_def prod.case c_def [symmetric] settings_ok_def
    by (simp add: applyConfig_def Let_def)
qed

lemma configMergeJson_read:
  assumes "doc_reads api doc (snd (configToJson cfg redact))"
    and "texts_ok cfg" "texts_plain cfg" "redact \<longrightarrow> same_secrets old cfg" "configValidate cfg = None"
  shows "configMergeJson api doc old = (cfg\<lparr>cfg_version := cfg_version old\<rparr>, None)"
proof -
  have "configValidate (cfg\<lparr>cfg_version := v\<rparr>) = configValidate cfg" for v
    by (simp add: configValidate_def)
  then show ?thesis
    unfolding configMergeJson_def Let_def merge_settings_read [OF assms(1-4)] by (simp add: assms(5))
qed

text \<open>A merge is all or nothing, and it changes what the document mentions only: a section the
  document does not have keeps every field, and a refused document changes nothing at all.\<close>

theorem merge_touches_mentioned_only:
  "(snd (configMergeJson api doc cfg) \<noteq> None \<longrightarrow> fst (configMergeJson api doc cfg) = cfg) \<and>
   (\<not> js_contains api doc ''security'' \<longrightarrow>
      cfg_security (fst (configMergeJson api doc cfg)) = cfg_security cfg) \<and>
   (\<not> js_contains api doc ''wifi'' \<longrightarrow> cfg_wifi (fst (configMergeJson api doc cfg)) = cfg_wifi cfg) \<and>
   (\<not> js_contains api doc ''follow'' \<longrightarrow>
      cfg_follow (fst (configMergeJson api doc cfg)) = cfg_follow cfg) \<and>
   ((\<forall>k \<in> {''node'', ''security'', ''rate'', ''peers'', ''msp'', ''gnss'', ''radios'', ''wifi'',
       ''sim'', ''follow''}. \<not> js_contains api doc k) \<longrightarrow> fst (configMergeJson api doc cfg) = cfg)"
proof -
  have m: "fst (configMergeJson api doc cfg) =
      (if snd (configMergeJson api doc cfg) = None then merge_settings api doc cfg else cfg)"
    by (simp add: configMergeJson_def Let_def split: option.split)
  have "\<not> js_contains api doc ''security'' \<longrightarrow> cfg_security (merge_settings api doc cfg) = cfg_security cfg"
    "\<not> js_contains api doc ''wifi'' \<longrightarrow> cfg_wifi (merge_settings api doc cfg) = cfg_wifi cfg"
    "\<not> js_contains api doc ''follow'' \<longrightarrow> cfg_follow (merge_settings api doc cfg) = cfg_follow cfg"
    by (simp_all add: merge_settings_def in_section_def)
  moreover have "merge_settings api doc cfg = cfg"
    if "\<forall>k \<in> {''node'', ''security'', ''rate'', ''peers'', ''msp'', ''gnss'', ''radios'', ''wifi'',
       ''sim'', ''follow''}. \<not> js_contains api doc k"
    using that by (simp only: merge_settings_def in_section_def ball_simps if_False simp_thms) simp
  ultimately show ?thesis unfolding m
    by (cases "snd (configMergeJson api doc cfg) = None") (simp_all only: if_True if_False simp_thms, blast)
qed

section \<open>The stored file\<close>

text \<open>What a path holds that a load would parse.\<close>

definition stored_file :: "('fs, 'v, 'd) fs_api \<Rightarrow> 'fs \<Rightarrow> string \<Rightarrow> 'd option" where
  "stored_file fa fs p = (case fs_open_r fa fs p of Some (d, False, Suc n) \<Rightarrow> Some d | _ \<Rightarrow> None)"

text \<open>The documented behaviour of the file system and of the serializer: an operation on a path
  leaves the others alone, a removed path is gone, a rename moves the file or does nothing, and a
  document of which every byte was written parses to what was written.\<close>

definition fs_laws ::
  "'v json_api \<Rightarrow> ('fs, 'v, 'd) fs_api \<Rightarrow> (u16 \<times> js_section list \<Rightarrow> nat) \<Rightarrow> bool" where
  "fs_laws api fa size_of \<longleftrightarrow>
     (\<forall>fs p q. q \<noteq> p \<longrightarrow> stored_file fa (snd (fs_open_w fa fs p)) q = stored_file fa fs q) \<and>
     (\<forall>fs p json q. q \<noteq> p \<longrightarrow> stored_file fa (snd (fs_serialize fa fs p json)) q = stored_file fa fs q) \<and>
     (\<forall>fs p q. q \<noteq> p \<longrightarrow> stored_file fa (snd (fs_remove fa fs p)) q = stored_file fa fs q) \<and>
     (\<forall>fs p. fst (fs_remove fa fs p) \<longrightarrow> stored_file fa (snd (fs_remove fa fs p)) p = None) \<and>
     (\<forall>fs p q. fst (fs_rename fa fs p q) \<longrightarrow>
        stored_file fa (snd (fs_rename fa fs p q)) q = stored_file fa fs p) \<and>
     (\<forall>fs p json. fst (fs_serialize fa fs p json) = size_of json \<longrightarrow>
        (\<exists>d doc. stored_file fa (snd (fs_serialize fa fs p json)) p = Some d \<and>
           js_parse fa d = Some doc \<and> doc_reads api doc (snd json)))"

lemma paths_differ [simp]: "kConfigPath \<noteq> kTempPath" "kTempPath \<noteq> kConfigPath"
  by (simp_all add: kConfigPath_def kTempPath_def)

lemma load_stored:
  "store_load api fa st cfg fs =
     (let st = st\<lparr>cst_corrupt := False, cst_fresh := False\<rparr>
      in if \<not> cst_mounted st then (st, cfg, [fs], False)
         else
           case stored_file fa fs kConfigPath of
             Some d \<Rightarrow>
               (case js_parse fa d of
                  None \<Rightarrow> (st\<lparr>cst_corrupt := True\<rparr>, cfg, [fs], False)
                | Some doc \<Rightarrow>
                    (case configMergeJson api doc cfg of
                       (_, Some err) \<Rightarrow> (st\<lparr>cst_corrupt := True\<rparr>, cfg, [fs], False)
                     | (cfg, None) \<Rightarrow> (st, cfg, [fs], True)))
           | None \<Rightarrow> (st\<lparr>cst_fresh := True\<rparr>, cfg, fst (store_save fa st cfg fs), False))"
proof (cases "fs_open_r fa fs kConfigPath")
  case (Some f)
  then show ?thesis
    by (cases f; cases "fst (snd f)"; cases "snd (snd f)") (simp_all add: store_load_def stored_file_def Let_def)
qed (simp add: store_load_def stored_file_def Let_def)

lemma fs_law:
  assumes "fs_laws api fa size_of"
  shows "q \<noteq> p \<Longrightarrow> stored_file fa (snd (fs_open_w fa fs p)) q = stored_file fa fs q"
    and "q \<noteq> p \<Longrightarrow> stored_file fa (snd (fs_serialize fa fs p json)) q = stored_file fa fs q"
    and "q \<noteq> p \<Longrightarrow> stored_file fa (snd (fs_remove fa fs p)) q = stored_file fa fs q"
    and "fst (fs_remove fa fs p) \<Longrightarrow> stored_file fa (snd (fs_remove fa fs p)) p = None"
    and "fst (fs_rename fa fs p q) \<Longrightarrow> stored_file fa (snd (fs_rename fa fs p q)) q = stored_file fa fs p"
    and "fst (fs_serialize fa fs p json) = size_of json \<Longrightarrow>
      \<exists>d doc. stored_file fa (snd (fs_serialize fa fs p json)) p = Some d \<and>
        js_parse fa d = Some doc \<and> doc_reads api doc (snd json)"
  using assms unfolding fs_laws_def by blast+

subsection \<open>A concrete parser and file system\<close>

datatype json = JNull | JVal js_val | JObj "(string \<times> json) list"

fun json_of :: "(string \<times> js_val) list \<Rightarrow> json" where
  "json_of kvs = JObj (map (\<lambda>(k, v). (k, JVal v)) (rev kvs))"

definition doc_of :: "js_section list \<Rightarrow> json" where
  "doc_of secs = JObj (map (\<lambda>(s, kvs). (s, json_of kvs)) secs)"

fun json_get :: "json \<Rightarrow> string \<Rightarrow> json" where
  "json_get (JObj kvs) k = (case map_of kvs k of None \<Rightarrow> JNull | Some v \<Rightarrow> v)"
| "json_get _ k = JNull"

definition sample_api :: "json json_api" where
  "sample_api = \<lparr>js_contains = (\<lambda>v k. json_get v k \<noteq> JNull), js_get = json_get,
     js_str = (\<lambda>v. case v of JVal (JsStr s) \<Rightarrow> Some s | _ \<Rightarrow> None),
     js_bool = (\<lambda>v. case v of JVal (JsBool b) \<Rightarrow> b | _ \<Rightarrow> False),
     js_u8 = (\<lambda>v. case v of JVal (JsU8 n) \<Rightarrow> n | _ \<Rightarrow> 0),
     js_u16 = (\<lambda>v. case v of JVal (JsU16 n) \<Rightarrow> n | _ \<Rightarrow> 0),
     js_i16 = (\<lambda>v. case v of JVal (JsI16 n) \<Rightarrow> n | _ \<Rightarrow> 0),
     js_u32 = (\<lambda>v. case v of JVal (JsU32 n) \<Rightarrow> n | _ \<Rightarrow> 0),
     js_flt = (\<lambda>v. case v of JVal (JsFlt x) \<Rightarrow> x | _ \<Rightarrow> 0),
     js_dbl = (\<lambda>v. case v of JVal (JsDbl x) \<Rightarrow> x | _ \<Rightarrow> 0)\<rparr>"

lemma map_of_map_pair: "map_of (map (\<lambda>(k, v). (k, f v)) kvs) k = map_option f (map_of kvs k)"
  by (induction kvs) auto

lemma sample_reads:
  assumes "distinct (map fst secs)"
  shows "doc_reads sample_api (doc_of secs) secs"
  unfolding doc_reads_def list_all_iff
proof
  fix sec assume sec: "sec \<in> set secs"
  obtain name kvs where s: "sec = (name, kvs)" by fastforce
  have "map_of secs name = Some kvs" using assms sec by (simp add: s)
  then have g: "json_get (doc_of secs) name = json_of kvs"
    by (simp add: doc_of_def map_of_map_pair del: json_of.simps)
  have r: "js_reads sample_api v (JVal v)" for v by (cases v) (simp_all add: sample_api_def)
  have "json_get (json_of kvs) k = JVal v" if "map_of (rev kvs) k = Some v" for k v
    using that by (simp add: map_of_map_pair)
  with g r show "section_reads sample_api (doc_of secs) sec"
    by (simp add: section_reads_def s) (simp add: sample_api_def)
qed

definition sample_settings :: settings where
  "sample_settings = Settings\<lparr>
     cfg_node := \<lparr>cn_name = strncpy_buf kMaxNameLen (ascii ''Alpha''), cn_listen_only = False\<rparr>,
     cfg_security := \<lparr>cs_passphrase = strncpy_buf kMaxPassphraseLen (ascii ''squadron'')\<rparr>,
     cfg_announce_interval_ms := 3000\<rparr>"

lemma sample_settings_ok:
  "configValidate sample_settings = None" "texts_ok sample_settings" "texts_plain sample_settings"
  "distinct (map fst (snd (configToJson sample_settings r)))"
  subgoal by code_simp
  subgoal by code_simp
  subgoal by code_simp
  subgoal by (simp add: configToJson_def)
  done

text \<open>A disk, which may be full: then one byte of a document is written and no more.\<close>

record disk =
  dk_files :: "string \<Rightarrow> (js_section list \<times> bool) option"
  dk_full :: bool

definition sample_fs :: "(disk, json, js_section list \<times> bool) fs_api" where
  "sample_fs = \<lparr>fs_begin = (\<lambda>d. (True, d)), fs_begin_formatting = (\<lambda>d. (True, d)), fs_format = (\<lambda>d. d),
     fs_open_r = (\<lambda>d p. map_option (\<lambda>x. (x, False, 1)) (dk_files d p)),
     fs_open_w = (\<lambda>d p. (True, d\<lparr>dk_files := (dk_files d)(p := None)\<rparr>)),
     fs_serialize = (\<lambda>d p json. if dk_full d then (1, d\<lparr>dk_files := (dk_files d)(p \<mapsto> (snd json, False))\<rparr>)
        else (if distinct (map fst (snd json)) then 2 else 0, d\<lparr>dk_files := (dk_files d)(p \<mapsto> (snd json, True))\<rparr>)),
     fs_remove = (\<lambda>d p. (dk_files d p \<noteq> None, d\<lparr>dk_files := (dk_files d)(p := None)\<rparr>)),
     fs_rename = (\<lambda>d p q. if dk_files d p = None then (False, d)
        else (True, d\<lparr>dk_files := ((dk_files d)(p := None))(q := dk_files d p)\<rparr>)),
     js_parse = (\<lambda>(secs, complete). if complete then Some (doc_of secs) else None),
     js_overflowed = (\<lambda>_. False)\<rparr>"

lemma sample_stored: "stored_file sample_fs d p = dk_files d p"
  by (simp add: stored_file_def sample_fs_def split: option.split)

lemma sample_fs_laws: "fs_laws sample_api sample_fs (\<lambda>_. 2)"
  unfolding fs_laws_def sample_stored
  by (auto simp: sample_fs_def sample_reads split: if_splits)

text \<open>The trace of a save, by its length.\<close>

lemma save_trace:
  assumes "store_save fa st cfg fs = (trace, err)" "fs_laws api fa size_of"
  shows "trace \<noteq> [] \<and> (\<forall>i < min 3 (length trace). stored_file fa (trace ! i) kConfigPath = stored_file fa fs kConfigPath) \<and>
     (err \<notin> {None, Some ''could not commit config''} \<longrightarrow>
        (\<forall>i < length trace. stored_file fa (trace ! i) kConfigPath = stored_file fa fs kConfigPath))"
proof -
  obtain o1 fs1 where o: "fs_open_w fa fs kTempPath = (o1, fs1)" by fastforce
  obtain n fs2 where w: "fs_serialize fa fs1 kTempPath (configToJson cfg False) = (n, fs2)" by fastforce
  obtain r fs4 where r: "fs_rename fa (snd (fs_remove fa fs2 kConfigPath)) kTempPath kConfigPath = (r, fs4)"
    by fastforce
  have l: "stored_file fa (snd (fs_open_w fa fs kTempPath)) kConfigPath = stored_file fa fs kConfigPath"
    "stored_file fa (snd (fs_serialize fa fs1 kTempPath (configToJson cfg False))) kConfigPath =
       stored_file fa fs1 kConfigPath"
    "stored_file fa (snd (fs_remove fa fs2 kTempPath)) kConfigPath = stored_file fa fs2 kConfigPath"
    by (simp_all add: fs_law [OF assms(2)])
  then have same: "stored_file fa fs1 kConfigPath = stored_file fa fs kConfigPath"
    "stored_file fa fs2 kConfigPath = stored_file fa fs kConfigPath"
    "stored_file fa (snd (fs_remove fa fs2 kTempPath)) kConfigPath = stored_file fa fs kConfigPath"
    by (simp_all add: o w)
  have "trace = [fs] \<and> err \<noteq> None \<or> trace = [fs, fs1] \<and> err \<noteq> None \<or>
      trace = [fs, fs1, fs2, snd (fs_remove fa fs2 kTempPath)] \<and> err = Some ''config write failed'' \<or>
      trace = [fs, fs1, fs2, snd (fs_remove fa fs2 kConfigPath), fs4] \<and> err \<in> {None, Some ''could not commit config''}"
    using assms(1) by (simp add: store_save_def Let_def o w r split: if_splits) blast+
  then show ?thesis using same by (auto simp: nth_Cons' less_Suc_eq_0_disj numeral_eq_Suc)
qed

text \<open>Up to the commit an interrupted save changes nothing: cut off in any state before the old
  file is removed, and in every state of a save that fails before the commit, the next load finds
  what it would have found without the save.\<close>

theorem interrupted_save_keeps_config:
  assumes "fs_laws api fa size_of" "store_save fa st cfg fs = (trace, err)" "i < length trace"
    and "i < 3 \<or> err \<notin> {None, Some ''could not commit config''}"
  shows "let (st1, c1, _, ok1) = store_load api fa st' d (trace ! i);
             (st2, c2, _, ok2) = store_load api fa st' d fs
         in st1 = st2 \<and> c1 = c2 \<and> ok1 = ok2"
proof -
  have "stored_file fa (trace ! i) kConfigPath = stored_file fa fs kConfigPath"
    using save_trace [OF assms(2,1)] assms(3,4) by auto
  then show ?thesis by (simp add: load_stored Let_def split: option.split prod.split)
qed

theorem interrupted_save_keeps_config_witness:
  "let fs = \<lparr>dk_files = (\<lambda>_. None), dk_full = True\<rparr>;
       fs' = fst (store_save sample_fs \<lparr>cst_mounted = True, cst_corrupt = False, cst_fresh = False\<rparr> Settings fs) ! 2;
       (st1, c1, _, ok1) = store_load sample_api sample_fs ConfigStore Settings fs';
       (st2, c2, _, ok2) = store_load sample_api sample_fs ConfigStore Settings fs
   in st1 = st2 \<and> c1 = c2 \<and> ok1 = ok2"
proof -
  let ?fs = "\<lparr>dk_files = (\<lambda>_. None), dk_full = True\<rparr> :: disk"
  let ?st = "\<lparr>cst_mounted = True, cst_corrupt = False, cst_fresh = False\<rparr>"
  obtain trace err where t: "store_save sample_fs ?st Settings ?fs = (trace, err)" by fastforce
  then have "2 < length trace" by (simp add: store_save_def sample_fs_def Let_def) auto
  from interrupted_save_keeps_config [OF sample_fs_laws t this] show ?thesis by (simp add: t)
qed

text \<open>C18: A save whose document was written whole is what the next boot loads: when the save reports
  success and the serializer wrote every byte, a load from the committed file gives the saved
  settings back, up to the version, and marks neither a corrupt file nor a first boot. The settings
  are valid, their texts are terminated and none is the redaction placeholder; the file system
  keeps its documented laws, and a document that was written whole reads back every number, doubles
  included, and every text exactly. Success alone is not enough: \<open>short_write_committed\<close> below.\<close>

theorem saved_config_survives:
  assumes "fs_laws api fa size_of" "texts_ok cfg" "texts_plain cfg" "configValidate cfg = None"
    and "store_save fa st cfg fs = (trace, None)" "cst_mounted st'"
    and "fst (fs_serialize fa (snd (fs_open_w fa fs kTempPath)) kTempPath (configToJson cfg False)) =
      size_of (configToJson cfg False)"
  shows "store_load api fa st' old (last trace) =
    (st'\<lparr>cst_corrupt := False, cst_fresh := False\<rparr>, cfg\<lparr>cfg_version := cfg_version old\<rparr>, [last trace], True)"
proof -
  define json where "json = configToJson cfg False"
  define fs1 where "fs1 = snd (fs_open_w fa fs kTempPath)"
  define fs2 where "fs2 = snd (fs_serialize fa fs1 kTempPath json)"
  define fs3 where "fs3 = snd (fs_remove fa fs2 kConfigPath)"
  have t: "last trace = snd (fs_rename fa fs3 kTempPath kConfigPath)" "fst (fs_rename fa fs3 kTempPath kConfigPath)"
    using assms(5) unfolding fs3_def fs2_def fs1_def json_def store_save_def Let_def
    by (auto split: if_splits prod.splits)
  obtain x doc where d: "stored_file fa fs2 kTempPath = Some x" "js_parse fa x = Some doc" "doc_reads api doc (snd json)"
    using fs_law(6) [OF assms(1,7)] unfolding fs2_def fs1_def json_def by blast
  have "stored_file fa (last trace) kConfigPath = stored_file fa fs3 kTempPath"
    unfolding t(1) by (rule fs_law(5) [OF assms(1) t(2)])
  also have "\<dots> = stored_file fa fs2 kTempPath"
    unfolding fs3_def by (rule fs_law(3) [OF assms(1)]) simp
  finally have "stored_file fa (last trace) kConfigPath = Some x" by (simp add: d(1))
  moreover have "configMergeJson api doc old = (cfg\<lparr>cfg_version := cfg_version old\<rparr>, None)"
    by (rule configMergeJson_read [OF d(3) [unfolded json_def] assms(2,3) _ assms(4)]) simp
  ultimately show ?thesis using assms(6) d(2) by (simp add: load_stored Let_def)
qed

theorem saved_config_survives_witness:
  "let st = \<lparr>cst_mounted = True, cst_corrupt = False, cst_fresh = False\<rparr>;
       fs = last (fst (store_save sample_fs st sample_settings \<lparr>dk_files = (\<lambda>_. None), dk_full = False\<rparr>))
   in store_load sample_api sample_fs st Settings fs = (st, sample_settings, [fs], True)"
proof -
  let ?fs = "\<lparr>dk_files = (\<lambda>_. None), dk_full = False\<rparr> :: disk"
  let ?st = "\<lparr>cst_mounted = True, cst_corrupt = False, cst_fresh = False\<rparr>"
  obtain trace where t: "store_save sample_fs ?st sample_settings ?fs = (trace, None)"
    using sample_settings_ok(4) [of False] by (simp add: store_save_def sample_fs_def Let_def)
  have "fst (fs_serialize sample_fs (snd (fs_open_w sample_fs ?fs kTempPath)) kTempPath
      (configToJson sample_settings False)) = 2"
    using sample_settings_ok(4) [of False] by (simp add: sample_fs_def)
  from saved_config_survives [OF sample_fs_laws sample_settings_ok(2,3,1) t _ this, of ?st Settings]
  show ?thesis by (simp add: t) (simp add: sample_settings_def)
qed

text \<open>C19: The commit has a window: cut off between the removal of the old file and the rename of the
  new one, neither survives. The next load takes the boot for a first boot, leaves the compiled
  defaults in force and starts by truncating the only file that held the settings.\<close>

theorem commit_window_loses_config:
  assumes "fs_laws api fa size_of" "store_save fa st cfg fs = (trace, err)" "length trace = 5"
    and "fst (fs_remove fa (trace ! 2) kConfigPath)" "cst_mounted st'" "\<not> js_overflowed fa (configToJson d False)"
  shows "let (st1, c1, tr, ok) = store_load api fa st' d (trace ! 3)
         in cst_fresh st1 \<and> c1 = d \<and> \<not> ok \<and> tr ! 1 = snd (fs_open_w fa (trace ! 3) kTempPath)"
proof -
  have "trace ! 3 = snd (fs_remove fa (trace ! 2) kConfigPath)"
    using assms(2,3) by (auto simp: store_save_def Let_def split: if_splits prod.splits)
  then have "stored_file fa (trace ! 3) kConfigPath = None"
    using fs_law(4) [OF assms(1,4)] by simp
  then show ?thesis using assms(5,6)
    by (simp add: load_stored Let_def) (simp add: store_save_def Let_def split: prod.split)
qed

theorem commit_window_loses_config_witness:
  "let st = \<lparr>cst_mounted = True, cst_corrupt = False, cst_fresh = False\<rparr>;
       fs = \<lparr>dk_files = [kConfigPath \<mapsto> (snd (configToJson Settings False), True)], dk_full = False\<rparr>;
       cut = fst (store_save sample_fs st sample_settings fs) ! 3;
       (st1, c1, tr, ok) = store_load sample_api sample_fs st Settings cut
   in cst_fresh st1 \<and> c1 = Settings \<and> \<not> ok \<and> tr ! 1 = snd (fs_open_w sample_fs cut kTempPath)"
proof -
  let ?fs = "\<lparr>dk_files = [kConfigPath \<mapsto> (snd (configToJson Settings False), True)], dk_full = False\<rparr> :: disk"
  let ?st = "\<lparr>cst_mounted = True, cst_corrupt = False, cst_fresh = False\<rparr>"
  obtain trace err where t: "store_save sample_fs ?st sample_settings ?fs = (trace, err)" by fastforce
  then have l: "length trace = 5" "fst (fs_remove sample_fs (trace ! 2) kConfigPath)"
    using sample_settings_ok(4) [of False] by (auto simp: store_save_def sample_fs_def Let_def numeral_eq_Suc)
  have "\<not> js_overflowed sample_fs (configToJson Settings False)" by (simp add: sample_fs_def)
  from commit_window_loses_config [OF sample_fs_laws t l _ this, of ?st] show ?thesis by (simp add: t)
qed

text \<open>C20: A save looks at whether anything was written, not at how much: when the file system takes
  a part of the document only and that part does not parse, the save commits it over the good
  file and reports success, and the next boot runs on the defaults.\<close>

theorem short_write_committed:
  assumes "cst_mounted st" "\<not> js_overflowed fa (configToJson cfg False)" "fs_laws api fa size_of"
    and "fs_open_w fa fs kTempPath = (True, fs1)"
    and "fs_serialize fa fs1 kTempPath (configToJson cfg False) = (Suc n, fs2)"
    and "stored_file fa fs2 kTempPath = Some x" "js_parse fa x = None"
    and "fst (fs_rename fa (snd (fs_remove fa fs2 kConfigPath)) kTempPath kConfigPath)"
  shows "let (trace, err) = store_save fa st cfg fs; (st1, c1, _, ok) = store_load api fa st d (last trace)
         in err = None \<and> cst_corrupt st1 \<and> c1 = d \<and> \<not> ok"
proof -
  obtain fs4 where r: "fs_rename fa (snd (fs_remove fa fs2 kConfigPath)) kTempPath kConfigPath = (True, fs4)"
    using assms(8) by (cases "fs_rename fa (snd (fs_remove fa fs2 kConfigPath)) kTempPath kConfigPath") simp
  have "stored_file fa (snd (fs_rename fa (snd (fs_remove fa fs2 kConfigPath)) kTempPath kConfigPath)) kConfigPath =
      stored_file fa (snd (fs_remove fa fs2 kConfigPath)) kTempPath"
    by (rule fs_law(5) [OF assms(3,8)])
  also have "\<dots> = stored_file fa fs2 kTempPath"
    by (rule fs_law(3) [OF assms(3)]) simp
  finally have "stored_file fa fs4 kConfigPath = Some x" by (simp add: r assms(6))
  then show ?thesis using assms(1,2,4,5,7) r by (simp add: store_save_def load_stored Let_def)
qed

theorem short_write_committed_witness:
  "let st = \<lparr>cst_mounted = True, cst_corrupt = False, cst_fresh = False\<rparr>;
       (trace, err) = store_save sample_fs st sample_settings
         \<lparr>dk_files = [kConfigPath \<mapsto> (snd (configToJson Settings False), True)], dk_full = True\<rparr>;
       (st1, c1, _, ok) = store_load sample_api sample_fs st Settings (last trace)
   in err = None \<and> cst_corrupt st1 \<and> c1 = Settings \<and> \<not> ok"
proof -
  let ?files = "[kConfigPath \<mapsto> (snd (configToJson Settings False), True)]"
  let ?secs = "snd (configToJson sample_settings False)"
  have "fs_open_w sample_fs \<lparr>dk_files = ?files, dk_full = True\<rparr> kTempPath =
      (True, \<lparr>dk_files = ?files(kTempPath := None), dk_full = True\<rparr>)"
    "fs_serialize sample_fs \<lparr>dk_files = ?files(kTempPath := None), dk_full = True\<rparr> kTempPath
        (configToJson sample_settings False) =
      (Suc 0, \<lparr>dk_files = ?files(kTempPath \<mapsto> (?secs, False)), dk_full = True\<rparr>)"
    "js_parse sample_fs (?secs, False) = None"
    "\<not> js_overflowed sample_fs (configToJson sample_settings False)"
    by (simp_all add: sample_fs_def)
  moreover have "stored_file sample_fs \<lparr>dk_files = ?files(kTempPath \<mapsto> (?secs, False)), dk_full = True\<rparr> kTempPath =
      Some (?secs, False)" by (simp add: sample_stored)
  moreover have "fst (fs_rename sample_fs (snd (fs_remove sample_fs
      \<lparr>dk_files = ?files(kTempPath \<mapsto> (?secs, False)), dk_full = True\<rparr> kConfigPath)) kTempPath kConfigPath)"
    by (simp add: sample_fs_def)
  ultimately show ?thesis
    using short_write_committed [of "\<lparr>cst_mounted = True, cst_corrupt = False, cst_fresh = False\<rparr>", OF _ _ sample_fs_laws]
    by (simp only: Let_def) simp
qed

text \<open>C17: The JSON form of a configuration is faithful: a document from which the parser reads
  what was written merges to exactly that configuration, whatever was there before, except for
  the version, which a merge never changes. With the secrets redacted this holds over a
  configuration that has the same secrets: the placeholders leave them alone.\<close>

theorem config_round_trip:
  assumes "doc_reads api doc (snd (configToJson cfg redact))"
    and "texts_ok cfg" "texts_plain cfg" "redact \<longrightarrow> same_secrets old cfg" "configValidate cfg = None"
  shows "configMergeJson api doc old = (cfg\<lparr>cfg_version := cfg_version old\<rparr>, None)"
  using assms by (rule configMergeJson_read)

theorem config_round_trip_witness:
  "configMergeJson sample_api (doc_of (snd (configToJson sample_settings True)))
     (sample_settings\<lparr>cfg_announce_interval_ms := 9\<rparr>) = (sample_settings, None)"
  using config_round_trip [OF sample_reads [OF sample_settings_ok(4)] sample_settings_ok(2,3) _ sample_settings_ok(1),
      of True "sample_settings\<lparr>cfg_announce_interval_ms := 9\<rparr>"]
  by (simp add: same_secrets_def)

theorem merge_touches_mentioned_only_witness:
  "fst (configMergeJson sample_api (JObj [(''colour'', JNull)]) sample_settings) = sample_settings"
  using merge_touches_mentioned_only [of sample_api "JObj [(''colour'', JNull)]" sample_settings]
  by (simp add: sample_api_def)

end
