(* ===== verification/Fc_Link.thy ===== *)
theory Fc_Link
  imports Follow Msp_Fc
begin

text \<open>
  src/hal/MspFcLink.h and MspFcLink.cpp, the MSP link to the flight controller: the receive side
  with its telemetry cache, the request schedule and the commands Follow sends; and
  src/hal/MspRadarOutput, which writes to the same port. The serial port is its bytes: what a
  service finds to read, and the list of the writes, one byte list each.
\<close>

section \<open>Constants\<close>

definition kMspGpsNoFix :: u8 where "kMspGpsNoFix = 0"
definition kMspFollowWaypoint :: u8 where "kMspFollowWaypoint = 255"
definition kMspWpActionWaypoint :: u8 where "kMspWpActionWaypoint = 1"
definition FC_MODE_ARM :: nat where "FC_MODE_ARM = 0"
definition FC_MODE_MAG :: nat where "FC_MODE_MAG = 4"
definition FC_MODE_GCSNAV :: nat where "FC_MODE_GCSNAV = 23"

definition kGpsIntervalMs :: u32 where "kGpsIntervalMs = 200"
definition kStatusIntervalMs :: u32 where "kStatusIntervalMs = 100"
definition kAltitudeIntervalMs :: u32 where "kAltitudeIntervalMs = 100"
definition kRcIntervalMs :: u32 where "kRcIntervalMs = 100"
definition kIdentRetryMs :: u32 where "kIdentRetryMs = 1000"
definition kBoxIdsIntervalMs :: u32 where "kBoxIdsIntervalMs = 5000"
definition kFixStaleMs :: u32 where "kFixStaleMs = 2000"
definition kStatusStaleMs :: u32 where "kStatusStaleMs = 1000"
definition kTxBuf :: nat where "kTxBuf = kMspV2Overhead + kMspSetWpPayloadSize"

definition mspFixToCanonical :: "u8 \<Rightarrow> u8" where
  "mspFixToCanonical msp_fix =
     (if msp_fix = kMspGpsNoFix then 0 else if msp_fix = 1 then 2 else if msp_fix = 2 then 3 else msp_fix)"

section \<open>State\<close>

text \<open>The identifiers of the boxes are the \<open>boxIdCount_\<close> used bytes of their array.\<close>

record fc_link =
  fl_parser :: msp_parser
  fl_started :: bool
  fl_now :: u32
  fl_variant :: byte_list
  fl_haveVariant :: bool
  fl_version :: fc_version
  fl_haveVersion :: bool
  fl_platform :: fc_platform
  fl_lastIdentReqMs :: u32
  fl_boxIds :: byte_list
  fl_haveBoxIds :: bool
  fl_lastBoxIdsReqMs :: u32
  fl_loc :: node_location
  fl_lastGpsReqMs :: u32
  fl_lastFixMs :: u32
  fl_everFixed :: bool
  fl_modes :: u32
  fl_armedFlag :: bool
  fl_haveArmedFlag :: bool
  fl_lastStatusMs :: u32
  fl_haveStatus :: bool
  fl_lastStatusReqMs :: u32
  fl_needAltitude :: bool
  fl_needRc :: bool
  fl_altitudeCm :: i32
  fl_lastAltReqMs :: u32
  fl_rc :: "u16 list"
  fl_lastRcReqMs :: u32

definition MspFcLink :: fc_link where
  "MspFcLink = \<lparr>fl_parser = MspParser, fl_started = False, fl_now = 0,
     fl_variant = replicate 5 0, fl_haveVariant = False,
     fl_version = \<lparr>fv_major = 0, fv_minor = 0, fv_patch = 0\<rparr>, fl_haveVersion = False,
     fl_platform = UnknownPlatform, fl_lastIdentReqMs = 0, fl_boxIds = [], fl_haveBoxIds = False,
     fl_lastBoxIdsReqMs = 0, fl_loc = NodeLocation, fl_lastGpsReqMs = 0, fl_lastFixMs = 0,
     fl_everFixed = False, fl_modes = 0, fl_armedFlag = False, fl_haveArmedFlag = False,
     fl_lastStatusMs = 0, fl_haveStatus = False, fl_lastStatusReqMs = 0, fl_needAltitude = False,
     fl_needRc = False, fl_altitudeCm = 0, fl_lastAltReqMs = 0,
     fl_rc = replicate kMspMaxRcChannels 0, fl_lastRcReqMs = 0\<rparr>"

definition link_begin :: "fc_link \<Rightarrow> fc_link" where
  "link_begin l = l\<lparr>fl_started := True\<rparr>"

section \<open>Reads\<close>

definition isInav :: "fc_link \<Rightarrow> bool" where
  "isInav l \<longleftrightarrow> fl_haveVariant l \<and> fcVariantIsInav (fl_variant l)"

definition modesFresh :: "fc_link \<Rightarrow> bool" where
  "modesFresh l \<longleftrightarrow> fl_haveStatus l \<and> fl_now l - fl_lastStatusMs l \<le> kStatusStaleMs"

definition link_connected :: "fc_link \<Rightarrow> bool" where
  "link_connected l \<longleftrightarrow> fl_haveVariant l \<and> modesFresh l"

definition link_armed :: "fc_link \<Rightarrow> bool" where
  "link_armed l =
     (if \<not> modesFresh l then False
      else if fl_haveArmedFlag l then fl_armedFlag l else modeActive (fl_modes l) FC_MODE_ARM)"

definition gcsNavActive :: "fc_link \<Rightarrow> bool" where
  "gcsNavActive l \<longleftrightarrow> modesFresh l \<and> modeActive (fl_modes l) FC_MODE_GCSNAV"

definition headingHoldActive :: "fc_link \<Rightarrow> bool" where
  "headingHoldActive l \<longleftrightarrow> modesFresh l \<and> modeActive (fl_modes l) FC_MODE_MAG"

definition rcChannelUs :: "fc_link \<Rightarrow> u8 \<Rightarrow> u16 option" where
  "rcChannelUs l channel1Based =
     (if channel1Based < 1 \<or> unat channel1Based > kMspMaxRcChannels then None
      else if \<not> link_connected l then None
      else Some (fl_rc l ! (unat channel1Based - 1)))"

text \<open>What Follow reads of the link in one cycle.\<close>

definition link_view :: "fc_link \<Rightarrow> fc_view" where
  "link_view l = \<lparr>fc_armed = link_armed l, fc_gcsNav = gcsNavActive l,
     fc_headingHold = headingHoldActive l, fc_rc = rcChannelUs l,
     fc_localAltitudeCm = fl_altitudeCm l, fc_platformType = fl_platform l\<rparr>"

section \<open>Replies\<close>

text \<open>The decoders that read words return an option of an option: the outer one is a read outside
  the payload, which their length checks exclude.\<close>

definition set_loc_armed :: "fc_link \<Rightarrow> fc_link" where
  "set_loc_armed l = l\<lparr>fl_loc := (fl_loc l)\<lparr>loc_armed := link_armed l\<rparr>\<rparr>"

definition handle_raw_gps :: "u32 \<Rightarrow> byte_list \<Rightarrow> fc_link \<Rightarrow> fc_link" where
  "handle_raw_gps now_ms p l =
     (case decodeRawGps p of
        Some (Some gps) \<Rightarrow>
          l\<lparr>fl_loc := (fl_loc l)\<lparr>loc_valid := rg_fix_type gps \<noteq> kMspGpsNoFix, loc_lat := rg_lat gps,
              loc_lon := rg_lon gps, loc_alt_m := rg_alt_m gps, loc_speed_cms := rg_speed_cms gps,
              loc_course_ddeg := rg_course_ddeg gps, loc_sats := rg_num_sat gps,
              loc_fix_type := mspFixToCanonical (rg_fix_type gps), loc_hdop := rg_hdop gps\<rparr>,
            fl_lastFixMs := now_ms, fl_everFixed := True\<rparr>
      | _ \<Rightarrow> l)"

definition handle_status :: "u32 \<Rightarrow> byte_list \<Rightarrow> fc_link \<Rightarrow> fc_link" where
  "handle_status now_ms p l =
     (case statusModeFlags p of
        None \<Rightarrow> l
      | Some flags \<Rightarrow>
          set_loc_armed (l\<lparr>fl_modes := decodeActiveModes flags (fl_boxIds l), fl_haveArmedFlag := False,
            fl_haveStatus := True, fl_lastStatusMs := now_ms\<rparr>))"

definition handle_inav_status :: "u32 \<Rightarrow> byte_list \<Rightarrow> fc_link \<Rightarrow> fc_link" where
  "handle_inav_status now_ms p l =
     (case inavStatusModeFlags p of
        None \<Rightarrow> l
      | Some flags \<Rightarrow>
          let l = l\<lparr>fl_modes := decodeActiveModes flags (fl_boxIds l)\<rparr>;
              l = (case inavStatusArmed p of
                     Some (Some a) \<Rightarrow> l\<lparr>fl_armedFlag := a, fl_haveArmedFlag := True\<rparr>
                   | _ \<Rightarrow> l\<lparr>fl_haveArmedFlag := False\<rparr>)
          in set_loc_armed (l\<lparr>fl_haveStatus := True, fl_lastStatusMs := now_ms\<rparr>))"

text \<open>The dispatch on what the parser reports: version, flag, command and payload.\<close>

definition handle_reply :: "u32 \<Rightarrow> msp_reply \<Rightarrow> fc_link \<Rightarrow> fc_link" where
  "handle_reply now_ms r l =
     (case r of (version, fl, command, p) \<Rightarrow>
       if version = 1 then
           if command = ucast kMspRawGps then handle_raw_gps now_ms p l
           else if command = ucast kMspFcVariant then
             (case decodeFcVariant p of
                None \<Rightarrow> l | Some v \<Rightarrow> l\<lparr>fl_variant := v, fl_haveVariant := True\<rparr>)
           else if command = ucast kMspFcVersion then
             (case decodeFcVersion p of
                None \<Rightarrow> l | Some v \<Rightarrow> l\<lparr>fl_version := v, fl_haveVersion := True\<rparr>)
           else if command = ucast kMspBoxIds then
             l\<lparr>fl_boxIds := take kMspMaxPayload p, fl_haveBoxIds := True\<rparr>
           else if command = ucast kMspStatus then handle_status now_ms p l
           else if command = ucast kMspAltitude then
             (case decodeAltitudeCm p of Some (Some cm) \<Rightarrow> l\<lparr>fl_altitudeCm := cm\<rparr> | _ \<Rightarrow> l)
           else if command = ucast kMspRc then
             (case decodeRc p kMspMaxRcChannels of
                None \<Rightarrow> l | Some cs \<Rightarrow> l\<lparr>fl_rc := cs @ drop (length cs) (fl_rc l)\<rparr>)
           else l
         else if command = kMsp2InavStatus then handle_inav_status now_ms p l
         else if command = kMsp2InavMixer then
           (case decodeMixerPlatform p of None \<Rightarrow> l | Some x \<Rightarrow> l\<lparr>fl_platform := x\<rparr>)
         else l)"

definition handleFrame :: "u32 \<Rightarrow> fc_link \<Rightarrow> fc_link" where
  "handleFrame now_ms l = handle_reply now_ms (mp_reply (fl_parser l)) l"

section \<open>Writes\<close>

definition command1 :: "fc_link \<Rightarrow> u8 \<Rightarrow> byte_list \<Rightarrow> byte_list list" where
  "command1 l command payload =
     (if \<not> fl_started l then []
      else let buf = buildMspV1 command payload kTxBuf in if buf \<noteq> [] then [buf] else [])"

definition command2 :: "fc_link \<Rightarrow> u16 \<Rightarrow> byte_list \<Rightarrow> byte_list list" where
  "command2 l command payload =
     (if \<not> fl_started l then []
      else let buf = buildMspV2 command payload kTxBuf in if buf \<noteq> [] then [buf] else [])"

definition request1 :: "fc_link \<Rightarrow> u8 \<Rightarrow> byte_list list" where "request1 l command = command1 l command []"
definition request2 :: "fc_link \<Rightarrow> u16 \<Rightarrow> byte_list list" where "request2 l command = command2 l command []"

definition sendFollowWaypoint :: "fc_link \<Rightarrow> i32 \<Rightarrow> i32 \<Rightarrow> i32 \<Rightarrow> i16 \<Rightarrow> byte_list list" where
  "sendFollowWaypoint l lat_1e7 lon_1e7 alt_cm heading_deg =
     command1 l kMspSetWp (encodeSetWp kMspFollowWaypoint kMspWpActionWaypoint lat_1e7 lon_1e7 alt_cm
       heading_deg 0 0 0 kMspSetWpPayloadSize)"

definition sendSetHead :: "fc_link \<Rightarrow> i16 \<Rightarrow> byte_list list" where
  "sendSetHead l heading_deg = command1 l kMspSetHead (encodeSetHead heading_deg kMspSetHeadPayloadSize)"

definition sendGvar :: "fc_link \<Rightarrow> u8 \<Rightarrow> i32 \<Rightarrow> byte_list list" where
  "sendGvar l index value =
     (if \<not> isInav l \<or> \<not> fl_haveVersion l \<or> fv_major (fl_version l) < 9 then []
      else command2 l kMsp2InavSetGvar (encodeSetGvar index value kMspSetGvarPayloadSize))"

definition setTelemetryNeeds :: "fc_link \<Rightarrow> bool \<Rightarrow> bool \<Rightarrow> fc_link" where
  "setTelemetryNeeds l altitude rc = l\<lparr>fl_needAltitude := altitude, fl_needRc := rc\<rparr>"

text \<open>The commands of a Follow cycle, in order: what they change of the link and what they write.\<close>

fun link_command :: "fc_cmd \<Rightarrow> fc_link \<Rightarrow> fc_link \<times> byte_list list" where
  "link_command (TelemetryNeeds altitude rc) l = (setTelemetryNeeds l altitude rc, [])"
| "link_command (FollowWaypoint lat lon alt heading) l = (l, sendFollowWaypoint l lat lon alt heading)"
| "link_command (SetHead heading) l = (l, sendSetHead l heading)"
| "link_command (Gvar index value) l = (l, sendGvar l index value)"

fun link_commands :: "fc_cmd list \<Rightarrow> fc_link \<Rightarrow> fc_link \<times> byte_list list" where
  "link_commands [] l = (l, [])"
| "link_commands (c # cs) l =
     (let (l, out) = link_command c l; (l, out') = link_commands cs l in (l, out @ out'))"

section \<open>Service\<close>

definition due :: "u32 \<Rightarrow> u32 \<Rightarrow> u32 \<Rightarrow> bool" where
  "due now_ms last_ms interval_ms \<longleftrightarrow> now_ms - last_ms \<ge> interval_ms"

text \<open>The loop that drains the port: the link after it, and the bytes it has left.\<close>

fun link_drain :: "nat \<Rightarrow> u32 \<Rightarrow> byte_list \<Rightarrow> fc_link \<Rightarrow> fc_link \<times> byte_list" where
  "link_drain 0 now_ms rx l = (l, rx)"
| "link_drain (Suc budget) now_ms [] l = (l, [])"
| "link_drain (Suc budget) now_ms (b # rx) l =
     (let (p, ok) = msp_feed (fl_parser l) b; l = l\<lparr>fl_parser := p\<rparr>
      in link_drain budget now_ms rx (if ok then handleFrame now_ms l else l))"

definition req_ident :: "u32 \<Rightarrow> fc_link \<Rightarrow> fc_link \<times> byte_list list" where
  "req_ident now_ms l =
     (if due now_ms (fl_lastIdentReqMs l) kIdentRetryMs \<and>
         (\<not> fl_haveVariant l \<or> \<not> fl_haveVersion l \<or> isInav l \<and> fl_platform l = UnknownPlatform)
      then (l\<lparr>fl_lastIdentReqMs := now_ms\<rparr>,
            (if \<not> fl_haveVariant l then request1 l kMspFcVariant else []) @
            (if \<not> fl_haveVersion l then request1 l kMspFcVersion else []) @
            (if isInav l \<and> fl_platform l = UnknownPlatform then request2 l kMsp2InavMixer else []))
      else (l, []))"

definition req_boxids :: "u32 \<Rightarrow> fc_link \<Rightarrow> fc_link \<times> byte_list list" where
  "req_boxids now_ms l =
     (if fl_haveVariant l \<and> (\<not> fl_haveBoxIds l \<or> due now_ms (fl_lastBoxIdsReqMs l) kBoxIdsIntervalMs) \<and>
         due now_ms (fl_lastBoxIdsReqMs l) kIdentRetryMs
      then (l\<lparr>fl_lastBoxIdsReqMs := now_ms\<rparr>, request1 l kMspBoxIds) else (l, []))"

definition req_gps :: "u32 \<Rightarrow> fc_link \<Rightarrow> fc_link \<times> byte_list list" where
  "req_gps now_ms l =
     (if due now_ms (fl_lastGpsReqMs l) kGpsIntervalMs
      then (l\<lparr>fl_lastGpsReqMs := now_ms\<rparr>, request1 l kMspRawGps) else (l, []))"

definition req_status :: "u32 \<Rightarrow> fc_link \<Rightarrow> fc_link \<times> byte_list list" where
  "req_status now_ms l =
     (if fl_haveVariant l \<and> due now_ms (fl_lastStatusReqMs l) kStatusIntervalMs
      then (l\<lparr>fl_lastStatusReqMs := now_ms\<rparr>,
            if isInav l then request2 l kMsp2InavStatus else request1 l kMspStatus)
      else (l, []))"

definition req_altitude :: "u32 \<Rightarrow> fc_link \<Rightarrow> fc_link \<times> byte_list list" where
  "req_altitude now_ms l =
     (if fl_needAltitude l \<and> fl_haveVariant l \<and> due now_ms (fl_lastAltReqMs l) kAltitudeIntervalMs
      then (l\<lparr>fl_lastAltReqMs := now_ms\<rparr>, request1 l kMspAltitude) else (l, []))"

definition req_rc :: "u32 \<Rightarrow> fc_link \<Rightarrow> fc_link \<times> byte_list list" where
  "req_rc now_ms l =
     (if fl_needRc l \<and> fl_haveVariant l \<and> due now_ms (fl_lastRcReqMs l) kRcIntervalMs
      then (l\<lparr>fl_lastRcReqMs := now_ms\<rparr>, request1 l kMspRc) else (l, []))"

text \<open>The requests of a service, one schedule after the other.\<close>

fun link_requests :: "(fc_link \<Rightarrow> fc_link \<times> byte_list list) list \<Rightarrow> fc_link \<Rightarrow> fc_link \<times> byte_list list" where
  "link_requests [] l = (l, [])"
| "link_requests (r # rs) l =
     (let (l, out) = r l; (l, out') = link_requests rs l in (l, out @ out'))"

definition link_schedules :: "u32 \<Rightarrow> (fc_link \<Rightarrow> fc_link \<times> byte_list list) list" where
  "link_schedules now_ms =
     [req_ident now_ms, req_boxids now_ms, req_gps now_ms, req_status now_ms, req_altitude now_ms, req_rc now_ms]"

definition expire_cache :: "u32 \<Rightarrow> fc_link \<Rightarrow> fc_link" where
  "expire_cache now_ms l =
     (let l = (if fl_everFixed l \<and> now_ms - fl_lastFixMs l > kFixStaleMs
               then l\<lparr>fl_loc := (fl_loc l)\<lparr>loc_valid := False\<rparr>\<rparr> else l)
      in if \<not> modesFresh l then l\<lparr>fl_loc := (fl_loc l)\<lparr>loc_armed := False\<rparr>\<rparr> else l)"

text \<open>One service: the link, the writes, and the bytes it did not get to.\<close>

definition link_service :: "u32 \<Rightarrow> byte_list \<Rightarrow> fc_link \<Rightarrow> fc_link \<times> byte_list list \<times> byte_list" where
  "link_service now_ms rx l =
     (if \<not> fl_started l then (l, [], rx)
      else
        let (l, rest) = link_drain 256 now_ms rx (l\<lparr>fl_now := now_ms\<rparr>);
            (l, out) = link_requests (link_schedules now_ms) l
        in (expire_cache now_ms l, out, rest))"

section \<open>Radar output\<close>

record radar_output =
  ro_started :: bool
  ro_peer_timeout_ms :: u32

definition MspRadarOutput :: radar_output where
  "MspRadarOutput = \<lparr>ro_started = False, ro_peer_timeout_ms = 6000\<rparr>"

definition radar_begin :: "u32 \<Rightarrow> radar_output \<Rightarrow> radar_output" where
  "radar_begin peer_timeout_ms r = \<lparr>ro_started = True, ro_peer_timeout_ms = peer_timeout_ms\<rparr>"

definition sendRadarPosition :: "radar_output \<Rightarrow> u8 \<Rightarrow> peer \<Rightarrow> u32 \<Rightarrow> byte_list list" where
  "sendRadarPosition r slot_id peer now_ms =
     (if \<not> ro_started r then []
      else let buf = buildMspSetRadarPos slot_id peer now_ms (ro_peer_timeout_ms r) kMspRadarFrameSize
           in if buf = [] then [] else [buf])"

end
