(* ===== verification/Fc_Link_Runs.thy ===== *)
theory Fc_Link_Runs
  imports Fc_Link Follow_Runs
begin

text \<open>
  What the link answers rests on what the flight controller said: over any run the modes, the arm
  state and the fix are those of the last reply of their kind, and none of them is reported for
  longer than its timeout; the stick positions, the altitude and the platform are those of the last
  reply that carries them, however old it is.
\<close>

section \<open>Lemmas\<close>

subsection \<open>What a reply says\<close>

definition reply_fix :: "msp_reply \<Rightarrow> fc_raw_gps option" where
  "reply_fix r = (case r of (version, fl, command, p) \<Rightarrow>
     if version = 1 \<and> command = ucast kMspRawGps
     then (case decodeRawGps p of Some (Some g) \<Rightarrow> Some g | _ \<Rightarrow> None) else None)"

definition reply_flags :: "msp_reply \<Rightarrow> byte_list option" where
  "reply_flags r = (case r of (version, fl, command, p) \<Rightarrow>
     if version = 1 then (if command = ucast kMspStatus then statusModeFlags p else None)
     else if command = kMsp2InavStatus then inavStatusModeFlags p else None)"

definition reply_boxes :: "msp_reply \<Rightarrow> byte_list option" where
  "reply_boxes r = (case r of (version, fl, command, p) \<Rightarrow>
     if version = 1 \<and> command = ucast kMspBoxIds then Some (take kMspMaxPayload p) else None)"

definition reply_armed :: "u32 \<Rightarrow> msp_reply \<Rightarrow> bool" where
  "reply_armed modes r = (case r of (version, fl, command, p) \<Rightarrow>
     (case (if version = 1 then None else inavStatusArmed p) of
        Some (Some a) \<Rightarrow> a | _ \<Rightarrow> modeActive modes FC_MODE_ARM))"

definition reply_variant :: "msp_reply \<Rightarrow> byte_list option" where
  "reply_variant r = (case r of (version, fl, command, p) \<Rightarrow>
     if version = 1 \<and> command = ucast kMspFcVariant then decodeFcVariant p else None)"

definition reply_altitude :: "msp_reply \<Rightarrow> i32 option" where
  "reply_altitude r = (case r of (version, fl, command, p) \<Rightarrow>
     if version = 1 \<and> command = ucast kMspAltitude
     then (case decodeAltitudeCm p of Some (Some cm) \<Rightarrow> Some cm | _ \<Rightarrow> None) else None)"

definition reply_platform :: "msp_reply \<Rightarrow> fc_platform option" where
  "reply_platform r = (case r of (version, fl, command, p) \<Rightarrow>
     if version \<noteq> 1 \<and> command = kMsp2InavMixer then decodeMixerPlatform p else None)"

text \<open>A channel of the sticks, if the reply is long enough to have it.\<close>

definition reply_channel :: "nat \<Rightarrow> msp_reply \<Rightarrow> u16 option" where
  "reply_channel i r = (case r of (version, fl, command, p) \<Rightarrow>
     if version = 1 \<and> command = ucast kMspRc
     then (case decodeRc p kMspMaxRcChannels of
             Some cs \<Rightarrow> if i < length cs then Some (cs ! i) else None | None \<Rightarrow> None)
     else None)"

text \<open>The value of the last entry of a history that has one, and otherwise the first value.\<close>

definition last_of :: "('r \<Rightarrow> 'a option) \<Rightarrow> 'a \<Rightarrow> (u32 \<times> 'r) list \<Rightarrow> 'a" where
  "last_of f x hs = (case filter (\<lambda>y. y \<noteq> None) (map (f \<circ> snd) hs) of [] \<Rightarrow> x | ys \<Rightarrow> the (last ys))"

lemma last_of_Nil [simp]: "last_of f x [] = x"
  by (simp add: last_of_def)

lemma last_of_snoc: "last_of f x (hs @ [h]) = (case f (snd h) of None \<Rightarrow> last_of f x hs | Some y \<Rightarrow> y)"
  by (cases "filter (\<lambda>y. y \<noteq> None) (map (f \<circ> snd) hs)") (auto simp: last_of_def split: option.split)

lemmas reply_defs = reply_fix_def reply_flags_def reply_boxes_def reply_armed_def

text \<open>The last entry of a history for which a reading gives something.\<close>

definition last_said :: "('r \<Rightarrow> 'a option) \<Rightarrow> (u32 \<times> 'r) list \<Rightarrow> (u32 \<times> 'r) list \<Rightarrow> u32 \<Rightarrow> 'r \<Rightarrow> bool" where
  "last_said f hs before t r \<longleftrightarrow>
     (\<exists>after. hs = before @ (t, r) # after \<and> f r \<noteq> None \<and> (\<forall>x \<in> set after. f (snd x) = None))"

lemma last_said_new: "f r \<noteq> None \<Longrightarrow> last_said f (hs @ [(t, r)]) hs t r"
  unfolding last_said_def by (rule exI [of _ "[]"]) simp

lemma last_said_keep: "last_said f hs before t r \<Longrightarrow> f r' = None \<Longrightarrow> last_said f (hs @ [(t', r')]) before t r"
  unfolding last_said_def by (elim exE, rule_tac x = "after @ [(t', r')]" in exI) auto

definition boxes_of :: "(u32 \<times> msp_reply) list \<Rightarrow> byte_list" where
  "boxes_of hs = fold (\<lambda>x boxes. case reply_boxes (snd x) of None \<Rightarrow> boxes | Some b \<Rightarrow> b) hs []"

definition cached_armed :: "fc_link \<Rightarrow> bool" where
  "cached_armed l = (if fl_haveArmedFlag l then fl_armedFlag l else modeActive (fl_modes l) FC_MODE_ARM)"

lemma link_armed_eq: "link_armed l \<longleftrightarrow> modesFresh l \<and> cached_armed l"
  by (simp add: link_armed_def cached_armed_def)

definition status_backed :: "(u32 \<times> msp_reply) list \<Rightarrow> fc_link \<Rightarrow> bool" where
  "status_backed hs l \<longleftrightarrow> (\<exists>before r flags. last_said reply_flags hs before (fl_lastStatusMs l) r \<and>
     reply_flags r = Some flags \<and> fl_modes l = decodeActiveModes flags (boxes_of before) \<and>
     cached_armed l = reply_armed (fl_modes l) r)"

text \<open>A location that says what a GPS reply says.\<close>

definition fix_of :: "node_location \<Rightarrow> fc_raw_gps \<Rightarrow> bool" where
  "fix_of loc g \<longleftrightarrow> loc_lat loc = rg_lat g \<and> loc_lon loc = rg_lon g \<and> loc_alt_m loc = rg_alt_m g \<and>
     loc_speed_cms loc = rg_speed_cms g \<and> loc_course_ddeg loc = rg_course_ddeg g \<and> loc_sats loc = rg_num_sat g \<and>
     loc_fix_type loc = mspFixToCanonical (rg_fix_type g) \<and> loc_hdop loc = rg_hdop g"

lemma fix_of_flags [simp]:
  "fix_of (loc\<lparr>loc_armed := a\<rparr>) g = fix_of loc g" "fix_of (loc\<lparr>loc_valid := v\<rparr>) g = fix_of loc g"
  by (simp_all add: fix_of_def)

definition fix_backed :: "(u32 \<times> msp_reply) list \<Rightarrow> fc_link \<Rightarrow> bool" where
  "fix_backed hs l \<longleftrightarrow> (\<exists>before r g. last_said reply_fix hs before (fl_lastFixMs l) r \<and>
     reply_fix r = Some g \<and> (loc_valid (fl_loc l) \<longrightarrow> rg_fix_type g \<noteq> kMspGpsNoFix) \<and>
     fix_of (fl_loc l) g)"

definition link_inv :: "(u32 \<times> msp_reply) list \<Rightarrow> fc_link \<Rightarrow> bool" where
  "link_inv hs l \<longleftrightarrow> fl_boxIds l = boxes_of hs \<and> (fl_haveStatus l \<longrightarrow> status_backed hs l) \<and>
     (if fl_everFixed l then fix_backed hs l else \<not> loc_valid (fl_loc l)) \<and>
     (loc_armed (fl_loc l) \<longrightarrow> fl_haveStatus l \<and> cached_armed l)"

lemma boxes_of_snoc [simp]:
  "boxes_of (hs @ [x]) = (case reply_boxes (snd x) of None \<Rightarrow> boxes_of hs | Some b \<Rightarrow> b)"
  by (simp add: boxes_of_def split: option.split)

subsection \<open>One reply\<close>

text \<open>The fields the invariant reads, apart from the handlers that set them.\<close>

definition same_cache :: "fc_link \<Rightarrow> fc_link \<Rightarrow> bool" where
  "same_cache l l' \<longleftrightarrow> fl_boxIds l' = fl_boxIds l \<and> fl_haveStatus l' = fl_haveStatus l \<and>
     fl_lastStatusMs l' = fl_lastStatusMs l \<and> fl_modes l' = fl_modes l \<and> fl_armedFlag l' = fl_armedFlag l \<and>
     fl_haveArmedFlag l' = fl_haveArmedFlag l \<and> fl_everFixed l' = fl_everFixed l \<and>
     fl_lastFixMs l' = fl_lastFixMs l \<and> fl_loc l' = fl_loc l"

lemma same_cache_refl [simp]: "same_cache l l"
  by (simp add: same_cache_def)

lemma same_cache_trans: "same_cache a b \<Longrightarrow> same_cache b c \<Longrightarrow> same_cache a c"
  by (simp add: same_cache_def)

lemma link_inv_cong: "same_cache l l' \<Longrightarrow> link_inv hs l' = link_inv hs l"
  by (simp add: same_cache_def link_inv_def status_backed_def fix_backed_def cached_armed_def)

lemma status_backed_cong:
  "fl_lastStatusMs l' = fl_lastStatusMs l \<Longrightarrow> fl_modes l' = fl_modes l \<Longrightarrow> cached_armed l' = cached_armed l \<Longrightarrow>
   status_backed hs l' = status_backed hs l"
  by (simp add: status_backed_def)

lemma fix_backed_cong:
  "fl_lastFixMs l' = fl_lastFixMs l \<Longrightarrow> fl_loc l' = fl_loc l \<Longrightarrow> fix_backed hs l' = fix_backed hs l"
  by (simp add: fix_backed_def)

lemma status_backed_keep: "status_backed hs l \<Longrightarrow> reply_flags r = None \<Longrightarrow> status_backed (hs @ [(t, r)]) l"
  unfolding status_backed_def using last_said_keep [of reply_flags hs _ _ _ r t] by blast

lemma fix_backed_keep: "fix_backed hs l \<Longrightarrow> reply_fix r = None \<Longrightarrow> fix_backed (hs @ [(t, r)]) l"
  unfolding fix_backed_def using last_said_keep [of reply_fix hs _ _ _ r t] by blast

lemma commands_differ [simp]:
  "kMspRawGps \<noteq> kMspStatus" "kMspStatus \<noteq> kMspRawGps" "kMspBoxIds \<noteq> kMspRawGps" "kMspRawGps \<noteq> kMspBoxIds"
  "kMspBoxIds \<noteq> kMspStatus" "kMspStatus \<noteq> kMspBoxIds" "kMspFcVariant \<noteq> kMspRawGps" "kMspFcVariant \<noteq> kMspStatus"
  "kMspFcVariant \<noteq> kMspBoxIds" "kMspFcVersion \<noteq> kMspRawGps" "kMspFcVersion \<noteq> kMspStatus"
  "kMspFcVersion \<noteq> kMspBoxIds" "kMspAltitude \<noteq> kMspRawGps" "kMspAltitude \<noteq> kMspStatus"
  "kMspAltitude \<noteq> kMspBoxIds" "kMspRc \<noteq> kMspRawGps" "kMspRc \<noteq> kMspStatus" "kMspRc \<noteq> kMspBoxIds"
  "kMspFcVersion \<noteq> kMspFcVariant" "kMspBoxIds \<noteq> kMspFcVariant" "kMspBoxIds \<noteq> kMspFcVersion"
  "kMspStatus \<noteq> kMspFcVariant" "kMspStatus \<noteq> kMspFcVersion"
  by (simp_all add: kMspRawGps_def kMspStatus_def kMspBoxIds_def kMspFcVariant_def kMspFcVersion_def
      kMspAltitude_def kMspRc_def)

lemma ucast_u8_u16_inject [simp]: "(ucast (a :: u8) :: u16) = ucast b \<longleftrightarrow> a = b"
  by (metis ucast_u8_u16)

text \<open>A reply of no kind the invariant reads.\<close>

lemma same_cache_if:
  "(c \<Longrightarrow> same_cache l a) \<Longrightarrow> (\<not> c \<Longrightarrow> same_cache l b) \<Longrightarrow> same_cache l (if c then a else b)"
  by simp

lemma same_cache_option:
  "same_cache l a \<Longrightarrow> (\<And>x. v = Some x \<Longrightarrow> same_cache l (f x)) \<Longrightarrow> same_cache l (case v of None \<Rightarrow> a | Some x \<Rightarrow> f x)"
  by (cases v) simp_all

lemma raw_gps_cases:
  "reply_fix (1, fl, ucast kMspRawGps, p) = (case decodeRawGps p of None \<Rightarrow> None | Some x \<Rightarrow> x)"
  "(case decodeRawGps p of None \<Rightarrow> None | Some x \<Rightarrow> x) = None \<Longrightarrow> handle_raw_gps now p l = l"
  subgoal by (simp add: reply_fix_def split: option.split)
  subgoal by (cases "decodeRawGps p"; cases "the (decodeRawGps p)") (simp_all add: handle_raw_gps_def)
  done

lemma other_reply:
  assumes "reply_fix r = None" "reply_flags r = None" "reply_boxes r = None"
  shows "same_cache l (handle_reply now r l)"
proof -
  obtain version fl command p where r: "r = (version, fl, command, p)" by (metis prod_cases4)
  have "handle_raw_gps now p l = l" if "version = 1" "command = ucast kMspRawGps"
    using assms(1) that by (intro raw_gps_cases(2)) (simp add: r raw_gps_cases(1))
  moreover have "handle_status now p l = l" if "version = 1" "command = ucast kMspStatus"
    using assms(2) that by (simp add: r reply_defs handle_status_def)
  moreover have "handle_inav_status now p l = l" if "version \<noteq> 1" "command = kMsp2InavStatus"
    using assms(2) that by (simp add: r reply_defs handle_inav_status_def)
  moreover have "command \<noteq> ucast kMspBoxIds" if "version = 1"
    using assms(3) that by (auto simp: r reply_defs)
  ultimately show ?thesis
    unfolding r handle_reply_def prod.case
    by (intro same_cache_if same_cache_option) (simp_all add: same_cache_def)
qed

lemma raw_gps_inv:
  assumes "link_inv hs l" "version = 1" "command = ucast kMspRawGps"
  shows "link_inv (hs @ [(now, (version, fl, command, p))]) (handle_raw_gps now p l)"
proof -
  let ?r = "(version, fl, command, p) :: msp_reply"
  have other: "reply_flags ?r = None" "reply_boxes ?r = None" using assms(2,3) by (simp_all add: reply_defs)
  show ?thesis
  proof (cases "reply_fix ?r")
    case None
    then have "handle_raw_gps now p l = l"
      by (intro raw_gps_cases(2)) (simp add: assms(2,3) raw_gps_cases(1))
    then show ?thesis
      using assms(1) other None status_backed_keep [of hs l ?r now] fix_backed_keep [of hs l ?r now]
      by (simp add: link_inv_def)
  next
    case (Some g)
    then have d: "decodeRawGps p = Some (Some g)"
      by (simp add: assms(2,3) raw_gps_cases(1) split: option.splits)
    let ?l = "handle_raw_gps now p l"
    have "last_said reply_fix (hs @ [(now, ?r)]) hs now ?r" using Some by (intro last_said_new) simp
    then have "fix_backed (hs @ [(now, ?r)]) ?l"
      unfolding fix_backed_def
      by (intro exI [of _ hs] exI [of _ ?r] exI [of _ g]) (simp add: handle_raw_gps_def d Some fix_of_def)
    moreover have "status_backed hs ?l = status_backed hs l" "cached_armed ?l = cached_armed l"
      by (simp_all add: status_backed_def cached_armed_def handle_raw_gps_def d)
    ultimately show ?thesis
      using assms(1) other status_backed_keep [of hs ?l ?r now]
      by (simp add: link_inv_def) (simp add: handle_raw_gps_def d)
  qed
qed

text \<open>What both status handlers do with the flags of a reply.\<close>

lemma status_set_inv:
  assumes "link_inv hs l" "reply_flags r = Some flags" "reply_boxes r = None" "reply_fix r = None"
    and l': "fl_modes l' = decodeActiveModes flags (fl_boxIds l)" "fl_haveStatus l'" "fl_lastStatusMs l' = now"
      "cached_armed l' = reply_armed (fl_modes l') r" "fl_boxIds l' = fl_boxIds l"
      "fl_everFixed l' = fl_everFixed l" "fl_lastFixMs l' = fl_lastFixMs l" "fl_loc l' = fl_loc l"
  shows "link_inv (hs @ [(now, r)]) (set_loc_armed l')"
proof -
  have boxes: "fl_boxIds l = boxes_of hs" using assms(1) by (simp add: link_inv_def)
  have "last_said reply_flags (hs @ [(now, r)]) hs now r" using assms(2) by (intro last_said_new) simp
  then have s: "status_backed (hs @ [(now, r)]) l'"
    unfolding status_backed_def using l' assms(2) boxes by metis
  have f: "if fl_everFixed l then fix_backed (hs @ [(now, r)]) l' else \<not> loc_valid (fl_loc l)"
    using assms(1) fix_backed_keep [OF _ assms(4), of hs l now] fix_backed_cong [OF l'(7,8)]
    by (simp add: link_inv_def)
  let ?l = "set_loc_armed l'"
  have "status_backed hs' ?l = status_backed hs' l'" "cached_armed ?l = cached_armed l'"
    "fix_backed hs' ?l = fix_backed hs' l'" for hs'
    by (simp_all add: status_backed_def fix_backed_def cached_armed_def set_loc_armed_def)
  moreover have "link_armed l' \<longrightarrow> cached_armed l'" by (simp add: link_armed_eq)
  ultimately show ?thesis
    using s f l' boxes assms(3) by (simp add: link_inv_def) (simp add: set_loc_armed_def)
qed

text \<open>The kinds of replies.\<close>

lemma reply_kinds:
  obtains (gps) fl p where "r = (1, fl, ucast kMspRawGps, p)"
  | (boxes) fl p where "r = (1, fl, ucast kMspBoxIds, p)"
  | (status) fl p flags where "r = (1, fl, ucast kMspStatus, p)" "statusModeFlags p = Some flags"
  | (inav) version fl p flags where "r = (version, fl, kMsp2InavStatus, p)" "version \<noteq> 1"
      "inavStatusModeFlags p = Some flags"
  | (other) "reply_fix r = None" "reply_flags r = None" "reply_boxes r = None"
proof -
  obtain version fl command p where r: "r = (version, fl, command, p)" by (metis prod_cases4)
  show ?thesis
  proof (cases "reply_fix r = None \<and> reply_flags r = None \<and> reply_boxes r = None")
    case False
    then consider "version = 1" "command = ucast kMspRawGps" | "version = 1" "command = ucast kMspBoxIds"
      | "version = 1" "command = ucast kMspStatus" "statusModeFlags p \<noteq> None"
      | "version \<noteq> 1" "command = kMsp2InavStatus" "inavStatusModeFlags p \<noteq> None"
      by (auto simp: r reply_defs split: if_splits)
    then show ?thesis using r gps boxes status inav by cases blast+
  qed (use other in blast)
qed

lemma handle_reply_inv:
  assumes "link_inv hs l"
  shows "link_inv (hs @ [(now, r)]) (handle_reply now r l)"
proof (cases r rule: reply_kinds)
  case (gps fl p)
  from raw_gps_inv [OF assms, of 1 "ucast kMspRawGps" now fl p] show ?thesis
    by (simp add: gps handle_reply_def)
next
  case (boxes fl p)
  let ?l = "handle_reply now r l"
  have l: "?l = l\<lparr>fl_boxIds := take kMspMaxPayload p, fl_haveBoxIds := True\<rparr>"
    by (simp add: boxes handle_reply_def)
  have "reply_fix r = None" "reply_flags r = None" "reply_boxes r = Some (take kMspMaxPayload p)"
    by (simp_all add: boxes reply_defs)
  moreover have "status_backed hs ?l = status_backed hs l" "fix_backed hs ?l = fix_backed hs l"
    "cached_armed ?l = cached_armed l"
    by (simp_all add: l status_backed_def fix_backed_def cached_armed_def)
  ultimately show ?thesis
    using assms status_backed_keep [of hs ?l r now] fix_backed_keep [of hs ?l r now]
    by (simp add: link_inv_def) (simp add: l)
next
  case (status fl p flags)
  let ?l' = "l\<lparr>fl_modes := decodeActiveModes flags (fl_boxIds l), fl_haveArmedFlag := False,
    fl_haveStatus := True, fl_lastStatusMs := now\<rparr>"
  have "link_inv (hs @ [(now, r)]) (set_loc_armed ?l')"
    by (rule status_set_inv [OF assms]) (use status in \<open>simp_all add: reply_defs cached_armed_def\<close>)
  then show ?thesis using status by (simp add: handle_reply_def handle_status_def)
next
  case (inav version fl p flags)
  let ?l1 = "l\<lparr>fl_modes := decodeActiveModes flags (fl_boxIds l)\<rparr>"
  define l' where "l' = (case inavStatusArmed p of
      Some (Some b) \<Rightarrow> ?l1\<lparr>fl_armedFlag := b, fl_haveArmedFlag := True\<rparr>
    | _ \<Rightarrow> ?l1\<lparr>fl_haveArmedFlag := False\<rparr>)\<lparr>fl_haveStatus := True, fl_lastStatusMs := now\<rparr>"
  have "cached_armed l' = reply_armed (fl_modes l') r"
    using inav by (simp add: l'_def reply_defs cached_armed_def split: option.split)
  moreover have "fl_modes l' = decodeActiveModes flags (fl_boxIds l)" "fl_haveStatus l'" "fl_lastStatusMs l' = now"
    "fl_boxIds l' = fl_boxIds l" "fl_everFixed l' = fl_everFixed l" "fl_lastFixMs l' = fl_lastFixMs l"
    "fl_loc l' = fl_loc l"
    by (simp_all add: l'_def split: option.split)
  moreover have "reply_flags r = Some flags" "reply_boxes r = None" "reply_fix r = None"
    using inav by (simp_all add: reply_defs)
  ultimately have "link_inv (hs @ [(now, r)]) (set_loc_armed l')" by (intro status_set_inv [OF assms])
  moreover have "handle_inav_status now p l = set_loc_armed l'"
    using inav by (simp add: handle_inav_status_def Let_def l'_def split: option.split)
  ultimately show ?thesis using inav by (simp add: handle_reply_def)
next
  case other
  then show ?thesis
    using assms status_backed_keep [of hs l r now] fix_backed_keep [of hs l r now]
    unfolding link_inv_cong [OF other_reply [OF other]] by (simp add: link_inv_def)
qed

subsection \<open>One service\<close>

definition same_port :: "fc_link \<Rightarrow> fc_link \<Rightarrow> bool" where
  "same_port l l' \<longleftrightarrow> fl_parser l' = fl_parser l \<and> fl_now l' = fl_now l \<and> fl_started l' = fl_started l"

lemma same_port_if: "same_port l a \<Longrightarrow> same_port l b \<Longrightarrow> same_port l (if c then a else b)"
  by simp

lemma same_port_option:
  "same_port l a \<Longrightarrow> (\<And>x. same_port l (f x)) \<Longrightarrow> same_port l (case v of None \<Rightarrow> a | Some x \<Rightarrow> f x)"
  by (cases v) simp_all

lemma handle_reply_port: "same_port l (handle_reply now r l)"
proof -
  obtain version fl command p where r: "r = (version, fl, command, p)" by (metis prod_cases4)
  have "same_port l (handle_raw_gps now p l)" "same_port l (handle_status now p l)"
    unfolding handle_raw_gps_def handle_status_def set_loc_armed_def
    by (intro same_port_option; simp add: same_port_def)+
  moreover have "same_port l (handle_inav_status now p l)"
    by (simp add: same_port_def handle_inav_status_def set_loc_armed_def Let_def split: option.split)
  ultimately show ?thesis
    unfolding r handle_reply_def prod.case
    by (intro same_port_if same_port_option) (simp_all add: same_port_def)
qed

text \<open>The values that are kept for as long as nothing newer comes.\<close>

definition kept_inv :: "(u32 \<times> msp_reply) list \<Rightarrow> fc_link \<Rightarrow> bool" where
  "kept_inv hs l \<longleftrightarrow> fl_altitudeCm l = last_of reply_altitude 0 hs \<and>
     fl_platform l = last_of reply_platform UnknownPlatform hs \<and>
     (fl_haveVariant l \<longrightarrow> (\<exists>h \<in> set hs. reply_variant (snd h) \<noteq> None)) \<and>
     length (fl_rc l) = kMspMaxRcChannels \<and> (\<forall>i < kMspMaxRcChannels. fl_rc l ! i = last_of (reply_channel i) 0 hs)"

definition same_kept :: "fc_link \<Rightarrow> fc_link \<Rightarrow> bool" where
  "same_kept l l' \<longleftrightarrow> fl_altitudeCm l' = fl_altitudeCm l \<and> fl_platform l' = fl_platform l \<and>
     fl_haveVariant l' = fl_haveVariant l \<and> fl_rc l' = fl_rc l"

lemma kept_inv_cong: "same_kept l l' \<Longrightarrow> kept_inv hs l' = kept_inv hs l"
  by (simp add: same_kept_def kept_inv_def)

lemma same_kept_trans: "same_kept a b \<Longrightarrow> same_kept b c \<Longrightarrow> same_kept a c"
  by (simp add: same_kept_def)

lemma handlers_kept:
  "same_kept l (handle_raw_gps now p l)" "same_kept l (handle_status now p l)" "same_kept l (handle_inav_status now p l)"
  by (auto simp: same_kept_def handle_raw_gps_def handle_status_def handle_inav_status_def set_loc_armed_def Let_def
      split: option.split)

text \<open>What one reply does to the kept values.\<close>

lemmas msp_ids = kMspRawGps_def kMspStatus_def kMspBoxIds_def kMspFcVariant_def kMspFcVersion_def
  kMspAltitude_def kMspRc_def kMsp2InavMixer_def kMsp2InavStatus_def

lemmas kept_defs = reply_variant_def reply_altitude_def reply_platform_def reply_channel_def

lemma same_kept_if: "(c \<Longrightarrow> same_kept l a) \<Longrightarrow> (\<not> c \<Longrightarrow> same_kept l b) \<Longrightarrow> same_kept l (if c then a else b)"
  by simp

lemma same_kept_option:
  "same_kept l a \<Longrightarrow> (\<And>x. v = Some x \<Longrightarrow> same_kept l (f x)) \<Longrightarrow> same_kept l (case v of None \<Rightarrow> a | Some x \<Rightarrow> f x)"
  by (cases v) simp_all

lemma handle_reply_values:
  defines "k \<equiv> \<lambda>now r l. handle_reply now r l"
  shows "fl_altitudeCm (k now r l) = (case reply_altitude r of None \<Rightarrow> fl_altitudeCm l | Some v \<Rightarrow> v) \<and>
    fl_platform (k now r l) = (case reply_platform r of None \<Rightarrow> fl_platform l | Some v \<Rightarrow> v) \<and>
    (fl_haveVariant (k now r l) \<longrightarrow> fl_haveVariant l \<or> reply_variant r \<noteq> None) \<and>
    (length (fl_rc l) = kMspMaxRcChannels \<longrightarrow> length (fl_rc (k now r l)) = kMspMaxRcChannels \<and>
       (\<forall>i < kMspMaxRcChannels. fl_rc (k now r l) ! i = (case reply_channel i r of None \<Rightarrow> fl_rc l ! i | Some v \<Rightarrow> v)))"
proof -
  obtain version fl command p where r: "r = (version, fl, command, p)" by (metis prod_cases4)
  consider (altitude) "version = 1" "command = ucast kMspAltitude" | (rc) "version = 1" "command = ucast kMspRc"
    | (variant) "version = 1" "command = ucast kMspFcVariant" | (platform) "version \<noteq> 1" "command = kMsp2InavMixer"
    | (other) "version = 1 \<longrightarrow> command \<notin> {ucast kMspAltitude, ucast kMspRc, ucast kMspFcVariant}"
      "version \<noteq> 1 \<longrightarrow> command \<noteq> kMsp2InavMixer" by blast
  then show ?thesis
  proof cases
    case other
    then have "same_kept l (handle_reply now r l)"
      unfolding r handle_reply_def prod.case
      by (intro same_kept_if same_kept_option handlers_kept) (auto simp: same_kept_def)
    moreover have "reply_altitude r = None" "reply_platform r = None" "reply_channel i r = None" for i
      using other by (auto simp: r kept_defs)
    ultimately show ?thesis by (simp add: same_kept_def k_def)
  next
    case rc
    obtain cs where cs: "decodeRc p 16 = Some cs" "length cs \<le> 16" using decodeRc_some [of p 16] by auto
    have "k now r l = l\<lparr>fl_rc := cs @ drop (length cs) (fl_rc l)\<rparr>"
      using rc cs by (simp add: k_def r handle_reply_def msp_ids)
    moreover have "reply_channel i r = (if i < length cs then Some (cs ! i) else None)" for i
      using rc cs by (simp add: r reply_channel_def)
    moreover have "reply_altitude r = None" "reply_platform r = None" using rc by (simp_all add: r kept_defs msp_ids)
    ultimately show ?thesis using cs(2) by (auto simp: nth_append)
  qed (auto simp: k_def r kept_defs handle_reply_def msp_ids split: option.split)
qed

lemma handle_reply_kept: "kept_inv hs l \<Longrightarrow> kept_inv (hs @ [(now, r)]) (handle_reply now r l)"
proof -
  assume k: "kept_inv hs l"
  note v = handle_reply_values [of now r l]
  have "length (fl_rc l) = kMspMaxRcChannels" using k by (simp add: kept_inv_def)
  note rc = v [THEN conjunct2, THEN conjunct2, THEN conjunct2, rule_format, OF this]
  show ?thesis
    unfolding kept_inv_def using k v rc by (simp add: kept_inv_def last_of_snoc cong: option.case_cong) auto
qed

lemma link_inv_parser: "link_inv hs (l\<lparr>fl_parser := p\<rparr>) = link_inv hs l"
  by (rule link_inv_cong) (simp add: same_cache_def)

lemma kept_inv_parser: "kept_inv hs (l\<lparr>fl_parser := p\<rparr>) = kept_inv hs l"
  by (rule kept_inv_cong) (simp add: same_kept_def)

text \<open>The drain hands the replies the parser reports to the link, in order, and leaves what lies
  beyond its budget on the port: what every reply keeps, the drain keeps.\<close>

lemma drain_keeps:
  assumes reply: "\<And>hs l r. P hs l \<Longrightarrow> P (hs @ [(now, r)]) (handle_reply now r l)"
    and parser: "\<And>hs l p. P hs (l\<lparr>fl_parser := p\<rparr>) = P hs l"
    and "P hs l" "link_drain n now rx l = (l', rest)"
  shows "P (hs @ map (Pair now) (snd (msp_run (fl_parser l) (take n rx)))) l' \<and>
    fl_parser l' = fst (msp_run (fl_parser l) (take n rx)) \<and> rest = drop n rx \<and>
    fl_now l' = fl_now l \<and> fl_started l' = fl_started l"
  using assms(3,4)
proof (induction n arbitrary: rx l hs)
  case (Suc n)
  show ?case
  proof (cases rx)
    case (Cons b rx')
    obtain p ok where f: "msp_feed (fl_parser l) b = (p, ok)" by fastforce
    let ?l = "l\<lparr>fl_parser := p\<rparr>"
    have d: "link_drain n now rx' (if ok then handleFrame now ?l else ?l) = (l', rest)"
      using Suc.prems(2) by (simp add: Cons f Let_def)
    show ?thesis
    proof (cases ok)
      case False
      have "P hs ?l" using Suc.prems(1) by (simp add: parser)
      from Suc.IH [OF this] d False show ?thesis by (simp add: Cons f Let_def split: prod.split)
    next
      case True
      have i: "P (hs @ [(now, mp_reply p)]) (handleFrame now ?l)"
        unfolding handleFrame_def using reply [of hs ?l "mp_reply p"] Suc.prems(1) by (simp add: parser)
      have k: "fl_parser (handleFrame now ?l) = p" "fl_now (handleFrame now ?l) = fl_now l"
        "fl_started (handleFrame now ?l) = fl_started l"
        using handle_reply_port [of ?l now "mp_reply p"] by (simp_all add: handleFrame_def same_port_def)
      have "msp_run (fl_parser l) (take (Suc n) rx) =
          (fst (msp_run p (take n rx')), mp_reply p # snd (msp_run p (take n rx')))"
        using True by (simp add: Cons f Let_def split: prod.split)
      then have e: "snd (msp_run (fl_parser l) (take (Suc n) rx)) = mp_reply p # snd (msp_run p (take n rx'))"
        "fst (msp_run (fl_parser l) (take (Suc n) rx)) = fst (msp_run p (take n rx'))" by simp_all
      show ?thesis unfolding e using Suc.IH [OF i, of rx'] d k True by (simp add: Cons)
    qed
  qed (use Suc.prems in simp)
qed simp

lemma drain_inv:
  assumes "link_inv hs l" "kept_inv hs l" "link_drain n now rx l = (l', rest)"
  shows "link_inv (hs @ map (Pair now) (snd (msp_run (fl_parser l) (take n rx)))) l' \<and>
    kept_inv (hs @ map (Pair now) (snd (msp_run (fl_parser l) (take n rx)))) l' \<and>
    rest = drop n rx \<and> fl_now l' = fl_now l \<and> fl_started l' = fl_started l"
  using drain_keeps [of "\<lambda>hs l. link_inv hs l \<and> kept_inv hs l" now, OF _ _ _ assms(3)] assms(1,2)
    handle_reply_inv handle_reply_kept by (simp add: link_inv_parser kept_inv_parser)

text \<open>A schedule changes its own clock only.\<close>

lemma schedules_cache:
  "r \<in> set (link_schedules now) \<Longrightarrow> same_cache l (fst (r l)) \<and> fl_now (fst (r l)) = fl_now l \<and>
     fl_started (fst (r l)) = fl_started l \<and> fl_parser (fst (r l)) = fl_parser l \<and> same_kept l (fst (r l))"
  by (simp only: link_schedules_def list.set insert_iff empty_iff simp_thms, elim disjE)
    (simp_all add: req_ident_def req_boxids_def req_gps_def req_status_def req_altitude_def req_rc_def same_cache_def same_kept_def)

lemma requests_cache:
  "set rs \<subseteq> set (link_schedules now) \<Longrightarrow> link_requests rs l = (l', out) \<Longrightarrow>
     same_cache l l' \<and> fl_now l' = fl_now l \<and> fl_started l' = fl_started l \<and> fl_parser l' = fl_parser l \<and>
     same_kept l l'"
proof (induction rs arbitrary: l l' out)
  case (Cons r rs)
  obtain l1 o1 where r: "r l = (l1, o1)" by fastforce
  obtain l2 o2 where rest: "link_requests rs l1 = (l2, o2)" by fastforce
  have "same_cache l l1 \<and> fl_now l1 = fl_now l \<and> fl_started l1 = fl_started l \<and> fl_parser l1 = fl_parser l \<and>
      same_kept l l1"
    using schedules_cache [of r now l] Cons.prems(1) r by simp
  with Cons.IH [OF _ rest] Cons.prems r rest same_cache_trans [of l l1 l2] same_kept_trans [of l l1 l2]
  show ?case by simp
qed (simp add: same_kept_def)

text \<open>What the cache still claims after a service is young enough.\<close>

definition link_fresh :: "fc_link \<Rightarrow> bool" where
  "link_fresh l \<longleftrightarrow> (loc_armed (fl_loc l) \<longrightarrow> modesFresh l) \<and>
     (loc_valid (fl_loc l) \<longrightarrow> fl_everFixed l \<and> fl_now l - fl_lastFixMs l \<le> kFixStaleMs)"

lemma link_inv_weaken:
  assumes "link_inv hs l" "loc_valid loc \<longrightarrow> loc_valid (fl_loc l)" "loc_armed loc \<longrightarrow> loc_armed (fl_loc l)"
    and loc: "fix_of loc = fix_of (fl_loc l)"
  shows "link_inv hs (l\<lparr>fl_loc := loc\<rparr>)"
proof -
  let ?l = "l\<lparr>fl_loc := loc\<rparr>"
  have "status_backed hs ?l = status_backed hs l" "cached_armed ?l = cached_armed l"
    by (simp_all add: status_backed_def cached_armed_def)
  moreover have "fix_backed hs ?l" if f: "fix_backed hs l"
  proof -
    obtain before r g where "last_said reply_fix hs before (fl_lastFixMs l) r" "reply_fix r = Some g"
      "loc_valid (fl_loc l) \<longrightarrow> rg_fix_type g \<noteq> kMspGpsNoFix" "fix_of (fl_loc l) g"
      using f unfolding fix_backed_def by blast
    then show ?thesis
      unfolding fix_backed_def using assms(2) loc
      by (intro exI [of _ before] exI [of _ r] exI [of _ g]) simp
  qed
  ultimately show ?thesis using assms(1-3) by (simp add: link_inv_def split: if_splits)
qed

lemma expire_inv:
  assumes "link_inv hs l" "fl_now l = now"
  shows "link_inv hs (expire_cache now l) \<and> link_fresh (expire_cache now l) \<and>
    fl_now (expire_cache now l) = now \<and> fl_started (expire_cache now l) = fl_started l \<and>
    same_kept l (expire_cache now l)"
proof -
  define l1 where "l1 = (if fl_everFixed l \<and> now - fl_lastFixMs l > kFixStaleMs
    then l\<lparr>fl_loc := (fl_loc l)\<lparr>loc_valid := False\<rparr>\<rparr> else l)"
  have e: "expire_cache now l = (if \<not> modesFresh l1 then l1\<lparr>fl_loc := (fl_loc l1)\<lparr>loc_armed := False\<rparr>\<rparr> else l1)"
    by (simp add: expire_cache_def l1_def Let_def)
  have v: "link_inv hs (l\<lparr>fl_loc := (fl_loc l)\<lparr>loc_valid := False\<rparr>\<rparr>)"
    by (rule link_inv_weaken [OF assms(1)]) (simp_all add: fun_eq_iff)
  have a: "link_inv hs (l1\<lparr>fl_loc := (fl_loc l1)\<lparr>loc_armed := False\<rparr>\<rparr>)" if "link_inv hs l1"
    by (rule link_inv_weaken [OF that]) (simp_all add: fun_eq_iff)
  have f: "fl_now l1 = now" "fl_started l1 = fl_started l"
    "loc_valid (fl_loc l1) \<Longrightarrow> fl_everFixed l1 \<and> now - fl_lastFixMs l1 \<le> kFixStaleMs"
    using assms by (auto simp: l1_def link_inv_def split: if_splits)
  have "link_inv hs l1" using v assms(1) by (simp add: l1_def)
  moreover have "same_kept l (expire_cache now l)" by (simp add: e l1_def same_kept_def)
  ultimately show ?thesis using a f by (auto simp: e link_fresh_def modesFresh_def)
qed

lemma link_service_inv:
  assumes "link_inv hs l" "kept_inv hs l" "fl_started l" "link_service now rx l = (l', out, rest)"
  shows "link_inv (hs @ map (Pair now) (snd (msp_run (fl_parser l) (take 256 rx)))) l' \<and>
    kept_inv (hs @ map (Pair now) (snd (msp_run (fl_parser l) (take 256 rx)))) l' \<and> link_fresh l' \<and>
    fl_now l' = now \<and> fl_started l' \<and> rest = drop 256 rx"
proof -
  let ?l = "l\<lparr>fl_now := now\<rparr>" and ?hs = "hs @ map (Pair now) (snd (msp_run (fl_parser l) (take 256 rx)))"
  obtain l1 r1 where d: "link_drain 256 now rx ?l = (l1, r1)" by fastforce
  obtain l2 o2 where q: "link_requests (link_schedules now) l1 = (l2, o2)" by fastforce
  have r: "l' = expire_cache now l2" "rest = r1"
    using assms(3,4) by (simp_all add: link_service_def d q)
  have "link_inv hs ?l" "kept_inv hs ?l"
    using assms(1,2) link_inv_cong [of l ?l] kept_inv_cong [of l ?l] by (simp_all add: same_cache_def same_kept_def)
  from drain_inv [OF this d] requests_cache [OF subset_refl q] link_inv_cong [of l1 l2] kept_inv_cong [of l1 l2]
  have i: "link_inv ?hs l2" "kept_inv ?hs l2" "fl_now l2 = now" "fl_started l2" "r1 = drop 256 rx"
    using assms(3) by simp_all
  note e = expire_inv [OF i(1,3)]
  have "kept_inv ?hs (expire_cache now l2)" using e i(2) kept_inv_cong by blast
  with e i(4,5) show ?thesis unfolding r by simp
qed

lemma link_start: "link_inv [] (link_begin MspFcLink)" "link_fresh (link_begin MspFcLink)" "fl_started (link_begin MspFcLink)"
  "kept_inv [] (link_begin MspFcLink)"
  by (simp_all add: link_inv_def link_fresh_def link_begin_def MspFcLink_def boxes_of_def NodeLocation_def kept_inv_def)

lemma command_cache:
  "link_command c l = (l', out) \<Longrightarrow> same_cache l l' \<and> fl_now l' = fl_now l \<and> fl_started l' = fl_started l \<and> same_kept l l'"
  by (cases c) (auto simp: setTelemetryNeeds_def same_cache_def same_kept_def)

lemma commands_cache:
  "link_commands cs l = (l', out) \<Longrightarrow> same_cache l l' \<and> fl_now l' = fl_now l \<and> fl_started l' = fl_started l \<and> same_kept l l'"
proof (induction cs arbitrary: l l' out)
  case (Cons c cs)
  obtain l1 o1 where c: "link_command c l = (l1, o1)" by fastforce
  obtain l2 o2 where r: "link_commands cs l1 = (l2, o2)" by fastforce
  from Cons.IH [OF r] command_cache [OF c] Cons.prems c r same_cache_trans [of l l1 l2] same_kept_trans [of l l1 l2]
  show ?case by simp
qed (simp add: same_kept_def)

subsection \<open>Runs\<close>

text \<open>The link on its own: services, each with the bytes the port yields, and commands. The
  history is the replies the parser reported, with the times of their services.\<close>

datatype link_event = LinkService u32 byte_list | LinkCommand fc_cmd

fun link_step :: "link_event \<Rightarrow> fc_link \<times> (u32 \<times> msp_reply) list \<Rightarrow> fc_link \<times> (u32 \<times> msp_reply) list" where
  "link_step (LinkService now rx) (l, hs) =
     (fst (link_service now rx l), hs @ map (Pair now) (snd (msp_run (fl_parser l) (take 256 rx))))"
| "link_step (LinkCommand c) (l, hs) = (fst (link_command c l), hs)"

abbreviation link_ok :: "fc_link \<times> (u32 \<times> msp_reply) list \<Rightarrow> bool" where
  "link_ok w \<equiv> link_inv (snd w) (fst w) \<and> kept_inv (snd w) (fst w) \<and> link_fresh (fst w) \<and> fl_started (fst w)"

lemma link_fresh_cong: "same_cache l l' \<Longrightarrow> fl_now l' = fl_now l \<Longrightarrow> link_fresh l' = link_fresh l"
  by (simp add: same_cache_def link_fresh_def modesFresh_def)

lemma link_step_ok: "link_ok w \<Longrightarrow> link_ok (link_step e w)"
proof (cases e)
  case (LinkService now rx)
  obtain l hs where w: "w = (l, hs)" by fastforce
  obtain l' out rest where s: "link_service now rx l = (l', out, rest)" by (metis prod_cases3)
  show "link_ok w \<Longrightarrow> ?thesis" using link_service_inv [of hs l now rx l' out rest] by (simp add: w s LinkService)
next
  case (LinkCommand c)
  obtain l hs where w: "w = (l, hs)" by fastforce
  obtain l' out where s: "link_command c l = (l', out)" by fastforce
  from command_cache [OF s] show "link_ok w \<Longrightarrow> ?thesis"
    by (simp add: w s LinkCommand link_inv_cong [of l l'] link_fresh_cong [of l l'] kept_inv_cong [of l l'])
qed

lemma link_run_ok: "link_ok w \<Longrightarrow> link_ok (fold link_step es w)"
  by (induction es arbitrary: w) (simp_all add: link_step_ok)

text \<open>What is behind an answer of the link.\<close>

definition live_status :: "(u32 \<times> msp_reply) list \<Rightarrow> fc_link \<Rightarrow> bool" where
  "live_status hs l \<longleftrightarrow> (\<exists>before t r flags modes. last_said reply_flags hs before t r \<and>
     fl_now l - t \<le> kStatusStaleMs \<and> reply_flags r = Some flags \<and>
     modes = decodeActiveModes flags (boxes_of before) \<and> link_armed l = reply_armed modes r \<and>
     gcsNavActive l = modeActive modes FC_MODE_GCSNAV \<and> headingHoldActive l = modeActive modes FC_MODE_MAG)"

definition live_fix :: "(u32 \<times> msp_reply) list \<Rightarrow> fc_link \<Rightarrow> bool" where
  "live_fix hs l \<longleftrightarrow> (\<exists>before t r g. last_said reply_fix hs before t r \<and> fl_now l - t \<le> kFixStaleMs \<and>
     reply_fix r = Some g \<and> rg_fix_type g \<noteq> kMspGpsNoFix \<and> fix_of (fl_loc l) g)"

lemma link_answers:
  assumes "link_inv hs l" "link_fresh l"
  shows "(modesFresh l \<longrightarrow> live_status hs l) \<and> (loc_armed (fl_loc l) \<longrightarrow> link_armed l) \<and>
    (loc_valid (fl_loc l) \<longrightarrow> live_fix hs l)"
proof -
  have "live_status hs l" if m: "modesFresh l"
  proof -
    have "status_backed hs l" using assms(1) m by (simp add: link_inv_def modesFresh_def)
    then obtain before r flags where b: "last_said reply_flags hs before (fl_lastStatusMs l) r"
      "reply_flags r = Some flags" "fl_modes l = decodeActiveModes flags (boxes_of before)"
      "cached_armed l = reply_armed (fl_modes l) r"
      unfolding status_backed_def by blast
    then show ?thesis
      unfolding live_status_def using m
      by (intro exI [of _ before] exI [of _ "fl_lastStatusMs l"] exI [of _ r] exI [of _ flags] exI [of _ "fl_modes l"])
        (simp add: link_armed_eq gcsNavActive_def headingHoldActive_def modesFresh_def)
  qed
  moreover have "live_fix hs l" if v: "loc_valid (fl_loc l)"
  proof -
    have "fix_backed hs l" "fl_now l - fl_lastFixMs l \<le> kFixStaleMs"
      using assms v by (auto simp: link_inv_def link_fresh_def split: if_splits)
    then show ?thesis unfolding live_fix_def fix_backed_def using v by blast
  qed
  moreover have "loc_armed (fl_loc l) \<longrightarrow> link_armed l"
    using assms by (simp add: link_inv_def link_fresh_def link_armed_eq)
  ultimately show ?thesis by blast
qed

section \<open>Properties\<close>

text \<open>C22: The link never answers out of thin air: over any run of services and commands from
  power-on, whatever bytes the port yields, an answer that the link is up, armed, in GCS NAV or in
  heading hold, and an answer to a stick, rests on the last status reply of the history, no more
  than a second old, and the modes and the arm state are exactly those which that reply and the box
  list before it spell out; the armed flag of the position is the link's; a position that is claimed
  valid is, with its altitude, speed, course, satellites and fix, that of the last GPS reply, which
  had a fix and is no more than two seconds old. The position of a stick, the altitude and the
  platform are those of the last reply that carries them, which may be of any age: a poll that was
  missed leaves them as they were.\<close>

theorem link_answers_backed:
  "let (l, hs) = fold link_step es (link_begin MspFcLink, [])
   in (link_connected l \<or> link_armed l \<or> gcsNavActive l \<or> headingHoldActive l \<or> rcChannelUs l ch \<noteq> None \<longrightarrow> live_status hs l) \<and>
      (link_connected l \<longrightarrow> (\<exists>h \<in> set hs. reply_variant (snd h) \<noteq> None)) \<and>
      (loc_armed (fl_loc l) \<longrightarrow> link_armed l) \<and> (loc_valid (fl_loc l) \<longrightarrow> live_fix hs l) \<and>
      (rcChannelUs l ch \<noteq> None \<longrightarrow> 1 \<le> ch \<and> ch \<le> 16 \<and> link_connected l \<and>
         rcChannelUs l ch = Some (last_of (reply_channel (unat ch - 1)) 0 hs)) \<and>
      fl_altitudeCm l = last_of reply_altitude 0 hs \<and> fl_platform l = last_of reply_platform UnknownPlatform hs"
proof -
  obtain l hs where w: "fold link_step es (link_begin MspFcLink, []) = (l, hs)" by fastforce
  have i: "link_inv hs l" "link_fresh l" and k: "kept_inv hs l"
    using link_run_ok [of "(link_begin MspFcLink, [])" es] link_start by (simp_all add: w)
  have rc: "1 \<le> ch \<and> ch \<le> 16 \<and> link_connected l \<and> rcChannelUs l ch = Some (last_of (reply_channel (unat ch - 1)) 0 hs)"
    if "rcChannelUs l ch \<noteq> None"
  proof -
    have c: "\<not> ch < 1" "\<not> 16 < unat ch" "link_connected l" "rcChannelUs l ch = Some (fl_rc l ! (unat ch - 1))"
      using that by (auto simp: rcChannelUs_def split: if_splits)
    then have "unat ch - 1 < 16" "ch \<le> 16" by (simp_all add: word_le_nat_alt)
    moreover have "1 \<le> ch" using c(1) by (simp only: not_less)
    ultimately show ?thesis using c k by (simp add: kept_inv_def)
  qed
  have "link_connected l \<longrightarrow> (\<exists>h \<in> set hs. reply_variant (snd h) \<noteq> None)"
    using k by (simp add: link_connected_def kept_inv_def)
  moreover have "link_connected l \<or> link_armed l \<or> gcsNavActive l \<or> headingHoldActive l \<or> rcChannelUs l ch \<noteq> None \<longrightarrow> modesFresh l"
    using rc by (auto simp: link_armed_eq gcsNavActive_def headingHoldActive_def link_connected_def)
  ultimately show ?thesis
    unfolding w Let_def prod.case using link_answers [OF i] rc k by (simp only: kept_inv_def) blast
qed

definition sample_fix :: fc_raw_gps where
  "sample_fix = \<lparr>rg_fix_type = 2, rg_num_sat = 9, rg_lat = 470000000, rg_lon = 80000000, rg_alt_m = 490,
     rg_speed_cms = 0, rg_course_ddeg = 0, rg_hdop = 120\<rparr>"

theorem link_answers_backed_witness:
  "let (l, hs) = fold link_step [LinkService 1000 (v1_frame 0x3E 106 (raw_gps_bytes sample_fix))]
         (link_begin MspFcLink, [])
   in loc_valid (fl_loc l) \<and> live_fix hs l"
proof -
  let ?w = "fold link_step [LinkService 1000 (v1_frame 0x3E 106 (raw_gps_bytes sample_fix))] (link_begin MspFcLink, [])"
  have "loc_valid (fl_loc (fst ?w))" by code_simp
  then show ?thesis
    using link_answers_backed [of "[LinkService 1000 (v1_frame 0x3E 106 (raw_gps_bytes sample_fix))]" 0]
    by (simp add: case_prod_beta Let_def)
qed

end
