(* ===== verification/Fc_Link_Out.thy ===== *)
theory Fc_Link_Out
  imports Fc_Link_Runs
begin

text \<open>
  What the link to the flight controller writes: the requests, which are paced and few, and the
  commands of Follow, which say on the wire what Follow asked for.
\<close>

section \<open>Lemmas\<close>

lemma request_frames:
  "request1 l c = (if fl_started l then [v1_frame 0x3C c []] else [])"
  "request2 l d = (if fl_started l then [v2_frame 0x3C 0 d []] else [])"
  by (simp_all add: request1_def request2_def command1_def command2_def buildMspV1_frame buildMspV2_frame
      kTxBuf_def v1_frame_def v2_frame_def)

definition gps_request :: byte_list where "gps_request = v1_frame 0x3C kMspRawGps []"
definition rc_request :: byte_list where "rc_request = v1_frame 0x3C kMspRc []"
definition altitude_request :: byte_list where "altitude_request = v1_frame 0x3C kMspAltitude []"
definition status_requests :: "byte_list list" where
  "status_requests = [v1_frame 0x3C kMspStatus [], v2_frame 0x3C 0 kMsp2InavStatus []]"

definition ident_requests :: "byte_list list" where
  "ident_requests = [v1_frame 0x3C kMspFcVariant [], v1_frame 0x3C kMspFcVersion [], v2_frame 0x3C 0 kMsp2InavMixer []]"
definition boxids_request :: byte_list where "boxids_request = v1_frame 0x3C kMspBoxIds []"

definition all_requests :: "byte_list list" where
  "all_requests = ident_requests @ boxids_request # gps_request # status_requests @ [altitude_request, rc_request]"

text \<open>The frames are told apart by their fourth and fifth bytes.\<close>

lemma v1_frame_eq [simp]: "v1_frame d a [] = v1_frame d b [] \<longleftrightarrow> a = b"
  by (auto simp: v1_frame_def v1_body_def)

lemma v1_v2_frame [simp]: "v1_frame d a p \<noteq> v2_frame d' f b q" "v2_frame d' f b q \<noteq> v1_frame d a p"
  by (auto simp: v1_frame_def v2_frame_def)

lemma v2_frame_eq: "v2_frame 0x3C 0 kMsp2InavMixer [] \<noteq> v2_frame 0x3C 0 kMsp2InavStatus []"
  "v2_frame 0x3C 0 kMsp2InavStatus [] \<noteq> v2_frame 0x3C 0 kMsp2InavMixer []"
  by code_simp+

text \<open>The clocks of the schedules.\<close>

definition clocks :: "fc_link \<Rightarrow> u32 list" where
  "clocks l = [fl_lastGpsReqMs l, fl_lastStatusReqMs l, fl_lastAltReqMs l, fl_lastRcReqMs l, fl_lastIdentReqMs l,
     fl_lastBoxIdsReqMs l]"

definition same_clocks :: "fc_link \<Rightarrow> fc_link \<Rightarrow> bool" where
  "same_clocks l l' \<longleftrightarrow> clocks l' = clocks l \<and> fl_started l' = fl_started l"

lemma same_clocks_if: "same_clocks l a \<Longrightarrow> same_clocks l b \<Longrightarrow> same_clocks l (if c then a else b)"
  by simp

lemma same_clocks_option:
  "same_clocks l a \<Longrightarrow> (\<And>x. same_clocks l (f x)) \<Longrightarrow> same_clocks l (case v of None \<Rightarrow> a | Some x \<Rightarrow> f x)"
  by (cases v) simp_all

lemma same_clocks_trans: "same_clocks a b \<Longrightarrow> same_clocks b c \<Longrightarrow> same_clocks a c"
  by (simp add: same_clocks_def)

lemma handle_reply_clocks: "same_clocks l (handle_reply now r l)"
proof -
  obtain version fl command p where r: "r = (version, fl, command, p)" by (metis prod_cases4)
  have "same_clocks l (handle_raw_gps now p l)" "same_clocks l (handle_status now p l)"
    unfolding handle_raw_gps_def handle_status_def set_loc_armed_def
    by (intro same_clocks_option; simp add: same_clocks_def clocks_def)+
  moreover have "same_clocks l (handle_inav_status now p l)"
    by (simp add: same_clocks_def clocks_def handle_inav_status_def set_loc_armed_def Let_def split: option.split)
  ultimately show ?thesis
    unfolding r handle_reply_def prod.case
    by (intro same_clocks_if same_clocks_option) (simp_all add: same_clocks_def clocks_def)
qed

lemma drain_clocks: "same_clocks l (fst (link_drain n now rx l)) \<and> snd (link_drain n now rx l) = drop n rx"
proof (induction n now rx l rule: link_drain.induct)
  case (3 n now b rx l)
  obtain p ok where f: "msp_feed (fl_parser l) b = (p, ok)" by fastforce
  have "same_clocks l (l\<lparr>fl_parser := p\<rparr>)" by (simp add: same_clocks_def clocks_def)
  then have "same_clocks l (if ok then handleFrame now (l\<lparr>fl_parser := p\<rparr>) else l\<lparr>fl_parser := p\<rparr>)"
    using same_clocks_trans [OF _ handle_reply_clocks] by (simp add: handleFrame_def)
  with "3.IH" [OF refl f [symmetric] refl] same_clocks_trans show ?case by (simp add: f Let_def)
qed (simp_all add: same_clocks_def)

lemma expire_clocks: "same_clocks l (expire_cache now l)"
  by (simp add: expire_cache_def same_clocks_def clocks_def Let_def)

text \<open>A schedule owns a clock and a set of frames, and is foreign to the others': it sends of its frames
  only when it is due, and sets its clock exactly then.\<close>

definition foreign :: "byte_list list \<Rightarrow> (fc_link \<Rightarrow> u32) \<Rightarrow> (fc_link \<Rightarrow> fc_link \<times> byte_list list) \<Rightarrow> bool" where
  "foreign frames clk r \<longleftrightarrow> (\<forall>l. clk (fst (r l)) = clk l \<and> filter (\<lambda>f. f \<in> set frames) (snd (r l)) = [] \<and>
     fl_started (fst (r l)) = fl_started l)"

definition paced :: "byte_list list \<Rightarrow> u32 \<Rightarrow> (fc_link \<Rightarrow> u32) \<Rightarrow> u32 \<Rightarrow> fc_link \<Rightarrow> fc_link \<times> byte_list list \<Rightarrow> bool" where
  "paced frames interval clk now l x \<longleftrightarrow>
     filter (\<lambda>f. f \<in> set frames) (snd x) = [] \<and> clk (fst x) = clk l \<or>
     filter (\<lambda>f. f \<in> set frames) (snd x) \<noteq> [] \<and> now - clk l \<ge> interval \<and> clk (fst x) = now"

definition own :: "byte_list list \<Rightarrow> u32 \<Rightarrow> (fc_link \<Rightarrow> u32) \<Rightarrow> u32 \<Rightarrow> (fc_link \<Rightarrow> fc_link \<times> byte_list list) \<Rightarrow> bool" where
  "own frames interval clk now r \<longleftrightarrow> (\<forall>l. fl_started l \<longrightarrow> paced frames interval clk now l (r l))"

lemma requests_foreign:
  "list_all (foreign frames clk) rs \<Longrightarrow> foreign frames clk (link_requests rs)"
proof (induction rs)
  case (Cons r rs)
  show ?case unfolding foreign_def
  proof
    fix l
    obtain l1 o1 where r: "r l = (l1, o1)" by fastforce
    obtain l2 o2 where rs: "link_requests rs l1 = (l2, o2)" by fastforce
    have "clk l1 = clk l \<and> filter (\<lambda>f. f \<in> set frames) o1 = [] \<and> fl_started l1 = fl_started l"
      using Cons.prems r unfolding list.pred_inject foreign_def by (metis fst_conv snd_conv)
    moreover have "clk l2 = clk l1 \<and> filter (\<lambda>f. f \<in> set frames) o2 = [] \<and> fl_started l2 = fl_started l1"
      using Cons rs unfolding list.pred_inject foreign_def by (metis fst_conv snd_conv)
    ultimately show "clk (fst (link_requests (r # rs) l)) = clk l \<and>
        filter (\<lambda>f. f \<in> set frames) (snd (link_requests (r # rs) l)) = [] \<and>
        fl_started (fst (link_requests (r # rs) l)) = fl_started l"
      by (simp add: r rs)
  qed
qed (simp add: foreign_def)

lemma requests_append:
  "link_requests (rs @ ss) l =
     (let (l, out) = link_requests rs l; (l, out') = link_requests ss l in (l, out @ out'))"
  by (induction rs arbitrary: l) (simp_all add: Let_def split: prod.splits)

lemma requests_own:
  assumes "list_all (foreign frames clk) before" "own frames interval clk now r" "list_all (foreign frames clk) after"
    and "fl_started l"
  shows "paced frames interval clk now l (link_requests (before @ r # after) l)"
proof -
  obtain l1 o1 where b: "link_requests before l = (l1, o1)" by fastforce
  obtain l2 o2 where r: "r l1 = (l2, o2)" by fastforce
  obtain l3 o3 where a: "link_requests after l2 = (l3, o3)" by fastforce
  have "clk l1 = clk l" "filter (\<lambda>f. f \<in> set frames) o1 = []" "fl_started l1"
    using requests_foreign [OF assms(1)] assms(4) unfolding foreign_def by (metis b fst_conv snd_conv)+
  moreover have "clk l3 = clk l2" "filter (\<lambda>f. f \<in> set frames) o3 = []"
    using requests_foreign [OF assms(3)] unfolding foreign_def by (metis a fst_conv snd_conv)+
  moreover have "paced frames interval clk now l1 (l2, o2)"
    using assms(2) calculation(3) unfolding own_def by (metis r)
  ultimately show ?thesis by (auto simp: requests_append b r a paced_def Let_def)
qed

lemmas req_defs = req_ident_def req_boxids_def req_gps_def req_status_def req_altitude_def req_rc_def
lemmas frame_defs = gps_request_def rc_request_def altitude_request_def status_requests_def ident_requests_def
  boxids_request_def
lemmas command_ids = kMspRawGps_def kMspRc_def kMspAltitude_def kMspStatus_def kMspFcVariant_def
  kMspFcVersion_def kMspBoxIds_def

lemma foreign_schedules:
  "list_all (foreign [gps_request] fl_lastGpsReqMs)
     [req_ident now, req_boxids now, req_status now, req_altitude now, req_rc now]"
  "list_all (foreign status_requests fl_lastStatusReqMs)
     [req_ident now, req_boxids now, req_gps now, req_altitude now, req_rc now]"
  "list_all (foreign [altitude_request] fl_lastAltReqMs)
     [req_ident now, req_boxids now, req_gps now, req_status now, req_rc now]"
  "list_all (foreign [rc_request] fl_lastRcReqMs)
     [req_ident now, req_boxids now, req_gps now, req_status now, req_altitude now]"
  "list_all (foreign ident_requests fl_lastIdentReqMs)
     [req_boxids now, req_gps now, req_status now, req_altitude now, req_rc now]"
  "list_all (foreign [boxids_request] fl_lastBoxIdsReqMs)
     [req_ident now, req_gps now, req_status now, req_altitude now, req_rc now]"
  by (simp_all add: foreign_def req_defs request_frames frame_defs command_ids v2_frame_eq)

lemma own_schedules:
  "own [gps_request] kGpsIntervalMs fl_lastGpsReqMs now (req_gps now)"
  "own status_requests kStatusIntervalMs fl_lastStatusReqMs now (req_status now)"
  "own [altitude_request] kAltitudeIntervalMs fl_lastAltReqMs now (req_altitude now)"
  "own [rc_request] kRcIntervalMs fl_lastRcReqMs now (req_rc now)"
  "own ident_requests kIdentRetryMs fl_lastIdentReqMs now (req_ident now)"
  "own [boxids_request] kIdentRetryMs fl_lastBoxIdsReqMs now (req_boxids now)"
  by (auto simp: own_def paced_def req_defs request_frames frame_defs due_def)

lemma service_split:
  assumes "fl_started l" "link_service now rx l = (l', out, rest)"
  obtains l1 l2 where "fl_started l1" "clocks l1 = clocks l" "link_requests (link_schedules now) l1 = (l2, out)"
    "clocks l' = clocks l2" "fl_started l' = fl_started l2" "rest = drop 256 rx"
proof -
  let ?l = "l\<lparr>fl_now := now\<rparr>"
  obtain l1 r1 where d: "link_drain 256 now rx ?l = (l1, r1)" by fastforce
  obtain l2 o2 where q: "link_requests (link_schedules now) l1 = (l2, o2)" by fastforce
  have r: "l' = expire_cache now l2" "rest = r1" "out = o2"
    using assms by (simp_all add: link_service_def d q)
  have "clocks l1 = clocks ?l" "fl_started l1" "r1 = drop 256 rx"
    using drain_clocks [of ?l 256 now rx] assms(1) by (simp_all add: d same_clocks_def)
  moreover have "clocks ?l = clocks l" by (simp add: clocks_def)
  ultimately show ?thesis
    using that [of l1 l2] q r expire_clocks [of l2 now] by (simp add: same_clocks_def)
qed

lemma service_paced:
  assumes "fl_started l" "link_service now rx l = (l', out, rest)"
  shows "paced [gps_request] kGpsIntervalMs fl_lastGpsReqMs now l (l', out)"
    "paced status_requests kStatusIntervalMs fl_lastStatusReqMs now l (l', out)"
    "paced [altitude_request] kAltitudeIntervalMs fl_lastAltReqMs now l (l', out)"
    "paced [rc_request] kRcIntervalMs fl_lastRcReqMs now l (l', out)"
    "paced ident_requests kIdentRetryMs fl_lastIdentReqMs now l (l', out)"
    "paced [boxids_request] kIdentRetryMs fl_lastBoxIdsReqMs now l (l', out)"
proof -
  obtain l1 l2 where s: "fl_started l1" "clocks l1 = clocks l" "link_requests (link_schedules now) l1 = (l2, out)"
    "clocks l' = clocks l2"
    using service_split [OF assms] by metis
  note c = s(2,4) [unfolded clocks_def list.inject]
  have own: "paced frames interval clk now l1 (l2, out)"
    if "link_schedules now = before @ r # after" "list_all (foreign frames clk) (before @ after)"
      "own frames interval clk now r" for frames interval clk before r after
  proof -
    have "paced frames interval clk now l1 (link_requests (before @ r # after) l1)"
      by (rule requests_own [OF _ that(3) _ s(1)]) (use that(2) in simp_all)
    then show ?thesis unfolding that(1) [symmetric] s(3) .
  qed
  have "paced [gps_request] kGpsIntervalMs fl_lastGpsReqMs now l1 (l2, out)"
    by (rule own [of "[req_ident now, req_boxids now]" "req_gps now" "[req_status now, req_altitude now, req_rc now]", OF _ _ own_schedules(1)])
      (use foreign_schedules(1) in \<open>simp_all add: link_schedules_def\<close>)
  then show "paced [gps_request] kGpsIntervalMs fl_lastGpsReqMs now l (l', out)" by (simp add: paced_def c)
  have "paced status_requests kStatusIntervalMs fl_lastStatusReqMs now l1 (l2, out)"
    by (rule own [of "[req_ident now, req_boxids now, req_gps now]" "req_status now" "[req_altitude now, req_rc now]", OF _ _ own_schedules(2)])
      (use foreign_schedules(2) in \<open>simp_all add: link_schedules_def\<close>)
  then show "paced status_requests kStatusIntervalMs fl_lastStatusReqMs now l (l', out)" by (simp add: paced_def c)
  have "paced [altitude_request] kAltitudeIntervalMs fl_lastAltReqMs now l1 (l2, out)"
    by (rule own [of "[req_ident now, req_boxids now, req_gps now, req_status now]" "req_altitude now" "[req_rc now]", OF _ _ own_schedules(3)])
      (use foreign_schedules(3) in \<open>simp_all add: link_schedules_def\<close>)
  then show "paced [altitude_request] kAltitudeIntervalMs fl_lastAltReqMs now l (l', out)" by (simp add: paced_def c)
  have "paced [rc_request] kRcIntervalMs fl_lastRcReqMs now l1 (l2, out)"
    by (rule own [of "[req_ident now, req_boxids now, req_gps now, req_status now, req_altitude now]" "req_rc now" "[]", OF _ _ own_schedules(4)])
      (use foreign_schedules(4) in \<open>simp_all add: link_schedules_def\<close>)
  then show "paced [rc_request] kRcIntervalMs fl_lastRcReqMs now l (l', out)" by (simp add: paced_def c)
  have "paced ident_requests kIdentRetryMs fl_lastIdentReqMs now l1 (l2, out)"
    by (rule own [of "[]" "req_ident now" "[req_boxids now, req_gps now, req_status now, req_altitude now, req_rc now]", OF _ _ own_schedules(5)])
      (use foreign_schedules(5) in \<open>simp_all add: link_schedules_def\<close>)
  then show "paced ident_requests kIdentRetryMs fl_lastIdentReqMs now l (l', out)" by (simp add: paced_def c)
  have "paced [boxids_request] kIdentRetryMs fl_lastBoxIdsReqMs now l1 (l2, out)"
    by (rule own [of "[req_ident now]" "req_boxids now" "[req_gps now, req_status now, req_altitude now, req_rc now]", OF _ _ own_schedules(6)])
      (use foreign_schedules(6) in \<open>simp_all add: link_schedules_def\<close>)
  then show "paced [boxids_request] kIdentRetryMs fl_lastBoxIdsReqMs now l (l', out)" by (simp add: paced_def c)
qed

text \<open>What one service writes: each request at most once, and one of the two for the status.\<close>

definition service_ok :: "byte_list list \<Rightarrow> bool" where
  "service_ok out \<longleftrightarrow> distinct out \<and> set out \<subseteq> set all_requests \<and> \<not> set status_requests \<subseteq> set out"

definition writes_of :: "byte_list list \<Rightarrow> byte_list list \<Rightarrow> bool" where
  "writes_of frames out \<longleftrightarrow> distinct out \<and> set out \<subseteq> set frames"

lemma writes_of_append:
  "writes_of f out \<Longrightarrow> writes_of g out' \<Longrightarrow> set f \<inter> set g = {} \<Longrightarrow> writes_of (f @ g) (out @ out')"
  by (auto simp: writes_of_def)

lemma req_frames:
  "writes_of ident_requests (snd (req_ident now l))" "writes_of [boxids_request] (snd (req_boxids now l))"
  "writes_of [gps_request] (snd (req_gps now l))"
  "writes_of status_requests (snd (req_status now l)) \<and> \<not> set status_requests \<subseteq> set (snd (req_status now l))"
  "writes_of [altitude_request] (snd (req_altitude now l))" "writes_of [rc_request] (snd (req_rc now l))"
  by (auto simp: writes_of_def req_defs request_frames frame_defs command_ids)

lemma requests_differ:
  "distinct all_requests"
  by (simp add: all_requests_def frame_defs command_ids v2_frame_eq)

lemma service_writes:
  assumes "fl_started l" "link_service now rx l = (l', out, rest)"
  shows "service_ok out" "fl_started l'" "rest = drop 256 rx"
proof -
  obtain l1 l2 where s: "fl_started l1" "link_requests (link_schedules now) l1 = (l2, out)"
    "fl_started l' = fl_started l2" "rest = drop 256 rx"
    using service_split [OF assms] by metis
  obtain a oa where a: "req_ident now l1 = (a, oa)" by fastforce
  obtain b ob where b: "req_boxids now a = (b, ob)" by fastforce
  obtain c oc where c: "req_gps now b = (c, oc)" by fastforce
  obtain d od where d: "req_status now c = (d, od)" by fastforce
  obtain e oe where e: "req_altitude now d = (e, oe)" by fastforce
  obtain f of' where f: "req_rc now e = (f, of')" by fastforce
  have "out = oa @ ob @ oc @ od @ oe @ of'" "l2 = f"
    using s(2) by (simp_all add: link_schedules_def a b c d e f)
  moreover have w: "writes_of ident_requests oa" "writes_of [boxids_request] ob" "writes_of [gps_request] oc"
    "writes_of status_requests od" "\<not> set status_requests \<subseteq> set od" "writes_of [altitude_request] oe" "writes_of [rc_request] of'"
    using req_frames(1) [of now l1] req_frames(2) [of now a] req_frames(3) [of now b] req_frames(4) [of now c]
      req_frames(5) [of now d] req_frames(6) [of now e] by (simp_all add: a b c d e f)
  moreover have d: "set ident_requests \<inter> set ([boxids_request] @ [gps_request] @ status_requests @ [altitude_request] @ [rc_request]) = {}"
    "set [boxids_request] \<inter> set ([gps_request] @ status_requests @ [altitude_request] @ [rc_request]) = {}"
    "set [gps_request] \<inter> set (status_requests @ [altitude_request] @ [rc_request]) = {}"
    "set status_requests \<inter> set ([altitude_request] @ [rc_request]) = {}" "set [altitude_request] \<inter> set [rc_request] = {}"
    using requests_differ unfolding all_requests_def by auto
  then have "writes_of all_requests (oa @ ob @ oc @ od @ oe @ of')"
    using writes_of_append [OF w(1) writes_of_append [OF w(2) writes_of_append [OF w(3) writes_of_append [OF w(4)
      writes_of_append [OF w(6,7)]]]]] by (simp add: all_requests_def)
  moreover have "\<not> set status_requests \<subseteq> set (oa @ ob @ oc @ od @ oe @ of')"
    using w d unfolding writes_of_def set_append by blast
  ultimately show "service_ok out" by (simp add: service_ok_def writes_of_def)
  have "foreign [] (\<lambda>_. 0) (link_requests (link_schedules now))"
    by (rule requests_foreign) (simp add: link_schedules_def foreign_def req_defs)
  then show "fl_started l'" using s unfolding foreign_def by (metis fst_conv)
  show "rest = drop 256 rx" by (rule s(4))
qed

text \<open>The writes of a run, service by service, and the times of those that sent frames of a set.\<close>

fun link_writes :: "link_event list \<Rightarrow> fc_link \<Rightarrow> (u32 \<times> byte_list list) list" where
  "link_writes [] l = []"
| "link_writes (LinkService now rx # es) l =
     (let (l, out, rest) = link_service now rx l in (now, out) # link_writes es l)"
| "link_writes (LinkCommand c # es) l = link_writes es (fst (link_command c l))"

definition sent_at :: "byte_list list \<Rightarrow> (u32 \<times> byte_list list) list \<Rightarrow> u32 list" where
  "sent_at frames trace = map fst (filter (\<lambda>(now, out). \<exists>f \<in> set out. f \<in> set frames) trace)"

lemma sent_at_Cons:
  "paced frames interval clk now l (l', out) \<Longrightarrow>
     sent_at frames ((now, out) # trace) = sent_at frames trace \<and> clk l' = clk l \<or>
     sent_at frames ((now, out) # trace) = now # sent_at frames trace \<and> now - clk l \<ge> interval \<and> clk l' = now"
  by (auto simp: paced_def sent_at_def filter_empty_conv)

lemma writes_spaced:
  assumes step: "\<And>l now rx l' out rest. fl_started l \<Longrightarrow> link_service now rx l = (l', out, rest) \<Longrightarrow>
      paced frames interval clk now l (l', out)"
    and command: "\<And>c l. clk (fst (link_command c l)) = clk l"
  shows "fl_started l \<Longrightarrow> successively (\<lambda>a b. b - a \<ge> interval) (clk l # sent_at frames (link_writes es l))"
proof (induction es arbitrary: l)
  case (Cons e es)
  show ?case
  proof (cases e)
    case (LinkService now rx)
    obtain l' out rest where s: "link_service now rx l = (l', out, rest)" by (metis prod_cases3)
    have "fl_started l'" by (rule service_writes(2) [OF Cons.prems s])
    from Cons.IH [OF this] sent_at_Cons [OF step [OF Cons.prems s], of "link_writes es l'"]
    show ?thesis by (auto simp: LinkService s)
  next
    case (LinkCommand c)
    have "fl_started (fst (link_command c l))" using command_cache [of c l] Cons.prems by (metis prod.collapse)
    from Cons.IH [OF this] command show ?thesis by (simp add: LinkCommand)
  qed
qed (simp add: sent_at_def)

lemma writes_ok: "fl_started l \<Longrightarrow> list_all (\<lambda>(now, out). service_ok out) (link_writes es l)"
proof (induction es arbitrary: l)
  case (Cons e es)
  show ?case
  proof (cases e)
    case (LinkService now rx)
    obtain l' out rest where s: "link_service now rx l = (l', out, rest)" by (metis prod_cases3)
    from Cons.IH [OF service_writes(2) [OF Cons.prems s]] service_writes(1) [OF Cons.prems s]
    show ?thesis by (simp add: LinkService s)
  next
    case (LinkCommand c)
    have "fl_started (fst (link_command c l))" using command_cache [of c l] Cons.prems by (metis prod.collapse)
    from Cons.IH [OF this] show ?thesis by (simp add: LinkCommand)
  qed
qed simp

lemma command_clocks: "clocks (fst (link_command c l)) = clocks l"
  by (cases c) (simp_all add: setTelemetryNeeds_def clocks_def)

section \<open>Properties\<close>

text \<open>C23: The link does not flood the flight controller: over any run of services and commands,
  however fast the main loop spins and whatever it receives, the services that send a GPS request
  are at least 200 ms apart, those that send a status, an altitude or an RC request at least 100 ms,
  and those that ask for the identity or for the box list at least a second, each measured on the
  wrapping clock; a service writes nothing but these requests, none twice, and one kind of status
  request only.\<close>

theorem requests_paced:
  "let trace = link_writes es (link_begin MspFcLink)
   in successively (\<lambda>a b. b - a \<ge> 200) (sent_at [gps_request] trace) \<and>
      successively (\<lambda>a b. b - a \<ge> 100) (sent_at status_requests trace) \<and>
      successively (\<lambda>a b. b - a \<ge> 100) (sent_at [altitude_request] trace) \<and>
      successively (\<lambda>a b. b - a \<ge> 100) (sent_at [rc_request] trace) \<and>
      successively (\<lambda>a b. b - a \<ge> 1000) (sent_at ident_requests trace) \<and>
      successively (\<lambda>a b. b - a \<ge> 1000) (sent_at [boxids_request] trace) \<and>
      list_all (\<lambda>(now, out). distinct out \<and> set out \<subseteq> set all_requests \<and> \<not> set status_requests \<subseteq> set out) trace"
proof -
  let ?l = "link_begin MspFcLink"
  have st: "fl_started ?l" by (simp add: link_begin_def)
  have tail: "successively P (a # xs) \<Longrightarrow> successively P xs" for P and a :: u32 and xs by (cases xs) simp_all
  have c: "fl_lastGpsReqMs (fst (link_command c l)) = fl_lastGpsReqMs l"
    "fl_lastStatusReqMs (fst (link_command c l)) = fl_lastStatusReqMs l"
    "fl_lastAltReqMs (fst (link_command c l)) = fl_lastAltReqMs l"
    "fl_lastRcReqMs (fst (link_command c l)) = fl_lastRcReqMs l"
    "fl_lastIdentReqMs (fst (link_command c l)) = fl_lastIdentReqMs l"
    "fl_lastBoxIdsReqMs (fst (link_command c l)) = fl_lastBoxIdsReqMs l" for c l
    using command_clocks [of c l] by (simp_all add: clocks_def)
  note s = tail [OF writes_spaced [OF service_paced(1) c(1) st]] tail [OF writes_spaced [OF service_paced(2) c(2) st]]
    tail [OF writes_spaced [OF service_paced(3) c(3) st]] tail [OF writes_spaced [OF service_paced(4) c(4) st]]
    tail [OF writes_spaced [OF service_paced(5) c(5) st]] tail [OF writes_spaced [OF service_paced(6) c(6) st]]
  show ?thesis
    using s [unfolded kGpsIntervalMs_def kStatusIntervalMs_def kAltitudeIntervalMs_def kRcIntervalMs_def kIdentRetryMs_def]
      writes_ok [OF st, unfolded service_ok_def] by (simp add: Let_def)
qed

text \<open>C24: A command says on the wire what Follow asked for: the waypoint goes out as one version 1
  request, number 255 with action 1, from which the receiver reads back the same position, altitude
  and heading; the heading likewise; and a variable goes out as one version 2 request with the same
  index and value, to an INAV of version 9 or later only.\<close>

theorem commands_on_wire:
  assumes "fl_started l"
  shows "(\<exists>p. sendFollowWaypoint l lat lon alt heading = [v1_frame 0x3C 209 p] \<and>
      do { (wp, q) \<leftarrow> get_u8 p; (action, q) \<leftarrow> get_u8 q; (a, q) \<leftarrow> get_i32 q; (b, q) \<leftarrow> get_i32 q;
           (c, q) \<leftarrow> get_i32 q; (p1, q) \<leftarrow> get_i16 q; (p2, q) \<leftarrow> get_i16 q; (p3, q) \<leftarrow> get_i16 q;
           (flags, q) \<leftarrow> get_u8 q; Some (wp, action, a, b, c, p1, p2, p3, flags, q) } =
      Some (255, 1, lat, lon, alt, heading, 0, 0, 0, [])) \<and>
    (\<exists>p. sendSetHead l heading = [v1_frame 0x3C 211 p] \<and> get_i16 p = Some (heading, [])) \<and>
    (if isInav l \<and> fl_haveVersion l \<and> fv_major (fl_version l) \<ge> 9
     then \<exists>p. sendGvar l index value = [v2_frame 0x3C 0 0x2214 p] \<and>
       do { (i, q) \<leftarrow> get_u8 p; (v, q) \<leftarrow> get_i32 q; Some (i, v, q) } = Some (index, value, [])
     else sendGvar l index value = [])"
proof -
  have w: "encodeSetWp 255 1 lat lon alt heading 0 0 0 21 =
      put_u8 [] 255 @ put_u8 [] 1 @ put_i32 [] lat @ put_i32 [] lon @ put_i32 [] alt @ put_i16 [] heading @
      put_i16 [] 0 @ put_i16 [] 0 @ put_u8 [] 0"
    by (simp add: encodeSetWp_def Let_def put_cursor [of "_ @ _"] put_cursor [of "put_u8 _ _"] put_cursor [of "put_i32 _ _"]
        put_cursor [of "put_i16 _ _"])
  have g: "encodeSetGvar index value 5 = put_u8 [] index @ put_i32 [] value"
    by (simp add: encodeSetGvar_def put_cursor(5) [of "put_u8 [] index"])
  have e: "get_u8 (put_u8 [] v) = Some (v, [])" "get_i16 (put_i16 [] x) = Some (x, [])"
    "get_i32 (put_i32 [] y) = Some (y, [])" for v x y
    using get_put_u8 [of v "[]"] get_put_i16 [of x "[]"] get_put_i32 [of y "[]"] by simp_all
  have n: "v1_frame d k p \<noteq> []" "v2_frame d z k' p \<noteq> []" for d k p z k'
    by (simp_all add: v1_frame_def v2_frame_def)
  show ?thesis
    using assms
    by (auto simp: sendFollowWaypoint_def sendSetHead_def sendGvar_def command1_def command2_def Let_def
        buildMspV1_frame buildMspV2_frame kMspFollowWaypoint_def kMspWpActionWaypoint_def w g e n encodeSetHead_def
        kMspSetWp_def kMspSetHead_def kMsp2InavSetGvar_def kTxBuf_def wire_simps not_less)
qed

theorem commands_on_wire_witness:
  "\<exists>p. sendSetHead (link_begin MspFcLink) 90 = [v1_frame 0x3C 211 p] \<and> get_i16 p = Some (90, [])"
  using commands_on_wire [of "link_begin MspFcLink" 0 0 0 90 0 0] by (simp add: link_begin_def)

end
