(* ===== verification/Hw_Layout.thy ===== *)
theory Hw_Layout
  imports Config "HOL-Library.While_Combinator"
begin

text \<open>
  lib/ff_core/hw_layout.h and hw_layout.cpp: the board's pin map, the parser of its JSON layout and
  the choice of the transmit power; and src/hal/HardwareConfig.cpp, which finds the layout. The
  JSON parser is third-party code and a parameter, as are the flash and the file system. A C
  \<open>int\<close> that holds a pin, a level or a power is an \<open>int\<close>: none of them comes near its width.
\<close>

section \<open>Types\<close>

datatype layout_source = NoLayout | Compiled | Trailer | LayoutFile

definition layoutSourceName :: "layout_source \<Rightarrow> string" where
  "layoutSourceName s =
     (case s of Compiled \<Rightarrow> ''compiled'' | Trailer \<Rightarrow> ''firmware'' | LayoutFile \<Rightarrow> ''hardware.json''
      | NoLayout \<Rightarrow> ''none'')"

definition kPinNone :: int where "kPinNone = - 1"
definition kPowerLevels :: nat where [simp]: "kPowerLevels = 8"

record radio_pins =
  rp_nss :: int
  rp_rst :: int
  rp_dio0 :: int
  rp_dio1 :: int
  rp_busy :: int
  rp_rxen :: int
  rp_txen :: int

definition RadioPins :: radio_pins where
  "RadioPins = \<lparr>rp_nss = kPinNone, rp_rst = kPinNone, rp_dio0 = kPinNone, rp_dio1 = kPinNone,
     rp_busy = kPinNone, rp_rxen = kPinNone, rp_txen = kPinNone\<rparr>"

record hardware_layout =
  hw_source :: layout_source
  hw_product_name :: byte_list
  hw_device_name :: byte_list
  hw_serial_rx :: int
  hw_serial_tx :: int
  hw_radio_sck :: int
  hw_radio_miso :: int
  hw_radio_mosi :: int
  hw_radio :: "radio_pins list"
  hw_radio_rfo_hf :: bool
  hw_radio_dcdc :: bool
  hw_radio_tcxo :: int
  hw_radio_rfsw_ctrl :: byte_list
  hw_radio_rfsw_ctrl_count :: nat
  hw_power_enable :: int
  hw_ant_ctrl :: int
  hw_power_lna_gain :: i8
  hw_has_power_table :: bool
  hw_power_min :: nat
  hw_power_max :: nat
  hw_power_default :: nat
  hw_power_values :: "i16 list"
  hw_power_values_count :: nat
  hw_power_values_dual :: "i16 list"
  hw_power_values_dual_count :: nat
  hw_has_power :: bool
  hw_power_dbm :: i8
  hw_led :: int
  hw_button :: int
  hw_default_band :: u16
  hw_flashed_name :: byte_list
  hw_flashed_passphrase :: byte_list

definition HardwareLayout :: hardware_layout where
  "HardwareLayout = \<lparr>hw_source = NoLayout, hw_product_name = replicate 129 0,
     hw_device_name = replicate 17 0, hw_serial_rx = kPinNone, hw_serial_tx = kPinNone,
     hw_radio_sck = kPinNone, hw_radio_miso = kPinNone, hw_radio_mosi = kPinNone,
     hw_radio = [RadioPins, RadioPins], hw_radio_rfo_hf = False, hw_radio_dcdc = True,
     hw_radio_tcxo = - 1, hw_radio_rfsw_ctrl = replicate 8 0, hw_radio_rfsw_ctrl_count = 0,
     hw_power_enable = kPinNone, hw_ant_ctrl = kPinNone, hw_power_lna_gain = 0,
     hw_has_power_table = False, hw_power_min = 0, hw_power_max = 0, hw_power_default = 0,
     hw_power_values = replicate kPowerLevels 0, hw_power_values_count = 0,
     hw_power_values_dual = replicate kPowerLevels 0, hw_power_values_dual_count = 0,
     hw_has_power = False, hw_power_dbm = 0, hw_led = kPinNone, hw_button = kPinNone,
     hw_default_band = 0, hw_flashed_name = replicate 16 0, hw_flashed_passphrase = replicate 33 0\<rparr>"

section \<open>Radios\<close>

definition hasRadio :: "hardware_layout \<Rightarrow> lora_chip \<Rightarrow> nat \<Rightarrow> bool" where
  "hasRadio hw chip index =
     (let r = hw_radio hw ! index
      in if rp_nss r = kPinNone \<or> (index = 0 \<and> rp_rst r = kPinNone) then False
         else if chip = SX127x then rp_dio0 r \<noteq> kPinNone
         else rp_dio1 r \<noteq> kPinNone \<and> rp_busy r \<noteq> kPinNone)"

definition hw_radioCount :: "hardware_layout \<Rightarrow> lora_chip \<Rightarrow> nat" where
  "hw_radioCount hw chip = (if \<not> hasRadio hw chip 0 then 0 else if hasRadio hw chip 1 then 2 else 1)"

section \<open>Power\<close>

definition kLevelDbm :: "int list" where "kLevelDbm = [10, 14, 17, 20, 24, 27, 30, 33]"
definition kLevelMw :: "int list" where "kLevelMw = [10, 25, 50, 100, 250, 500, 1000, 2000]"
definition kDefaultLoraDbm :: int where "kDefaultLoraDbm = 10"

definition clampInt :: "int \<Rightarrow> int \<Rightarrow> int \<Rightarrow> int" where
  "clampInt v lo hi = (if v < lo then lo else if v > hi then hi else v)"

definition powerLevelDbm :: "int \<Rightarrow> int" where
  "powerLevelDbm level = kLevelDbm ! nat (clampInt level 0 (int kPowerLevels - 1))"

definition powerLevelMw :: "int \<Rightarrow> int" where
  "powerLevelMw level = kLevelMw ! nat (clampInt level 0 (int kPowerLevels - 1))"

definition elrsPowerToDbm :: "lora_chip \<Rightarrow> i16 \<Rightarrow> bool \<Rightarrow> i8" where
  "elrsPowerToDbm chip v rfo_hf =
     (if chip \<noteq> SX127x then ucast v
      else let output_power = v AND 0x0F in ucast (if rfo_hf then output_power else 2 + output_power))"

definition chipRange :: "lora_chip \<Rightarrow> bool \<Rightarrow> bool \<Rightarrow> int \<times> int" where
  "chipRange chip high_band rfo_hf =
     (case chip of
        SX127x \<Rightarrow> (if rfo_hf then 0 else 2, if rfo_hf then 15 else 17)
      | SX128x \<Rightarrow> (- 18, 13)
      | LR1121 \<Rightarrow> (if high_band then (- 18, 13) else if rfo_hf then (- 17, 14) else (- 9, 22)))"

record power_choice =
  pc_chip_dbm :: i8
  pc_output_dbm :: i8
  pc_level :: int

definition PowerChoice :: power_choice where
  "PowerChoice = \<lparr>pc_chip_dbm = 0, pc_output_dbm = 0, pc_level = - 1\<rparr>"

text \<open>The two loops: up over the levels for the highest not above the target, then down to the
  ceiling. The second is a \<open>while\<close>; \<open>None\<close> is the value of a loop that does not end.\<close>

definition level_up_to :: "int \<Rightarrow> int \<Rightarrow> int \<Rightarrow> int" where
  "level_up_to mn mx target =
     fold (\<lambda>l level. if powerLevelDbm l \<le> target then l else level) [mn..mx] mn"

definition level_down_to :: "int \<Rightarrow> int \<Rightarrow> int \<Rightarrow> int option" where
  "level_down_to mn ceiling_dbm level =
     while_option (\<lambda>level. level > mn \<and> powerLevelDbm level > ceiling_dbm) (\<lambda>level. level - 1) level"

text \<open>The table an LR1121 uses at 2.4 GHz is its second one, when it has one.\<close>

definition power_table :: "hardware_layout \<Rightarrow> lora_chip \<Rightarrow> bool \<Rightarrow> i16 list \<times> nat" where
  "power_table hw chip high_band =
     (if chip = LR1121 \<and> high_band \<and> hw_power_values_dual_count hw > 0
      then (hw_power_values_dual hw, hw_power_values_dual_count hw)
      else (hw_power_values hw, hw_power_values_count hw))"

definition choosePower ::
  "hardware_layout \<Rightarrow> lora_chip \<Rightarrow> bool \<Rightarrow> int \<Rightarrow> int \<Rightarrow> power_choice option" where
  "choosePower hw chip high_band requested_dbm ceiling_dbm =
     (let (values, count) = power_table hw chip high_band
      in if \<not> hw_has_power_table hw \<or> count = 0 then
           let (lo, hi) = chipRange chip high_band (hw_radio_rfo_hf hw);
               dbm = (if requested_dbm \<noteq> 0 then requested_dbm
                      else if hw_has_power hw then sint (hw_power_dbm hw) else kDefaultLoraDbm);
               dbm = (if dbm > ceiling_dbm then ceiling_dbm else dbm);
               chip_dbm = of_int (clampInt dbm lo hi)
           in Some \<lparr>pc_chip_dbm = chip_dbm, pc_output_dbm = chip_dbm, pc_level = - 1\<rparr>
         else
           let mn = int (hw_power_min hw);
               mx = clampInt (int (hw_power_max hw)) mn (mn + int count - 1);
               target = (if requested_dbm \<noteq> 0 then requested_dbm else kDefaultLoraDbm)
           in map_option
                (\<lambda>level. \<lparr>pc_chip_dbm = elrsPowerToDbm chip (values ! nat (level - mn)) (hw_radio_rfo_hf hw),
                   pc_output_dbm = of_int (powerLevelDbm level), pc_level = level\<rparr>)
                (level_down_to mn ceiling_dbm (level_up_to mn mx target)))"

section \<open>The layout parser\<close>

text \<open>The calls on a document: the parse with its filter, whether a document overflowed, and what
  a key holds, as an int, a bool, a string or an array. \<open>lj_as_int\<close> is \<open>as<int>()\<close> of anything.\<close>

record 'v layout_api =
  lj_parse :: "byte_list \<Rightarrow> string list \<Rightarrow> byte_list + 'v"
  lj_filter_overflowed :: "string list \<Rightarrow> bool"
  lj_overflowed :: "'v \<Rightarrow> bool"
  lj_is_object :: "'v \<Rightarrow> bool"
  lj_get :: "'v \<Rightarrow> string \<Rightarrow> 'v"
  lj_int :: "'v \<Rightarrow> int option"
  lj_as_int :: "'v \<Rightarrow> int"
  lj_bool :: "'v \<Rightarrow> bool option"
  lj_str :: "'v \<Rightarrow> byte_list option"
  lj_array :: "'v \<Rightarrow> 'v list option"

definition layout_keys :: "string list" where
  "layout_keys =
     [''serial_rx'', ''serial_tx'', ''radio_sck'', ''radio_miso'', ''radio_mosi'', ''radio_nss'',
      ''radio_rst'', ''radio_dio0'', ''radio_dio1'', ''radio_busy'', ''radio_nss_2'', ''radio_rst_2'',
      ''radio_dio0_2'', ''radio_dio1_2'', ''radio_busy_2'', ''radio_rfo_hf'', ''radio_dcdc'',
      ''radio_tcxo'', ''radio_rfsw_ctrl'', ''power_enable'', ''power_rxen'', ''power_txen'',
      ''power_rxen_2'', ''power_txen_2'', ''power_lna_gain'', ''ant_ctrl'', ''led'', ''button'',
      ''power_min'', ''power_max'', ''power_default'', ''power_values'', ''power_values_dual'']"

definition readPin :: "'v layout_api \<Rightarrow> 'v \<Rightarrow> string \<Rightarrow> int \<Rightarrow> int" where
  "readPin api doc key out = (case lj_int api (lj_get api doc key) of None \<Rightarrow> out | Some n \<Rightarrow> n)"

text \<open>The table after a read, and the number of entries read: at most the capacity, the rest of the
  array keeps what it held.\<close>

definition readTable :: "'v layout_api \<Rightarrow> 'v \<Rightarrow> string \<Rightarrow> i16 list \<Rightarrow> nat \<Rightarrow> i16 list \<times> nat" where
  "readTable api doc key out cap =
     (let a = (case lj_array api (lj_get api doc key) of None \<Rightarrow> [] | Some vs \<Rightarrow> take cap vs);
          ns = map (\<lambda>v. of_int (lj_as_int api v)) a
      in (ns @ drop (length ns) out, length ns))"

text \<open>\<open>doc[key] | dflt\<close>\<close>

definition int_or :: "'v layout_api \<Rightarrow> 'v \<Rightarrow> string \<Rightarrow> int \<Rightarrow> int" where
  "int_or api doc key dflt = (case lj_int api (lj_get api doc key) of None \<Rightarrow> dflt | Some n \<Rightarrow> n)"

definition read_radio :: "'v layout_api \<Rightarrow> 'v \<Rightarrow> string \<Rightarrow> radio_pins \<Rightarrow> radio_pins" where
  "read_radio api doc tag r =
     (let pin = (\<lambda>key. readPin api doc (key @ tag))
      in \<lparr>rp_nss = pin ''radio_nss'' (rp_nss r), rp_rst = pin ''radio_rst'' (rp_rst r),
          rp_dio0 = pin ''radio_dio0'' (rp_dio0 r), rp_dio1 = pin ''radio_dio1'' (rp_dio1 r),
          rp_busy = pin ''radio_busy'' (rp_busy r), rp_rxen = pin ''power_rxen'' (rp_rxen r),
          rp_txen = pin ''power_txen'' (rp_txen r)\<rparr>)"

definition read_pins :: "'v layout_api \<Rightarrow> 'v \<Rightarrow> hardware_layout \<Rightarrow> hardware_layout" where
  "read_pins api doc out =
     (let pin = readPin api doc
      in out\<lparr>hw_serial_rx := pin ''serial_rx'' (hw_serial_rx out),
             hw_serial_tx := pin ''serial_tx'' (hw_serial_tx out),
             hw_radio_sck := pin ''radio_sck'' (hw_radio_sck out),
             hw_radio_miso := pin ''radio_miso'' (hw_radio_miso out),
             hw_radio_mosi := pin ''radio_mosi'' (hw_radio_mosi out),
             hw_radio := [read_radio api doc '''' (hw_radio out ! 0), read_radio api doc ''_2'' (hw_radio out ! 1)],
             hw_power_enable := pin ''power_enable'' (hw_power_enable out),
             hw_ant_ctrl := pin ''ant_ctrl'' (hw_ant_ctrl out),
             hw_radio_tcxo := pin ''radio_tcxo'' (hw_radio_tcxo out),
             hw_led := pin ''led'' (hw_led out), hw_button := pin ''button'' (hw_button out)\<rparr>)"

definition read_flags :: "'v layout_api \<Rightarrow> 'v \<Rightarrow> hardware_layout \<Rightarrow> hardware_layout" where
  "read_flags api doc out =
     out\<lparr>hw_radio_rfo_hf := (case lj_bool api (lj_get api doc ''radio_rfo_hf'') of
            None \<Rightarrow> hw_radio_rfo_hf out | Some b \<Rightarrow> b),
         hw_radio_dcdc := (case lj_bool api (lj_get api doc ''radio_dcdc'') of None \<Rightarrow> False | Some b \<Rightarrow> b),
         hw_power_lna_gain := (case lj_int api (lj_get api doc ''power_lna_gain'') of
            None \<Rightarrow> hw_power_lna_gain out | Some n \<Rightarrow> of_int n)\<rparr>"

definition read_rfsw :: "'v layout_api \<Rightarrow> 'v \<Rightarrow> hardware_layout \<Rightarrow> hardware_layout" where
  "read_rfsw api doc out =
     (case lj_array api (lj_get api doc ''radio_rfsw_ctrl'') of
        None \<Rightarrow> out
      | Some vs \<Rightarrow>
          let ns = map (\<lambda>v. of_int (lj_as_int api v)) (take 8 vs)
          in out\<lparr>hw_radio_rfsw_ctrl := ns @ drop (length ns) (hw_radio_rfsw_ctrl out),
                 hw_radio_rfsw_ctrl_count := length ns\<rparr>)"

definition read_power :: "'v layout_api \<Rightarrow> 'v \<Rightarrow> hardware_layout \<Rightarrow> hardware_layout" where
  "read_power api doc out =
     (let (values, n) = readTable api doc ''power_values'' (hw_power_values out) kPowerLevels;
          out = out\<lparr>hw_power_values := values\<rparr>
      in if n > 0 then
           let out = out\<lparr>hw_power_values_count := n\<rparr>;
               (dual, m) = readTable api doc ''power_values_dual'' (hw_power_values_dual out) kPowerLevels;
               out = out\<lparr>hw_power_values_dual := dual, hw_power_values_dual_count := m\<rparr>;
               mn = clampInt (int_or api doc ''power_min'' 0) 0 (int kPowerLevels - 1);
               mx = clampInt (int_or api doc ''power_max'' mn) mn (int kPowerLevels - 1);
               df = clampInt (int_or api doc ''power_default'' mn) mn mx
           in out\<lparr>hw_power_min := nat mn, hw_power_max := nat mx, hw_power_default := nat df,
                  hw_has_power_table := True\<rparr>
         else out)"

datatype layout_error = ParseError byte_list | TooLarge | NotObject

definition parseLayoutJson ::
  "'v layout_api \<Rightarrow> byte_list \<Rightarrow> hardware_layout \<Rightarrow> hardware_layout \<times> layout_error option" where
  "parseLayoutJson api json out =
     (case lj_parse api json layout_keys of
        Inl e \<Rightarrow> (out, Some (ParseError e))
      | Inr doc \<Rightarrow>
          if lj_filter_overflowed api layout_keys \<or> lj_overflowed api doc then (out, Some TooLarge)
          else if \<not> lj_is_object api doc then (out, Some NotObject)
          else (read_power api doc (read_rfsw api doc (read_flags api doc (read_pins api doc out))), None))"

definition parseOptionsJson :: "'v layout_api \<Rightarrow> byte_list \<Rightarrow> hardware_layout \<Rightarrow> hardware_layout" where
  "parseOptionsJson api json out =
     (case lj_parse api json [''lora-band'', ''name'', ''group-passphrase''] of
        Inl e \<Rightarrow> out
      | Inr doc \<Rightarrow>
          let out = (case lj_int api (lj_get api doc ''lora-band'') of
                       None \<Rightarrow> out | Some n \<Rightarrow> out\<lparr>hw_default_band := of_int n\<rparr>);
              out = (case lj_str api (lj_get api doc ''name'') of
                       None \<Rightarrow> out | Some s \<Rightarrow> out\<lparr>hw_flashed_name := snprintf_buf (hw_flashed_name out) s\<rparr>)
          in (case lj_str api (lj_get api doc ''group-passphrase'') of
                None \<Rightarrow> out
              | Some s \<Rightarrow> out\<lparr>hw_flashed_passphrase := snprintf_buf (hw_flashed_passphrase out) s\<rparr>))"

section \<open>Finding the layout\<close>

definition kProductNameSize :: nat where [simp]: "kProductNameSize = 128"
definition kDeviceNameSize :: nat where [simp]: "kDeviceNameSize = 16"
definition kOptionsSize :: nat where [simp]: "kOptionsSize = 512"
definition kLayoutSize :: nat where [simp]: "kLayoutSize = 2048"
definition kLayoutOffset :: nat where
  [simp]: "kLayoutOffset = kProductNameSize + kDeviceNameSize + kOptionsSize"

definition looksLikeText :: "byte_list \<Rightarrow> bool" where
  "looksLikeText s \<longleftrightarrow> 0x20 \<le> s ! 0 \<and> s ! 0 < 0x7F"

text \<open>The flash behind the firmware image: \<open>flashRead\<close> at an offset from the trailer, which gives
  exactly the bytes asked for or fails.\<close>

type_synonym flash = "nat \<Rightarrow> nat \<Rightarrow> byte_list option"

definition read_options :: "'v layout_api \<Rightarrow> flash \<Rightarrow> hardware_layout \<Rightarrow> hardware_layout" where
  "read_options api flashRead hw =
     (case flashRead (kProductNameSize + kDeviceNameSize) kOptionsSize of
        None \<Rightarrow> hw
      | Some opts \<Rightarrow> if opts ! 0 = 0x7B then parseOptionsJson api (cstr opts) hw else hw)"

definition loadFromTrailer :: "'v layout_api \<Rightarrow> flash \<Rightarrow> hardware_layout \<Rightarrow> hardware_layout \<times> bool" where
  "loadFromTrailer api flashRead hw =
     (case flashRead 0 (kProductNameSize + kDeviceNameSize) of
        None \<Rightarrow> (hw, False)
      | Some raw \<Rightarrow>
          if \<not> looksLikeText raw then (hw, False)
          else
            let hw = read_options api flashRead hw
            in case flashRead kLayoutOffset kLayoutSize of
                 None \<Rightarrow> (hw, False)
               | Some json \<Rightarrow>
                   if json ! 0 \<noteq> 0x7B then (hw, False)
                   else
                     case parseLayoutJson api (cstr json) hw of
                       (hw, Some err) \<Rightarrow> (hw, False)
                     | (hw, None) \<Rightarrow>
                         (hw\<lparr>hw_product_name := take kProductNameSize raw @ [0],
                             hw_device_name := take kDeviceNameSize (drop kProductNameSize raw) @ [0],
                             hw_source := Trailer\<rparr>, True))"

text \<open>\<open>/hardware.json\<close>, when it is there.\<close>

definition loadFromFile :: "'v layout_api \<Rightarrow> byte_list option \<Rightarrow> hardware_layout \<Rightarrow> hardware_layout \<times> bool" where
  "loadFromFile api file hw =
     (case file of
        None \<Rightarrow> (hw, False)
      | Some json \<Rightarrow>
          (case parseLayoutJson api json hw of
             (hw, Some err) \<Rightarrow> (hw, False)
           | (hw, None) \<Rightarrow> (hw\<lparr>hw_source := LayoutFile\<rparr>, True)))"

text \<open>\<open>compiled\<close> is what the build's pin macros set, by \<open>compiledLayout\<close>.\<close>

definition loadHardwareLayout ::
  "'v layout_api \<Rightarrow> (hardware_layout \<Rightarrow> hardware_layout) \<Rightarrow> flash \<Rightarrow> byte_list option \<Rightarrow> hardware_layout" where
  "loadHardwareLayout api compiled flashRead file =
     fst (loadFromFile api file (fst (loadFromTrailer api flashRead (compiled HardwareLayout))))"

end
