(* ===== verification/Lora_Radio.thy ===== *)
theory Lora_Radio
  imports Hw_Layout Node_Deps Tx_Slot Spsc_Ring
begin

text \<open>
  src/hal/RadioLoRa.h and RadioLoRa.cpp, the LoRa driver: one or two radios, their front ends, an
  antenna switch, half-duplex transmission with one frame held back, diversity reception and the
  transmit watchdog. RadioLib is third-party code: what the driver asks of a chip is a list of
  commands, and what the chip answers to the queries of a service pass is a parameter. The chip the
  build is for (\<open>kBuildLoraChip\<close>, the \<open>LORA_FAMILY\<close> macros) is an argument. An interrupt between
  the two looks of a pass at the flags is one before or after the pass, because each flag is looked
  at once.
\<close>

section \<open>Constants\<close>

definition kUntried :: flt where "kUntried = 1000"
definition kRssiAlpha :: flt where "kRssiAlpha = flt_round (3 / 10)"
definition kRssiDriftDb :: flt where "kRssiDriftDb = 1 / 2"
definition kDuplicateWindowMs :: u32 where "kDuplicateWindowMs = 50"
definition kTxTimeoutMs :: u32 where "kTxTimeoutMs = 500"
definition kRxDataSize :: nat where [simp]: "kRxDataSize = 64"

definition kTcxoVolts :: "flt list" where
  "kTcxoVolts = map flt_round [16 / 10, 17 / 10, 18 / 10, 22 / 10, 24 / 10, 27 / 10, 3, 33 / 10]"

definition kDefaultRfsw :: byte_list where "kDefaultRfsw = [0x0F, 0, 0x04, 0x08, 0x08, 0x02, 0, 0x01]"

definition chipName :: "lora_chip \<Rightarrow> string" where
  "chipName chip = (case chip of LR1121 \<Rightarrow> ''LR1121'' | SX128x \<Rightarrow> ''SX1280'' | SX127x \<Rightarrow> ''SX127x'')"

section \<open>State\<close>

record lora_path =
  pa_irq :: bool
  pa_txen :: int
  pa_rxen :: int
  pa_rssi_avg :: flt

definition Path :: lora_path where
  "Path = \<lparr>pa_irq = False, pa_txen = kPinNone, pa_rxen = kPinNone, pa_rssi_avg = - 200\<rparr>"

text \<open>\<open>lr_last_rx\<close> is \<open>last_rx_\<close> with its flag \<open>have_last_rx_\<close>. \<open>lr_fault\<close> is not in the code: it
  records that an operation with no defined result was reached, a conversion of a float outside
  the range of its target or a write outside an array.\<close>

record lora_radio =
  lr_chips :: "lora_path list"
  lr_count :: nat
  lr_tx_index :: nat
  lr_hw :: hardware_layout
  lr_band :: lora_band
  lr_name :: string
  lr_ant_pin :: int
  lr_ant :: nat
  lr_ant_rssi :: "flt list"
  lr_power :: power_choice
  lr_requested_dbm :: int
  lr_power_pending :: bool
  lr_transmitting :: bool
  lr_tx_start_ms :: u32
  lr_tx_dropped :: u32
  lr_tx_timeouts :: u32
  lr_duplicates :: u32
  lr_last_snr_db :: flt
  lr_have_snr :: bool
  lr_last_rx :: "rx_frame option"
  lr_pending :: tx_slot
  lr_rx :: "rx_frame spsc_ring"
  lr_fault :: bool

definition RxFrame :: rx_frame where
  "RxFrame = \<lparr>rx_timestamp_ms = 0, rx_rssi = 0, rx_len = 0, rx_data = replicate kRxDataSize 0\<rparr>"

definition RadioLoRa :: lora_radio where
  "RadioLoRa = \<lparr>lr_chips = [Path, Path], lr_count = 0, lr_tx_index = 0, lr_hw = HardwareLayout,
     lr_band = LoraBand, lr_name = ''LoRa'', lr_ant_pin = kPinNone, lr_ant = 0, lr_ant_rssi = [- 200, - 200],
     lr_power = PowerChoice, lr_requested_dbm = 0, lr_power_pending = False, lr_transmitting = False,
     lr_tx_start_ms = 0, lr_tx_dropped = 0, lr_tx_timeouts = 0, lr_duplicates = 0, lr_last_snr_db = 0,
     lr_have_snr = False, lr_last_rx = None, lr_pending = TxSlot, lr_rx = SpscRing 8 RxFrame,
     lr_fault = False\<rparr>"

text \<open>What the driver does to the board: pins, the SPI bus and calls on a chip.\<close>

datatype lora_cmd =
    PinOutput int
  | PinWrite int bool
  | SpiBegin
  | SetPacketReceivedAction nat nat
  | SetOutputPower nat i8 "bool option"
  | Standby nat
  | StartReceive nat
  | StartTransmit nat byte_list
  | FinishTransmit nat

section \<open>Pins\<close>

definition outputLow :: "int \<Rightarrow> lora_cmd list" where
  "outputLow pin = (if pin \<noteq> kPinNone then [PinOutput pin, PinWrite pin False] else [])"

definition write_pin :: "int \<Rightarrow> bool \<Rightarrow> lora_cmd list" where
  "write_pin pin high = (if pin \<noteq> kPinNone then [PinWrite pin high] else [])"

definition sameFrame :: "rx_frame \<Rightarrow> rx_frame \<Rightarrow> bool" where
  "sameFrame a b \<longleftrightarrow> rx_len a = rx_len b \<and> take (unat (rx_len a)) (rx_data a) = take (unat (rx_len a)) (rx_data b)"

abbreviation lora_chips :: "lora_radio \<Rightarrow> nat list" where "lora_chips r \<equiv> [0..<lr_count r]"

definition frontEndRx :: "lora_radio \<Rightarrow> lora_cmd list" where
  "frontEndRx r =
     concat (map (\<lambda>i. write_pin (pa_txen (lr_chips r ! i)) False @ write_pin (pa_rxen (lr_chips r ! i)) True)
       (lora_chips r))"

definition frontEndTx :: "lora_radio \<Rightarrow> nat \<Rightarrow> lora_cmd list" where
  "frontEndTx r index =
     concat (map (\<lambda>i. write_pin (pa_rxen (lr_chips r ! i)) False @ write_pin (pa_txen (lr_chips r ! i)) False)
       (lora_chips r)) @
     write_pin (pa_txen (lr_chips r ! index)) True"

definition receiveAll :: "lora_radio \<Rightarrow> lora_cmd list" where
  "receiveAll r = frontEndRx r @ map StartReceive (lora_chips r)"

text \<open>Which power amplifier an SX127x or an LR1121 uses is the layout's \<open>radio_rfo_hf\<close>.\<close>

definition applyPower :: "lora_chip \<Rightarrow> lora_radio \<Rightarrow> lora_cmd list" where
  "applyPower chip r =
     (let dbm = pc_chip_dbm (lr_power r); rfo = hw_radio_rfo_hf (lr_hw r);
          pa = (case chip of SX127x \<Rightarrow> Some rfo | SX128x \<Rightarrow> None
                | LR1121 \<Rightarrow> (if highBand (lr_band r) then None else Some (\<not> rfo)))
      in map (\<lambda>i. SetOutputPower i dbm pa) (lora_chips r))"

section \<open>Transmission\<close>

definition startTx :: "u32 \<Rightarrow> byte_list \<Rightarrow> lora_radio \<Rightarrow> lora_radio \<times> lora_cmd list" where
  "startTx now data r =
     (r\<lparr>lr_transmitting := True, lr_tx_start_ms := now\<rparr>,
      map Standby (filter (\<lambda>i. i \<noteq> lr_tx_index r) (lora_chips r)) @
      frontEndTx r (lr_tx_index r) @ [StartTransmit (lr_tx_index r) data])"

definition lora_transmit :: "u32 \<Rightarrow> byte_list \<Rightarrow> lora_radio \<Rightarrow> lora_radio \<times> lora_cmd list" where
  "lora_transmit now data r =
     (if lr_count r = 0 then (r, [])
      else if lr_transmitting r then
        (case ts_push (lr_pending r) data of
           (slot, True) \<Rightarrow> (r\<lparr>lr_pending := slot\<rparr>, [])
         | (slot, False) \<Rightarrow> (r\<lparr>lr_pending := slot, lr_tx_dropped := lr_tx_dropped r + 1\<rparr>, []))
      else startTx now data r)"

definition sendPending :: "u32 \<Rightarrow> lora_radio \<Rightarrow> (lora_radio \<times> lora_cmd list) option" where
  "sendPending now r =
     (if ts_empty (lr_pending r) then None
      else case startTx now (ts_data (lr_pending r)) r of
             (r, cmds) \<Rightarrow> Some (r\<lparr>lr_pending := ts_clear (lr_pending r)\<rparr>, cmds))"

text \<open>\<open>None\<close> is the value of a power choice that does not end.\<close>

definition lora_setPower :: "lora_chip \<Rightarrow> int \<Rightarrow> lora_radio \<Rightarrow> (lora_radio \<times> lora_cmd list) option" where
  "lora_setPower chip requested_dbm r =
     (if lr_count r = 0 then Some (r, [])
      else let r = r\<lparr>lr_requested_dbm := requested_dbm\<rparr>
           in map_option
                (\<lambda>next. if pc_chip_dbm next = pc_chip_dbm (lr_power r) \<and>
                             pc_output_dbm next = pc_output_dbm (lr_power r) then (r, [])
                        else let r = r\<lparr>lr_power := next\<rparr>
                             in if lr_transmitting r then (r\<lparr>lr_power_pending := True\<rparr>, [])
                                else (r, map Standby (lora_chips r) @ applyPower chip r @ receiveAll r))
                (choosePower (lr_hw r) chip (highBand (lr_band r)) requested_dbm (sint (lb_max_dbm (lr_band r)))))"

section \<open>Reception\<close>

text \<open>What a chip answers in a service pass: its interrupt sources, the packet's length, the
  payload read at a length (or an error), its RSSI and SNR, and the clock at the read.\<close>

record chip_reply =
  cr_tx_done :: bool
  cr_rx_done :: bool
  cr_crc_err :: bool
  cr_len :: nat
  cr_read :: "nat \<Rightarrow> byte_list option"
  cr_now :: u32
  cr_rssi :: flt
  cr_snr :: flt

definition i16_of_flt :: "flt \<Rightarrow> i16 option" where
  "i16_of_flt x = (if -32769 < x \<and> x < 32768 then Some (of_int (if x < 0 then \<lceil>x\<rceil> else \<lfloor>x\<rfloor>)) else None)"

definition notePathRssi :: "flt \<Rightarrow> flt \<Rightarrow> flt" where
  "notePathRssi avg rssi =
     (if avg = kUntried \<or> avg \<le> - 199 then rssi
      else flt_round (avg + flt_round (kRssiAlpha * flt_round (rssi - avg))))"

definition chooseAntenna :: "lora_radio \<Rightarrow> lora_radio \<times> lora_cmd list" where
  "chooseAntenna r =
     (let other = 1 - lr_ant r
      in if lr_ant_rssi r ! other > lr_ant_rssi r ! lr_ant r
         then (r\<lparr>lr_ant := other\<rparr>, write_pin (lr_ant_pin r) (other \<noteq> 0)) else (r, []))"

text \<open>A pass: \<open>tx_finished\<close>, the radios to restart and the frames got, each with its radio.\<close>

record lora_pass =
  ps_finished :: bool
  ps_restart :: "bool list"
  ps_got :: "(nat \<times> rx_frame) list"

definition watchdog :: "u32 \<Rightarrow> lora_radio \<Rightarrow> lora_radio \<times> lora_pass \<times> lora_cmd list" where
  "watchdog now r =
     (let p = \<lparr>ps_finished = False, ps_restart = [False, False], ps_got = []\<rparr>
      in if lr_transmitting r \<and> now - lr_tx_start_ms r > kTxTimeoutMs then
           (r\<lparr>lr_tx_timeouts := lr_tx_timeouts r + 1, lr_transmitting := False\<rparr>,
            p\<lparr>ps_finished := True\<rparr>, [FinishTransmit (lr_tx_index r)])
         else (r, p, []))"

definition receive_frame :: "chip_reply \<Rightarrow> nat \<Rightarrow> lora_radio \<times> lora_pass \<Rightarrow> lora_radio \<times> lora_pass" where
  "receive_frame c i = (\<lambda>(r, p).
     let len = min (cr_len c) kRxDataSize
     in case cr_read c len of
          None \<Rightarrow> (r, p)
        | Some bytes \<Rightarrow>
            let rssi = i16_of_flt (flt_round (cr_rssi c - of_int (sint (hw_power_lna_gain (lr_hw r)))));
                f = \<lparr>rx_timestamp_ms = cr_now c, rx_rssi = (case rssi of None \<Rightarrow> 0 | Some v \<Rightarrow> v),
                     rx_len = of_nat len, rx_data = bytes @ drop len (rx_data RxFrame)\<rparr>
            in (r\<lparr>lr_last_snr_db := cr_snr c, lr_have_snr := True, lr_fault := lr_fault r \<or> rssi = None\<rparr>,
                p\<lparr>ps_got := ps_got p @ [(i, f)]\<rparr>))"

definition service_chip ::
  "(nat \<Rightarrow> chip_reply) \<Rightarrow> nat \<Rightarrow> lora_radio \<times> lora_pass \<times> lora_cmd list \<Rightarrow> lora_radio \<times> lora_pass \<times> lora_cmd list" where
  "service_chip reply i = (\<lambda>(r, p, cmds).
     if \<not> pa_irq (lr_chips r ! i) then (r, p, cmds)
     else let r = r\<lparr>lr_chips := (lr_chips r)[i := (lr_chips r ! i)\<lparr>pa_irq := False\<rparr>]\<rparr>; c = reply i
          in if lr_transmitting r \<and> i = lr_tx_index r then
               if cr_tx_done c then
                 (r\<lparr>lr_transmitting := False\<rparr>, p\<lparr>ps_finished := True\<rparr>, cmds @ [FinishTransmit i])
               else (r, p, cmds)
             else let p = p\<lparr>ps_restart := (ps_restart p)[i := True]\<rparr>
                  in if \<not> cr_rx_done c \<or> cr_crc_err c then (r, p, cmds)
                     else case receive_frame c i (r, p) of (r, p) \<Rightarrow> (r, p, cmds))"

text \<open>Path bookkeeping: the averages of the paths that heard a frame, the drift of the others, and
  the path to transmit on.\<close>

definition note_path :: "nat \<times> rx_frame \<Rightarrow> lora_radio \<Rightarrow> lora_radio" where
  "note_path = (\<lambda>(i, f) r.
     let rssi = of_int (sint (rx_rssi f))
     in if lr_count r > 1 then
          let c = lr_chips r ! i
          in r\<lparr>lr_chips := (lr_chips r)[i := c\<lparr>pa_rssi_avg := notePathRssi (pa_rssi_avg c) rssi\<rparr>]\<rparr>
        else if lr_ant_pin r \<noteq> kPinNone then
          let a = (lr_ant_rssi r)[lr_ant r := notePathRssi (lr_ant_rssi r ! lr_ant r) rssi];
              idle = 1 - lr_ant r
          in r\<lparr>lr_ant_rssi := (if a ! idle \<noteq> kUntried then a[idle := flt_round (a ! idle + kRssiDriftDb)] else a)\<rparr>
        else r)"

definition drift_unheard :: "nat list \<Rightarrow> nat \<Rightarrow> lora_radio \<Rightarrow> lora_radio" where
  "drift_unheard heard i r =
     (let c = lr_chips r ! i
      in if i \<notin> set heard \<and> pa_rssi_avg c > - 199
         then r\<lparr>lr_chips := (lr_chips r)[i := c\<lparr>pa_rssi_avg := flt_round (pa_rssi_avg c - kRssiDriftDb)\<rparr>]\<rparr>
         else r)"

definition choose_path :: "(nat \<times> rx_frame) list \<Rightarrow> lora_radio \<Rightarrow> lora_radio \<times> lora_cmd list" where
  "choose_path got r =
     (let r = fold note_path got r;
          r = (if lr_count r > 1 \<and> got \<noteq> [] then
                 let r = fold (drift_unheard (map fst got)) (lora_chips r) r
                 in r\<lparr>lr_tx_index := (if pa_rssi_avg (lr_chips r ! 1) > pa_rssi_avg (lr_chips r ! 0) then 1 else 0)\<rparr>
               else r)
      in if got \<noteq> [] \<and> lr_ant_pin r \<noteq> kPinNone then chooseAntenna r else (r, []))"

text \<open>Two copies of a frame in one pass become the stronger one.\<close>

definition merge_copies :: "rx_frame list \<Rightarrow> lora_radio \<Rightarrow> rx_frame list \<times> lora_radio" where
  "merge_copies got r =
     (case got of
        [a, b] \<Rightarrow> if sameFrame a b
                  then ([if sint (rx_rssi b) > sint (rx_rssi a) then b else a],
                        r\<lparr>lr_duplicates := lr_duplicates r + 1\<rparr>)
                  else (got, r)
      | _ \<Rightarrow> (got, r))"

definition hand_up :: "rx_frame \<Rightarrow> lora_radio \<Rightarrow> lora_radio" where
  "hand_up f r =
     (if (case lr_last_rx r of None \<Rightarrow> False
          | Some l \<Rightarrow> sameFrame f l \<and> rx_timestamp_ms f - rx_timestamp_ms l < kDuplicateWindowMs)
      then r\<lparr>lr_duplicates := lr_duplicates r + 1\<rparr>
      else r\<lparr>lr_rx := fst (rb_push (lr_rx r) f), lr_last_rx := Some f\<rparr>)"

definition resume ::
  "lora_chip \<Rightarrow> u32 \<Rightarrow> lora_pass \<Rightarrow> lora_radio \<Rightarrow> lora_radio \<times> lora_cmd list" where
  "resume chip now p r =
     (if lr_transmitting r then (r, [])
      else if ps_finished p then
        let (r, power) = (if lr_power_pending r then (r\<lparr>lr_power_pending := False\<rparr>, applyPower chip r) else (r, []))
        in (case sendPending now r of
              Some (r, cmds) \<Rightarrow> (r, power @ cmds)
            | None \<Rightarrow> (r, power @ receiveAll r))
      else (r, map StartReceive (filter (\<lambda>i. ps_restart p ! i) (lora_chips r))))"

text \<open>A whole pass: the clock at its start and when it sends, and the chips' answers.\<close>

record lora_env =
  le_now :: u32
  le_now_tx :: u32
  le_reply :: "nat \<Rightarrow> chip_reply"

definition serviceRx :: "lora_chip \<Rightarrow> lora_env \<Rightarrow> lora_radio \<Rightarrow> lora_radio \<times> lora_cmd list" where
  "serviceRx chip e r =
     (if lr_count r = 0 then (r, [])
      else
        let (r, p, cmds) = fold (service_chip (le_reply e)) (lora_chips r) (watchdog (le_now e) r);
            (r, ant) = choose_path (ps_got p) r;
            (got, r) = merge_copies (map snd (ps_got p)) r;
            r = fold hand_up got r;
            (r, out) = resume chip (le_now_tx e) p r
        in (r, cmds @ ant @ out))"
section \<open>Start\<close>

text \<open>The calls that set a chip up, in RadioLib's terms, and a chip's pins, \<open>None\<close> for \<open>RADIOLIB_NC\<close>.\<close>

datatype chip_call =
    NewModule "int option" "int option" "int option" "int option"
  | BeginChip flt flt u8 u8 u8 i8 u16 "flt option"
  | SetCurrentLimit u8
  | RegulatorLdo
  | RegulatorDcdc
  | SetHighSensitivityMode bool
  | SetRxBoostedGainMode bool
  | SetCodingRate u8 bool
  | SetDioAsRfSwitch byte_list

definition rlPin :: "int \<Rightarrow> int option" where "rlPin pin = (if pin < 0 then None else Some pin)"

definition kSafeDbm :: i8 where "kSafeDbm = 10"

text \<open>Calls in order, up to and with the first that the chip refuses.\<close>

fun run_calls :: "(chip_call \<Rightarrow> bool) \<Rightarrow> (chip_call \<times> bool) list \<Rightarrow> chip_call list \<times> bool" where
  "run_calls ok [] = ([], True)"
| "run_calls ok ((c, checked) # cs) =
     (if checked \<and> \<not> ok c then ([c], False)
      else case run_calls ok cs of (done_calls, r) \<Rightarrow> (c # done_calls, r))"

definition tcxo_volts :: "hardware_layout \<Rightarrow> flt" where
  "tcxo_volts hw =
     (if hw_radio_tcxo hw \<ge> 0 \<and> hw_radio_tcxo hw < 8 then kTcxoVolts ! nat (hw_radio_tcxo hw) else 0)"

text \<open>The calls of \<open>beginChip\<close>, each with whether its result is looked at.\<close>

definition chip_calls :: "lora_chip \<Rightarrow> hardware_layout \<Rightarrow> lora_band \<Rightarrow> (chip_call \<times> bool) list" where
  "chip_calls chip hw band =
     (let freq_mhz = flt_round (flt_round (of_nat (unat (lb_frequency_hz band))) / 1000000);
          begin_call = (\<lambda>tcxo. (BeginChip freq_mhz (lb_bandwidth_khz band) (lb_spreading_factor band)
             (lb_coding_rate band) (lb_sync_word band) kSafeDbm (lb_preamble_symbols band) tcxo, True));
          long = (if lb_long_interleaving band then [(SetCodingRate (lb_coding_rate band) True, True)] else [])
      in case chip of
           SX127x \<Rightarrow> [begin_call None, (SetCurrentLimit 0, False)]
         | SX128x \<Rightarrow> [begin_call None] @ (if \<not> hw_radio_dcdc hw then [(RegulatorLdo, False)] else []) @
             [(SetHighSensitivityMode True, False)] @ long
         | LR1121 \<Rightarrow> [begin_call (Some (tcxo_volts hw)),
               (if hw_radio_dcdc hw then RegulatorDcdc else RegulatorLdo, False),
               (SetDioAsRfSwitch (if hw_radio_rfsw_ctrl_count hw = 8 then hw_radio_rfsw_ctrl hw
                  else kDefaultRfsw), True),
               (SetRxBoostedGainMode True, False)] @ long)"

definition beginChip ::
  "lora_chip \<Rightarrow> (chip_call \<Rightarrow> bool) \<Rightarrow> hardware_layout \<Rightarrow> lora_band \<Rightarrow> radio_pins \<Rightarrow> int \<Rightarrow> chip_call list \<times> bool" where
  "beginChip chip ok hw band pins rst =
     (let irq = (if chip = SX127x then rp_dio0 pins else rp_dio1 pins)
      in run_calls ok
           ((NewModule (rlPin (rp_nss pins)) (rlPin irq) (rlPin rst) (rlPin (rp_busy pins)), False) #
            chip_calls chip hw band))"

text \<open>What the instances share: the SPI bus, and which instance and radio each interrupt is for.\<close>

record lora_shared =
  ls_spi_started :: bool
  ls_isr :: "(nat \<times> nat) option list"

definition lora_shared0 :: lora_shared where
  "lora_shared0 = \<lparr>ls_spi_started = False, ls_isr = [None, None]\<rparr>"

definition begin_board ::
  "lora_chip \<Rightarrow> nat \<Rightarrow> (nat \<Rightarrow> chip_call \<Rightarrow> bool) \<Rightarrow> nat \<Rightarrow> lora_shared \<times> lora_radio \<times> lora_cmd list \<Rightarrow>
     lora_shared \<times> lora_radio \<times> lora_cmd list" where
  "begin_board chip me ok board = (\<lambda>(g, r, cmds).
     let hw = lr_hw r; n = lr_count r
     in if \<not> hasRadio hw chip board then (g, r, cmds)
        else if n \<ge> length (lr_chips r) then (g, r\<lparr>lr_fault := True\<rparr>, cmds)
        else
          let pins = hw_radio hw ! board;
              rst = (if board > 0 \<and> (rp_rst pins = kPinNone \<or> rp_rst pins = rp_rst (hw_radio hw ! 0))
                     then kPinNone else rp_rst pins);
              p = (lr_chips r ! n)\<lparr>pa_txen := rp_txen pins, pa_rxen := rp_rxen pins\<rparr>;
              r = r\<lparr>lr_chips := (lr_chips r)[n := p]\<rparr>;
              cmds = cmds @ outputLow (pa_txen p) @ outputLow (pa_rxen p)
          in if \<not> snd (beginChip chip (ok board) hw (lr_band r) pins rst)
             then (g\<lparr>ls_isr := (ls_isr g)[board := None]\<rparr>, r, cmds)
             else (g\<lparr>ls_isr := (ls_isr g)[board := Some (me, n)]\<rparr>, r\<lparr>lr_count := n + 1\<rparr>,
                   cmds @ [SetPacketReceivedAction n board]))"

definition lora_antenna :: "lora_radio \<Rightarrow> lora_radio \<times> lora_cmd list" where
  "lora_antenna r =
     (if lr_count r = 1 \<and> hw_ant_ctrl (lr_hw r) \<noteq> kPinNone
      then (r\<lparr>lr_ant_pin := hw_ant_ctrl (lr_hw r), lr_ant_rssi := [kUntried, kUntried]\<rparr>,
            outputLow (hw_ant_ctrl (lr_hw r)))
      else (r, []))"

definition lora_begin ::
  "lora_chip \<Rightarrow> nat \<Rightarrow> (nat \<Rightarrow> chip_call \<Rightarrow> bool) \<Rightarrow> hardware_layout \<Rightarrow> lora_band \<Rightarrow> int \<Rightarrow> nat \<Rightarrow> nat \<Rightarrow>
     lora_shared \<Rightarrow> lora_radio \<Rightarrow> (lora_shared \<times> lora_radio \<times> lora_cmd list \<times> bool) option" where
  "lora_begin chip me ok hw band requested_dbm first max_radios g r =
     (let r = r\<lparr>lr_hw := hw, lr_band := band, lr_requested_dbm := requested_dbm\<rparr>
      in case loraBandValid band of
           Inl err \<Rightarrow> Some (g, r, [], False)
         | Inr _ \<Rightarrow>
             if \<not> hasRadio hw chip first then Some (g, r, [], False)
             else
               let spi = (if ls_spi_started g then [] else [SpiBegin]);
                   power = (if hw_power_enable hw \<noteq> kPinNone
                            then [PinOutput (hw_power_enable hw), PinWrite (hw_power_enable hw) True] else []);
                   (g, r, cmds) = fold (begin_board chip me ok) [first..<min (first + max_radios) 2]
                      (g\<lparr>ls_spi_started := True\<rparr>, r, spi @ power)
               in if lr_count r = 0 then Some (g, r, cmds, False)
                  else
                    let (r, ant) = lora_antenna r;
                        r = r\<lparr>lr_name := chipName chip @ (if lr_count r > 1 then ''x2'' else '''')\<rparr>
                    in map_option
                         (\<lambda>c. let r = r\<lparr>lr_power := c\<rparr>
                              in (g, r, cmds @ ant @ applyPower chip r @ receiveAll r, True))
                         (choosePower hw chip (highBand band) requested_dbm (sint (lb_max_dbm band))))"

section \<open>Interrupts and queries\<close>

definition onIsr :: "nat \<Rightarrow> lora_radio \<Rightarrow> lora_radio" where
  "onIsr i r = r\<lparr>lr_chips := (lr_chips r)[i := (lr_chips r ! i)\<lparr>pa_irq := True\<rparr>]\<rparr>"

definition lora_isr :: "nat \<Rightarrow> lora_shared \<Rightarrow> nat \<Rightarrow> lora_radio \<Rightarrow> lora_radio" where
  "lora_isr board g me r =
     (case ls_isr g ! board of Some (owner, i) \<Rightarrow> if owner = me then onIsr i r else r | None \<Rightarrow> r)"

definition lora_popRx :: "lora_radio \<Rightarrow> lora_radio \<times> rx_frame option" where
  "lora_popRx r = (case rb_pop (lr_rx r) of (q, f) \<Rightarrow> (r\<lparr>lr_rx := q\<rparr>, f))"

definition lora_airtimeMs :: "lora_radio \<Rightarrow> nat \<Rightarrow> dbl option" where
  "lora_airtimeMs r payload_len =
     Option.bind (loraAirtimeParams (lr_band r)) (\<lambda>p. loraAirtimeMs p payload_len)"

record lora_info =
  li_frequency_hz :: u32
  li_bandwidth_khz :: flt
  li_spreading_factor :: u8
  li_coding_rate :: u8
  li_power_dbm :: i8
  li_has_snr :: bool
  li_last_snr_db :: flt

definition lora_info :: "lora_radio \<Rightarrow> lora_info" where
  "lora_info r = \<lparr>li_frequency_hz = lb_frequency_hz (lr_band r), li_bandwidth_khz = lb_bandwidth_khz (lr_band r),
     li_spreading_factor = lb_spreading_factor (lr_band r), li_coding_rate = lb_coding_rate (lr_band r),
     li_power_dbm = pc_output_dbm (lr_power r), li_has_snr = lr_have_snr r, li_last_snr_db = lr_last_snr_db r\<rparr>"

end
