(* ===== verification/Hw_Props.thy ===== *)
theory Hw_Props
  imports Hw_Layout Config_Runs
begin

text \<open>
  The layout a board ends with is well formed whatever the flash and the file hold, and the power
  choice on a well-formed layout always ends, stays inside its tables and keeps the bounds.
\<close>

section \<open>Lemmas\<close>

declare of_nat_unat [simp del]

subsection \<open>Power levels\<close>

lemma powerLevelDbm_strict: "0 \<le> a \<Longrightarrow> a < b \<Longrightarrow> b \<le> 7 \<Longrightarrow> powerLevelDbm a < powerLevelDbm b"
proof -
  assume ab: "0 \<le> a" "a < b" "b \<le> 7"
  have "sorted_wrt (<) kLevelDbm" "length kLevelDbm = 8" by (simp_all add: kLevelDbm_def)
  then have "\<forall>i j. i < j \<and> j < 8 \<longrightarrow> kLevelDbm ! i < kLevelDbm ! j" by (simp add: sorted_wrt_iff_nth_less)
  moreover have "nat a < nat b" "nat a < 8" "nat b < 8" using ab by auto
  ultimately show ?thesis using ab by (simp add: powerLevelDbm_def clampInt_def)
qed

lemma powerLevelDbm_mono: "0 \<le> a \<Longrightarrow> a \<le> b \<Longrightarrow> b \<le> 7 \<Longrightarrow> powerLevelDbm a \<le> powerLevelDbm b"
  using powerLevelDbm_strict [of a b] by (cases "a = b") auto

lemma fold_last: "fold (\<lambda>l level. if P l then l else level) xs a = (if filter P xs = [] then a else last (filter P xs))"
  by (induction xs arbitrary: a) auto

lemma level_up_to_spec:
  assumes "mn \<le> mx" "0 \<le> mn" "mx \<le> 7"
  shows "mn \<le> level_up_to mn mx target \<and> level_up_to mn mx target \<le> mx \<and>
    (level_up_to mn mx target = mn \<or> powerLevelDbm (level_up_to mn mx target) \<le> target) \<and>
    (\<forall>l. mn \<le> l \<and> l \<le> mx \<and> powerLevelDbm l \<le> target \<longrightarrow> l \<le> level_up_to mn mx target)"
proof -
  let ?xs = "filter (\<lambda>l. powerLevelDbm l \<le> target) [mn..mx]"
  have up: "level_up_to mn mx target = (if ?xs = [] then mn else last ?xs)"
    unfolding level_up_to_def by (rule fold_last)
  show ?thesis
  proof (cases "?xs = []")
    case True
    then have "\<forall>l. mn \<le> l \<and> l \<le> mx \<longrightarrow> \<not> powerLevelDbm l \<le> target" by (simp add: filter_empty_conv)
    then show ?thesis using True assms up by auto
  next
    case False
    have "last ?xs \<in> set ?xs" by (rule last_in_set [OF False])
    moreover have "l \<le> last ?xs" if l: "l \<in> set ?xs" for l
    proof -
      have "sorted ?xs" by (rule sorted_wrt_filter) simp
      obtain ys where ys: "?xs = ys @ [last ?xs]" using False by (metis append_butlast_last_id)
      have "sorted (ys @ [last ?xs])" using \<open>sorted ?xs\<close> ys by metis
      moreover have "l \<in> set ys \<or> l = last ?xs" using l ys by (metis Un_iff empty_iff insert_iff list.set set_append)
      ultimately show ?thesis by (auto simp: sorted_append)
    qed
    ultimately show ?thesis using False up by auto
  qed
qed

text \<open>The descent ends: each round takes one off a level that stays at or above the minimum.\<close>

lemma level_down_to_spec:
  assumes "mn \<le> level"
  shows "\<exists>l. level_down_to mn c level = Some l \<and> mn \<le> l \<and> l \<le> level \<and>
    (l = mn \<or> powerLevelDbm l \<le> c) \<and> (\<forall>k. l < k \<and> k \<le> level \<longrightarrow> powerLevelDbm k > c)"
  using assms
proof (induction "nat (level - mn)" arbitrary: level rule: less_induct)
  case less
  show ?case
  proof (cases "level > mn \<and> powerLevelDbm level > c")
    case False
    then show ?thesis using less.prems
      by (intro exI [of _ level]) (auto simp: level_down_to_def while_option_unfold)
  next
    case True
    then have step: "level_down_to mn c level = level_down_to mn c (level - 1)"
      unfolding level_down_to_def by (subst while_option_unfold) simp
    obtain l where l: "level_down_to mn c (level - 1) = Some l" "mn \<le> l" "l \<le> level - 1"
      "l = mn \<or> powerLevelDbm l \<le> c" "\<forall>k. l < k \<and> k \<le> level - 1 \<longrightarrow> powerLevelDbm k > c"
      using less.hyps [of "level - 1"] True by auto
    have "\<forall>k. l < k \<and> k \<le> level \<longrightarrow> powerLevelDbm k > c"
      using l(5) True by (metis int_le_real_less le_less zle_diff1_eq)
    then show ?thesis using l step by (intro exI [of _ l]) auto
  qed
qed

subsection \<open>Well-formed layouts\<close>

definition layout_ok :: "hardware_layout \<Rightarrow> bool" where
  "layout_ok hw \<longleftrightarrow> length (hw_radio hw) = 2 \<and> length (hw_power_values hw) = 8 \<and>
     length (hw_power_values_dual hw) = 8 \<and> hw_power_values_count hw \<le> 8 \<and> hw_power_values_dual_count hw \<le> 8 \<and>
     length (hw_radio_rfsw_ctrl hw) = 8 \<and> hw_radio_rfsw_ctrl_count hw \<le> 8 \<and>
     hw_power_min hw \<le> hw_power_default hw \<and> hw_power_default hw \<le> hw_power_max hw \<and> hw_power_max hw \<le> 7 \<and>
     text_buf 128 (hw_product_name hw) \<and> text_buf 16 (hw_device_name hw) \<and>
     text_buf 15 (hw_flashed_name hw) \<and> text_buf 32 (hw_flashed_passphrase hw)"

lemma HardwareLayout_ok: "layout_ok HardwareLayout"
  by (simp add: layout_ok_def HardwareLayout_def text_buf_def)

lemma clampInt_bounds: "lo \<le> hi \<Longrightarrow> lo \<le> clampInt v lo hi \<and> clampInt v lo hi \<le> hi"
  by (simp add: clampInt_def)

lemma readTable_bounds:
  "readTable api doc key out cap = (t, n) \<Longrightarrow> length out = 8 \<Longrightarrow> cap \<le> 8 \<Longrightarrow> length t = 8 \<and> n \<le> cap"
  by (auto simp: readTable_def Let_def split: option.splits)

lemma read_power_ok: "layout_ok out \<Longrightarrow> layout_ok (read_power api doc out)"
proof -
  assume ok: "layout_ok out"
  obtain v n where v: "readTable api doc ''power_values'' (hw_power_values out) 8 = (v, n)" by fastforce
  obtain d m where d: "readTable api doc ''power_values_dual'' (hw_power_values_dual out) 8 = (d, m)" by fastforce
  define mn where "mn = clampInt (int_or api doc ''power_min'' 0) 0 7"
  define mx where "mx = clampInt (int_or api doc ''power_max'' mn) mn 7"
  define df where "df = clampInt (int_or api doc ''power_default'' mn) mn mx"
  have "0 \<le> mn" "mn \<le> 7" using clampInt_bounds [of 0 7] by (simp_all add: mn_def)
  moreover from this have "mn \<le> mx" "mx \<le> 7" using clampInt_bounds [of mn 7] by (simp_all add: mx_def)
  moreover from this have "mn \<le> df" "df \<le> mx" using clampInt_bounds [of mn mx] by (simp_all add: df_def)
  ultimately have "nat mn \<le> nat df" "nat df \<le> nat mx" "nat mx \<le> 7" by auto
  moreover have "length v = 8" "n \<le> 8" "length d = 8" "m \<le> 8"
    using readTable_bounds [OF v] readTable_bounds [OF d] ok by (auto simp: layout_ok_def)
  ultimately show ?thesis
    using ok
    by (simp add: read_power_def v d mn_def [symmetric] mx_def [symmetric] df_def [symmetric] Let_def layout_ok_def)
qed

lemma parseLayoutJson_ok: "layout_ok out \<Longrightarrow> layout_ok (fst (parseLayoutJson api json out))"
proof -
  assume ok: "layout_ok out"
  have "layout_ok (read_rfsw api doc (read_flags api doc (read_pins api doc out)))" for doc
    using ok by (auto simp: layout_ok_def read_rfsw_def read_flags_def read_pins_def Let_def split: option.split)
  then show ?thesis using ok by (auto simp: parseLayoutJson_def split: sum.split intro: read_power_ok)
qed

lemma parseOptionsJson_ok: "layout_ok out \<Longrightarrow> layout_ok (parseOptionsJson api json out)"
  by (simp add: parseOptionsJson_def layout_ok_def text_buf_snprintf Let_def split: sum.split option.split)

lemma loadFromTrailer_ok:
  assumes "layout_ok hw" "\<And>a n bs. flashRead a n = Some bs \<Longrightarrow> length bs = n"
  shows "layout_ok (fst (loadFromTrailer api flashRead hw))"
proof -
  have o: "layout_ok (read_options api flashRead hw)"
    using assms(1) by (simp add: read_options_def parseOptionsJson_ok split: option.split)
  have names: "text_buf 128 (take 128 raw @ [0])" "text_buf 16 (take 16 (drop 128 raw) @ [0])"
    if "flashRead 0 144 = Some raw" for raw
    using assms(2) [OF that] by (simp_all add: text_buf_def nth_append)
  have n: "layout_ok (h\<lparr>hw_product_name := a, hw_device_name := b, hw_source := c\<rparr>)"
    if "layout_ok h" "text_buf 128 a" "text_buf 16 b" for h a b c
    using that by (simp add: layout_ok_def)
  have p: "layout_ok (fst (parseLayoutJson api json (read_options api flashRead hw)))" for json
    by (rule parseLayoutJson_ok [OF o])
  show ?thesis
  proof (cases "flashRead 0 144")
    case (Some raw)
    note f = names [OF Some]
    show ?thesis
    proof (cases "flashRead 656 2048")
      case (Some json)
      obtain h e where h: "parseLayoutJson api (cstr json) (read_options api flashRead hw) = (h, e)" by fastforce
      then have "layout_ok h" using p by (metis fst_conv)
      then show ?thesis
        using \<open>flashRead 0 144 = Some raw\<close> Some assms(1) o h n [OF _ f]
        by (simp add: loadFromTrailer_def Let_def split: option.split)
    qed (use Some assms(1) o in \<open>simp add: loadFromTrailer_def Let_def\<close>)
  qed (use assms(1) in \<open>simp add: loadFromTrailer_def\<close>)
qed

lemma loadFromFile_ok: "layout_ok hw \<Longrightarrow> layout_ok (fst (loadFromFile api file hw))"
proof -
  assume ok: "layout_ok hw"
  have s: "layout_ok (h\<lparr>hw_source := c\<rparr>)" if "layout_ok h" for h c using that by (simp add: layout_ok_def)
  have "layout_ok (fst (parseLayoutJson api json hw))" for json by (rule parseLayoutJson_ok [OF ok])
  with s ok show ?thesis
    by (auto simp: loadFromFile_def split: option.split prod.split dest: sym) (metis fst_conv)+
qed

lemma choosePower_ends:
  assumes ok: "layout_ok hw"
  shows "\<exists>c. choosePower hw chip high_band requested cap_dbm = Some c"
proof -
  obtain vals count where t: "power_table hw chip high_band = (vals, count)" by fastforce
  define mn where "mn = int (hw_power_min hw)"
  define mx where "mx = clampInt (int (hw_power_max hw)) mn (mn + int count - 1)"
  show ?thesis
  proof (cases "\<not> hw_has_power_table hw \<or> count = 0")
    case True
    then show ?thesis by (simp add: choosePower_def t Let_def split: prod.split)
  next
    case False
    then have b: "mn \<le> mx" "0 \<le> mn" "mx \<le> 7"
      using ok clampInt_bounds [of mn "mn + int count - 1" "int (hw_power_max hw)"]
      by (auto simp: layout_ok_def mn_def mx_def clampInt_def)
    show ?thesis
      using False level_up_to_spec [OF b, of requested] level_up_to_spec [OF b, of kDefaultLoraDbm]
        level_down_to_spec [of mn "level_up_to mn mx requested" cap_dbm]
        level_down_to_spec [of mn "level_up_to mn mx kDefaultLoraDbm" cap_dbm]
      by (auto simp: choosePower_def t Let_def simp flip: mn_def mx_def)
  qed
qed

section \<open>Properties\<close>

text \<open>The power choice ends on every well-formed layout, and with a power table it is the best
  allowed one: it stays in the table and in the levels the table covers, the level is the highest
  that is neither above what was asked for nor above the ceiling of the band, and only when even
  the lowest level is above one of them is it that lowest level.\<close>

theorem choosePower_best_level:
  assumes "layout_ok hw" "hw_has_power_table hw" "power_table hw chip high_band = (values, count)" "0 < count"
  shows "\<exists>c. choosePower hw chip high_band requested cap_dbm = Some c \<and>
    (let l = pc_level c; mn = int (hw_power_min hw); mx = min (int (hw_power_max hw)) (mn + int count - 1);
         wanted = (if requested \<noteq> 0 then requested else kDefaultLoraDbm)
     in mn \<le> l \<and> l \<le> mx \<and> nat (l - mn) < length values \<and>
        pc_chip_dbm c = elrsPowerToDbm chip (values ! nat (l - mn)) (hw_radio_rfo_hf hw) \<and>
        pc_output_dbm c = of_int (powerLevelDbm l) \<and>
        (l = mn \<or> powerLevelDbm l \<le> min wanted cap_dbm) \<and>
        (\<forall>k. mn \<le> k \<and> k \<le> mx \<and> powerLevelDbm k \<le> min wanted cap_dbm \<longrightarrow> k \<le> l))"
proof -
  define mn where "mn = int (hw_power_min hw)"
  define mx where "mx = min (int (hw_power_max hw)) (mn + int count - 1)"
  define wanted where "wanted = (if requested \<noteq> 0 then requested else kDefaultLoraDbm)"
  define u where "u = level_up_to mn mx wanted"
  have b: "mn \<le> mx" "0 \<le> mn" "mx \<le> 7" and len: "length values = 8" "count \<le> 8"
    using assms(1,3,4) by (auto simp: layout_ok_def mn_def mx_def power_table_def split: if_splits)
  have mx: "clampInt (int (hw_power_max hw)) mn (mn + int count - 1) = mx"
    using assms(1,4) by (simp add: clampInt_def mx_def mn_def layout_ok_def min_def)
  have u: "mn \<le> u" "u \<le> mx" "u = mn \<or> powerLevelDbm u \<le> wanted"
    "\<forall>l. mn \<le> l \<and> l \<le> mx \<and> powerLevelDbm l \<le> wanted \<longrightarrow> l \<le> u"
    using level_up_to_spec [OF b, of wanted] by (simp_all add: u_def)
  obtain l where l: "level_down_to mn cap_dbm u = Some l" "mn \<le> l" "l \<le> u" "l = mn \<or> powerLevelDbm l \<le> cap_dbm"
    "\<forall>k. l < k \<and> k \<le> u \<longrightarrow> powerLevelDbm k > cap_dbm"
    using level_down_to_spec [OF u(1), of cap_dbm] by blast
  have best: "l = mn \<or> powerLevelDbm l \<le> min wanted cap_dbm"
    using l(2-4) u(2,3) b powerLevelDbm_mono [of l u] by fastforce
  have "k \<le> l" if "mn \<le> k" "k \<le> mx" "powerLevelDbm k \<le> min wanted cap_dbm" for k
    using that u(4) l(5) by force
  moreover have "choosePower hw chip high_band requested cap_dbm =
      Some \<lparr>pc_chip_dbm = elrsPowerToDbm chip (values ! nat (l - mn)) (hw_radio_rfo_hf hw),
        pc_output_dbm = of_int (powerLevelDbm l), pc_level = l\<rparr>"
    using assms(2,4) l(1) unfolding u_def wanted_def
    by (simp add: choosePower_def assms(3) Let_def mx split: if_splits flip: mn_def)
  moreover have "nat (l - mn) < length values" "l \<le> mx" using l(2,3) u(2) len by (auto simp: mx_def)
  ultimately show ?thesis
    unfolding Let_def mn_def [symmetric] mx_def [symmetric] wanted_def [symmetric] using l(2) best by auto
qed

definition sample_layout :: hardware_layout where
  "sample_layout = HardwareLayout\<lparr>hw_has_power_table := True, hw_power_values := [0, 3, 6, 10, 13, 0, 0, 0],
     hw_power_values_count := 4, hw_power_max := 3\<rparr>"

lemma sample_layout_ok: "layout_ok sample_layout"
  using HardwareLayout_ok by (simp add: layout_ok_def sample_layout_def HardwareLayout_def)

theorem choosePower_best_level_witness:
  "\<exists>c. choosePower sample_layout SX128x True 17 14 = Some c \<and> 0 \<le> pc_level c \<and> pc_level c \<le> 3"
  using choosePower_best_level [OF sample_layout_ok, of SX128x True "[0, 3, 6, 10, 13, 0, 0, 0]" 4 17 14]
  by (auto simp: sample_layout_def power_table_def HardwareLayout_def Let_def)

text \<open>C30: Every board ends with a usable layout: whatever the flash behind the image and the file hold,
  text or noise, configured or not, the layout that boot ends with is well formed, every table and
  text inside its bounds, and the power choice on it ends for every chip, band, request and
  ceiling.\<close>

theorem loaded_layout_usable:
  assumes "layout_ok (compiled HardwareLayout)" "\<And>a n bs. flashRead a n = Some bs \<Longrightarrow> length bs = n"
  shows "layout_ok (loadHardwareLayout api compiled flashRead file) \<and>
    (\<exists>c. choosePower (loadHardwareLayout api compiled flashRead file) chip high_band requested cap_dbm = Some c)"
proof -
  have "layout_ok (loadHardwareLayout api compiled flashRead file)"
    unfolding loadHardwareLayout_def by (intro loadFromFile_ok loadFromTrailer_ok assms)
  then show ?thesis by (blast intro: choosePower_ends)
qed

definition sample_layout_api :: "unit layout_api" where
  "sample_layout_api = \<lparr>lj_parse = (\<lambda>_ _. Inr ()), lj_filter_overflowed = (\<lambda>_. False),
     lj_overflowed = (\<lambda>_. False), lj_is_object = (\<lambda>_. True), lj_get = (\<lambda>v _. v),
     lj_int = (\<lambda>_. Some 3), lj_as_int = (\<lambda>_. 12), lj_bool = (\<lambda>_. None), lj_str = (\<lambda>_. None),
     lj_array = (\<lambda>_. Some [(), (), ()])\<rparr>"

theorem loaded_layout_usable_witness:
  "\<exists>c. choosePower (loadHardwareLayout sample_layout_api (\<lambda>hw. hw) (\<lambda>_ n. Some (replicate n 0x7B)) (Some [0x7B]))
     SX127x False 20 27 = Some c"
  using loaded_layout_usable [of "\<lambda>hw. hw" "\<lambda>_ n. Some (replicate n 0x7B)" sample_layout_api "Some [0x7B]" SX127x False 20 27]
    HardwareLayout_ok by auto

end
