(* ===== verification/Lora_Runs.thy ===== *)
theory Lora_Runs
  imports Lora_Radio Hw_Props
begin

text \<open>
  The life of a LoRa driver: any sequence of sends, service passes, power changes, interrupts and
  pops after a start, seen from the board. The commands drive a monitor of the pins and of what
  each chip is doing, and the lemmas say what every operation keeps.
\<close>

section \<open>Runs\<close>

datatype lora_op =
    SendFrame u32 byte_list
  | ServicePass lora_env
  | SetPowerTo int
  | Interrupt nat
  | PopFrame

text \<open>The state after an operation, the commands it gave and the frame it popped.\<close>

fun lora_step :: "lora_chip \<Rightarrow> lora_op \<Rightarrow> lora_radio \<Rightarrow> (lora_radio \<times> lora_cmd list \<times> rx_frame list) option" where
  "lora_step chip (SendFrame now data) r = (case lora_transmit now data r of (r, cmds) \<Rightarrow> Some (r, cmds, []))"
| "lora_step chip (ServicePass e) r = (case serviceRx chip e r of (r, cmds) \<Rightarrow> Some (r, cmds, []))"
| "lora_step chip (SetPowerTo dbm) r = map_option (\<lambda>(r, cmds). (r, cmds, [])) (lora_setPower chip dbm r)"
| "lora_step chip (Interrupt i) r = Some (if i < lr_count r then onIsr i r else r, [], [])"
| "lora_step chip PopFrame r =
     (case lora_popRx r of (r, f) \<Rightarrow> Some (r, [], case f of None \<Rightarrow> [] | Some f \<Rightarrow> [f]))"

fun lora_run :: "lora_chip \<Rightarrow> lora_op list \<Rightarrow> lora_radio \<Rightarrow> (lora_radio \<times> lora_cmd list \<times> rx_frame list) option" where
  "lora_run chip [] r = Some (r, [], [])"
| "lora_run chip (op # ops) r =
     (case lora_step chip op r of
        None \<Rightarrow> None
      | Some (r, cmds, fs) \<Rightarrow>
          (case lora_run chip ops r of
             None \<Rightarrow> None
           | Some (r, cmds', fs') \<Rightarrow> Some (r, cmds @ cmds', fs @ fs')))"

text \<open>A property of states and what has come out so far that every step keeps holds after a run,
  and the run returns.\<close>

lemma lora_run_induct:
  assumes "P r out popped done_ops"
    and "\<And>op r out popped done_ops. P r out popped done_ops \<Longrightarrow>
      \<exists>r' cmds fs. lora_step chip op r = Some (r', cmds, fs) \<and> P r' (out @ cmds) (popped @ fs) (done_ops @ [op])"
  shows "\<exists>r' cmds fs. lora_run chip ops r = Some (r', cmds, fs) \<and>
    P r' (out @ cmds) (popped @ fs) (done_ops @ ops)"
  using assms(1)
proof (induction ops arbitrary: r out popped done_ops)
  case Nil
  then show ?case by simp
next
  case (Cons op ops)
  obtain r1 c1 f1 where s: "lora_step chip op r = Some (r1, c1, f1)"
    and p: "P r1 (out @ c1) (popped @ f1) (done_ops @ [op])"
    using assms(2) [OF Cons.prems, of op] by blast
  obtain r2 c2 f2 where "lora_run chip ops r1 = Some (r2, c2, f2)"
    "P r2 ((out @ c1) @ c2) ((popped @ f1) @ f2) ((done_ops @ [op]) @ ops)"
    using Cons.IH [OF p] by blast
  with s show ?case by (simp add: exI [of _ r2])
qed

section \<open>The board\<close>

datatype rf_mode = Parked | Listening | Sending byte_list

record rf_board =
  rf_high :: "int \<Rightarrow> bool"
  rf_mode :: "nat \<Rightarrow> rf_mode"

fun rf_apply :: "lora_cmd \<Rightarrow> rf_board \<Rightarrow> rf_board" where
  "rf_apply (PinWrite p v) b = b\<lparr>rf_high := (rf_high b)(p := v)\<rparr>"
| "rf_apply (Standby i) b = b\<lparr>rf_mode := (rf_mode b)(i := Parked)\<rparr>"
| "rf_apply (StartReceive i) b = b\<lparr>rf_mode := (rf_mode b)(i := Listening)\<rparr>"
| "rf_apply (StartTransmit i data) b = b\<lparr>rf_mode := (rf_mode b)(i := Sending data)\<rparr>"
| "rf_apply (FinishTransmit i) b = b\<lparr>rf_mode := (rf_mode b)(i := Parked)\<rparr>"
| "rf_apply _ b = b"

text \<open>The pins of the front ends are distinct from one another, as far as the code needs it.\<close>

definition front_end_ok :: "hardware_layout \<Rightarrow> bool" where
  "front_end_ok hw \<longleftrightarrow>
     (\<forall>i<2. \<forall>j<2. rp_txen (hw_radio hw ! i) \<noteq> kPinNone \<longrightarrow> rp_txen (hw_radio hw ! i) \<noteq> rp_rxen (hw_radio hw ! j)) \<and>
     (hw_ant_ctrl hw \<noteq> kPinNone \<longrightarrow>
       (\<forall>i<2. hw_ant_ctrl hw \<noteq> rp_txen (hw_radio hw ! i) \<and> hw_ant_ctrl hw \<noteq> rp_rxen (hw_radio hw ! i)))"

text \<open>Safe to key radio \<open>i\<close>: every low-noise amplifier is off, no power amplifier but its own is on,
  and every other radio is parked.\<close>

definition safe_to_key :: "lora_radio \<Rightarrow> nat \<Rightarrow> rf_board \<Rightarrow> bool" where
  "safe_to_key r i b \<longleftrightarrow> i < lr_count r \<and>
     (\<forall>j<lr_count r.
        (pa_rxen (lr_chips r ! j) \<noteq> kPinNone \<longrightarrow> \<not> rf_high b (pa_rxen (lr_chips r ! j))) \<and>
        (pa_txen (lr_chips r ! j) \<noteq> kPinNone \<longrightarrow>
           rf_high b (pa_txen (lr_chips r ! j)) = (pa_txen (lr_chips r ! j) = pa_txen (lr_chips r ! i))) \<and>
        (j \<noteq> i \<longrightarrow> rf_mode b j = Parked))"

fun keys_safely :: "lora_radio \<Rightarrow> lora_cmd list \<Rightarrow> rf_board \<Rightarrow> bool" where
  "keys_safely r [] b = True"
| "keys_safely r (c # cs) b =
     ((case c of StartTransmit i data \<Rightarrow> safe_to_key r i b | _ \<Rightarrow> True) \<and> keys_safely r cs (rf_apply c b))"

text \<open>Every radio receives, its low-noise amplifier on and its power amplifier off.\<close>

definition all_listening :: "lora_radio \<Rightarrow> rf_board \<Rightarrow> bool" where
  "all_listening r b \<longleftrightarrow>
     (\<forall>j<lr_count r. rf_mode b j = Listening \<and>
        (pa_rxen (lr_chips r ! j) \<noteq> kPinNone \<longrightarrow> rf_high b (pa_rxen (lr_chips r ! j))) \<and>
        (pa_txen (lr_chips r ! j) \<noteq> kPinNone \<longrightarrow> \<not> rf_high b (pa_txen (lr_chips r ! j))))"

section \<open>Commands and the board\<close>

lemma keys_safely_append: "keys_safely r (xs @ ys) b \<longleftrightarrow> keys_safely r xs b \<and> keys_safely r ys (fold rf_apply xs b)"
  by (induction xs arbitrary: b) auto

definition no_keying :: "lora_cmd list \<Rightarrow> bool" where
  "no_keying cs \<longleftrightarrow> (\<forall>i data. StartTransmit i data \<notin> set cs)"

lemma no_keying_safe: "no_keying cs \<Longrightarrow> keys_safely r cs b"
  by (induction cs arbitrary: b) (auto simp: no_keying_def split: lora_cmd.split)

lemma no_keying_append [simp]: "no_keying (xs @ ys) \<longleftrightarrow> no_keying xs \<and> no_keying ys"
  and no_keying_Nil [simp]: "no_keying []"
  by (auto simp: no_keying_def)

text \<open>A loop that writes one set of pins low and another high, and one that writes both low.\<close>

definition pins_hi_lo :: "(nat \<Rightarrow> int) \<Rightarrow> (nat \<Rightarrow> int) \<Rightarrow> bool \<Rightarrow> nat list \<Rightarrow> lora_cmd list" where
  "pins_hi_lo lo hi v is = concat (map (\<lambda>i. write_pin (lo i) False @ write_pin (hi i) v) is)"

lemma pins_mode [simp]: "rf_mode (fold rf_apply (write_pin p v) b) = rf_mode b"
  "rf_mode (fold rf_apply (pins_hi_lo lo hi v is) b) = rf_mode b"
  by (simp add: write_pin_def) (induction "is" arbitrary: b, auto simp: pins_hi_lo_def write_pin_def)

lemma write_pin_high: "rf_high (fold rf_apply (write_pin p v) b) q = (if p \<noteq> kPinNone \<and> q = p then v else rf_high b q)"
  by (simp add: write_pin_def)

lemma pins_high:
  assumes "v \<Longrightarrow> \<forall>i\<in>set is. \<forall>j\<in>set is. lo i \<noteq> kPinNone \<longrightarrow> lo i \<noteq> hi j"
  shows "rf_high (fold rf_apply (pins_hi_lo lo hi v is) b) q =
    (if q \<noteq> kPinNone \<and> q \<in> hi ` set is then v
     else if q \<noteq> kPinNone \<and> q \<in> lo ` set is then False else rf_high b q)"
  using assms
proof (induction "is" arbitrary: b)
  case Nil
  then show ?case by (simp add: pins_hi_lo_def)
next
  case (Cons i js)
  have IH: "rf_high (fold rf_apply (pins_hi_lo lo hi v js) b) q =
    (if q \<noteq> kPinNone \<and> q \<in> hi ` set js then v
     else if q \<noteq> kPinNone \<and> q \<in> lo ` set js then False else rf_high b q)" for b
    using Cons.prems by (intro Cons.IH) auto
  have "v \<Longrightarrow> lo j \<noteq> kPinNone \<Longrightarrow> j \<in> set (i # js) \<Longrightarrow> k \<in> set (i # js) \<Longrightarrow> lo j \<noteq> hi k" for j k
    using Cons.prems by auto
  then have d: "v \<Longrightarrow> lo j \<noteq> kPinNone \<Longrightarrow> j \<in> set js \<Longrightarrow> lo j \<noteq> hi i" for j by auto
  have "pins_hi_lo lo hi v (i # js) = write_pin (lo i) False @ write_pin (hi i) v @ pins_hi_lo lo hi v js"
    by (simp add: pins_hi_lo_def)
  then have "rf_high (fold rf_apply (pins_hi_lo lo hi v (i # js)) b) q =
    (if q \<noteq> kPinNone \<and> q \<in> hi ` set js then v else if q \<noteq> kPinNone \<and> q \<in> lo ` set js then False
     else if hi i \<noteq> kPinNone \<and> q = hi i then v else if lo i \<noteq> kPinNone \<and> q = lo i then False else rf_high b q)"
    by (auto simp only: fold_append comp_apply IH write_pin_high)
  then show ?case using d by (cases v) (auto, metis+)
qed

lemma no_keying_pins [simp]: "no_keying (write_pin p v)" "no_keying (pins_hi_lo lo hi v is)"
  "no_keying (map StartReceive is)" "no_keying (map Standby is)" "no_keying (outputLow p)"
  by (auto simp: no_keying_def write_pin_def pins_hi_lo_def outputLow_def)

lemma fold_standby [simp]:
  "rf_mode (fold rf_apply (map Standby is) b) j = (if j \<in> set is then Parked else rf_mode b j)"
  "rf_high (fold rf_apply (map Standby is) b) = rf_high b"
  by (induction "is" arbitrary: b) auto

lemma fold_receive [simp]:
  "rf_mode (fold rf_apply (map StartReceive is) b) j = (if j \<in> set is then Listening else rf_mode b j)"
  "rf_high (fold rf_apply (map StartReceive is) b) = rf_high b"
  by (induction "is" arbitrary: b) auto

section \<open>The invariant of a started driver\<close>

text \<open>The pins of the radios are those of the layout's.\<close>

definition pins_ok :: "lora_radio \<Rightarrow> bool" where
  "pins_ok r \<longleftrightarrow>
     (\<forall>i<lr_count r. \<forall>j<lr_count r. pa_txen (lr_chips r ! i) \<noteq> kPinNone \<longrightarrow>
        pa_txen (lr_chips r ! i) \<noteq> pa_rxen (lr_chips r ! j)) \<and>
     (lr_ant_pin r \<noteq> kPinNone \<longrightarrow> (\<forall>i<lr_count r.
        lr_ant_pin r \<noteq> pa_txen (lr_chips r ! i) \<and> lr_ant_pin r \<noteq> pa_rxen (lr_chips r ! i)))"

definition lora_inv :: "lora_radio \<Rightarrow> bool" where
  "lora_inv r \<longleftrightarrow> length (lr_chips r) = 2 \<and> 0 < lr_count r \<and> lr_count r \<le> 2 \<and> lr_tx_index r < lr_count r \<and>
     lr_ant r < 2 \<and> length (lr_ant_rssi r) = 2 \<and> layout_ok (lr_hw r) \<and> ts_inv (lr_pending r) \<and>
     rb_inv (lr_rx r) \<and> pins_ok r"

lemma frontEndRx_pins: "frontEndRx r =
    pins_hi_lo (\<lambda>i. pa_txen (lr_chips r ! i)) (\<lambda>i. pa_rxen (lr_chips r ! i)) True (lora_chips r)"
  by (simp add: frontEndRx_def pins_hi_lo_def)

lemma frontEndTx_pins: "frontEndTx r k =
    pins_hi_lo (\<lambda>i. pa_rxen (lr_chips r ! i)) (\<lambda>i. pa_txen (lr_chips r ! i)) False (lora_chips r) @
    write_pin (pa_txen (lr_chips r ! k)) True"
  by (simp add: frontEndTx_def pins_hi_lo_def)

text \<open>Whatever the board was doing, \<open>receiveAll\<close> leaves it listening, and \<open>startTx\<close> keys it safely.\<close>

lemma receiveAll_listens:
  assumes "pins_ok r"
  shows "all_listening r (fold rf_apply (receiveAll r) b)"
proof -
  have d: "\<forall>i\<in>set (lora_chips r). \<forall>j\<in>set (lora_chips r). pa_txen (lr_chips r ! i) \<noteq> kPinNone \<longrightarrow>
      pa_txen (lr_chips r ! i) \<noteq> pa_rxen (lr_chips r ! j)"
    using assms by (auto simp: pins_ok_def)
  show ?thesis
    unfolding all_listening_def receiveAll_def frontEndRx_pins
    using d by (simp add: pins_high [OF d]) auto
qed

lemma startTx_keys_safely:
  assumes "pins_ok r" "lr_tx_index r < lr_count r"
  shows "keys_safely r (snd (startTx now data r)) b"
proof -
  let ?k = "lr_tx_index r"
  have d: "\<And>i j. i < lr_count r \<Longrightarrow> j < lr_count r \<Longrightarrow> pa_txen (lr_chips r ! i) \<noteq> kPinNone \<Longrightarrow>
      pa_txen (lr_chips r ! i) \<noteq> pa_rxen (lr_chips r ! j)"
    using assms by (auto simp: pins_ok_def)
  let ?pre = "map Standby (filter (\<lambda>i. i \<noteq> ?k) (lora_chips r)) @ frontEndTx r ?k"
  have "no_keying ?pre" by (simp add: frontEndTx_pins)
  moreover have "safe_to_key r ?k (fold rf_apply ?pre b)"
    unfolding safe_to_key_def frontEndTx_pins using assms(2) d
    by (auto simp: write_pin_high pins_high) metis+
  ultimately show ?thesis by (simp add: startTx_def keys_safely_append no_keying_safe)
qed

section \<open>What the stages of a pass leave alone\<close>

definition same_wires :: "lora_radio \<Rightarrow> lora_radio \<Rightarrow> bool" where
  "same_wires r r' \<longleftrightarrow> lr_count r' = lr_count r \<and> map pa_txen (lr_chips r') = map pa_txen (lr_chips r) \<and>
     map pa_rxen (lr_chips r') = map pa_rxen (lr_chips r) \<and> lr_hw r' = lr_hw r \<and> lr_band r' = lr_band r \<and>
     lr_ant_pin r' = lr_ant_pin r"

definition same_tx :: "lora_radio \<Rightarrow> lora_radio \<Rightarrow> bool" where
  "same_tx r r' \<longleftrightarrow> lr_transmitting r' = lr_transmitting r \<and> lr_tx_start_ms r' = lr_tx_start_ms r \<and>
     lr_pending r' = lr_pending r \<and> lr_power_pending r' = lr_power_pending r \<and>
     lr_tx_dropped r' = lr_tx_dropped r \<and> lr_tx_timeouts r' = lr_tx_timeouts r"

definition same_rx :: "lora_radio \<Rightarrow> lora_radio \<Rightarrow> bool" where
  "same_rx r r' \<longleftrightarrow> lr_rx r' = lr_rx r \<and> lr_last_rx r' = lr_last_rx r"

definition path_ok :: "lora_radio \<Rightarrow> bool" where
  "path_ok r \<longleftrightarrow> lr_tx_index r < lr_count r \<and> lr_ant r < 2 \<and> length (lr_ant_rssi r) = 2"

lemmas same_defs = same_wires_def same_tx_def same_rx_def path_ok_def

lemma same_trans:
  "same_wires r s \<Longrightarrow> same_wires s t \<Longrightarrow> same_wires r t" "same_tx r s \<Longrightarrow> same_tx s t \<Longrightarrow> same_tx r t"
  "same_rx r s \<Longrightarrow> same_rx s t \<Longrightarrow> same_rx r t"
  by (simp_all add: same_defs)

lemma map_field_same [simp]: "f x = f (xs ! i) \<Longrightarrow> map f (xs[i := x]) = map f xs"
  by (cases "i < length xs") (simp_all add: map_update list_update_same_conv list_update_beyond)

lemma same_wires_chips: "same_wires r r' \<Longrightarrow> length (lr_chips r') = length (lr_chips r)"
  unfolding same_wires_def by (metis length_map)

lemma same_wires_pins:
  assumes "same_wires r r'" "i < length (lr_chips r)"
  shows "pa_txen (lr_chips r' ! i) = pa_txen (lr_chips r ! i)" "pa_rxen (lr_chips r' ! i) = pa_rxen (lr_chips r ! i)"
  using assms same_wires_chips [OF assms(1)] unfolding same_wires_def by (metis nth_map)+

lemma same_wires_board:
  assumes "same_wires r r'" "lr_count r \<le> length (lr_chips r)"
  shows "all_listening r' b = all_listening r b" "safe_to_key r' i b = safe_to_key r i b" "pins_ok r' = pins_ok r"
proof -
  have c: "lr_count r' = lr_count r" "lr_ant_pin r' = lr_ant_pin r" using assms(1) by (simp_all add: same_wires_def)
  note p = same_wires_pins [OF assms(1) less_le_trans [OF _ assms(2)]]
  show "all_listening r' b = all_listening r b" "pins_ok r' = pins_ok r"
    by (simp_all add: all_listening_def pins_ok_def c p cong: conj_cong)
  show "safe_to_key r' i b = safe_to_key r i b"
    by (auto simp: safe_to_key_def c p)
qed

lemma same_wires_keys:
  assumes "same_wires r r'" "lr_count r \<le> length (lr_chips r)"
  shows "keys_safely r' cs b = keys_safely r cs b"
  by (induction cs arbitrary: b) (auto simp: same_wires_board [OF assms] split: lora_cmd.split)

lemma lora_inv_cong:
  assumes "lora_inv r" "same_wires r r'" "path_ok r'" "ts_inv (lr_pending r')" "rb_inv (lr_rx r')"
  shows "lora_inv r'"
proof -
  have "lr_count r \<le> length (lr_chips r)" using assms(1) by (simp add: lora_inv_def)
  from same_wires_board(3) [OF assms(2) this] same_wires_chips [OF assms(2)] assms show ?thesis
    by (simp add: lora_inv_def same_wires_def path_ok_def)
qed

lemma lora_inv_path: "lora_inv r \<Longrightarrow> path_ok r"
  by (simp add: lora_inv_def path_ok_def)

subsection \<open>Choosing the path, merging and handing up\<close>

definition quiet_step :: "lora_radio \<Rightarrow> lora_radio \<Rightarrow> bool" where
  "quiet_step r r' \<longleftrightarrow> same_wires r r' \<and> same_tx r r' \<and> (path_ok r \<longrightarrow> path_ok r')"

lemma quiet_step_refl [simp]: "quiet_step r r"
  by (simp add: quiet_step_def same_defs)

lemma quiet_step_trans [trans]: "quiet_step r s \<Longrightarrow> quiet_step s t \<Longrightarrow> quiet_step r t"
  unfolding quiet_step_def by (blast intro: same_trans)

lemma quiet_fold: "(\<And>x s. quiet_step s (f x s)) \<Longrightarrow> quiet_step r (fold f xs r)"
  by (induction xs arbitrary: r) (auto intro: quiet_step_trans)

lemma same_rx_fold: "(\<And>x s. same_rx s (f x s)) \<Longrightarrow> same_rx r (fold f xs r)"
  by (induction xs arbitrary: r) (auto simp: same_rx_def)

lemma note_path_quiet: "quiet_step r (note_path x r)" "same_rx r (note_path x r)"
  by (auto simp: note_path_def quiet_step_def same_defs Let_def split: prod.split)

lemma drift_quiet: "quiet_step r (drift_unheard h i r)" "same_rx r (drift_unheard h i r)"
  by (auto simp: drift_unheard_def quiet_step_def same_defs Let_def)

lemma chooseAntenna_quiet: "quiet_step r (fst (chooseAntenna r))" "same_rx r (fst (chooseAntenna r))"
  by (auto simp: chooseAntenna_def quiet_step_def same_defs Let_def)

lemma choose_path_quiet: "quiet_step r (fst (choose_path got r))" "same_rx r (fst (choose_path got r))"
proof -
  define r1 where "r1 = fold note_path got r"
  define r2 where "r2 = (if lr_count r1 > 1 \<and> got \<noteq> [] then
      let r = fold (drift_unheard (map fst got)) (lora_chips r1) r1
      in r\<lparr>lr_tx_index := (if pa_rssi_avg (lr_chips r ! 1) > pa_rssi_avg (lr_chips r ! 0) then 1 else 0)\<rparr>
      else r1)"
  have a: "quiet_step r r1" "same_rx r r1"
    unfolding r1_def by (rule quiet_fold same_rx_fold, rule note_path_quiet)+
  have d: "quiet_step r1 (fold (drift_unheard h) xs r1)" "same_rx r1 (fold (drift_unheard h) xs r1)" for h xs
    by (rule quiet_fold same_rx_fold, rule drift_quiet)+
  have t: "quiet_step s (s\<lparr>lr_tx_index := k\<rparr>)" "same_rx s (s\<lparr>lr_tx_index := k\<rparr>)" if "k < lr_count s" for s k
    using that by (simp_all add: quiet_step_def same_defs)
  have b: "quiet_step r1 r2 \<and> same_rx r1 r2"
  proof (cases "lr_count r1 > 1 \<and> got \<noteq> []")
    case True
    let ?s = "fold (drift_unheard (map fst got)) (lora_chips r1) r1"
    have "lr_count ?s > 1" using d(1) [of "map fst got" "lora_chips r1"] True
      by (simp add: quiet_step_def same_wires_def)
    then show ?thesis unfolding r2_def Let_def using True d [of "map fst got" "lora_chips r1"] t
      by (auto intro!: quiet_step_trans [OF d(1) t(1)] same_trans(3) [OF d(2) t(2)])
  qed (auto simp: r2_def same_rx_def)
  have e: "choose_path got r = (if got \<noteq> [] \<and> lr_ant_pin r2 \<noteq> kPinNone then chooseAntenna r2 else (r2, []))"
    unfolding choose_path_def r2_def r1_def by (simp only: Let_def)
  show "quiet_step r (fst (choose_path got r))" "same_rx r (fst (choose_path got r))"
    unfolding e using a b chooseAntenna_quiet [of r2]
    by (auto intro: quiet_step_trans same_trans(3))
qed

lemma choose_path_cmds:
  "\<exists>v. snd (choose_path got r) = [] \<or> lr_ant_pin r \<noteq> kPinNone \<and> snd (choose_path got r) = write_pin (lr_ant_pin r) v"
proof -
  have "lr_ant_pin (fst (choose_path got r)) = lr_ant_pin r"
    using choose_path_quiet(1) [of r got] by (simp add: quiet_step_def same_wires_def)
  then show ?thesis
    by (auto simp: choose_path_def chooseAntenna_def Let_def split: if_splits)
qed

lemma merge_copies_quiet: "quiet_step r (snd (merge_copies got r))" "same_rx r (snd (merge_copies got r))"
  by (auto simp: merge_copies_def quiet_step_def same_defs split: list.split)

lemma hand_up_quiet: "quiet_step r (hand_up f r)"
  by (auto simp: hand_up_def quiet_step_def same_defs)

lemma hand_up_rx: "rb_inv (lr_rx r) \<Longrightarrow> rb_inv (lr_rx (hand_up f r))"
  using ring.push_inv [of "lr_rx r" f] by (auto simp: hand_up_def)

subsection \<open>The chips of a pass\<close>

text \<open>What holds between the radio before the loop over the chips and any state of it: the only
  command is to finish a transmission, and a frame that was on the air either still is or has been
  finished in this pass.\<close>

definition in_pass :: "lora_radio \<Rightarrow> lora_radio \<times> lora_pass \<times> lora_cmd list \<Rightarrow> bool" where
  "in_pass r0 = (\<lambda>(r, p, cmds). same_wires r0 r \<and> same_rx r0 r \<and> path_ok r \<and>
     lr_pending r = lr_pending r0 \<and> lr_tx_dropped r = lr_tx_dropped r0 \<and>
     lr_tx_start_ms r = lr_tx_start_ms r0 \<and> lr_power_pending r = lr_power_pending r0 \<and>
     lr_transmitting r = (lr_transmitting r0 \<and> \<not> ps_finished p) \<and> (ps_finished p \<longrightarrow> lr_transmitting r0) \<and>
     (\<not> ps_finished p \<longrightarrow> cmds = []) \<and> set cmds \<subseteq> range FinishTransmit)"

lemma watchdog_in_pass: "path_ok r \<Longrightarrow> in_pass r (watchdog now r)"
  by (auto simp: in_pass_def watchdog_def Let_def same_defs)

lemma in_pass_irq: "in_pass r0 (r, p, cmds) \<Longrightarrow>
    in_pass r0 (r\<lparr>lr_chips := (lr_chips r)[i := (lr_chips r ! i)\<lparr>pa_irq := v\<rparr>]\<rparr>, p, cmds)"
  by (simp add: in_pass_def same_defs)

lemma in_pass_restart: "in_pass r0 (r, p, cmds) \<Longrightarrow> in_pass r0 (r, p\<lparr>ps_restart := x\<rparr>, cmds)"
  by (simp add: in_pass_def)

lemma in_pass_finish: "in_pass r0 (r, p, cmds) \<Longrightarrow> lr_transmitting r \<Longrightarrow>
    in_pass r0 (r\<lparr>lr_transmitting := False\<rparr>, p\<lparr>ps_finished := True\<rparr>, cmds @ [FinishTransmit i])"
  by (auto simp: in_pass_def same_defs)

lemma in_pass_receive:
  assumes "in_pass r0 (r, p, cmds)" "receive_frame c i (r, p) = (r', p')"
  shows "in_pass r0 (r', p', cmds)"
proof (cases "cr_read c (min (cr_len c) kRxDataSize)")
  case None
  then show ?thesis using assms by (simp add: receive_frame_def Let_def)
next
  case (Some bytes)
  then obtain v snr x got where "r' = r\<lparr>lr_last_snr_db := snr, lr_have_snr := v, lr_fault := x\<rparr>"
    "p' = p\<lparr>ps_got := got\<rparr>"
    using assms by (auto simp: receive_frame_def Let_def simp del: lora_radio.update_convs lora_pass.update_convs)
  then show ?thesis using assms(1) by (simp add: in_pass_def same_defs)
qed

lemma service_chip_in_pass:
  assumes "in_pass r0 s"
  shows "in_pass r0 (service_chip reply i s)"
proof -
  obtain r p cmds where s: "s = (r, p, cmds)" by (metis prod_cases3)
  define r1 where "r1 = r\<lparr>lr_chips := (lr_chips r)[i := (lr_chips r ! i)\<lparr>pa_irq := False\<rparr>]\<rparr>"
  have 1: "in_pass r0 (r1, p, cmds)" unfolding r1_def using assms s by (simp add: in_pass_irq)
  obtain r2 p2 where rf: "receive_frame (reply i) i (r1, p\<lparr>ps_restart := (ps_restart p)[i := True]\<rparr>) = (r2, p2)"
    by fastforce
  have 2: "in_pass r0 (r2, p2, cmds)" by (rule in_pass_receive [OF in_pass_restart [OF 1] rf])
  show ?thesis
    unfolding service_chip_def s using assms s 1 2 in_pass_finish [OF 1] in_pass_restart [OF 1]
    by (simp add: Let_def rf flip: r1_def)
qed

lemma chips_in_pass: "path_ok r \<Longrightarrow> in_pass r (fold (service_chip reply) is (watchdog now r))"
  by (rule fold_invariant [where Q = "\<lambda>_. True"]) (simp_all add: service_chip_in_pass watchdog_in_pass)

lemma finish_only: "set cmds \<subseteq> range FinishTransmit \<Longrightarrow> no_keying cmds"
  by (auto simp: no_keying_def)

subsection \<open>A whole pass\<close>

text \<open>The shape of a pass: the chips are served, the frames handed up, and what the radios do next
  follows from a state with the wires and the transmit side of the chips' loop.\<close>

lemma serviceRx_cases:
  assumes "path_ok r"
  obtains r1 p cmds ant v r2 where
    "fold (service_chip (le_reply e)) (lora_chips r) (watchdog (le_now e) r) = (r1, p, cmds)"
    "in_pass r (r1, p, cmds)"
    "r2 = fold hand_up (fst (merge_copies (map snd (ps_got p)) (fst (choose_path (ps_got p) r1))))
       (snd (merge_copies (map snd (ps_got p)) (fst (choose_path (ps_got p) r1))))"
    "quiet_step r1 r2" "ant = [] \<or> lr_ant_pin r \<noteq> kPinNone \<and> ant = write_pin (lr_ant_pin r) v"
    "serviceRx chip e r = (if lr_count r = 0 then (r, [])
       else (fst (resume chip (le_now_tx e) p r2), cmds @ ant @ snd (resume chip (le_now_tx e) p r2)))"
proof -
  obtain r1 p cmds where f: "fold (service_chip (le_reply e)) (lora_chips r) (watchdog (le_now e) r) = (r1, p, cmds)"
    by (metis prod_cases3)
  from chips_in_pass [OF assms, of "le_reply e" "lora_chips r" "le_now e"] have i: "in_pass r (r1, p, cmds)"
    by (simp add: f)
  let ?c = "fst (choose_path (ps_got p) r1)" and ?ant = "snd (choose_path (ps_got p) r1)"
  let ?m = "merge_copies (map snd (ps_got p)) ?c"
  have "lr_ant_pin r1 = lr_ant_pin r" using i by (simp add: in_pass_def same_wires_def)
  then obtain v where v: "?ant = [] \<or> lr_ant_pin r \<noteq> kPinNone \<and> ?ant = write_pin (lr_ant_pin r) v"
    using choose_path_cmds [of "ps_got p" r1] by auto
  have q: "quiet_step r1 (fold hand_up (fst ?m) (snd ?m))"
    by (rule quiet_step_trans [OF quiet_step_trans [OF choose_path_quiet(1) merge_copies_quiet(1)] quiet_fold],
        rule hand_up_quiet)
  show thesis
    by (rule that [OF f i refl q v]) (simp add: serviceRx_def f Let_def split: prod.split)
qed

section \<open>Every operation keeps the board safe\<close>

text \<open>The board's state: no frame on the air means that every radio listens.\<close>

definition board_ok :: "lora_radio \<Rightarrow> rf_board \<Rightarrow> bool" where
  "board_ok r b \<longleftrightarrow> (lr_transmitting r \<or> all_listening r b)"

definition keeps_board :: "lora_radio \<Rightarrow> lora_radio \<Rightarrow> lora_cmd list \<Rightarrow> bool" where
  "keeps_board r r' cmds \<longleftrightarrow> lora_inv r' \<and> same_wires r r' \<and>
     (\<forall>b. board_ok r b \<longrightarrow> keys_safely r cmds b \<and> board_ok r' (fold rf_apply cmds b))"

lemma startTx_board:
  assumes "lora_inv r"
  shows "keeps_board r (fst (startTx now data r)) (snd (startTx now data r))"
proof -
  have "lora_inv (r\<lparr>lr_transmitting := True, lr_tx_start_ms := now\<rparr>)"
    by (rule lora_inv_cong [OF assms]) (use assms in \<open>simp_all add: lora_inv_def same_defs\<close>)
  with assms startTx_keys_safely [of r now data] show ?thesis
    by (simp add: keeps_board_def board_ok_def startTx_def lora_inv_def same_wires_def)
qed

lemma quiet_state_board:
  assumes "lora_inv r" "same_wires r r'" "path_ok r'" "ts_inv (lr_pending r')" "rb_inv (lr_rx r')"
    "lr_transmitting r' = lr_transmitting r"
  shows "keeps_board r r' []"
proof -
  have "lr_count r \<le> length (lr_chips r)" using assms(1) by (simp add: lora_inv_def)
  with lora_inv_cong [OF assms(1-5)] assms(2,6) same_wires_board(1) [OF assms(2)] show ?thesis
    by (simp add: keeps_board_def board_ok_def)
qed

lemma transmit_board:
  assumes "lora_inv r"
  shows "keeps_board r (fst (lora_transmit now data r)) (snd (lora_transmit now data r))"
proof (cases "lr_count r = 0 \<or> \<not> lr_transmitting r")
  case True
  then show ?thesis using startTx_board [OF assms] assms by (auto simp: lora_transmit_def lora_inv_def)
next
  case False
  obtain slot ok where p: "ts_push (lr_pending r) data = (slot, ok)" by fastforce
  have "ts_inv slot" using slot.push_inv [of "lr_pending r" data] assms p by (simp add: lora_inv_def)
  then have "keeps_board r (r\<lparr>lr_pending := slot\<rparr>) []" "keeps_board r (r\<lparr>lr_pending := slot, lr_tx_dropped := n\<rparr>) []" for n
    using assms by (auto intro!: quiet_state_board simp: same_defs lora_inv_def)
  with False p show ?thesis by (cases ok) (simp_all add: lora_transmit_def)
qed

lemma no_keying_power [simp]: "no_keying (applyPower chip r)"
  by (auto simp: no_keying_def applyPower_def Let_def)

lemma no_keying_receiveAll [simp]: "no_keying (receiveAll r)"
  by (simp add: receiveAll_def frontEndRx_pins)

text \<open>Commands that key nothing and end with all radios receiving.\<close>

lemma receiving_board:
  assumes "lora_inv r" "same_wires r r'" "path_ok r'" "ts_inv (lr_pending r')" "rb_inv (lr_rx r')" "no_keying cs"
  shows "keeps_board r r' (cs @ receiveAll r')"
proof -
  have inv: "lora_inv r'" by (rule lora_inv_cong [OF assms(1-5)])
  then have "all_listening r' (fold rf_apply (cs @ receiveAll r') b)" for b
    using receiveAll_listens [of r'] by (simp add: lora_inv_def)
  then show ?thesis using inv assms(2,6)
    by (simp add: keeps_board_def board_ok_def no_keying_safe)
qed

lemma setPower_board:
  assumes "lora_inv r"
  shows "\<exists>r' cmds. lora_setPower chip dbm r = Some (r', cmds) \<and> keeps_board r r' cmds"
proof -
  obtain c where c: "choosePower (lr_hw r) chip (highBand (lr_band r)) dbm (sint (lb_max_dbm (lr_band r))) = Some c"
    using choosePower_ends assms unfolding lora_inv_def by blast
  have q: "keeps_board r (r\<lparr>lr_requested_dbm := dbm\<rparr>) []"
    "keeps_board r (r\<lparr>lr_requested_dbm := dbm, lr_power := c, lr_power_pending := True\<rparr>) []"
    "keeps_board r r' (cs @ receiveAll r')"
    if "r' = r\<lparr>lr_requested_dbm := dbm, lr_power := c\<rparr>" "no_keying cs" for cs r'
    using assms that by (auto intro!: quiet_state_board receiving_board simp: same_defs lora_inv_def)
  show ?thesis
    using q(1,2) [OF refl no_keying_Nil] q(3) [OF refl, of "map Standby (lora_chips r) @
        applyPower chip (r\<lparr>lr_requested_dbm := dbm, lr_power := c\<rparr>)"] assms
    by (simp add: lora_setPower_def Let_def c lora_inv_def)
qed

lemma pop_board:
  assumes "lora_inv r"
  shows "keeps_board r (fst (lora_popRx r)) []"
proof -
  have "rb_inv (fst (rb_pop (lr_rx r)))" using ring.pop_inv [of "lr_rx r"] assms by (simp add: lora_inv_def)
  then show ?thesis using assms
    by (auto intro!: quiet_state_board simp: same_defs lora_inv_def lora_popRx_def split: prod.split)
qed

lemma isr_board: "lora_inv r \<Longrightarrow> keeps_board r (onIsr i r) []"
  by (rule quiet_state_board) (auto simp: same_defs lora_inv_def onIsr_def)

text \<open>Receiving again on some of the radios changes nothing on a board that listens.\<close>

lemma listening_kept:
  assumes "all_listening r b" "pins_ok r" "ant = [] \<or> lr_ant_pin r \<noteq> kPinNone \<and> ant = write_pin (lr_ant_pin r) v"
  shows "all_listening r (fold rf_apply (ant @ map StartReceive is) b)"
  using assms by (auto simp: all_listening_def pins_ok_def write_pin_high)

text \<open>After any commands that key nothing, from any board: start a frame, or receive.\<close>

lemma keying_board:
  assumes "lora_inv r" "same_wires r r1" "lora_inv r1" "no_keying cs" "lr_transmitting r'"
    "same_wires r1 r'" "path_ok r'" "ts_inv (lr_pending r')" "rb_inv (lr_rx r')"
    "out = snd (startTx now data r1)"
  shows "keeps_board r r' (cs @ out)"
proof -
  have c: "lr_count r \<le> length (lr_chips r)" "lr_count r1 \<le> length (lr_chips r1)"
    using assms(1,3) by (simp_all add: lora_inv_def)
  have w: "same_wires r r'" by (rule same_trans(1) [OF assms(2,6)])
  have "keys_safely r1 out b" for b
    using startTx_keys_safely [of r1 now data b] assms(3,10) by (simp add: lora_inv_def)
  then have "keys_safely r (cs @ out) b" for b
    using same_wires_keys [OF assms(2) c(1)] no_keying_safe [OF assms(4)] by (simp add: keys_safely_append)
  with lora_inv_cong [OF assms(1) w assms(7-9)] w assms(5) show ?thesis
    by (simp add: keeps_board_def board_ok_def)
qed

lemma resume_finished:
  assumes "lora_inv r" "same_wires r r2" "lora_inv r2" "\<not> lr_transmitting r2" "ps_finished p" "no_keying pre"
  shows "keeps_board r (fst (resume chip now p r2)) (pre @ snd (resume chip now p r2))"
proof -
  define r3 where "r3 = (if lr_power_pending r2 then r2\<lparr>lr_power_pending := False\<rparr> else r2)"
  define power where "power = (if lr_power_pending r2 then applyPower chip r2 else [])"
  have w3: "same_wires r2 r3" "lora_inv r3"
    using assms(3) lora_inv_cong [OF assms(3), of r3] by (auto simp: r3_def same_defs lora_inv_def)
  have w: "same_wires r r3" by (rule same_trans(1) [OF assms(2) w3(1)])
  have pre: "no_keying (pre @ power)" using assms(6) by (simp add: power_def)
  have e: "resume chip now p r2 = (case sendPending now r3 of Some (r, cmds) \<Rightarrow> (r, power @ cmds)
      | None \<Rightarrow> (r3, power @ receiveAll r3))"
    unfolding r3_def power_def using assms(4,5) by (simp add: resume_def)
  show ?thesis
  proof (cases "ts_empty (lr_pending r3)")
    case True
    then show ?thesis using receiving_board [OF assms(1) w _ _ _ pre] w3(2)
      by (simp add: e sendPending_def lora_inv_def path_ok_def)
  next
    case False
    let ?r' = "(fst (startTx now (ts_data (lr_pending r3)) r3))\<lparr>lr_pending := ts_clear (lr_pending r3)\<rparr>"
    have "ts_inv (ts_clear (lr_pending r3))" using w3(2) by (simp add: lora_inv_def ts_defs)
    then have "keeps_board r ?r' ((pre @ power) @ snd (startTx now (ts_data (lr_pending r3)) r3))"
      by (intro keying_board [OF assms(1) w w3(2) pre _ _ _ _ _ refl])
        (use w3(2) in \<open>simp_all add: startTx_def lora_inv_def same_defs\<close>)
    with False show ?thesis by (simp add: e sendPending_def startTx_def)
  qed
qed

lemma service_board:
  assumes "lora_inv r"
  shows "keeps_board r (fst (serviceRx chip e r)) (snd (serviceRx chip e r))"
proof -
  have path: "path_ok r" and n: "0 < lr_count r" using assms by (auto simp: lora_inv_def path_ok_def)
  obtain r1 p cmds ant v r2 where
    i: "in_pass r (r1, p, cmds)"
    and r2: "r2 = fold hand_up (fst (merge_copies (map snd (ps_got p)) (fst (choose_path (ps_got p) r1))))
       (snd (merge_copies (map snd (ps_got p)) (fst (choose_path (ps_got p) r1))))"
    and q: "quiet_step r1 r2"
    and ant: "ant = [] \<or> lr_ant_pin r \<noteq> kPinNone \<and> ant = write_pin (lr_ant_pin r) v"
    and s: "serviceRx chip e r = (if lr_count r = 0 then (r, [])
       else (fst (resume chip (le_now_tx e) p r2), cmds @ ant @ snd (resume chip (le_now_tx e) p r2)))"
    by (rule serviceRx_cases [OF path, of e chip]) blast
  let ?m = "merge_copies (map snd (ps_got p)) (fst (choose_path (ps_got p) r1))"
  have "lr_rx (snd ?m) = lr_rx r"
    using i choose_path_quiet(2) [of r1 "ps_got p"] merge_copies_quiet(2) by (simp add: in_pass_def same_rx_def)
  then have rx: "rb_inv (lr_rx r2)"
    unfolding r2 using assms
    by (intro fold_invariant [where Q = "\<lambda>_. True" and P = "\<lambda>r. rb_inv (lr_rx r)"])
      (simp_all add: hand_up_rx lora_inv_def)
  have w: "same_wires r r2" "path_ok r2" "lr_pending r2 = lr_pending r"
    and t: "lr_transmitting r2 = (lr_transmitting r \<and> \<not> ps_finished p)" "ps_finished p \<longrightarrow> lr_transmitting r"
    and c: "\<not> ps_finished p \<longrightarrow> cmds = []" "no_keying cmds"
    using i q finish_only by (auto simp: in_pass_def quiet_step_def same_tx_def intro: same_trans)
  have inv: "lora_inv r2" using lora_inv_cong [OF assms w(1,2) _ rx] assms w(3) by (simp add: lora_inv_def)
  have k: "no_keying (cmds @ ant)" using c(2) ant by auto
  let ?r' = "fst (resume chip (le_now_tx e) p r2)" and ?out = "snd (resume chip (le_now_tx e) p r2)"
  have "keeps_board r ?r' (cmds @ ant @ ?out)"
  proof (cases "ps_finished p")
    case True
    with resume_finished [OF assms w(1) inv _ True k] t(1) show ?thesis by simp
  next
    case False
    show ?thesis
    proof (cases "lr_transmitting r")
      case True
      with False t(1) have "resume chip (le_now_tx e) p r2 = (r2, [])" "lr_transmitting r2" by (simp_all add: resume_def)
      with inv w(1) no_keying_safe [OF k] show ?thesis by (simp add: keeps_board_def board_ok_def)
    next
      case idle: False
      let ?cs = "map StartReceive (filter (\<lambda>i. ps_restart p ! i) (lora_chips r2))"
      have o: "resume chip (le_now_tx e) p r2 = (r2, ?cs)" "\<not> lr_transmitting r2" "cmds = []"
        using False idle t c(1) by (simp_all add: resume_def)
      have l: "all_listening r (fold rf_apply (ant @ ?cs) b)" if "all_listening r b" for b
        using listening_kept [OF that _ ant] assms by (simp add: lora_inv_def)
      have "lr_count r \<le> length (lr_chips r)" using assms by (simp add: lora_inv_def)
      moreover have "keys_safely r (ant @ ?cs) b" for b
        using k o(3) no_keying_safe [of "ant @ ?cs"] by simp
      ultimately show ?thesis
        using l inv w(1) idle o same_wires_board(1) [OF w(1)] by (simp add: keeps_board_def board_ok_def)
    qed
  qed
  with s n show ?thesis by simp
qed

lemma lora_step_board:
  assumes "lora_inv r"
  shows "\<exists>r' cmds fs. lora_step chip op r = Some (r', cmds, fs) \<and> keeps_board r r' cmds"
proof (cases op)
  case (SetPowerTo dbm)
  then show ?thesis using setPower_board [OF assms, of chip dbm] by auto
qed (use assms transmit_board service_board pop_board isr_board quiet_state_board [OF assms, of r] in
    \<open>auto simp: same_defs lora_inv_def split: prod.splits, (metis fst_conv snd_conv)+\<close>)

section \<open>Start\<close>

definition board_pins :: "hardware_layout \<Rightarrow> lora_path \<Rightarrow> bool" where
  "board_pins hw p \<longleftrightarrow> (\<exists>k<2. pa_txen p = rp_txen (hw_radio hw ! k) \<and> pa_rxen p = rp_rxen (hw_radio hw ! k))"

definition starting :: "hardware_layout \<Rightarrow> lora_radio \<Rightarrow> bool" where
  "starting hw r \<longleftrightarrow> length (lr_chips r) = 2 \<and> lr_count r \<le> 2 \<and> lr_tx_index r = 0 \<and> lr_ant r = 0 \<and>
     length (lr_ant_rssi r) = 2 \<and> lr_hw r = hw \<and> ts_inv (lr_pending r) \<and>
     lr_ant_pin r = kPinNone \<and> (\<forall>i<lr_count r. board_pins hw (lr_chips r ! i)) \<and>
     \<not> lr_transmitting r \<and> ts_empty (lr_pending r) \<and> lr_last_rx r = None \<and> lr_rx r = SpscRing 8 RxFrame"

lemma RadioLoRa_starting: "starting hw (RadioLoRa\<lparr>lr_hw := hw, lr_band := band, lr_requested_dbm := dbm\<rparr>)"
  by (simp add: starting_def RadioLoRa_def ts_empty_def TxSlot_def ts_inv_def)

lemma lora_ring_inv: "rb_inv (SpscRing 8 RxFrame)"
  by (simp add: rb_inv_def rb_capacity_def SpscRing_def)

lemma begin_board_starting:
  assumes "starting hw r" "board < 2" "begin_board chip me ok board (g, r, cmds) = (g', r', cmds')" "no_keying cmds"
  shows "starting hw r' \<and> no_keying cmds'"
proof -
  let ?p = "(lr_chips r ! lr_count r)\<lparr>pa_txen := rp_txen (hw_radio hw ! board), pa_rxen := rp_rxen (hw_radio hw ! board)\<rparr>"
  let ?r = "r\<lparr>lr_chips := (lr_chips r)[lr_count r := ?p]\<rparr>"
  have h: "lr_hw r = hw" using assms(1) by (simp add: starting_def)
  have s1: "starting hw (r\<lparr>lr_fault := True\<rparr>)" using assms(1) by (simp add: starting_def)
  have s2: "starting hw ?r" using assms(1) by (simp add: starting_def)
  have "board_pins hw ?p" using assms(2) by (auto simp: board_pins_def)
  then have s3: "starting hw (?r\<lparr>lr_count := lr_count r + 1\<rparr>)" if "lr_count r < 2"
    using assms(1) that by (simp add: starting_def nth_list_update less_Suc_eq)
  have n: "length (lr_chips r) = 2" using assms(1) by (simp add: starting_def)
  have k: "no_keying [SetPacketReceivedAction i b]" for i b by (simp add: no_keying_def)
  show ?thesis
    using assms(1,3,4) s1 s2 s3 k unfolding begin_board_def prod.case h Let_def n
    by (auto split: if_splits)
qed

lemma boards_starting:
  assumes "starting hw r" "\<forall>k\<in>set boards. k < 2" "no_keying cmds"
    "fold (begin_board chip me ok) boards (g, r, cmds) = (g', r', cmds')"
  shows "starting hw r' \<and> no_keying cmds'"
  using assms
proof (induction boards arbitrary: g r cmds)
  case (Cons k ks)
  obtain g1 r1 c1 where b: "begin_board chip me ok k (g, r, cmds) = (g1, r1, c1)" by (metis prod_cases3)
  from begin_board_starting [OF Cons.prems(1) _ b] Cons.prems(2,3) have "starting hw r1" "no_keying c1" by auto
  then show ?case using Cons.IH [of r1 c1 g1] Cons.prems(2,4) b by simp
qed simp

lemma starting_pins:
  assumes "starting hw r" "front_end_ok hw" "ap = kPinNone \<or> ap = hw_ant_ctrl hw"
  shows "pins_ok (r\<lparr>lr_ant_pin := ap\<rparr>)"
proof -
  have b: "board_pins hw (lr_chips r ! i)" if "i < lr_count r" for i using assms(1) that by (simp add: starting_def)
  show ?thesis unfolding pins_ok_def
  proof (intro conjI allI impI, goal_cases)
    case (1 i j)
    then have "i < lr_count r" "j < lr_count r" "pa_txen (lr_chips r ! i) \<noteq> kPinNone" by simp_all
    with b [of i] b [of j] obtain k l where "k < 2" "l < 2"
      "pa_txen (lr_chips r ! i) = rp_txen (hw_radio hw ! k)" "pa_rxen (lr_chips r ! j) = rp_rxen (hw_radio hw ! l)"
      by (auto simp: board_pins_def)
    with assms(2) \<open>pa_txen (lr_chips r ! i) \<noteq> kPinNone\<close> show ?case by (simp add: front_end_ok_def)
  next
    case (2 i)
    with b [of i] assms(2,3) show ?case by (auto simp: board_pins_def front_end_ok_def)
  next
    case (3 i)
    with b [of i] assms(2,3) show ?case by (auto simp: board_pins_def front_end_ok_def)
  qed
qed

text \<open>A driver that starts is in its invariant, and its commands leave every radio listening.\<close>

lemma lora_begin_board:
  assumes "layout_ok hw" "front_end_ok hw"
    "lora_begin chip me ok hw band dbm first max_radios g RadioLoRa = Some (g', r, cmds, True)"
  shows "lora_inv r" "no_keying cmds" "\<And>b. all_listening r (fold rf_apply cmds b)" "\<not> lr_transmitting r"
    "ts_empty (lr_pending r)" "lr_last_rx r = None" "lr_rx r = SpscRing 8 RxFrame" "lr_hw r = hw"
proof -
  let ?r0 = "RadioLoRa\<lparr>lr_hw := hw, lr_band := band, lr_requested_dbm := dbm\<rparr>"
  let ?spi = "(if ls_spi_started g then [] else [SpiBegin]) @ (if hw_power_enable hw \<noteq> kPinNone
     then [PinOutput (hw_power_enable hw), PinWrite (hw_power_enable hw) True] else [])"
  obtain g1 r1 c1 where f: "fold (begin_board chip me ok) [first..<min (first + max_radios) 2]
      (g\<lparr>ls_spi_started := True\<rparr>, ?r0, ?spi) = (g1, r1, c1)" by (metis prod_cases3)
  have spi: "no_keying ?spi" by (auto simp: no_keying_def)
  have s1: "starting hw r1" and k1: "no_keying c1"
    using boards_starting [OF RadioLoRa_starting _ spi f] by auto
  obtain r2 ant where a: "lora_antenna r1 = (r2, ant)" by fastforce
  define r3 where "r3 = r2\<lparr>lr_name := chipName chip @ (if lr_count r2 > 1 then ''x2'' else '''')\<rparr>"
  obtain c where n: "lr_count r1 \<noteq> 0" and r: "r = r3\<lparr>lr_power := c\<rparr>"
    "cmds = c1 @ ant @ applyPower chip r @ receiveAll r"
    using assms(3) unfolding lora_begin_def Let_def f
    by (auto simp: a r3_def split: sum.splits if_splits prod.splits)
  obtain ap rssi where r2: "r2 = r1\<lparr>lr_ant_pin := ap, lr_ant_rssi := rssi\<rparr>" "ap = kPinNone \<or> ap = hw_ant_ctrl hw"
    "length rssi = 2" "no_keying ant"
  proof (cases "lr_count r1 = 1 \<and> hw_ant_ctrl (lr_hw r1) \<noteq> kPinNone")
    case True
    with s1 a that [of "[kUntried, kUntried]" "hw_ant_ctrl hw"] show thesis
      by (auto simp: lora_antenna_def starting_def)
  next
    case False
    then have "r2 = r1" "ant = []" using a by (auto simp: lora_antenna_def)
    with s1 that [of "lr_ant_rssi r1" kPinNone] show thesis by (auto simp: starting_def)
  qed
  have "pins_ok (r1\<lparr>lr_ant_pin := ap\<rparr>)" by (rule starting_pins [OF s1 assms(2) r2(2)])
  then have p: "pins_ok r" by (simp add: r(1) r3_def r2(1) pins_ok_def)
  show "lora_inv r" "\<not> lr_transmitting r" "ts_empty (lr_pending r)" "lr_last_rx r = None"
    "lr_rx r = SpscRing 8 RxFrame" "lr_hw r = hw"
    using s1 n r2(3) p assms(1) by (simp_all add: lora_ring_inv lora_inv_def starting_def r(1) r3_def r2(1))
  show "no_keying cmds" using k1 r2(4) by (simp add: r(2))
  show "all_listening r (fold rf_apply cmds b)" for b
    unfolding r(2) by (simp add: receiveAll_listens [OF p])
qed

section \<open>The antenna side over a whole life\<close>

lemma keeps_board_run:
  assumes "lora_inv r" "board_ok r b"
  shows "\<exists>r' cmds fs. lora_run chip ops r = Some (r', cmds, fs) \<and> lora_inv r' \<and> same_wires r r' \<and>
    keys_safely r cmds b \<and> board_ok r' (fold rf_apply cmds b)"
proof -
  let ?P = "\<lambda>s out popped done_ops. lora_inv s \<and> same_wires r s \<and> keys_safely r out b \<and> board_ok s (fold rf_apply out b)"
  have n: "lr_count r \<le> length (lr_chips r)" using assms(1) by (simp add: lora_inv_def)
  have "\<exists>s' cmds fs. lora_step chip op s = Some (s', cmds, fs) \<and> ?P s' (out @ cmds) (popped @ fs) (done_ops @ [op])"
    if p: "?P s out popped done_ops" for op s out and popped :: "rx_frame list" and done_ops
  proof -
    obtain s' cmds fs where st: "lora_step chip op s = Some (s', cmds, fs)" and k: "keeps_board s s' cmds"
      using lora_step_board p by blast
    have w: "same_wires r s'" using p k by (auto simp: keeps_board_def intro: same_trans)
    have "keys_safely r cmds (fold rf_apply out b)" "board_ok s' (fold rf_apply cmds (fold rf_apply out b))"
      using p k same_wires_keys [OF _ n] by (auto simp: keeps_board_def)
    with st w p k show ?thesis by (simp add: keys_safely_append keeps_board_def)
  qed
  from lora_run_induct [where P = ?P and r = r and out = "[]" and popped = "[]" and done_ops = "[]", OF _ this]
  show ?thesis using assms by (simp add: same_wires_def)
qed

text \<open>C25: The LoRa driver never keys a radio into its own receivers, and never goes deaf: whatever
  sends, service passes, power changes, interrupts and chip answers follow a start, every operation
  returns; each time a frame is started, every low-noise amplifier is off, no power amplifier but
  the chosen radio's is on and every other radio is parked; and whenever no frame is on the air all
  radios receive, with the amplifiers set for it.\<close>

theorem lora_keys_safely:
  assumes "layout_ok hw" "front_end_ok hw"
    "lora_begin chip me ok hw band dbm first max_radios g RadioLoRa = Some (g', r0, cmds0, True)"
  shows "\<exists>r cmds popped. lora_run chip ops r0 = Some (r, cmds, popped) \<and> keys_safely r (cmds0 @ cmds) b \<and>
    (lr_transmitting r \<or> all_listening r (fold rf_apply (cmds0 @ cmds) b))"
proof -
  note start = lora_begin_board [OF assms]
  obtain r cmds fs where run: "lora_run chip ops r0 = Some (r, cmds, fs)" "lora_inv r" "same_wires r0 r"
    "keys_safely r0 cmds (fold rf_apply cmds0 b)" "board_ok r (fold rf_apply cmds (fold rf_apply cmds0 b))"
    using keeps_board_run [OF start(1), of "fold rf_apply cmds0 b" chip ops] start(3) by (auto simp: board_ok_def)
  have "lr_count r0 \<le> length (lr_chips r0)" using start(1) by (simp add: lora_inv_def)
  from same_wires_keys [OF run(3) this] run no_keying_safe [OF start(2)] show ?thesis
    by (simp add: keys_safely_append board_ok_def)
qed

text \<open>A true-diversity SX1280 receiver with two front ends, on the 2.4 GHz band.\<close>

definition two_radios :: hardware_layout where
  "two_radios = HardwareLayout\<lparr>hw_radio :=
     [\<lparr>rp_nss = 5, rp_rst = 2, rp_dio0 = kPinNone, rp_dio1 = 4, rp_busy = 3, rp_rxen = 10, rp_txen = 11\<rparr>,
      \<lparr>rp_nss = 6, rp_rst = kPinNone, rp_dio0 = kPinNone, rp_dio1 = 7, rp_busy = 8, rp_rxen = 12, rp_txen = 13\<rparr>]\<rparr>"

definition band_2400 :: lora_band where
  "band_2400 = (case loraBandPreset 2400 of Some b \<Rightarrow> b | None \<Rightarrow> LoraBand)"

definition two_radio_start :: "(lora_shared \<times> lora_radio \<times> lora_cmd list \<times> bool) option" where
  "two_radio_start = lora_begin SX128x 0 (\<lambda>_ _. True) two_radios band_2400 10 0 2 lora_shared0 RadioLoRa"

lemma two_radios_ok: "layout_ok two_radios" "front_end_ok two_radios"
  using HardwareLayout_ok
  by (auto simp: layout_ok_def two_radios_def front_end_ok_def HardwareLayout_def kPinNone_def less_2_cases_iff)

lemma band_2400_valid: "loraBandValid band_2400 = Inr ()"
  using loraBandPreset_valid [of 2400]
  by (auto simp: band_2400_def preset_usable_def split: option.splits)

lemma two_radios_have:
  "hasRadio two_radios SX128x 0" "hasRadio two_radios SX128x (Suc 0)"
  by (simp_all add: hasRadio_def two_radios_def kPinNone_def)

lemma two_radio_state:
  "\<exists>g r cmds. two_radio_start = Some (g, r, cmds, True) \<and> lr_count r = 2 \<and> lr_hw r = two_radios \<and>
     lr_chips r = [Path\<lparr>pa_txen := 11, pa_rxen := 10\<rparr>, Path\<lparr>pa_txen := 13, pa_rxen := 12\<rparr>] \<and>
     lr_tx_index r = 0 \<and> lr_ant_pin r = kPinNone \<and> \<not> lr_transmitting r \<and> lr_pending r = TxSlot \<and>
     lr_tx_dropped r = 0 \<and> lr_last_rx r = None \<and> lr_rx r = SpscRing 8 RxFrame"
proof -
  let ?r = "RadioLoRa\<lparr>lr_hw := two_radios, lr_band := band_2400, lr_requested_dbm := 10\<rparr>"
  let ?r1 = "?r\<lparr>lr_chips := [Path\<lparr>pa_txen := 11, pa_rxen := 10\<rparr>, Path\<lparr>pa_txen := 13, pa_rxen := 12\<rparr>], lr_count := 2\<rparr>"
  obtain c where c: "choosePower two_radios SX128x (highBand band_2400) 10 (sint (lb_max_dbm band_2400)) = Some c"
    using choosePower_ends [OF two_radios_ok(1)] by blast
  have calls: "snd (run_calls (\<lambda>_. True) cs)" for cs by (induction cs) (auto split: prod.split)
  have two: "[0..<min (0 + 2) 2] = [0, Suc 0]" by (simp add: numeral_2_eq_2)
  have ok: "snd (beginChip SX128x (\<lambda>_. True) hw b pins rst)" for hw b pins rst
    using calls by (simp only: beginChip_def Let_def)
  have pins: "rp_txen (hw_radio two_radios ! 0) = 11" "rp_rxen (hw_radio two_radios ! 0) = 10"
    "rp_txen (hw_radio two_radios ! Suc 0) = 13" "rp_rxen (hw_radio two_radios ! Suc 0) = 12"
    by (simp_all add: two_radios_def)
  have f: "\<exists>g cmds. fold (begin_board SX128x 0 (\<lambda>_ _. True)) [0, Suc 0] (g0, ?r, cs) = (g, ?r1, cmds)" for g0 cs
    by (simp add: begin_board_def Let_def two_radios_have ok RadioLoRa_def pins)
  obtain g cmds where "fold (begin_board SX128x 0 (\<lambda>_ _. True)) [0, Suc 0]
      (lora_shared0\<lparr>ls_spi_started := True\<rparr>, ?r, [SpiBegin]) = (g, ?r1, cmds)"
    using f by blast
  moreover have "hw_power_enable two_radios = kPinNone" "\<not> ls_spi_started lora_shared0"
    by (simp_all add: two_radios_def HardwareLayout_def lora_shared0_def)
  ultimately show ?thesis
    unfolding two_radio_start_def lora_begin_def two Let_def band_2400_valid
    by (simp add: two_radios_have c lora_antenna_def) (simp add: RadioLoRa_def)
qed

lemma two_radio_starts: "\<exists>g r cmds. two_radio_start = Some (g, r, cmds, True)"
  using two_radio_state by blast

theorem lora_keys_safely_witness:
  "\<exists>g r0 cmds0. two_radio_start = Some (g, r0, cmds0, True) \<and>
     (\<exists>r cmds popped. lora_run SX128x [SendFrame 7 [1, 2, 3], PopFrame] r0 = Some (r, cmds, popped) \<and>
        keys_safely r (cmds0 @ cmds) \<lparr>rf_high = \<lambda>_. True, rf_mode = \<lambda>_. Parked\<rparr>)"
proof -
  obtain g r0 cmds0 where s: "two_radio_start = Some (g, r0, cmds0, True)" using two_radio_starts by blast
  from lora_keys_safely [OF two_radios_ok s [unfolded two_radio_start_def], of "[SendFrame 7 [1, 2, 3], PopFrame]" "\<lparr>rf_high = \<lambda>_. True, rf_mode = \<lambda>_. Parked\<rparr>"] s
  show ?thesis by blast
qed

end
