(* ===== verification/Lora_Frames.thy ===== *)
theory Lora_Frames
  imports Lora_Runs "HOL-Library.Sublist"
begin

text \<open>
  What becomes of the frames: those given to a LoRa driver to send, over any life of it, those its
  chips received, and what the transmit watchdog guarantees.
\<close>

section \<open>Sending\<close>

definition started :: "lora_cmd list \<Rightarrow> byte_list list" where
  "started cmds = concat (map (\<lambda>c. case c of StartTransmit i data \<Rightarrow> [data] | _ \<Rightarrow> []) cmds)"

definition sent :: "lora_op list \<Rightarrow> byte_list list" where
  "sent ops = concat (map (\<lambda>op. case op of SendFrame now data \<Rightarrow> [data] | _ \<Rightarrow> []) ops)"

lemma started_append [simp]: "started (xs @ ys) = started xs @ started ys"
  and started_Nil [simp]: "started [] = []"
  and sent_append [simp]: "sent (as @ bs) = sent as @ sent bs"
  and sent_Nil [simp]: "sent [] = []"
  by (simp_all add: started_def sent_def)

lemma started_no_keying [simp]: "no_keying cs \<Longrightarrow> started cs = []"
  by (auto simp: started_def no_keying_def split: lora_cmd.split)

text \<open>The transmit side at rest: no frame is held unless one is on the air.\<close>

definition tx_ok :: "lora_radio \<Rightarrow> bool" where
  "tx_ok r \<longleftrightarrow> lora_inv r \<and> (lr_transmitting r \<or> ts_empty (lr_pending r))"

text \<open>The accounting of one operation: what it started and what it left held is what was held and
  what it was given, less what it dropped.\<close>

definition accounts :: "lora_radio \<Rightarrow> lora_radio \<Rightarrow> lora_cmd list \<Rightarrow> byte_list list \<Rightarrow> bool" where
  "accounts r r' cmds given \<longleftrightarrow> (\<exists>taken n.
     started cmds @ ts_contents (lr_pending r') = ts_contents (lr_pending r) @ taken \<and> subseq taken given \<and>
     length given = length taken + n \<and> lr_tx_dropped r' = lr_tx_dropped r + of_nat n)"

lemma accounts_quiet:
  "lr_pending r' = lr_pending r \<Longrightarrow> lr_tx_dropped r' = lr_tx_dropped r \<Longrightarrow> started cmds = [] \<Longrightarrow> accounts r r' cmds []"
  unfolding accounts_def by (intro exI [of _ "[]"] exI [of _ 0]) simp

lemma startTx_started: "started (snd (startTx now data r)) = [data]"
  by (simp add: startTx_def frontEndTx_pins) (simp add: started_def)

lemma transmit_accounts:
  assumes "tx_ok r"
  shows "accounts r (fst (lora_transmit now data r)) (snd (lora_transmit now data r)) [data]"
    "lr_transmitting (fst (lora_transmit now data r))"
proof -
  have n: "lr_count r \<noteq> 0" using assms by (simp add: tx_ok_def lora_inv_def)
  have "accounts r (fst (lora_transmit now data r)) (snd (lora_transmit now data r)) [data] \<and>
      lr_transmitting (fst (lora_transmit now data r))"
  proof (cases "lr_transmitting r")
    case False
    then have "ts_contents (lr_pending r) = []" using assms by (simp add: tx_ok_def ts_contents_def ts_empty_def)
    then have "accounts r (fst (startTx now data r)) (snd (startTx now data r)) [data]"
      unfolding accounts_def startTx_started by (intro exI [of _ "[data]"] exI [of _ 0]) (simp add: startTx_def)
    with False n show ?thesis by (simp add: lora_transmit_def) (simp add: startTx_def)
  next
    case True
    obtain slot ok where p: "ts_push (lr_pending r) data = (slot, ok)" by fastforce
    have c: "ts_contents slot = (if ok then ts_contents (lr_pending r) @ [data] else ts_contents (lr_pending r))"
      using slot.push_contents [of "lr_pending r" data] assms p by (simp add: tx_ok_def lora_inv_def)
    show ?thesis
    proof (cases ok)
      case okay: True
      have "accounts r (r\<lparr>lr_pending := slot\<rparr>) [] [data]"
        unfolding accounts_def by (intro exI [of _ "[data]"] exI [of _ 0]) (simp add: c okay)
      with True n p okay show ?thesis by (simp add: lora_transmit_def)
    next
      case refused: False
      have "accounts r (r\<lparr>lr_pending := slot, lr_tx_dropped := lr_tx_dropped r + 1\<rparr>) [] [data]"
        unfolding accounts_def by (intro exI [of _ "[]"] exI [of _ 1]) (simp add: c refused)
      with True n p refused show ?thesis by (simp add: lora_transmit_def)
    qed
  qed
  then show "accounts r (fst (lora_transmit now data r)) (snd (lora_transmit now data r)) [data]"
    "lr_transmitting (fst (lora_transmit now data r))" by simp_all
qed

text \<open>The end of a pass that finished a frame: the held frame, if there is one, is started at once,
  and otherwise the radios receive.\<close>

lemma resume_finished_tx:
  assumes "\<not> lr_transmitting r2" "ps_finished p" "resume chip now p r2 = (r', out)"
  shows "lr_tx_dropped r' = lr_tx_dropped r2" "lr_tx_timeouts r' = lr_tx_timeouts r2" "ts_empty (lr_pending r')"
    "\<not> lr_power_pending r'" "lr_transmitting r' = (\<not> ts_empty (lr_pending r2))"
    "started out = ts_contents (lr_pending r2)"
    "lr_transmitting r' \<Longrightarrow> lr_tx_start_ms r' = now"
proof -
  define r3 where "r3 = (if lr_power_pending r2 then r2\<lparr>lr_power_pending := False\<rparr> else r2)"
  define power where "power = (if lr_power_pending r2 then applyPower chip r2 else [])"
  have same: "lr_pending r3 = lr_pending r2" "lr_tx_dropped r3 = lr_tx_dropped r2"
    "lr_tx_timeouts r3 = lr_tx_timeouts r2" "\<not> lr_power_pending r3" "\<not> lr_transmitting r3"
    using assms(1) by (simp_all add: r3_def)
  have q: "started power = []" by (simp add: power_def)
  have e: "(r', out) = (case sendPending now r3 of Some (r, cmds) \<Rightarrow> (r, power @ cmds)
      | None \<Rightarrow> (r3, power @ receiveAll r3))"
    unfolding assms(3) [symmetric] r3_def power_def using assms(1,2) by (simp add: resume_def)
  have "lr_tx_dropped r' = lr_tx_dropped r2 \<and> lr_tx_timeouts r' = lr_tx_timeouts r2 \<and> ts_empty (lr_pending r') \<and>
     \<not> lr_power_pending r' \<and> lr_transmitting r' = (\<not> ts_empty (lr_pending r2)) \<and>
     started out = ts_contents (lr_pending r2) \<and> (lr_transmitting r' \<longrightarrow> lr_tx_start_ms r' = now)"
  proof (cases "ts_empty (lr_pending r2)")
    case True
    with e same q show ?thesis by (simp add: sendPending_def ts_contents_def ts_empty_def)
  next
    case False
    let ?r' = "(fst (startTx now (ts_data (lr_pending r3)) r3))\<lparr>lr_pending := ts_clear (lr_pending r3)\<rparr>"
    have "r' = ?r'" "out = power @ snd (startTx now (ts_data (lr_pending r3)) r3)"
      using e False same by (simp_all add: sendPending_def startTx_def)
    with False same q show ?thesis
      by (simp add: startTx_started ts_contents_def ts_empty_def ts_clear_def) (simp add: startTx_def)
  qed
  then show "lr_tx_dropped r' = lr_tx_dropped r2" "lr_tx_timeouts r' = lr_tx_timeouts r2"
    "ts_empty (lr_pending r')" "\<not> lr_power_pending r'" "lr_transmitting r' = (\<not> ts_empty (lr_pending r2))"
    "started out = ts_contents (lr_pending r2)" "lr_transmitting r' \<Longrightarrow> lr_tx_start_ms r' = now" by simp_all
qed

lemma serviceRx_tx:
  assumes "lora_inv r" "serviceRx chip e r = (r', cmds)"
  obtains r1 p cmds1 ant r2 out where
    "fold (service_chip (le_reply e)) (lora_chips r) (watchdog (le_now e) r) = (r1, p, cmds1)"
    "in_pass r (r1, p, cmds1)" "quiet_step r1 r2" "resume chip (le_now_tx e) p r2 = (r', out)"
    "cmds = cmds1 @ ant @ out" "started (cmds1 @ ant) = []"
proof -
  have path: "path_ok r" and n: "lr_count r \<noteq> 0" using assms by (auto simp: lora_inv_def path_ok_def)
  obtain r1 p cmds1 ant v r2 where f:
    "fold (service_chip (le_reply e)) (lora_chips r) (watchdog (le_now e) r) = (r1, p, cmds1)"
    and i: "in_pass r (r1, p, cmds1)" and q: "quiet_step r1 r2"
    and ant: "ant = [] \<or> lr_ant_pin r \<noteq> kPinNone \<and> ant = write_pin (lr_ant_pin r) v"
    and s: "serviceRx chip e r = (if lr_count r = 0 then (r, [])
       else (fst (resume chip (le_now_tx e) p r2), cmds1 @ ant @ snd (resume chip (le_now_tx e) p r2)))"
    by (rule serviceRx_cases [OF path, of e chip]) blast
  have "no_keying cmds1" using i by (intro finish_only) (simp add: in_pass_def)
  then have "started (cmds1 @ ant) = []" using ant by auto
  moreover have "resume chip (le_now_tx e) p r2 = (r', snd (resume chip (le_now_tx e) p r2))"
    "cmds = cmds1 @ ant @ snd (resume chip (le_now_tx e) p r2)" using s n assms(2) by auto
  ultimately show thesis using that [OF f i q] by blast
qed

lemma service_accounts:
  assumes "tx_ok r" "serviceRx chip e r = (r', cmds)"
  shows "accounts r r' cmds []" "lr_transmitting r' \<or> ts_empty (lr_pending r')"
proof -
  have inv: "lora_inv r" using assms(1) by (simp add: tx_ok_def)
  obtain r1 p cmds1 ant r2 out where i: "in_pass r (r1, p, cmds1)" and q: "quiet_step r1 r2"
    and res: "resume chip (le_now_tx e) p r2 = (r', out)" and c: "cmds = cmds1 @ ant @ out" "started (cmds1 @ ant) = []"
    by (rule serviceRx_tx [OF inv assms(2)])
  have same: "lr_pending r2 = lr_pending r" "lr_tx_dropped r2 = lr_tx_dropped r"
    "lr_transmitting r2 = (lr_transmitting r \<and> \<not> ps_finished p)"
    using i q by (simp_all add: in_pass_def quiet_step_def same_tx_def)
  have "accounts r r' cmds [] \<and> (lr_transmitting r' \<or> ts_empty (lr_pending r'))"
  proof (cases "ps_finished p")
    case True
    then have t: "\<not> lr_transmitting r2" by (simp add: same)
    note fin = resume_finished_tx [OF t True res]
    have "ts_contents (lr_pending r') = []" using fin(3) by (simp add: ts_contents_def ts_empty_def)
    then have "accounts r r' cmds []" unfolding accounts_def
      by (intro exI [of _ "[]"] exI [of _ 0]) (use c fin same in simp)
    with fin(3) show ?thesis by simp
  next
    case False
    then have "r' = r2" "started out = []"
      using res by (auto simp: resume_def split: if_splits)
    with c same False assms(1) show ?thesis
      by (auto intro!: accounts_quiet simp: tx_ok_def)
  qed
  then show "accounts r r' cmds []" "lr_transmitting r' \<or> ts_empty (lr_pending r')" by simp_all
qed

lemma setPower_frame:
  assumes "lora_setPower chip dbm r = Some (r', cmds)"
  shows "lr_pending r' = lr_pending r \<and> lr_tx_dropped r' = lr_tx_dropped r \<and> lr_transmitting r' = lr_transmitting r \<and>
    lr_rx r' = lr_rx r \<and> lr_last_rx r' = lr_last_rx r \<and> started cmds = []"
proof (cases "lr_count r = 0")
  case False
  then obtain c where "(if pc_chip_dbm c = pc_chip_dbm (lr_power r) \<and> pc_output_dbm c = pc_output_dbm (lr_power r)
       then (r\<lparr>lr_requested_dbm := dbm\<rparr>, [])
       else let q = r\<lparr>lr_requested_dbm := dbm, lr_power := c\<rparr>
            in if lr_transmitting r then (q\<lparr>lr_power_pending := True\<rparr>, [])
               else (q, map Standby (lora_chips r) @ applyPower chip q @ receiveAll q)) = (r', cmds)"
    using assms by (auto simp: lora_setPower_def Let_def cong: if_cong)
  then show ?thesis by (auto simp: Let_def split: if_splits)
qed (use assms in \<open>simp add: lora_setPower_def\<close>)

lemma lora_step_accounts:
  assumes "tx_ok r" "lora_step chip op r = Some (r', cmds, fs)"
  shows "accounts r r' cmds (sent [op]) \<and> tx_ok r'"
proof -
  obtain r1 cmds1 fs1 where "lora_step chip op r = Some (r1, cmds1, fs1)" "keeps_board r r1 cmds1"
    using lora_step_board assms(1) unfolding tx_ok_def by blast
  then have inv: "lora_inv r'" using assms(2) by (simp add: keeps_board_def)
  show ?thesis
  proof (cases op)
    case (SendFrame now data)
    with assms(2) transmit_accounts [OF assms(1), of now data] inv show ?thesis
      by (simp add: sent_def tx_ok_def split: prod.splits)
  next
    case (ServicePass e)
    with assms(2) service_accounts [OF assms(1), of chip e] inv show ?thesis
      by (auto simp: sent_def tx_ok_def split: prod.splits)
  next
    case (SetPowerTo dbm)
    then have st: "lora_setPower chip dbm r = Some (r', cmds)" using assms(2) by auto
    from setPower_frame [OF st] SetPowerTo assms(1) inv show ?thesis
      by (simp add: sent_def tx_ok_def accounts_quiet)
  next
    case (Interrupt i)
    with assms inv show ?thesis
      by (auto simp: sent_def tx_ok_def onIsr_def intro!: accounts_quiet split: if_splits)
  next
    case PopFrame
    with assms inv show ?thesis
      by (auto simp: sent_def tx_ok_def lora_popRx_def split: prod.splits intro!: accounts_quiet)
  qed
qed

subsection \<open>Over a whole life\<close>

lemma accounts_trans:
  assumes "accounts r s c1 g1" "accounts s t c2 g2"
  shows "accounts r t (c1 @ c2) (g1 @ g2)"
proof -
  obtain t1 n1 where 1: "started c1 @ ts_contents (lr_pending s) = ts_contents (lr_pending r) @ t1"
    "subseq t1 g1" "length g1 = length t1 + n1" "lr_tx_dropped s = lr_tx_dropped r + of_nat n1"
    using assms(1) unfolding accounts_def by blast
  obtain t2 n2 where 2: "started c2 @ ts_contents (lr_pending t) = ts_contents (lr_pending s) @ t2"
    "subseq t2 g2" "length g2 = length t2 + n2" "lr_tx_dropped t = lr_tx_dropped s + of_nat n2"
    using assms(2) unfolding accounts_def by blast
  have "started (c1 @ c2) @ ts_contents (lr_pending t) = ts_contents (lr_pending r) @ (t1 @ t2)"
    using 1(1) 2(1) by simp
  moreover have "subseq (t1 @ t2) (g1 @ g2)" using 1(2) 2(2) by (rule list_emb_append_mono)
  ultimately show ?thesis unfolding accounts_def
    by (intro exI [of _ "t1 @ t2"] exI [of _ "n1 + n2"]) (use 1 2 in simp)
qed

lemma lora_run_accounts:
  assumes "tx_ok r"
  shows "\<exists>r' cmds fs. lora_run chip ops r = Some (r', cmds, fs) \<and> tx_ok r' \<and> accounts r r' cmds (sent ops)"
proof -
  let ?P = "\<lambda>s out popped done_ops. tx_ok s \<and> accounts r s out (sent done_ops)"
  have "\<exists>s' cmds fs. lora_step chip op s = Some (s', cmds, fs) \<and> ?P s' (out @ cmds) (popped @ fs) (done_ops @ [op])"
    if p: "?P s out popped done_ops" for op s out and popped :: "rx_frame list" and done_ops
  proof -
    obtain s' cmds fs where st: "lora_step chip op s = Some (s', cmds, fs)"
      using lora_step_board p unfolding tx_ok_def by blast
    from lora_step_accounts [OF _ st] p have "accounts s s' cmds (sent [op])" "tx_ok s'" by auto
    with p st show ?thesis using accounts_trans [of r s out "sent done_ops" s' cmds "sent [op]"] by auto
  qed
  from lora_run_induct [where P = ?P and r = r and out = "[]" and popped = "[]" and done_ops = "[]", OF _ this]
  show ?thesis using assms accounts_quiet [of r r "[]"] by simp
qed

text \<open>A driver that starts holds nothing.\<close>

lemma lora_begin_tx:
  assumes "layout_ok hw" "front_end_ok hw"
    "lora_begin chip me ok hw band dbm first max_radios g RadioLoRa = Some (g', r, cmds, True)"
  shows "tx_ok r" "ts_contents (lr_pending r) = []"
  using lora_begin_board [OF assms] by (simp_all add: tx_ok_def ts_contents_def ts_empty_def)

text \<open>C27: No frame given to the LoRa driver is lost in silence, sent twice or sent out of turn: over
  any life, the frames started followed by the one still held are, in order, frames that were given
  to it; every other frame it was given is in the drop counter; and a frame is held only while
  another is on the air.\<close>

theorem lora_frames_in_turn:
  assumes "layout_ok hw" "front_end_ok hw"
    "lora_begin chip me ok hw band dbm first max_radios g RadioLoRa = Some (g', r0, cmds0, True)"
  shows "\<exists>r cmds popped n. lora_run chip ops r0 = Some (r, cmds, popped) \<and>
    subseq (started cmds @ ts_contents (lr_pending r)) (sent ops) \<and>
    length (sent ops) = length (started cmds) + length (ts_contents (lr_pending r)) + n \<and>
    lr_tx_dropped r = lr_tx_dropped r0 + of_nat n \<and> (lr_transmitting r \<or> ts_empty (lr_pending r))"
proof -
  note b = lora_begin_tx [OF assms]
  obtain r cmds popped where run: "lora_run chip ops r0 = Some (r, cmds, popped)" "tx_ok r"
    "accounts r0 r cmds (sent ops)"
    using lora_run_accounts [OF b(1)] by blast
  then obtain taken n where "started cmds @ ts_contents (lr_pending r) = taken" "subseq taken (sent ops)"
    "length (sent ops) = length taken + n" "lr_tx_dropped r = lr_tx_dropped r0 + of_nat n"
    using b(2) unfolding accounts_def by auto
  moreover have "length (started cmds) + length (ts_contents (lr_pending r)) =
      length (started cmds @ ts_contents (lr_pending r))" by simp
  ultimately show ?thesis using run(1,2) unfolding tx_ok_def by (metis length_append)
qed

theorem lora_frames_in_turn_witness:
  "\<exists>g r0 cmds0. two_radio_start = Some (g, r0, cmds0, True) \<and>
     (\<exists>r cmds popped. lora_run SX128x [SendFrame 7 [1], SendFrame 8 [2], SendFrame 9 [3]] r0 = Some (r, cmds, popped) \<and>
        subseq (started cmds @ ts_contents (lr_pending r)) [[1], [2], [3]])"
proof -
  obtain g r0 cmds0 where s: "two_radio_start = Some (g, r0, cmds0, True)" using two_radio_starts by blast
  have "sent [SendFrame 7 [1], SendFrame 8 [2], SendFrame 9 [3]] = [[1], [2], [3]]" by (simp add: sent_def)
  with lora_frames_in_turn [OF two_radios_ok s [unfolded two_radio_start_def],
      of "[SendFrame 7 [1], SendFrame 8 [2], SendFrame 9 [3]]"] s
  show ?thesis by fastforce
qed

section \<open>The watchdog\<close>

lemma watchdog_fires:
  assumes "lr_transmitting r" "now - lr_tx_start_ms r > kTxTimeoutMs"
  obtains r1 p where "watchdog now r = (r1, p, [FinishTransmit (lr_tx_index r)])" "ps_finished p"
    "\<not> lr_transmitting r1" "lr_tx_timeouts r1 = lr_tx_timeouts r + 1"
  using assms by (simp add: watchdog_def Let_def)

definition timed_out :: "u32 \<Rightarrow> lora_radio \<times> lora_pass \<times> lora_cmd list \<Rightarrow> bool" where
  "timed_out n = (\<lambda>(r, p, cmds). ps_finished p \<and> \<not> lr_transmitting r \<and> lr_tx_timeouts r = n)"

lemma service_chip_timed_out: "timed_out n s \<Longrightarrow> timed_out n (service_chip reply i s)"
proof -
  have rf: "receive_frame c i (r, p) = (r', p') \<Longrightarrow> ps_finished p' = ps_finished p \<and>
      lr_transmitting r' = lr_transmitting r \<and> lr_tx_timeouts r' = lr_tx_timeouts r" for c r p r' p'
    by (auto simp: receive_frame_def Let_def split: option.splits)
  show "timed_out n s \<Longrightarrow> ?thesis"
    by (cases s) (auto simp: timed_out_def service_chip_def Let_def split: prod.split dest!: rf)
qed

text \<open>C26: A lost transmit-done interrupt cannot silence the LoRa driver: in any state of any life, once a
  frame has been on the air for more than 500 milliseconds the next service pass gives up on it,
  counts it, and either starts the frame that was held back, timed from that pass, or has all radios
  receiving again; nothing is left held and a power change that waited is applied.\<close>

theorem lora_watchdog_recovers:
  assumes "layout_ok hw" "front_end_ok hw"
    "lora_begin chip me ok hw band dbm first max_radios g RadioLoRa = Some (g', r0, cmds0, True)"
    "lora_run chip ops r0 = Some (r, cmds, popped)"
    "lr_transmitting r" "le_now e - lr_tx_start_ms r > kTxTimeoutMs" "serviceRx chip e r = (r', out)"
  shows "lr_tx_timeouts r' = lr_tx_timeouts r + 1 \<and> ts_empty (lr_pending r') \<and> \<not> lr_power_pending r' \<and>
    (if ts_empty (lr_pending r) then \<not> lr_transmitting r' \<and> all_listening r' (fold rf_apply out b)
     else started out = [ts_data (lr_pending r)] \<and> lr_transmitting r' \<and> lr_tx_start_ms r' = le_now_tx e)"
proof -
  have "tx_ok r" using lora_run_accounts [OF lora_begin_tx(1) [OF assms(1-3)], of chip ops] assms(4) by auto
  then have inv: "lora_inv r" by (simp add: tx_ok_def)
  obtain w p0 where w: "watchdog (le_now e) r = (w, p0, [FinishTransmit (lr_tx_index r)])" "ps_finished p0"
    "\<not> lr_transmitting w" "lr_tx_timeouts w = lr_tx_timeouts r + 1"
    by (rule watchdog_fires [OF assms(5,6)])
  obtain r1 p cmds1 ant r2 o2 where f:
    "fold (service_chip (le_reply e)) (lora_chips r) (watchdog (le_now e) r) = (r1, p, cmds1)"
    and i: "in_pass r (r1, p, cmds1)" and q: "quiet_step r1 r2"
    and res: "resume chip (le_now_tx e) p r2 = (r', o2)" and c: "out = cmds1 @ ant @ o2" "started (cmds1 @ ant) = []"
    by (rule serviceRx_tx [OF inv assms(7)])
  have "timed_out (lr_tx_timeouts r + 1) (fold (service_chip (le_reply e)) (lora_chips r) (watchdog (le_now e) r))"
    by (rule fold_invariant [where Q = "\<lambda>_. True"]) (use w service_chip_timed_out in \<open>simp_all add: timed_out_def\<close>)
  then have t: "ps_finished p" "\<not> lr_transmitting r2" "lr_tx_timeouts r2 = lr_tx_timeouts r + 1"
    "lr_pending r2 = lr_pending r"
    using f i q by (simp_all add: timed_out_def in_pass_def quiet_step_def same_tx_def)
  note fin = resume_finished_tx [OF t(2,1) res]
  have board: "board_ok r' (fold rf_apply out b)"
    using service_board [OF inv, of chip e] assms(5,7) by (simp add: keeps_board_def board_ok_def)
  show ?thesis
    using fin t c board by (cases "ts_full (lr_pending r)") (simp_all add: board_ok_def ts_contents_def ts_empty_def)
qed

definition no_reply :: chip_reply where
  "no_reply = \<lparr>cr_tx_done = False, cr_rx_done = False, cr_crc_err = False, cr_len = 0,
     cr_read = (\<lambda>n. Some (replicate n 0)), cr_now = 0, cr_rssi = 0, cr_snr = 0\<rparr>"

theorem lora_watchdog_recovers_witness:
  "\<exists>g r0 cmds0 r r' out. two_radio_start = Some (g, r0, cmds0, True) \<and> lr_transmitting r \<and>
     serviceRx SX128x \<lparr>le_now = 1000, le_now_tx = 1000, le_reply = \<lambda>_. no_reply\<rparr> r = (r', out) \<and>
     lr_tx_timeouts r' = lr_tx_timeouts r + 1"
proof -
  let ?e = "\<lparr>le_now = 1000, le_now_tx = 1000, le_reply = \<lambda>_. no_reply\<rparr>"
  obtain g r0 cmds0 where s: "two_radio_start = Some (g, r0, cmds0, True)" using two_radio_starts by blast
  let ?r = "r0\<lparr>lr_transmitting := True, lr_tx_start_ms := 7\<rparr>"
  obtain r' out where e: "serviceRx SX128x ?e ?r = (r', out)" by fastforce
  have i: "lora_inv r0" "\<not> lr_transmitting r0"
    using lora_begin_board [OF two_radios_ok s [unfolded two_radio_start_def]] by simp_all
  then have run: "\<exists>cmds. lora_run SX128x [SendFrame 7 [1]] r0 = Some (?r, cmds, [])"
    by (simp add: lora_transmit_def lora_inv_def startTx_def)
  then obtain cmds where run: "lora_run SX128x [SendFrame 7 [1]] r0 = Some (?r, cmds, [])" by blast
  have t: "lr_transmitting ?r" "le_now ?e - lr_tx_start_ms ?r > kTxTimeoutMs" by (simp_all add: kTxTimeoutMs_def)
  have "lr_tx_timeouts r' = lr_tx_timeouts ?r + 1"
    using lora_watchdog_recovers [OF two_radios_ok s [unfolded two_radio_start_def] run t e] by blast
  with s t(1) e show ?thesis by blast
qed

section \<open>Receiving\<close>

text \<open>A frame that is a copy of the one before it, within the window.\<close>

definition copy_of :: "rx_frame \<Rightarrow> rx_frame \<Rightarrow> bool" where
  "copy_of f l \<longleftrightarrow> sameFrame f l \<and> rx_timestamp_ms f - rx_timestamp_ms l < kDuplicateWindowMs"

subsection \<open>What the chips heard\<close>

text \<open>The good packet a chip reports in a pass, if it does: received, its checksum right and its
  bytes readable; at most 64 of them are kept, and the amplifier's gain is taken off its RSSI.\<close>

definition packet_of :: "i8 \<Rightarrow> chip_reply \<Rightarrow> rx_frame list" where
  "packet_of lna c =
     (if \<not> cr_rx_done c \<or> cr_crc_err c then []
      else case cr_read c (min (cr_len c) 64) of
             None \<Rightarrow> []
           | Some bytes \<Rightarrow>
               [\<lparr>rx_timestamp_ms = cr_now c,
                 rx_rssi = (case i16_of_flt (flt_round (cr_rssi c - of_int (sint lna))) of None \<Rightarrow> 0 | Some v \<Rightarrow> v),
                 rx_len = of_nat (min (cr_len c) 64), rx_data = bytes @ replicate (64 - min (cr_len c) 64) 0\<rparr>])"

text \<open>The good packets of a pass: of every radio that interrupted, but for the one that is sending
  and has not been given up.\<close>

definition heard_by :: "lora_env \<Rightarrow> lora_radio \<Rightarrow> rx_frame list" where
  "heard_by e r = concat (map (\<lambda>i.
     if pa_irq (lr_chips r ! i) \<and>
        \<not> (i = lr_tx_index r \<and> lr_transmitting r \<and> le_now e - lr_tx_start_ms r \<le> kTxTimeoutMs)
     then packet_of (hw_power_lna_gain (lr_hw r)) (le_reply e i) else []) (lora_chips r))"

text \<open>The packets of a life, pass by pass.\<close>

fun heard :: "lora_chip \<Rightarrow> lora_op list \<Rightarrow> lora_radio \<Rightarrow> rx_frame list list" where
  "heard chip [] r = []"
| "heard chip (op # ops) r =
     (case op of ServicePass e \<Rightarrow> [heard_by e r] | _ \<Rightarrow> []) @
     (case lora_step chip op r of None \<Rightarrow> [] | Some (r', _) \<Rightarrow> heard chip ops r')"

text \<open>What is to be handed up of them: of two copies in one pass the stronger, and of a row of copies
  within the window the first.\<close>

definition strongest :: "rx_frame list \<Rightarrow> rx_frame list" where
  "strongest fs = (if length fs = 2 \<and> sameFrame (fs ! 0) (fs ! 1)
     then [if sint (rx_rssi (fs ! 1)) > sint (rx_rssi (fs ! 0)) then fs ! 1 else fs ! 0] else fs)"

fun once :: "rx_frame option \<Rightarrow> rx_frame list \<Rightarrow> rx_frame list" where
  "once l [] = []"
| "once l (f # fs) =
     (case l of Some g \<Rightarrow> if copy_of f g then once l fs else f # once (Some f) fs
      | None \<Rightarrow> f # once (Some f) fs)"

definition to_hand_up :: "rx_frame list list \<Rightarrow> rx_frame list" where
  "to_hand_up passes = once None (concat (map strongest passes))"

definition last_of_row :: "rx_frame option \<Rightarrow> rx_frame list \<Rightarrow> rx_frame option" where
  "last_of_row l fs = (if fs = [] then l else Some (last fs))"

lemma once_append: "once l (xs @ ys) = once l xs @ once (last_of_row l (once l xs)) ys"
  by (induction l xs rule: once.induct) (auto simp: last_of_row_def split: option.splits)

lemma once_length: "length (once l fs) \<le> length fs"
  by (induction l fs rule: once.induct) (auto split: option.splits)

lemma strongest_length: "length (strongest fs) \<le> length fs"
  by (auto simp: strongest_def)

text \<open>No row of copies is left, and no content is lost.\<close>

lemma once_fresh: "successively (\<lambda>a b. \<not> copy_of b a) (case l of None \<Rightarrow> once l fs | Some g \<Rightarrow> g # once l fs)"
proof (induction l fs rule: once.induct)
  case (2 l f fs)
  then show ?case by (cases l) (auto simp: successively_Cons)
qed (auto split: option.split)

lemma sameFrame_refl [simp]: "sameFrame f f"
  by (simp add: sameFrame_def)

lemma sameFrame_sym: "sameFrame f g \<Longrightarrow> sameFrame g f"
  by (auto simp: sameFrame_def)

lemma sameFrame_trans: "sameFrame f g \<Longrightarrow> sameFrame g h \<Longrightarrow> sameFrame f h"
  by (auto simp: sameFrame_def)

lemma once_covers: "f \<in> set fs \<Longrightarrow> \<exists>u\<in>set (case l of None \<Rightarrow> once l fs | Some g \<Rightarrow> g # once l fs). sameFrame f u"
proof (induction l fs rule: once.induct)
  case (2 l g fs)
  then show ?case by (cases l) (auto simp: copy_of_def split: if_splits)
qed simp

lemma strongest_covers:
  assumes "f \<in> set fs"
  shows "\<exists>u\<in>set (strongest fs). sameFrame f u"
proof (cases "length fs = 2 \<and> sameFrame (fs ! 0) (fs ! 1)")
  case True
  then obtain a b where "fs = [a, b]" by (auto simp: numeral_2_eq_2 length_Suc_conv)
  with True assms show ?thesis by (auto simp: strongest_def intro: sameFrame_sym)
next
  case False
  with assms show ?thesis by (auto simp: strongest_def intro: bexI [of _ f])
qed

lemma to_hand_up_fresh: "successively (\<lambda>a b. \<not> copy_of b a) (to_hand_up passes)"
  using once_fresh [of None] by (simp add: to_hand_up_def)

lemma to_hand_up_covers: "f \<in> set (concat passes) \<Longrightarrow> \<exists>u\<in>set (to_hand_up passes). sameFrame f u"
proof -
  assume "f \<in> set (concat passes)"
  then obtain fs where "fs \<in> set passes" "f \<in> set fs" by auto
  then obtain g where g: "g \<in> set (concat (map strongest passes))" "sameFrame f g"
    using strongest_covers by fastforce
  with once_covers [OF g(1), of None] show ?thesis unfolding to_hand_up_def by (auto intro: sameFrame_trans)
qed

lemma to_hand_up_snoc:
  "to_hand_up (passes @ [fs]) = to_hand_up passes @ once (last_of_row None (to_hand_up passes)) (strongest fs)"
  by (simp add: to_hand_up_def once_append)

lemma heard_append:
  "lora_run chip xs r = Some (s, cmds, fs) \<Longrightarrow> heard chip (xs @ ys) r = heard chip xs r @ heard chip ys s"
  by (induction xs arbitrary: r cmds fs) (auto split: option.splits prod.splits)

subsection \<open>A pass hears its chips\<close>

definition look :: "(nat \<Rightarrow> chip_reply) \<Rightarrow> lora_radio \<Rightarrow> nat \<Rightarrow> rx_frame list" where
  "look reply r i = (if pa_irq (lr_chips r ! i) \<and> \<not> (lr_transmitting r \<and> i = lr_tx_index r)
     then packet_of (hw_power_lna_gain (lr_hw r)) (reply i) else [])"

lemma receive_frame_look:
  assumes "receive_frame c i (r, p) = (r', p')" "cr_rx_done c" "\<not> cr_crc_err c"
  shows "map snd (ps_got p') = map snd (ps_got p) @ packet_of (hw_power_lna_gain (lr_hw r)) c"
    "lr_duplicates r' = lr_duplicates r" "lr_chips r' = lr_chips r" "lr_transmitting r' = lr_transmitting r"
    "lr_tx_index r' = lr_tx_index r" "lr_hw r' = lr_hw r"
  using assms by (auto simp: receive_frame_def Let_def packet_of_def RxFrame_def split: option.splits)

lemma service_chip_look:
  assumes s: "service_chip reply i (r, p, cmds) = (r', p', cmds')"
  shows "map snd (ps_got p') = map snd (ps_got p) @ look reply r i" "lr_duplicates r' = lr_duplicates r"
    "j \<noteq> i \<Longrightarrow> look reply r' j = look reply r j"
proof -
  define r1 where "r1 = r\<lparr>lr_chips := (lr_chips r)[i := (lr_chips r ! i)\<lparr>pa_irq := False\<rparr>]\<rparr>"
  let ?p = "p\<lparr>ps_restart := (ps_restart p)[i := True]\<rparr>"
  obtain r2 p2 where rf: "receive_frame (reply i) i (r1, ?p) = (r2, p2)" by fastforce
  have 1: "lr_duplicates r1 = lr_duplicates r" "lr_transmitting r1 = lr_transmitting r" "lr_tx_index r1 = lr_tx_index r"
    "lr_hw r1 = lr_hw r" "j \<noteq> i \<Longrightarrow> lr_chips r1 ! j = lr_chips r ! j" for j
    by (simp_all add: r1_def)
  have e: "(r', p', cmds') = (if \<not> pa_irq (lr_chips r ! i) then (r, p, cmds)
     else if lr_transmitting r1 \<and> i = lr_tx_index r1 then
        if cr_tx_done (reply i) then (r1\<lparr>lr_transmitting := False\<rparr>, p\<lparr>ps_finished := True\<rparr>, cmds @ [FinishTransmit i])
        else (r1, p, cmds)
     else if \<not> cr_rx_done (reply i) \<or> cr_crc_err (reply i) then (r1, ?p, cmds) else (r2, p2, cmds))"
    unfolding s [symmetric] service_chip_def by (simp add: Let_def rf flip: r1_def)
  have m: "map snd (ps_got p') = map snd (ps_got p) @ look reply r i \<and> lr_duplicates r' = lr_duplicates r \<and>
    (\<forall>j. j \<noteq> i \<longrightarrow> look reply r' j = look reply r j)"
  proof (cases "cr_rx_done (reply i) \<and> \<not> cr_crc_err (reply i)")
    case True
    from receive_frame_look [OF rf] True have rf': "map snd (ps_got p2) = map snd (ps_got p) @
        packet_of (hw_power_lna_gain (lr_hw r)) (reply i)"
      "lr_duplicates r2 = lr_duplicates r" "lr_chips r2 = lr_chips r1" "lr_transmitting r2 = lr_transmitting r"
      "lr_tx_index r2 = lr_tx_index r" "lr_hw r2 = lr_hw r" by (simp_all add: 1)
    with e True show ?thesis by (auto simp: look_def 1 split: if_splits)
  next
    case False
    then have "packet_of lna (reply i) = []" for lna by (auto simp: packet_of_def)
    with e False show ?thesis by (auto simp: look_def 1 split: if_splits)
  qed
  then show "map snd (ps_got p') = map snd (ps_got p) @ look reply r i" "lr_duplicates r' = lr_duplicates r"
    "j \<noteq> i \<Longrightarrow> look reply r' j = look reply r j" by blast+
qed

lemma chips_look:
  assumes "distinct is" "fold (service_chip reply) is (r, p, cmds) = (r', p', cmds')"
  shows "map snd (ps_got p') = map snd (ps_got p) @ concat (map (look reply r) is) \<and> lr_duplicates r' = lr_duplicates r"
  using assms
proof (induction "is" arbitrary: r p cmds)
  case (Cons i js)
  obtain r1 p1 c1 where s: "service_chip reply i (r, p, cmds) = (r1, p1, c1)" by (metis prod_cases3)
  from Cons.prems have "i \<notin> set js" "distinct js" "fold (service_chip reply) js (r1, p1, c1) = (r', p', cmds')"
    by (simp_all add: s)
  moreover from this have m: "map (look reply r1) js = map (look reply r) js"
    by (auto intro: service_chip_look(3) [OF s])
  ultimately show ?case using Cons.IH [of r1 p1 c1] service_chip_look(1,2) [OF s] unfolding m by simp
qed simp

lemma pass_hears:
  assumes "fold (service_chip (le_reply e)) (lora_chips r) (watchdog (le_now e) r) = (r1, p, cmds)"
  shows "map snd (ps_got p) = heard_by e r" "lr_duplicates r1 = lr_duplicates r"
proof -
  obtain w p0 c0 where w: "watchdog (le_now e) r = (w, p0, c0)" by (metis prod_cases3)
  have w': "ps_got p0 = []" "lr_duplicates w = lr_duplicates r"
    "look (le_reply e) w i = (if pa_irq (lr_chips r ! i) \<and>
        \<not> (i = lr_tx_index r \<and> lr_transmitting r \<and> le_now e - lr_tx_start_ms r \<le> kTxTimeoutMs)
     then packet_of (hw_power_lna_gain (lr_hw r)) (le_reply e i) else [])" for i
    using w by (auto simp: watchdog_def Let_def look_def split: if_splits)
  have h: "heard_by e r = concat (map (look (le_reply e) w) (lora_chips r))"
    unfolding heard_by_def by (intro arg_cong [where f = concat] map_cong refl) (simp only: w'(3))
  from chips_look [of "lora_chips r" "le_reply e" w p0 c0 r1 p cmds] assms
  show "map snd (ps_got p) = heard_by e r" "lr_duplicates r1 = lr_duplicates r"
    unfolding h by (simp_all add: w w'(1,2))
qed

subsection \<open>Handing up\<close>

text \<open>The receive side after the frames \<open>ups\<close> have been handed up, of which \<open>popped\<close> have left.\<close>

definition rx_ok :: "lora_radio \<Rightarrow> rx_frame list \<Rightarrow> rx_frame list \<Rightarrow> bool" where
  "rx_ok r ups popped \<longleftrightarrow>
     lr_last_rx r = last_of_row None ups \<and> rb_inv (lr_rx r) \<and> rb_room (lr_rx r) = 7 \<and>
     subseq (popped @ rb_contents (lr_rx r)) ups \<and>
     (\<exists>n. length ups = length popped + length (rb_contents (lr_rx r)) + n \<and> rb_dropped (lr_rx r) = of_nat n \<and>
        (n = 0 \<or> 7 < length ups))"

lemma rx_ok_same: "same_rx r r' \<Longrightarrow> rx_ok r' ups popped = rx_ok r ups popped"
  by (simp add: rx_ok_def same_rx_def)

lemma rb_push_dropped: "rb_dropped (fst (rb_push q f)) = rb_dropped q + (if snd (rb_push q f) then 0 else 1)"
  by (simp add: rb_push_cases)

lemma rb_pop_dropped: "rb_dropped (fst (rb_pop q)) = rb_dropped q"
  by (simp add: rb_pop_cases)

lemma rb_move_room: "rb_room (fst (rb_push q f)) = rb_room q" "rb_room (fst (rb_pop q)) = rb_room q"
  by (simp_all add: rb_push_cases rb_pop_cases rb_room_def rb_capacity_def)

lemma rb_push_refused: "rb_inv q \<Longrightarrow> \<not> snd (rb_push q f) \<Longrightarrow> length (rb_contents q) = rb_room q"
  by (auto simp: rb_push_cases rb_full_iff split: if_splits)

lemma hand_up_rx_ok:
  assumes "rx_ok r ups popped"
  shows "rx_ok (hand_up f r) (ups @ once (last_of_row None ups) [f]) popped"
    "lr_duplicates (hand_up f r) + of_nat (length (once (last_of_row None ups) [f])) = lr_duplicates r + 1"
proof -
  have last: "lr_last_rx r = last_of_row None ups" using assms by (simp add: rx_ok_def)
  have "rx_ok (hand_up f r) (ups @ once (last_of_row None ups) [f]) popped \<and>
    lr_duplicates (hand_up f r) + of_nat (length (once (last_of_row None ups) [f])) = lr_duplicates r + 1"
  proof (cases "\<exists>l. lr_last_rx r = Some l \<and> copy_of f l")
    case True
    then have e: "hand_up f r = r\<lparr>lr_duplicates := lr_duplicates r + 1\<rparr>" by (auto simp: hand_up_def copy_of_def)
    then have "same_rx r (hand_up f r)" by (simp add: same_rx_def)
    from rx_ok_same [OF this] assms True e last show ?thesis by auto
  next
    case False
    obtain n where n: "length ups = length popped + length (rb_contents (lr_rx r)) + n" "rb_dropped (lr_rx r) = of_nat n"
      "n = 0 \<or> 7 < length ups"
      and inv: "rb_inv (lr_rx r)" "rb_room (lr_rx r) = 7" and sub: "subseq (popped @ rb_contents (lr_rx r)) ups"
      using assms unfolding rx_ok_def by blast
    have e: "hand_up f r = r\<lparr>lr_rx := fst (rb_push (lr_rx r) f), lr_last_rx := Some f\<rparr>"
      and o: "once (last_of_row None ups) [f] = [f]"
      using False last by (auto simp: hand_up_def copy_of_def split: option.splits)
    have c: "rb_contents (fst (rb_push (lr_rx r) f)) =
        (if snd (rb_push (lr_rx r) f) then rb_contents (lr_rx r) @ [f] else rb_contents (lr_rx r))"
      by (rule ring.push_contents [OF inv(1)])
    have sub': "subseq (popped @ rb_contents (fst (rb_push (lr_rx r) f))) (ups @ [f])"
      using sub list_emb_append_mono [OF sub, of "[f]" "[f]"]
      by (auto simp: c intro: list_emb_append2)
    have d: "\<exists>m. length (ups @ [f]) = length popped + length (rb_contents (fst (rb_push (lr_rx r) f))) + m \<and>
        rb_dropped (fst (rb_push (lr_rx r) f)) = of_nat m \<and> (m = 0 \<or> 7 < length (ups @ [f]))"
    proof (cases "snd (rb_push (lr_rx r) f)")
      case True
      then show ?thesis using n by (intro exI [of _ n]) (auto simp: c rb_push_dropped simp del: length_rb_contents)
    next
      case False
      from rb_push_refused [OF inv(1) False] inv(2) n have "7 < length (ups @ [f])" by simp
      with False n show ?thesis
        by (intro exI [of _ "n + 1"]) (simp add: c rb_push_dropped del: length_rb_contents)
    qed
    have "rx_ok (hand_up f r) (ups @ [f]) popped"
      unfolding rx_ok_def e using sub' d rb_push_inv [OF inv(1)] inv(2) by (simp add: last_of_row_def rb_move_room)
    then show ?thesis unfolding o by (simp add: e)
  qed
  then show "rx_ok (hand_up f r) (ups @ once (last_of_row None ups) [f]) popped"
    "lr_duplicates (hand_up f r) + of_nat (length (once (last_of_row None ups) [f])) = lr_duplicates r + 1"
    by blast+
qed

lemma last_of_row_append: "last_of_row l (xs @ ys) = last_of_row (last_of_row l xs) ys"
  by (simp add: last_of_row_def)

lemma counts_add:
  fixes d0 d1 d2 :: u32
  assumes "d1 + l1 = d0 + m1" "d2 + l2 = d1 + m2"
  shows "d2 + (l1 + l2) = d0 + (m1 + m2)"
proof -
  have "d2 + (l1 + l2) = (d1 + l1) + m2" unfolding add.assoc [symmetric] using assms(2) by (simp add: add.commute add.left_commute)
  then show ?thesis by (simp only: assms(1) add.assoc)
qed

lemma hand_up_fold_rx_ok:
  assumes "rx_ok r ups popped"
  shows "rx_ok (fold hand_up fs r) (ups @ once (last_of_row None ups) fs) popped \<and>
    lr_duplicates (fold hand_up fs r) + of_nat (length (once (last_of_row None ups) fs)) = lr_duplicates r + of_nat (length fs)"
  using assms
proof (induction fs arbitrary: r ups)
  case (Cons f fs)
  let ?l = "last_of_row None ups"
  let ?new = "once ?l [f]"
  have o: "once ?l (f # fs) = ?new @ once (last_of_row ?l ?new) fs" using once_append [of ?l "[f]" fs] by simp
  from Cons.IH [OF hand_up_rx_ok(1) [OF Cons.prems, of f]]
  have IH: "rx_ok (fold hand_up fs (hand_up f r)) (ups @ ?new @ once (last_of_row ?l ?new) fs) popped"
    "lr_duplicates (fold hand_up fs (hand_up f r)) + of_nat (length (once (last_of_row ?l ?new) fs)) =
      lr_duplicates (hand_up f r) + of_nat (length fs)"
    by (simp_all only: last_of_row_append append_assoc)
  from counts_add [OF hand_up_rx_ok(2) [OF Cons.prems, of f] IH(2)] IH(1)
  show ?case unfolding o by (simp only: fold_simps comp_apply length_append of_nat_add length_Cons of_nat_Suc)
qed simp

subsection \<open>A whole pass\<close>

lemma choose_path_duplicates: "lr_duplicates (fst (choose_path got r)) = lr_duplicates r"
proof -
  have n: "lr_duplicates (note_path x s) = lr_duplicates s" "lr_duplicates (drift_unheard h i s) = lr_duplicates s"
    "lr_duplicates (fst (chooseAntenna s)) = lr_duplicates s" for x s h i
    by (auto simp: note_path_def drift_unheard_def chooseAntenna_def Let_def split: prod.split)
  have "lr_duplicates (fold f xs s) = lr_duplicates s"
    if "\<And>x s. lr_duplicates (f x s) = lr_duplicates s" for f and xs :: "'x list" and s
    using that by (induction xs arbitrary: s) simp_all
  note f = this [OF n(1)] this [OF n(2)]
  show ?thesis by (simp add: choose_path_def Let_def f n(3))
qed

lemma merge_copies_strongest:
  "fst (merge_copies got r) = strongest got"
  "lr_duplicates (snd (merge_copies got r)) + of_nat (length (strongest got)) = lr_duplicates r + of_nat (length got)"
  by (auto simp: merge_copies_def strongest_def length_Suc_conv numeral_2_eq_2 split: list.split)

lemma resume_rx: "same_rx r (fst (resume chip now p r))" "lr_duplicates (fst (resume chip now p r)) = lr_duplicates r"
  by (auto simp: resume_def sendPending_def startTx_def same_rx_def split: prod.split)

lemma service_rx:
  assumes "lora_inv r" "serviceRx chip e r = (r', cmds)" "rx_ok r ups popped"
  shows "rx_ok r' (ups @ once (last_of_row None ups) (strongest (heard_by e r))) popped \<and>
    lr_duplicates r' + of_nat (length (once (last_of_row None ups) (strongest (heard_by e r)))) =
      lr_duplicates r + of_nat (length (heard_by e r))"
proof -
  have path: "path_ok r" and n: "lr_count r \<noteq> 0" using assms(1) by (auto simp: lora_inv_def path_ok_def)
  obtain r1 p cmds1 r2 out ant where
    f: "fold (service_chip (le_reply e)) (lora_chips r) (watchdog (le_now e) r) = (r1, p, cmds1)"
    and i: "in_pass r (r1, p, cmds1)"
    and r2: "r2 = fold hand_up (fst (merge_copies (map snd (ps_got p)) (fst (choose_path (ps_got p) r1))))
       (snd (merge_copies (map snd (ps_got p)) (fst (choose_path (ps_got p) r1))))"
    and s: "serviceRx chip e r = (if lr_count r = 0 then (r, [])
       else (fst (resume chip (le_now_tx e) p r2), cmds1 @ ant @ snd (resume chip (le_now_tx e) p r2)))"
    by (rule serviceRx_cases [OF path, of e chip]) blast
  note h = pass_hears [OF f]
  let ?m = "snd (merge_copies (heard_by e r) (fst (choose_path (ps_got p) r1)))"
  have "same_rx r ?m"
    using i by (intro same_trans(3) [OF same_trans(3) [OF _ choose_path_quiet(2)] merge_copies_quiet(2)])
      (simp add: in_pass_def)
  then have "rx_ok ?m ups popped" using rx_ok_same assms(3) by blast
  from hand_up_fold_rx_ok [OF this, of "strongest (heard_by e r)"]
  have r2': "rx_ok r2 (ups @ once (last_of_row None ups) (strongest (heard_by e r))) popped"
    "lr_duplicates r2 + of_nat (length (once (last_of_row None ups) (strongest (heard_by e r)))) =
      lr_duplicates ?m + of_nat (length (strongest (heard_by e r)))"
    by (simp_all add: r2 h merge_copies_strongest(1))
  have "same_rx r2 r'" "lr_duplicates r' = lr_duplicates r2" using resume_rx [where r = r2] s n assms(2) by simp_all
  with r2' merge_copies_strongest(2) [of "heard_by e r" "fst (choose_path (ps_got p) r1)"]
  show ?thesis using rx_ok_same by (simp add: choose_path_duplicates h)
qed

subsection \<open>Over a whole life\<close>

lemma setPower_rx: "lora_setPower chip dbm r = Some (r', cmds) \<Longrightarrow> same_rx r r'"
  using setPower_frame [of chip dbm r r' cmds] by (simp add: same_rx_def)

lemma setPower_duplicates:
  assumes "lora_setPower chip dbm r = Some (r', cmds)"
  shows "lr_duplicates r' = lr_duplicates r"
proof (cases "lr_count r = 0")
  case False
  then obtain c where "(if pc_chip_dbm c = pc_chip_dbm (lr_power r) \<and> pc_output_dbm c = pc_output_dbm (lr_power r)
       then (r\<lparr>lr_requested_dbm := dbm\<rparr>, [])
       else let q = r\<lparr>lr_requested_dbm := dbm, lr_power := c\<rparr>
            in if lr_transmitting r then (q\<lparr>lr_power_pending := True\<rparr>, [])
               else (q, map Standby (lora_chips r) @ applyPower chip q @ receiveAll q)) = (r', cmds)"
    using assms by (auto simp: lora_setPower_def Let_def cong: if_cong)
  then show ?thesis by (auto simp: Let_def split: if_splits)
qed (use assms in \<open>simp add: lora_setPower_def\<close>)

lemma transmit_rx: "same_rx r (fst (lora_transmit now data r))"
  "lr_duplicates (fst (lora_transmit now data r)) = lr_duplicates r"
  by (auto simp: lora_transmit_def startTx_def same_rx_def split: prod.split bool.split)

lemma pop_rx_ok:
  assumes "rx_ok r ups popped" "lora_popRx r = (r', f)"
  shows "rx_ok r' ups (popped @ (case f of None \<Rightarrow> [] | Some f \<Rightarrow> [f]))" "lr_duplicates r' = lr_duplicates r"
proof -
  have inv: "rb_inv (lr_rx r)" using assms(1) by (simp add: rx_ok_def)
  obtain q where q: "rb_pop (lr_rx r) = (q, f)" "r' = r\<lparr>lr_rx := q\<rparr>"
    using assms(2) by (auto simp: lora_popRx_def split: prod.splits)
  have c: "popped @ rb_contents (lr_rx r) = (popped @ (case f of None \<Rightarrow> [] | Some f \<Rightarrow> [f])) @ rb_contents q"
    using ring.pop_contents [OF inv] q(1) by (auto split: list.splits)
  have l: "length popped + length (rb_contents (lr_rx r)) =
      length (popped @ (case f of None \<Rightarrow> [] | Some f \<Rightarrow> [f])) + length (rb_contents q)"
    using arg_cong [OF c, of length] by (simp only: length_append)
  have d: "rb_inv q" "rb_dropped q = rb_dropped (lr_rx r)" "rb_room q = rb_room (lr_rx r)"
    using rb_pop_inv [OF inv] rb_pop_dropped [of "lr_rx r"] rb_move_room(2) [of "lr_rx r"] q(1) by simp_all
  show "rx_ok r' ups (popped @ (case f of None \<Rightarrow> [] | Some f \<Rightarrow> [f]))"
    using assms(1) unfolding rx_ok_def q(2) c l by (simp add: d)
  show "lr_duplicates r' = lr_duplicates r" by (simp add: q(2))
qed

text \<open>The frames to hand up have been, and every other frame heard is a counted duplicate.\<close>

definition received_ok :: "u32 \<Rightarrow> lora_radio \<Rightarrow> rx_frame list list \<Rightarrow> rx_frame list \<Rightarrow> bool" where
  "received_ok d0 r passes popped \<longleftrightarrow> rx_ok r (to_hand_up passes) popped \<and>
     lr_duplicates r + of_nat (length (to_hand_up passes)) = d0 + of_nat (length (concat passes))"

lemma lora_step_rx:
  assumes "lora_inv r" "lora_step chip op r = Some (r', cmds, fs)" "received_ok d0 r passes popped"
  shows "received_ok d0 r' (passes @ heard chip [op] r) (popped @ fs)"
proof -
  have same: "received_ok d0 r' (passes @ []) (popped @ [])" if "same_rx r r'" "lr_duplicates r' = lr_duplicates r"
    using rx_ok_same [OF that(1)] that(2) assms(3) by (simp add: received_ok_def)
  show ?thesis
  proof (cases op)
    case (SendFrame now data)
    with assms(2) transmit_rx [where r = r and now = now and data = data] same show ?thesis by (auto split: prod.splits)
  next
    case (ServicePass e)
    with assms(2) have s: "serviceRx chip e r = (r', cmds)" "fs = []" by (auto split: prod.splits)
    from assms(3) have p: "rx_ok r (to_hand_up passes) popped"
      "lr_duplicates r + of_nat (length (to_hand_up passes)) = d0 + of_nat (length (concat passes))"
      by (simp_all add: received_ok_def)
    from service_rx [OF assms(1) s(1) p(1)] counts_add [OF p(2)] s ServicePass show ?thesis
      by (simp add: received_ok_def to_hand_up_snoc)
  next
    case (SetPowerTo dbm)
    then have "lora_setPower chip dbm r = Some (r', cmds)" "fs = []" using assms(2) by auto
    with SetPowerTo assms(2) show ?thesis using setPower_rx setPower_duplicates same by simp
  next
    case (Interrupt i)
    with assms(2) same show ?thesis by (auto simp: same_rx_def onIsr_def split: if_splits)
  next
    case PopFrame
    with assms(2) obtain f where f: "lora_popRx r = (r', f)" "fs = (case f of None \<Rightarrow> [] | Some f \<Rightarrow> [f])"
      by (auto split: prod.splits)
    from assms(3) have "rx_ok r (to_hand_up passes) popped" by (simp add: received_ok_def)
    note pop_rx_ok [OF this f(1)]
    with assms(3) f(2) PopFrame assms(2) show ?thesis by (simp add: received_ok_def)
  qed
qed

lemma lora_run_rx:
  assumes "lora_inv r" "received_ok d0 r passes popped"
  shows "\<exists>r' cmds fs. lora_run chip ops r = Some (r', cmds, fs) \<and> lora_inv r' \<and>
    received_ok d0 r' (passes @ heard chip ops r) (popped @ fs)"
  using assms
proof (induction ops arbitrary: r passes popped)
  case (Cons op ops)
  obtain s c f where st: "lora_step chip op r = Some (s, c, f)" "keeps_board r s c"
    using lora_step_board Cons.prems(1) by blast
  have "lora_inv s" using st(2) by (simp add: keeps_board_def)
  from Cons.IH [OF this lora_step_rx [OF Cons.prems(1) st(1) Cons.prems(2)]] st(1)
  show ?case by auto
qed simp

text \<open>C28: The LoRa driver hands up what its chips heard, once: over any life, with the good packets
  the chips reported in each service pass (the radio that is sending apart), the frames handed up
  are, in order, the stronger of two copies heard in one pass and the first of copies in a row within
  50 milliseconds, and all other packets; so no frame handed up is a copy of the one before, the
  content of every packet heard is handed up, and the duplicate counter has grown by the number of
  those left out. The frames popped and those still in the ring are those handed up, in order, less
  some whose number is the ring's drop counter, and none is dropped while seven or fewer have been
  handed up.\<close>

theorem lora_receives_once:
  assumes "layout_ok hw" "front_end_ok hw"
    "lora_begin chip me ok hw band dbm first max_radios g RadioLoRa = Some (g', r0, cmds0, True)"
    "passes = heard chip ops r0" "ups = to_hand_up passes"
  shows "\<exists>r cmds popped n. lora_run chip ops r0 = Some (r, cmds, popped) \<and>
    successively (\<lambda>a b. \<not> copy_of b a) ups \<and> (\<forall>f\<in>set (concat passes). \<exists>u\<in>set ups. sameFrame f u) \<and>
    lr_duplicates r + of_nat (length ups) = lr_duplicates r0 + of_nat (length (concat passes)) \<and>
    subseq (popped @ rb_contents (lr_rx r)) ups \<and>
    length ups = length popped + length (rb_contents (lr_rx r)) + n \<and> rb_dropped (lr_rx r) = of_nat n \<and>
    (n = 0 \<or> 7 < length ups)"
proof -
  note start = lora_begin_board [OF assms(1-3)]
  have e: "rb_contents (SpscRing 8 RxFrame) = []" by (simp add: rb_contents_def rb_size_def SpscRing_def)
  have "received_ok (lr_duplicates r0) r0 [] []"
    using start(6) by (simp add: received_ok_def rx_ok_def start(7) lora_ring_inv e to_hand_up_def last_of_row_def)
      (simp add: SpscRing_def rb_room_def rb_capacity_def)
  from lora_run_rx [OF start(1) this, of chip ops]
  show ?thesis unfolding received_ok_def rx_ok_def assms(5) assms(4)
    using to_hand_up_fresh to_hand_up_covers by (auto simp del: length_rb_contents set_concat)
qed

text \<open>The second radio hears a strong frame.\<close>

definition strong_frame :: chip_reply where
  "strong_frame = \<lparr>cr_tx_done = False, cr_rx_done = True, cr_crc_err = False, cr_len = 3,
     cr_read = (\<lambda>n. Some (replicate n 9)), cr_now = 5, cr_rssi = - 60, cr_snr = 8\<rparr>"

definition strong_heard :: rx_frame where
  "strong_heard = \<lparr>rx_timestamp_ms = 5, rx_rssi = - 60, rx_len = 3, rx_data = [9, 9, 9] @ replicate 61 0\<rparr>"

lemma strong_packet: "packet_of (hw_power_lna_gain two_radios) strong_frame = [strong_heard]"
proof -
  have hw: "hw_power_lna_gain two_radios = 0" by (simp add: two_radios_def HardwareLayout_def)
  have p: "flt_round (- 60) = - 60" by (simp add: round_to_minus)
  have three: "replicate 3 (9 :: u8) = [9, 9, 9]" by (simp add: numeral_3_eq_3)
  show ?thesis by (simp add: hw packet_of_def strong_frame_def strong_heard_def p i16_of_flt_def three)
qed

theorem lora_receives_once_witness:
  "\<exists>g r0 cmds0 r cmds popped. two_radio_start = Some (g, r0, cmds0, True) \<and>
     lora_run SX128x [Interrupt 1, ServicePass \<lparr>le_now = 5, le_now_tx = 5, le_reply = \<lambda>_. strong_frame\<rparr>, PopFrame] r0 =
       Some (r, cmds, popped) \<and>
     popped @ rb_contents (lr_rx r) = [strong_heard]"
proof -
  let ?ops = "[Interrupt 1, ServicePass \<lparr>le_now = 5, le_now_tx = 5, le_reply = \<lambda>_. strong_frame\<rparr>, PopFrame]"
  obtain g r0 cmds0 where s: "two_radio_start = Some (g, r0, cmds0, True)" and r0: "lr_count r0 = 2"
    "lr_hw r0 = two_radios" "lr_chips r0 = [Path\<lparr>pa_txen := 11, pa_rxen := 10\<rparr>, Path\<lparr>pa_txen := 13, pa_rxen := 12\<rparr>]"
    "lr_tx_index r0 = 0" "\<not> lr_transmitting r0"
    using two_radio_state by blast
  have two: "[0..<2] = [0, Suc 0]" by (simp add: numeral_2_eq_2)
  have h: "heard SX128x ?ops r0 = [[strong_heard]]"
    by (simp add: heard_by_def onIsr_def r0 two strong_packet Path_def split: option.split prod.split)
  have "to_hand_up [[strong_heard]] = [strong_heard]" by (simp add: to_hand_up_def strongest_def)
  with lora_receives_once [OF two_radios_ok s [unfolded two_radio_start_def] h [symmetric] refl]
  obtain r cmds popped where r: "lora_run SX128x ?ops r0 = Some (r, cmds, popped)"
    "subseq (popped @ rb_contents (lr_rx r)) [strong_heard]"
    "length [strong_heard] = length popped + length (rb_contents (lr_rx r))"
    by (auto simp del: length_rb_contents lora_run.simps)
  then have "popped @ rb_contents (lr_rx r) = [strong_heard]" by (intro subseq_same_length) (simp_all del: length_rb_contents)
  with s r(1) show ?thesis by blast
qed

section \<open>A transmit-done interrupt that is not recognised\<close>

lemma no_finish [simp]: "FinishTransmit i \<notin> set (frontEndTx r k)" "FinishTransmit i \<notin> set (applyPower chip r)"
  "FinishTransmit i \<notin> set (write_pin p v)" "FinishTransmit i \<notin> set (receiveAll r)"
  "FinishTransmit i \<notin> set (snd (startTx now data r))"
  by (auto simp: frontEndTx_def write_pin_def applyPower_def Let_def receiveAll_def frontEndRx_def startTx_def)

lemma resume_no_finish: "FinishTransmit i \<notin> set (snd (resume chip now p r))"
proof -
  have "FinishTransmit i \<notin> set cmds" if "startTx now data s = (s', cmds)" for data s s' cmds
    using that no_finish(5) [of i now data s] by simp
  then show ?thesis by (auto simp: resume_def sendPending_def split: prod.splits)
qed

text \<open>The average of a radio that did not hear a frame the other one heard drifts down.\<close>

definition drifted :: "flt \<Rightarrow> flt" where
  "drifted avg = (if avg > - 199 then flt_round (avg - kRssiDriftDb) else avg)"

text \<open>Frames on the air from radio \<open>i\<close> of two, and the transmit index at radio \<open>k\<close>.\<close>

definition on_air :: "nat \<Rightarrow> u32 \<Rightarrow> lora_radio \<Rightarrow> bool" where
  "on_air k since r \<longleftrightarrow> length (lr_chips r) = 2 \<and> lr_count r = 2 \<and> lr_transmitting r \<and> lr_tx_index r = k \<and>
     lr_tx_start_ms r = since"

lemma receive_one:
  assumes "packet_of (hw_power_lna_gain (lr_hw r)) c = [f]"
  obtains x where "receive_frame c j (r, p) =
    (r\<lparr>lr_last_snr_db := cr_snr c, lr_have_snr := True, lr_fault := x\<rparr>, p\<lparr>ps_got := ps_got p @ [(j, f)]\<rparr>)"
    "cr_rx_done c" "\<not> cr_crc_err c"
proof -
  have rx: "cr_rx_done c" "\<not> cr_crc_err c" using assms by (auto simp: packet_of_def split: if_splits)
  with assms obtain bytes where b: "cr_read c (min (cr_len c) 64) = Some bytes"
    by (auto simp: packet_of_def split: option.splits)
  show thesis
    by (rule that [OF _ rx]) (use assms rx b in \<open>auto simp: packet_of_def receive_frame_def RxFrame_def Let_def\<close>)
qed

lemma two_chips: "[0..<2] = [0, Suc 0]"
  by (simp add: numeral_2_eq_2)

lemma drift_other:
  "drift_unheard [j] i s = s\<lparr>lr_chips := (lr_chips s)[i := (lr_chips s ! i)\<lparr>pa_rssi_avg :=
     (if i = j then pa_rssi_avg (lr_chips s ! i) else drifted (pa_rssi_avg (lr_chips s ! i)))\<rparr>]\<rparr>"
  by (auto simp: drift_unheard_def drifted_def Let_def)

text \<open>The path bookkeeping of one frame that radio \<open>j\<close> of two heard.\<close>

lemma choose_path_one:
  assumes "lr_count s = 2" "length (lr_chips s) = 2" "i = 0 \<and> j = 1 \<or> i = 1 \<and> j = 0"
    "choose_path [(j, f)] s = (s', ant)"
    "notePathRssi (pa_rssi_avg (lr_chips s ! j)) (of_int (sint (rx_rssi f))) > drifted (pa_rssi_avg (lr_chips s ! i))"
  shows "lr_tx_index s' = j \<and> map pa_irq (lr_chips s') = map pa_irq (lr_chips s) \<and> (\<forall>k. FinishTransmit k \<notin> set ant)"
proof -
  obtain c0 c1 where c: "lr_chips s = [c0, c1]" using assms(2) by (auto simp: length_Suc_conv numeral_2_eq_2)
  let ?n = "notePathRssi (pa_rssi_avg (lr_chips s ! j)) (of_int (sint (rx_rssi f)))"
  have n: "note_path (j, f) s = s\<lparr>lr_chips := (lr_chips s)[j := (lr_chips s ! j)\<lparr>pa_rssi_avg := ?n\<rparr>]\<rparr>"
    by (simp add: note_path_def assms(1) Let_def)
  define t where "t = fold (drift_unheard [j]) [0, 1] (s\<lparr>lr_chips := (lr_chips s)[j := (lr_chips s ! j)\<lparr>pa_rssi_avg := ?n\<rparr>]\<rparr>)"
  have t: "lr_count t = 2" "map pa_irq (lr_chips t) = map pa_irq (lr_chips s)"
    "(pa_rssi_avg (lr_chips t ! 1) > pa_rssi_avg (lr_chips t ! 0)) = (j = 1)"
    using assms(1,3,5) unfolding t_def by (elim disjE, simp_all add: drift_other c)+
  let ?u = "t\<lparr>lr_tx_index := (if pa_rssi_avg (lr_chips t ! 1) > pa_rssi_avg (lr_chips t ! 0) then 1 else 0)\<rparr>"
  have "(s', ant) = (if lr_ant_pin ?u \<noteq> kPinNone then chooseAntenna ?u else (?u, []))"
    unfolding assms(4) [symmetric] choose_path_def t_def
    by (simp add: n assms(1) two_chips Let_def)
  then show ?thesis using t(2,3) assms(3) by (auto simp: chooseAntenna_def Let_def split: if_splits)
qed

text \<open>The first pass: the frame heard by the other radio moves the transmit index.\<close>

lemma index_moves:
  assumes "on_air i since r" "i < 2" "j = 1 - i" "pa_irq (lr_chips r ! j)" "\<not> pa_irq (lr_chips r ! i)"
    "le_now e - since \<le> kTxTimeoutMs" "packet_of (hw_power_lna_gain (lr_hw r)) (le_reply e j) = [f]"
    "notePathRssi (pa_rssi_avg (lr_chips r ! j)) (of_int (sint (rx_rssi f))) > drifted (pa_rssi_avg (lr_chips r ! i))"
    "serviceRx chip e r = (r', cmds)"
  shows "on_air j since r' \<and> \<not> pa_irq (lr_chips r' ! j) \<and> (\<forall>k. FinishTransmit k \<notin> set cmds) \<and>
    lr_pending r' = lr_pending r \<and> lr_tx_timeouts r' = lr_tx_timeouts r"
proof -
  define r1 where "r1 = r\<lparr>lr_chips := (lr_chips r)[j := (lr_chips r ! j)\<lparr>pa_irq := False\<rparr>]\<rparr>"
  have h: "hw_power_lna_gain (lr_hw r1) = hw_power_lna_gain (lr_hw r)" by (simp add: r1_def)
  let ?p = "\<lparr>ps_finished = False, ps_restart = [False, False], ps_got = []\<rparr>"
  let ?p1 = "?p\<lparr>ps_restart := [False, False][j := True]\<rparr>"
  obtain x where rf: "receive_frame (le_reply e j) j (r1, ?p1) =
      (r1\<lparr>lr_last_snr_db := cr_snr (le_reply e j), lr_have_snr := True, lr_fault := x\<rparr>,
       ?p1\<lparr>ps_got := ps_got ?p1 @ [(j, f)]\<rparr>)"
    and rx: "cr_rx_done (le_reply e j)" "\<not> cr_crc_err (le_reply e j)"
    using receive_one [of r1 "le_reply e j" f] assms(7) unfolding h by blast
  let ?r2 = "r1\<lparr>lr_last_snr_db := cr_snr (le_reply e j), lr_have_snr := True, lr_fault := x\<rparr>"
  let ?p2 = "?p1\<lparr>ps_got := [(j, f)]\<rparr>"
  have l: "length (lr_chips r) = 2" "lr_count r = 2" "lr_transmitting r" "lr_tx_index r = i" "lr_tx_start_ms r = since"
    using assms(1) by (simp_all add: on_air_def)
  have ne: "j \<noteq> i" "j < 2" "i = 0 \<and> j = 1 \<or> i = 1 \<and> j = 0"
    using assms(2,3) by (auto simp: less_2_cases_iff)
  have w: "watchdog (le_now e) r = (r, ?p, [])" using assms(6) l by (simp add: watchdog_def Let_def)
  have sj: "service_chip (le_reply e) j (r, ?p, []) = (?r2, ?p2, [])"
    using l rf rx assms(4) ne(1) unfolding service_chip_def
    by (simp add: Let_def flip: r1_def) (simp add: r1_def)
  have si: "service_chip (le_reply e) i s = s" if "fst s = r \<or> fst s = ?r2" for s
    using that ne(1) assms(5) l by (cases s) (auto simp: service_chip_def r1_def)
  have f: "fold (service_chip (le_reply e)) (lora_chips r) (watchdog (le_now e) r) = (?r2, ?p2, [])"
    unfolding w l(2) two_chips using ne(3) sj si [of "(r, ?p, [])"] si [of "(?r2, ?p2, [])"]
    by (elim disjE) (simp_all del: lora_radio.update_convs)
  obtain r3 ant where cp: "choose_path [(j, f)] ?r2 = (r3, ant)" by fastforce
  have moved: "on_air j since r3 \<and> \<not> pa_irq (lr_chips r3 ! j) \<and> (\<forall>k. FinishTransmit k \<notin> set ant) \<and>
      lr_pending r3 = lr_pending r \<and> lr_tx_timeouts r3 = lr_tx_timeouts r"
  proof -
    have same: "lr_chips ?r2 = lr_chips r1" "lr_count ?r2 = 2" "length (lr_chips ?r2) = 2" "lr_chips r1 ! i = lr_chips r ! i"
      "pa_rssi_avg (lr_chips r1 ! j) = pa_rssi_avg (lr_chips r ! j)" "\<not> pa_irq (lr_chips r1 ! j)"
      using l ne(1,2) by (simp_all add: r1_def)
    have "notePathRssi (pa_rssi_avg (lr_chips ?r2 ! j)) (of_int (sint (rx_rssi f))) > drifted (pa_rssi_avg (lr_chips ?r2 ! i))"
      using assms(8) by (simp only: same(1,4,5))
    from choose_path_one [OF same(2,3) ne(3) cp this]
    have m: "lr_tx_index r3 = j" "map pa_irq (lr_chips r3) = map pa_irq (lr_chips r1)" "\<forall>k. FinishTransmit k \<notin> set ant"
      by (simp_all add: same(1))
    have qs: "quiet_step ?r2 r3" using choose_path_quiet(1) [of ?r2 "[(j, f)]"] by (simp only: cp fst_conv)
    then have "length (lr_chips r3) = length (lr_chips ?r2)" using same_wires_chips unfolding quiet_step_def by blast
    with qs have q: "lr_count r3 = 2" "length (lr_chips r3) = 2" "lr_transmitting r3" "lr_tx_start_ms r3 = since"
      "lr_pending r3 = lr_pending r" "lr_tx_timeouts r3 = lr_tx_timeouts r"
      using l by (simp_all add: quiet_step_def same_wires_def same_tx_def r1_def)
    have "pa_irq (lr_chips r3 ! j) = map pa_irq (lr_chips r3) ! j" using q(2) ne(2) by simp
    also have "\<dots> = pa_irq (lr_chips r1 ! j)" unfolding m(2) using l ne(2) by (simp add: r1_def)
    finally show ?thesis using m q same(6) by (simp add: on_air_def)
  qed
  have up: "lr_chips (hand_up f r3) = lr_chips r3" "lr_count (hand_up f r3) = lr_count r3"
    "lr_transmitting (hand_up f r3) = lr_transmitting r3" "lr_tx_index (hand_up f r3) = lr_tx_index r3"
    "lr_tx_start_ms (hand_up f r3) = lr_tx_start_ms r3" "lr_pending (hand_up f r3) = lr_pending r3"
    "lr_tx_timeouts (hand_up f r3) = lr_tx_timeouts r3"
    by (simp_all add: hand_up_def)
  have "r' = hand_up f r3" "cmds = ant"
    using assms(9) moved l unfolding serviceRx_def Let_def f
    by (simp_all add: cp merge_copies_def resume_def on_air_def up)
  with moved show ?thesis by (simp add: on_air_def up)
qed

text \<open>The second pass: the transmit-done interrupt of radio \<open>i\<close> is taken for a reception.\<close>

lemma interrupt_missed:
  assumes "on_air j since r" "i = 0 \<and> j = 1 \<or> i = 1 \<and> j = 0" "\<not> pa_irq (lr_chips r ! j)"
    "le_now e - since \<le> kTxTimeoutMs" "\<not> cr_rx_done (le_reply e i)"
  shows "\<exists>r'. serviceRx chip e r = (r', []) \<and> on_air j since r' \<and> \<not> pa_irq (lr_chips r' ! i) \<and>
    lr_pending r' = lr_pending r \<and> lr_tx_timeouts r' = lr_tx_timeouts r"
proof -
  let ?p = "\<lparr>ps_finished = False, ps_restart = [False, False], ps_got = []\<rparr>"
  have l: "length (lr_chips r) = 2" "lr_count r = 2" "lr_transmitting r" "lr_tx_index r = j" "lr_tx_start_ms r = since"
    using assms(1) by (simp_all add: on_air_def)
  have w: "watchdog (le_now e) r = (r, ?p, [])" using assms(4) l by (simp add: watchdog_def Let_def)
  define r1 where "r1 = (if pa_irq (lr_chips r ! i)
     then r\<lparr>lr_chips := (lr_chips r)[i := (lr_chips r ! i)\<lparr>pa_irq := False\<rparr>]\<rparr> else r)"
  have r1: "on_air j since r1" "\<not> pa_irq (lr_chips r1 ! i)" "\<not> pa_irq (lr_chips r1 ! j)"
    "lr_pending r1 = lr_pending r" "lr_tx_timeouts r1 = lr_tx_timeouts r"
    using assms(1-3) l by (auto simp: r1_def on_air_def)
  define q where "q = (if pa_irq (lr_chips r ! i) then ?p\<lparr>ps_restart := [False, False][i := True]\<rparr> else ?p)"
  have q: "ps_finished q = False" "ps_got q = []" by (simp_all add: q_def)
  have "i \<noteq> lr_tx_index r" using assms(2) l(4) by auto
  then have si: "service_chip (le_reply e) i (r, ?p, []) = (r1, q, [])"
    using assms(5) by (simp add: service_chip_def r1_def q_def Let_def)
  have sj: "service_chip (le_reply e) j (s, q', []) = (s, q', [])" if "s = r \<or> s = r1" for s q'
    using that assms(3) r1(3) by (auto simp: service_chip_def)
  have f: "fold (service_chip (le_reply e)) (lora_chips r) (watchdog (le_now e) r) = (r1, q, [])"
    unfolding w l(2) two_chips using assms(2) si sj by auto
  have "serviceRx chip e r = (r1, [])"
    using l(2) q r1(1) unfolding serviceRx_def Let_def f
    by (simp add: choose_path_def merge_copies_def resume_def on_air_def)
  with r1 show ?thesis by blast
qed

text \<open>The third: the watchdog finishes the transmission of the radio that is not sending.\<close>

definition given_up :: "lora_cmd list \<Rightarrow> u32 \<Rightarrow> lora_radio \<times> lora_pass \<times> lora_cmd list \<Rightarrow> bool" where
  "given_up cmds n s \<longleftrightarrow> timed_out n s \<and> snd (snd s) = cmds"

lemma service_chip_given_up: "given_up cmds n s \<Longrightarrow> given_up cmds n (service_chip reply i s)"
proof -
  assume g: "given_up cmds n s"
  obtain r p c where s: "s = (r, p, c)" by (metis prod_cases3)
  have "\<not> lr_transmitting r" using g by (simp add: given_up_def timed_out_def s)
  then have "snd (snd (service_chip reply i s)) = c"
    by (simp add: service_chip_def s Let_def split: prod.split)
  with g show ?thesis using service_chip_timed_out by (auto simp: given_up_def s)
qed

lemma watchdog_finishes_other:
  assumes "on_air j since r" "i \<noteq> j" "le_now e - since > kTxTimeoutMs" "path_ok r"
  shows "\<exists>r' rest. serviceRx chip e r = (r', FinishTransmit j # rest) \<and> FinishTransmit i \<notin> set rest \<and>
    lr_tx_timeouts r' = lr_tx_timeouts r + 1"
proof -
  have l: "lr_count r = 2" "lr_transmitting r" "lr_tx_index r = j" "lr_tx_start_ms r = since"
    using assms(1) by (simp_all add: on_air_def)
  let ?idle = "given_up [FinishTransmit j] (lr_tx_timeouts r + 1)"
  have w: "?idle (watchdog (le_now e) r)" using assms(3) l by (simp add: watchdog_def Let_def given_up_def timed_out_def)
  obtain r1 p cmds ant v r2 where f: "fold (service_chip (le_reply e)) (lora_chips r) (watchdog (le_now e) r) = (r1, p, cmds)"
    and q: "quiet_step r1 r2" and ant: "ant = [] \<or> lr_ant_pin r \<noteq> kPinNone \<and> ant = write_pin (lr_ant_pin r) v"
    and s: "serviceRx chip e r = (if lr_count r = 0 then (r, [])
       else (fst (resume chip (le_now_tx e) p r2), cmds @ ant @ snd (resume chip (le_now_tx e) p r2)))"
    by (rule serviceRx_cases [OF assms(4), of e chip]) blast
  have "?idle (fold (service_chip (le_reply e)) (lora_chips r) (watchdog (le_now e) r))"
    by (rule fold_invariant [where Q = "\<lambda>_. True"]) (use w in \<open>simp_all add: service_chip_given_up\<close>)
  then have i: "\<not> lr_transmitting r1" "cmds = [FinishTransmit j]" "ps_finished p" "lr_tx_timeouts r1 = lr_tx_timeouts r + 1"
    unfolding f by (simp_all add: given_up_def timed_out_def)
  obtain r' out where res: "resume chip (le_now_tx e) p r2 = (r', out)" by fastforce
  have "\<not> lr_transmitting r2" "lr_tx_timeouts r2 = lr_tx_timeouts r + 1"
    using q i by (simp_all add: quiet_step_def same_tx_def)
  then have "lr_tx_timeouts r' = lr_tx_timeouts r + 1" using resume_finished_tx(2) [OF _ i(3) res] by simp
  moreover have "FinishTransmit i \<notin> set (ant @ out)"
    using ant resume_no_finish [of i chip "le_now_tx e" p r2] res by auto
  ultimately show ?thesis using s l(1) i(2) res by simp
qed

text \<open>C29: While a frame is on the air, a frame the other radio received before it was keyed can make
  the driver miss the end of the transmission: in any state of any life of a two-radio driver with no
  frame on the air, let radio \<open>j\<close> have an unserved interrupt; if a frame is then sent, on radio \<open>i\<close>,
  and the next pass reads from \<open>j\<close> a good packet that puts \<open>j\<close>'s average above \<open>i\<close>'s, the
  transmit-done interrupt of radio \<open>i\<close> is consumed and changes nothing: no transmission is finished
  and the driver goes on waiting, until a pass more than 500 milliseconds after the start finishes
  the transmission of radio \<open>j\<close>, which never transmitted, and counts a timeout.\<close>

theorem lora_tx_done_missed:
  assumes "layout_ok hw" "front_end_ok hw"
    "lora_begin chip me ok hw band dbm first max_radios g RadioLoRa = Some (g', r0, cmds0, True)"
    "lora_run chip ops r0 = Some (r, cmds, popped)"
    "lr_count r = 2" "\<not> lr_transmitting r" "i = lr_tx_index r" "j = 1 - i"
    "pa_irq (lr_chips r ! j)" "\<not> pa_irq (lr_chips r ! i)"
    "packet_of (hw_power_lna_gain (lr_hw r)) (le_reply e1 j) = [f]"
    "notePathRssi (pa_rssi_avg (lr_chips r ! j)) (of_int (sint (rx_rssi f))) > drifted (pa_rssi_avg (lr_chips r ! i))"
    "cr_tx_done (le_reply e2 i)" "\<not> cr_rx_done (le_reply e2 i)"
    "le_now e1 - now \<le> kTxTimeoutMs" "le_now e2 - now \<le> kTxTimeoutMs" "le_now e3 - now > kTxTimeoutMs"
  shows "\<exists>r2 out r3 rest.
    lora_run chip [SendFrame now data, ServicePass e1, Interrupt i, ServicePass e2] r = Some (r2, out, []) \<and>
    StartTransmit i data \<in> set out \<and> (\<forall>k. FinishTransmit k \<notin> set out) \<and>
    lr_transmitting r2 \<and> \<not> pa_irq (lr_chips r2 ! i) \<and>
    serviceRx chip e3 r2 = (r3, FinishTransmit j # rest) \<and> FinishTransmit i \<notin> set rest \<and>
    lr_tx_timeouts r3 = lr_tx_timeouts r + 1"
proof -
  have tx_ok: "tx_ok r"
    using lora_run_accounts [OF lora_begin_tx(1) [OF assms(1-3)], of chip ops] assms(4) by auto
  then have inv: "length (lr_chips r) = 2" "i < 2" using assms(5,7) by (simp_all add: tx_ok_def lora_inv_def)
  then have ne: "i = 0 \<and> j = 1 \<or> i = 1 \<and> j = 0" "j < 2" "i \<noteq> j" using assms(8) by (auto simp: less_2_cases_iff)
  define s where "s = r\<lparr>lr_transmitting := True, lr_tx_start_ms := now\<rparr>"
  have s: "on_air i now s" "lr_chips s = lr_chips r" "lr_hw s = lr_hw r" "lr_tx_timeouts s = lr_tx_timeouts r"
    using inv assms(5,7) by (simp_all add: s_def on_air_def)
  have tx: "lora_transmit now data r = (s, snd (startTx now data r))"
    using assms(5,6) by (simp add: lora_transmit_def s_def startTx_def)
  obtain s1 c1 where e1: "serviceRx chip e1 s = (s1, c1)" by fastforce
  from index_moves [OF s(1) inv(2) assms(8) _ _ assms(15) _ _ e1] assms(9-12)
  have 1: "on_air j now s1" "\<not> pa_irq (lr_chips s1 ! j)" "\<forall>k. FinishTransmit k \<notin> set c1"
    "lr_tx_timeouts s1 = lr_tx_timeouts r" by (simp_all add: s(2-4))
  let ?s2 = "onIsr i s1"
  have 2: "on_air j now ?s2" "\<not> pa_irq (lr_chips ?s2 ! j)" "lr_tx_timeouts ?s2 = lr_tx_timeouts r" "i < lr_count s1"
    using 1 ne inv(2) by (simp_all add: onIsr_def on_air_def)
  obtain s3 where e2: "serviceRx chip e2 ?s2 = (s3, [])" and 3: "on_air j now s3" "\<not> pa_irq (lr_chips s3 ! i)"
    "lr_tx_timeouts s3 = lr_tx_timeouts r"
    using interrupt_missed [OF 2(1) ne(1) 2(2) assms(16,14), of chip] 2(3) by auto
  have run: "lora_run chip [SendFrame now data, ServicePass e1, Interrupt i, ServicePass e2] r =
      Some (s3, snd (startTx now data r) @ c1, [])"
    by (simp add: tx e1 2(4) e2)
  then have "lora_inv s3"
    using lora_run_accounts [OF tx_ok, of chip "[SendFrame now data, ServicePass e1, Interrupt i, ServicePass e2]"]
    by (auto simp: tx_ok_def simp del: lora_run.simps)
  then obtain r3 rest where "serviceRx chip e3 s3 = (r3, FinishTransmit j # rest)" "FinishTransmit i \<notin> set rest"
    "lr_tx_timeouts r3 = lr_tx_timeouts r + 1"
    using watchdog_finishes_other [OF 3(1) ne(3) assms(17) lora_inv_path, of chip] 3(3) by auto
  moreover have "StartTransmit i data \<in> set (snd (startTx now data r))" by (simp add: startTx_def assms(7))
  ultimately show ?thesis using run 1(3) 3(1,2) by (simp add: on_air_def)
qed

definition frame_sent :: chip_reply where
  "frame_sent = no_reply\<lparr>cr_tx_done := True\<rparr>"

theorem lora_tx_done_missed_witness:
  "\<exists>g r0 cmds0 r2 out r3 rest. two_radio_start = Some (g, r0, cmds0, True) \<and>
    lora_run SX128x [Interrupt 1, SendFrame 0 [1, 2, 3],
      ServicePass \<lparr>le_now = 5, le_now_tx = 5, le_reply = \<lambda>_. strong_frame\<rparr>, Interrupt 0,
      ServicePass \<lparr>le_now = 40, le_now_tx = 40, le_reply = \<lambda>_. frame_sent\<rparr>] r0 = Some (r2, out, []) \<and>
    StartTransmit 0 [1, 2, 3] \<in> set out \<and> lr_transmitting r2 \<and>
    serviceRx SX128x \<lparr>le_now = 501, le_now_tx = 501, le_reply = \<lambda>_. no_reply\<rparr> r2 = (r3, FinishTransmit 1 # rest)"
proof -
  obtain g r0 cmds0 where s: "two_radio_start = Some (g, r0, cmds0, True)" and r0: "lr_count r0 = 2"
    "lr_hw r0 = two_radios" "lr_chips r0 = [Path\<lparr>pa_txen := 11, pa_rxen := 10\<rparr>, Path\<lparr>pa_txen := 13, pa_rxen := 12\<rparr>]"
    "lr_tx_index r0 = 0" "\<not> lr_transmitting r0"
    using two_radio_state by blast
  let ?r = "onIsr 1 r0" and ?e = "\<lambda>t reply. \<lparr>le_now = t, le_now_tx = t, le_reply = \<lambda>_. reply\<rparr>"
  have run: "lora_run SX128x [Interrupt 1] r0 = Some (?r, [], [])" by (simp add: r0)
  have h: "lr_count ?r = 2" "\<not> lr_transmitting ?r" "0 = lr_tx_index ?r" "(1 :: nat) = 1 - 0"
    "pa_irq (lr_chips ?r ! 1)" "\<not> pa_irq (lr_chips ?r ! 0)"
    "packet_of (hw_power_lna_gain (lr_hw ?r)) (le_reply (?e 5 strong_frame) 1) = [strong_heard]"
    "notePathRssi (pa_rssi_avg (lr_chips ?r ! 1)) (of_int (sint (rx_rssi strong_heard))) > drifted (pa_rssi_avg (lr_chips ?r ! 0))"
    "cr_tx_done (le_reply (?e 40 frame_sent) 0)" "\<not> cr_rx_done (le_reply (?e 40 frame_sent) 0)"
    "le_now (?e 5 strong_frame) - 0 \<le> kTxTimeoutMs" "le_now (?e 40 frame_sent) - 0 \<le> kTxTimeoutMs"
    "le_now (?e 501 no_reply) - 0 > kTxTimeoutMs"
    by (simp_all add: onIsr_def r0 Path_def strong_packet strong_heard_def notePathRssi_def drifted_def
        frame_sent_def no_reply_def kTxTimeoutMs_def)
  from lora_tx_done_missed [OF two_radios_ok s [unfolded two_radio_start_def] run h, of "[1, 2, 3]"]
  obtain r2 out r3 rest where "lora_run SX128x [SendFrame 0 [1, 2, 3], ServicePass (?e 5 strong_frame), Interrupt 0,
      ServicePass (?e 40 frame_sent)] ?r = Some (r2, out, [])"
    "StartTransmit 0 [1, 2, 3] \<in> set out" "lr_transmitting r2"
    "serviceRx SX128x (?e 501 no_reply) r2 = (r3, FinishTransmit 1 # rest)" by blast
  moreover from this have "lora_run SX128x [Interrupt 1, SendFrame 0 [1, 2, 3], ServicePass (?e 5 strong_frame),
      Interrupt 0, ServicePass (?e 40 frame_sent)] r0 = Some (r2, out, [])"
    using r0(1) by (subst lora_run.simps) (simp del: lora_run.simps)
  ultimately show ?thesis using s by blast
qed

end
