(* ===== verification/Gnss.thy ===== *)
theory Gnss
  imports Ubx Node_Deps Rolling_Log
begin

text \<open>
  src/hal/DirectGpsLocationSource.h and .cpp with lib/ff_core/gnss_link.h: the driver of a GPS
  module wired to the node. It sweeps the baud rates to raise the module's port speed, asks for
  NAV-PVT, falls back to the older messages when the module refuses that one, and starts over when
  the module falls silent. The serial port is the bytes a service finds in it, each with the clock
  when it is handled, and the list of what is done to it.
\<close>

section \<open>Constants and state\<close>

definition kGnssSeenTypes :: nat where [simp]: "kGnssSeenTypes = 8"
definition kSniffBytes :: nat where [simp]: "kSniffBytes = 192"
definition kCandidateBauds :: "u32 list" where "kCandidateBauds = [115200, 9600, 38400, 57600, 230400]"
definition kNumBauds :: nat where "kNumBauds = length kCandidateBauds"
definition kSweepStepMs :: u32 where "kSweepStepMs = 200"
definition kSilenceTimeoutMs :: u32 where "kSilenceTimeoutMs = 4000"
definition kGnssBudget :: nat where [simp]: "kGnssBudget = 256"

datatype gnss_state = Sweep | Parse

record gnss_msg_count =
  gm_cls :: u8
  gm_id :: u8
  gm_count :: u32

definition GnssMsgCount :: gnss_msg_count where
  "GnssMsgCount = \<lparr>gm_cls = 0, gm_id = 0, gm_count = 0\<rparr>"

text \<open>\<open>gn_fault\<close> is not in the code: it records a decoder that read past a payload.\<close>

record gnss =
  gn_sniff :: byte_list
  gn_sniff_head :: nat
  gn_sniff_count :: nat
  gn_seen :: "gnss_msg_count list"
  gn_bytes :: u32
  gn_ubx_frames :: u32
  gn_nav_pvt :: u32
  gn_nmea :: u32
  gn_sweeps :: u32
  gn_last_byte_ms :: u32
  gn_prev_byte :: u8
  gn_legacy :: bool
  gn_awaiting_pvt_ack :: bool
  gn_serial :: bool
  gn_pin_rx :: i8
  gn_pin_tx :: i8
  gn_parser :: ubx_parser
  gn_cached :: node_location
  gn_state :: gnss_state
  gn_meas_ms :: u16
  gn_target_baud :: u32
  gn_current_baud :: u32
  gn_sweep_idx :: nat
  gn_sweep_step_ms :: u32
  gn_last_pvt_ms :: u32
  gn_fault :: bool

definition Gnss :: gnss where
  "Gnss = \<lparr>gn_sniff = replicate kSniffBytes 0, gn_sniff_head = 0, gn_sniff_count = 0,
     gn_seen = replicate kGnssSeenTypes GnssMsgCount, gn_bytes = 0, gn_ubx_frames = 0, gn_nav_pvt = 0,
     gn_nmea = 0, gn_sweeps = 0, gn_last_byte_ms = 0, gn_prev_byte = 0, gn_legacy = False,
     gn_awaiting_pvt_ack = False, gn_serial = False, gn_pin_rx = - 1, gn_pin_tx = - 1, gn_parser = UbxParser,
     gn_cached = NodeLocation, gn_state = Sweep, gn_meas_ms = 100, gn_target_baud = 115200,
     gn_current_baud = 0, gn_sweep_idx = 0, gn_sweep_step_ms = 0, gn_last_pvt_ms = 0, gn_fault = False\<rparr>"

datatype gnss_cmd = OpenPort u32 i8 i8 | WritePort byte_list

section \<open>Configuration\<close>

definition setBaud :: "u32 \<Rightarrow> gnss \<Rightarrow> gnss \<times> gnss_cmd list" where
  "setBaud baud g =
     (g\<lparr>gn_current_baud := baud, gn_parser := ubx_reset (gn_parser g)\<rparr>,
      [OpenPort baud (gn_pin_rx g) (gn_pin_tx g)])"

definition gnss_begin :: "i8 \<Rightarrow> i8 \<Rightarrow> u8 \<Rightarrow> u32 \<Rightarrow> gnss \<Rightarrow> gnss \<times> gnss_cmd list" where
  "gnss_begin pin_rx pin_tx rate_hz now g =
     (let rate = (if rate_hz < 1 then 1 else rate_hz); rate = (if rate > 18 then 18 else rate)
      in setBaud (gn_target_baud g)
           (g\<lparr>gn_serial := True, gn_pin_rx := pin_rx, gn_pin_tx := pin_tx,
              gn_meas_ms := of_nat (1000 div unat rate), gn_state := Sweep, gn_sweep_idx := 0,
              gn_sweep_step_ms := now - kSweepStepMs\<rparr>))"

definition legacy_write :: "gnss_cmd list" where
  "legacy_write = (let legacy = buildLegacyNavConfig 64 in if legacy \<noteq> [] then [WritePort legacy] else [])"

definition gnss_sendConfig :: "gnss \<Rightarrow> gnss \<times> gnss_cmd list" where
  "gnss_sendConfig g =
     (let rate = [WritePort (buildCfgRate (gn_meas_ms g) 32)];
          (g, nav) = (if gn_legacy g then (g, legacy_write)
                      else (g\<lparr>gn_awaiting_pvt_ack := True\<rparr>,
                            [WritePort (buildCfgMsg kUbxClassNav kUbxIdNavPvt 1 32)]));
          quiet = map (\<lambda>i. WritePort (buildCfgMsg kUbxClassNmea i 0 32)) [0, 1, 2, 3, 4, 5]
      in (g, rate @ nav @ quiet))"

section \<open>Messages\<close>

definition note_byte :: "u32 \<Rightarrow> u8 \<Rightarrow> gnss \<Rightarrow> gnss" where
  "note_byte now b g =
     g\<lparr>gn_bytes := gn_bytes g + 1, gn_last_byte_ms := now,
       gn_nmea := (if gn_prev_byte g = 0x24 \<and> (b = 0x47 \<or> b = 0x50) then gn_nmea g + 1 else gn_nmea g),
       gn_prev_byte := b, gn_sniff := (gn_sniff g)[gn_sniff_head g := b],
       gn_sniff_head := (gn_sniff_head g + 1) mod kSniffBytes,
       gn_sniff_count := (if gn_sniff_count g < kSniffBytes then gn_sniff_count g + 1 else gn_sniff_count g)\<rparr>"

fun count_message :: "u8 \<Rightarrow> u8 \<Rightarrow> gnss_msg_count list \<Rightarrow> gnss_msg_count list" where
  "count_message cls mid [] = []"
| "count_message cls mid (m # ms) =
     (if gm_count m \<noteq> 0 \<and> gm_cls m = cls \<and> gm_id m = mid then m\<lparr>gm_count := gm_count m + 1\<rparr> # ms
      else if gm_count m = 0 then \<lparr>gm_cls = cls, gm_id = mid, gm_count = 1\<rparr> # ms
      else m # count_message cls mid ms)"

definition noteMessage :: "u8 \<Rightarrow> u8 \<Rightarrow> gnss \<Rightarrow> gnss" where
  "noteMessage cls mid g = g\<lparr>gn_seen := count_message cls mid (gn_seen g)\<rparr>"

definition handlePvt :: "u32 \<Rightarrow> byte_list \<Rightarrow> gnss \<Rightarrow> gnss" where
  "handlePvt now payload g =
     (case decodeNavPvt payload of
        None \<Rightarrow> g\<lparr>gn_fault := True\<rparr>
      | Some None \<Rightarrow> g
      | Some (Some fix) \<Rightarrow>
          g\<lparr>gn_cached := (gn_cached g)\<lparr>loc_valid := uf_valid fix, loc_lat := uf_lat fix, loc_lon := uf_lon fix,
              loc_alt_m := uf_alt_m fix, loc_speed_cms := uf_speed_cms fix,
              loc_course_ddeg := uf_course_ddeg fix, loc_sats := uf_num_sat fix,
              loc_fix_type := uf_fix_type fix\<rparr>,
            gn_last_pvt_ms := now\<rparr>)"

text \<open>What a legacy message does to the location: \<open>None\<close> for a message that is not one or is too
  short, which ends the handler early.\<close>

definition legacy_location :: "u8 \<Rightarrow> byte_list \<Rightarrow> node_location \<Rightarrow> node_location option option" where
  "legacy_location mid payload loc =
     (if mid = kUbxIdNavPosllh then
        map_option (map_option (\<lambda>p. loc\<lparr>loc_lat := up_lat p, loc_lon := up_lon p, loc_alt_m := up_alt_m p\<rparr>))
          (decodeNavPosllh payload)
      else if mid = kUbxIdNavSol then
        map_option (map_option (\<lambda>s. loc\<lparr>loc_valid := us_valid s, loc_fix_type := us_fix_type s, loc_sats := us_num_sat s\<rparr>))
          (decodeNavSol payload)
      else if mid = kUbxIdNavVelned then
        map_option (map_option (\<lambda>v. loc\<lparr>loc_speed_cms := uv_speed_cms v, loc_course_ddeg := uv_course_ddeg v\<rparr>))
          (decodeNavVelned payload)
      else if mid = kUbxIdNavDop then
        map_option (map_option (\<lambda>h. loc\<lparr>loc_hdop := h\<rparr>)) (decodeNavDop payload)
      else Some None)"

definition handleLegacyNav :: "u32 \<Rightarrow> u8 \<Rightarrow> byte_list \<Rightarrow> gnss \<Rightarrow> gnss" where
  "handleLegacyNav now mid payload g =
     (case legacy_location mid payload (gn_cached g) of
        None \<Rightarrow> g\<lparr>gn_fault := True\<rparr>
      | Some None \<Rightarrow> g
      | Some (Some loc) \<Rightarrow> g\<lparr>gn_cached := loc, gn_last_pvt_ms := now\<rparr>)"

definition handleAck :: "u32 \<Rightarrow> bool \<Rightarrow> byte_list \<Rightarrow> gnss \<Rightarrow> gnss \<times> gnss_cmd list" where
  "handleAck now acked payload g =
     (if \<not> gn_awaiting_pvt_ack g \<or> gn_legacy g then (g, [])
      else case decodeAck payload of
             None \<Rightarrow> (g, [])
           | Some (cls, mid) \<Rightarrow>
               if cls \<noteq> kUbxClassCfg \<or> mid \<noteq> kUbxIdCfgMsg then (g, [])
               else let g = g\<lparr>gn_awaiting_pvt_ack := False\<rparr>
                    in if acked then (g, [])
                       else (g\<lparr>gn_legacy := True, gn_last_pvt_ms := now\<rparr>, legacy_write))"

text \<open>A parsed message, counted and handled.\<close>

fun gnss_message :: "u32 \<Rightarrow> ubx_message \<Rightarrow> gnss \<Rightarrow> gnss \<times> gnss_cmd list" where
  "gnss_message now (cls, mid, payload) g =
     (let g = noteMessage cls mid (g\<lparr>gn_ubx_frames := gn_ubx_frames g + 1\<rparr>)
      in if cls = kUbxClassNav then
           if mid = kUbxIdNavPvt then (handlePvt now payload (g\<lparr>gn_nav_pvt := gn_nav_pvt g + 1\<rparr>), [])
           else (handleLegacyNav now mid payload g, [])
         else if cls = kUbxClassAck then handleAck now (mid = kUbxIdAckAck) payload g
         else (g, []))"

section \<open>Service\<close>

definition gnss_byte :: "u32 \<times> u8 \<Rightarrow> gnss \<times> gnss_cmd list \<Rightarrow> gnss \<times> gnss_cmd list" where
  "gnss_byte x s =
     (let g = note_byte (fst x) (snd x) (fst s); (p, ok) = ubx_feed (gn_parser g) (snd x);
          g = g\<lparr>gn_parser := p\<rparr>
      in if ok then (case gnss_message (fst x) (ub_message p) g of (g, cmds) \<Rightarrow> (g, snd s @ cmds))
         else (g, snd s))"

definition sweep_step :: "u32 \<Rightarrow> gnss \<Rightarrow> gnss \<times> gnss_cmd list" where
  "sweep_step now g =
     (if now - gn_sweep_step_ms g < kSweepStepMs then (g, [])
      else
        let g = g\<lparr>gn_sweep_step_ms := now\<rparr>
        in if gn_sweep_idx g < kNumBauds then
             let (g, open_cmds) = setBaud (kCandidateBauds ! gn_sweep_idx g) g
             in (g\<lparr>gn_sweep_idx := gn_sweep_idx g + 1\<rparr>,
                 open_cmds @ [WritePort (buildCfgPrtUart (gn_target_baud g) 32)])
           else
             let (g, open_cmds) = setBaud (gn_target_baud g) g; (g, config) = gnss_sendConfig g
             in (g\<lparr>gn_last_pvt_ms := now, gn_state := Parse\<rparr>, open_cmds @ config))"

definition check_silence :: "u32 \<Rightarrow> gnss \<Rightarrow> gnss" where
  "check_silence now g =
     (if now - gn_last_pvt_ms g > kSilenceTimeoutMs then
        g\<lparr>gn_cached := (gn_cached g)\<lparr>loc_valid := False\<rparr>, gn_state := Sweep, gn_sweep_idx := 0,
          gn_sweep_step_ms := now - kSweepStepMs, gn_sweeps := gn_sweeps g + 1\<rparr>
      else g)"

text \<open>A service: the bytes in the port, of which it takes its budget, and the clock after them. The
  bytes it leaves are returned.\<close>

definition gnss_service ::
  "(u32 \<times> u8) list \<Rightarrow> u32 \<Rightarrow> gnss \<Rightarrow> gnss \<times> gnss_cmd list \<times> (u32 \<times> u8) list" where
  "gnss_service available now g =
     (if \<not> gn_serial g then (g, [], available)
      else
        let (g, cmds) = fold gnss_byte (take kGnssBudget available) (g, [])
        in case gn_state g of
             Sweep \<Rightarrow> (case sweep_step now g of (g, tuning) \<Rightarrow> (g, cmds @ tuning, drop kGnssBudget available))
           | Parse \<Rightarrow> (check_silence now g, cmds, drop kGnssBudget available))"

section \<open>Diagnostics\<close>

record gnss_link_stats =
  gs_bytes :: u32
  gs_ubx_frames :: u32
  gs_nav_pvt :: u32
  gs_nmea :: u32
  gs_sweeps :: u32
  gs_baud :: u32
  gs_configured :: bool
  gs_last_byte_age_ms :: u32
  gs_last_pvt_age_ms :: u32
  gs_seen :: "gnss_msg_count list"

definition gnssStats :: "u32 \<Rightarrow> gnss \<Rightarrow> gnss_link_stats" where
  "gnssStats now_ms g =
     \<lparr>gs_bytes = gn_bytes g, gs_ubx_frames = gn_ubx_frames g, gs_nav_pvt = gn_nav_pvt g, gs_nmea = gn_nmea g,
      gs_sweeps = gn_sweeps g, gs_baud = gn_current_baud g, gs_configured = (gn_state g = Parse),
      gs_last_byte_age_ms = (if gn_last_byte_ms g = 0 then 0 else now_ms - gn_last_byte_ms g),
      gs_last_pvt_age_ms = (if gn_nav_pvt g = 0 then 0 else now_ms - gn_last_pvt_ms g),
      gs_seen = gn_seen g\<rparr>"

definition gnssSniff :: "gnss \<Rightarrow> nat \<Rightarrow> byte_list" where
  "gnssSniff g cap =
     (let n = (if gn_sniff_count g < cap then gn_sniff_count g else cap);
          start = (gn_sniff_head g + kSniffBytes - n) mod kSniffBytes
      in map (\<lambda>i. gn_sniff g ! ((start + i) mod kSniffBytes)) [0..<n])"

end
