(* ===== verification/Gnss_Props.thy ===== *)
theory Gnss_Props
  imports Gnss
begin

text \<open>
  The location of the GPS driver is made of frames that really arrived, a silent module is swept
  and configured again, and the raw tap shows the last bytes off the wire.
\<close>

section \<open>Runs\<close>

text \<open>Services in a row, each with the bytes it finds and its clock. What it leaves in the port is
  part of what the next one finds.\<close>

fun gnss_run :: "((u32 \<times> u8) list \<times> u32) list \<Rightarrow> gnss \<Rightarrow> gnss \<times> gnss_cmd list" where
  "gnss_run [] g = (g, [])"
| "gnss_run ((available, now) # xs) g =
     (case gnss_service available now g of
        (g, cmds, rest) \<Rightarrow> (case gnss_run xs g of (g, more_cmds) \<Rightarrow> (g, cmds @ more_cmds)))"

text \<open>The bytes the services took.\<close>

definition bytes_read :: "((u32 \<times> u8) list \<times> u32) list \<Rightarrow> byte_list" where
  "bytes_read xs = concat (map (\<lambda>x. map snd (take kGnssBudget (fst x))) xs)"

section \<open>The raw tap\<close>

definition sniff_inv :: "gnss \<Rightarrow> bool" where
  "sniff_inv g \<longleftrightarrow> length (gn_sniff g) = 192 \<and> gn_sniff_head g < 192 \<and> gn_sniff_count g \<le> 192"

definition sniff_at :: "gnss \<Rightarrow> nat \<Rightarrow> u8" where
  "sniff_at g i = gn_sniff g ! ((gn_sniff_head g + 192 - 1 - i mod 192) mod 192)"

interpretation sniff: rolling_log 192 gn_sniff gn_sniff_head gn_sniff_count "\<lambda>g b. note_byte 0 b g" sniff_at sniff_inv
  by unfold_locales (auto simp: sniff_inv_def note_byte_def sniff_at_def)

abbreviation sniffed :: "gnss \<Rightarrow> byte_list" where "sniffed \<equiv> recent_of sniff_at gn_sniff_count"

definition same_sniff :: "gnss \<Rightarrow> gnss \<Rightarrow> bool" where
  "same_sniff g g' \<longleftrightarrow> gn_sniff g' = gn_sniff g \<and> gn_sniff_head g' = gn_sniff_head g \<and> gn_sniff_count g' = gn_sniff_count g"

lemma sniffed_same: "same_sniff g g' \<Longrightarrow> sniffed g' = sniffed g \<and> sniff_inv g' = sniff_inv g"
  by (simp add: same_sniff_def recent_of_def sniff_at_def sniff_inv_def)

lemma same_sniff_trans: "same_sniff g h \<Longrightarrow> same_sniff h k \<Longrightarrow> same_sniff g k"
  by (simp add: same_sniff_def)

lemma message_sniff: "same_sniff g (fst (gnss_message now m g))"
  by (cases m) (auto simp: same_sniff_def noteMessage_def handlePvt_def handleLegacyNav_def handleAck_def Let_def
      split: option.splits)

text \<open>One byte: noted and fed, and the message it completes, if it completes one, handled.\<close>

lemma gnss_byte_eq:
  assumes "ubx_feed (gn_parser (fst s)) (snd x) = (p, ok)"
  shows "gnss_byte x s =
    (let g = (note_byte (fst x) (snd x) (fst s))\<lparr>gn_parser := p\<rparr>; m = gnss_message (fst x) (ub_message p) g
     in if ok then (fst m, snd s @ snd m) else (g, snd s))"
proof -
  have "gn_parser (note_byte (fst x) (snd x) (fst s)) = gn_parser (fst s)" by (simp add: note_byte_def)
  with assms show ?thesis
    by (simp add: gnss_byte_def Let_def del: gnss_message.simps split: prod.split)
qed

lemma byte_sniff: "same_sniff (note_byte 0 (snd x) (fst s)) (fst (gnss_byte x s))"
proof -
  obtain p ok where p: "ubx_feed (gn_parser (fst s)) (snd x) = (p, ok)" by fastforce
  let ?g = "(note_byte (fst x) (snd x) (fst s))\<lparr>gn_parser := p\<rparr>"
  have "same_sniff (note_byte 0 (snd x) (fst s)) ?g" by (simp add: same_sniff_def note_byte_def)
  then show ?thesis
    using same_sniff_trans [OF _ message_sniff] by (simp add: gnss_byte_eq [OF p] Let_def del: gnss_message.simps)
qed

lemma take_past: "take n (xs @ take n ys) = take n (xs @ ys)"
  by (cases "n \<le> length xs") simp_all

lemma drain_sniff:
  "sniff_inv (fst s) \<Longrightarrow> sniff_inv (fst (fold gnss_byte xs s)) \<and>
     sniffed (fst (fold gnss_byte xs s)) = take 192 (rev (map snd xs) @ sniffed (fst s))"
proof (induction xs arbitrary: s)
  case Nil
  then show ?case by (simp add: recent_of_def sniff_inv_def)
next
  case (Cons x xs)
  let ?g = "note_byte 0 (snd x) (fst s)"
  have i: "sniff_inv ?g" using sniff.append_inv [OF Cons.prems] by simp
  have b: "sniff_inv (fst (gnss_byte x s))" "sniffed (fst (gnss_byte x s)) = take 192 (snd x # sniffed (fst s))"
    using sniffed_same [OF byte_sniff [of x s]] i sniff.recent_append [OF Cons.prems, of "snd x"] by simp_all
  show ?case using Cons.IH [OF b(1)] unfolding b(2) take_past by simp
qed

lemma tuning_sniff: "same_sniff g (fst (sweep_step now g))" "same_sniff g (check_silence now g)"
  by (auto simp: same_sniff_def sweep_step_def setBaud_def gnss_sendConfig_def check_silence_def Let_def split: prod.split)

lemma service_sniff:
  assumes "sniff_inv g" "gn_serial g" "gnss_service available now g = (g', cmds, rest)"
  shows "sniff_inv g' \<and> sniffed g' = take 192 (rev (map snd (take 256 available)) @ sniffed g)"
proof -
  obtain h c where f: "fold gnss_byte (take 256 available) (g, []) = (h, c)" by fastforce
  have "same_sniff h g'"
    using assms(2,3) tuning_sniff [of h now] f by (auto simp: gnss_service_def split: gnss_state.splits prod.splits)
  with drain_sniff [of "(g, [])" "take 256 available"] assms(1) f sniffed_same [of h g'] show ?thesis by simp
qed

lemma gnssSniff_recent:
  assumes "sniff_inv g"
  shows "gnssSniff g cap = rev (take cap (sniffed g))"
proof (rule nth_equalityI)
  let ?n = "min cap (gn_sniff_count g)"
  have l: "length (take cap (sniffed g)) = ?n" by (simp add: recent_of_def min.commute)
  then show len: "length (gnssSniff g cap) = length (rev (take cap (sniffed g)))"
    by (simp add: gnssSniff_def Let_def min_def)
  fix i assume "i < length (gnssSniff g cap)"
  then have i: "i < ?n" using len l by (simp only: length_rev)
  have b: "gn_sniff_head g < 192" "?n \<le> 192" using assms by (auto simp: sniff_inv_def)
  define h where "h = gn_sniff_head g"
  have n: "(if gn_sniff_count g < cap then gn_sniff_count g else cap) = ?n" by (simp add: min_def)
  have idx: "((h + 192 - ?n) mod 192 + i) mod 192 = (h + 192 - 1 - (?n - 1 - i) mod 192) mod 192"
  proof -
    have e: "h + 192 - ?n + i = h + 192 - 1 - (?n - 1 - i)" using i b by simp
    have "((h + 192 - ?n) mod 192 + i) mod 192 = (h + 192 - ?n + i) mod 192" by (rule mod_add_left_eq)
    moreover have "(?n - 1 - i) mod 192 = ?n - 1 - i" using i b by simp
    ultimately show ?thesis by (simp only: e)
  qed
  have "gnssSniff g cap ! i = gn_sniff g ! (((h + 192 - ?n) mod 192 + i) mod 192)"
    using i by (simp add: gnssSniff_def Let_def n h_def)
  moreover have "rev (take cap (sniffed g)) ! i = sniff_at g (?n - 1 - i)"
  proof -
    have k: "?n - 1 - i < cap" "?n - 1 - i < gn_sniff_count g" using i by auto
    then have "take cap (sniffed g) ! (?n - 1 - i) = sniff_at g (?n - 1 - i)" by (simp add: recent_of_def)
    moreover have "rev (take cap (sniffed g)) ! i = take cap (sniffed g) ! (?n - Suc i)"
      using i l by (simp only: rev_nth)
    ultimately show ?thesis by simp
  qed
  ultimately show "gnssSniff g cap ! i = rev (take cap (sniffed g)) ! i"
    by (simp add: sniff_at_def idx flip: h_def)
qed

lemma gnss_byte_serial: "gn_serial (fst (gnss_byte x s)) = gn_serial (fst s)"
proof -
  obtain p ok where p: "ubx_feed (gn_parser (fst s)) (snd x) = (p, ok)" by fastforce
  have "gn_serial (fst (gnss_message now m g)) = gn_serial g" for now m g
    by (cases m) (auto simp: noteMessage_def handlePvt_def handleLegacyNav_def handleAck_def Let_def
        split: option.splits)
  then show ?thesis by (simp add: gnss_byte_eq [OF p] Let_def note_byte_def del: gnss_message.simps)
qed

lemma drain_serial: "gn_serial (fst (fold gnss_byte xs s)) = gn_serial (fst s)"
  by (induction xs arbitrary: s) (simp_all add: gnss_byte_serial)

lemma tuning_serial: "gn_serial (fst (sweep_step now g)) = gn_serial g" "gn_serial (check_silence now g) = gn_serial g"
  by (auto simp: sweep_step_def setBaud_def gnss_sendConfig_def check_silence_def Let_def split: prod.split)

text \<open>The shape of a service.\<close>

lemma gnss_service_eq:
  assumes "gn_serial g"
  shows "gnss_service available now g =
    (let s = fold gnss_byte (take 256 available) (g, []); t = sweep_step now (fst s)
     in if gn_state (fst s) = Sweep then (fst t, snd s @ snd t, drop 256 available)
        else (check_silence now (fst s), snd s, drop 256 available))"
  using assms by (auto simp: gnss_service_def Let_def split: prod.split gnss_state.split)

lemma service_serial: "gn_serial g \<Longrightarrow> gn_serial (fst (gnss_service available now g))"
  by (simp add: gnss_service_eq Let_def tuning_serial drain_serial)

lemma run_sniff:
  assumes "sniff_inv g" "gn_serial g"
  shows "sniff_inv (fst (gnss_run xs g)) \<and> sniffed (fst (gnss_run xs g)) = take 192 (rev (bytes_read xs) @ sniffed g)"
  using assms
proof (induction xs arbitrary: g)
  case Nil
  then show ?case by (simp add: bytes_read_def recent_of_def sniff_inv_def)
next
  case (Cons x xs)
  obtain available now where x: "x = (available, now)" by fastforce
  obtain h c rest where s: "gnss_service available now g = (h, c, rest)" by (metis prod_cases3)
  note h = service_sniff [OF Cons.prems s] service_serial [OF Cons.prems(2), of available now]
  have IH: "sniff_inv (fst (gnss_run xs h)) \<and> sniffed (fst (gnss_run xs h)) = take 192 (rev (bytes_read xs) @ sniffed h)"
    by (rule Cons.IH) (use h s in simp_all)
  have e: "fst (gnss_run (x # xs) g) = fst (gnss_run xs h)" by (simp add: x s split: prod.split)
  have "bytes_read (x # xs) = map snd (take 256 available) @ bytes_read xs" by (simp add: x bytes_read_def)
  then show ?case using IH unfolding e conjunct2 [OF h(1)] take_past by simp
qed

lemma begin_serial: "gn_serial (fst (gnss_begin rx tx rate now g))" "same_sniff g (fst (gnss_begin rx tx rate now g))"
  by (simp_all add: gnss_begin_def setBaud_def Let_def same_sniff_def)

text \<open>C33: The raw tap of the GPS driver shows the wire as it was: over any life, whatever the bytes were
  and whatever they parsed as, it returns the last bytes read, oldest first, as many as were asked
  for but at most 192.\<close>

theorem gnss_sniff_last_bytes:
  "gnssSniff (fst (gnss_run services (fst (gnss_begin rx tx rate t Gnss)))) cap =
    rev (take (min cap 192) (rev (bytes_read services)))"
proof -
  let ?g = "fst (gnss_begin rx tx rate t Gnss)"
  have z: "sniff_inv Gnss" "sniffed Gnss = []" by (simp_all add: sniff_inv_def recent_of_def Gnss_def)
  with sniffed_same [OF begin_serial(2) [where g = Gnss and rx = rx and tx = tx and rate = rate and now = t]] have "sniff_inv ?g" "sniffed ?g = []" by simp_all
  with run_sniff [OF this(1) begin_serial(1), of services] show ?thesis
    by (simp add: gnssSniff_recent min.commute)
qed

section \<open>The location\<close>

text \<open>What an event does to the location: a message that was parsed, or \<open>None\<close> when the driver gives
  up on a silent module.\<close>

definition loc_event :: "ubx_message option \<Rightarrow> node_location \<Rightarrow> node_location" where
  "loc_event e loc =
     (case e of
        None \<Rightarrow> loc\<lparr>loc_valid := False\<rparr>
      | Some (cls, mid, payload) \<Rightarrow>
          if cls \<noteq> kUbxClassNav then loc
          else if mid = kUbxIdNavPvt then
            (case decodeNavPvt payload of
               Some (Some fix) \<Rightarrow> loc\<lparr>loc_valid := uf_valid fix, loc_lat := uf_lat fix, loc_lon := uf_lon fix,
                   loc_alt_m := uf_alt_m fix, loc_speed_cms := uf_speed_cms fix,
                   loc_course_ddeg := uf_course_ddeg fix, loc_sats := uf_num_sat fix, loc_fix_type := uf_fix_type fix\<rparr>
             | _ \<Rightarrow> loc)
          else (case legacy_location mid payload loc of Some (Some l) \<Rightarrow> l | _ \<Rightarrow> loc))"

definition location_backed :: "gnss \<Rightarrow> byte_list \<Rightarrow> bool" where
  "location_backed g bytes \<longleftrightarrow>
     (\<exists>es. gn_cached g = fold loc_event es NodeLocation \<and> (\<forall>m. Some m \<in> set es \<longrightarrow> sublist (ubx_frame m) bytes))"

definition parser_backed :: "gnss \<Rightarrow> byte_list \<Rightarrow> bool" where
  "parser_backed g bytes \<longleftrightarrow> (\<exists>pl h. ubx_seen (gn_parser g) pl h \<and> suffix h bytes)"

lemma decoders_total:
  "decodeNavPvt p \<noteq> None" "decodeNavPosllh p \<noteq> None" "decodeNavSol p \<noteq> None" "decodeNavVelned p \<noteq> None"
  "decodeNavDop p \<noteq> None"
proof -
  show "decodeNavPvt p \<noteq> None" using nav_pvt_decoded [of p] by auto
  show "decodeNavPosllh p \<noteq> None"
    using read_some(3) [of 4 p] read_some(3) [of 8 p] read_some(3) [of 16 p] by (auto simp: decodeNavPosllh_def)
  show "decodeNavSol p \<noteq> None"
    using read_some(1) [of 10 p] read_some(1) [of 11 p] read_some(1) [of 47 p] by (auto simp: decodeNavSol_def Let_def)
  show "decodeNavVelned p \<noteq> None"
    using read_some(3) [of 20 p] read_some(3) [of 24 p] by (auto simp: decodeNavVelned_def)
  show "decodeNavDop p \<noteq> None" using read_some(2) [of 12 p] by (auto simp: decodeNavDop_def)
qed

lemma legacy_location_total: "legacy_location mid payload loc \<noteq> None"
  using decoders_total by (auto simp: legacy_location_def)

lemma pvt_location:
  "gn_cached (handlePvt now payload g) = loc_event (Some (kUbxClassNav, kUbxIdNavPvt, payload)) (gn_cached g)"
  "gn_parser (handlePvt now payload g) = gn_parser g" "gn_fault (handlePvt now payload g) = gn_fault g"
  using decoders_total(1) [of payload] by (auto simp: handlePvt_def loc_event_def split: option.split)

lemma legacy_nav_location:
  assumes "mid \<noteq> kUbxIdNavPvt"
  shows "gn_cached (handleLegacyNav now mid payload g) = loc_event (Some (kUbxClassNav, mid, payload)) (gn_cached g)"
    "gn_parser (handleLegacyNav now mid payload g) = gn_parser g"
    "gn_fault (handleLegacyNav now mid payload g) = gn_fault g"
  using legacy_location_total [of mid payload "gn_cached g"] assms
  by (auto simp: handleLegacyNav_def loc_event_def split: option.split)

lemma ack_location:
  "gn_cached (fst (handleAck now acked payload g)) = gn_cached g"
  "gn_parser (fst (handleAck now acked payload g)) = gn_parser g"
  "gn_fault (fst (handleAck now acked payload g)) = gn_fault g"
  by (auto simp: handleAck_def Let_def split: option.split)

lemma message_location:
  "gn_cached (fst (gnss_message now m g)) = loc_event (Some m) (gn_cached g) \<and>
   gn_parser (fst (gnss_message now m g)) = gn_parser g \<and> gn_fault (fst (gnss_message now m g)) = gn_fault g"
proof -
  obtain cls mid payload where m: "m = (cls, mid, payload)" by (metis prod_cases3)
  consider "cls = kUbxClassNav" "mid = kUbxIdNavPvt" | "cls = kUbxClassNav" "mid \<noteq> kUbxIdNavPvt"
    | "cls \<noteq> kUbxClassNav" by blast
  then show ?thesis
  proof cases
    case 3
    then have "loc_event (Some m) l = l" for l by (simp add: loc_event_def m)
    with 3 show ?thesis by (simp add: m Let_def ack_location noteMessage_def)
  qed (simp_all add: m Let_def pvt_location legacy_nav_location noteMessage_def)
qed

lemma byte_backed:
  assumes "location_backed (fst s) bytes" "parser_backed (fst s) bytes" "\<not> gn_fault (fst s)"
  shows "location_backed (fst (gnss_byte x s)) (bytes @ [snd x]) \<and>
    parser_backed (fst (gnss_byte x s)) (bytes @ [snd x]) \<and> \<not> gn_fault (fst (gnss_byte x s))"
proof -
  obtain p ok where p: "ubx_feed (gn_parser (fst s)) (snd x) = (p, ok)" by fastforce
  let ?g = "(note_byte (fst x) (snd x) (fst s))\<lparr>gn_parser := p\<rparr>"
  have g: "gn_cached ?g = gn_cached (fst s)" "gn_fault ?g = gn_fault (fst s)" "gn_parser ?g = p"
    by (simp_all add: note_byte_def)
  obtain pl h where h: "ubx_seen (gn_parser (fst s)) pl h" "suffix h bytes" using assms(2) by (auto simp: parser_backed_def)
  have s': "suffix (h @ [snd x]) (bytes @ [snd x])" using h(2) by (auto simp: suffix_def)
  obtain pl' where "ubx_seen p pl' (h @ [snd x])" using ubx_feed_seen [OF h(1), of "snd x"] p by auto
  then have pb: "parser_backed k (bytes @ [snd x])" if "gn_parser k = p" for k
    using s' that by (auto simp: parser_backed_def)
  obtain es where es: "gn_cached (fst s) = fold loc_event es NodeLocation"
    "\<forall>m. Some m \<in> set es \<longrightarrow> sublist (ubx_frame m) bytes" using assms(1) by (auto simp: location_backed_def)
  have old: "\<forall>m. Some m \<in> set es \<longrightarrow> sublist (ubx_frame m) (bytes @ [snd x])"
    using es(2) by (auto simp: sublist_append)
  show ?thesis
  proof (cases ok)
    case False
    then have "gnss_byte x s = (?g, snd s)" by (simp add: gnss_byte_eq [OF p])
    then show ?thesis using pb [of ?g] g es(1) old assms(3) by (auto simp: location_backed_def)
  next
    case True
    let ?m = "ub_message p" and ?k = "fst (gnss_message (fst x) (ub_message p) ?g)"
    have b: "fst (gnss_byte x s) = ?k" using True by (simp add: gnss_byte_eq [OF p] Let_def del: gnss_message.simps)
    have "suffix (ubx_frame ?m) (h @ [snd x])" using ubx_accepted [OF h(1), of "snd x" p] p True by simp
    then have new: "sublist (ubx_frame ?m) (bytes @ [snd x])"
      using suffix_order.trans [OF _ s'] by (blast intro: suffix_imp_sublist)
    have k: "gn_cached ?k = fold loc_event (es @ [Some ?m]) NodeLocation" "gn_parser ?k = p" "\<not> gn_fault ?k"
      using message_location [of "fst x" ?m ?g] g es(1) assms(3) by (simp_all del: gnss_message.simps)
    have "\<forall>m. Some m \<in> set (es @ [Some ?m]) \<longrightarrow> sublist (ubx_frame m) (bytes @ [snd x])" using old new by auto
    then have "location_backed ?k (bytes @ [snd x])" unfolding location_backed_def using k(1) by blast
    with pb [OF k(2)] k(3) show ?thesis by (simp only: b) simp
  qed
qed

definition backed :: "gnss \<Rightarrow> byte_list \<Rightarrow> bool" where
  "backed g bytes \<longleftrightarrow> location_backed g bytes \<and> parser_backed g bytes \<and> \<not> gn_fault g"

lemma drain_backed:
  "backed (fst s) bytes \<Longrightarrow> backed (fst (fold gnss_byte xs s)) (bytes @ map snd xs)"
proof (induction xs arbitrary: s bytes)
  case (Cons x xs)
  from byte_backed [of s bytes x] Cons.prems have "backed (fst (gnss_byte x s)) (bytes @ [snd x])"
    by (simp add: backed_def)
  from Cons.IH [OF this] show ?case by simp
qed simp

text \<open>A parser that is reset, or whose driver only changed other fields.\<close>

lemma reset_backed: "parser_backed g bytes \<Longrightarrow> gn_parser g' = ubx_reset (gn_parser g) \<Longrightarrow> parser_backed g' bytes"
proof -
  assume "parser_backed g bytes" and g': "gn_parser g' = ubx_reset (gn_parser g)"
  then have "ubx_seen (ubx_reset (gn_parser g)) [] []"
    by (auto simp: parser_backed_def ubx_seen_def ubx_reset_def ubx_pending_def ubx_fields_def Let_def)
  then show ?thesis unfolding parser_backed_def g' by (intro exI [of _ "[]"]) simp
qed

lemma setBaud_fields:
  "gn_parser (fst (setBaud baud g)) = ubx_reset (gn_parser g)" "gn_cached (fst (setBaud baud g)) = gn_cached g"
  "gn_fault (fst (setBaud baud g)) = gn_fault g"
  by (simp_all add: setBaud_def)

lemma sweep_step_fields:
  "gn_parser (fst (sweep_step now g)) \<in> {gn_parser g, ubx_reset (gn_parser g)}"
  "gn_cached (fst (sweep_step now g)) = gn_cached g" "gn_fault (fst (sweep_step now g)) = gn_fault g"
  by (auto simp: sweep_step_def setBaud_def gnss_sendConfig_def Let_def split: prod.split)

lemma sweep_backed: "backed g bytes \<Longrightarrow> backed (fst (sweep_step now g)) bytes"
proof -
  assume b: "backed g bytes"
  have "parser_backed (fst (sweep_step now g)) bytes"
  proof (cases "gn_parser (fst (sweep_step now g)) = gn_parser g")
    case True
    with b show ?thesis by (simp add: backed_def parser_backed_def)
  next
    case False
    with sweep_step_fields(1) [of now g] reset_backed [of g bytes "fst (sweep_step now g)"] b show ?thesis
      by (simp add: backed_def)
  qed
  with b show ?thesis by (simp add: backed_def location_backed_def sweep_step_fields)
qed

lemma silence_backed: "backed g bytes \<Longrightarrow> backed (check_silence now g) bytes"
proof -
  assume b: "backed g bytes"
  then obtain es where es: "gn_cached g = fold loc_event es NodeLocation"
    "\<forall>m. Some m \<in> set es \<longrightarrow> sublist (ubx_frame m) bytes" by (auto simp: backed_def location_backed_def)
  have "gn_cached (check_silence now g) = gn_cached g \<or>
      gn_cached (check_silence now g) = fold loc_event (es @ [None]) NodeLocation"
    by (simp add: check_silence_def loc_event_def es(1))
  moreover have "\<forall>m. Some m \<in> set (es @ [None]) \<longrightarrow> sublist (ubx_frame m) bytes" using es(2) by auto
  ultimately have "location_backed (check_silence now g) bytes" unfolding location_backed_def using es by metis
  moreover have "gn_parser (check_silence now g) = gn_parser g" "gn_fault (check_silence now g) = gn_fault g"
    by (simp_all add: check_silence_def)
  ultimately show ?thesis using b by (simp add: backed_def parser_backed_def)
qed

lemma run_backed:
  assumes "backed g bytes" "gn_serial g"
  shows "backed (fst (gnss_run xs g)) (bytes @ bytes_read xs)"
  using assms
proof (induction xs arbitrary: g bytes)
  case Nil
  then show ?case by (simp add: bytes_read_def)
next
  case (Cons x xs)
  obtain available now where x: "x = (available, now)" by fastforce
  let ?h = "fst (gnss_service available now g)"
  have "backed ?h (bytes @ map snd (take 256 available))"
    using drain_backed [of "(g, [])" bytes "take 256 available"] Cons.prems sweep_backed silence_backed
    by (simp add: gnss_service_eq Let_def)
  moreover have "gn_serial ?h" by (rule service_serial [OF Cons.prems(2)])
  ultimately have "backed (fst (gnss_run xs ?h)) ((bytes @ map snd (take 256 available)) @ bytes_read xs)"
    by (rule Cons.IH)
  moreover have "fst (gnss_run (x # xs) g) = fst (gnss_run xs ?h)" by (simp add: x split: prod.split)
  ultimately show ?case by (simp add: x bytes_read_def)
qed

text \<open>C31: No bytes off the wire but whole frames with a good checksum can move the aircraft: over any
  life, whatever noise, truncation or baud change the driver of the GPS sees, the location it
  reports is what a sequence of events makes of the empty location, each event a navigation message
  whose frame stands in the bytes received or the loss of the module, and no decoder ever reads past
  its payload.\<close>

theorem gnss_location_from_frames:
  "\<exists>es. gn_cached (fst (gnss_run services (fst (gnss_begin rx tx rate t Gnss)))) = fold loc_event es NodeLocation \<and>
     (\<forall>m. Some m \<in> set es \<longrightarrow> sublist (ubx_frame m) (bytes_read services)) \<and>
     \<not> gn_fault (fst (gnss_run services (fst (gnss_begin rx tx rate t Gnss))))"
proof -
  let ?g = "fst (gnss_begin rx tx rate t Gnss)"
  have "parser_backed Gnss []" using ubx_start(2) by (auto simp: parser_backed_def Gnss_def)
  then have "parser_backed ?g []" by (rule reset_backed) (simp add: gnss_begin_def setBaud_def Let_def)
  moreover have "gn_cached ?g = fold loc_event [] NodeLocation" "\<not> gn_fault ?g"
    by (simp_all add: gnss_begin_def setBaud_def Let_def Gnss_def)
  ultimately have "backed ?g []" unfolding backed_def location_backed_def by (metis list.set(1) empty_iff)
  from run_backed [OF this begin_serial(1), of services] show ?thesis
    by (simp add: backed_def location_backed_def)
qed

theorem gnss_location_from_frames_witness:
  "\<exists>es. gn_cached (fst (gnss_run [([(5, 0xB5), (6, 0x62)], 7)] (fst (gnss_begin 3 4 10 0 Gnss)))) =
     fold loc_event es NodeLocation"
  using gnss_location_from_frames [of "[([(5, 0xB5), (6, 0x62)], 7)]" 3 4 10 0] by blast

section \<open>A module that falls silent\<close>

text \<open>Clocks that are at least a sweep step apart, from a first one on.\<close>

fun spaced_from :: "u32 \<Rightarrow> u32 list \<Rightarrow> bool" where
  "spaced_from t [] = True"
| "spaced_from t (u # us) = (u - t \<ge> kSweepStepMs \<and> spaced_from u us)"

definition same_link :: "gnss \<Rightarrow> gnss \<Rightarrow> bool" where
  "same_link g g' \<longleftrightarrow> gn_serial g' = gn_serial g \<and> gn_pin_rx g' = gn_pin_rx g \<and> gn_pin_tx g' = gn_pin_tx g \<and>
     gn_target_baud g' = gn_target_baud g \<and> gn_cached g' = gn_cached g \<and> gn_sweeps g' = gn_sweeps g \<and>
     gn_meas_ms g' = gn_meas_ms g \<and> gn_legacy g' = gn_legacy g"

definition open_rate :: "gnss \<Rightarrow> u32 \<Rightarrow> gnss_cmd list" where
  "open_rate g baud =
     [OpenPort baud (gn_pin_rx g) (gn_pin_tx g), WritePort (buildCfgPrtUart (gn_target_baud g) 32)]"

definition settle_commands :: "gnss \<Rightarrow> gnss_cmd list" where
  "settle_commands g = OpenPort (gn_target_baud g) (gn_pin_rx g) (gn_pin_tx g) # snd (gnss_sendConfig g)"

text \<open>What a sweep does to the port: each candidate rate is opened and the module told to switch to the
  target rate; then the target rate is opened and the module configured.\<close>

definition sweep_commands :: "gnss \<Rightarrow> gnss_cmd list" where
  "sweep_commands g = concat (map (open_rate g) kCandidateBauds) @ settle_commands g"

lemma same_link_commands:
  "same_link g g' \<Longrightarrow> open_rate g' = open_rate g" "same_link g g' \<Longrightarrow> settle_commands g' = settle_commands g"
  by (simp_all add: same_link_def open_rate_def fun_eq_iff settle_commands_def gnss_sendConfig_def Let_def)

lemma sweep_opens:
  assumes "gn_serial g" "gn_state g = Sweep" "gn_sweep_idx g < 5" "t - gn_sweep_step_ms g \<ge> kSweepStepMs"
  shows "\<exists>g'. gnss_service [] t g = (g', open_rate g (kCandidateBauds ! gn_sweep_idx g), []) \<and> same_link g g' \<and>
    gn_state g' = Sweep \<and> gn_sweep_idx g' = gn_sweep_idx g + 1 \<and> gn_sweep_step_ms g' = t"
proof -
  have "kNumBauds = 5" "\<not> t - gn_sweep_step_ms g < kSweepStepMs"
    using assms(4) by (simp_all add: kNumBauds_def kCandidateBauds_def)
  with assms(1-3) show ?thesis
    by (simp add: gnss_service_eq sweep_step_def setBaud_def Let_def same_link_def open_rate_def)
qed

lemma sweep_settles:
  assumes "gn_serial g" "gn_state g = Sweep" "gn_sweep_idx g = 5" "t - gn_sweep_step_ms g \<ge> kSweepStepMs"
  shows "\<exists>g'. gnss_service [] t g = (g', settle_commands g, []) \<and> same_link g g' \<and>
    gn_state g' = Parse \<and> gn_current_baud g' = gn_target_baud g \<and> gn_last_pvt_ms g' = t"
proof -
  have "kNumBauds = 5" "\<not> t - gn_sweep_step_ms g < kSweepStepMs"
    using assms(4) by (simp_all add: kNumBauds_def kCandidateBauds_def)
  with assms(1-3) show ?thesis
    by (simp add: gnss_service_eq sweep_step_def setBaud_def Let_def same_link_def settle_commands_def
        gnss_sendConfig_def)
qed

lemma sweep_run:
  assumes "gn_serial g" "gn_state g = Sweep" "gn_sweep_idx g \<le> 5" "length ts = 6 - gn_sweep_idx g"
    "spaced_from (gn_sweep_step_ms g) ts"
  shows "\<exists>g' cmds. gnss_run (map (\<lambda>t. ([], t)) ts) g = (g', cmds) \<and> same_link g g' \<and> gn_state g' = Parse \<and>
    gn_current_baud g' = gn_target_baud g \<and> gn_last_pvt_ms g' = last ts \<and>
    cmds = concat (map (open_rate g) (drop (gn_sweep_idx g) kCandidateBauds)) @ settle_commands g"
  using assms
proof (induction ts arbitrary: g)
  case Nil
  then show ?case by simp
next
  case (Cons t ts)
  have due: "t - gn_sweep_step_ms g \<ge> kSweepStepMs" "spaced_from t ts" using Cons.prems(5) by simp_all
  have l: "length kCandidateBauds = 5" by (simp add: kCandidateBauds_def)
  show ?case
  proof (cases "gn_sweep_idx g = 5")
    case True
    then have "ts = []" using Cons.prems(4) by simp
    moreover obtain g' where "gnss_service [] t g = (g', settle_commands g, [])" "same_link g g'" "gn_state g' = Parse"
      "gn_current_baud g' = gn_target_baud g" "gn_last_pvt_ms g' = t"
      using sweep_settles [OF Cons.prems(1,2) True due(1)] by blast
    ultimately show ?thesis using l True by simp
  next
    case False
    then have i: "gn_sweep_idx g < 5" using Cons.prems(3) by simp
    obtain g1 where s: "gnss_service [] t g = (g1, open_rate g (kCandidateBauds ! gn_sweep_idx g), [])" "same_link g g1"
      "gn_state g1 = Sweep" "gn_sweep_idx g1 = gn_sweep_idx g + 1" "gn_sweep_step_ms g1 = t"
      using sweep_opens [OF Cons.prems(1,2) i due(1)] by blast
    have "gn_serial g1" "gn_sweep_idx g1 \<le> 5" "length ts = 6 - gn_sweep_idx g1" "spaced_from (gn_sweep_step_ms g1) ts"
      using s i Cons.prems(1,4) due(2) by (auto simp: same_link_def)
    from Cons.IH [OF this(1) s(3) this(2-4)] obtain g' cmds where
      r: "gnss_run (map (\<lambda>t. ([], t)) ts) g1 = (g', cmds)" "same_link g1 g'" "gn_state g' = Parse"
      "gn_current_baud g' = gn_target_baud g1" "gn_last_pvt_ms g' = last ts"
      "cmds = concat (map (open_rate g1) (drop (gn_sweep_idx g1) kCandidateBauds)) @ settle_commands g1" by blast
    have "ts \<noteq> []" using Cons.prems(4) i by auto
    moreover have "drop (gn_sweep_idx g) kCandidateBauds = kCandidateBauds ! gn_sweep_idx g # drop (gn_sweep_idx g1) kCandidateBauds"
      using i l s(4) by (simp add: Cons_nth_drop_Suc)
    ultimately show ?thesis
      using s r same_link_commands [OF s(2)] by (simp add: same_link_def)
  qed
qed

text \<open>C32: A GPS module that falls silent is reported lost and found again: when nothing has been heard
  from it for more than four seconds the next service takes back the fix and starts a sweep, and the
  next six services that are a step apart open the five rates in turn, each time telling the module
  to switch to the target rate, and settle there with the full configuration written.\<close>

theorem gnss_silence_recovers:
  assumes "gn_serial g" "gn_state g = Parse" "t - gn_last_pvt_ms g > kSilenceTimeoutMs"
    "length ts = 6" "spaced_from (t - kSweepStepMs) ts"
  shows "\<not> loc_valid (gn_cached (fst (gnss_service [] t g))) \<and>
    (case gnss_run (map (\<lambda>t. ([], t)) (t # ts)) g of (g', cmds) \<Rightarrow>
       gn_state g' = Parse \<and> gn_current_baud g' = gn_target_baud g \<and> gn_last_pvt_ms g' = last ts \<and>
       \<not> loc_valid (gn_cached g') \<and> gn_sweeps g' = gn_sweeps g + 1 \<and> cmds = sweep_commands g)"
proof -
  let ?g = "check_silence t g"
  have s0: "gnss_service [] t g = (?g, [], [])" using assms(1,2) by (simp add: gnss_service_eq)
  have c: "gn_serial ?g" "gn_state ?g = Sweep" "gn_sweep_idx ?g = 0" "gn_sweep_step_ms ?g = t - kSweepStepMs"
    "\<not> loc_valid (gn_cached ?g)" "gn_sweeps ?g = gn_sweeps g + 1" "gn_target_baud ?g = gn_target_baud g"
    using assms(1,3) by (simp_all add: check_silence_def)
  have o: "open_rate ?g = open_rate g" "settle_commands ?g = settle_commands g"
    using assms(3) by (simp_all add: check_silence_def open_rate_def settle_commands_def gnss_sendConfig_def Let_def fun_eq_iff)
  obtain g' cmds where r: "gnss_run (map (\<lambda>t. ([], t)) ts) ?g = (g', cmds)" "same_link ?g g'" "gn_state g' = Parse"
    "gn_current_baud g' = gn_target_baud ?g" "gn_last_pvt_ms g' = last ts"
    "cmds = concat (map (open_rate ?g) (drop (gn_sweep_idx ?g) kCandidateBauds)) @ settle_commands ?g"
    using sweep_run [OF c(1,2), of ts] c(3,4) assms(4,5) by auto
  have "cmds = sweep_commands g"
    by (simp add: r(6) o c(3) sweep_commands_def)
  then show ?thesis using r c by (simp add: s0 same_link_def)
qed

theorem gnss_silence_recovers_witness:
  "gn_state (fst (gnss_run (map (\<lambda>t. ([], t)) [5000, 5200, 5400, 5600, 5800, 6000, 6200])
     (Gnss\<lparr>gn_serial := True, gn_state := Parse\<rparr>))) = Parse"
  using gnss_silence_recovers [of "Gnss\<lparr>gn_serial := True, gn_state := Parse\<rparr>" 5000 "[5200, 5400, 5600, 5800, 6000, 6200]"]
  by (simp add: Gnss_def kSilenceTimeoutMs_def kSweepStepMs_def del: gnss_run.simps split: prod.splits)

end
