(* ===== verification/Sim_Traffic.thy ===== *)
theory Sim_Traffic
  imports Geo Protocol
begin

text \<open>
  lib/ff_core/sim_traffic.h and .cpp: where a simulated peer is, as a function of the time since
  its path began. Doubles are those of \<open>Binary_Float\<close>; a coordinate that is NaN is \<open>None\<close>.
  \<open>std::fmod\<close> is exact. \<open>long\<close> has 32 bits, as on the targets.
\<close>

section \<open>Data\<close>

datatype sim_mode = SimStatic | SimLine | SimCircle | SimHex

definition kSimHexClimbM :: dbl where [simp]: "kSimHexClimbM = 80"
definition kHexSides :: int where [simp]: "kHexSides = 6"

record sim_peer_config =
  sc_uid :: u32
  sc_name :: byte_list
  sc_mode :: sim_mode
  sc_lat :: dbl
  sc_lon :: dbl
  sc_alt_m :: i16
  sc_speed_ms :: dbl
  sc_course_deg :: dbl
  sc_radius_m :: dbl

definition SimPeerConfig :: sim_peer_config where
  "SimPeerConfig = \<lparr>sc_uid = 0, sc_name = replicate (kMaxNameLen + 1) 0, sc_mode = SimStatic, sc_lat = 0,
     sc_lon = 0, sc_alt_m = 0, sc_speed_ms = 0, sc_course_deg = 0, sc_radius_m = 100\<rparr>"

record sim_peer_state =
  ss_lat :: "dbl option"
  ss_lon :: "dbl option"
  ss_alt_m :: i16
  ss_speed_cms :: u16
  ss_course_ddeg :: u16

section \<open>Motion\<close>

definition fmod :: "dbl \<Rightarrow> dbl \<Rightarrow> dbl" where
  "fmod x y = (let q = x / y in x - y * of_int (if 0 \<le> q then \<lfloor>q\<rfloor> else - \<lfloor>- q\<rfloor>))"

definition courseToDdeg :: "libm \<Rightarrow> dbl \<Rightarrow> u16" where
  "courseToDdeg m deg =
     (let d = fmod deg 360; d = (if d < 0 then dadd d 360 else d);
          ddeg = ucast (lround_i32 m (Some (dmul d 10))) :: u32;
          ddeg = (if ddeg \<ge> 3600 then 0 else ddeg)
      in ucast ddeg)"

definition set_position :: "(dbl \<times> dbl) option \<Rightarrow> sim_peer_state \<Rightarrow> sim_peer_state" where
  "set_position p s = s\<lparr>ss_lat := map_option fst p, ss_lon := map_option snd p\<rparr>"

definition speed_cms :: "libm \<Rightarrow> sim_peer_config \<Rightarrow> u16" where
  "speed_cms m cfg = ucast (lround_i32 m (Some (dmul (sc_speed_ms cfg) 100)))"

text \<open>Where on the hexagon: the distance along it, the leg, and the distance along the leg.\<close>

definition hex_along :: "dbl \<Rightarrow> dbl \<Rightarrow> dbl" where
  "hex_along side travelled =
     (let perimeter = dmul side (of_int kHexSides); along = fmod travelled perimeter
      in if along < 0 then dadd along perimeter else along)"

definition hex_leg :: "dbl \<Rightarrow> dbl \<Rightarrow> int" where
  "hex_leg side along = \<lfloor>dquot along side\<rfloor> mod kHexSides"

definition hex_progress :: "dbl \<Rightarrow> dbl \<Rightarrow> dbl" where
  "hex_progress side along = dsub along (dmul (of_int (hex_leg side along)) side)"

definition hex_altitude :: "libm \<Rightarrow> sim_peer_config \<Rightarrow> dbl \<Rightarrow> i16" where
  "hex_altitude m cfg along =
     (let perimeter = dmul (sc_radius_m cfg) (of_int kHexSides); half = dquot perimeter 2;
          frac = (if along \<le> half then dquot along half else dquot (dsub perimeter along) half)
      in ucast (lround_i32 m (Some (dadd (dbl_of_i16 (sc_alt_m cfg)) (dmul kSimHexClimbM frac)))))"

definition hex_bearing :: "int \<Rightarrow> dbl" where
  "hex_bearing leg = dmul (of_int leg) (dquot 360 (of_int kHexSides))"

definition hex_state :: "libm \<Rightarrow> sim_peer_config \<Rightarrow> dbl \<Rightarrow> sim_peer_state \<Rightarrow> sim_peer_state" where
  "hex_state m cfg travelled s =
     (let side = sc_radius_m cfg; along = hex_along side travelled; leg = hex_leg side along;
          vertex_bearing = hex_bearing leg;
          edge_bearing = dadd vertex_bearing 120;
          vertex = pointAtDistance m (sc_lat cfg) (sc_lon cfg) side vertex_bearing;
          p = (case vertex of None \<Rightarrow> None
               | Some (vlat, vlon) \<Rightarrow> pointAtDistance m vlat vlon (hex_progress side along) edge_bearing)
      in (set_position p s)\<lparr>ss_alt_m := hex_altitude m cfg along,
           ss_course_ddeg := courseToDdeg m edge_bearing, ss_speed_cms := speed_cms m cfg\<rparr>)"

definition path_travelled :: "sim_peer_config \<Rightarrow> u32 \<Rightarrow> dbl" where
  "path_travelled cfg elapsed_ms = dmul (sc_speed_ms cfg) (dquot (dbl_of_u32 elapsed_ms) 1000)"

definition simPeerAt :: "libm \<Rightarrow> sim_peer_config \<Rightarrow> u32 \<Rightarrow> sim_peer_state" where
  "simPeerAt m cfg elapsed_ms =
     (let s = \<lparr>ss_lat = Some (sc_lat cfg), ss_lon = Some (sc_lon cfg), ss_alt_m = sc_alt_m cfg,
               ss_speed_cms = 0, ss_course_ddeg = courseToDdeg m (sc_course_deg cfg)\<rparr>;
          travelled = path_travelled cfg elapsed_ms
      in case sc_mode cfg of
           SimStatic \<Rightarrow> s
         | SimLine \<Rightarrow>
             (set_position (pointAtDistance m (sc_lat cfg) (sc_lon cfg) travelled (sc_course_deg cfg)) s)
               \<lparr>ss_speed_cms := speed_cms m cfg\<rparr>
         | SimCircle \<Rightarrow>
             if sc_radius_m cfg \<le> 0 then s
             else let angle_deg = toDeg (dquot travelled (sc_radius_m cfg))
                  in (set_position (pointAtDistance m (sc_lat cfg) (sc_lon cfg) (sc_radius_m cfg) angle_deg) s)
                       \<lparr>ss_course_ddeg := courseToDdeg m (dadd angle_deg 90), ss_speed_cms := speed_cms m cfg\<rparr>
         | SimHex \<Rightarrow> if sc_radius_m cfg \<le> 0 then s else hex_state m cfg travelled s)"

definition simPositionPacket :: "libm \<Rightarrow> sim_peer_config \<Rightarrow> sim_peer_state \<Rightarrow> position_packet" where
  "simPositionPacket m cfg s =
     \<lparr>pp_uid = sc_uid cfg, pp_lat = lround_i32 m (map_option (\<lambda>x. dmul x 10000000) (ss_lat s)),
      pp_lon = lround_i32 m (map_option (\<lambda>x. dmul x 10000000) (ss_lon s)), pp_alt_m = ss_alt_m s,
      pp_speed_cms = ss_speed_cms s, pp_course_ddeg = ss_course_ddeg s, pp_flags = POSITION_FLAG_HAS_FIX\<rparr>"

end
