(* ===== verification/Sim_Radio.thy ===== *)
theory Sim_Radio
  imports Sim_Traffic Node Spsc_Ring Config Lora_Radio
begin

text \<open>
  src/hal/SimRadio.h and .cpp: the radio driver that makes the frames of simulated peers, with the
  requests of the web server that set them up (src/hal/WebServer.cpp) and its place in the main
  loop (src/main.cpp). The list of peers is the first \<open>count_\<close> entries of the array: an entry is
  filled whole when the count grows over it. The cipher is the node's own, of which \<open>encryptAs\<close>
  reads the key, so the key schedule is an argument; \<open>sr_crypto\<close> says whether there is one.
\<close>

section \<open>State\<close>

definition kSimQueueSize :: nat where [simp]: "kSimQueueSize = 8"
definition kMaxSimPeers :: nat where [simp]: "kMaxSimPeers = 4"
definition CAP_HAS_GPS :: u32 where "CAP_HAS_GPS = 1"

record sim_peer =
  sp_cfg :: sim_peer_config
  sp_start_ms :: u32
  sp_next_tx_ms :: u32
  sp_counter :: u32
  sp_announced :: bool

record sim_radio =
  sr_enabled :: bool
  sr_crypto :: bool
  sr_interval_ms :: u32
  sr_peers :: "sim_peer list"
  sr_queue :: "rx_frame list"
  sr_head :: nat
  sr_tail :: nat

definition SimRadio :: sim_radio where
  "SimRadio = \<lparr>sr_enabled = True, sr_crypto = False, sr_interval_ms = 200, sr_peers = [],
     sr_queue = replicate kSimQueueSize RxFrame, sr_head = 0, sr_tail = 0\<rparr>"

section \<open>Peers\<close>

definition sim_clear :: "sim_radio \<Rightarrow> sim_radio" where
  "sim_clear r = r\<lparr>sr_peers := [], sr_head := 0, sr_tail := 0\<rparr>"

definition sim_begin :: "bool \<Rightarrow> u32 \<Rightarrow> sim_radio \<Rightarrow> sim_radio" where
  "sim_begin crypto beacon_interval_ms r =
     sim_clear (r\<lparr>sr_crypto := crypto,
       sr_interval_ms := (if beacon_interval_ms = 0 then 200 else beacon_interval_ms)\<rparr>)"

definition setPeer :: "sim_peer_config \<Rightarrow> u32 \<Rightarrow> sim_radio \<Rightarrow> sim_radio \<times> bool" where
  "setPeer cfg now_ms r =
     (if sc_uid cfg = 0 then (r, False)
      else case first_idx (\<lambda>p. sc_uid (sp_cfg p) = sc_uid cfg) (sr_peers r) of
             Some i \<Rightarrow>
               (r\<lparr>sr_peers := (sr_peers r)[i := (sr_peers r ! i)
                  \<lparr>sp_cfg := cfg, sp_start_ms := now_ms, sp_announced := False\<rparr>]\<rparr>, True)
           | None \<Rightarrow>
               if length (sr_peers r) \<ge> kMaxSimPeers then (r, False)
               else (r\<lparr>sr_peers := sr_peers r @ [\<lparr>sp_cfg = cfg, sp_start_ms = now_ms, sp_next_tx_ms = now_ms,
                       sp_counter = 0, sp_announced = False\<rparr>]\<rparr>, True))"

definition removePeer :: "u32 \<Rightarrow> sim_radio \<Rightarrow> sim_radio \<times> bool" where
  "removePeer uid r =
     (case first_idx (\<lambda>p. sc_uid (sp_cfg p) = uid) (sr_peers r) of
        Some i \<Rightarrow> (r\<lparr>sr_peers := take i (sr_peers r) @ drop (Suc i) (sr_peers r)\<rparr>, True)
      | None \<Rightarrow> (r, False))"

section \<open>Frames\<close>

definition sim_queue_full :: "sim_radio \<Rightarrow> bool" where
  "sim_queue_full r \<longleftrightarrow> (sr_head r + 1) mod kSimQueueSize = sr_tail r"

definition sim_packet :: "libm \<Rightarrow> sim_peer \<Rightarrow> bool \<Rightarrow> u32 \<Rightarrow> byte_list" where
  "sim_packet m p announce now_ms =
     (if announce then
        encodeAnnounce \<lparr>an_uid = sc_uid (sp_cfg p), an_name = strncpy_buf kMaxNameLen (sc_name (sp_cfg p)),
          an_capabilities = CAP_HAS_GPS\<rparr> kMaxRxFrame
      else encodePosition (simPositionPacket m (sp_cfg p) (simPeerAt m (sp_cfg p) (now_ms - sp_start_ms p))) kMaxRxFrame)"

text \<open>The peer with its counter advanced, and the bytes to queue, none if there is nothing to send.\<close>

definition sim_seal :: "libm \<Rightarrow> aes128 option \<Rightarrow> sim_peer \<Rightarrow> bool \<Rightarrow> u32 \<Rightarrow> sim_peer \<times> byte_list" where
  "sim_seal m key p announce now_ms =
     (let buf = sim_packet m p announce now_ms
      in if buf = [] then (p, [])
         else case key of
                None \<Rightarrow> (p, buf)
              | Some aes \<Rightarrow>
                  let p = p\<lparr>sp_counter := sp_counter p + 1\<rparr>;
                      (f, len) = encryptAs aes (sc_uid (sp_cfg p)) (sp_counter p) (frame_buf buf) (length buf) kMaxRxFrame
                  in (p, take len f))"

definition sim_rssi :: "sim_peer \<Rightarrow> i16" where
  "sim_rssi p = - 60 - ucast ((sc_uid (sp_cfg p) + sp_counter p) mod 25)"

definition sim_enqueue :: "rx_frame \<Rightarrow> sim_radio \<Rightarrow> sim_radio" where
  "sim_enqueue f r = r\<lparr>sr_queue := (sr_queue r)[sr_head r := f], sr_head := (sr_head r + 1) mod kSimQueueSize\<rparr>"

definition emit :: "libm \<Rightarrow> aes128 \<Rightarrow> nat \<Rightarrow> bool \<Rightarrow> u32 \<Rightarrow> sim_radio \<Rightarrow> sim_radio" where
  "emit m aes i announce now_ms r =
     (if sim_queue_full r then r
      else
        let (p, bytes) = sim_seal m (if sr_crypto r then Some aes else None) (sr_peers r ! i) announce now_ms;
            r = r\<lparr>sr_peers := (sr_peers r)[i := p]\<rparr>
        in if bytes = [] then r
           else sim_enqueue \<lparr>rx_timestamp_ms = now_ms, rx_rssi = sim_rssi p, rx_len = of_nat (length bytes),
                  rx_data = bytes @ drop (length bytes) (rx_data (sr_queue r ! sr_head r))\<rparr> r)"

definition sim_service_peer :: "libm \<Rightarrow> aes128 \<Rightarrow> u32 \<Rightarrow> nat \<Rightarrow> sim_radio \<Rightarrow> sim_radio" where
  "sim_service_peer m aes now_ms i r =
     (let p = sr_peers r ! i
      in if sint (now_ms - sp_next_tx_ms p) < 0 then r
         else
           let r = r\<lparr>sr_peers := (sr_peers r)[i := p\<lparr>sp_next_tx_ms := now_ms + sr_interval_ms r\<rparr>]\<rparr>;
               r = (if sp_announced p then r
                    else emit m aes i True now_ms
                      (r\<lparr>sr_peers := (sr_peers r)[i := (sr_peers r ! i)\<lparr>sp_announced := True\<rparr>]\<rparr>))
           in emit m aes i False now_ms r)"

definition sim_service :: "libm \<Rightarrow> aes128 \<Rightarrow> u32 \<Rightarrow> sim_radio \<Rightarrow> sim_radio" where
  "sim_service m aes now_ms r = fold (sim_service_peer m aes now_ms) [0..<length (sr_peers r)] r"

definition sim_popRx :: "sim_radio \<Rightarrow> sim_radio \<times> rx_frame option" where
  "sim_popRx r =
     (if sr_tail r = sr_head r then (r, None)
      else (r\<lparr>sr_tail := (sr_tail r + 1) mod kSimQueueSize\<rparr>, Some (sr_queue r ! sr_tail r)))"

definition peerElapsedMs :: "nat \<Rightarrow> u32 \<Rightarrow> sim_radio \<Rightarrow> u32" where
  "peerElapsedMs i now_ms r = (if i < length (sr_peers r) then now_ms - sp_start_ms (sr_peers r ! i) else 0)"

text \<open>What the hub sees of the driver.\<close>

definition sim_driver :: "rx_frame list \<Rightarrow> sim_radio \<Rightarrow> radio_driver" where
  "sim_driver frames r = \<lparr>dr_enabled = sr_enabled r, dr_transmits = False, dr_airtime = (\<lambda>_. dbl_round (1 / 10)), dr_rx = frames\<rparr>"

text \<open>The main loop, and a change of the configuration.\<close>

definition sim_loop :: "libm \<Rightarrow> aes128 \<Rightarrow> bool \<Rightarrow> u32 \<Rightarrow> sim_radio \<Rightarrow> sim_radio" where
  "sim_loop m aes on now r = (if on then sim_service m aes now r else r)"

definition sim_apply :: "bool \<Rightarrow> sim_radio \<Rightarrow> sim_radio" where
  "sim_apply on r = (let r = r\<lparr>sr_enabled := on\<rparr> in if \<not> on then sim_clear r else r)"

section \<open>Requests\<close>

text \<open>A member of the request's object as a string, a double or an \<open>int\<close>, if it is one.\<close>

record 'v sim_api =
  sj_str :: "'v \<Rightarrow> string \<Rightarrow> byte_list option"
  sj_dbl :: "'v \<Rightarrow> string \<Rightarrow> dbl option"
  sj_int :: "'v \<Rightarrow> string \<Rightarrow> int option"

definition or_else :: "'a option \<Rightarrow> 'a \<Rightarrow> 'a" where
  "or_else x y = (case x of None \<Rightarrow> y | Some v \<Rightarrow> v)"

definition simModeName :: "sim_mode \<Rightarrow> byte_list" where
  "simModeName mode = ascii (case mode of SimStatic \<Rightarrow> ''static'' | SimLine \<Rightarrow> ''line'' | SimCircle \<Rightarrow> ''circle'' | SimHex \<Rightarrow> ''hex'')"

definition simModeFromName :: "byte_list \<Rightarrow> sim_mode option" where
  "simModeFromName s =
     (if cstr s = ascii ''static'' then Some SimStatic
      else if cstr s = ascii ''line'' then Some SimLine
      else if cstr s = ascii ''circle'' then Some SimCircle
      else if cstr s = ascii ''hex'' then Some SimHex else None)"

definition requested_peer :: "'v sim_api \<Rightarrow> 'v \<Rightarrow> sim_radio \<Rightarrow> sim_mode \<Rightarrow> sim_peer_config" where
  "requested_peer api json r mode =
     (let uid = strtoul16 (cstr (or_else (sj_str api json ''uid'') []));
          uid = (if uid = 0 then 0x5EED0000 OR of_nat (length (sr_peers r) + 1) else uid)
      in \<lparr>sc_uid = uid, sc_name = strncpy_buf kMaxNameLen (or_else (sj_str api json ''name'') (ascii ''SIM'')),
          sc_mode = mode, sc_lat = or_else (sj_dbl api json ''lat'') 0, sc_lon = or_else (sj_dbl api json ''lon'') 0,
          sc_alt_m = of_int (or_else (sj_int api json ''alt_m'') 100),
          sc_speed_ms = or_else (sj_dbl api json ''speed_ms'') 0,
          sc_course_deg = or_else (sj_dbl api json ''course_deg'') 0,
          sc_radius_m = or_else (sj_dbl api json ''radius_m'') 100\<rparr>)"

text \<open>POST /api/sim/peer: the status code of the answer. Without a simulator the answer is 409; the
  handlers are given one.\<close>

definition simPost :: "'v sim_api \<Rightarrow> bool \<Rightarrow> 'v \<Rightarrow> u32 \<Rightarrow> sim_radio \<Rightarrow> sim_radio \<times> nat" where
  "simPost api on json now r =
     (if \<not> on then (r, 409)
      else case simModeFromName (or_else (sj_str api json ''mode'') (ascii ''static'')) of
             None \<Rightarrow> (r, 400)
           | Some mode \<Rightarrow>
               let c = requested_peer api json r mode
               in if sc_speed_ms c < 0 \<or> sc_speed_ms c > 200 then (r, 400)
                  else if (sc_mode c = SimCircle \<or> sc_mode c = SimHex) \<and> sc_radius_m c \<le> 0 then (r, 400)
                  else let (r, ok) = setPeer c now r in if \<not> ok then (r, 409) else (r, 200))"

text \<open>DELETE /api/sim/peer and POST /api/sim/clear.\<close>

definition simDelete :: "byte_list option \<Rightarrow> sim_radio \<Rightarrow> sim_radio \<times> nat" where
  "simDelete uid r =
     (case uid of
        None \<Rightarrow> (r, 400)
      | Some s \<Rightarrow> let (r, removed) = removePeer (strtoul16 (cstr s)) r in (r, if removed then 200 else 404))"

definition simClear :: "sim_radio \<Rightarrow> sim_radio \<times> nat" where
  "simClear r = (sim_clear r, 200)"

end
