(* ===== verification/Sim_Motion.thy ===== *)
theory Sim_Motion
  imports Sim_Traffic Follow_Runs
begin

text \<open>The ranges of a simulated state, and the end of a lap of the hexagon.\<close>

section \<open>Rounding\<close>

lemma exponent2_unique: "pow2 e \<le> x \<Longrightarrow> x < pow2 (e + 1) \<Longrightarrow> exponent2 x = e"
proof -
  assume b: "pow2 e \<le> x" "x < pow2 (e + 1)"
  then have "0 < x" using pow2_pos [of e] by linarith
  note k = exponent2_bounds [OF this]
  have "\<not> e + 1 \<le> exponent2 x" using k b pow2_mono [of "e + 1" "exponent2 x"] by linarith
  moreover have "\<not> exponent2 x + 1 \<le> e" using k b pow2_mono [of "exponent2 x + 1" e] by linarith
  ultimately show ?thesis by simp
qed

lemma round_even_nearest: "\<bar>x - of_int n\<bar> < 1/2 \<Longrightarrow> round_even x = n"
  using round_even_error [of x] by linarith

text \<open>A rounding, by its significand and exponent.\<close>

lemma round_to_value:
  assumes "pow2 e \<le> x" "x < pow2 (e + 1)" "\<bar>x / pow2 (e - int p + 1) - of_int n\<bar> < 1/2"
  shows "round_to p x = of_int n * pow2 (e - int p + 1)"
proof -
  have x: "0 < x" using assms(1) pow2_pos [of e] by linarith
  have "ulp p x = pow2 (e - int p + 1)" using exponent2_unique [OF assms(1,2)] x by (simp add: ulp_def)
  with round_even_nearest [OF assms(3)] show ?thesis by (simp add: round_to_ulp)
qed

lemma round_to_scale: "round_to p (x * pow2 k) = round_to p x * pow2 k"
proof (cases "x = 0")
  case False
  then have p: "0 < \<bar>x\<bar>" by simp
  have "exponent2 (\<bar>x\<bar> * pow2 k) = exponent2 \<bar>x\<bar> + k"
    using exponent2_bounds [OF p] by (intro exponent2_unique) (simp_all add: pow2_add)
  then have "ulp p (x * pow2 k) = ulp p x * pow2 k"
    by (simp add: ulp_def abs_mult less_imp_le pow2_add [symmetric] algebra_simps)
  then show ?thesis by (simp add: round_to_ulp)
qed simp

lemma round_to_idem: "0 < p \<Longrightarrow> round_to p (round_to p x) = round_to p x"
proof (cases "x = 0")
  case False
  assume p: "0 < p"
  have b: "\<bar>round_even (x / ulp p x)\<bar> \<le> 2 ^ p"
  proof -
    have "\<bar>x / ulp p x\<bar> < 2 ^ p"
      using significand_bounds [of "\<bar>x\<bar>" p] False p by (simp add: ulp_def abs_divide less_imp_le)
    then have "x / ulp p x \<le> of_int (2 ^ p)" "of_int (- (2 ^ p)) \<le> x / ulp p x"
      unfolding abs_less_iff of_int_power of_int_minus of_int_numeral by linarith+
    then have "round_even (x / ulp p x) \<le> round_even (of_int (2 ^ p))" "round_even (of_int (- (2 ^ p))) \<le> round_even (x / ulp p x)"
      by (blast intro: round_even_mono)+
    then show ?thesis unfolding round_even_of_int by linarith
  qed
  have r: "round_to p x = of_int (round_even (x / ulp p x)) * pow2 (exponent2 \<bar>x\<bar> - int p + 1)"
    by (simp add: round_to_ulp ulp_def)
  have one: "\<bar>1 :: int\<bar> < 2 ^ p" "\<bar>- 1 :: int\<bar> < 2 ^ p" using p by simp_all
  consider "round_even (x / ulp p x) = 2 ^ p" | "round_even (x / ulp p x) = - (2 ^ p)"
    | "\<bar>round_even (x / ulp p x)\<bar> < 2 ^ p" using b by linarith
  then show ?thesis
  proof cases
    case 1
    then show ?thesis using round_to_dyadic [OF r _ p] round_to_dyadic [OF _ one(1) p, of "round_to p x" "exponent2 \<bar>x\<bar> + 1"]
      by (simp add: r 1 pow2_of_nat [symmetric] pow2_add [symmetric])
  next
    case 2
    then show ?thesis using round_to_dyadic [OF _ one(2) p, of "round_to p x" "exponent2 \<bar>x\<bar> + 1"]
      by (simp add: r 2 pow2_of_nat [symmetric] pow2_add [symmetric])
  next
    case 3
    then show ?thesis by (rule round_to_dyadic [OF r _ p])
  qed
qed simp

text \<open>A tie.\<close>

lemma round_to_tie:
  assumes "pow2 e \<le> x" "x < pow2 (e + 1)" "x / pow2 (e - int p + 1) = of_int n - 1/2" "even n"
  shows "round_to p x = of_int n * pow2 (e - int p + 1)"
proof -
  have x: "0 < x" using assms(1) pow2_pos [of e] by linarith
  have u: "ulp p x = pow2 (e - int p + 1)" using exponent2_unique [OF assms(1,2)] x by (simp add: ulp_def)
  have "\<lfloor>of_int n - 1/2 :: rat\<rfloor> = n - 1" by linarith
  then have "round_even (x / ulp p x) = n" using assms(4) by (simp add: u assms(3) round_even_def Let_def)
  then show ?thesis by (simp add: round_to_ulp u)
qed

section \<open>Ranges\<close>

lemma fmod_bounds:
  assumes "0 < y"
  shows "\<bar>fmod x y\<bar> < y"
proof -
  have pos: "0 \<le> z - y * of_int \<lfloor>z / y\<rfloor> \<and> z - y * of_int \<lfloor>z / y\<rfloor> < y" for z
  proof -
    have "of_int \<lfloor>z / y\<rfloor> * y \<le> z / y * y" "z / y * y < (of_int \<lfloor>z / y\<rfloor> + 1) * y"
      using assms by (intro mult_right_mono mult_strict_right_mono; linarith)+
    with assms show ?thesis by (simp add: algebra_simps)
  qed
  from pos [of x] pos [of "- x"] show ?thesis by (simp add: fmod_def Let_def)
qed

lemma hex_along_bounds:
  assumes "0 < side"
  shows "0 \<le> hex_along side travelled \<and> hex_along side travelled \<le> dmul side 6"
proof -
  let ?p = "dmul side 6"
  have p: "0 < ?p" "dbl_round ?p = ?p" using assms by (simp_all add: dmul_def round_to_pos round_to_idem)
  note f = fmod_bounds [OF p(1), of travelled]
  have "0 \<le> dadd (fmod travelled ?p) ?p" using f by (simp add: dadd_def round_to_nonneg)
  moreover have "dadd (fmod travelled ?p) ?p \<le> ?p" if "fmod travelled ?p < 0"
    unfolding dadd_def using that p(2) by (intro round_to_le) auto
  ultimately show ?thesis using f by (auto simp: hex_along_def Let_def abs_less_iff not_less less_imp_le)
qed

lemma unit_quotient: "0 \<le> a \<Longrightarrow> a \<le> h \<Longrightarrow> 0 < h \<Longrightarrow> 0 \<le> dquot a h \<and> dquot a h \<le> 1"
  using round_to_le [of "a / h" 1 53] by (simp add: dquot_def round_to_nonneg round_to_of_int [of 1, simplified])

lemma lround_defined:
  assumes "of_int a \<le> x" "x \<le> of_int b" "-2147483648 \<le> a" "b \<le> 2147483647"
  shows "\<exists>k. a \<le> k \<and> k \<le> b \<and> lround_i32 m (Some x) = word_of_int k \<and> round_away x = k"
proof -
  have "a \<le> round_away x" "round_away x \<le> b"
    using round_away_mono [OF assms(1)] round_away_mono [OF assms(2)] by simp_all
  with assms(3,4) show ?thesis by (simp add: lround_i32_def)
qed

text \<open>The narrowing of the altitude to sixteen bits wraps.\<close>

definition wrap_i16 :: "int \<Rightarrow> int" where "wrap_i16 k = (if k \<le> 32767 then k else k - 65536)"

lemma ucast_i16:
  assumes "-32768 \<le> k" "k \<le> 32847"
  shows "sint (ucast (word_of_int k :: i32) :: i16) = wrap_i16 k"
proof (cases "k \<le> 32767")
  case True
  with assms show ?thesis
    by (simp add: wrap_i16_def unsigned_of_int signed_of_int signed_take_bit_take_bit signed_take_bit_int_eq_self_iff)
next
  case False
  then have "(k - 32768 + 65536) mod 65536 = k - 32768" using assms by (simp only: mod_add_self2 mod_pos_pos_trivial)
  then have "(k + 32768) mod 65536 = k - 32768" by (simp add: add.commute)
  then have "signed_take_bit 15 k = k - 65536" by (simp add: signed_take_bit_eq_take_bit_shift take_bit_eq_mod)
  with False show ?thesis
    by (simp add: wrap_i16_def unsigned_of_int signed_of_int signed_take_bit_take_bit)
qed

text \<open>The value \<open>lround\<close> is given for the altitude.\<close>

definition hex_climb :: "sim_peer_config \<Rightarrow> dbl \<Rightarrow> dbl" where
  "hex_climb cfg along =
     (let perimeter = dmul (sc_radius_m cfg) 6; half = dquot perimeter 2;
          frac = (if along \<le> half then dquot along half else dquot (dsub perimeter along) half)
      in dadd (dbl_of_i16 (sc_alt_m cfg)) (dmul 80 frac))"

lemma hex_altitude_climb: "hex_altitude m cfg along = ucast (lround_i32 m (Some (hex_climb cfg along)))"
  by (simp add: hex_altitude_def hex_climb_def Let_def)

lemma sint_i16_bounds: "-32768 \<le> sint (x :: i16)" "sint (x :: i16) \<le> 32767"
  using sint_greater_eq [of x] sint_less [of x] by simp_all

lemma hex_climb_bounds:
  assumes "0 < sc_radius_m cfg" "0 \<le> along" "along \<le> dmul (sc_radius_m cfg) 6"
  shows "of_int (sint (sc_alt_m cfg)) \<le> hex_climb cfg along \<and> hex_climb cfg along \<le> of_int (sint (sc_alt_m cfg) + 80)"
proof -
  let ?p = "dmul (sc_radius_m cfg) 6" and ?i = "sint (sc_alt_m cfg)"
  let ?f = "if along \<le> ?p / 2 then dquot along (?p / 2) else dquot (dsub ?p along) (?p / 2)"
  have p: "0 < ?p" "dbl_round ?p = ?p" using assms by (simp_all add: dmul_def round_to_pos round_to_idem)
  have h: "dquot ?p 2 = ?p / 2" "dbl_round (?p / 2) = ?p / 2"
    using round_to_scale [of 53 ?p "-1"] p(2) by (simp_all add: dquot_def pow2_def)
  have "0 \<le> dsub ?p along" using assms(3) by (simp add: dsub_def round_to_nonneg)
  moreover have "dsub ?p along \<le> ?p / 2" if "\<not> along \<le> ?p / 2"
    unfolding dsub_def using that h(2) by (intro round_to_le) (auto simp: field_simps)
  ultimately have f: "0 \<le> ?f \<and> ?f \<le> 1"
    using unit_quotient [of along "?p / 2"] unit_quotient [of "dsub ?p along" "?p / 2"] assms(2) p(1) by simp
  define frac where "frac = ?f"
  have e: "hex_climb cfg along = dadd (dbl_of_i16 (sc_alt_m cfg)) (dmul 80 frac)"
    by (simp add: hex_climb_def Let_def h(1) frac_def)
  have c: "0 \<le> dmul 80 frac" "dmul 80 frac \<le> 80"
    using f round_to_le [of "80 * frac" 80 53] unfolding frac_def [symmetric] by (simp_all add: dmul_def round_to_nonneg)
  have "dbl_round (of_int ?i) = of_int ?i" "dbl_round (of_int (?i + 80)) = of_int (?i + 80)"
    using round_to_of_int [of ?i 53] round_to_of_int [of "?i + 80" 53] sint_i16_bounds [of "sc_alt_m cfg"] by simp_all
  then show ?thesis
    unfolding e dadd_def dbl_of_i16_def using c by (auto intro!: round_to_le round_to_ge)
qed

lemma speed_defined:
  assumes "0 \<le> sc_speed_ms cfg" "sc_speed_ms cfg \<le> 200"
  shows "speed_cms (m\<lparr>lm_lround_undef := u\<rparr>) cfg = speed_cms m cfg \<and> unat (speed_cms m cfg) \<le> 20000"
proof -
  have "of_int 0 \<le> dmul (sc_speed_ms cfg) 100" "dmul (sc_speed_ms cfg) 100 \<le> of_int 20000"
    using assms round_to_le [of "sc_speed_ms cfg * 100" 20000 53] by (simp_all add: dmul_def round_to_nonneg)
  note d = lround_defined [OF this]
  obtain k where k: "0 \<le> k" "k \<le> 20000" "round_away (dmul (sc_speed_ms cfg) 100) = k" using d [of m] by auto
  then have l: "lround_i32 l (Some (dmul (sc_speed_ms cfg) 100)) = word_of_int k" for l by (simp add: lround_i32_def)
  have "unat (word_of_int k :: u16) = nat k" using k by (simp add: unat_eq_nat_uint unsigned_of_int take_bit_int_eq_self)
  moreover have "(ucast (word_of_int k :: i32) :: u16) = word_of_int k" using k by (simp add: unsigned_of_int take_bit_int_eq_self)
  ultimately show ?thesis using k by (simp add: speed_cms_def l)
qed

text \<open>A course is a legal one, and its conversion is defined whatever the angle.\<close>

lemma course_defined:
  "courseToDdeg (m\<lparr>lm_lround_undef := u\<rparr>) deg = courseToDdeg m deg \<and> unat (courseToDdeg m deg) < 3600"
proof -
  let ?d = "if fmod deg 360 < 0 then dadd (fmod deg 360) 360 else fmod deg 360"
  have f: "\<bar>fmod deg 360\<bar> < 360" by (rule fmod_bounds) simp
  have "0 \<le> ?d" "?d \<le> 360"
    using f round_to_le [of "fmod deg 360 + 360" 360 53] by (auto simp: dadd_def round_to_nonneg abs_less_iff)
  then have "of_int 0 \<le> dmul ?d 10" "dmul ?d 10 \<le> of_int 3600"
    using round_to_le [of "?d * 10" 3600 53] unfolding dmul_def by (simp_all add: round_to_nonneg)
  from lround_defined [OF this, of m] obtain k where k: "0 \<le> k" "k \<le> 3600" "round_away (dmul ?d 10) = k" by auto
  then have l: "lround_i32 l (Some (dmul ?d 10)) = word_of_int k" for l by (simp add: lround_i32_def)
  have u: "courseToDdeg l deg = (let ddeg = ucast (lround_i32 l (Some (dmul ?d 10))) :: u32
      in ucast (if ddeg \<ge> 3600 then 0 else ddeg))" for l
    by (simp add: courseToDdeg_def Let_def)
  have "unat (ucast (w :: u32) :: u16) < 3600" if "\<not> w \<ge> 3600" for w
  proof -
    have "unat w < 3600" using that by (simp add: not_le word_less_nat_alt)
    then show ?thesis by (simp add: unsigned_ucast_eq take_bit_nat_eq_self)
  qed
  then show ?thesis unfolding u l Let_def by auto
qed

lemma altitude_defined:
  assumes "0 < sc_radius_m cfg" "0 \<le> along" "along \<le> dmul (sc_radius_m cfg) 6"
  shows "hex_altitude (m\<lparr>lm_lround_undef := u\<rparr>) cfg along = hex_altitude m cfg along \<and>
    (\<exists>climb. 0 \<le> climb \<and> climb \<le> 80 \<and> sint (hex_altitude m cfg along) = wrap_i16 (sint (sc_alt_m cfg) + climb))"
proof -
  note b = hex_climb_bounds [OF assms(1-3)] sint_i16_bounds [of "sc_alt_m cfg"]
  have "\<exists>k. sint (sc_alt_m cfg) \<le> k \<and> k \<le> sint (sc_alt_m cfg) + 80 \<and>
      lround_i32 m (Some (hex_climb cfg along)) = word_of_int k \<and> round_away (hex_climb cfg along) = k"
    by (rule lround_defined) (use b in auto)
  then obtain k where k: "sint (sc_alt_m cfg) \<le> k" "k \<le> sint (sc_alt_m cfg) + 80" "round_away (hex_climb cfg along) = k"
    by blast
  then have l: "lround_i32 l (Some (hex_climb cfg along)) = word_of_int k" for l
    using b(2,3) by (simp add: lround_i32_def)
  have "sint (ucast (word_of_int k :: i32) :: i16) = wrap_i16 k" by (rule ucast_i16) (use k b(2,3) in simp_all)
  then show ?thesis
    unfolding hex_altitude_climb l using k by (intro conjI refl exI [of _ "k - sint (sc_alt_m cfg)"]) simp_all
qed

lemma wrap_i16_sint [simp]: "wrap_i16 (sint (x :: i16)) = sint x"
  using sint_i16_bounds(2) [of x] by (simp add: wrap_i16_def)

lemma pointAtDistance_undef: "pointAtDistance (m\<lparr>lm_lround_undef := u\<rparr>) = pointAtDistance m"
  by (intro ext) (simp add: pointAtDistance_def m_asin_def Let_def)

text \<open>C35: The state of a simulated peer, at every time of every path set up with a speed the web server
  accepts: the course is below 360.0 degrees, the speed is at most 200 m/s, and the altitude is that
  of the start with at most 80 m added, in sixteen bits: it wraps to the negative when the start is
  above 32687 m, which nothing refuses. No conversion to an integer on the way is out of its range.\<close>

theorem sim_state_bounds:
  assumes "0 \<le> sc_speed_ms cfg" "sc_speed_ms cfg \<le> 200"
  shows "unat (ss_course_ddeg (simPeerAt m cfg t)) < 3600 \<and> unat (ss_speed_cms (simPeerAt m cfg t)) \<le> 20000 \<and>
    (\<exists>climb. 0 \<le> climb \<and> climb \<le> 80 \<and>
       sint (ss_alt_m (simPeerAt m cfg t)) =
         (if sint (sc_alt_m cfg) + climb \<le> 32767 then sint (sc_alt_m cfg) + climb else sint (sc_alt_m cfg) + climb - 65536)) \<and>
    simPeerAt (m\<lparr>lm_lround_undef := undefined_value\<rparr>) cfg t = simPeerAt m cfg t"
proof -
  note facts = speed_defined [OF assms(1,2)] course_defined pointAtDistance_undef
  have alt: "0 < sc_radius_m cfg \<Longrightarrow> hex_altitude (m\<lparr>lm_lround_undef := u\<rparr>) cfg (hex_along (sc_radius_m cfg) x) =
        hex_altitude m cfg (hex_along (sc_radius_m cfg) x) \<and>
      (\<exists>climb. 0 \<le> climb \<and> climb \<le> 80 \<and>
        sint (hex_altitude m cfg (hex_along (sc_radius_m cfg) x)) = wrap_i16 (sint (sc_alt_m cfg) + climb))" for x u
    by (rule altitude_defined) (use hex_along_bounds in blast)+
  have level: "\<exists>climb. 0 \<le> climb \<and> climb \<le> 80 \<and> sint (sc_alt_m cfg) = wrap_i16 (sint (sc_alt_m cfg) + climb)"
    by (rule exI [of _ 0]) simp
  show ?thesis
    unfolding wrap_i16_def [symmetric]
    by (cases "sc_mode cfg")
       (use facts alt level in \<open>auto simp: simPeerAt_def hex_state_def set_position_def Let_def not_le cong: option.case_cong\<close>)
qed

definition sample_hex :: sim_peer_config where
  "sample_hex = SimPeerConfig\<lparr>sc_uid := 7, sc_mode := SimHex, sc_alt_m := 100, sc_speed_ms := 5,
     sc_radius_m := dbl_round (652 / 10)\<rparr>"

theorem sim_state_bounds_witness:
  "unat (ss_course_ddeg (simPeerAt sample_libm sample_hex 78240)) < 3600 \<and>
   sint (ss_alt_m (simPeerAt sample_libm sample_hex 78240)) \<le> 180"
proof -
  have c: "sint (sc_alt_m sample_hex) = 100" "0 \<le> sc_speed_ms sample_hex" "sc_speed_ms sample_hex \<le> 200"
    by (simp_all add: sample_hex_def SimPeerConfig_def)
  note b = sim_state_bounds [OF c(2,3), of sample_libm 78240 undefined]
  then obtain climb where "climb \<le> 80" "sint (ss_alt_m (simPeerAt sample_libm sample_hex 78240)) =
      (if 100 + climb \<le> 32767 then 100 + climb else 100 + climb - 65536)"
    unfolding c(1) by blast
  then have "sint (ss_alt_m (simPeerAt sample_libm sample_hex 78240)) \<le> 180" by (simp split: if_splits)
  with b show ?thesis by blast
qed

section \<open>The end of a lap\<close>

lemma sample_side: "sc_radius_m sample_hex = 4588042120383693 / 70368744177664"
  using round_to_value [of 6 "652 / 10" 53 4588042120383693] by (simp add: sample_hex_def pow2_def)

lemma sample_travelled: "path_travelled sample_hex 78240 = 6882063180575539 / 17592186044416"
proof -
  have t: "dquot (dbl_of_u32 78240) 1000 = 5505650544460431 / 70368744177664"
    using round_to_value [of 6 "78240 / 1000" 53 5505650544460431] by (simp add: dquot_def dbl_of_u32_def pow2_def)
  show ?thesis
    using round_to_value [of 8 "5 * (5505650544460431 / 70368744177664)" 53 6882063180575539]
    by (simp add: path_travelled_def t dmul_def pow2_def sample_hex_def)
qed

lemma sample_perimeter: "dmul (4588042120383693 / 70368744177664) 6 = 1720515795143885 / 4398046511104"
  using round_to_tie [of 8 "4588042120383693 / 70368744177664 * 6" 53 6882063180575540]
  by (simp add: dmul_def pow2_def)

lemma sample_along: "hex_along (sc_radius_m sample_hex) (path_travelled sample_hex 78240) = 6882063180575539 / 17592186044416"
proof -
  have "\<lfloor>(6882063180575539 / 17592186044416) / (1720515795143885 / 4398046511104) :: rat\<rfloor> = 0"
    by (rule floor_unique) simp_all
  then show ?thesis
    unfolding sample_side sample_travelled hex_along_def kHexSides_def of_int_numeral sample_perimeter Let_def fmod_def
    by simp
qed

lemma sample_leg: "hex_leg (4588042120383693 / 70368744177664) (6882063180575539 / 17592186044416) = 0"
proof -
  have "dquot (6882063180575539 / 17592186044416) (4588042120383693 / 70368744177664) = 6"
    using round_to_value [of 2 "(6882063180575539 / 17592186044416) / (4588042120383693 / 70368744177664)" 53 6755399441055744]
    by (simp add: dquot_def pow2_def)
  then show ?thesis by (simp add: hex_leg_def)
qed

lemma sample_progress:
  "hex_progress (4588042120383693 / 70368744177664) (6882063180575539 / 17592186044416) = 6882063180575539 / 17592186044416"
  using round_to_dyadic [of "6882063180575539 / 17592186044416" 6882063180575539 "-44" 53]
  by (simp add: hex_progress_def sample_leg dmul_def dsub_def pow2_def)

text \<open>At the end of a lap the simulated hexagon can jump: at 65.2 m a side and 5 m/s, after 78.24 s,
  the distance along the loop is just below the perimeter, but its quotient by the side rounds up to
  6, leg 6 becomes leg 0, and the peer is put 391.2 m down the first edge, which is 65.2 m long.\<close>

theorem hex_lap_end_jumps:
  "let side = sc_radius_m sample_hex; along = hex_along side (path_travelled sample_hex 78240);
       s = simPeerAt m sample_hex 78240;
       far = (case pointAtDistance m 0 0 side 0 of None \<Rightarrow> None | Some (vlat, vlon) \<Rightarrow> pointAtDistance m vlat vlon along 120)
   in along < dmul side 6 \<and> 5.99 * side < along \<and> hex_leg side along = 0 \<and> hex_progress side along = along \<and>
      ss_lat s = map_option fst far \<and> ss_lon s = map_option snd far"
proof -
  have c: "sc_mode sample_hex = SimHex" "sc_lat sample_hex = 0" "sc_lon sample_hex = 0"
    by (simp_all add: sample_hex_def SimPeerConfig_def)
  have b: "hex_bearing 0 = 0" "dadd 0 120 = 120" by (simp_all add: hex_bearing_def dmul_def dadd_def)
  show ?thesis
    unfolding Let_def sample_along
    by (simp add: simPeerAt_def hex_state_def Let_def c set_position_def sample_along [unfolded sample_side] sample_side
        sample_leg sample_progress sample_perimeter b cong: option.case_cong)
qed

end
