(* ===== verification/Sim_Frames.thy ===== *)
theory Sim_Frames
  imports Sim_Radio Sim_Motion
begin

text \<open>
  Every frame of the simulator is the sealed packet of a peer that was set up.
\<close>

section \<open>The queue\<close>

definition sim_ring :: "sim_radio \<Rightarrow> rx_frame spsc_ring" where
  "sim_ring r = \<lparr>rb_buf = sr_queue r, rb_head = sr_head r, rb_tail = sr_tail r, rb_dropped = 0\<rparr>"

definition sim_shape :: "sim_radio \<Rightarrow> bool" where
  "sim_shape r \<longleftrightarrow> length (sr_queue r) = 8 \<and> sr_head r < 8 \<and> sr_tail r < 8"

definition sim_contents :: "sim_radio \<Rightarrow> rx_frame list" where "sim_contents r = rb_contents (sim_ring r)"

definition sim_push :: "sim_radio \<Rightarrow> rx_frame \<Rightarrow> sim_radio \<times> bool" where
  "sim_push r f = (if sim_queue_full r then (r, False) else (sim_enqueue f r, True))"

lemma sim_ring_inv: "sim_shape r \<Longrightarrow> rb_inv (sim_ring r) \<and> rb_room (sim_ring r) = 7"
  by (simp add: sim_shape_def sim_ring_def rb_inv_def rb_room_def rb_capacity_def)

lemma sim_push_ring:
  assumes "sim_shape r"
  shows "rb_push (sim_ring r) f =
    (if sim_queue_full r then ((sim_ring r)\<lparr>rb_dropped := 1\<rparr>, False) else (sim_ring (sim_enqueue f r), True))"
  using assms by (simp add: rb_push_def sim_ring_def sim_queue_full_def sim_enqueue_def rb_next_def rb_capacity_def sim_shape_def Let_def)

lemma sim_pop_ring:
  "sim_shape r \<Longrightarrow> rb_pop (sim_ring r) = (case sim_popRx r of (r', f) \<Rightarrow> (sim_ring r', f))"
  by (simp add: rb_pop_def sim_ring_def sim_popRx_def rb_next_def rb_capacity_def sim_shape_def Let_def)

lemma sim_shape_ops:
  "sim_shape r \<Longrightarrow> sim_shape (sim_enqueue f r)" "sim_shape r \<Longrightarrow> sim_shape (fst (sim_popRx r))"
  "sim_shape r \<Longrightarrow> sim_shape (sim_clear r)"
  by (auto simp: sim_shape_def sim_enqueue_def sim_popRx_def sim_clear_def)

lemma sim_contents_enqueue: "sim_shape r \<Longrightarrow> \<not> sim_queue_full r \<Longrightarrow> sim_contents (sim_enqueue f r) = sim_contents r @ [f]"
  using ring.push_contents [of "sim_ring r" f] sim_ring_inv [of r] sim_push_ring [of r f] by (simp add: sim_contents_def)

lemma sim_contents_clear: "sim_contents (sim_clear r) = []"
  by (simp add: sim_contents_def sim_ring_def sim_clear_def rb_contents_def rb_size_def)

interpretation sim_queue: bounded_fifo sim_shape sim_contents "\<lambda>_. 7" "\<lambda>_. True" sim_push sim_popRx
proof unfold_locales
  fix r :: sim_radio and f :: rx_frame
  assume s: "sim_shape r"
  note i = sim_ring_inv [OF s]
  show "length (sim_contents r) \<le> 7" using ring.contents_bound [of "sim_ring r"] i by (simp add: sim_contents_def)
  show "sim_shape (fst (sim_push r f)) \<and> (7 :: nat) = 7" using s by (simp add: sim_push_def sim_shape_ops)
  show "snd (sim_push r f) \<longleftrightarrow> True \<and> length (sim_contents r) < 7"
    using ring.push_accepts [of "sim_ring r" f] i sim_push_ring [OF s, of f] by (auto simp: sim_contents_def sim_push_def)
  show "sim_contents (fst (sim_push r f)) = (if snd (sim_push r f) then sim_contents r @ [f] else sim_contents r)"
    using sim_contents_enqueue [OF s] by (simp add: sim_push_def)
  show "sim_shape (fst (sim_popRx r)) \<and> (7 :: nat) = 7" using s by (simp add: sim_shape_ops)
  show "case sim_contents r of
      [] \<Rightarrow> snd (sim_popRx r) = None \<and> sim_contents (fst (sim_popRx r)) = []
    | x # xs \<Rightarrow> snd (sim_popRx r) = Some x \<and> sim_contents (fst (sim_popRx r)) = xs"
    using ring.pop_contents [of "sim_ring r"] i sim_pop_ring [OF s]
    by (cases "sim_popRx r") (simp add: sim_contents_def split: list.splits)
qed

section \<open>Sealing\<close>

lemma sim_packet_bytes:
  "11 \<le> length (sim_packet m p announce now) \<and> length (sim_packet m p announce now) \<le> 26 \<and>
   take 4 (drop 2 (sim_packet m p announce now)) = put_u32 [] (sc_uid (sp_cfg p))"
proof (cases announce)
  case True
  let ?a = "\<lparr>an_uid = sc_uid (sp_cfg p), an_name = strncpy_buf kMaxNameLen (sc_name (sp_cfg p)), an_capabilities = CAP_HAS_GPS\<rparr>"
  have "boundedLen (an_name ?a) 15 \<le> 15" by (rule boundedLen_le)
  then have "encodeAnnounce ?a 64 = [2, 2] @ put_u32 [] (sc_uid (sp_cfg p)) @ [of_nat (length (cstr (take 15 (an_name ?a))))] @
      cstr (take 15 (an_name ?a)) @ put_u32 [] CAP_HAS_GPS" by (subst encodeAnnounce_eq) simp_all
  moreover have "length (encodeAnnounce ?a 64) \<le> 26" using length_encodeAnnounce [of ?a 64] by simp
  ultimately show ?thesis using True by (simp add: sim_packet_def)
next
  case False
  then show ?thesis
    by (simp add: sim_packet_def length_encodePosition) (simp add: encodePosition_eq simPositionPacket_def)
qed

text \<open>A packet is sealed with the peer's next counter.\<close>

lemma sim_seal_sealed:
  "\<exists>f. sealed aes (sc_uid (sp_cfg p)) (sp_counter p + 1) (sim_packet m p announce now) = Some f \<and>
     length f = length (sim_packet m p announce now) + 10 \<and>
     sim_seal m (Some aes) p announce now = (p\<lparr>sp_counter := sp_counter p + 1\<rparr>, f)"
proof -
  define b where "b = sim_packet m p announce now"
  have l: "11 \<le> length b" "length b \<le> 26" using sim_packet_bytes [of m p announce now] by (simp_all add: b_def)
  have f: "length (frame_buf b) = 64" "take (length b) (frame_buf b) = b" using l by (simp_all add: frame_buf_def)
  have ne: "b \<noteq> []" using l by auto
  obtain f where "sealed aes (sc_uid (sp_cfg p)) (sp_counter p + 1) b = Some f" "length f = length b + 10"
    "encryptAs aes (sc_uid (sp_cfg p)) (sp_counter p + 1) (frame_buf b) (length b) 64 = (f @ drop (length b + 10) (frame_buf b), length b + 10)"
    using encryptAs_makes_sealed [of "length b" 64 "frame_buf b" aes "sc_uid (sp_cfg p)" "sp_counter p + 1"] l f by auto
  then show ?thesis using ne unfolding sim_seal_def b_def [symmetric] Let_def by simp
qed

text \<open>What a frame of the simulator is: the packet of one of the peers \<open>C\<close>, sealed under the key.\<close>

definition sim_frame_of :: "libm \<Rightarrow> aes128 option \<Rightarrow> sim_peer_config set \<Rightarrow> byte_list \<Rightarrow> bool" where
  "sim_frame_of m key C bytes \<longleftrightarrow>
     (\<exists>p announce now. sp_cfg p \<in> C \<and> sc_uid (sp_cfg p) \<noteq> 0 \<and>
        (case key of
           None \<Rightarrow> bytes = sim_packet m p announce now
         | Some aes \<Rightarrow> sealed aes (sc_uid (sp_cfg p)) (sp_counter p) (sim_packet m p announce now) = Some bytes))"

definition rx_bytes :: "rx_frame \<Rightarrow> byte_list" where "rx_bytes f = take (unat (rx_len f)) (rx_data f)"

lemma sim_packet_counter: "sim_packet m (p\<lparr>sp_counter := k\<rparr>) = sim_packet m p"
  by (simp add: fun_eq_iff sim_packet_def)

lemma sim_seal_frame:
  assumes "sp_cfg p \<in> C" "sc_uid (sp_cfg p) \<noteq> 0" "sim_seal m key p announce now = (p', bytes)"
  shows "sim_frame_of m key C bytes \<and> sp_cfg p' = sp_cfg p \<and> length bytes \<le> 36 \<and> bytes \<noteq> []"
proof (cases key)
  case None
  have "sim_packet m p announce now \<noteq> []" "length (sim_packet m p announce now) \<le> 26"
    using sim_packet_bytes [of m p announce now] by auto
  then show ?thesis using assms None by (auto simp: sim_seal_def Let_def sim_frame_of_def)
next
  case (Some aes)
  obtain f where f: "sealed aes (sc_uid (sp_cfg p)) (sp_counter p + 1) (sim_packet m p announce now) = Some f"
    "length f = length (sim_packet m p announce now) + 10"
    "sim_seal m (Some aes) p announce now = (p\<lparr>sp_counter := sp_counter p + 1\<rparr>, f)" using sim_seal_sealed by blast
  have "f \<noteq> []" "length f \<le> 36" using f(2) sim_packet_bytes [of m p announce now] by auto
  moreover have "sim_frame_of m (Some aes) C f"
    unfolding sim_frame_of_def using assms(1,2) f(1)
    by (intro exI [of _ "p\<lparr>sp_counter := sp_counter p + 1\<rparr>"] exI [of _ announce] exI [of _ now]) (simp add: sim_packet_counter)
  ultimately show ?thesis using assms(3) f(3) Some by auto
qed

section \<open>Lives\<close>

datatype sim_event = SetSimPeer sim_peer_config u32 | RemoveSimPeer u32 | ClearSimPeers | ApplySim bool
  | SimLoop bool u32 | PopSimFrame

text \<open>The state and the frames handed to the hub.\<close>

definition sim_step :: "libm \<Rightarrow> aes128 \<Rightarrow> sim_event \<Rightarrow> sim_radio \<times> rx_frame list \<Rightarrow> sim_radio \<times> rx_frame list" where
  "sim_step m aes e s =
     (case e of
        SetSimPeer cfg now \<Rightarrow> (fst (setPeer cfg now (fst s)), snd s)
      | RemoveSimPeer uid \<Rightarrow> (fst (removePeer uid (fst s)), snd s)
      | ClearSimPeers \<Rightarrow> (sim_clear (fst s), snd s)
      | ApplySim on \<Rightarrow> (sim_apply on (fst s), snd s)
      | SimLoop on now \<Rightarrow> (sim_loop m aes on now (fst s), snd s)
      | PopSimFrame \<Rightarrow> (case sim_popRx (fst s) of (r, f) \<Rightarrow> (r, snd s @ (case f of None \<Rightarrow> [] | Some x \<Rightarrow> [x]))))"

definition sim_configs :: "sim_event list \<Rightarrow> sim_peer_config set" where
  "sim_configs es = {cfg. \<exists>now. SetSimPeer cfg now \<in> set es}"

definition sim_inv :: "libm \<Rightarrow> aes128 option \<Rightarrow> sim_peer_config set \<Rightarrow> sim_radio \<Rightarrow> bool" where
  "sim_inv m key C r \<longleftrightarrow> sim_shape r \<and> length (sr_peers r) \<le> 4 \<and> sr_crypto r = (key \<noteq> None) \<and>
     (\<forall>p \<in> set (sr_peers r). sp_cfg p \<in> C \<and> sc_uid (sp_cfg p) \<noteq> 0) \<and>
     (\<forall>f \<in> set (sim_contents r). sim_frame_of m key C (rx_bytes f))"

lemma sim_contents_peers [simp]: "sim_contents (r\<lparr>sr_peers := ps\<rparr>) = sim_contents r" "sim_shape (r\<lparr>sr_peers := ps\<rparr>) = sim_shape r"
  by (simp_all add: sim_contents_def sim_ring_def sim_shape_def)

text \<open>A change of the peers that keeps them among the configured.\<close>

lemma sim_inv_peers:
  "sim_inv m key C r \<Longrightarrow> length ps \<le> 4 \<Longrightarrow> \<forall>p \<in> set ps. sp_cfg p \<in> C \<and> sc_uid (sp_cfg p) \<noteq> 0 \<Longrightarrow>
     sim_inv m key C (r\<lparr>sr_peers := ps\<rparr>)"
  by (simp add: sim_inv_def)

lemma sim_inv_peer:
  "sim_inv m key C r \<Longrightarrow> i < length (sr_peers r) \<Longrightarrow> sp_cfg p = sp_cfg (sr_peers r ! i) \<Longrightarrow>
     sim_inv m key C (r\<lparr>sr_peers := (sr_peers r)[i := p]\<rparr>)"
  by (rule sim_inv_peers) (auto simp: sim_inv_def dest!: set_update_subset_insert [THEN subsetD])

lemma emit_inv:
  assumes "sim_inv m key C r" "i < length (sr_peers r)" "key = None \<or> key = Some aes"
  shows "sim_inv m key C (emit m aes i announce now r) \<and> length (sr_peers (emit m aes i announce now r)) = length (sr_peers r)"
proof (cases "sim_queue_full r")
  case True
  with assms(1) show ?thesis by (simp add: emit_def)
next
  case False
  let ?p = "sr_peers r ! i"
  obtain p bytes where s: "sim_seal m key ?p announce now = (p, bytes)" by fastforce
  have k: "(if sr_crypto r then Some aes else None) = key" using assms(1,3) by (auto simp: sim_inv_def)
  have "sp_cfg ?p \<in> C" "sc_uid (sp_cfg ?p) \<noteq> 0" using assms(1,2) by (auto simp: sim_inv_def)
  note f = sim_seal_frame [OF this s]
  let ?r = "r\<lparr>sr_peers := (sr_peers r)[i := p]\<rparr>"
  let ?f = "\<lparr>rx_timestamp_ms = now, rx_rssi = sim_rssi p, rx_len = of_nat (length bytes),
      rx_data = bytes @ drop (length bytes) (rx_data (sr_queue r ! sr_head r))\<rparr>"
  have e: "emit m aes i announce now r = sim_enqueue ?f ?r"
    using False s f by (simp add: emit_def k Let_def)
  have r: "sim_inv m key C ?r" using f by (intro sim_inv_peer assms) simp
  moreover have "\<not> sim_queue_full ?r" using False by (simp add: sim_queue_full_def)
  moreover have "rx_bytes ?f = bytes" using f by (simp add: rx_bytes_def unat_of_nat_small)
  ultimately have "sim_inv m key C (sim_enqueue ?f ?r)"
    using f sim_contents_enqueue [of ?r ?f] sim_shape_ops(1) [of ?r ?f]
    by (simp add: sim_inv_def) (simp add: sim_enqueue_def)
  then show ?thesis unfolding e by (simp add: sim_enqueue_def)
qed

lemma service_peer_inv:
  assumes "sim_inv m key C r" "i < length (sr_peers r)" "key = None \<or> key = Some aes"
  shows "sim_inv m key C (sim_service_peer m aes now i r) \<and>
    length (sr_peers (sim_service_peer m aes now i r)) = length (sr_peers r)"
proof (cases "sint (now - sp_next_tx_ms (sr_peers r ! i)) < 0")
  case True
  with assms(1) show ?thesis by (simp add: sim_service_peer_def)
next
  case False
  let ?p = "(sr_peers r ! i)\<lparr>sp_next_tx_ms := now + sr_interval_ms r\<rparr>"
  let ?r = "r\<lparr>sr_peers := (sr_peers r)[i := ?p]\<rparr>"
  let ?s = "?r\<lparr>sr_peers := (sr_peers ?r)[i := ?p\<lparr>sp_announced := True\<rparr>]\<rparr>"
  have r: "sim_inv m key C ?r" by (rule sim_inv_peer [OF assms(1,2)]) simp
  have s: "sim_inv m key C ?s" by (rule sim_inv_peer [OF r]) (use assms(2) in simp_all)
  let ?t = "if sp_announced (sr_peers r ! i) then ?r else emit m aes i True now ?s"
  have t: "sim_inv m key C ?t \<and> length (sr_peers ?t) = length (sr_peers r)"
    using r emit_inv [OF s _ assms(3), of i True now] assms(2) by simp
  have "sim_service_peer m aes now i r = emit m aes i False now ?t"
    using False assms(2) by (simp add: sim_service_peer_def Let_def)
  with emit_inv [of m key C ?t i aes False now] t assms(2,3) show ?thesis by metis
qed

lemma service_inv:
  assumes "sim_inv m key C r" "key = None \<or> key = Some aes"
  shows "sim_inv m key C (sim_service m aes now r)"
proof -
  have "\<forall>i \<in> set is. i < length (sr_peers r) \<Longrightarrow> sim_inv m key C (fold (sim_service_peer m aes now) is r)" for "is"
    using assms(1)
  proof (induction "is" arbitrary: r)
    case (Cons i "is")
    from service_peer_inv [OF Cons.prems(2) _ assms(2), of i now] Cons.prems(1) Cons.IH show ?case by simp
  qed simp
  then show ?thesis by (simp add: sim_service_def)
qed

lemma setPeer_inv:
  assumes "sim_inv m key C r" "cfg \<in> C"
  shows "sim_inv m key C (fst (setPeer cfg now r))"
proof (cases "first_idx (\<lambda>p. sc_uid (sp_cfg p) = sc_uid cfg) (sr_peers r)")
  case None
  have "sim_inv m key C (r\<lparr>sr_peers := sr_peers r @ [\<lparr>sp_cfg = cfg, sp_start_ms = now, sp_next_tx_ms = now,
      sp_counter = 0, sp_announced = False\<rparr>]\<rparr>)" if "sc_uid cfg \<noteq> 0" "length (sr_peers r) < 4"
    by (rule sim_inv_peers) (use assms that in \<open>auto simp: sim_inv_def\<close>)
  with None assms(1) show ?thesis by (simp add: setPeer_def not_le del: first_idx_None)
next
  case (Some i)
  have "sim_inv m key C (r\<lparr>sr_peers := (sr_peers r)[i := (sr_peers r ! i)\<lparr>sp_cfg := cfg, sp_start_ms := now, sp_announced := False\<rparr>]\<rparr>)"
    if "sc_uid cfg \<noteq> 0"
    by (rule sim_inv_peers) (use assms that in \<open>auto simp: sim_inv_def dest!: set_update_subset_insert [THEN subsetD]\<close>)
  with Some assms(1) show ?thesis by (simp add: setPeer_def)
qed

lemma removePeer_inv: "sim_inv m key C r \<Longrightarrow> sim_inv m key C (fst (removePeer uid r))"
proof (cases "first_idx (\<lambda>p. sc_uid (sp_cfg p) = uid) (sr_peers r)")
  case (Some i)
  assume r: "sim_inv m key C r"
  have "sim_inv m key C (r\<lparr>sr_peers := take i (sr_peers r) @ drop (Suc i) (sr_peers r)\<rparr>)"
    by (rule sim_inv_peers [OF r]) (use r in \<open>auto simp: sim_inv_def dest: in_set_takeD in_set_dropD\<close>)
  with Some show ?thesis by (simp add: removePeer_def)
qed (simp add: removePeer_def del: first_idx_None)

lemma clear_inv: "sim_inv m key C r \<Longrightarrow> sim_inv m key C (sim_clear r)"
  using sim_shape_ops(3) [of r] by (simp add: sim_inv_def sim_contents_clear) (simp add: sim_clear_def)

lemma pop_inv:
  assumes "sim_inv m key C r"
  shows "sim_inv m key C (fst (sim_popRx r)) \<and> (\<forall>f. snd (sim_popRx r) = Some f \<longrightarrow> sim_frame_of m key C (rx_bytes f))"
proof -
  have s: "sim_shape r" using assms by (simp add: sim_inv_def)
  have q: "sr_peers (fst (sim_popRx r)) = sr_peers r" "sr_crypto (fst (sim_popRx r)) = sr_crypto r"
    by (simp_all add: sim_popRx_def)
  show ?thesis
    using assms sim_queue.pop_contents [OF s] sim_shape_ops(2) [OF s] q
    by (cases "sim_contents r") (auto simp: sim_inv_def)
qed

lemma enabled_inv: "sim_inv m key C (r\<lparr>sr_enabled := on\<rparr>) = sim_inv m key C r"
  by (simp add: sim_inv_def sim_shape_def sim_contents_def sim_ring_def)

lemma sim_step_inv:
  assumes "sim_inv m key C (fst s)" "\<forall>f \<in> set (snd s). sim_frame_of m key C (rx_bytes f)"
    and "key = None \<or> key = Some aes" "sim_configs [e] \<subseteq> C"
  shows "sim_inv m key C (fst (sim_step m aes e s)) \<and> (\<forall>f \<in> set (snd (sim_step m aes e s)). sim_frame_of m key C (rx_bytes f))"
proof (cases e)
  case (SetSimPeer cfg now)
  then have "cfg \<in> C" using assms(4) by (simp add: sim_configs_def)
  with SetSimPeer assms show ?thesis by (simp add: sim_step_def setPeer_inv)
next
  case PopSimFrame
  with assms pop_inv [OF assms(1)] show ?thesis
    by (auto simp: sim_step_def split: prod.split option.splits)
qed (use assms in \<open>simp_all add: sim_step_def removePeer_inv clear_inv sim_apply_def Let_def enabled_inv sim_loop_def service_inv\<close>)

lemma sim_begin_inv: "sim_inv m (if crypto then Some aes else None) C (sim_begin crypto interval SimRadio)"
  by (simp add: sim_begin_def sim_inv_def sim_contents_clear) (simp add: sim_clear_def SimRadio_def sim_shape_def)

text \<open>C34: A simulated aircraft cannot be mistaken for anything but what was asked for: over any life of
  the simulator, every frame it hands up is the announcement of a peer that was set up with a nonzero
  UID, or its position at some time of its path, with a fix; with a cipher it is sealed for that UID
  under the group key, without one it is the plain packet. Nothing of another peer, of an emptied
  queue or of an overwritten slot comes out.\<close>

theorem sim_frames_authentic:
  assumes "f \<in> set (snd (fold (sim_step m aes) events (sim_begin crypto interval SimRadio, [])))"
  shows "\<exists>p announce now. sp_cfg p \<in> sim_configs events \<and> sc_uid (sp_cfg p) \<noteq> 0 \<and>
    (if crypto then sealed aes (sc_uid (sp_cfg p)) (sp_counter p) (sim_packet m p announce now) =
        Some (take (unat (rx_len f)) (rx_data f))
     else take (unat (rx_len f)) (rx_data f) = sim_packet m p announce now)"
proof -
  let ?key = "if crypto then Some aes else None" and ?C = "sim_configs events"
  let ?P = "\<lambda>s. sim_inv m ?key ?C (fst s) \<and> (\<forall>f \<in> set (snd s). sim_frame_of m ?key ?C (rx_bytes f))"
  have "?P (fold (sim_step m aes) events (sim_begin crypto interval SimRadio, []))"
  proof (rule fold_invariant [where Q = "\<lambda>e. e \<in> set events"])
    fix e s assume e: "e \<in> set events" and s: "?P s"
    have "sim_configs [e] \<subseteq> ?C" using e by (auto simp: sim_configs_def)
    with s show "?P (sim_step m aes e s)" using sim_step_inv [of m ?key ?C s aes e] by simp
  qed (simp_all add: sim_begin_inv)
  with assms have "sim_frame_of m ?key ?C (rx_bytes f)" by blast
  then show ?thesis by (cases crypto) (auto simp: sim_frame_of_def rx_bytes_def)
qed

section \<open>The first frame of a peer\<close>

lemma emit_shape:
  assumes "sim_shape r"
  shows "sim_shape (emit m aes i a now r) \<and> (\<exists>fs. sim_contents (emit m aes i a now r) = sim_contents r @ fs) \<and>
    sr_crypto (emit m aes i a now r) = sr_crypto r"
proof (cases "sim_queue_full r")
  case False
  obtain p bytes where s: "sim_seal m (if sr_crypto r then Some aes else None) (sr_peers r ! i) a now = (p, bytes)" by fastforce
  let ?r = "r\<lparr>sr_peers := (sr_peers r)[i := p]\<rparr>"
  have "sim_shape ?r" "\<not> sim_queue_full ?r" using assms False by (simp_all add: sim_queue_full_def)
  moreover have "sr_crypto (sim_enqueue f ?r) = sr_crypto r" for f by (simp add: sim_enqueue_def)
  ultimately show ?thesis
    using False sim_shape_ops(1) sim_contents_enqueue by (simp add: emit_def s Let_def)
qed (use assms in \<open>simp add: emit_def\<close>)

lemma emit_first:
  assumes "sim_shape r" "sim_contents r = []" "sr_head r = sr_tail r" "i < length (sr_peers r)"
    "sim_seal m (if sr_crypto r then Some aes else None) (sr_peers r ! i) a now = (p, bytes)" "bytes \<noteq> []" "length bytes \<le> 36"
  shows "\<exists>f. sim_contents (emit m aes i a now r) = [f] \<and> rx_bytes f = bytes \<and> length (rx_data f) \<ge> length bytes \<and>
    unat (rx_len f) = length bytes"
proof -
  let ?r = "r\<lparr>sr_peers := (sr_peers r)[i := p]\<rparr>"
  let ?f = "\<lparr>rx_timestamp_ms = now, rx_rssi = sim_rssi p, rx_len = of_nat (length bytes),
      rx_data = bytes @ drop (length bytes) (rx_data (sr_queue r ! sr_head r))\<rparr>"
  have n: "\<not> sim_queue_full r" "\<not> sim_queue_full ?r" using assms(1,3)
    by (simp_all add: sim_queue_full_def sim_shape_def mod_Suc)
  have "emit m aes i a now r = sim_enqueue ?f ?r" using n assms by (simp add: emit_def Let_def)
  then have "sim_contents (emit m aes i a now r) = [?f]" using sim_contents_enqueue [of ?r ?f] assms(1,2) n by simp
  with assms(7) show ?thesis by (intro exI [of _ ?f]) (simp add: rx_bytes_def unat_of_nat_small)
qed

definition new_peer :: "sim_peer_config \<Rightarrow> u32 \<Rightarrow> sim_peer" where
  "new_peer cfg t = \<lparr>sp_cfg = cfg, sp_start_ms = t, sp_next_tx_ms = t, sp_counter = 0, sp_announced = False\<rparr>"

lemma first_frame:
  assumes "length (sr_queue r) = 8" "sr_crypto r" "sc_uid cfg \<noteq> 0"
    and pop: "sim_popRx (sim_service m aes t (fst (setPeer cfg t (sim_clear r)))) = (s, f)"
  obtains x where "f = Some x" "sealed aes (sc_uid cfg) 1 (sim_packet m (new_peer cfg t) True t) = Some (rx_bytes x)"
    "unat (rx_len x) \<le> length (rx_data x)" "length (sr_queue s) = 8" "sr_crypto s"
proof -
  let ?p = "(new_peer cfg t)\<lparr>sp_next_tx_ms := t + sr_interval_ms r, sp_announced := True\<rparr>"
  let ?r = "(sim_clear r)\<lparr>sr_peers := [?p]\<rparr>"
  let ?e = "emit m aes 0 True t ?r"
  have v: "sim_service m aes t (fst (setPeer cfg t (sim_clear r))) = emit m aes 0 False t ?e"
    using assms(3) by (simp add: sim_service_def setPeer_def sim_clear_def sim_service_peer_def new_peer_def Let_def)
  have r: "sim_shape ?r" "sr_crypto ?r" "sim_contents ?r = []" "sr_head ?r = sr_tail ?r"
    using assms(1,2) by (simp_all add: sim_contents_clear) (simp_all add: sim_clear_def sim_shape_def)
  have pk: "sim_packet m ?p True t = sim_packet m (new_peer cfg t) True t" by (simp add: sim_packet_def)
  obtain b where b: "sealed aes (sc_uid cfg) 1 (sim_packet m (new_peer cfg t) True t) = Some b"
    "length b = length (sim_packet m (new_peer cfg t) True t) + 10" "sim_seal m (Some aes) ?p True t = (?p\<lparr>sp_counter := 1\<rparr>, b)"
    using sim_seal_sealed [of aes ?p m True t] unfolding pk by (auto simp: new_peer_def)
  have lb: "b \<noteq> []" "length b \<le> 36" using b(2) sim_packet_bytes [of m "new_peer cfg t" True t] by auto
  obtain x where x: "sim_contents ?e = [x]" "rx_bytes x = b" "length b \<le> length (rx_data x)" "unat (rx_len x) = length b"
    using emit_first [of ?r 0 m aes True t "?p\<lparr>sp_counter := 1\<rparr>" b] r b(3) lb by auto
  note e = emit_shape [OF r(1), of m aes 0 True t]
  note g = emit_shape [OF conjunct1 [OF e], of m aes 0 False t]
  then obtain fs where c: "sim_contents (emit m aes 0 False t ?e) = x # fs" using x(1) by auto
  have "f = Some x" using sim_queue.pop_contents [OF conjunct1 [OF g]] c pop by (simp add: v)
  moreover have "length (sr_queue s) = 8 \<and> sr_crypto s"
  proof -
    have s: "s = fst (sim_popRx (emit m aes 0 False t ?e))" using pop by (simp add: v)
    have q: "sr_crypto (fst (sim_popRx y)) = sr_crypto y" for y by (simp add: sim_popRx_def)
    have "sim_shape s" unfolding s using sim_shape_ops(2) g by blast
    moreover have "sr_crypto s" unfolding s q using g e r(2) by simp
    ultimately show ?thesis by (simp add: sim_shape_def)
  qed
  ultimately show ?thesis using x b(1) by (intro that [of x]) simp_all
qed

definition sample_key :: aes128 where "sample_key = cc_aes (cc_begin CcmCrypto 8 (replicate 16 9) 0)"

theorem sim_frames_authentic_witness:
  "let s = fold (sim_step sample_libm sample_key) [SetSimPeer sample_hex 5, SimLoop True 5, PopSimFrame] (sim_begin True 200 SimRadio, [])
   in \<exists>f. f \<in> set (snd s) \<and> (\<exists>p announce now. sc_uid (sp_cfg p) \<noteq> 0 \<and>
        sealed sample_key (sc_uid (sp_cfg p)) (sp_counter p) (sim_packet sample_libm p announce now) =
          Some (take (unat (rx_len f)) (rx_data f)))"
proof -
  let ?es = "[SetSimPeer sample_hex 5, SimLoop True 5, PopSimFrame]"
  have b: "sim_begin True 200 SimRadio = sim_clear (SimRadio\<lparr>sr_crypto := True\<rparr>)"
    by (simp add: sim_begin_def sim_clear_def SimRadio_def)
  obtain r f where p: "sim_popRx (sim_service sample_libm sample_key 5 (fst (setPeer sample_hex 5 (sim_begin True 200 SimRadio)))) = (r, f)"
    by fastforce
  obtain x where "f = Some x"
    by (rule first_frame [OF _ _ _ p [unfolded b]]) (simp_all add: SimRadio_def sample_hex_def)
  with p have "x \<in> set (snd (fold (sim_step sample_libm sample_key) ?es (sim_begin True 200 SimRadio, [])))"
    by (simp add: sim_step_def sim_loop_def)
  with sim_frames_authentic [OF this] show ?thesis by auto
qed

section \<open>Generated UIDs\<close>

text \<open>After one of two simulated peers is removed, the next peer posted without a UID is given that of
  the other, and replaces it.\<close>

lemma generated_uid_replaces:
  assumes "sr_peers r = [p]" "sc_uid (sp_cfg p) = 0x5EED0002"
    and "sj_str api json ''uid'' = None" "sj_str api json ''mode'' = None" "sj_dbl api json ''speed_ms'' = None"
  shows "snd (simPost api True json now r) = 200 \<and>
    map sp_cfg (sr_peers (fst (simPost api True json now r))) = [requested_peer api json r SimStatic]"
proof -
  have z: "strtoul16 (cstr []) = 0" by (simp add: strtoul16_def cstr_def)
  have "(0x5EED0000 OR 2 :: u32) = 0x5EED0002" by code_simp
  then have u: "sc_uid (requested_peer api json r SimStatic) = 0x5EED0002"
    using assms by (simp add: requested_peer_def Let_def or_else_def z)
  have s: "sc_speed_ms (requested_peer api json r SimStatic) = 0" "sc_mode (requested_peer api json r SimStatic) = SimStatic"
    using assms(5) by (simp_all add: requested_peer_def Let_def or_else_def)
  have m: "simModeFromName (or_else (sj_str api json ''mode'') (ascii ''static'')) = Some SimStatic"
    unfolding assms(4) or_else_def by code_simp
  show ?thesis using assms(1,2) u s by (simp add: simPost_def m Let_def setPeer_def)
qed

end
