(* ===== verification/Sim_Replay.thy ===== *)
theory Sim_Replay
  imports Sim_Frames
begin

text \<open>
  The counters of a simulated peer, and what a node makes of them: a peer that is removed and set up
  again starts its counter over, so that those who heard it refuse as many of its frames as they heard.
\<close>

section \<open>What a node makes of a run of counters\<close>

text \<open>A node that has heard the counters up to \<open>n\<close> of a sender, the last of them at \<open>t\<close>.\<close>

definition heard_upto :: "ccm_crypto \<Rightarrow> u32 \<Rightarrow> nat \<Rightarrow> u32 \<Rightarrow> bool" where
  "heard_upto c u n t \<longleftrightarrow> cc_inv c \<and>
     (if n = 0 then slot_find rs_uid rs_used u (cc_replay_slots c) = None
      else \<exists>i. slot_find rs_uid rs_used u (cc_replay_slots c) = Some i \<and>
             window_rel (cc_replay_slots c ! i) {1..n} \<and> rs_last_ms (cc_replay_slots c ! i) = t)"

lemma heard_upto_flag [simp]: "heard_upto (c\<lparr>cc_last_reject_replay := b\<rparr>) = heard_upto c"
  by (simp add: fun_eq_iff heard_upto_def)

lemma window_rel_newest: "window_rel s {1..n} \<Longrightarrow> unat (rs_high s) = n"
  by (auto simp: window_rel_def dest: bspec [of _ _ n] intro: antisym)

lemma acceptCounter_refused: "\<not> snd (acceptCounter s k r) \<Longrightarrow> fst (acceptCounter s k r) = s"
  unfolding acceptCounter_def Let_def by (auto split: if_splits)

text \<open>The next counter is accepted, and one of those heard is refused and leaves the table as it is.\<close>

lemma replay_check_next:
  assumes h: "heard_upto c u n t" and soon: "n = 0 \<or> age_ms now t \<le> kReplayResyncMs" and n: "Suc n < 2 ^ 32"
  obtains d where "replay_check c u (of_nat (Suc n)) now = (d, True)" "heard_upto d u (Suc n) now"
proof -
  let ?k = "of_nat (Suc n) :: u32"
  have inv: "cc_inv c" using h by (simp add: heard_upto_def)
  have uk: "unat ?k = Suc n" using n by (simp add: unat_of_nat_small del: of_nat_Suc)
  obtain d i fresh where s: "slotFor c u now = (d, i, fresh)" by (metis prod_cases3)
  note f = slotFor_found [OF inv s]
  let ?old = "cc_replay_slots d ! i"
  let ?reset = "fresh \<or> age_ms now (rs_last_ms ?old) > kReplayResyncMs"
  have acc: "snd (acceptCounter ?old ?k ?reset) \<and> window_rel (fst (acceptCounter ?old ?k ?reset)) {1..Suc n}"
  proof (cases "n = 0")
    case True
    then have "?reset" using h f(7) by (simp add: heard_upto_def)
    with window_reset [of ?old ?k] True uk show ?thesis by (simp add: acceptCounter_def)
  next
    case False
    then have "\<not> fresh" "d = c" using h f(7,8) by (auto simp: heard_upto_def)
    with False h f(6) have w: "window_rel ?old {1..n}" "rs_last_ms ?old = t" by (auto simp: heard_upto_def)
    have "?reset = False" using False soon \<open>\<not> fresh\<close> w(2) by auto
    moreover have "insert (unat ?k) {1..n} = {1..Suc n}" unfolding uk by auto
    ultimately show ?thesis
      using window_newer [OF w(1), of ?k] window_rel_newest [OF w(1)] uk by simp
  qed
  then obtain slot where a: "acceptCounter ?old ?k ?reset = (slot, True)" and w: "window_rel slot {1..Suc n}"
    by (cases "acceptCounter ?old ?k ?reset") auto
  let ?slot = "slot\<lparr>rs_last_ms := now\<rparr>"
  let ?c = "d\<lparr>cc_replay_slots := (cc_replay_slots d)[i := ?slot]\<rparr>"
  have r: "replay_check c u ?k now = (?c, True)" unfolding replay_check_def Let_def s prod.case a by simp
  have k: "rs_uid slot = u" "rs_used slot" using acceptCounter_keeps [of ?old ?k ?reset] a f(3,4) by simp_all
  have i: "i < length (cc_replay_slots d)" using f(1,2) by (simp add: cc_inv_def)
  have cl: "slot_claimable rs_uid rs_used (rs_uid ?slot) i (cc_replay_slots d)"
    using f(6) i k by (simp add: slot_claimable_def)
  have ds: "slots_distinct rs_uid rs_used (cc_replay_slots d)" using f(1) by (simp add: cc_inv_def)
  have "slot_find rs_uid rs_used u (cc_replay_slots ?c) = Some i"
    using replays.find_update_same [OF ds cl] k by simp
  moreover have "cc_inv ?c" using replay_check_inv [OF inv, of u ?k now] r by simp
  ultimately have "heard_upto ?c u (Suc n) now" using i w by (simp add: heard_upto_def window_rel_def)
  with r show ?thesis by (rule that)
qed

lemma replay_check_known:
  assumes h: "heard_upto c u n t" and soon: "age_ms now t \<le> kReplayResyncMs" and k: "1 \<le> k" "k \<le> n" "n < 2 ^ 32"
  obtains d where "replay_check c u (of_nat k) now = (d, False)" "heard_upto d u n t"
proof -
  have n: "n \<noteq> 0" using k by simp
  then obtain i where i: "slot_find rs_uid rs_used u (cc_replay_slots c) = Some i"
    "window_rel (cc_replay_slots c ! i) {1..n}" "rs_last_ms (cc_replay_slots c ! i) = t"
    using h by (auto simp: heard_upto_def)
  have inv: "cc_inv c" using h by (simp add: heard_upto_def)
  have uk: "unat (of_nat k :: u32) = k" using k by (simp add: unat_of_nat_small)
  obtain d j fresh where s: "slotFor c u now = (d, j, fresh)" by (metis prod_cases3)
  note f = slotFor_found [OF inv s]
  have d: "\<not> fresh" "d = c" "j = i" using i(1) f(6,7,8) by auto
  have "\<not> snd (acceptCounter (cc_replay_slots c ! i) (of_nat k) False)"
    using window_older(1) [OF i(2), of "of_nat k"] window_rel_newest [OF i(2)] uk k by (simp add: window_accepts_def)
  then have a: "acceptCounter (cc_replay_slots c ! i) (of_nat k) False = (cc_replay_slots c ! i, False)"
    using acceptCounter_refused by (metis prod.collapse)
  have "\<not> kReplayResyncMs < age_ms now (rs_last_ms (cc_replay_slots c ! i))" using soon i(3) by simp
  then have "replay_check c u (of_nat k) now =
      (c\<lparr>cc_replay_slots := (cc_replay_slots c)[i := cc_replay_slots c ! i], cc_replay := cc_replay c + 1,
         cc_last_reject_replay := True\<rparr>, False)"
    unfolding replay_check_def Let_def s prod.case d using a d(1) by simp
  moreover have "heard_upto (c\<lparr>cc_replay_slots := (cc_replay_slots c)[i := cc_replay_slots c ! i],
      cc_replay := cc_replay c + 1, cc_last_reject_replay := True\<rparr>) u n t"
    using h by (simp add: heard_upto_def cc_inv_def del: One_nat_def)
  ultimately show ?thesis by (rule that)
qed

section \<open>What a node makes of a run of frames\<close>

text \<open>The verdicts of a node on frames that reach it at the given times.\<close>

fun node_hears :: "ccm_crypto \<Rightarrow> (rx_frame \<times> u32) list \<Rightarrow> bool list" where
  "node_hears b [] = []"
| "node_hears b ((f, now) # fs) =
     (case cc_decrypt b (rx_data f) (unat (rx_len f)) now of
        (b', _, heard) \<Rightarrow> (heard \<noteq> None) # node_hears b' fs)"

text \<open>Frames of a peer, and that a frame is the one with a given number.\<close>

definition frame_of_peer :: "aes128 \<Rightarrow> u32 \<Rightarrow> rx_frame \<Rightarrow> bool" where
  "frame_of_peer aes u f \<longleftrightarrow> (case opened aes (rx_bytes f) of None \<Rightarrow> False | Some (_, v, _) \<Rightarrow> v = u)"

definition numbered :: "aes128 \<Rightarrow> u32 \<Rightarrow> rx_frame \<Rightarrow> nat \<Rightarrow> bool" where
  "numbered aes u f k \<longleftrightarrow> unat (rx_len f) \<le> length (rx_data f) \<and>
     (\<exists>packet. opened aes (rx_bytes f) = Some (packet, u, of_nat k))"

lemma numbered_decrypt:
  assumes "numbered (cc_aes b) u f k" "replay_check (b\<lparr>cc_last_reject_replay := False\<rparr>) u (of_nat k) now = (d, ok)"
  shows "\<exists>x h. cc_decrypt b (rx_data f) (unat (rx_len f)) now = (d, x, h) \<and> (h \<noteq> None \<longleftrightarrow> ok) \<and> cc_aes d = cc_aes b"
proof -
  obtain packet where o: "opened (cc_aes b) (take (unat (rx_len f)) (rx_data f)) = Some (packet, u, of_nat k)"
    using assms(1) by (auto simp: numbered_def rx_bytes_def)
  have l: "unat (rx_len f) \<le> length (rx_data f)" using assms(1) by (simp add: numbered_def)
  have "cc_aes d = cc_aes b"
    using cc_decrypt_aes [of "b\<lparr>cc_last_reject_replay := False\<rparr>" u "of_nat k" now] assms(2) by simp
  with cc_decrypt_opened [OF l o assms(2)] show ?thesis by auto
qed

abbreviation soon_after :: "u32 \<Rightarrow> u32 \<Rightarrow> bool" where
  "soon_after t t' \<equiv> age_ms t' t \<le> kReplayResyncMs"

lemma hears_next:
  assumes "heard_upto b u n t" "n = 0 \<or> successively soon_after (t # ts)" "successively soon_after ts"
    and "list_all2 (numbered (cc_aes b) u) fs [Suc n..<Suc (n + length fs)]" "length ts = length fs" "n + length fs < 2 ^ 32"
  shows "\<exists>b'. heard_upto b' u (n + length fs) (last (t # ts)) \<and> cc_aes b' = cc_aes b \<and>
    node_hears b (zip fs ts @ rest) = replicate (length fs) True @ node_hears b' rest"
  using assms
proof (induction fs arbitrary: b n t ts)
  case Nil
  then show ?case by auto
next
  case (Cons f fs)
  then obtain t' ts' where ts: "ts = t' # ts'" by (cases ts) auto
  have up: "[Suc n..<Suc (n + length (f # fs))] = Suc n # [Suc (Suc n)..<Suc (Suc n + length fs)]"
    by (subst upt_conv_Cons) simp_all
  have f: "numbered (cc_aes b) u f (Suc n)" "list_all2 (numbered (cc_aes b) u) fs [Suc (Suc n)..<Suc (Suc n + length fs)]"
    using Cons.prems(4) unfolding up by simp_all
  have h: "heard_upto (b\<lparr>cc_last_reject_replay := False\<rparr>) u n t" using Cons.prems(1) by simp
  obtain d where d: "replay_check (b\<lparr>cc_last_reject_replay := False\<rparr>) u (of_nat (Suc n)) t' = (d, True)"
    "heard_upto d u (Suc n) t'"
    by (rule replay_check_next [OF h]) (use Cons.prems(2,6) ts in auto)
  obtain x h where c: "cc_decrypt b (rx_data f) (unat (rx_len f)) t' = (d, x, h)" "h \<noteq> None" "cc_aes d = cc_aes b"
    using numbered_decrypt [OF f(1) d(1)] by auto
  have "successively soon_after (t' # ts')" using Cons.prems(3) ts by simp
  then have "\<exists>b'. heard_upto b' u (Suc n + length fs) (last (t' # ts')) \<and> cc_aes b' = cc_aes d \<and>
      node_hears d (zip fs ts' @ rest) = replicate (length fs) True @ node_hears b' rest"
    using Cons.prems(5,6) ts f(2) c(3) by (intro Cons.IH d(2)) (auto simp: successively_Cons)
  with c ts show ?case by auto
qed

lemma hears_again:
  assumes "heard_upto b u n t" "\<forall>t' \<in> set ts. age_ms t' t \<le> kReplayResyncMs" "n < 2 ^ 32"
    and "list_all2 (numbered (cc_aes b) u) fs ks" "\<forall>k \<in> set ks. 1 \<le> k \<and> k \<le> n" "length fs \<le> length ts"
  shows "node_hears b (zip fs ts) = replicate (length fs) False"
  using assms
proof (induction fs arbitrary: b ts ks)
  case (Cons f fs)
  then obtain t' ts' k ks' where ts: "ts = t' # ts'" "ks = k # ks'" by (cases ts; cases ks) auto
  have h: "heard_upto (b\<lparr>cc_last_reject_replay := False\<rparr>) u n t" using Cons.prems(1) by simp
  obtain d where d: "replay_check (b\<lparr>cc_last_reject_replay := False\<rparr>) u (of_nat k) t' = (d, False)" "heard_upto d u n t"
    by (rule replay_check_known [OF h, of t' k]) (use Cons.prems ts in auto)
  have "numbered (cc_aes b) u f k" using Cons.prems(4) ts by simp
  from numbered_decrypt [OF this d(1)] obtain x h where
    c: "cc_decrypt b (rx_data f) (unat (rx_len f)) t' = (d, x, h)" "h = None" "cc_aes d = cc_aes b" by auto
  have "node_hears d (zip fs ts') = replicate (length fs) False"
    using Cons.prems ts c(3) by (intro Cons.IH [OF d(2)]) auto
  with c ts show ?case by simp
qed simp

section \<open>The counters of a simulated peer\<close>

text \<open>
  The peer at index \<open>i\<close> is the one with the UID, and the frames that were handed up or wait in the
  queue are numbered from one to its counter.
\<close>

definition peer_at :: "u32 \<Rightarrow> nat \<Rightarrow> nat \<Rightarrow> sim_peer list \<Rightarrow> bool" where
  "peer_at u i n ps \<longleftrightarrow> i < length ps \<and> (\<forall>j < length ps. sc_uid (sp_cfg (ps ! j)) = u \<longleftrightarrow> j = i) \<and> sp_counter (ps ! i) = of_nat n"

definition all_numbered :: "aes128 \<Rightarrow> u32 \<Rightarrow> rx_frame list \<Rightarrow> nat \<Rightarrow> bool" where
  "all_numbered aes u fs n \<longleftrightarrow> list_all2 (numbered aes u) (filter (frame_of_peer aes u) fs) [1..<Suc n]"

definition counted :: "libm \<Rightarrow> aes128 \<Rightarrow> u32 \<Rightarrow> nat \<Rightarrow> rx_frame list \<Rightarrow> sim_radio \<Rightarrow> bool" where
  "counted m aes u i out r \<longleftrightarrow> sim_inv m (Some aes) UNIV r \<and>
     (\<exists>n. peer_at u i n (sr_peers r) \<and> all_numbered aes u (out @ sim_contents r) n)"

lemma counted_update:
  assumes "counted m aes u i out r" "j < length (sr_peers r)" "sp_cfg p = sp_cfg (sr_peers r ! j)"
    "sp_counter p = sp_counter (sr_peers r ! j)"
  shows "counted m aes u i out (r\<lparr>sr_peers := (sr_peers r)[j := p]\<rparr>)"
  using assms sim_inv_peer [of m "Some aes" UNIV r j p]
  by (auto simp: counted_def peer_at_def nth_list_update)

text \<open>What is queued is the next packet of the peer.\<close>

lemma emit_numbered:
  assumes "sim_inv m (Some aes) C r" "j < length (sr_peers r)"
  defines "p \<equiv> sr_peers r ! j"
  shows "sim_queue_full r \<and> emit m aes j a now r = r \<or>
    (\<exists>f packet. sim_contents (emit m aes j a now r) = sim_contents r @ [f] \<and>
       sr_peers (emit m aes j a now r) = (sr_peers r)[j := p\<lparr>sp_counter := sp_counter p + 1\<rparr>] \<and>
       unat (rx_len f) \<le> length (rx_data f) \<and>
       opened aes (rx_bytes f) = Some (packet, sc_uid (sp_cfg p), sp_counter p + 1))"
proof (cases "sim_queue_full r")
  case True
  then show ?thesis by (simp add: emit_def)
next
  case False
  let ?p = "p\<lparr>sp_counter := sp_counter p + 1\<rparr>" and ?b = "sim_packet m p a now"
  obtain b where b: "sealed aes (sc_uid (sp_cfg p)) (sp_counter p + 1) ?b = Some b" "length b = length ?b + 10"
    "sim_seal m (Some aes) p a now = (?p, b)" using sim_seal_sealed by blast
  note l = sim_packet_bytes [of m p a now]
  have lb: "b \<noteq> []" "length b \<le> 36" using b(2) l by auto
  let ?r = "r\<lparr>sr_peers := (sr_peers r)[j := ?p]\<rparr>"
  let ?f = "\<lparr>rx_timestamp_ms = now, rx_rssi = sim_rssi ?p, rx_len = of_nat (length b),
      rx_data = b @ drop (length b) (rx_data (sr_queue r ! sr_head r))\<rparr>"
  have k: "sr_crypto r" "sim_shape r" using assms(1) by (simp_all add: sim_inv_def)
  have e: "emit m aes j a now r = sim_enqueue ?f ?r" using False lb b(3) k by (simp add: emit_def Let_def p_def)
  have "\<not> sim_queue_full ?r" using False by (simp add: sim_queue_full_def)
  then have c: "sim_contents (emit m aes j a now r) = sim_contents r @ [?f]"
    unfolding e using sim_contents_enqueue [of ?r ?f] k by simp
  have f: "rx_bytes ?f = b" "unat (rx_len ?f) \<le> length (rx_data ?f)" using lb by (simp_all add: rx_bytes_def unat_of_nat_small)
  have "opened aes b = Some (?b, sc_uid (sp_cfg p), sp_counter p + 1)" unfolding opened_iff_sealed using l b(1) by simp
  moreover have "sr_peers (emit m aes j a now r) = (sr_peers r)[j := ?p]" unfolding e by (simp add: sim_enqueue_def)
  ultimately show ?thesis using c f by metis
qed

lemma counted_emit:
  assumes c: "counted m aes u i out r" and j: "j < length (sr_peers r)"
  shows "counted m aes u i out (emit m aes j a now r) \<and> length (sr_peers (emit m aes j a now r)) = length (sr_peers r)"
proof -
  let ?e = "emit m aes j a now r" and ?p = "sr_peers r ! j"
  have inv: "sim_inv m (Some aes) UNIV r" using c by (simp add: counted_def)
  note e = emit_inv [OF inv j, of aes a now, simplified]
  obtain n where n: "peer_at u i n (sr_peers r)" "all_numbered aes u (out @ sim_contents r) n" using c by (auto simp: counted_def)
  show ?thesis
  proof (cases "?e = r")
    case True
    with c show ?thesis by simp
  next
    case False
    with emit_numbered [OF inv j, of a now] obtain f packet where
      f: "sim_contents ?e = sim_contents r @ [f]" "sr_peers ?e = (sr_peers r)[j := ?p\<lparr>sp_counter := sp_counter ?p + 1\<rparr>]"
      "unat (rx_len f) \<le> length (rx_data f)" "opened aes (rx_bytes f) = Some (packet, sc_uid (sp_cfg ?p), sp_counter ?p + 1)"
      by blast
    let ?n = "if j = i then Suc n else n"
    have "peer_at u i ?n (sr_peers ?e)" using n(1) j unfolding f(2) by (auto simp: peer_at_def nth_list_update)
    moreover have "all_numbered aes u (out @ sim_contents ?e) ?n"
    proof (cases "j = i")
      case True
      then have "sc_uid (sp_cfg ?p) = u" "sp_counter ?p + 1 = of_nat (Suc n)" using n(1) j by (auto simp: peer_at_def)
      then have "frame_of_peer aes u f" "numbered aes u f (Suc n)" using f(3,4) by (simp_all add: frame_of_peer_def numbered_def)
      moreover have "[1..<Suc (Suc n)] = [1..<Suc n] @ [Suc n]" by simp
      ultimately show ?thesis using n(2) True unfolding f(1) all_numbered_def 
        by (simp add: list_all2_appendI del: upt_Suc append_assoc flip: append_assoc)
    next
      case False
      then have "\<not> frame_of_peer aes u f" using n(1) j f(4) by (auto simp: peer_at_def frame_of_peer_def)
      with False n(2) show ?thesis unfolding f(1) all_numbered_def by simp
    qed
    ultimately show ?thesis using e unfolding counted_def by blast
  qed
qed

lemma counted_service:
  assumes "counted m aes u i out r"
  shows "counted m aes u i out (sim_service m aes now r)"
proof -
  have peer: "counted m aes u i out (sim_service_peer m aes now j r) \<and>
      length (sr_peers (sim_service_peer m aes now j r)) = length (sr_peers r)"
    if c: "counted m aes u i out r" and j: "j < length (sr_peers r)" for r j
  proof (cases "sint (now - sp_next_tx_ms (sr_peers r ! j)) < 0")
    case True
    with c show ?thesis by (simp add: sim_service_peer_def)
  next
    case False
    let ?p = "(sr_peers r ! j)\<lparr>sp_next_tx_ms := now + sr_interval_ms r\<rparr>"
    let ?r = "r\<lparr>sr_peers := (sr_peers r)[j := ?p]\<rparr>"
    let ?s = "?r\<lparr>sr_peers := (sr_peers ?r)[j := ?p\<lparr>sp_announced := True\<rparr>]\<rparr>"
    have r: "counted m aes u i out ?r" by (rule counted_update [OF c j]) simp_all
    have s: "counted m aes u i out ?s" by (rule counted_update [OF r]) (use j in simp_all)
    let ?t = "if sp_announced (sr_peers r ! j) then ?r else emit m aes j True now ?s"
    have t: "counted m aes u i out ?t \<and> length (sr_peers ?t) = length (sr_peers r)"
      using r counted_emit [OF s, of j True now] j by simp
    have "sim_service_peer m aes now j r = emit m aes j False now ?t"
      using False j by (simp add: sim_service_peer_def Let_def)
    with counted_emit [of m aes u i out ?t j False now] t j show ?thesis by simp
  qed
  have "counted m aes u i out r \<Longrightarrow> \<forall>j \<in> set js. j < length (sr_peers r) \<Longrightarrow>
      counted m aes u i out (fold (sim_service_peer m aes now) js r)" for js r
    by (induction js arbitrary: r) (use peer in simp_all)
  from this [OF assms, of "[0..<length (sr_peers r)]"] show ?thesis by (simp add: sim_service_def)
qed

lemma counted_pop:
  assumes "counted m aes u i out r" "sim_popRx r = (r', f)"
  shows "counted m aes u i (out @ (case f of None \<Rightarrow> [] | Some x \<Rightarrow> [x])) r'"
proof -
  have inv: "sim_inv m (Some aes) UNIV r" "sim_shape r" using assms(1) by (simp_all add: counted_def sim_inv_def)
  have "sr_peers r' = sr_peers r" using assms(2) by (auto simp: sim_popRx_def split: if_splits)
  moreover have "sim_inv m (Some aes) UNIV r'" using pop_inv [OF inv(1)] assms(2) by simp
  moreover have "out @ (case f of None \<Rightarrow> [] | Some x \<Rightarrow> [x]) @ sim_contents r' = out @ sim_contents r"
    using sim_queue.pop_contents [OF inv(2)] assms(2) by (auto split: list.splits)
  ultimately show ?thesis using assms(1) unfolding counted_def by simp
qed

text \<open>The main loop and the hub, with nobody changing the peers.\<close>

definition undisturbed :: "sim_event \<Rightarrow> bool" where
  "undisturbed e \<longleftrightarrow> (case e of SimLoop _ _ \<Rightarrow> True | PopSimFrame \<Rightarrow> True | _ \<Rightarrow> False)"

lemma counted_life:
  "list_all undisturbed es \<Longrightarrow> counted m aes u i out r \<Longrightarrow> fold (sim_step m aes) es (r, out) = (r', out') \<Longrightarrow>
     counted m aes u i out' r'"
proof (induction es arbitrary: r out)
  case (Cons e es)
  obtain r1 out1 where s: "sim_step m aes e (r, out) = (r1, out1)" by fastforce
  have "counted m aes u i out1 r1"
  proof (cases e)
    case (SimLoop on now)
    with s Cons.prems(2) counted_service [of m aes u i out r now] show ?thesis by (auto simp: sim_step_def sim_loop_def)
  next
    case PopSimFrame
    with s counted_pop [OF Cons.prems(2)] show ?thesis by (auto simp: sim_step_def split: prod.splits)
  qed (use Cons.prems(1) in \<open>simp_all add: undisturbed_def\<close>)
  with Cons s show ?case by simp
qed simp

lemma drained: "sim_inv m key C r \<Longrightarrow> snd (sim_popRx r) = None \<Longrightarrow> sim_contents r = []"
  using sim_queue.pop_contents [of r] by (auto simp: sim_inv_def split: list.splits)

text \<open>A peer that is set up from scratch, in a simulator whose frames were all handed up.\<close>

lemma counted_new:
  assumes "sim_inv m (Some aes) UNIV r" "sim_contents r = []" "\<forall>p \<in> set (sr_peers r). sc_uid (sp_cfg p) \<noteq> sc_uid cfg"
    "length (sr_peers r) < 4" "sc_uid cfg \<noteq> 0"
  shows "counted m aes (sc_uid cfg) (length (sr_peers r)) [] (fst (setPeer cfg t r))"
proof -
  have "first_idx (\<lambda>p. sc_uid (sp_cfg p) = sc_uid cfg) (sr_peers r) = None" using assms(3) by simp
  then have s: "fst (setPeer cfg t r) = r\<lparr>sr_peers := sr_peers r @ [\<lparr>sp_cfg = cfg, sp_start_ms = t, sp_next_tx_ms = t,
      sp_counter = 0, sp_announced = False\<rparr>]\<rparr>" using assms(4,5) by (simp add: setPeer_def del: first_idx_None)
  have "sc_uid (sp_cfg (sr_peers r ! j)) \<noteq> sc_uid cfg" if "j < length (sr_peers r)" for j using assms(3) that by simp
  then have "peer_at (sc_uid cfg) (length (sr_peers r)) 0 (sr_peers (fst (setPeer cfg t r)))"
    unfolding s by (auto simp: peer_at_def nth_append less_Suc_eq)
  moreover have "all_numbered aes (sc_uid cfg) ([] @ sim_contents (fst (setPeer cfg t r))) 0"
    unfolding s using assms(2) by (simp add: all_numbered_def)
  moreover have "sim_inv m (Some aes) UNIV (fst (setPeer cfg t r))" by (rule setPeer_inv) (use assms(1) in simp_all)
  ultimately show ?thesis unfolding counted_def by blast
qed

lemma counted_removed:
  assumes "counted m aes u i out r"
  shows "(\<forall>p \<in> set (sr_peers (fst (removePeer u r))). sc_uid (sp_cfg p) \<noteq> u) \<and>
    length (sr_peers (fst (removePeer u r))) < 4 \<and> sim_contents (fst (removePeer u r)) = sim_contents r"
proof -
  let ?P = "\<lambda>p. sc_uid (sp_cfg p) = u"
  obtain n where p: "peer_at u i n (sr_peers r)" and l: "length (sr_peers r) \<le> 4"
    using assms by (auto simp: counted_def sim_inv_def)
  then have i: "i < length (sr_peers r)" "?P (sr_peers r ! i)" by (auto simp: peer_at_def)
  then obtain k where k: "first_idx ?P (sr_peers r) = Some k"
    by (cases "first_idx ?P (sr_peers r)") (auto dest!: nth_mem)
  from first_idx_SomeD [OF k] have "k < length (sr_peers r)" "?P (sr_peers r ! k)" by auto
  then have ki: "k = i" using p by (auto simp: peer_at_def)
  have "sc_uid (sp_cfg q) \<noteq> u" if q: "q \<in> set (take i (sr_peers r) @ drop (Suc i) (sr_peers r))" for q
  proof -
    from q consider "q \<in> set (take i (sr_peers r))" | "q \<in> set (drop (Suc i) (sr_peers r))" by auto
    then obtain j where "j < length (sr_peers r)" "j \<noteq> i" "q = sr_peers r ! j"
    proof cases
      case 1
      then obtain j where "j < i" "q = sr_peers r ! j" by (auto simp: in_set_conv_nth)
      with i(1) show ?thesis by (intro that [of j]) simp_all
    next
      case 2
      then obtain k where "k < length (sr_peers r) - Suc i" "q = sr_peers r ! (Suc i + k)" by (auto simp: in_set_conv_nth)
      then show ?thesis by (intro that [of "Suc i + k"]) simp_all
    qed
    with p show ?thesis by (auto simp: peer_at_def)
  qed
  with k ki i l show ?thesis by (auto simp: removePeer_def)
qed

lemma reached_inv:
  assumes "fold (sim_step m aes) events (sim_begin True interval SimRadio, []) = (r, out)"
  shows "sim_inv m (Some aes) UNIV r"
proof -
  let ?P = "\<lambda>s. sim_inv m (Some aes) UNIV (fst s) \<and> (\<forall>f \<in> set (snd s). sim_frame_of m (Some aes) UNIV (rx_bytes f))"
  have "?P (fold (sim_step m aes) events (sim_begin True interval SimRadio, []))"
  proof (rule fold_invariant [where Q = "\<lambda>_. True"])
    show "?P (sim_begin True interval SimRadio, [])" using sim_begin_inv [of m True aes UNIV interval] by simp
    show "?P (sim_step m aes e s)" if "?P s" for e s using sim_step_inv [of m "Some aes" UNIV s aes e] that by simp
  qed simp
  with assms show ?thesis by simp
qed

section \<open>A first beacon\<close>

lemma sim_full_iff: "sim_shape r \<Longrightarrow> sim_queue_full r \<longleftrightarrow> length (sim_contents r) = 7"
  using sim_queue.push_accepts [of r undefined] sim_queue.contents_bound [of r] by (auto simp: sim_push_def split: if_splits)

text \<open>A simulator with one new peer announces it and sends its position at once.\<close>

lemma first_beacon:
  assumes "sim_inv m (Some aes) UNIV r" "sim_contents r = []" "sr_peers r = []" "sc_uid cfg \<noteq> 0"
  obtains s p f g where "fold (sim_step m aes) [SetSimPeer cfg t, SimLoop True t, PopSimFrame, PopSimFrame] (r, []) = (s, [f, g])"
    "frame_of_peer aes (sc_uid cfg) f" "frame_of_peer aes (sc_uid cfg) g" "sim_inv m (Some aes) UNIV s"
    "sim_contents s = []" "sr_peers s = [p]" "sc_uid (sp_cfg p) = sc_uid cfg"
proof -
  let ?p = "\<lparr>sp_cfg = cfg, sp_start_ms = t, sp_next_tx_ms = t + sr_interval_ms r, sp_counter = 0, sp_announced = True\<rparr>"
  let ?r = "r\<lparr>sr_peers := [?p]\<rparr>"
  have ir: "sim_inv m (Some aes) UNIV ?r" by (rule sim_inv_peers [OF assms(1)]) (use assms(4) in simp_all)
  let ?e = "emit m aes 0 True t ?r"
  let ?g = "emit m aes 0 False t ?e"
  have v: "sim_service m aes t (fst (setPeer cfg t r)) = ?g"
    using assms(3,4) by (simp add: sim_service_def setPeer_def sim_service_peer_def Let_def)
  have ie: "sim_inv m (Some aes) UNIV ?e" using emit_inv [OF ir, of 0 aes True t] by simp
  have ig: "sim_inv m (Some aes) UNIV ?g" using emit_inv [OF ie, of 0 aes False t] emit_inv [OF ir, of 0 aes True t] by simp
  have sh: "sim_shape ?r" "sim_shape ?e" using ir ie by (simp_all only: sim_inv_def)
  have "\<not> sim_queue_full ?r" using sim_full_iff [OF sh(1)] assms(2) by simp
  with emit_numbered [OF ir, of 0 True t] obtain f pk where f: "sim_contents ?e = [f]"
    "sr_peers ?e = [?p\<lparr>sp_counter := 1\<rparr>]" "opened aes (rx_bytes f) = Some (pk, sc_uid cfg, 1)"
    using assms(2) by auto
  have "\<not> sim_queue_full ?e" using sim_full_iff [OF sh(2)] f(1) by simp
  with emit_numbered [OF ie, of 0 False t] obtain g pk' where g: "sim_contents ?g = [f, g]"
    "sr_peers ?g = [?p\<lparr>sp_counter := 2\<rparr>]" "opened aes (rx_bytes g) = Some (pk', sc_uid cfg, 2)"
    using f by auto
  have pop: "sim_inv m (Some aes) UNIV (fst (sim_popRx x)) \<and> sr_peers (fst (sim_popRx x)) = sr_peers x \<and>
      snd (sim_popRx x) = Some y \<and> sim_contents (fst (sim_popRx x)) = ys"
    if "sim_inv m (Some aes) UNIV x" "sim_contents x = y # ys" for x y ys
    using pop_inv [OF that(1)] sim_queue.pop_contents [of x] that by (auto simp: sim_inv_def sim_popRx_def)
  obtain r1 where r1: "sim_popRx ?g = (r1, Some f)" "sim_inv m (Some aes) UNIV r1" "sim_contents r1 = [g]" "sr_peers r1 = sr_peers ?g"
    using pop [OF ig g(1)] by (metis prod.collapse)
  obtain r2 where r2: "sim_popRx r1 = (r2, Some g)" "sim_inv m (Some aes) UNIV r2" "sim_contents r2 = []" "sr_peers r2 = sr_peers r1"
    using pop [OF r1(2,3)] by (metis prod.collapse)
  have "fold (sim_step m aes) [SetSimPeer cfg t, SimLoop True t, PopSimFrame, PopSimFrame] (r, []) = (r2, [f, g])"
    using r1(1) r2(1) v by (simp add: sim_step_def sim_loop_def)
  then show ?thesis
    by (rule that [where p = "?p\<lparr>sp_counter := 2\<rparr>"]) (use f g r1 r2 in \<open>simp_all add: frame_of_peer_def\<close>)
qed

section \<open>A peer set up again\<close>

text \<open>C36: A simulated peer that was removed and is set up again, whatever its name, place and path are
  now, is not heard at first: its counter starts over. A node that first meets the peer and gets all
  its frames, none more than ten seconds after the one before, accepts every one of them; of the
  peer set up again under the same UID, once the frames of the old one have all been handed up, it
  then refuses, for ten seconds from the last it accepted, as many frames as it had heard. Other
  peers may be simulated meanwhile.\<close>

theorem readded_peer_refused:
  assumes reached: "fold (sim_step m aes) events (sim_begin True interval SimRadio, []) = (r, before)"
      "snd (sim_popRx r) = None"
    and free: "\<forall>p \<in> set (sr_peers r). sc_uid (sp_cfg p) \<noteq> u" "length (sr_peers r) < kMaxSimPeers" "u \<noteq> 0"
    and peer: "sc_uid cfg = u" "sc_uid cfg' = u"
    and first: "fold (sim_step m aes) (SetSimPeer cfg t # es) (r, []) = (s, out)" "list_all undisturbed es"
      "snd (sim_popRx s) = None"
    and again: "fold (sim_step m aes) (RemoveSimPeer u # SetSimPeer cfg' t' # es') (s, []) = (s', out')" "list_all undisturbed es'"
    and node: "cc_inv b" "cc_aes b = aes" "slot_find rs_uid rs_used u (cc_replay_slots b) = None"
    and heard: "fs = filter (frame_of_peer aes u) out" "length ts = length fs" "length fs < 2 ^ 32" "successively soon_after ts"
    and rest: "fs' = take (length fs) (filter (frame_of_peer aes u) out')" "length fs' \<le> length ts'"
      "\<forall>x \<in> set ts'. age_ms x (last ts) \<le> kReplayResyncMs"
  shows "node_hears b (zip fs ts @ zip fs' ts') = replicate (length fs) True @ replicate (length fs') False"
proof -
  have inv: "sim_inv m (Some aes) UNIV r" by (rule reached_inv [OF reached(1)])
  let ?i = "length (sr_peers r)"
  have s0: "fold (sim_step m aes) es (fst (setPeer cfg t r), []) = (s, out)" using first(1) by (simp add: sim_step_def)
  have c: "counted m aes u ?i out s"
    by (rule counted_life [OF first(2) _ s0])
       (use counted_new [OF inv drained [OF inv reached(2)], of cfg t] free peer in simp)
  then have inv2: "sim_inv m (Some aes) UNIV s" by (simp add: counted_def)
  note ds = drained [OF inv2 first(3)]
  obtain n where n: "list_all2 (numbered aes u) fs [1..<Suc n]"
    using c ds heard(1) by (auto simp: counted_def all_numbered_def)
  then have ln: "length fs = n" by (auto dest: list_all2_lengthD)
  let ?s = "fst (removePeer u s)"
  have irs: "sim_inv m (Some aes) UNIV ?s" by (rule removePeer_inv [OF inv2])
  note rm = counted_removed [OF c]
  have c0: "counted m aes u (length (sr_peers ?s)) [] (fst (setPeer cfg' t' ?s))"
    using counted_new [OF irs, of cfg' t'] rm ds free(3) peer(2) by simp
  have s0': "fold (sim_step m aes) es' (fst (setPeer cfg' t' ?s), []) = (s', out')" using again(1) by (simp add: sim_step_def)
  have c': "counted m aes u (length (sr_peers ?s)) out' s'" by (rule counted_life [OF again(2) c0 s0'])
  then obtain n' where n': "list_all2 (numbered aes u) (filter (frame_of_peer aes u) (out' @ sim_contents s')) [1..<Suc n']"
    by (auto simp: counted_def all_numbered_def)
  have "take (length fs') (filter (frame_of_peer aes u) (out' @ sim_contents s')) = fs'" using rest(1) by (auto simp: min_def)
  with list_all2_takeI [OF n', of "length fs'"] have f': "list_all2 (numbered aes u) fs' (take (length fs') [1..<Suc n'])" by simp
  have ks: "\<forall>k \<in> set (take (length fs') [1..<Suc n']). 1 \<le> k \<and> k \<le> n"
    using rest(1) ln by (auto simp: in_set_conv_nth simp del: upt_Suc)
  have "heard_upto b u 0 0" using node by (simp add: heard_upto_def)
  moreover have "list_all2 (numbered (cc_aes b) u) fs [Suc 0..<Suc (0 + length fs)]"
    using n by (simp only: node(2) ln add_0 One_nat_def)
  ultimately obtain b' where b': "heard_upto b' u n (last (0 # ts))" "cc_aes b' = aes"
    "node_hears b (zip fs ts @ zip fs' ts') = replicate n True @ node_hears b' (zip fs' ts')"
    using hears_next [of b u 0 0 ts fs "zip fs' ts'"] heard(2-4) node(2) by (auto simp only: ln add_0)
  have "node_hears b' (zip fs' ts') = replicate (length fs') False"
  proof (cases "n = 0")
    case True
    then show ?thesis using rest(1) ln by simp
  next
    case False
    then have "ts \<noteq> []" using heard(2) ln by auto
    then have t: "\<forall>x \<in> set ts'. age_ms x (last (0 # ts)) \<le> kReplayResyncMs" using rest(3) by simp
    show ?thesis
      by (rule hears_again [OF b'(1) t _ f' [folded b'(2)] ks rest(2)]) (use heard(3) ln in simp)
  qed
  with b'(3) ln show ?thesis by simp
qed

theorem readded_peer_refused_witness:
  "let b = cc_begin CcmCrypto 8 (replicate 16 9) 0; step = sim_step sample_libm (cc_aes b);
       (s, out) = fold step [SetSimPeer sample_hex 1000, SimLoop True 1000, PopSimFrame, PopSimFrame] (sim_begin True 200 SimRadio, []);
       (s', out') = fold step [RemoveSimPeer (sc_uid sample_hex), SetSimPeer sample_hex 4000, SimLoop True 4000,
         PopSimFrame, PopSimFrame] (s, [])
   in node_hears b (zip out [1000, 1010] @ zip out' [4000, 4010]) = [True, True, False, False]"
proof -
  define b where "b = cc_begin CcmCrypto 8 (replicate 16 9) 0"
  define r where "r = sim_begin True 200 SimRadio"
  let ?u = "sc_uid sample_hex" and ?step = "sim_step sample_libm (cc_aes b)"
  have u: "?u \<noteq> 0" by (simp add: sample_hex_def)
  have reached: "fold ?step [] (sim_begin True 200 SimRadio, []) = (r, [])" by (simp add: r_def)
  have r: "sim_inv sample_libm (Some (cc_aes b)) UNIV r" "sim_contents r = []" "sr_peers r = []" "snd (sim_popRx r) = None"
    using reached_inv [OF reached] by (simp_all add: r_def sim_begin_def sim_contents_clear)
      (simp_all add: sim_clear_def sim_popRx_def)
  have b: "cc_inv b" "slot_find rs_uid rs_used ?u (cc_replay_slots b) = None"
    unfolding b_def by (rule cc_begin_inv) (simp add: cc_begin_def replays.find_None_iff ReplaySlot_def sample_hex_def)
  have none: "snd (sim_popRx s) = None" if "sim_inv sample_libm (Some (cc_aes b)) UNIV s" "sim_contents s = []" for s
    using sim_queue.pop_contents [of s] that by (simp add: sim_inv_def)
  obtain s p f g where
    s: "fold ?step [SetSimPeer sample_hex 1000, SimLoop True 1000, PopSimFrame, PopSimFrame] (r, []) = (s, [f, g])"
    "frame_of_peer (cc_aes b) ?u f" "frame_of_peer (cc_aes b) ?u g" "sim_inv sample_libm (Some (cc_aes b)) UNIV s"
    "sim_contents s = []" "sr_peers s = [p]" "sc_uid (sp_cfg p) = ?u"
    by (rule first_beacon [OF r(1-3) u])
  let ?s = "fst (removePeer ?u s)"
  have q: "sim_inv sample_libm (Some (cc_aes b)) UNIV ?s" "sim_contents ?s = []" "sr_peers ?s = []"
    by (rule removePeer_inv [OF s(4)]) (use s(5-7) in \<open>simp_all add: removePeer_def\<close>)
  obtain s' p' f' g' where
    s': "fold ?step [SetSimPeer sample_hex 4000, SimLoop True 4000, PopSimFrame, PopSimFrame] (?s, []) = (s', [f', g'])"
    "frame_of_peer (cc_aes b) ?u f'" "frame_of_peer (cc_aes b) ?u g'"
    by (rule first_beacon [OF q u])
  have again: "fold ?step (RemoveSimPeer ?u # SetSimPeer sample_hex 4000 # [SimLoop True 4000, PopSimFrame, PopSimFrame]) (s, []) = (s', [f', g'])"
    using s'(1) by (simp add: sim_step_def)
  have "node_hears b (zip [f, g] [1000, 1010] @ zip [f', g'] [4000, 4010]) =
      replicate (length [f, g]) True @ replicate (length [f', g']) False"
    by (rule readded_peer_refused [OF reached r(4) _ _ u refl refl s(1) _ none [OF s(4,5)] again _ b(1) refl b(2)])
       (use r(3) s(2,3) s'(2,3) in \<open>simp_all add: undisturbed_def age_ms_def\<close>)
  moreover have "replicate (length [f, g]) True @ replicate (length [f', g']) False = [True, True, False, False]" by simp
  ultimately show ?thesis
    unfolding Let_def b_def [symmetric] r_def [symmetric] s(1) prod.case again by (simp only:)
qed

end
