(* ===== verification/Espnow.thy ===== *)
theory Espnow
  imports Node_Deps Spsc_Ring Lora_Radio
begin

text \<open>
  src/hal/RadioEspNow.h and .cpp: the ESP-NOW driver, as it is built for the ESP32 (the ESP8266 gives
  its stack the role and the channel instead of the interface). The WiFi stack is its calls and
  their results. Its receive callback runs in another task and pushes into the ring; the steps of
  ring and consumer interleave as in \<open>Spsc_Ring\<close>.
\<close>

section \<open>Driver\<close>

datatype espnow_call = EspNowInit | EspNowAddBroadcast | EspNowRegister | EspNowSend byte_list

record radio_espnow =
  en_registered :: bool
  en_tx_failed :: u32
  en_rx :: "rx_frame spsc_ring"

definition RadioEspNow :: radio_espnow where
  "RadioEspNow = \<lparr>en_registered = False, en_tx_failed = 0, en_rx = SpscRing 8 RxFrame\<rparr>"

definition espnow_begin :: "bool \<Rightarrow> radio_espnow \<Rightarrow> radio_espnow \<times> espnow_call list \<times> bool" where
  "espnow_begin init_ok r =
     (if \<not> init_ok then (r, [EspNowInit], False)
      else (r\<lparr>en_registered := True\<rparr>, [EspNowInit, EspNowAddBroadcast, EspNowRegister], True))"

text \<open>The callback: \<open>len\<close> bytes were received.\<close>

definition ingest :: "byte_list \<Rightarrow> int \<Rightarrow> u32 \<Rightarrow> radio_espnow \<Rightarrow> radio_espnow" where
  "ingest data len now r =
     (if len \<le> 0 then r
      else
        let n = nat len; n = (if n > kRxDataSize then kRxDataSize else n);
            frame = RxFrame\<lparr>rx_data := take n data @ drop n (rx_data RxFrame), rx_len := of_nat n,
              rx_timestamp_ms := now, rx_rssi := 0\<rparr>
        in r\<lparr>en_rx := fst (rb_push (en_rx r) frame)\<rparr>)"

definition espnow_transmit :: "bool \<Rightarrow> byte_list \<Rightarrow> radio_espnow \<Rightarrow> radio_espnow \<times> espnow_call list" where
  "espnow_transmit ok data r =
     (if ok then (r, [EspNowSend data]) else (r\<lparr>en_tx_failed := en_tx_failed r + 1\<rparr>, [EspNowSend data]))"

definition espnow_airtimeMs :: "nat \<Rightarrow> dbl" where "espnow_airtimeMs payload_len = 2"

definition espnow_popRx :: "radio_espnow \<Rightarrow> radio_espnow \<times> rx_frame option" where
  "espnow_popRx r = (case rb_pop (en_rx r) of (q, f) \<Rightarrow> (r\<lparr>en_rx := q\<rparr>, f))"

definition rxDropped :: "radio_espnow \<Rightarrow> u32" where "rxDropped r = rb_dropped (en_rx r)"
definition txDropped :: "radio_espnow \<Rightarrow> u32" where "txDropped r = en_tx_failed r"

section \<open>What is handed up\<close>

text \<open>The bytes of a frame of the ring.\<close>

definition frame_bytes :: "rx_frame \<Rightarrow> byte_list" where "frame_bytes f = take (unat (rx_len f)) (rx_data f)"

definition espnow_inv :: "radio_espnow \<Rightarrow> bool" where
  "espnow_inv r \<longleftrightarrow> rb_inv (en_rx r) \<and> rb_room (en_rx r) = 7"

definition espnow_waiting :: "radio_espnow \<Rightarrow> byte_list list" where
  "espnow_waiting r = map frame_bytes (rb_contents (en_rx r))"

definition espnow_push :: "radio_espnow \<Rightarrow> byte_list \<Rightarrow> radio_espnow \<times> bool" where
  "espnow_push r data =
     (ingest data (int (length data)) 0 r, data \<noteq> [] \<and> length (espnow_waiting r) < 7)"

lemma RadioEspNow_inv: "espnow_inv RadioEspNow" "espnow_waiting RadioEspNow = []"
  by (simp_all add: espnow_inv_def espnow_waiting_def RadioEspNow_def SpscRing_def rb_inv_def rb_room_def rb_capacity_def
      rb_contents_def rb_size_def)

text \<open>The driver is a buffer of seven frames of at most 64 bytes: it hands up the frames received, in
  their order, each cut to 64 bytes, and refuses the empty ones and those that find it full.\<close>

lemma ingest_waiting:
  assumes "espnow_inv r" "data \<noteq> []"
  shows "espnow_inv (ingest data (int (length data)) now r) \<and>
    espnow_waiting (ingest data (int (length data)) now r) =
      (if length (espnow_waiting r) < 7 then espnow_waiting r @ [take 64 data] else espnow_waiting r)"
proof -
  let ?n = "min (length data) 64"
  let ?f = "RxFrame\<lparr>rx_data := take ?n data @ drop ?n (rx_data RxFrame), rx_len := of_nat ?n,
      rx_timestamp_ms := now, rx_rssi := 0\<rparr>"
  have i: "rb_inv (en_rx r)" "rb_room (en_rx r) = 7" using assms(1) by (simp_all add: espnow_inv_def)
  have g: "ingest data (int (length data)) now r = r\<lparr>en_rx := fst (rb_push (en_rx r) ?f)\<rparr>"
    using assms(2) by (simp add: ingest_def Let_def min_def)
  have b: "frame_bytes ?f = take 64 data" by (simp add: frame_bytes_def RxFrame_def unat_of_nat_small min_def)
  have l: "length (espnow_waiting r) = length (rb_contents (en_rx r))" by (simp add: espnow_waiting_def)
  show ?thesis
    using ring.push_inv [OF i(1), of ?f] ring.push_accepts [OF i(1), of ?f] ring.push_contents [OF i(1), of ?f] i b l
    unfolding g by (auto simp: espnow_inv_def espnow_waiting_def)
qed

interpretation espnow: bounded_fifo espnow_inv espnow_waiting "\<lambda>_. 7" "\<lambda>data. data \<noteq> [] \<and> length data \<le> 64"
  "\<lambda>r data. if length data \<le> 64 then espnow_push r data else (r, False)"
  "\<lambda>r. case espnow_popRx r of (r, f) \<Rightarrow> (r, map_option frame_bytes f)"
proof unfold_locales
  fix r :: radio_espnow and data :: byte_list
  assume r: "espnow_inv r"
  then have i: "rb_inv (en_rx r)" "rb_room (en_rx r) = 7" by (simp_all add: espnow_inv_def)
  have e: "ingest [] 0 0 r = r" by (simp add: ingest_def)
  note w = ingest_waiting [OF r, of data 0]
  show "length (espnow_waiting r) \<le> 7" using ring.contents_bound [OF i(1)] i(2) by (simp add: espnow_waiting_def)
  show "espnow_inv (fst (if length data \<le> 64 then espnow_push r data else (r, False))) \<and> (7 :: nat) = 7"
    using w r e by (cases "data = []") (simp_all add: espnow_push_def)
  show "snd (if length data \<le> 64 then espnow_push r data else (r, False)) \<longleftrightarrow>
      (data \<noteq> [] \<and> length data \<le> 64) \<and> length (espnow_waiting r) < 7"
    by (simp add: espnow_push_def)
  show "espnow_waiting (fst (if length data \<le> 64 then espnow_push r data else (r, False))) =
      (if snd (if length data \<le> 64 then espnow_push r data else (r, False)) then espnow_waiting r @ [data] else espnow_waiting r)"
    using w e by (cases "data = []") (simp_all add: espnow_push_def)
  show "espnow_inv (fst (case espnow_popRx r of (r, f) \<Rightarrow> (r, map_option frame_bytes f))) \<and> (7 :: nat) = 7"
    using ring.pop_inv [OF i(1)] i(2) by (cases "rb_pop (en_rx r)") (simp add: espnow_popRx_def espnow_inv_def)
  show "case espnow_waiting r of
      [] \<Rightarrow> snd (case espnow_popRx r of (r, f) \<Rightarrow> (r, map_option frame_bytes f)) = None \<and>
        espnow_waiting (fst (case espnow_popRx r of (r, f) \<Rightarrow> (r, map_option frame_bytes f))) = []
    | x # xs \<Rightarrow> snd (case espnow_popRx r of (r, f) \<Rightarrow> (r, map_option frame_bytes f)) = Some x \<and>
        espnow_waiting (fst (case espnow_popRx r of (r, f) \<Rightarrow> (r, map_option frame_bytes f))) = xs"
    using ring.pop_contents [OF i(1)]
    by (cases "rb_contents (en_rx r)"; cases "rb_pop (en_rx r)") (simp_all add: espnow_popRx_def espnow_waiting_def)
qed

end
