(* ===== verification/Pilot.thy ===== *)
theory Pilot
  imports Fc_Link_Runs Gnss_Props
begin

text \<open>
  The wiring of the main loop behind Follow (src/main.cpp): the link to the flight controller, the
  GPS driver of a build that has one, and the Follow controller, which reads the gate, the sticks and
  the altitude from the link and the own position from the GPS driver, or without one from the link.
  Behind both a waypoint goes out on live data only.
\<close>

section \<open>A pass of the main loop\<close>

text \<open>One pass: the link's service, the GPS driver's in a build with \<open>GNSS_ENABLED\<close>, a Follow cycle
  that reads them, and the cycle's commands to the link. Beside the state are kept the replies the
  link was given and the bytes the GPS driver took.\<close>

datatype pilot_event = Pass peer_table byte_list "(u32 \<times> u8) list" u32 u32 | Reconfigure follow_config

record pilot =
  pl_link :: fc_link
  pl_gps :: gnss
  pl_follow :: follow
  pl_replies :: "(u32 \<times> msp_reply) list"
  pl_read :: byte_list

definition own_location :: "bool \<Rightarrow> fc_link \<Rightarrow> gnss \<Rightarrow> node_location" where
  "own_location gnss_enabled l g = (if gnss_enabled then gn_cached g else fl_loc l)"

text \<open>The link and the GPS driver as the cycle found them, and what it sent, are part of the result.
  \<open>now\<close> is the clock of the pass, \<open>gps_now\<close> the one the GPS driver reads itself. The node's part of the
  pass is the table it leaves, which is any; the configuration \<open>setup\<close> applies is the first
  \<open>Reconfigure\<close>, and a pass during an upload does nothing here.\<close>

fun pilot_step :: "libm \<Rightarrow> bool \<Rightarrow> pilot_event \<Rightarrow> pilot \<Rightarrow> (pilot \<times> fc_link \<times> fc_cmd list) option" where
  "pilot_step m gnss_enabled (Pass t rx gps_rx now gps_now) w =
     (let (l, out, rest) = link_service now rx (pl_link w);
          g = (if gnss_enabled then fst (gnss_service gps_rx gps_now (pl_gps w)) else pl_gps w)
      in do {
        (c, cmds) \<leftarrow> follow_service m t (own_location gnss_enabled l g) (link_view l) (pl_follow w) now;
        Some (\<lparr>pl_link = fst (link_commands cmds l), pl_gps = g, pl_follow = c,
               pl_replies = pl_replies w @ map (Pair now) (snd (msp_run (fl_parser (pl_link w)) (take 256 rx))),
               pl_read = pl_read w @ (if gnss_enabled then map snd (take kGnssBudget gps_rx) else [])\<rparr>, l, cmds)
      })"
| "pilot_step m gnss_enabled (Reconfigure cfg) w =
     Some (w\<lparr>pl_follow := fst (applyConfig (pl_follow w) cfg)\<rparr>, pl_link w, [])"

text \<open>Power-on: \<open>setup\<close> starts the link and, in a build that has it, the GPS driver.\<close>

definition pilot_setup :: "i8 \<Rightarrow> i8 \<Rightarrow> u8 \<Rightarrow> u32 \<Rightarrow> pilot" where
  "pilot_setup pin_rx pin_tx rate_hz t =
     \<lparr>pl_link = link_begin MspFcLink, pl_gps = fst (gnss_begin pin_rx pin_tx rate_hz t Gnss),
      pl_follow = FollowController, pl_replies = [], pl_read = []\<rparr>"

fun pilot_run :: "libm \<Rightarrow> bool \<Rightarrow> pilot_event list \<Rightarrow> pilot \<Rightarrow> (pilot_event \<times> pilot \<times> fc_link \<times> fc_cmd list) list option" where
  "pilot_run m gnss_enabled [] w = Some []"
| "pilot_run m gnss_enabled (e # es) w = do {
     (w, l, cmds) \<leftarrow> pilot_step m gnss_enabled e w;
     out \<leftarrow> pilot_run m gnss_enabled es w;
     Some ((e, w, l, cmds) # out)
   }"

fun tables_ok :: "pilot_event \<Rightarrow> bool" where
  "tables_ok (Pass t rx gps_rx now gps_now) = pt_inv t"
| "tables_ok (Reconfigure cfg) = True"

section \<open>Lemmas\<close>

definition pilot_ok :: "bool \<Rightarrow> pilot \<Rightarrow> bool" where
  "pilot_ok gnss_enabled w \<longleftrightarrow> link_ok (pl_link w, pl_replies w) \<and> follow_inv (pl_follow w) \<and>
     backed (pl_gps w) (pl_read w) \<and> gn_serial (pl_gps w)"

text \<open>The position of the GPS driver: made of frames that arrived, and if the driver is past its sweep,
  no older than the silence it tolerates.\<close>

definition live_gps :: "byte_list \<Rightarrow> u32 \<Rightarrow> gnss \<Rightarrow> bool" where
  "live_gps read now g \<longleftrightarrow> loc_valid (gn_cached g) \<and> location_backed g read \<and>
     (gn_state g = Parse \<longrightarrow> now - gn_last_pvt_ms g \<le> kSilenceTimeoutMs)"

text \<open>A pass that sends a waypoint has live data behind it.\<close>

fun sends_on_live_data :: "bool \<Rightarrow> pilot_event \<times> pilot \<times> fc_link \<times> fc_cmd list \<Rightarrow> bool" where
  "sends_on_live_data gnss_enabled (Pass t rx gps_rx now gps_now, w, l, cmds) \<longleftrightarrow>
     waypoints cmds = [] \<or> gcsNavActive l \<and> live_status (pl_replies w) l \<and>
       (if gnss_enabled then live_gps (pl_read w) gps_now (pl_gps w) else live_fix (pl_replies w) l)"
| "sends_on_live_data gnss_enabled (Reconfigure cfg, w, l, cmds) \<longleftrightarrow> waypoints cmds = []"

lemma gps_service_backed:
  assumes "backed g read" "gn_serial g"
  shows "backed (fst (gnss_service available now g)) (read @ map snd (take 256 available)) \<and>
    gn_serial (fst (gnss_service available now g))"
  using drain_backed [of "(g, [])" read "take 256 available"] assms sweep_backed silence_backed service_serial
  by (simp add: gnss_service_eq Let_def)

lemma gps_service_fresh:
  "gn_serial g \<Longrightarrow> gn_state (fst (gnss_service available now g)) = Parse \<Longrightarrow>
     now - gn_last_pvt_ms (fst (gnss_service available now g)) \<le> kSilenceTimeoutMs"
proof -
  assume g: "gn_serial g" and p: "gn_state (fst (gnss_service available now g)) = Parse"
  define h where "h = fst (fold gnss_byte (take 256 available) (g, []))"
  have sweep: "now - gn_last_pvt_ms (fst (sweep_step now h)) \<le> kSilenceTimeoutMs"
    if "gn_state h = Sweep" "gn_state (fst (sweep_step now h)) = Parse"
    using that by (simp add: sweep_step_def setBaud_def gnss_sendConfig_def Let_def split: if_splits)
  have silent: "now - gn_last_pvt_ms (check_silence now h) \<le> kSilenceTimeoutMs" if "gn_state (check_silence now h) = Parse"
    using that by (auto simp: check_silence_def not_less split: if_splits)
  show ?thesis
    using p sweep silent by (auto simp: gnss_service_eq [OF g] Let_def h_def [symmetric] split: if_splits)
qed

lemma pilot_step_ok:
  assumes "pilot_ok b w" "tables_ok e"
  shows "\<exists>w' l cmds. pilot_step m b e w = Some (w', l, cmds) \<and> pilot_ok b w' \<and> sends_on_live_data b (e, w', l, cmds)"
proof (cases e)
  case (Pass t rx gps_rx now gps_now)
  obtain l1 out rest where s: "link_service now rx (pl_link w) = (l1, out, rest)" by (metis prod_cases3)
  define hs where "hs = pl_replies w @ map (Pair now) (snd (msp_run (fl_parser (pl_link w)) (take 256 rx)))"
  define g where "g = (if b then fst (gnss_service gps_rx gps_now (pl_gps w)) else pl_gps w)"
  define bytes where "bytes = pl_read w @ (if b then map snd (take 256 gps_rx) else [])"
  have i: "link_inv hs l1" "kept_inv hs l1" "link_fresh l1" "fl_started l1"
    using link_service_inv [OF _ _ _ s, of "pl_replies w"] assms(1) by (auto simp: pilot_ok_def hs_def)
  have gps: "backed g bytes" "gn_serial g"
    using gps_service_backed [of "pl_gps w" "pl_read w"] assms(1)
    by (cases b; simp add: g_def bytes_def pilot_ok_def)+
  have fresh: "gn_state g = Parse \<longrightarrow> gps_now - gn_last_pvt_ms g \<le> kSilenceTimeoutMs" if b
    using gps_service_fresh assms(1) that by (simp add: g_def pilot_ok_def)
  have c: "follow_inv (pl_follow w)" "pt_inv t" using assms by (simp_all add: pilot_ok_def Pass)
  let ?self = "own_location b l1 g"
  obtain c' cmds where f: "follow_service m t ?self (link_view l1) (pl_follow w) now = Some (c', cmds)" "follow_inv c'"
    "output_safe m (Service t ?self (link_view l1) now, c', cmds)"
    using follow_service_spec [OF c] by metis
  obtain l2 o2 where k: "link_commands cmds l1 = (l2, o2)" by fastforce
  let ?w = "\<lparr>pl_link = l2, pl_gps = g, pl_follow = c', pl_replies = hs, pl_read = bytes\<rparr>"
  have "link_ok (l2, hs)"
    using i commands_cache [OF k]
    by (simp add: link_inv_cong [of l1 l2] link_fresh_cong [of l1 l2] kept_inv_cong [of l1 l2])
  moreover have w: "waypoints cmds = [] \<or> gcsNavActive l1 \<and> loc_valid ?self"
    using f(3) by (cases "waypoints cmds") (auto simp: waypoint_safe_def link_view_def)
  moreover have "pilot_step m b e w = Some (?w, l1, cmds)"
    by (simp add: Pass s f(1) k hs_def Let_def g_def [symmetric] bytes_def)
  moreover have "sends_on_live_data b (e, ?w, l1, cmds)"
    using w link_answers [OF i(1,3)] gps(1) fresh
    by (auto simp: Pass own_location_def live_gps_def backed_def gcsNavActive_def)
  ultimately show ?thesis using f(2) gps by (auto simp: pilot_ok_def)
next
  case (Reconfigure cfg)
  show ?thesis using assms(1) applyConfig_inv [of "pl_follow w" cfg] by (simp add: Reconfigure pilot_ok_def)
qed

lemma pilot_run_ok:
  "pilot_ok b w \<Longrightarrow> list_all tables_ok es \<Longrightarrow>
     \<exists>out. pilot_run m b es w = Some out \<and> map fst out = es \<and> list_all (sends_on_live_data b) out"
proof (induction es arbitrary: w)
  case (Cons e es)
  obtain w' l cmds where s: "pilot_step m b e w = Some (w', l, cmds)" "pilot_ok b w'" "sends_on_live_data b (e, w', l, cmds)"
    using pilot_step_ok [OF Cons.prems(1), of e m] Cons.prems(2) by auto
  obtain out where "pilot_run m b es w' = Some out" "map fst out = es" "list_all (sends_on_live_data b) out"
    using Cons.IH [OF s(2)] Cons.prems(2) by auto
  with s(1,3) show ?case by simp
qed simp

lemma pilot_setup_ok: "pilot_ok b (pilot_setup pin_rx pin_tx rate_hz t)"
proof -
  let ?g = "fst (gnss_begin pin_rx pin_tx rate_hz t Gnss)"
  have "parser_backed Gnss []" using ubx_start(2) by (auto simp: parser_backed_def Gnss_def)
  then have "parser_backed ?g []" by (rule reset_backed) (simp add: gnss_begin_def setBaud_def Let_def)
  moreover have "gn_cached ?g = fold loc_event [] NodeLocation" "\<not> gn_fault ?g"
    by (simp_all add: gnss_begin_def setBaud_def Let_def Gnss_def)
  ultimately have "backed ?g []" unfolding backed_def location_backed_def by (metis list.set(1) empty_iff)
  then show ?thesis
    using link_start FollowController_inv begin_serial(1) [of pin_rx pin_tx rate_hz t Gnss]
    by (simp add: pilot_ok_def pilot_setup_def)
qed

section \<open>Properties\<close>

text \<open>C21: Follow obeys a live flight controller: over any run of passes of the main loop and
  configuration changes from power-on, whatever the flight controller and the GPS module send and
  whoever is in the peer table, every pass completes, and a pass that sends a waypoint does so with
  GCS NAV active in a status reply no more than a second old. Without a GPS module of its own the
  node sends it with the own position of a GPS reply with a fix no more than two seconds old. In a
  build with one, the position is the module's, claimed valid, made of frames that stand in the bytes
  received, and once the driver is past its sweep the module has spoken or been set up within four
  seconds.\<close>

theorem follow_obeys_live_fc:
  assumes "list_all tables_ok es"
  shows "\<exists>out. pilot_run m gnss_enabled es (pilot_setup pin_rx pin_tx rate_hz t) = Some out \<and>
    map fst out = es \<and> list_all (sends_on_live_data gnss_enabled) out"
  by (rule pilot_run_ok [OF pilot_setup_ok assms])

text \<open>A scene: the boxes GCS NAV and ARM, both active, and a fix.\<close>

definition sample_bytes :: byte_list where
  "sample_bytes = v1_frame 0x3E kMspBoxIds [31, 0] @ v1_frame 0x3E kMspStatus [0, 0, 0, 0, 0, 0, 3, 0, 0, 0] @
     v1_frame 0x3E kMspRawGps (raw_gps_bytes sample_fix)"

definition chase :: follow_config where "chase = FollowConfig\<lparr>fw_targetUid := 42\<rparr>"

lemma chase_valid: "followValidateConfig chase = None"
  unfolding chase_def by code_simp

lemma sample_link:
  defines "l \<equiv> fst (link_service 1000 sample_bytes (link_begin MspFcLink))"
  shows "gcsNavActive l" "loc_valid (fl_loc l)"
  unfolding l_def by code_simp+

text \<open>Told to follow the leader, the first cycle locks it and sends a waypoint.\<close>

lemma chase_sends:
  assumes "fc_gcsNav fc" "loc_valid self"
  shows "\<exists>c' cmds. follow_service sample_libm leader_table self fc (fst (applyConfig FollowController chase)) 1000 = Some (c', cmds) \<and>
    length (waypoints cmds) = 1"
proof -
  let ?c = "fst (applyConfig FollowController chase)"
  have f: "fo_config ?c = chase" "fo_state ?c = FOLLOW_LOCK_ACQUIRING" "follow_inv ?c" "\<not> fo_started ?c"
    using applyConfig_inv [OF FollowController_inv, of chase]
    by (simp_all add: applyConfig_def chase_valid Let_def forceReacquire_def)
      (simp_all add: chase_def FollowController_def FollowConfig_def)
  define c0 where "c0 = ?c\<lparr>fo_started := True, fo_nextRunMs := 1000 + 1000 div ucast (fw_emitHz (fo_config ?c))\<rparr>"
  define c1 where "c1 = prearm_check fc c0"
  have c1: "fo_config c1 = chase" "fo_state c1 = FOLLOW_LOCK_ACQUIRING" "slot_sane c1"
    using f by (simp_all add: c1_def c0_def follow_inv_def slot_sane_def)
  have t: "fw_targetUid chase = 42" "fw_peerTimeoutMs chase = 1500" "0 \<le> fw_maxTargetDistM chase"
    by (simp_all add: chase_def FollowConfig_def)
  define c2 where "c2 = c1\<lparr>fo_lockedUid := pe_uid leader, fo_lockedName := copy_locked_name (pe_name leader),
    fo_state := FOLLOW_LOCK_LOCKED\<rparr>"
  have l: "resolveLock sample_libm leader_table self c1 1000 = (c2, Some leader)"
    using c1 t leader_found leader_fresh by (simp add: resolveLock_def lock_candidate_def Let_def c2_def)
  obtain c' cmds where tr: "follow_track sample_libm fc self c2 leader 1000 = (c', cmds)" by fastforce
  have "slot_sane c2" using c1(3) by (simp add: c2_def slot_sane_def)
  note k = follow_track_spec [OF this tr]
  have "\<not> beyond sample_libm self (fo_config c2) tg" for tg
    using t(3) c1(1) by (simp add: beyond_def sample_distance dbl_less_def c2_def)
  with k have w: "length (waypoints cmds) = 1" by auto
  have "follow_cycle sample_libm leader_table self fc c0 1000 = (c', cmds)"
    using assms l tr by (simp add: follow_cycle_def Let_def c1_def [symmetric])
  moreover have "cycle_due ?c 1000" using f(4) by (simp add: cycle_due_def)
  ultimately obtain needs where
    s: "follow_service sample_libm leader_table self fc ?c 1000 = Some (c', needs # cmds)"
    using service_due [OF f(3), of 1000 sample_libm leader_table self fc] by (auto simp: c0_def)
  then have "waypoints (needs # cmds) = waypoints cmds"
    by (auto simp: follow_service_def Let_def split: if_splits prod.splits)
  with s w show ?thesis by auto
qed

theorem follow_obeys_live_fc_witness:
  "\<exists>out. pilot_run sample_libm False [Reconfigure chase, Pass leader_table sample_bytes [] 1000 1000]
       (pilot_setup 3 4 10 0) = Some out \<and>
     length (waypoints (snd (snd (snd (out ! 1))))) = 1 \<and> list_all (sends_on_live_data False) out"
proof -
  let ?es = "[Reconfigure chase, Pass leader_table sample_bytes [] 1000 1000]"
  obtain l rq rest where s: "link_service 1000 sample_bytes (link_begin MspFcLink) = (l, rq, rest)" by (metis prod_cases3)
  have "fc_gcsNav (link_view l)" "loc_valid (fl_loc l)" using sample_link by (simp_all add: s link_view_def)
  from chase_sends [OF this] obtain c' cmds where
    f: "follow_service sample_libm leader_table (fl_loc l) (link_view l) (fst (applyConfig FollowController chase)) 1000 =
      Some (c', cmds)" "length (waypoints cmds) = 1" by blast
  have "list_all tables_ok ?es" by (simp add: leader_table_inv)
  from follow_obeys_live_fc [OF this, of sample_libm False 3 4 10 0] obtain out where
    o: "pilot_run sample_libm False ?es (pilot_setup 3 4 10 0) = Some out" "list_all (sends_on_live_data False) out" by blast
  have "snd (snd (snd (out ! 1))) = cmds"
    using o(1) s f(1) by (auto simp: pilot_setup_def own_location_def Let_def)
  with o f(2) show ?thesis by blast
qed

end
