(* ===== verification/Spec2Isabelle.thy ===== *)
theory Spec2Isabelle
  imports Protocol Peer_Table Frame_Log Log_Ring Tx_Slot Spsc_Ring Scheduler Rate_Control
    Lora_Band Loop_Stats Aes Ccm Sha256 Crypto Node_Deps Node Node_Inv Node_Runs Node_Props
    Msp_Frame Msp_Fc Ubx Follow_Runs Config_Runs Fc_Link_Out Lora_Frames Gnss_Props
    Sim_Frames Sim_Replay Espnow Pilot
begin

text \<open>
  FormationFlight v2: a verification library for its firmware. Nodes on aircraft beacon their
  positions by radio, keep a table of the peers they hear, show them on the flight controller's
  radar, and can steer the aircraft into a slot behind one of them (Follow). The library models the
  hardware-independent core, lib/ff_core, and the drivers and request handlers of src/hal and
  src/main.cpp that keep state, and states what makes each of them correct.

  How the parts interact. A \<open>Node\<close> (node.cpp) owns the peer table, the frame log, the rate
  controller and the counters. The scheduler calls it back for beacons, announcements, expiry and
  radar ticks; each beacon is encoded (protocol.cpp), sealed (crypto.cpp over ccm.cpp, aes.cpp and
  sha256.cpp) and handed to a radio of the hub (radio_hub.cpp). Received frames come back through
  the rings of the drivers to \<open>onReceive\<close>. The position comes from the GPS driver (ubx.cpp) or
  the flight controller link (msp_parser.cpp, msp_fc.cpp). Each pass of the main loop also runs
  Follow (follow.cpp, geo.cpp) on what the link last heard, and Follow sends its waypoints back
  over the link. The configuration (config.cpp) is loaded at boot, changed by requests of the web
  server and saved in a file. The simulator adds a radio whose frames are made, not heard.

  Conventions. An integer of \<open>n\<close> bits is an \<open>n word\<close>, so wrap-around is the code's; a clock in
  milliseconds is a \<open>32 word\<close> and ages are differences. A struct is a record with the source's
  members, a buffer a list of bytes. An operation takes the state and returns it. Errors and
  early returns are values; \<open>None\<close> also stands for behaviour C++ leaves undefined (a read past a
  payload, a conversion out of range, a division by zero), and the theorems exclude it where the
  code does. A \<open>float\<close> or \<open>double\<close> is the rational it denotes and every operation rounds as
  IEEE 754 does (\<open>Binary_Float\<close>), with an unbounded exponent.

  Theories and sources, in the order of the code.
  \<^item> \<open>Prelude\<close>: integer types, C strings, word and list lemmas, the fact collections.
  \<^item> \<open>Wire_Format\<close>, \<open>Protocol\<close>: wire_format.h, protocol.h and .cpp. Encoders and decoders invert
    each other on every buffer, and no decoder reads past one.
  \<^item> \<open>Uid_Slots\<close>, \<open>Rolling_Log\<close>, \<open>Bounded_Fifo\<close>, \<open>Frame_Parser\<close>: contracts that several
    components share, as locales: arrays of slots keyed by UID (peer table, replay table), rings
    that overwrite the oldest entry (frame log, log, raw GPS tap), bounded queues that refuse
    (receive ring, transmit slot, the queues of the simulator and of ESP-NOW), byte-at-a-time
    parsers (MSP, UBX). Each is interpreted on the code's model where that stands.
  \<^item> \<open>Peer_Table\<close>, \<open>Frame_Log\<close>, \<open>Log_Ring\<close>, \<open>Tx_Slot\<close>, \<open>Spsc_Ring\<close>: the files of these names (log.cpp,
    ring_buffer.h). \<open>Spsc_Ring\<close> splits push and pop at their memory accesses; the theorem is about
    every interleaving, and compares what comes out with what \<open>push\<close> was called with.
  \<^item> \<open>Scheduler\<close>: scheduler.cpp. Callbacks are a parameter, the locale \<open>timer_client\<close> is their
    contract, interpreted on the node's timers.
  \<^item> \<open>Binary_Float\<close>, \<open>Rate_Control\<close>, \<open>Lora_Band\<close>, \<open>Loop_Stats\<close>: floating point; rate_control.cpp and
    airtime.cpp; lora_band.cpp; loop_stats.cpp.
  \<^item> \<open>Aes\<close>, \<open>Ccm\<close>, \<open>Sha256\<close>, \<open>Crypto\<close>: the ciphers, the streaming hash, the frame cipher with its replay
    window. Only sealed packets get in, and a frame heard is refused for ten seconds; the window
    implements its specification but for one case, which is a finding.
  \<^item> \<open>Node_Deps\<close>, \<open>Node\<close>: node.h, node.cpp, radio_hub.cpp. \<open>Node_Inv\<close> and \<open>Node_Runs\<close> prove the
    invariant over the scheduler's callbacks and the runs, \<open>Node_Props\<close> the node's theorems.
  \<^item> \<open>Msp_Frame\<close>, \<open>Msp_Fc\<close>, \<open>Ubx\<close>: msp_crc.h, msp_parser.cpp, msp_fc.cpp, msp_radar.cpp, ubx.cpp.
    A parser reports the frames that stand in its input, and nothing else; the MSP parser finds
    them between any bytes that do not hold the start of a reply.
  \<^item> \<open>Float_Math\<close>, \<open>Geo\<close>, \<open>Follow_Config\<close>, \<open>Follow\<close>: geo.cpp and follow.cpp. \<open>Follow_Props\<close> and
    \<open>Follow_Runs\<close> prove the safety rules of every waypoint over any run of cycles, among them that
    the sticks never take the slot through the leader, and that a ready cycle sends its waypoint.
  \<^item> \<open>Config\<close>, \<open>Config_Store\<close>: config.cpp, src/hal/ConfigStore.cpp, the boot sequence and the handlers
    that change the configuration. \<open>Config_Props\<close> and \<open>Config_Runs\<close>: settings stay valid, a save
    that was written whole survives a boot, and the two ways in which a configuration is lost
    (findings).
  \<^item> \<open>Fc_Link\<close>: src/hal/MspFcLink.cpp and MspRadarOutput.cpp. \<open>Fc_Link_Runs\<close>: what the link answers is
    backed by replies, young ones for modes and position, the last of their kind for sticks,
    altitude and platform; \<open>Fc_Link_Out\<close>: the pace of the requests and the commands it writes.
  \<^item> \<open>Pilot\<close>: the wiring of the main loop in src/main.cpp as far as Follow depends on it: the link,
    the GPS driver of a build with \<open>GNSS_ENABLED\<close>, and the Follow cycle on their answers. Behind all
    of it a waypoint rests on live data.
  \<^item> \<open>Hw_Layout\<close>, \<open>Hw_Props\<close>: hw_layout.cpp and src/hal/HardwareConfig.cpp: the board's layout is
    found, parsed and usable for every choice of power.
  \<^item> \<open>Lora_Radio\<close>: src/hal/RadioLoRa.cpp. \<open>Lora_Runs\<close>: the front ends are switched safely over any
    life; \<open>Lora_Frames\<close>: frames are sent in turn, the frames handed up are those the chips heard less
    the copies, the watchdog, and the interrupt that two radios can miss (a finding).
  \<^item> \<open>Gnss\<close>, \<open>Gnss_Props\<close>: src/hal/DirectGpsLocationSource.cpp and gnss_link.h.
  \<^item> \<open>Espnow\<close>: src/hal/RadioEspNow.cpp.
  \<^item> \<open>Sim_Traffic\<close>, \<open>Sim_Radio\<close>: sim_traffic.cpp, src/hal/SimRadio.cpp and its requests in
    src/hal/WebServer.cpp. \<open>Sim_Motion\<close> bounds the simulated states, \<open>Sim_Frames\<close> says what the
    virtual radio hands up, \<open>Sim_Replay\<close> what a node makes of a peer that is removed and set up
    again.

  Bounds and fuel. No definition runs on fuel: recursion is structural or has a measure. The two
  loops the code leaves open, the padding of the hash (sha256.cpp) and the search below the power
  ceiling (hw_layout.cpp), are \<open>while_option\<close>, and their termination is proved, for the latter on
  every layout the loader can produce. Loops over a port take their budget from the code, 256
  bytes a service; what is left is the next service's input.

  Parameters, for code that is not in the repository or is hardware. The trigonometric functions
  of libm and the result of \<open>lround\<close> out of range are a record of functions (\<open>libm\<close>); the JSON
  library is one record of its calls for each document (\<open>json_api\<close>, \<open>layout_api\<close>, \<open>sim_api\<close>),
  the file system and the flash likewise; \<open>vsnprintf\<close> is its result; the random source of the node
  is a stream of samples; LoRa chips behind RadioLib are the list of the calls and their answers;
  serial ports are the bytes they yield and the list of the writes. What a theorem assumes of them
  it states as hypotheses, and a witness discharges them on a concrete instance.

  Not modelled. src/hal/BoardPower.cpp is a sequence of calls on a power management chip. The rest
  of src/hal/WebServer.cpp and src/main.cpp is input and output: status documents, uploads, the
  display, WiFi set-up and the rest of the wiring; so are the handlers that only render state.
  The asynchronous web server runs its handlers in another task than the main loop on the ESP32;
  the model takes a handler as one step. src/lib is the first version of the firmware, kept for
  reference and left out of the build by \<open>build_src_filter\<close> in platformio.ini; scripts, targets,
  hardware and html hold no code of the running firmware's core.
\<close>

end
